(* ===== verification/Prelude.thy ===== *)
theory Prelude
  imports Complex_Main
begin

text \<open>
  The vocabulary every component shares.

  \<^item> Errors: the NestJS exceptions the services throw, with the machine-readable code of the
    response body (or the message where the code has none).
  \<^item> Tables: a Prisma model is the list of its rows. The queries the services use become list
    functions: \<open>findUnique\<close>, \<open>findMany\<close>, \<open>updateMany\<close> with its row count.
  \<^item> Locales: \<open>row_store\<close> is what a service relies on when it reads one row by its key and
    writes it back under a guard; \<open>versioned_store\<close> adds the version column of optimistic
    concurrency; \<open>review_flow\<close> is the contract of a maker-checker workflow.
\<close>

section \<open>Identifiers, time, errors\<close>

type_synonym ident = string
type_synonym time = int  \<comment> \<open>milliseconds since the epoch, as \<open>Date.getTime\<close>\<close>

datatype http_error =
    BadRequest string
  | Unauthorized string
  | Forbidden string
  | NotFound string
  | Conflict string
  | Locked string  \<comment> \<open>status 423\<close>
  | ServerError string
  | DbError string  \<comment> \<open>a Prisma known request error, by its code\<close>

named_theorems tbl_simps \<open>simplification rules of the table operations\<close>
named_theorems guard_defs \<open>definitions of the guards that precede a write\<close>
named_theorems data_defs \<open>definitions of the rows a write produces\<close>

section \<open>Tables\<close>

text \<open>A table is a list of rows in insertion order, \<open>key\<close> its primary-key column.\<close>

definition find_unique :: "('r \<Rightarrow> 'k) \<Rightarrow> 'k \<Rightarrow> 'r list \<Rightarrow> 'r option" where
  "find_unique key k t = List.find (\<lambda>r. key r = k) t"

definition update_many :: "('r \<Rightarrow> bool) \<Rightarrow> ('r \<Rightarrow> 'r) \<Rightarrow> 'r list \<Rightarrow> 'r list" where
  "update_many P f t = map (\<lambda>r. if P r then f r else r) t"

definition count_rows :: "('r \<Rightarrow> bool) \<Rightarrow> 'r list \<Rightarrow> nat" where
  "count_rows P t = length (filter P t)"

definition unique_keys :: "('r \<Rightarrow> 'k) \<Rightarrow> 'r list \<Rightarrow> bool" where
  "unique_keys key t \<longleftrightarrow> distinct (map key t)"

lemma find_unique_Nil [simp, tbl_simps]: "find_unique key k [] = None"
  by (simp add: find_unique_def)

lemma find_unique_Cons [simp, tbl_simps]:
  "find_unique key k (r # t) = (if key r = k then Some r else find_unique key k t)"
  by (simp add: find_unique_def)

lemma update_many_Nil [simp, tbl_simps]: "update_many P f [] = []"
  by (simp add: update_many_def)

lemma update_many_Cons [simp, tbl_simps]:
  "update_many P f (r # t) = (if P r then f r else r) # update_many P f t"
  by (simp add: update_many_def)

lemma count_rows_Nil [simp, tbl_simps]: "count_rows P [] = 0"
  by (simp add: count_rows_def)

lemma count_rows_Cons [simp, tbl_simps]:
  "count_rows P (r # t) = (if P r then Suc (count_rows P t) else count_rows P t)"
  by (simp add: count_rows_def)

lemma length_update_many [simp]: "length (update_many P f t) = length t"
  by (simp add: update_many_def)

lemma set_update_many: "set (update_many P f t) = (\<lambda>r. if P r then f r else r) ` set t"
  by (simp add: update_many_def)

lemma update_many_obtain:
  assumes "v \<in> set (update_many P f t)"
  obtains r where "r \<in> set t" "\<not> P r" "v = r" | r where "r \<in> set t" "P r" "v = f r"
  using assms by (auto simp: set_update_many split: if_splits)

lemma map_key_update_many:
  "(\<And>r. key (f r) = key r) \<Longrightarrow> map key (update_many P f t) = map key t"
  by (induction t) auto

lemma unique_keys_update_many:
  "(\<And>r. key (f r) = key r) \<Longrightarrow> unique_keys key t \<Longrightarrow> unique_keys key (update_many P f t)"
  by (simp add: unique_keys_def map_key_update_many)

text \<open>Keys and untouched rows after an update, and lists of pending work.\<close>

lemma in_set_remove1D: "x \<in> set (remove1 y xs) \<Longrightarrow> x \<in> set xs"
  by (meson notin_set_remove1)

lemma distinct_map_remove1: "distinct (map f xs) \<Longrightarrow> distinct (map f (remove1 y xs))"
  by (induction xs) (auto dest: in_set_remove1D)

lemma untouched_row:
  assumes "r \<in> set t" and "\<not> P r"
  shows "r \<in> set (update_many P f t)"
  unfolding set_update_many by (rule image_eqI [where x = r]) (simp_all add: assms)

lemma keys_update_many: "(\<And>r. key (f r) = key r) \<Longrightarrow> key ` set (update_many P f t) = key ` set t"
  using map_key_update_many [of key f P t] by (simp only: list.set_map [symmetric])

lemma ball_remove1: "\<forall>x\<in>set xs. P x \<Longrightarrow> \<forall>x\<in>set (remove1 y xs). P x"
  by (meson notin_set_remove1)

text \<open>What a later state of a table keeps of its rows.\<close>

definition covers :: "('r \<Rightarrow> 'r \<Rightarrow> bool) \<Rightarrow> 'r list \<Rightarrow> 'r list \<Rightarrow> bool" where
  "covers le t t' \<longleftrightarrow> (\<forall>r\<in>set t. \<exists>r'\<in>set t'. le r r')"

lemma covers_refl: "(\<And>r. le r r) \<Longrightarrow> covers le t t"
  by (auto simp: covers_def)

lemma covers_trans:
  "(\<And>a b c. le a b \<Longrightarrow> le b c \<Longrightarrow> le a c) \<Longrightarrow> covers le t t' \<Longrightarrow> covers le t' t'' \<Longrightarrow> covers le t t''"
  unfolding covers_def by meson

lemma covers_append: "covers le t t' \<Longrightarrow> covers le t (t' @ u)"
  by (force simp: covers_def)

lemma covers_update:
  assumes "\<And>r. le r r" and "\<And>r. P r \<Longrightarrow> le r (f r)"
  shows "covers le t (update_many P f t)"
  using assms unfolding covers_def set_update_many by (simp add: image_iff) blast

lemma unique_keys_Nil [simp]: "unique_keys key []"
  by (simp add: unique_keys_def)

lemma unique_keys_Cons [simp]:
  "unique_keys key (r # t) \<longleftrightarrow> key r \<notin> key ` set t \<and> unique_keys key t"
  by (simp add: unique_keys_def)

lemma unique_keys_snoc [simp]:
  "unique_keys key (t @ [r]) \<longleftrightarrow> key r \<notin> key ` set t \<and> unique_keys key t"
  by (auto simp add: unique_keys_def)

lemma find_unique_Some_D: "find_unique key k t = Some r \<Longrightarrow> r \<in> set t \<and> key r = k"
  by (induction t) (auto split: if_splits)

lemma find_unique_None_iff: "find_unique key k t = None \<longleftrightarrow> k \<notin> key ` set t"
  by (induction t) auto

lemma find_unique_in_set:
  "unique_keys key t \<Longrightarrow> r \<in> set t \<Longrightarrow> find_unique key (key r) t = Some r"
  by (induction t) auto

lemma unique_keys_eq: "unique_keys key t \<Longrightarrow> r \<in> set t \<Longrightarrow> s \<in> set t \<Longrightarrow> key r = key s \<Longrightarrow> r = s"
  by (metis find_unique_in_set option.inject)

lemma find_unique_append:
  "find_unique key k (t @ u) =
     (case find_unique key k t of Some r \<Rightarrow> Some r | None \<Rightarrow> find_unique key k u)"
  by (induction t) auto

lemma find_unique_update_many:
  "(\<And>r. key (f r) = key r) \<Longrightarrow>
   find_unique key k (update_many P f t) =
     map_option (\<lambda>r. if P r then f r else r) (find_unique key k t)"
  by (induction t) auto

lemma count_rows_zero_iff: "count_rows P t = 0 \<longleftrightarrow> (\<forall>r\<in>set t. \<not> P r)"
  by (induction t) auto

lemma update_many_no_match: "count_rows P t = 0 \<Longrightarrow> update_many P f t = t"
  by (induction t) (auto split: if_splits)

text \<open>With unique keys a query that fixes the key matches at most one row.\<close>

lemma count_rows_key:
  assumes "unique_keys key t"
  shows "count_rows (\<lambda>r. key r = k \<and> Q r) t =
     (case find_unique key k t of None \<Rightarrow> 0 | Some r \<Rightarrow> if Q r then 1 else 0)"
  using assms
proof (induction t)
  case Nil
  then show ?case by simp
next
  case (Cons r t)
  show ?case
  proof (cases "key r = k")
    case True
    with Cons.prems have "k \<notin> key ` set t" by auto
    then have none: "find_unique key k t = None" by (simp add: find_unique_None_iff)
    with Cons have "count_rows (\<lambda>r. key r = k \<and> Q r) t = 0" by simp
    with True show ?thesis by simp
  next
    case False
    with Cons show ?thesis by simp
  qed
qed

text \<open>
  \<open>update\<close> on a unique key with further conditions in its \<open>where\<close>: the updated row and
  table, or Prisma's P2025 when no row matches.
\<close>

definition update_one ::
  "('r \<Rightarrow> 'k) \<Rightarrow> 'k \<Rightarrow> ('r \<Rightarrow> bool) \<Rightarrow> ('r \<Rightarrow> 'r) \<Rightarrow> 'r list \<Rightarrow> http_error + 'r \<times> 'r list" where
  "update_one key k Q f t =
     (case find_unique key k t of
        None \<Rightarrow> Inl (DbError ''P2025'')
      | Some r \<Rightarrow> if Q r then Inr (f r, update_many (\<lambda>r. key r = k \<and> Q r) f t)
                  else Inl (DbError ''P2025''))"

lemma update_one_Inr:
  "update_one key k Q f t = Inr (r', t') \<longleftrightarrow>
     (\<exists>r. find_unique key k t = Some r \<and> Q r \<and> r' = f r
        \<and> t' = update_many (\<lambda>r. key r = k \<and> Q r) f t)"
  by (auto simp: update_one_def split: option.splits)

text \<open>With unique keys an update by key replaces the row that is there.\<close>

lemma update_one_rows:
  assumes "unique_keys key t" and "update_one key k Q f t = Inr (r', t')" and "w \<in> set t'"
  shows "w \<in> set t \<or> (\<exists>r. find_unique key k t = Some r \<and> w = f r \<and> r' = w)"
proof -
  from assms(2) obtain r where r: "find_unique key k t = Some r" "r' = f r"
    "t' = update_many (\<lambda>r. key r = k \<and> Q r) f t" by (auto simp: update_one_Inr)
  from assms(3) r(3) consider "w \<in> set t" | x where "x \<in> set t" "key x = k" "w = f x"
    by (auto simp: set_update_many split: if_splits)
  then show ?thesis
  proof cases
    case 2
    with find_unique_in_set [OF assms(1) 2(1)] r show ?thesis by auto
  qed simp
qed

lemma update_one_keys:
  "update_one key k Q f t = Inr (r', t') \<Longrightarrow> (\<And>r. other (f r) = other r) \<Longrightarrow> map other t' = map other t"
  by (auto simp: update_one_Inr map_key_update_many)

lemma update_one_find:
  assumes "update_one key k Q f t = Inr (r', t')" and "\<And>r. key (f r) = key r"
  shows "find_unique key k t' = Some r'"
proof -
  from assms(1) obtain r where r: "find_unique key k t = Some r" "Q r" "r' = f r"
    and t': "t' = update_many (\<lambda>r. key r = k \<and> Q r) f t" by (auto simp: update_one_Inr)
  from r(1) have "key r = k" by (auto dest: find_unique_Some_D)
  with r show ?thesis unfolding t' by (simp add: find_unique_update_many assms(2))
qed

section \<open>One row, read and written by its key\<close>

text \<open>
  \<open>lookup\<close> is \<open>findUnique\<close>, \<open>upd\<close> and \<open>cnt\<close> are \<open>updateMany\<close> with the key and a
  guard in its \<open>where\<close> and its \<open>count\<close>. Only updates that keep the key are used.
\<close>

locale row_store =
  fixes lookup :: "'k \<Rightarrow> 't \<Rightarrow> 'r option"
    and upd :: "'k \<Rightarrow> ('r \<Rightarrow> bool) \<Rightarrow> ('r \<Rightarrow> 'r) \<Rightarrow> 't \<Rightarrow> 't"
    and cnt :: "'k \<Rightarrow> ('r \<Rightarrow> bool) \<Rightarrow> 't \<Rightarrow> nat"
    and keep :: "('r \<Rightarrow> 'r) \<Rightarrow> bool"
    and ok :: "'t \<Rightarrow> bool"
  assumes lookup_upd: "keep f \<Longrightarrow> lookup j (upd k Q f t) =
        (if j = k then map_option (\<lambda>r. if Q r then f r else r) (lookup k t) else lookup j t)"
    and cnt_lookup: "ok t \<Longrightarrow>
        cnt k Q t = (case lookup k t of None \<Rightarrow> 0 | Some r \<Rightarrow> if Q r then 1 else 0)"
    and ok_upd: "keep f \<Longrightarrow> ok t \<Longrightarrow> ok (upd k Q f t)"
begin

lemma cnt_one_iff: "ok t \<Longrightarrow> cnt k Q t = 1 \<longleftrightarrow> (\<exists>r. lookup k t = Some r \<and> Q r)"
  by (auto simp: cnt_lookup split: option.splits if_splits)

lemma guarded_hit:
  assumes "ok t" and "keep f" and "cnt k Q t = 1"
  shows "\<exists>r. lookup k t = Some r \<and> Q r \<and> lookup k (upd k Q f t) = Some (f r)"
proof -
  from assms(1,3) obtain r where "lookup k t = Some r" and "Q r"
    by (simp only: cnt_one_iff) blast
  with assms(2) show ?thesis by (simp add: lookup_upd)
qed

lemma guarded_miss:
  assumes "ok t" and "keep f" and "cnt k Q t \<noteq> 1"
  shows "lookup j (upd k Q f t) = lookup j t"
proof -
  from assms(1,3) have "\<not> (\<exists>r. lookup k t = Some r \<and> Q r)"
    by (simp only: cnt_one_iff) blast
  with assms(2) show ?thesis
    by (cases "lookup k t") (auto simp: lookup_upd)
qed

end

interpretation tbl: row_store
  "find_unique key" "\<lambda>k Q. update_many (\<lambda>r. key r = k \<and> Q r)"
  "\<lambda>k Q. count_rows (\<lambda>r. key r = k \<and> Q r)"
  "\<lambda>f. \<forall>r. key (f r) = key r" "unique_keys key"
  for key :: "'r \<Rightarrow> 'k"
proof unfold_locales
  fix f :: "'r \<Rightarrow> 'r" and j k :: 'k and Q :: "'r \<Rightarrow> bool" and t :: "'r list"
  assume keep: "\<forall>r. key (f r) = key r"
  show "find_unique key j (update_many (\<lambda>r. key r = k \<and> Q r) f t) =
        (if j = k then map_option (\<lambda>r. if Q r then f r else r) (find_unique key k t)
         else find_unique key j t)"
    using keep by (induction t) auto
next
  fix k :: 'k and Q :: "'r \<Rightarrow> bool" and t :: "'r list"
  assume "unique_keys key t"
  then show "count_rows (\<lambda>r. key r = k \<and> Q r) t =
     (case find_unique key k t of None \<Rightarrow> 0 | Some r \<Rightarrow> if Q r then 1 else 0)"
    by (rule count_rows_key)
next
  fix f :: "'r \<Rightarrow> 'r" and k :: 'k and Q :: "'r \<Rightarrow> bool" and t :: "'r list"
  assume "\<forall>r. key (f r) = key r" and "unique_keys key t"
  then show "unique_keys key (update_many (\<lambda>r. key r = k \<and> Q r) f t)"
    by (simp add: unique_keys_update_many)
qed

section \<open>Optimistic concurrency\<close>

text \<open>
  A table \<open>t'\<close> may follow \<open>t\<close> when every row of \<open>t\<close> is still there, either untouched or
  with a larger version. A reader that holds a row of \<open>t\<close> and writes under the guard
  \<open>version = snapshot's version\<close> then either misses or finds exactly the row it read.
\<close>

definition evolves :: "('k \<Rightarrow> 't \<Rightarrow> 'r option) \<Rightarrow> ('r \<Rightarrow> int) \<Rightarrow> 't \<Rightarrow> 't \<Rightarrow> bool" where
  "evolves lookup ver t t' \<longleftrightarrow>
     (\<forall>k r. lookup k t = Some r \<longrightarrow>
        (\<exists>r'. lookup k t' = Some r' \<and> (r' = r \<or> ver r < ver r')))"

lemma evolves_refl [simp]: "evolves lookup ver t t"
  by (simp add: evolves_def)

lemma evolves_trans:
  assumes "evolves lookup ver t t'" and "evolves lookup ver t' t''"
  shows "evolves lookup ver t t''"
  unfolding evolves_def
proof (intro allI impI)
  fix k r
  assume "lookup k t = Some r"
  with assms(1) obtain r' where r': "lookup k t' = Some r'" "r' = r \<or> ver r < ver r'"
    by (auto simp: evolves_def)
  with assms(2) obtain r'' where "lookup k t'' = Some r''" "r'' = r' \<or> ver r' < ver r''"
    by (auto simp: evolves_def)
  with r' show "\<exists>r'. lookup k t'' = Some r' \<and> (r' = r \<or> ver r < ver r')"
    by auto
qed

locale versioned_store = row_store lookup upd cnt keep ok
  for lookup :: "'k \<Rightarrow> 't \<Rightarrow> 'r option"
    and upd :: "'k \<Rightarrow> ('r \<Rightarrow> bool) \<Rightarrow> ('r \<Rightarrow> 'r) \<Rightarrow> 't \<Rightarrow> 't"
    and cnt :: "'k \<Rightarrow> ('r \<Rightarrow> bool) \<Rightarrow> 't \<Rightarrow> nat"
    and keep :: "('r \<Rightarrow> 'r) \<Rightarrow> bool"
    and ok :: "'t \<Rightarrow> bool" +
  fixes ver :: "'r \<Rightarrow> int"
begin

lemma upd_evolves:
  "keep f \<Longrightarrow> (\<And>r. ver r < ver (f r)) \<Longrightarrow> evolves lookup ver t (upd k Q f t)"
  by (auto simp: evolves_def lookup_upd)

lemma commit_sees_snapshot:
  assumes "ok t" and "evolves lookup ver t0 t" and "lookup k t0 = Some s"
    and "cnt k (\<lambda>r. ver r = ver s \<and> Q r) t = 1"
  shows "lookup k t = Some s \<and> Q s"
proof -
  from assms(2,3) obtain r where r: "lookup k t = Some r" "r = s \<or> ver s < ver r"
    by (auto simp: evolves_def)
  from assms(1,4) have "\<exists>r. lookup k t = Some r \<and> ver r = ver s \<and> Q r"
    by (simp only: cnt_one_iff)
  with r show ?thesis by auto
qed

end

section \<open>Maker and checker\<close>

text \<open>A run of commands, each by its user, refused ones leaving the row as it is.\<close>

fun run_commands :: "('u \<Rightarrow> 'c \<Rightarrow> 'r \<Rightarrow> 'r option) \<Rightarrow> ('u \<times> 'c) list \<Rightarrow> 'r \<Rightarrow> 'r" where
  "run_commands tr [] r = r"
| "run_commands tr ((u, c) # cs) r =
     run_commands tr cs (case tr u c r of None \<Rightarrow> r | Some r' \<Rightarrow> r')"

text \<open>
  A reviewed row moves through its life by commands of users. \<open>trans u c r\<close> is the row a
  successful command \<open>c\<close> of user \<open>u\<close> makes of \<open>r\<close>, \<open>None\<close> when the command is refused.
  The contract: a row becomes cleared (approved) only by a user who is not its maker, the
  transition records that user, and no command changes the maker or the approver of a
  cleared row that stays cleared.
\<close>

locale review_flow =
  fixes cleared :: "'r \<Rightarrow> bool"
    and maker :: "'r \<Rightarrow> 'u"
    and approver :: "'r \<Rightarrow> 'u option"
    and trans :: "'u \<Rightarrow> 'c \<Rightarrow> 'r \<Rightarrow> 'r option"
  assumes clears: "trans u c r = Some r' \<Longrightarrow> \<not> cleared r \<Longrightarrow> cleared r' \<Longrightarrow>
        u \<noteq> maker r \<and> maker r' = maker r \<and> approver r' = Some u"
    and keeps: "trans u c r = Some r' \<Longrightarrow> cleared r \<Longrightarrow> cleared r' \<Longrightarrow>
        maker r' = maker r \<and> approver r' = approver r"
begin

definition reviewed :: "'r \<Rightarrow> bool" where
  "reviewed r \<longleftrightarrow> (cleared r \<longrightarrow> (\<exists>a. approver r = Some a \<and> a \<noteq> maker r))"

lemma trans_reviewed: "trans u c r = Some r' \<Longrightarrow> reviewed r \<Longrightarrow> reviewed r'"
  unfolding reviewed_def using clears keeps by metis

abbreviation run :: "('u \<times> 'c) list \<Rightarrow> 'r \<Rightarrow> 'r" where
  "run \<equiv> run_commands trans"

text \<open>Who ends up as the approver of a row that a run cleared.\<close>

definition reviewed_by :: "'u set \<Rightarrow> 'r \<Rightarrow> bool" where
  "reviewed_by U r \<longleftrightarrow> (cleared r \<longrightarrow> (\<exists>a\<in>U. approver r = Some a \<and> a \<noteq> maker r))"

lemma trans_reviewed_by:
  "trans u c r = Some r' \<Longrightarrow> u \<in> U \<Longrightarrow> reviewed_by U r \<Longrightarrow> reviewed_by U r'"
  unfolding reviewed_by_def using clears keeps by metis

lemma run_reviewed_by: "fst ` set cs \<subseteq> U \<Longrightarrow> reviewed_by U r \<Longrightarrow> reviewed_by U (run cs r)"
proof (induction cs arbitrary: r)
  case Nil
  then show ?case by simp
next
  case (Cons uc cs)
  obtain u c where uc: "uc = (u, c)" by (cases uc)
  have "reviewed_by U (case trans u c r of None \<Rightarrow> r | Some r' \<Rightarrow> r')"
    using Cons.prems uc by (cases "trans u c r") (auto intro: trans_reviewed_by)
  with Cons.IH Cons.prems(1) show ?case by (simp add: uc)
qed

lemma run_four_eyes:
  assumes "\<not> cleared r" and "cleared (run cs r)"
  shows "\<exists>a\<in>fst ` set cs. approver (run cs r) = Some a \<and> a \<noteq> maker (run cs r)"
  using run_reviewed_by [of cs "fst ` set cs" r] assms by (auto simp: reviewed_by_def)

lemma run_reviewed: "reviewed r \<Longrightarrow> reviewed (run cs r)"
proof (induction cs arbitrary: r)
  case Nil
  then show ?case by simp
next
  case (Cons uc cs)
  obtain u c where uc: "uc = (u, c)" by (cases uc)
  have "reviewed (case trans u c r of None \<Rightarrow> r | Some r' \<Rightarrow> r')"
    using Cons.prems by (cases "trans u c r") (auto intro: trans_reviewed)
  with Cons.IH show ?case by (simp add: uc)
qed

end

section \<open>One active row per group\<close>

text \<open>
  Rows belong to a group (the versions of a product or a policy, the refresh tokens of a
  session) and at most one row of a group is active. \<open>exclusive_rows\<close> is a table whose active
  row is retired; \<open>exclusive_activation\<close> is versioned configuration, where an activation
  retires the active rows of the group and promotes one row, in one transaction.
\<close>

lemma count_unique:
  assumes "\<And>v w. v \<in> set t \<Longrightarrow> w \<in> set t \<Longrightarrow> P v \<Longrightarrow> P w \<Longrightarrow> key v = key w" and "unique_keys key t"
  shows "count_rows P t \<le> 1"
  using assms
proof (induction t)
  case Nil
  then show ?case by simp
next
  case (Cons r t)
  have IH: "count_rows P t \<le> 1"
    by (rule Cons.IH) (use Cons.prems in \<open>simp_all\<close>)
  show ?case
  proof (cases "P r")
    case True
    have "\<not> P w" if "w \<in> set t" for w
    proof
      assume "P w"
      from Cons.prems(1) [OF _ _ True this] that have "key r = key w" by simp
      with that Cons.prems(2) show False by auto
    qed
    then have "count_rows P t = 0" by (simp add: count_rows_zero_iff)
    with True show ?thesis by simp
  next
    case False
    with IH show ?thesis by (simp only: count_rows_Cons if_False)
  qed
qed

locale exclusive_rows =
  fixes key :: "'r \<Rightarrow> 'k"
    and grp :: "'r \<Rightarrow> 'g"
    and act :: "'r \<Rightarrow> bool"
    and retire :: "'u \<Rightarrow> 'r \<Rightarrow> 'r"
  assumes key_retire: "key (retire u r) = key r"
    and grp_retire: "grp (retire u r) = grp r"
    and retired: "\<not> act (retire u r)"
begin

definition exclusive :: "'r list \<Rightarrow> bool" where
  "exclusive t \<longleftrightarrow>
     (\<forall>v\<in>set t. \<forall>w\<in>set t. act v \<longrightarrow> act w \<longrightarrow> grp v = grp w \<longrightarrow> key v = key w)"

lemma exclusiveI:
  "(\<And>v w. v \<in> set t \<Longrightarrow> w \<in> set t \<Longrightarrow> act v \<Longrightarrow> act w \<Longrightarrow> grp v = grp w \<Longrightarrow> key v = key w) \<Longrightarrow>
   exclusive t"
  unfolding exclusive_def by blast

lemma exclusiveD:
  "exclusive t \<Longrightarrow> v \<in> set t \<Longrightarrow> w \<in> set t \<Longrightarrow> act v \<Longrightarrow> act w \<Longrightarrow> grp v = grp w \<Longrightarrow> key v = key w"
  unfolding exclusive_def by blast

lemma exclusive_Nil: "exclusive []"
  by (rule exclusiveI) simp

lemma exclusive_snoc:
  assumes "exclusive t" and "\<not> act r"
  shows "exclusive (t @ [r])"
proof (rule exclusiveI)
  fix v w
  assume vw: "v \<in> set (t @ [r])" "w \<in> set (t @ [r])" "act v" "act w" and g: "grp v = grp w"
  from vw assms(2) have "v \<in> set t" "w \<in> set t" by auto
  from exclusiveD [OF assms(1) this vw(3,4) g] show "key v = key w" .
qed

text \<open>An update that activates nothing keeps exclusivity.\<close>

lemma exclusive_update:
  assumes "exclusive t"
    and act: "\<And>r. r \<in> set t \<Longrightarrow> P r \<Longrightarrow> act (f r) \<Longrightarrow> act r"
    and key: "\<And>r. key (f r) = key r" and grp: "\<And>r. grp (f r) = grp r"
  shows "exclusive (update_many P f t)"
proof (rule exclusiveI)
  have orig: "\<exists>r\<in>set t. act r \<and> key r = key v \<and> grp r = grp v"
    if "v \<in> set (update_many P f t)" "act v" for v
    using that(1)
  proof (rule update_many_obtain)
    fix r assume "r \<in> set t" "v = r" with that(2) show ?thesis by blast
  next
    fix r assume r: "r \<in> set t" "P r" "v = f r"
    with act that(2) have "act r" by blast
    with r key grp show ?thesis by metis
  qed
  fix v w
  assume v: "v \<in> set (update_many P f t)" "act v" and w: "w \<in> set (update_many P f t)" "act w"
    and g: "grp v = grp w"
  from orig [OF v] obtain r where r: "r \<in> set t" "act r" "key r = key v" "grp r = grp v" by blast
  from orig [OF w] obtain s where s: "s \<in> set t" "act s" "key s = key w" "grp s = grp w" by blast
  have "grp r = grp s" by (simp only: r(4) s(4) g)
  from exclusiveD [OF assms(1) r(1) s(1) r(2) s(2) this] r(3) s(3)
  show "key v = key w" by (simp only:)
qed

text \<open>A new active row, once its group has none.\<close>

lemma exclusive_snoc_active:
  assumes "exclusive t" and none: "\<forall>v\<in>set t. grp v = grp r \<longrightarrow> \<not> act v"
  shows "exclusive (t @ [r])"
proof (rule exclusiveI)
  fix v w
  assume v: "v \<in> set (t @ [r])" "act v" and w: "w \<in> set (t @ [r])" "act w" and g: "grp v = grp w"
  consider "v = r" "w = r" | "v \<in> set t" "w \<in> set t" | "v = r" "w \<in> set t" | "v \<in> set t" "w = r"
    using v(1) w(1) by fastforce
  then show "key v = key w"
  proof cases
    case 2
    from exclusiveD [OF assms(1) this v(2) w(2) g] show ?thesis .
  qed (use none g v w in metis)+
qed

text \<open>A row that succeeds the active one of its group.\<close>

lemma exclusive_succeed:
  assumes "exclusive t" and r: "r \<in> set t" "act r" and "grp n = grp r"
  shows "exclusive (update_many (\<lambda>x. key x = key r \<and> act x) (retire u) t @ [n])"
    (is "exclusive (?U @ _)")
proof (rule exclusive_snoc_active)
  show "exclusive ?U" by (rule exclusive_update [OF assms(1)]) (simp_all add: retired key_retire grp_retire)
  show "\<forall>v\<in>set ?U. grp v = grp n \<longrightarrow> \<not> act v"
  proof (intro ballI impI)
    fix v assume "v \<in> set ?U" and g: "grp v = grp n"
    from this(1) show "\<not> act v"
    proof (rule update_many_obtain)
      fix x assume "x \<in> set t" "\<not> (key x = key r \<and> act x)" "v = x"
      with exclusiveD [OF assms(1) _ r(1) _ r(2), of x] g assms(4) show ?thesis by metis
    qed (simp add: retired)
  qed
qed

lemma exclusive_count:
  assumes "exclusive t" and "unique_keys key t"
  shows "count_rows (\<lambda>r. grp r = g \<and> act r) t \<le> 1"
proof (rule count_unique [OF _ assms(2)])
  fix v w
  assume "v \<in> set t" "w \<in> set t" "grp v = g \<and> act v" "grp w = g \<and> act w"
  then show "key v = key w" by (intro exclusiveD [OF assms(1)]) simp_all
qed

end

locale exclusive_activation = exclusive_rows key grp act retire
  for key :: "'r \<Rightarrow> 'k"
    and grp :: "'r \<Rightarrow> 'g"
    and act :: "'r \<Rightarrow> bool"
    and retire :: "'u \<Rightarrow> 'r \<Rightarrow> 'r" +
  fixes promote :: "'u \<Rightarrow> time \<Rightarrow> 'r \<Rightarrow> 'r"
  assumes key_promote: "key (promote u now r) = key r"
    and grp_promote: "grp (promote u now r) = grp r"
begin

lemma exclusive_promote:
  assumes "exclusive t" and grp: "\<forall>r\<in>set t. key r = k \<longrightarrow> grp r = g"
    and none: "\<forall>r\<in>set t. grp r = g \<longrightarrow> \<not> act r"
  shows "exclusive (update_many (\<lambda>r. key r = k \<and> Q r) (promote u now) t)"
proof (rule exclusiveI)
  let ?t = "update_many (\<lambda>r. key r = k \<and> Q r) (promote u now) t"
  have orig: "(v \<in> set t \<and> grp v \<noteq> g) \<or> (key v = k \<and> grp v = g)" if "v \<in> set ?t" "act v" for v
    using that(1)
  proof (rule update_many_obtain)
    fix r assume "r \<in> set t" "v = r" with that(2) none show ?thesis by metis
  next
    fix r assume "r \<in> set t" "key r = k \<and> Q r" "v = promote u now r"
    with grp show ?thesis by (metis key_promote grp_promote)
  qed
  fix v w
  assume v: "v \<in> set ?t" "act v" and w: "w \<in> set ?t" "act w" and g: "grp v = grp w"
  from orig [OF v] orig [OF w] g
  consider "v \<in> set t" "w \<in> set t" | "key v = k" "key w = k" by metis
  then show "key v = key w"
  proof cases
    case 1
    from exclusiveD [OF assms(1) this v(2) w(2) g] show ?thesis .
  next
    case 2
    then show ?thesis by (simp only:)
  qed
qed

lemma exclusive_switch:
  assumes "exclusive t" and "\<forall>r\<in>set t. key r = k \<longrightarrow> grp r = g"
  shows "exclusive (update_many (\<lambda>r. key r = k \<and> Q r) (promote u now)
    (update_many (\<lambda>r. grp r = g \<and> act r) (retire u') t))" (is "exclusive (update_many _ _ ?t)")
proof (rule exclusive_promote [where g = g])
  show "exclusive ?t"
    by (rule exclusive_update [OF assms(1)]) (simp_all only: retired key_retire grp_retire simp_thms)
  show "\<forall>r\<in>set ?t. key r = k \<longrightarrow> grp r = g"
  proof (intro ballI impI)
    fix r assume "r \<in> set ?t" and k: "key r = k"
    from this(1) show "grp r = g"
      by (rule update_many_obtain) (use k assms(2) in \<open>metis key_retire grp_retire\<close>)+
  qed
  show "\<forall>r\<in>set ?t. grp r = g \<longrightarrow> \<not> act r"
  proof (intro ballI impI)
    fix r assume "r \<in> set ?t" and g: "grp r = g"
    from this(1) show "\<not> act r"
      by (rule update_many_obtain) (use g in \<open>metis retired\<close>)+
  qed
qed

end

end
