(* ===== verification/AuditLogs.thy ===== *)
theory AuditLogs
  imports Prelude "HOL-Library.List_Lexorder" "HOL-Library.Char_ord"
begin

text \<open>
  The append-only audit trail (modules/audit-logs/audit-logs.service.ts) and the redaction of
  what goes into it (common/utils/security.utils.ts).

  JSON values are a datatype; an object is the list of its entries in insertion order, as
  \<open>Object.entries\<close> gives them. The regular expression \<open>SENSITIVE_KEYS\<close> has no quantifier
  but the two optional characters, so it is the list of the fourteen literal patterns with
  \<open>api.?key\<close> and \<open>bank.?account\<close> spelled out, matched without case anywhere in the key.
\<close>

section \<open>Redaction\<close>

datatype json =
    JNull
  | JUndefined
  | JBool bool
  | JNum rat
  | JStr string
  | JDate time  \<comment> \<open>a \<open>Date\<close> object: it has no own enumerable entries\<close>
  | JArr "json list"
  | JObj "(string \<times> json) list"

text \<open>ASCII case folding, as the \<open>i\<close> flag applies it to the ASCII patterns below.\<close>

definition lower_char :: "char \<Rightarrow> char" where
  "lower_char c = (let n = of_char c :: nat in
     if 65 \<le> n \<and> n \<le> 90 then char_of (n + 32) else c)"

fun is_prefix :: "string \<Rightarrow> string \<Rightarrow> bool" where
  "is_prefix [] ys = True"
| "is_prefix (x # xs) [] = False"
| "is_prefix (x # xs) (y # ys) = (x = y \<and> is_prefix xs ys)"

fun contains :: "string \<Rightarrow> string \<Rightarrow> bool" where
  "contains p [] = (p = [])"
| "contains p (y # ys) = (is_prefix p (y # ys) \<or> contains p ys)"

text \<open>\<open>a.?b\<close>: \<open>a\<close>, then at most one character that is no line terminator, then \<open>b\<close>.\<close>

definition is_line_end :: "char \<Rightarrow> bool" where
  "is_line_end c \<longleftrightarrow> of_char c = (10 :: nat) \<or> of_char c = (13 :: nat)"

definition prefix_gap :: "string \<Rightarrow> string \<Rightarrow> string \<Rightarrow> bool" where
  "prefix_gap a b s \<longleftrightarrow> is_prefix (a @ b) s \<or>
     (is_prefix a s \<and>
       (case drop (length a) s of [] \<Rightarrow> False
        | c # r \<Rightarrow> \<not> is_line_end c \<and> is_prefix b r))"

fun contains_gap :: "string \<Rightarrow> string \<Rightarrow> string \<Rightarrow> bool" where
  "contains_gap a b [] = False"
| "contains_gap a b (y # ys) = (prefix_gap a b (y # ys) \<or> contains_gap a b ys)"

definition SENSITIVE_WORDS :: "string list" where
  "SENSITIVE_WORDS =
     [''password'', ''otp'', ''token'', ''secret'', ''authorization'', ''cookie'',
      ''pan'', ''aadhaar'', ''bureau'', ''kyc'', ''document'']"

definition sensitive_key :: "string \<Rightarrow> bool" where
  "sensitive_key key \<longleftrightarrow> (let k = map lower_char key in
     list_ex (\<lambda>w. contains w k) SENSITIVE_WORDS
     \<or> contains_gap ''api'' ''key'' k \<or> contains_gap ''bank'' ''account'' k)"

text \<open>
  \<open>sanitizeObject\<close>: \<open>null\<close> and \<open>undefined\<close> pass, anything below depth 4 is cut, arrays and
  objects keep their first 50 entries, sensitive keys lose their value, strings are cut at
  500 characters. The recursion stops because the depth grows and is cut at 5.
\<close>

function sanitize_at :: "nat \<Rightarrow> json \<Rightarrow> json" where
  "sanitize_at d JNull = JNull"
| "sanitize_at d JUndefined = JUndefined"
| "sanitize_at d (JBool b) = (if 4 < d then JStr ''[TRUNCATED]'' else JBool b)"
| "sanitize_at d (JNum n) = (if 4 < d then JStr ''[TRUNCATED]'' else JNum n)"
| "sanitize_at d (JStr s) = (if 4 < d then JStr ''[TRUNCATED]'' else JStr (take 500 s))"
| "sanitize_at d (JDate t) = (if 4 < d then JStr ''[TRUNCATED]'' else JObj [])"
| "sanitize_at d (JArr js) =
     (if 4 < d then JStr ''[TRUNCATED]'' else JArr (map (sanitize_at (Suc d)) (take 50 js)))"
| "sanitize_at d (JObj kvs) =
     (if 4 < d then JStr ''[TRUNCATED]''
      else JObj (map (\<lambda>kv. (fst kv, if sensitive_key (fst kv) then JStr ''[REDACTED]''
                                     else sanitize_at (Suc d) (snd kv)))
        (take 50 kvs)))"
  by pat_completeness auto
termination
  by (relation "measure (\<lambda>(d, j). 5 - d)") auto

definition sanitizeObject :: "json \<Rightarrow> json" where
  "sanitizeObject j = sanitize_at 0 j"

text \<open>
  What the audit trail may hold: no value under a sensitive key but the marker, no list of
  more than 50 entries, no string of more than 500 characters.
\<close>

inductive redacted :: "json \<Rightarrow> bool" where
  null: "redacted JNull"
| undef: "redacted JUndefined"
| bool: "redacted (JBool b)"
| num: "redacted (JNum n)"
| str: "length s \<le> 500 \<Longrightarrow> redacted (JStr s)"
| arr: "length js \<le> 50 \<Longrightarrow> (\<And>j. j \<in> set js \<Longrightarrow> redacted j) \<Longrightarrow> redacted (JArr js)"
| obj: "length kvs \<le> 50 \<Longrightarrow>
    (\<And>k v. (k, v) \<in> set kvs \<Longrightarrow> redacted v \<and> (sensitive_key k \<longrightarrow> v = JStr ''[REDACTED]'')) \<Longrightarrow>
    redacted (JObj kvs)"

lemma sanitize_at_redacted: "redacted (sanitize_at d j)"
proof (induction d j rule: sanitize_at.induct)
  case (7 d js)
  then show ?case by (auto intro!: redacted.intros)
next
  case (8 d kvs)
  then show ?case by (auto intro!: redacted.intros)
qed (auto intro!: redacted.intros)

lemma sanitize_at_idem: "sanitize_at d (sanitize_at d j) = sanitize_at d j"
proof (induction d j rule: sanitize_at.induct)
  case (7 d js)
  then show ?case by (cases "4 < d") (auto simp: min_def)
next
  case (8 d kvs)
  then show ?case by (cases "4 < d") (auto simp: min_def)
qed auto

section \<open>The trail\<close>

text \<open>
  One row of the audit log. \<open>hmac\<close> (SHA-256 keyed with \<open>AUDIT_INTEGRITY_KEY\<close>) and
  \<open>canon\<close> (\<open>JSON.stringify\<close> of the canonical record) are parameters; actor roles are sorted
  in the canonical form only.
\<close>

record audit_input =
  ai_actorUserId :: "ident option"
  ai_actorRoleCodes :: "string list"
  ai_permissionCode :: "string option"
  ai_module :: string
  ai_action :: string
  ai_entityType :: string
  ai_entityId :: "ident option"
  ai_outcome :: string
  ai_reason :: "string option"
  ai_previousValue :: json
  ai_newValue :: json
  ai_requestId :: string
  ai_ipAddress :: "string option"
  ai_userAgent :: "string option"

record audit_row = audit_input +
  ar_integrityHash :: string
  ar_createdAt :: time

definition audit_record ::
  "(audit_input \<Rightarrow> time \<Rightarrow> string) \<Rightarrow> (string \<Rightarrow> string) \<Rightarrow> time \<Rightarrow> audit_input \<Rightarrow>
   audit_row list \<Rightarrow> audit_row list" where
  "audit_record canon hmac createdAt i logs =
     (let previousValue = sanitizeObject (ai_previousValue i);
          newValue = sanitizeObject (ai_newValue i);
          canonical = canon (i\<lparr>ai_previousValue := previousValue, ai_newValue := newValue,
                               ai_actorRoleCodes := sort (ai_actorRoleCodes i)\<rparr>) createdAt;
          integrityHash = hmac canonical
      in logs @ [\<lparr>ai_actorUserId = ai_actorUserId i,
                  ai_actorRoleCodes = ai_actorRoleCodes i,
                  ai_permissionCode = ai_permissionCode i,
                  ai_module = ai_module i,
                  ai_action = ai_action i,
                  ai_entityType = ai_entityType i,
                  ai_entityId = ai_entityId i,
                  ai_outcome = ai_outcome i,
                  ai_reason = map_option (take 255) (ai_reason i),
                  ai_previousValue = previousValue,
                  ai_newValue = newValue,
                  ai_requestId = ai_requestId i,
                  ai_ipAddress = map_option (take 64) (ai_ipAddress i),
                  ai_userAgent = map_option (take 512) (ai_userAgent i),
                  ar_integrityHash = integrityHash,
                  ar_createdAt = createdAt\<rparr>])"

section \<open>Properties\<close>

definition at_most :: "nat \<Rightarrow> string option \<Rightarrow> bool" where
  "at_most n x = (case x of None \<Rightarrow> True | Some s \<Rightarrow> length s \<le> n)"

text \<open>
  C16. Recording appends exactly one row and keeps all earlier ones; the row's previous and new
  values are fully redacted (no value under a sensitive key at any depth, no long list or
  string), redacting them again would change nothing, and reason, address and user agent fit
  their columns.
\<close>

theorem audit_record_redacted:
  "\<exists>r. audit_record canon hmac t i logs = logs @ [r]
     \<and> redacted (ai_previousValue r) \<and> redacted (ai_newValue r)
     \<and> sanitizeObject (ai_previousValue r) = ai_previousValue r
     \<and> sanitizeObject (ai_newValue r) = ai_newValue r
     \<and> at_most 255 (ai_reason r) \<and> at_most 64 (ai_ipAddress r) \<and> at_most 512 (ai_userAgent r)
     \<and> ai_action r = ai_action i \<and> ai_entityId r = ai_entityId i \<and> ar_createdAt r = t"
  by (auto simp: audit_record_def Let_def sanitizeObject_def sanitize_at_redacted sanitize_at_idem
      at_most_def split: option.split)

end
