(* ===== verification/Lenders.thy ===== *)
theory Lenders
  imports AuditLogs
begin

text \<open>
  Lender management (modules/lenders/lenders.service.ts): a lender is drafted, submitted,
  approved or rejected by a second user, activated and deactivated. Every write is an
  \<open>updateMany\<close> guarded by the version the handler read and by the status it checked.

  A handler is its read-and-check phase (\<open>..._guard\<close>) followed by its write phase
  (\<open>lender_commit\<close> with the handler's \<open>where\<close> and \<open>data\<close>); requests that run at the same
  time interleave between the two, which the step relation \<open>lenders_step\<close> allows freely.
\<close>

section \<open>Data\<close>

datatype lender_approval = LDraft | LSubmitted | LApproved | LRejected
datatype operational = INACTIVE | ACTIVE

record lender =
  ln_id :: ident
  ln_legalName :: string
  ln_displayName :: string
  ln_code :: string
  ln_supportEmail :: "string option"
  ln_supportPhone :: "string option"
  ln_approvalStatus :: lender_approval
  ln_operationalStatus :: operational
  ln_integrationHealth :: string
  ln_version :: int
  ln_createdById :: ident
  ln_updatedById :: ident
  ln_submittedById :: "ident option"
  ln_submittedAt :: "time option"
  ln_approvedById :: "ident option"
  ln_approvedAt :: "time option"
  ln_rejectedById :: "ident option"
  ln_rejectedAt :: "time option"
  ln_rejectionReason :: "string option"
  ln_createdAt :: time
  ln_updatedAt :: time

record auth_user =
  au_userId :: ident
  au_roleCodes :: "string list"

record request_context =
  rc_requestId :: string
  rc_ipAddress :: "string option"
  rc_userAgent :: "string option"

text \<open>The bodies after validation; an absent field is \<open>None\<close>, an explicit null \<open>Some None\<close>.\<close>

record create_lender_input =
  ci_legalName :: string
  ci_displayName :: string
  ci_code :: string
  ci_supportEmail :: "string option"
  ci_supportPhone :: "string option"

record update_lender_input =
  ui_legalName :: "string option"
  ui_displayName :: "string option"
  ui_code :: "string option"
  ui_supportEmail :: "string option option"
  ui_supportPhone :: "string option option"

text \<open>The lender table, and the inputs handed to \<open>AuditLogsService.record\<close> so far.\<close>

record lender_db =
  lenders :: "lender list"
  lender_audits :: "audit_input list"

type_synonym 'a lender_result = "(http_error + 'a) \<times> lender_db"

section \<open>Audit entries\<close>

definition json_opt :: "('a \<Rightarrow> json) \<Rightarrow> 'a option \<Rightarrow> json" where
  "json_opt f x = (case x of None \<Rightarrow> JNull | Some a \<Rightarrow> f a)"

fun approval_name :: "lender_approval \<Rightarrow> string" where
  "approval_name LDraft = ''DRAFT''"
| "approval_name LSubmitted = ''SUBMITTED''"
| "approval_name LApproved = ''APPROVED''"
| "approval_name LRejected = ''REJECTED''"

fun operational_name :: "operational \<Rightarrow> string" where
  "operational_name INACTIVE = ''INACTIVE''"
| "operational_name ACTIVE = ''ACTIVE''"

definition auditSnapshot :: "lender \<Rightarrow> json" where
  "auditSnapshot l = JObj
     [(''id'', JStr (ln_id l)),
      (''legalName'', JStr (ln_legalName l)),
      (''displayName'', JStr (ln_displayName l)),
      (''code'', JStr (ln_code l)),
      (''supportEmail'', json_opt JStr (ln_supportEmail l)),
      (''supportPhone'', json_opt JStr (ln_supportPhone l)),
      (''approvalStatus'', JStr (approval_name (ln_approvalStatus l))),
      (''operationalStatus'', JStr (operational_name (ln_operationalStatus l))),
      (''integrationHealth'', JStr (ln_integrationHealth l)),
      (''version'', JNum (of_int (ln_version l))),
      (''submittedById'', json_opt JStr (ln_submittedById l)),
      (''submittedAt'', json_opt JDate (ln_submittedAt l)),
      (''approvedById'', json_opt JStr (ln_approvedById l)),
      (''approvedAt'', json_opt JDate (ln_approvedAt l)),
      (''rejectedById'', json_opt JStr (ln_rejectedById l)),
      (''rejectedAt'', json_opt JDate (ln_rejectedAt l)),
      (''rejectionReason'', json_opt JStr (ln_rejectionReason l)),
      (''createdAt'', JDate (ln_createdAt l)),
      (''updatedAt'', JDate (ln_updatedAt l))]"

definition recordAudit ::
  "auth_user \<Rightarrow> request_context \<Rightarrow> string \<Rightarrow> string \<Rightarrow> lender \<Rightarrow> lender option \<Rightarrow> lender option \<Rightarrow>
   string option \<Rightarrow> lender_db \<Rightarrow> lender_db" where
  "recordAudit user context permissionCode action l previousValue newValue reason db =
     db\<lparr>lender_audits := lender_audits db @
       [\<lparr>ai_actorUserId = Some (au_userId user),
         ai_actorRoleCodes = au_roleCodes user,
         ai_permissionCode = Some permissionCode,
         ai_module = ''LENDER'',
         ai_action = action,
         ai_entityType = ''LENDER'',
         ai_entityId = Some (ln_id l),
         ai_outcome = ''SUCCESS'',
         ai_reason = reason,
         ai_previousValue =
           (case previousValue of None \<Rightarrow> JUndefined | Some p \<Rightarrow> auditSnapshot p),
         ai_newValue = (case newValue of None \<Rightarrow> JUndefined | Some n \<Rightarrow> auditSnapshot n),
         ai_requestId = rc_requestId context,
         ai_ipAddress = rc_ipAddress context,
         ai_userAgent = rc_userAgent context\<rparr>]\<rparr>"

section \<open>Reading and the shape of a write\<close>

definition getLenderOrThrow :: "ident \<Rightarrow> lender_db \<Rightarrow> http_error + lender" where
  "getLenderOrThrow i db =
     (case find_unique ln_id i (lenders db) of
        None \<Rightarrow> Inl (NotFound ''LENDER_NOT_FOUND'')
      | Some l \<Rightarrow> Inr l)"

definition ensureOneRowUpdated :: "nat \<Rightarrow> http_error option" where
  "ensureOneRowUpdated n =
     (if n \<noteq> 1 then Some (Conflict ''LENDER_CONCURRENT_UPDATE'') else None)"

text \<open>
  The write phase all handlers share: \<open>updateMany\<close> on the id, the version that was read and
  the status \<open>Q\<close>, which also increments the version and stamps \<open>updatedById\<close> and
  \<open>updatedAt\<close>; then \<open>ensureOneRowUpdated\<close>, the re-read and the audit record.
\<close>

definition lender_stamp :: "auth_user \<Rightarrow> time \<Rightarrow> (lender \<Rightarrow> lender) \<Rightarrow> lender \<Rightarrow> lender" where
  "lender_stamp user now data l =
     (data l)\<lparr>ln_updatedById := au_userId user, ln_version := ln_version l + 1,
              ln_updatedAt := now\<rparr>"

definition lender_commit ::
  "auth_user \<Rightarrow> request_context \<Rightarrow> time \<Rightarrow> lender \<Rightarrow> (lender \<Rightarrow> bool) \<Rightarrow> (lender \<Rightarrow> lender) \<Rightarrow>
   string \<Rightarrow> string \<Rightarrow> string option \<Rightarrow> lender_db \<Rightarrow> lender lender_result" where
  "lender_commit user context now existing Q data permissionCode action reason db =
     (let w = (\<lambda>l. ln_id l = ln_id existing \<and> ln_version l = ln_version existing \<and> Q l);
          n = count_rows w (lenders db);
          db1 = db\<lparr>lenders := update_many w (lender_stamp user now data) (lenders db)\<rparr>
      in case ensureOneRowUpdated n of
           Some e \<Rightarrow> (Inl e, db1)
         | None \<Rightarrow>
             (case getLenderOrThrow (ln_id existing) db1 of
                Inl e \<Rightarrow> (Inl e, db1)
              | Inr updated \<Rightarrow>
                  (Inr updated,
                   recordAudit user context permissionCode action updated (Some existing)
                     (Some updated) reason db1)))"

section \<open>The handlers\<close>

text \<open>What a handler does with the row it read: refuse, return it as it is, or write.\<close>

datatype check = Refuse http_error | Done | Go

definition lender_handle ::
  "(lender \<Rightarrow> check) \<Rightarrow> (lender \<Rightarrow> lender_db \<Rightarrow> lender lender_result) \<Rightarrow> ident \<Rightarrow> lender_db \<Rightarrow>
   lender lender_result" where
  "lender_handle guard write i db =
     (case getLenderOrThrow i db of
        Inl e \<Rightarrow> (Inl e, db)
      | Inr existing \<Rightarrow>
          (case guard existing of
             Refuse e \<Rightarrow> (Inl e, db)
           | Done \<Rightarrow> (Inr existing, db)
           | Go \<Rightarrow> write existing db))"

text \<open>
  \<open>create\<close>: \<open>newId\<close> is the generated cuid; the unique columns are \<open>id\<close> and \<open>code\<close>, and any
  violation is Prisma's P2002, which \<open>handlePrismaError\<close> turns into LENDER_CODE_EXISTS.
\<close>

definition lender_create ::
  "ident \<Rightarrow> create_lender_input \<Rightarrow> auth_user \<Rightarrow> request_context \<Rightarrow> time \<Rightarrow> lender_db \<Rightarrow>
   lender lender_result" where
  "lender_create newId input user context now db =
     (if list_ex (\<lambda>l. ln_id l = newId \<or> ln_code l = ci_code input) (lenders db)
      then (Inl (Conflict ''LENDER_CODE_EXISTS''), db)
      else
        let l = \<lparr>ln_id = newId,
                 ln_legalName = ci_legalName input,
                 ln_displayName = ci_displayName input,
                 ln_code = ci_code input,
                 ln_supportEmail = ci_supportEmail input,
                 ln_supportPhone = ci_supportPhone input,
                 ln_approvalStatus = LDraft,
                 ln_operationalStatus = INACTIVE,
                 ln_integrationHealth = ''NOT_CONFIGURED'',
                 ln_version = 1,
                 ln_createdById = au_userId user,
                 ln_updatedById = au_userId user,
                 ln_submittedById = None, ln_submittedAt = None,
                 ln_approvedById = None, ln_approvedAt = None,
                 ln_rejectedById = None, ln_rejectedAt = None,
                 ln_rejectionReason = None,
                 ln_createdAt = now,
                 ln_updatedAt = now\<rparr>
        in (Inr l,
            recordAudit user context ''LENDER_CREATE'' ''LENDER_CREATED'' l None (Some l) None
              (db\<lparr>lenders := lenders db @ [l]\<rparr>)))"

text \<open>\<open>update\<close>: the fields given replace the row's; a rejected lender goes back to draft.\<close>

definition set_if :: "'a option \<Rightarrow> 'a \<Rightarrow> 'a" where
  "set_if x old = (case x of None \<Rightarrow> old | Some v \<Rightarrow> v)"

definition update_guard :: "lender \<Rightarrow> check" where
  "update_guard existing =
     (if ln_approvalStatus existing \<noteq> LDraft \<and> ln_approvalStatus existing \<noteq> LRejected
      then Refuse (Conflict ''LENDER_NOT_EDITABLE'') else Go)"

definition reset_rejected :: "lender \<Rightarrow> lender" where
  "reset_rejected l =
     l\<lparr>ln_approvalStatus := LDraft,
       ln_submittedById := None, ln_submittedAt := None,
       ln_approvedById := None, ln_approvedAt := None,
       ln_rejectedById := None, ln_rejectedAt := None, ln_rejectionReason := None\<rparr>"

definition update_data :: "update_lender_input \<Rightarrow> lender \<Rightarrow> lender \<Rightarrow> lender" where
  "update_data input existing l =
     (let l1 = l\<lparr>ln_legalName := set_if (ui_legalName input) (ln_legalName l),
                 ln_displayName := set_if (ui_displayName input) (ln_displayName l),
                 ln_code := set_if (ui_code input) (ln_code l),
                 ln_supportEmail := set_if (ui_supportEmail input) (ln_supportEmail l),
                 ln_supportPhone := set_if (ui_supportPhone input) (ln_supportPhone l)\<rparr>
      in if ln_approvalStatus existing = LRejected then reset_rejected l1 else l1)"

text \<open>The unique column \<open>code\<close>: a hit that would give a row another row's code is P2002.\<close>

definition code_taken :: "update_lender_input \<Rightarrow> lender \<Rightarrow> lender_db \<Rightarrow> bool" where
  "code_taken input existing db =
     (case ui_code input of
        None \<Rightarrow> False
      | Some c \<Rightarrow>
          list_ex (\<lambda>l. ln_id l \<noteq> ln_id existing \<and> ln_code l = c) (lenders db)
          \<and> list_ex (\<lambda>l. ln_id l = ln_id existing \<and> ln_version l = ln_version existing
                \<and> (ln_approvalStatus l = LDraft \<or> ln_approvalStatus l = LRejected)) (lenders db))"

definition update_write ::
  "update_lender_input \<Rightarrow> auth_user \<Rightarrow> request_context \<Rightarrow> time \<Rightarrow> lender \<Rightarrow> lender_db \<Rightarrow>
   lender lender_result" where
  "update_write input user context now existing db =
     (if code_taken input existing db then (Inl (Conflict ''LENDER_CODE_EXISTS''), db)
      else lender_commit user context now existing
             (\<lambda>l. ln_approvalStatus l = LDraft \<or> ln_approvalStatus l = LRejected)
             (update_data input existing) ''LENDER_UPDATE'' ''LENDER_UPDATED'' None db)"

definition submit_guard :: "lender \<Rightarrow> check" where
  "submit_guard existing =
     (if ln_approvalStatus existing \<noteq> LDraft
      then Refuse (Conflict ''LENDER_SUBMIT_INVALID_STATUS'') else Go)"

definition submit_data :: "auth_user \<Rightarrow> time \<Rightarrow> lender \<Rightarrow> lender" where
  "submit_data user now l =
     l\<lparr>ln_approvalStatus := LSubmitted,
       ln_submittedById := Some (au_userId user), ln_submittedAt := Some now,
       ln_approvedById := None, ln_approvedAt := None,
       ln_rejectedById := None, ln_rejectedAt := None, ln_rejectionReason := None\<rparr>"

definition submit_write ::
  "auth_user \<Rightarrow> request_context \<Rightarrow> time \<Rightarrow> lender \<Rightarrow> lender_db \<Rightarrow> lender lender_result" where
  "submit_write user context now existing =
     lender_commit user context now existing (\<lambda>l. ln_approvalStatus l = LDraft)
       (submit_data user now) ''LENDER_SUBMIT'' ''LENDER_SUBMITTED'' None"

text \<open>The maker: who submitted the lender, else who created it.\<close>

definition makerUserId :: "lender \<Rightarrow> ident" where
  "makerUserId l = (case ln_submittedById l of Some u \<Rightarrow> u | None \<Rightarrow> ln_createdById l)"

definition approve_guard :: "auth_user \<Rightarrow> lender \<Rightarrow> check" where
  "approve_guard user existing =
     (if ln_approvalStatus existing \<noteq> LSubmitted
      then Refuse (Conflict ''LENDER_APPROVE_INVALID_STATUS'')
      else if makerUserId existing = au_userId user
      then Refuse (Forbidden ''MAKER_CHECKER_VIOLATION'') else Go)"

definition approve_data :: "auth_user \<Rightarrow> time \<Rightarrow> lender \<Rightarrow> lender" where
  "approve_data user now l =
     l\<lparr>ln_approvalStatus := LApproved,
       ln_approvedById := Some (au_userId user), ln_approvedAt := Some now,
       ln_rejectedById := None, ln_rejectedAt := None, ln_rejectionReason := None\<rparr>"

definition approve_write ::
  "auth_user \<Rightarrow> request_context \<Rightarrow> time \<Rightarrow> lender \<Rightarrow> lender_db \<Rightarrow> lender lender_result" where
  "approve_write user context now existing =
     lender_commit user context now existing (\<lambda>l. ln_approvalStatus l = LSubmitted)
       (approve_data user now) ''LENDER_APPROVE'' ''LENDER_APPROVED'' None"

definition reject_guard :: "auth_user \<Rightarrow> lender \<Rightarrow> check" where
  "reject_guard user existing =
     (if ln_approvalStatus existing \<noteq> LSubmitted
      then Refuse (Conflict ''LENDER_REJECT_INVALID_STATUS'')
      else if makerUserId existing = au_userId user
      then Refuse (Forbidden ''MAKER_CHECKER_VIOLATION'') else Go)"

definition reject_data :: "string \<Rightarrow> auth_user \<Rightarrow> time \<Rightarrow> lender \<Rightarrow> lender" where
  "reject_data reason user now l =
     l\<lparr>ln_approvalStatus := LRejected, ln_operationalStatus := INACTIVE,
       ln_rejectedById := Some (au_userId user), ln_rejectedAt := Some now,
       ln_rejectionReason := Some reason,
       ln_approvedById := None, ln_approvedAt := None\<rparr>"

definition reject_write ::
  "string \<Rightarrow> auth_user \<Rightarrow> request_context \<Rightarrow> time \<Rightarrow> lender \<Rightarrow> lender_db \<Rightarrow> lender lender_result"
where
  "reject_write reason user context now existing =
     lender_commit user context now existing (\<lambda>l. ln_approvalStatus l = LSubmitted)
       (reject_data reason user now) ''LENDER_REJECT'' ''LENDER_REJECTED'' (Some reason)"

definition activate_guard :: "lender \<Rightarrow> check" where
  "activate_guard existing =
     (if ln_approvalStatus existing \<noteq> LApproved
      then Refuse (Conflict ''LENDER_NOT_APPROVED'')
      else if ln_operationalStatus existing = ACTIVE then Done else Go)"

definition activate_write ::
  "auth_user \<Rightarrow> request_context \<Rightarrow> time \<Rightarrow> lender \<Rightarrow> lender_db \<Rightarrow> lender lender_result" where
  "activate_write user context now existing =
     lender_commit user context now existing
       (\<lambda>l. ln_approvalStatus l = LApproved \<and> ln_operationalStatus l = INACTIVE)
       (\<lambda>l. l\<lparr>ln_operationalStatus := ACTIVE\<rparr>) ''LENDER_ACTIVATE'' ''LENDER_ACTIVATED'' None"

definition deactivate_guard :: "lender \<Rightarrow> check" where
  "deactivate_guard existing =
     (if ln_operationalStatus existing = INACTIVE then Done else Go)"

definition deactivate_write ::
  "auth_user \<Rightarrow> request_context \<Rightarrow> time \<Rightarrow> lender \<Rightarrow> lender_db \<Rightarrow> lender lender_result" where
  "deactivate_write user context now existing =
     lender_commit user context now existing (\<lambda>l. ln_operationalStatus l = ACTIVE)
       (\<lambda>l. l\<lparr>ln_operationalStatus := INACTIVE\<rparr>) ''LENDER_DEACTIVATE'' ''LENDER_DEACTIVATED''
       None"

text \<open>The calls on an existing lender, their checks and their writes.\<close>

datatype lender_call =
    CUpdate update_lender_input
  | CSubmit
  | CApprove
  | CReject string
  | CActivate
  | CDeactivate

fun call_guard :: "lender_call \<Rightarrow> auth_user \<Rightarrow> lender \<Rightarrow> check" where
  "call_guard (CUpdate input) u e = update_guard e"
| "call_guard CSubmit u e = submit_guard e"
| "call_guard CApprove u e = approve_guard u e"
| "call_guard (CReject reason) u e = reject_guard u e"
| "call_guard CActivate u e = activate_guard e"
| "call_guard CDeactivate u e = deactivate_guard e"

fun call_write ::
  "lender_call \<Rightarrow> auth_user \<Rightarrow> request_context \<Rightarrow> time \<Rightarrow> lender \<Rightarrow> lender_db \<Rightarrow>
   lender lender_result" where
  "call_write (CUpdate input) u ctx now e = update_write input u ctx now e"
| "call_write CSubmit u ctx now e = submit_write u ctx now e"
| "call_write CApprove u ctx now e = approve_write u ctx now e"
| "call_write (CReject reason) u ctx now e = reject_write reason u ctx now e"
| "call_write CActivate u ctx now e = activate_write u ctx now e"
| "call_write CDeactivate u ctx now e = deactivate_write u ctx now e"

definition lender_handler ::
  "lender_call \<Rightarrow> ident \<Rightarrow> auth_user \<Rightarrow> request_context \<Rightarrow> time \<Rightarrow> lender_db \<Rightarrow>
   lender lender_result" where
  "lender_handler c i u ctx now db =
     lender_handle (call_guard c u) (call_write c u ctx now) i db"

section \<open>What a write does to the table\<close>

text \<open>The status part of each \<open>where\<close> and the \<open>data\<close> of each call.\<close>

fun call_where :: "lender_call \<Rightarrow> lender \<Rightarrow> bool" where
  "call_where (CUpdate input) l \<longleftrightarrow> ln_approvalStatus l = LDraft \<or> ln_approvalStatus l = LRejected"
| "call_where CSubmit l \<longleftrightarrow> ln_approvalStatus l = LDraft"
| "call_where CApprove l \<longleftrightarrow> ln_approvalStatus l = LSubmitted"
| "call_where (CReject reason) l \<longleftrightarrow> ln_approvalStatus l = LSubmitted"
| "call_where CActivate l \<longleftrightarrow> ln_approvalStatus l = LApproved \<and> ln_operationalStatus l = INACTIVE"
| "call_where CDeactivate l \<longleftrightarrow> ln_operationalStatus l = ACTIVE"

fun call_data :: "lender_call \<Rightarrow> auth_user \<Rightarrow> time \<Rightarrow> lender \<Rightarrow> lender \<Rightarrow> lender" where
  "call_data (CUpdate input) u now e = update_data input e"
| "call_data CSubmit u now e = submit_data u now"
| "call_data CApprove u now e = approve_data u now"
| "call_data (CReject reason) u now e = reject_data reason u now"
| "call_data CActivate u now e = (\<lambda>l. l\<lparr>ln_operationalStatus := ACTIVE\<rparr>)"
| "call_data CDeactivate u now e = (\<lambda>l. l\<lparr>ln_operationalStatus := INACTIVE\<rparr>)"

fun call_blocked :: "lender_call \<Rightarrow> lender \<Rightarrow> lender_db \<Rightarrow> bool" where
  "call_blocked (CUpdate input) e db = code_taken input e db"
| "call_blocked _ e db = False"

abbreviation commit_row :: "lender_call \<Rightarrow> auth_user \<Rightarrow> time \<Rightarrow> lender \<Rightarrow> lender \<Rightarrow> lender" where
  "commit_row c u now e \<equiv> lender_stamp u now (call_data c u now e)"

abbreviation commit_where :: "lender_call \<Rightarrow> lender \<Rightarrow> lender \<Rightarrow> bool" where
  "commit_where c e \<equiv>
     \<lambda>l. ln_id l = ln_id e \<and> ln_version l = ln_version e \<and> call_where c l"

lemmas lender_write_defs =
  update_write_def submit_write_def approve_write_def reject_write_def activate_write_def
  deactivate_write_def

lemmas lender_data_defs =
  update_data_def reset_rejected_def submit_data_def approve_data_def reject_data_def
  lender_stamp_def Let_def

lemmas lender_guard_defs =
  update_guard_def submit_guard_def approve_guard_def reject_guard_def activate_guard_def
  deactivate_guard_def

lemma lenders_recordAudit [simp]: "lenders (recordAudit u ctx p a l pv nv r db) = lenders db"
  by (simp add: recordAudit_def)

lemma length_audits_recordAudit [simp]:
  "length (lender_audits (recordAudit u ctx p a l pv nv r db)) = Suc (length (lender_audits db))"
  by (simp add: recordAudit_def)

lemma lenders_commit:
  "lenders (snd (lender_commit u ctx now e Q data p a r db)) =
     update_many (\<lambda>l. ln_id l = ln_id e \<and> ln_version l = ln_version e \<and> Q l)
       (lender_stamp u now data) (lenders db)"
  by (auto simp: lender_commit_def Let_def split: option.splits sum.splits)

lemma lenders_call_write:
  "lenders (snd (call_write c u ctx now e db)) =
     (if call_blocked c e db then lenders db
      else update_many (commit_where c e) (commit_row c u now e) (lenders db))"
  by (cases c) (simp_all add: lender_write_defs lenders_commit)

lemma ln_id_commit_row [simp]: "ln_id (commit_row c u now e l) = ln_id l"
  by (cases c) (simp_all add: lender_data_defs)

lemma ln_version_commit_row [simp]: "ln_version (commit_row c u now e l) = ln_version l + 1"
  by (cases c) (simp_all add: lender_data_defs)

interpretation ls: versioned_store
  "find_unique ln_id" "\<lambda>k Q. update_many (\<lambda>r. ln_id r = k \<and> Q r)"
  "\<lambda>k Q. count_rows (\<lambda>r. ln_id r = k \<and> Q r)"
  "\<lambda>f. \<forall>r. ln_id (f r) = ln_id r" "unique_keys ln_id" ln_version
  by (rule versioned_store.intro) (rule tbl.row_store_axioms)

lemma call_write_evolves:
  "evolves (find_unique ln_id) ln_version (lenders db) (lenders (snd (call_write c u ctx now e db)))"
  by (simp add: lenders_call_write ls.upd_evolves)

lemma unique_ids_call_write:
  "unique_keys ln_id (lenders db) \<Longrightarrow> unique_keys ln_id (lenders (snd (call_write c u ctx now e db)))"
  by (simp add: lenders_call_write unique_keys_update_many)

section \<open>The invariant of a lender\<close>

text \<open>
  An approved lender has an approver who is not its maker, only approved lenders are active,
  a rejected lender has a rejecter who is not its maker and a reason, and the review columns
  are empty in the states before the review.
\<close>

definition lender_ok :: "lender \<Rightarrow> bool" where
  "lender_ok l \<longleftrightarrow>
     (ln_approvalStatus l = LApproved \<longrightarrow>
        (\<exists>a. ln_approvedById l = Some a \<and> a \<noteq> makerUserId l))
     \<and> (ln_approvalStatus l \<noteq> LApproved \<longrightarrow> ln_approvedById l = None)
     \<and> (ln_operationalStatus l = ACTIVE \<longrightarrow> ln_approvalStatus l = LApproved)
     \<and> (ln_approvalStatus l = LRejected \<longrightarrow>
          (\<exists>a. ln_rejectedById l = Some a \<and> a \<noteq> makerUserId l) \<and> ln_rejectionReason l \<noteq> None)
     \<and> (ln_approvalStatus l \<noteq> LRejected \<longrightarrow>
          ln_rejectedById l = None \<and> ln_rejectionReason l = None)
     \<and> (ln_submittedById l = None \<longleftrightarrow> ln_approvalStatus l = LDraft)"

lemma call_row_ok:
  "call_guard c u e = Go \<Longrightarrow> call_where c e \<Longrightarrow> lender_ok e \<Longrightarrow> lender_ok (commit_row c u now e e)"
  by (cases c)
     (auto simp: lender_ok_def lender_data_defs lender_guard_defs makerUserId_def
           split: if_splits option.splits)

text \<open>One row under commands of users: the maker-checker contract of the prelude.\<close>

definition lender_trans :: "ident \<Rightarrow> lender_call \<times> string list \<times> time \<Rightarrow> lender \<Rightarrow> lender option" where
  "lender_trans uid cmd l =
     (let c = fst cmd; u = \<lparr>au_userId = uid, au_roleCodes = fst (snd cmd)\<rparr>; now = snd (snd cmd)
      in if call_guard c u l = Go \<and> call_where c l then Some (commit_row c u now l l) else None)"

lemma lender_trans_Some:
  "lender_trans uid (c, roles, now) l = Some l' \<longleftrightarrow>
     call_guard c \<lparr>au_userId = uid, au_roleCodes = roles\<rparr> l = Go \<and> call_where c l
     \<and> l' = commit_row c \<lparr>au_userId = uid, au_roleCodes = roles\<rparr> now l l"
  by (auto simp: lender_trans_def Let_def)

lemma lender_trans_clears:
  "lender_trans uid (c, roles, now) l = Some l' \<Longrightarrow> ln_approvalStatus l \<noteq> LApproved \<Longrightarrow>
   ln_approvalStatus l' = LApproved \<Longrightarrow>
   uid \<noteq> makerUserId l \<and> makerUserId l' = makerUserId l \<and> ln_approvedById l' = Some uid"
  unfolding lender_trans_Some
  by (cases c) (auto simp: lender_data_defs lender_guard_defs makerUserId_def
      split: if_splits option.splits)

lemma lender_trans_keeps:
  "lender_trans uid (c, roles, now) l = Some l' \<Longrightarrow> ln_approvalStatus l = LApproved \<Longrightarrow>
   ln_approvalStatus l' = LApproved \<Longrightarrow>
   makerUserId l' = makerUserId l \<and> ln_approvedById l' = ln_approvedById l"
  unfolding lender_trans_Some
  by (cases c) (auto simp: lender_data_defs lender_guard_defs makerUserId_def
      split: if_splits option.splits)

interpretation lender_review: review_flow
  "\<lambda>l. ln_approvalStatus l = LApproved" makerUserId ln_approvedById lender_trans
  by unfold_locales (metis prod.exhaust lender_trans_clears, metis prod.exhaust lender_trans_keeps)

section \<open>Concurrent requests\<close>

text \<open>
  A request that has read its row and passed its checks is pending with that snapshot. Any
  number of requests may be pending, and their reads and writes interleave in any order; a
  request may also never reach its write.
\<close>

type_synonym pending = "(lender_call \<times> auth_user \<times> lender) list"

inductive lenders_step :: "lender_db \<times> pending \<Rightarrow> lender_db \<times> pending \<Rightarrow> bool" where
  req_create: "lenders_step (db, ps) (snd (lender_create newId input u ctx now db), ps)"
| req_read: "getLenderOrThrow i db = Inr e \<Longrightarrow> call_guard c u e = Go \<Longrightarrow>
    lenders_step (db, ps) (db, (c, u, e) # ps)"
| req_write: "(c, u, e) \<in> set ps \<Longrightarrow>
    lenders_step (db, ps) (snd (call_write c u ctx now e db), remove1 (c, u, e) ps)"
| req_abandon: "lenders_step (db, ps) (db, remove1 p ps)"

inductive lenders_reachable :: "lender_db \<times> pending \<Rightarrow> bool" where
  start: "lenders_reachable (\<lparr>lenders = [], lender_audits = []\<rparr>, [])"
| step: "lenders_reachable s \<Longrightarrow> lenders_step s s' \<Longrightarrow> lenders_reachable s'"

text \<open>A snapshot is still the row, or the row has moved to a larger version.\<close>

definition snapshot_valid :: "lender \<Rightarrow> lender list \<Rightarrow> bool" where
  "snapshot_valid e t \<longleftrightarrow>
     (\<exists>r. find_unique ln_id (ln_id e) t = Some r \<and> (r = e \<or> ln_version e < ln_version r))"

definition lenders_inv :: "lender_db \<times> pending \<Rightarrow> bool" where
  "lenders_inv s \<longleftrightarrow>
     unique_keys ln_id (lenders (fst s)) \<and> unique_keys ln_code (lenders (fst s))
     \<and> (\<forall>l\<in>set (lenders (fst s)). lender_ok l)
     \<and> (\<forall>(c, u, e)\<in>set (snd s).
          call_guard c u e = Go \<and> lender_ok e \<and> snapshot_valid e (lenders (fst s)))"

lemma snapshot_valid_evolves:
  assumes "snapshot_valid e t" and "evolves (find_unique ln_id) ln_version t t'"
  shows "snapshot_valid e t'"
proof -
  from assms(1) obtain r where r: "find_unique ln_id (ln_id e) t = Some r"
      "r = e \<or> ln_version e < ln_version r"
    by (auto simp: snapshot_valid_def)
  with assms(2) obtain r' where "find_unique ln_id (ln_id e) t' = Some r'"
      "r' = r \<or> ln_version r < ln_version r'"
    by (auto simp: evolves_def)
  with r(2) show ?thesis by (auto simp: snapshot_valid_def)
qed

text \<open>A write that hits, hits the row the handler read.\<close>

lemma write_hits_snapshot:
  assumes "unique_keys ln_id t" and "snapshot_valid e t"
    and "l \<in> set t" and "commit_where c e l"
  shows "l = e"
proof -
  from assms(1,3,4) have "find_unique ln_id (ln_id e) t = Some l"
    by (metis find_unique_in_set)
  with assms(2,4) show ?thesis by (auto simp: snapshot_valid_def)
qed

lemma rows_ok_call_write:
  assumes "unique_keys ln_id (lenders db)" and "\<forall>l\<in>set (lenders db). lender_ok l"
    and "call_guard c u e = Go" and "lender_ok e" and "snapshot_valid e (lenders db)"
  shows "\<forall>l\<in>set (lenders (snd (call_write c u ctx now e db))). lender_ok l"
proof
  fix l assume "l \<in> set (lenders (snd (call_write c u ctx now e db)))"
  then consider "l \<in> set (lenders db)"
    | l0 where "l0 \<in> set (lenders db)" "commit_where c e l0" "l = commit_row c u now e l0"
    by (auto simp: lenders_call_write set_update_many split: if_splits)
  then show "lender_ok l"
  proof cases
    case 1
    with assms(2) show ?thesis by blast
  next
    case 2
    with assms(1,5) have "l0 = e" by (blast intro: write_hits_snapshot)
    with 2 assms(3,4) show ?thesis by (auto intro: call_row_ok)
  qed
qed

lemma call_data_code:
  "ln_code (commit_row c u now e l) =
     (case c of CUpdate input \<Rightarrow> set_if (ui_code input) (ln_code l) | _ \<Rightarrow> ln_code l)"
  by (cases c) (simp_all add: lender_data_defs)

lemma unique_keys_change_one:
  assumes "unique_keys ln_id t" and "unique_keys key t"
    and "\<And>l. ln_id (f l) = ln_id l"
    and "\<And>l r. l \<in> set t \<Longrightarrow> P l \<Longrightarrow> r \<in> set t \<Longrightarrow> ln_id r \<noteq> ln_id l \<Longrightarrow> key (f l) \<noteq> key r"
    and "\<And>l. P l \<Longrightarrow> ln_id l = i"
  shows "unique_keys key (update_many P f t)"
  using assms(1,2,4)
proof (induction t)
  case Nil
  then show ?case by simp
next
  case (Cons a t)
  have ne: "key (if P a then f a else a) \<noteq> key (if P r then f r else r)" if r: "r \<in> set t" for r
  proof -
    from Cons.prems(1) r have "ln_id r \<noteq> ln_id a" by (metis image_eqI unique_keys_Cons)
    moreover from Cons.prems(2) r have "key r \<noteq> key a" by (metis image_eqI unique_keys_Cons)
    moreover have "\<not> (P a \<and> P r)" using calculation(1) assms(5) by metis
    ultimately show ?thesis using Cons.prems(3) r by (metis list.set_intros)
  qed
  have "unique_keys key (update_many P f t)"
    using Cons.prems by (intro Cons.IH) auto
  moreover have "key (if P a then f a else a) \<notin> key ` set (update_many P f t)"
    unfolding set_update_many image_image using ne by blast
  ultimately show ?case by simp
qed

lemma unique_codes_call_write:
  assumes "unique_keys ln_id (lenders db)" and "unique_keys ln_code (lenders db)"
  shows "unique_keys ln_code (lenders (snd (call_write c u ctx now e db)))"
proof (cases "call_blocked c e db")
  case True
  with assms show ?thesis by (simp add: lenders_call_write)
next
  case False
  have "unique_keys ln_code (update_many (commit_where c e) (commit_row c u now e) (lenders db))"
  proof (rule unique_keys_change_one [OF assms, where i = "ln_id e"])
    fix l r assume l: "l \<in> set (lenders db)" "commit_where c e l"
      and r: "r \<in> set (lenders db)" "ln_id r \<noteq> ln_id l"
    from r l(1) assms(2) have other: "ln_code r \<noteq> ln_code l"
      by (metis find_unique_in_set option.inject)
    show "ln_code (commit_row c u now e l) \<noteq> ln_code r"
    proof (cases "\<exists>input v. c = CUpdate input \<and> ui_code input = Some v")
      case True
      then obtain input v where c: "c = CUpdate input" "ui_code input = Some v" by blast
      with False l r have "ln_code r \<noteq> v"
        by (auto simp: code_taken_def list_ex_iff)
      moreover from c have "ln_code (commit_row c u now e l) = v"
        by (simp only: call_data_code) (simp add: set_if_def)
      ultimately show ?thesis by simp
    next
      case False
      with other show ?thesis
        by (simp only: call_data_code) (auto simp: set_if_def split: option.splits lender_call.splits)
    qed
  qed auto
  with False show ?thesis by (simp add: lenders_call_write)
qed

lemma lender_create_lenders:
  "lenders (snd (lender_create newId input u ctx now db)) = lenders db \<or>
   (\<exists>l. lenders (snd (lender_create newId input u ctx now db)) = lenders db @ [l]
      \<and> ln_approvalStatus l = LDraft \<and> lender_ok l
      \<and> ln_id l \<notin> ln_id ` set (lenders db) \<and> ln_code l \<notin> ln_code ` set (lenders db))"
  by (auto simp: lender_create_def Let_def lender_ok_def list_ex_iff)

lemma getLenderOrThrow_Inr:
  "getLenderOrThrow i db = Inr e \<longleftrightarrow> find_unique ln_id i (lenders db) = Some e"
  by (auto simp: getLenderOrThrow_def split: option.splits)

lemma snapshot_valid_append: "snapshot_valid e t \<Longrightarrow> snapshot_valid e (t @ [l])"
  by (auto simp: snapshot_valid_def find_unique_append)

lemma lenders_step_inv: "lenders_step s s' \<Longrightarrow> lenders_inv s \<Longrightarrow> lenders_inv s'"
proof (induction rule: lenders_step.induct)
  case (req_create db ps newId input u ctx now)
  from lender_create_lenders [of newId input u ctx now db] show ?case
  proof (elim disjE exE conjE)
    assume "lenders (snd (lender_create newId input u ctx now db)) = lenders db"
    with req_create show ?thesis by (simp add: lenders_inv_def)
  next
    fix l
    assume "lenders (snd (lender_create newId input u ctx now db)) = lenders db @ [l]"
      and "lender_ok l" and "ln_id l \<notin> ln_id ` set (lenders db)"
      and "ln_code l \<notin> ln_code ` set (lenders db)"
    with req_create show ?thesis
      by (auto simp: lenders_inv_def snapshot_valid_append)
  qed
next
  case (req_read i db e c u ps)
  then have "find_unique ln_id i (lenders db) = Some e"
    by (simp add: getLenderOrThrow_Inr)
  then have "e \<in> set (lenders db)" and "ln_id e = i"
    by (auto dest: find_unique_Some_D)
  with req_read \<open>find_unique ln_id i (lenders db) = Some e\<close> show ?case
    by (auto simp: lenders_inv_def snapshot_valid_def)
next
  case (req_write c u e ps db ctx now)
  let ?t' = "lenders (snd (call_write c u ctx now e db))"
  from req_write have p: "call_guard c u e = Go" "lender_ok e" "snapshot_valid e (lenders db)"
    and u: "unique_keys ln_id (lenders db)" "unique_keys ln_code (lenders db)"
    and ok: "\<forall>l\<in>set (lenders db). lender_ok l"
    by (auto simp: lenders_inv_def)
  have "\<forall>l\<in>set ?t'. lender_ok l" using rows_ok_call_write [OF u(1) ok p] .
  moreover have "snapshot_valid e' ?t'" if "snapshot_valid e' (lenders db)" for e'
    using that call_write_evolves by (rule snapshot_valid_evolves)
  moreover have "call_guard c' u' e' = Go \<and> lender_ok e' \<and> snapshot_valid e' (lenders db)"
    if "(c', u', e') \<in> set (remove1 (c, u, e) ps)" for c' u' e'
    using req_write.prems that set_remove1_subset [of "(c, u, e)" ps]
    by (auto simp: lenders_inv_def)
  ultimately show ?case
    using u by (fastforce simp: lenders_inv_def unique_ids_call_write unique_codes_call_write)
next
  case (req_abandon db ps p)
  then show ?case
    using set_remove1_subset [of p ps] by (auto simp: lenders_inv_def)
qed

lemma lenders_reachable_inv: "lenders_reachable s \<Longrightarrow> lenders_inv s"
proof (induction rule: lenders_reachable.induct)
  case start
  show ?case by (simp add: lenders_inv_def)
next
  case (step s s')
  then show ?case by (blast intro: lenders_step_inv)
qed

text \<open>A request that runs alone is one of the interleavings.\<close>

lemma lenders_reachable_handler:
  assumes "lenders_reachable (db, ps)"
  shows "lenders_reachable (snd (lender_handler c i u ctx now db), ps)"
proof (cases "getLenderOrThrow i db")
  case (Inl e)
  with assms show ?thesis by (simp add: lender_handler_def lender_handle_def)
next
  case (Inr e)
  show ?thesis
  proof (cases "call_guard c u e = Go")
    case True
    with Inr have eq: "snd (lender_handler c i u ctx now db) = snd (call_write c u ctx now e db)"
      by (simp add: lender_handler_def lender_handle_def)
    from assms Inr True have "lenders_reachable (db, (c, u, e) # ps)"
      by (blast intro: lenders_reachable.step req_read)
    moreover have "lenders_step (db, (c, u, e) # ps)
        (snd (call_write c u ctx now e db), remove1 (c, u, e) ((c, u, e) # ps))"
      by (rule req_write) simp
    ultimately show ?thesis
      unfolding eq by (auto dest: lenders_reachable.step)
  next
    case False
    with Inr assms show ?thesis
      by (cases "call_guard c u e") (auto simp: lender_handler_def lender_handle_def)
  qed
qed

lemma lenders_reachable_create:
  "lenders_reachable (db, ps) \<Longrightarrow> lenders_reachable (snd (lender_create i input u ctx now db), ps)"
  by (blast intro: lenders_reachable.step req_create)

lemma guard_Go_where: "call_guard c u e = Go \<Longrightarrow> call_where c e"
  by (cases c) (auto simp: lender_guard_defs split: if_splits intro: operational.exhaust)

text \<open>The audit entry of a call.\<close>

fun call_permission :: "lender_call \<Rightarrow> string" where
  "call_permission (CUpdate input) = ''LENDER_UPDATE''"
| "call_permission CSubmit = ''LENDER_SUBMIT''"
| "call_permission CApprove = ''LENDER_APPROVE''"
| "call_permission (CReject reason) = ''LENDER_REJECT''"
| "call_permission CActivate = ''LENDER_ACTIVATE''"
| "call_permission CDeactivate = ''LENDER_DEACTIVATE''"

fun call_action :: "lender_call \<Rightarrow> string" where
  "call_action (CUpdate input) = ''LENDER_UPDATED''"
| "call_action CSubmit = ''LENDER_SUBMITTED''"
| "call_action CApprove = ''LENDER_APPROVED''"
| "call_action (CReject reason) = ''LENDER_REJECTED''"
| "call_action CActivate = ''LENDER_ACTIVATED''"
| "call_action CDeactivate = ''LENDER_DEACTIVATED''"

fun call_reason :: "lender_call \<Rightarrow> string option" where
  "call_reason (CReject reason) = Some reason"
| "call_reason _ = None"

lemma call_write_commit:
  "call_write c u ctx now e db =
     (if call_blocked c e db then (Inl (Conflict ''LENDER_CODE_EXISTS''), db)
      else lender_commit u ctx now e (call_where c) (call_data c u now e)
             (call_permission c) (call_action c) (call_reason c) db)"
proof -
  have "call_where (CUpdate input) =
      (\<lambda>l. ln_approvalStatus l = LDraft \<or> ln_approvalStatus l = LRejected)" for input
    by (rule ext) simp
  moreover have "call_where CSubmit = (\<lambda>l. ln_approvalStatus l = LDraft)"
    and "call_where CApprove = (\<lambda>l. ln_approvalStatus l = LSubmitted)"
    and "call_where (CReject reason) = (\<lambda>l. ln_approvalStatus l = LSubmitted)" for reason
    by (rule ext, simp)+
  moreover have "call_where CActivate =
      (\<lambda>l. ln_approvalStatus l = LApproved \<and> ln_operationalStatus l = INACTIVE)"
    and "call_where CDeactivate = (\<lambda>l. ln_operationalStatus l = ACTIVE)"
    by (rule ext, simp)+
  ultimately show ?thesis by (cases c) (simp_all add: lender_write_defs)
qed

text \<open>A commit on the row that is there: it takes, and leaves one audit entry.\<close>

lemma lender_commit_hit:
  assumes "unique_keys ln_id (lenders db)"
    and "find_unique ln_id (ln_id e) (lenders db) = Some e" and "Q e"
    and "\<And>l. ln_id (data l) = ln_id l"
  shows "lender_commit u ctx now e Q data p a r db =
     (Inr (lender_stamp u now data e),
      recordAudit u ctx p a (lender_stamp u now data e) (Some e) (Some (lender_stamp u now data e)) r
        (db\<lparr>lenders := update_many (\<lambda>l. ln_id l = ln_id e) (lender_stamp u now data) (lenders db)\<rparr>))"
proof -
  let ?w = "\<lambda>l. ln_id l = ln_id e \<and> ln_version l = ln_version e \<and> Q l"
  have n: "count_rows ?w (lenders db) = 1"
    using count_rows_key [OF assms(1), of "ln_id e" "\<lambda>l. ln_version l = ln_version e \<and> Q l"]
      assms(2,3) by simp
  have only: "l = e" if "l \<in> set (lenders db)" "ln_id l = ln_id e" for l
    using find_unique_in_set [OF assms(1) that(1)] that(2) assms(2) by simp
  have rows: "update_many ?w (lender_stamp u now data) (lenders db) =
      update_many (\<lambda>l. ln_id l = ln_id e) (lender_stamp u now data) (lenders db)"
    using only assms(3) by (auto simp: update_many_def)
  have keep: "ln_id (lender_stamp u now data l) = ln_id l" for l
    by (simp add: lender_stamp_def assms(4))
  have "find_unique ln_id (ln_id e)
      (update_many (\<lambda>l. ln_id l = ln_id e) (lender_stamp u now data) (lenders db)) =
      Some (lender_stamp u now data e)"
    using assms(2) by (simp add: find_unique_update_many keep)
  then show ?thesis
    by (simp add: lender_commit_def Let_def n rows ensureOneRowUpdated_def getLenderOrThrow_def)
qed

lemma ln_id_call_data [simp]: "ln_id (call_data c u now e l) = ln_id l"
  by (cases c) (simp_all add: lender_data_defs)

section \<open>Properties\<close>

text \<open>A small world for the witnesses: two users and one lender on its way to approval.\<close>

definition demo_ann :: auth_user where
  "demo_ann = \<lparr>au_userId = ''ann'', au_roleCodes = []\<rparr>"

definition demo_bob :: auth_user where
  "demo_bob = \<lparr>au_userId = ''bob'', au_roleCodes = []\<rparr>"

definition demo_ctx :: request_context where
  "demo_ctx = \<lparr>rc_requestId = ''r'', rc_ipAddress = None, rc_userAgent = None\<rparr>"

definition demo_input :: create_lender_input where
  "demo_input = \<lparr>ci_legalName = ''Fintree'', ci_displayName = ''Fintree'', ci_code = ''FT'',
     ci_supportEmail = None, ci_supportPhone = None\<rparr>"

definition demo_submitted :: lender_db where
  "demo_submitted = snd (lender_handler CSubmit ''L1'' demo_ann demo_ctx 2
     (snd (lender_create ''L1'' demo_input demo_ann demo_ctx 1
        \<lparr>lenders = [], lender_audits = []\<rparr>)))"

definition demo_approved :: lender_db where
  "demo_approved = snd (lender_handler CApprove ''L1'' demo_bob demo_ctx 3 demo_submitted)"

lemma demo_submitted_reachable: "lenders_reachable (demo_submitted, [])"
  unfolding demo_submitted_def
  by (intro lenders_reachable_handler lenders_reachable_create lenders_reachable.start)

lemma demo_approved_reachable: "lenders_reachable (demo_approved, [])"
  unfolding demo_approved_def by (intro lenders_reachable_handler demo_submitted_reachable)

text \<open>
  C1. Maker-checker under concurrency: in every state reachable by creating lenders and by
  any interleaving of the reads and writes of update, submit, approve, reject, activate and
  deactivate, an approved lender was approved by a user other than its maker, an active
  lender is approved, a rejected one carries a reason and was rejected by another user, and
  no two lenders share an id or a code.
\<close>

theorem lenders_maker_checker:
  assumes "lenders_reachable (db, ps)"
  shows "unique_keys ln_id (lenders db) \<and> unique_keys ln_code (lenders db) \<and>
    (\<forall>l\<in>set (lenders db).
       (ln_approvalStatus l = LApproved \<longrightarrow>
          (\<exists>a. ln_approvedById l = Some a \<and> a \<noteq> makerUserId l))
       \<and> (ln_operationalStatus l = ACTIVE \<longrightarrow> ln_approvalStatus l = LApproved)
       \<and> (ln_approvalStatus l = LRejected \<longrightarrow>
          (\<exists>a. ln_rejectedById l = Some a \<and> a \<noteq> makerUserId l) \<and> ln_rejectionReason l \<noteq> None))"
  using lenders_reachable_inv [OF assms] by (simp add: lenders_inv_def lender_ok_def)

theorem lenders_maker_checker_witness:
  "unique_keys ln_id (lenders demo_approved) \<and> map ln_approvalStatus (lenders demo_approved) = [LApproved]
   \<and> map ln_approvedById (lenders demo_approved) = [Some ''bob'']"
proof -
  have "unique_keys ln_id (lenders demo_approved)"
    using lenders_maker_checker [OF demo_approved_reachable] by blast
  moreover have "map ln_approvalStatus (lenders demo_approved) = [LApproved]"
    and "map ln_approvedById (lenders demo_approved) = [Some ''bob'']"
    by code_simp+
  ultimately show ?thesis by blast
qed

text \<open>
  No lost update: when a pending request of a reachable state writes successfully, the
  row in the table was exactly the snapshot the request had read and checked, the row it
  leaves is that snapshot with the call's changes and the version one larger, and all other
  rows keep their value.
\<close>

theorem lender_write_sees_snapshot:
  assumes "lenders_reachable (db, ps)" and "(c, u, e) \<in> set ps"
    and "call_write c u ctx now e db = (Inr l', db')"
  shows "find_unique ln_id (ln_id e) (lenders db) = Some e
    \<and> l' = commit_row c u now e e \<and> ln_version l' = ln_version e + 1
    \<and> find_unique ln_id (ln_id e) (lenders db') = Some l'
    \<and> (\<forall>i. i \<noteq> ln_id e \<longrightarrow> find_unique ln_id i (lenders db') = find_unique ln_id i (lenders db))
    \<and> length (lender_audits db') = Suc (length (lender_audits db))"
proof -
  from lenders_reachable_inv [OF assms(1)] assms(2)
  have u: "unique_keys ln_id (lenders db)" and g: "call_guard c u e = Go"
    and v: "snapshot_valid e (lenders db)"
    by (auto simp: lenders_inv_def)
  from assms(3) have free: "\<not> call_blocked c e db"
    by (auto simp: call_write_commit split: if_splits)
  then have commit: "lender_commit u ctx now e (call_where c) (call_data c u now e)
      (call_permission c) (call_action c) (call_reason c) db = (Inr l', db')"
    using assms(3) by (simp add: call_write_commit)
  then have "count_rows (commit_where c e) (lenders db) = 1"
    by (auto simp: lender_commit_def Let_def ensureOneRowUpdated_def split: if_splits)
  then have "count_rows (commit_where c e) (lenders db) \<noteq> 0" by simp
  then obtain r where "r \<in> set (lenders db)" "commit_where c e r"
    unfolding count_rows_zero_iff by blast
  with u v have hit: "find_unique ln_id (ln_id e) (lenders db) = Some e"
    by (metis find_unique_in_set write_hits_snapshot)
  let ?e' = "commit_row c u now e e"
  let ?db' = "recordAudit u ctx (call_permission c) (call_action c) ?e' (Some e) (Some ?e')
      (call_reason c)
      (db\<lparr>lenders := update_many (\<lambda>l. ln_id l = ln_id e) (commit_row c u now e) (lenders db)\<rparr>)"
  have "lender_commit u ctx now e (call_where c) (call_data c u now e)
      (call_permission c) (call_action c) (call_reason c) db = (Inr ?e', ?db')"
    using u hit guard_Go_where [OF g] by (intro lender_commit_hit) simp_all
  from this [unfolded commit] have "l' = ?e'" and "db' = ?db'" by blast+
  then have eqs: "l' = ?e'"
    "lenders db' = update_many (\<lambda>l. ln_id l = ln_id e) (commit_row c u now e) (lenders db)"
    "length (lender_audits db') = Suc (length (lender_audits db))"
    by simp_all
  have look: "find_unique ln_id i (lenders db') =
      map_option (\<lambda>l. if ln_id l = ln_id e then commit_row c u now e l else l)
        (find_unique ln_id i (lenders db))" for i
    unfolding eqs(2) by (rule find_unique_update_many) simp
  have "find_unique ln_id i (lenders db') = find_unique ln_id i (lenders db)" if "i \<noteq> ln_id e" for i
    using that look [of i] by (cases "find_unique ln_id i (lenders db)")
      (auto dest: find_unique_Some_D)
  moreover have "find_unique ln_id (ln_id e) (lenders db') = Some l'"
    using look [of "ln_id e"] hit eqs(1) by simp
  ultimately show ?thesis using hit eqs(1,3) by simp
qed

theorem lender_write_sees_snapshot_witness:
  "ln_version (commit_row CApprove demo_bob 3 (hd (lenders demo_submitted))
     (hd (lenders demo_submitted))) = 3"
proof -
  let ?e = "hd (lenders demo_submitted)"
  have read: "getLenderOrThrow ''L1'' demo_submitted = Inr ?e" by code_simp
  have go: "call_guard CApprove demo_bob ?e = Go" by code_simp
  from demo_submitted_reachable req_read [OF read go]
  have r: "lenders_reachable (demo_submitted, [(CApprove, demo_bob, ?e)])"
    by (rule lenders_reachable.step)
  obtain res db' where w: "call_write CApprove demo_bob demo_ctx 3 ?e demo_submitted = (res, db')"
    by (cases "call_write CApprove demo_bob demo_ctx 3 ?e demo_submitted")
  have "isl (fst (call_write CApprove demo_bob demo_ctx 3 ?e demo_submitted)) = False"
    by code_simp
  with w obtain l' where "res = Inr l'" by (cases res) auto
  with w have w': "call_write CApprove demo_bob demo_ctx 3 ?e demo_submitted = (Inr l', db')"
    by simp
  have p: "(CApprove, demo_bob, ?e) \<in> set [(CApprove, demo_bob, ?e)]" by simp
  note res = lender_write_sees_snapshot [OF r p w']
  have v: "ln_version ?e = 2" by code_simp
  from res have "l' = commit_row CApprove demo_bob 3 ?e ?e" and "ln_version l' = ln_version ?e + 1"
    by blast+
  with v show ?thesis by (simp only:)
qed

text \<open>
  Every branch of a lender handler that runs alone: an unknown lender, a refusal of its
  checks and a taken code leave the database as it is and return the error; a repeated
  activation or deactivation returns the row and changes nothing; otherwise exactly the
  lender's row is replaced and one audit entry with the handler's permission, action and
  reason is added. The concurrency error cannot occur.
\<close>

theorem lender_handler_spec:
  assumes "unique_keys ln_id (lenders db)"
  shows "lender_handler c i u ctx now db =
    (case find_unique ln_id i (lenders db) of
       None \<Rightarrow> (Inl (NotFound ''LENDER_NOT_FOUND''), db)
     | Some e \<Rightarrow>
         (case call_guard c u e of
            Refuse err \<Rightarrow> (Inl err, db)
          | Done \<Rightarrow> (Inr e, db)
          | Go \<Rightarrow>
              if call_blocked c e db then (Inl (Conflict ''LENDER_CODE_EXISTS''), db)
              else (Inr (commit_row c u now e e),
                    recordAudit u ctx (call_permission c) (call_action c) (commit_row c u now e e)
                      (Some e) (Some (commit_row c u now e e)) (call_reason c)
                      (db\<lparr>lenders := update_many (\<lambda>l. ln_id l = i) (commit_row c u now e)
                                       (lenders db)\<rparr>))))"
proof (cases "find_unique ln_id i (lenders db)")
  case None
  then show ?thesis by (simp add: lender_handler_def lender_handle_def getLenderOrThrow_def)
next
  case (Some e)
  then have i: "ln_id e = i" by (auto dest: find_unique_Some_D)
  show ?thesis
  proof (cases "call_guard c u e = Go")
    case True
    have "lender_commit u ctx now e (call_where c) (call_data c u now e)
        (call_permission c) (call_action c) (call_reason c) db =
      (Inr (commit_row c u now e e),
       recordAudit u ctx (call_permission c) (call_action c) (commit_row c u now e e)
         (Some e) (Some (commit_row c u now e e)) (call_reason c)
         (db\<lparr>lenders := update_many (\<lambda>l. ln_id l = ln_id e) (commit_row c u now e) (lenders db)\<rparr>))"
      using assms Some guard_Go_where [OF True] i
      by (intro lender_commit_hit) simp_all
    with True Some i show ?thesis
      by (simp add: lender_handler_def lender_handle_def getLenderOrThrow_def call_write_commit)
  next
    case False
    with Some show ?thesis
      by (cases "call_guard c u e")
         (simp_all add: lender_handler_def lender_handle_def getLenderOrThrow_def)
  qed
qed

theorem lender_handler_spec_witness:
  "unique_keys ln_id (lenders demo_submitted)
   \<and> fst (lender_handler CApprove ''L1'' demo_ann demo_ctx 3 demo_submitted)
       = Inl (Forbidden ''MAKER_CHECKER_VIOLATION'')"
proof -
  have u: "unique_keys ln_id (lenders demo_submitted)" by code_simp
  have f: "find_unique ln_id ''L1'' (lenders demo_submitted) = Some (hd (lenders demo_submitted))"
    by code_simp
  have g: "call_guard CApprove demo_ann (hd (lenders demo_submitted))
      = Refuse (Forbidden ''MAKER_CHECKER_VIOLATION'')" by code_simp
  show ?thesis
    unfolding lender_handler_spec [OF u] using u f g by simp
qed

text \<open>
  Redaction loses dates: the audit trail stores an empty object for every timestamp of a
  lender snapshot, so two snapshots that differ only in when the lender was created,
  submitted, approved, rejected or updated are stored as the same value.
\<close>

theorem audit_snapshot_loses_dates:
  "sanitizeObject (auditSnapshot l) =
   sanitizeObject (auditSnapshot (l\<lparr>ln_createdAt := t1, ln_updatedAt := t2,
     ln_submittedAt := map_option (\<lambda>_. t3) (ln_submittedAt l),
     ln_approvedAt := map_option (\<lambda>_. t4) (ln_approvedAt l),
     ln_rejectedAt := map_option (\<lambda>_. t5) (ln_rejectedAt l)\<rparr>))"
  by (simp add: sanitizeObject_def auditSnapshot_def json_opt_def split: option.splits)

end
