(* ===== verification/SmoothWrr.thy ===== *)
theory SmoothWrr
  imports Prelude
begin

text \<open>
  Smooth weighted round robin (modules/mlm/services/smooth-weighted-round-robin.service.ts):
  the algorithm that decides which lender route the next application goes to.

  Weights are \<open>Prisma.Decimal\<close> values; additions, subtractions and comparisons of the
  percentages (Decimal(7,4)) and current weights (Decimal(12,4)) are exact in decimal.js
  (20 significant digits), so they are rationals here. \<open>selectNext\<close> is its loop over the
  routes, an accumulator of the loop's two variables, and the final deduction.
\<close>

section \<open>The algorithm\<close>

record swrr_route =
  sr_id :: ident
  sr_allocationPercentage :: rat
  sr_currentWeight :: rat
  sr_isEligible :: bool

record swrr_result =
  selectedRouteId :: "ident option"
  updatedRoutes :: "(ident \<times> rat) list"

text \<open>
  Phase 1, one pass in list order. \<open>bestRoute\<close> is a reference into the working copies, so it
  is the position of the route and its (already increased) weight; \<open>tot\<close> is
  \<open>eligibleTotalWeight\<close>.
\<close>

fun phase1 ::
  "nat \<Rightarrow> rat \<Rightarrow> (nat \<times> rat) option \<Rightarrow> swrr_route list \<Rightarrow>
   swrr_route list \<times> rat \<times> (nat \<times> rat) option" where
  "phase1 i tot best [] = ([], tot, best)"
| "phase1 i tot best (r # rs) =
     (if sr_isEligible r then
        let w = sr_currentWeight r + sr_allocationPercentage r;
            tot' = tot + sr_allocationPercentage r;
            best' = (case best of
                       None \<Rightarrow> Some (i, w)
                     | Some (j, bw) \<Rightarrow> if bw < w then Some (i, w) else best);
            (rs', t, b) = phase1 (Suc i) tot' best' rs
        in (r\<lparr>sr_currentWeight := w\<rparr> # rs', t, b)
      else
        let (rs', t, b) = phase1 (Suc i) tot best rs in (r # rs', t, b))"

definition working_result :: "swrr_route list \<Rightarrow> (ident \<times> rat) list" where
  "working_result rs = map (\<lambda>r. (sr_id r, sr_currentWeight r)) rs"

definition selectNext :: "swrr_route list \<Rightarrow> swrr_result" where
  "selectNext routes =
     (case phase1 0 0 None routes of
        (working, tot, None) \<Rightarrow>
          \<lparr>selectedRouteId = None, updatedRoutes = working_result working\<rparr>
      | (working, tot, Some (i, bw)) \<Rightarrow>
          let best = working ! i;
              working' = working[i := best\<lparr>sr_currentWeight := sr_currentWeight best - tot\<rparr>]
          in \<lparr>selectedRouteId = Some (sr_id best), updatedRoutes = working_result working'\<rparr>)"

section \<open>What one pass computes\<close>

definition bump :: "swrr_route \<Rightarrow> swrr_route" where
  "bump r = (if sr_isEligible r
     then r\<lparr>sr_currentWeight := sr_currentWeight r + sr_allocationPercentage r\<rparr> else r)"

definition eligible_total :: "swrr_route list \<Rightarrow> rat" where
  "eligible_total rs = sum_list (map sr_allocationPercentage (filter sr_isEligible rs))"

definition weight_sum :: "(ident \<times> rat) list \<Rightarrow> rat" where
  "weight_sum ws = sum_list (map snd ws)"

lemma phase1_routes: "fst (phase1 i t b rs) = map bump rs"
  by (induction rs arbitrary: i t b) (simp_all add: bump_def Let_def case_prod_unfold)

lemma phase1_total: "fst (snd (phase1 i t b rs)) = t + eligible_total rs"
  by (induction rs arbitrary: i t b) (simp_all add: eligible_total_def Let_def case_prod_unfold)

text \<open>The best route: the first eligible one of maximal increased weight.\<close>

definition best_ok :: "swrr_route list \<Rightarrow> nat \<times> rat \<Rightarrow> bool" where
  "best_ok rs p \<longleftrightarrow> (case p of (i, w) \<Rightarrow>
     i < length rs \<and> sr_isEligible (rs ! i) \<and> w = sr_currentWeight (rs ! i)
     \<and> (\<forall>j<length rs. sr_isEligible (rs ! j) \<longrightarrow>
          sr_currentWeight (rs ! j) \<le> w \<and> (j < i \<longrightarrow> sr_currentWeight (rs ! j) < w)))"

lemma sr_isEligible_bump [simp]: "sr_isEligible (bump r) = sr_isEligible r"
  by (simp add: bump_def)

lemma sr_id_bump [simp]: "sr_id (bump r) = sr_id r"
  by (simp add: bump_def)

lemma best_ok_snoc_ineligible:
  "\<not> sr_isEligible r \<Longrightarrow> best_ok rs p \<Longrightarrow> best_ok (rs @ [r]) p"
  by (auto simp: best_ok_def nth_append less_Suc_eq)

lemma best_ok_snoc_keep:
  "best_ok rs (i, w) \<Longrightarrow> sr_currentWeight r \<le> w \<Longrightarrow> best_ok (rs @ [r]) (i, w)"
  by (auto simp: best_ok_def nth_append less_Suc_eq)

lemma best_ok_snoc_new:
  assumes "sr_isEligible r" and "\<forall>j<length rs. sr_isEligible (rs ! j) \<longrightarrow>
      sr_currentWeight (rs ! j) < sr_currentWeight r"
  shows "best_ok (rs @ [r]) (length rs, sr_currentWeight r)"
  using assms by (auto simp: best_ok_def nth_append less_Suc_eq less_imp_le)

definition best_inv :: "swrr_route list \<Rightarrow> (nat \<times> rat) option \<Rightarrow> bool" where
  "best_inv ds best \<longleftrightarrow>
     (case best of None \<Rightarrow> (\<forall>r\<in>set ds. \<not> sr_isEligible r) | Some p \<Rightarrow> best_ok ds p)"

lemma phase1_best:
  "best_inv ds best \<Longrightarrow> best_inv (ds @ map bump rs) (snd (snd (phase1 (length ds) t best rs)))"
proof (induction rs arbitrary: ds t best)
  case Nil
  then show ?case by simp
next
  case (Cons r rs)
  show ?case
  proof (cases "sr_isEligible r")
    case False
    then have b: "bump r = r" by (simp add: bump_def)
    have "best_inv (ds @ [r]) best"
      using Cons.prems False
      by (auto simp: best_inv_def best_ok_snoc_ineligible split: option.splits)
    from Cons.IH [OF this, of t] False b show ?thesis
      by (simp add: Let_def case_prod_unfold)
  next
    case True
    let ?w = "sr_currentWeight r + sr_allocationPercentage r"
    let ?b = "case best of None \<Rightarrow> Some (length ds, ?w)
       | Some (j, bw) \<Rightarrow> if bw < ?w then Some (length ds, ?w) else best"
    have w: "sr_currentWeight (bump r) = ?w" and e: "sr_isEligible (bump r)"
      using True by (simp_all add: bump_def)
    have "best_inv (ds @ [bump r]) ?b"
    proof (cases best)
      case None
      with Cons.prems have "\<forall>j<length ds. \<not> sr_isEligible (ds ! j)"
        by (simp add: best_inv_def)
      with None show ?thesis
        using best_ok_snoc_new [OF e, of ds] by (simp add: best_inv_def w)
    next
      case (Some p)
      obtain j bw where p: "p = (j, bw)" by (cases p)
      from Cons.prems Some p have ok: "best_ok ds (j, bw)" by (simp add: best_inv_def)
      show ?thesis
      proof (cases "bw < ?w")
        case True
        then have "\<forall>k<length ds. sr_isEligible (ds ! k) \<longrightarrow> sr_currentWeight (ds ! k) < ?w"
          using ok by (auto simp: best_ok_def dest: le_less_trans)
        then show ?thesis
          using best_ok_snoc_new [OF e, of ds] Some p True by (simp add: best_inv_def w)
      next
        case False
        then show ?thesis
          using best_ok_snoc_keep [OF ok, of "bump r"] Some p by (simp add: best_inv_def w)
      qed
    qed
    from Cons.IH [OF this, of "t + sr_allocationPercentage r"] True show ?thesis
      by (simp add: Let_def bump_def case_prod_unfold)
  qed
qed

section \<open>One selection\<close>

lemma sum_list_replace:
  fixes xs :: "'a::ab_group_add list"
  shows "i < length xs \<Longrightarrow> sum_list (xs[i := x]) = sum_list xs - xs ! i + x"
proof (induction xs arbitrary: i)
  case Nil
  then show ?case by simp
next
  case (Cons a xs)
  then show ?case by (cases i) (simp_all add: algebra_simps)
qed

lemma weight_sum_working: "weight_sum (working_result rs) = sum_list (map sr_currentWeight rs)"
  by (simp add: weight_sum_def working_result_def comp_def)

lemma sum_bump:
  "sum_list (map sr_currentWeight (map bump rs)) =
     sum_list (map sr_currentWeight rs) + eligible_total rs"
  by (induction rs) (simp_all add: bump_def eligible_total_def algebra_simps)

definition deduct :: "swrr_route list \<Rightarrow> nat \<Rightarrow> swrr_route list" where
  "deduct rs i = (let ws = map bump rs in
     ws[i := (ws ! i)\<lparr>sr_currentWeight := sr_currentWeight (ws ! i) - eligible_total rs\<rparr>])"

lemma length_deduct [simp]: "length (deduct rs i) = length rs"
  by (simp add: deduct_def Let_def)

lemma nth_deduct:
  "j < length rs \<Longrightarrow> deduct rs i ! j =
     (if j = i then (bump (rs ! j))\<lparr>sr_currentWeight := sr_currentWeight (bump (rs ! j)) - eligible_total rs\<rparr>
      else bump (rs ! j))"
  by (simp add: deduct_def Let_def nth_list_update)

lemma sum_deduct:
  assumes "i < length rs"
  shows "sum_list (map sr_currentWeight (deduct rs i)) = sum_list (map sr_currentWeight rs)"
proof -
  have "map sr_currentWeight (deduct rs i) =
      (map sr_currentWeight (map bump rs))[i := sr_currentWeight (map bump rs ! i) - eligible_total rs]"
    by (simp add: deduct_def Let_def map_update)
  with assms show ?thesis
    by (simp add: sum_list_replace sum_bump del: map_map)
qed

text \<open>The selected route: eligible, of maximal increased weight, the first such.\<close>

definition chosen :: "swrr_route list \<Rightarrow> nat \<Rightarrow> bool" where
  "chosen rs i \<longleftrightarrow> i < length rs \<and> sr_isEligible (rs ! i) \<and>
     (\<forall>j<length rs. sr_isEligible (rs ! j) \<longrightarrow>
        sr_currentWeight (rs ! j) + sr_allocationPercentage (rs ! j)
          \<le> sr_currentWeight (rs ! i) + sr_allocationPercentage (rs ! i)
        \<and> (j < i \<longrightarrow> sr_currentWeight (rs ! j) + sr_allocationPercentage (rs ! j)
             < sr_currentWeight (rs ! i) + sr_allocationPercentage (rs ! i)))"

lemma bump_weight:
  "sr_isEligible r \<Longrightarrow> sr_currentWeight (bump r) = sr_currentWeight r + sr_allocationPercentage r"
  by (simp add: bump_def)

lemma selectNext_none:
  assumes "\<forall>r\<in>set rs. \<not> sr_isEligible r"
  shows "selectNext rs = \<lparr>selectedRouteId = None, updatedRoutes = working_result rs\<rparr>"
proof -
  have "best_inv ([] @ map bump rs) (snd (snd (phase1 (length ([]::swrr_route list)) 0 None rs)))"
    by (rule phase1_best) (simp add: best_inv_def)
  then have b: "best_inv (map bump rs) (snd (snd (phase1 0 0 None rs)))" by simp
  have "snd (snd (phase1 0 0 None rs)) = None"
  proof (rule ccontr)
    assume "snd (snd (phase1 0 0 None rs)) \<noteq> None"
    then obtain i w where "snd (snd (phase1 0 0 None rs)) = Some (i, w)" by auto
    with b have "i < length rs \<and> sr_isEligible (rs ! i)"
      by (auto simp: best_inv_def best_ok_def)
    with assms show False by (metis nth_mem)
  qed
  moreover have "fst (phase1 0 0 None rs) = rs"
    using assms by (simp add: phase1_routes map_idI bump_def)
  ultimately show ?thesis
    by (simp add: selectNext_def case_prod_unfold)
qed

lemma selectNext_some:
  assumes "\<exists>r\<in>set rs. sr_isEligible r"
  shows "\<exists>i. chosen rs i \<and> selectNext rs =
    \<lparr>selectedRouteId = Some (sr_id (rs ! i)), updatedRoutes = working_result (deduct rs i)\<rparr>"
proof -
  have "best_inv ([] @ map bump rs) (snd (snd (phase1 (length ([]::swrr_route list)) 0 None rs)))"
    by (rule phase1_best) (simp add: best_inv_def)
  then have b: "best_inv (map bump rs) (snd (snd (phase1 0 0 None rs)))" by simp
  obtain i w where iw: "snd (snd (phase1 0 0 None rs)) = Some (i, w)"
    using b assms by (cases "snd (snd (phase1 0 0 None rs))") (auto simp: best_inv_def)
  with b have ok: "best_ok (map bump rs) (i, w)" by (simp add: best_inv_def)
  then have i: "i < length rs" by (simp add: best_ok_def)
  from ok have "chosen rs i"
    by (auto simp: best_ok_def chosen_def bump_weight)
  moreover have "selectNext rs =
    \<lparr>selectedRouteId = Some (sr_id (rs ! i)), updatedRoutes = working_result (deduct rs i)\<rparr>"
    using i iw phase1_routes [of 0 0 None rs] phase1_total [of 0 0 None rs]
    by (simp add: selectNext_def case_prod_unfold Let_def deduct_def)
  ultimately show ?thesis by blast
qed

lemma selectNext_ids: "map fst (updatedRoutes (selectNext rs)) = map sr_id rs"
proof (cases "\<exists>r\<in>set rs. sr_isEligible r")
  case True
  then obtain i where "chosen rs i" and "updatedRoutes (selectNext rs) = working_result (deduct rs i)"
    using selectNext_some by force
  moreover have "map sr_id (deduct rs i) = map sr_id rs"
    by (rule nth_equalityI) (simp_all add: nth_deduct)
  ultimately show ?thesis by (simp add: working_result_def comp_def)
next
  case False
  then show ?thesis by (simp add: selectNext_none working_result_def comp_def)
qed

lemma selectNext_weight_sum:
  "weight_sum (updatedRoutes (selectNext rs)) = sum_list (map sr_currentWeight rs)"
proof (cases "\<exists>r\<in>set rs. sr_isEligible r")
  case True
  then obtain i where "chosen rs i" and "updatedRoutes (selectNext rs) = working_result (deduct rs i)"
    using selectNext_some by force
  then show ?thesis by (simp add: weight_sum_working sum_deduct chosen_def)
next
  case False
  then show ?thesis by (simp add: selectNext_none weight_sum_working)
qed

section \<open>The selector interface\<close>

text \<open>
  What the allocation engine relies on when it asks for the next route: some eligible route
  is chosen exactly when there is one, its id is among the routes', the answer lists the
  weights of the same routes in the same order, and no weight is created or lost.
\<close>

locale route_selector =
  fixes select :: "swrr_route list \<Rightarrow> swrr_result"
  assumes selects: "(\<exists>r\<in>set rs. sr_isEligible r) \<longleftrightarrow> selectedRouteId (select rs) \<noteq> None"
    and selected_eligible: "selectedRouteId (select rs) = Some i \<Longrightarrow>
        \<exists>r\<in>set rs. sr_id r = i \<and> sr_isEligible r"
    and same_routes: "map fst (updatedRoutes (select rs)) = map sr_id rs"
    and same_weight: "weight_sum (updatedRoutes (select rs)) = sum_list (map sr_currentWeight rs)"
begin

lemma selected_known: "selectedRouteId (select rs) = Some i \<Longrightarrow> i \<in> sr_id ` set rs"
  using selected_eligible by blast

lemma all_eligible_selects:
  "rs \<noteq> [] \<Longrightarrow> \<forall>r\<in>set rs. sr_isEligible r \<Longrightarrow> \<exists>i. selectedRouteId (select rs) = Some i"
  using selects [of rs] by (cases rs) auto

end

interpretation swrr: route_selector selectNext
proof unfold_locales
  fix rs :: "swrr_route list"
  show "(\<exists>r\<in>set rs. sr_isEligible r) \<longleftrightarrow> selectedRouteId (selectNext rs) \<noteq> None"
    using selectNext_some [of rs] selectNext_none [of rs] by (cases "\<exists>r\<in>set rs. sr_isEligible r") auto
next
  fix rs :: "swrr_route list" and i
  assume i: "selectedRouteId (selectNext rs) = Some i"
  then have "\<exists>r\<in>set rs. sr_isEligible r"
    using selectNext_none [of rs] by (cases "\<exists>r\<in>set rs. sr_isEligible r") auto
  with i show "\<exists>r\<in>set rs. sr_id r = i \<and> sr_isEligible r"
    using selectNext_some [of rs] by (auto simp: chosen_def dest: nth_mem)
next
  fix rs :: "swrr_route list"
  show "map fst (updatedRoutes (selectNext rs)) = map sr_id rs" by (rule selectNext_ids)
  show "weight_sum (updatedRoutes (selectNext rs)) = sum_list (map sr_currentWeight rs)"
    by (rule selectNext_weight_sum)
qed

section \<open>Repeated selection\<close>

text \<open>
  The preview loop of \<open>simulate\<close> (mlm-allocation-engine.service.ts): each round selects,
  then writes the returned weights back into the routes by id.
\<close>

definition apply_updates :: "(ident \<times> rat) list \<Rightarrow> swrr_route list \<Rightarrow> swrr_route list" where
  "apply_updates ups rs = map (\<lambda>r.
     case map_of ups (sr_id r) of Some w \<Rightarrow> r\<lparr>sr_currentWeight := w\<rparr> | None \<Rightarrow> r) rs"

fun preview :: "nat \<Rightarrow> swrr_route list \<Rightarrow> ident option list \<times> swrr_route list" where
  "preview 0 rs = ([], rs)"
| "preview (Suc n) rs =
     (let res = selectNext rs in
      case selectedRouteId res of
        Some i \<Rightarrow>
          (let (sequence, rs') = preview n (apply_updates (updatedRoutes res) rs)
           in (Some i # sequence, rs'))
      | None \<Rightarrow> (let (sequence, rs') = preview n rs in (None # sequence, rs')))"

lemma apply_updates_working:
  assumes "distinct (map sr_id rs)" and "length ws = length rs"
    and "\<And>j. j < length rs \<Longrightarrow> sr_id (ws ! j) = sr_id (rs ! j)
        \<and> ws ! j = (rs ! j)\<lparr>sr_currentWeight := sr_currentWeight (ws ! j)\<rparr>"
  shows "apply_updates (working_result ws) rs = ws"
proof (rule nth_equalityI)
  show "length (apply_updates (working_result ws) rs) = length ws"
    by (simp add: apply_updates_def assms(2))
next
  fix j assume j: "j < length (apply_updates (working_result ws) rs)"
  then have j: "j < length rs" by (simp add: apply_updates_def)
  have ids: "map sr_id ws = map sr_id rs"
    using assms(2,3) by (intro nth_equalityI) auto
  have "(sr_id (rs ! j), sr_currentWeight (ws ! j)) \<in> set (working_result ws)"
    using j assms(2,3) by (auto simp: working_result_def intro!: image_eqI [of _ _ "ws ! j"])
  moreover have "distinct (map fst (working_result ws))"
    using assms(1) ids by (simp add: working_result_def comp_def)
  ultimately have "map_of (working_result ws) (sr_id (rs ! j)) = Some (sr_currentWeight (ws ! j))"
    by (rule map_of_is_SomeI [rotated])
  with j assms(3) [OF j] show "apply_updates (working_result ws) rs ! j = ws ! j"
    by (simp add: apply_updates_def)
qed

lemma apply_updates_deduct:
  assumes "distinct (map sr_id rs)"
  shows "apply_updates (working_result (deduct rs i)) rs = deduct rs i"
  using assms by (rule apply_updates_working) (auto simp: nth_deduct bump_def)

text \<open>All routes eligible, distinct ids, percentages not negative and with a positive sum.\<close>

definition fair_routes :: "swrr_route list \<Rightarrow> bool" where
  "fair_routes rs \<longleftrightarrow> distinct (map sr_id rs) \<and> (\<forall>r\<in>set rs. sr_isEligible r)
     \<and> (\<forall>r\<in>set rs. 0 \<le> sr_allocationPercentage r) \<and> 0 < sum_list (map sr_allocationPercentage rs)"

lemma fair_total: "fair_routes rs \<Longrightarrow> eligible_total rs = sum_list (map sr_allocationPercentage rs)"
  by (simp add: fair_routes_def eligible_total_def filter_id_conv)

lemma map_deduct:
  "map sr_id (deduct rs i) = map sr_id rs"
  "map sr_allocationPercentage (deduct rs i) = map sr_allocationPercentage rs"
  "map sr_isEligible (deduct rs i) = map sr_isEligible rs"
  by (auto intro!: nth_equalityI simp: nth_deduct bump_def split: if_splits)

lemma fair_deduct: "fair_routes rs \<Longrightarrow> fair_routes (deduct rs i)"
proof -
  have "(\<forall>r\<in>set (deduct rs i). P (f r)) \<longleftrightarrow> (\<forall>r\<in>set rs. P (f r))"
    if "map f (deduct rs i) = map f rs" for P :: "'x \<Rightarrow> bool" and f
    using arg_cong [OF that, of "\<lambda>xs. \<forall>x\<in>set xs. P x"] by simp
  from this [OF map_deduct(2), of "\<lambda>x. 0 \<le> x"] this [OF map_deduct(3), of "\<lambda>x. x"]
  show "fair_routes rs \<Longrightarrow> fair_routes (deduct rs i)"
    by (simp add: fair_routes_def map_deduct)
qed

lemma preview_step:
  assumes "fair_routes rs"
  shows "\<exists>i. chosen rs i \<and> preview (Suc n) rs =
    (Some (sr_id (rs ! i)) # fst (preview n (deduct rs i)), snd (preview n (deduct rs i)))"
proof -
  from assms have "rs \<noteq> []" by (auto simp: fair_routes_def)
  with assms have "\<exists>r\<in>set rs. sr_isEligible r" by (cases rs) (auto simp: fair_routes_def)
  then obtain i where i: "chosen rs i" "selectNext rs =
      \<lparr>selectedRouteId = Some (sr_id (rs ! i)), updatedRoutes = working_result (deduct rs i)\<rparr>"
    using selectNext_some by blast
  moreover have "apply_updates (working_result (deduct rs i)) rs = deduct rs i"
    using assms by (intro apply_updates_deduct) (simp add: fair_routes_def)
  ultimately show ?thesis by (intro exI [of _ i]) (simp add: case_prod_unfold Let_def)
qed

abbreviation total_weight :: "swrr_route list \<Rightarrow> rat" where
  "total_weight rs \<equiv> sum_list (map sr_allocationPercentage rs)"

abbreviation times_chosen :: "ident option list \<Rightarrow> swrr_route \<Rightarrow> nat" where
  "times_chosen sq r \<equiv> count_list sq (Some (sr_id r))"

text \<open>After \<open>n\<close> rounds a route holds its credits less what its selections cost.\<close>

lemma preview_weights:
  assumes "fair_routes rs" and "preview n rs = (sq, fin)" and "j < length rs"
  shows "length fin = length rs \<and>
    sr_currentWeight (fin ! j) = sr_currentWeight (rs ! j)
      + of_nat n * sr_allocationPercentage (rs ! j)
      - total_weight rs * of_nat (times_chosen sq (rs ! j))"
  using assms
proof (induction n arbitrary: rs sq)
  case 0
  then show ?case by simp
next
  case (Suc n)
  from preview_step [OF Suc.prems(1), of n] obtain i where i: "chosen rs i"
    "preview (Suc n) rs =
      (Some (sr_id (rs ! i)) # fst (preview n (deduct rs i)), snd (preview n (deduct rs i)))"
    by blast
  obtain sq' where sq': "preview n (deduct rs i) = (sq', fin)"
    and sq: "sq = Some (sr_id (rs ! i)) # sq'"
    using i(2) Suc.prems(2) by (cases "preview n (deduct rs i)") auto
  note fair = Suc.prems(1) and j = Suc.prems(3)
  have same: "sr_id (deduct rs i ! j) = sr_id (rs ! j)"
    "sr_allocationPercentage (deduct rs i ! j) = sr_allocationPercentage (rs ! j)"
    using j by (simp_all add: nth_deduct bump_def)
  have w: "sr_currentWeight (deduct rs i ! j) = sr_currentWeight (rs ! j)
      + sr_allocationPercentage (rs ! j) - (if j = i then total_weight rs else 0)"
    using j fair by (simp add: nth_deduct bump_def fair_total fair_routes_def)
  have id_eq: "sr_id (rs ! i) = sr_id (rs ! j) \<longleftrightarrow> j = i"
    using fair i(1) j nth_eq_iff_index_eq [of "map sr_id rs" i j]
    by (auto simp: fair_routes_def chosen_def)
  from Suc.IH [OF fair_deduct [OF fair] sq'] j
  have IH: "length fin = length rs \<and> sr_currentWeight (fin ! j) = sr_currentWeight (deduct rs i ! j)
      + of_nat n * sr_allocationPercentage (rs ! j)
      - total_weight rs * of_nat (count_list sq' (Some (sr_id (rs ! j))))"
    by (simp add: same map_deduct)
  then show ?case
    by (cases "j = i") (use w in \<open>simp_all add: sq id_eq algebra_simps\<close>)
qed

text \<open>The chosen route's increased weight is positive when the weights sum to zero.\<close>

lemma chosen_positive:
  assumes "fair_routes rs" and "sum_list (map sr_currentWeight rs) = 0" and "chosen rs i"
  shows "0 < sr_currentWeight (rs ! i) + sr_allocationPercentage (rs ! i)"
proof (rule ccontr)
  let ?f = "\<lambda>r. sr_currentWeight r + sr_allocationPercentage r"
  assume "\<not> 0 < ?f (rs ! i)"
  with assms(1,3) have "\<forall>j<length rs. ?f (rs ! j) \<le> 0"
    by (force simp: chosen_def fair_routes_def)
  then have "\<forall>x\<in>set (map ?f rs). x \<le> 0" by (auto simp: in_set_conv_nth)
  then have "sum_list (map ?f rs) \<le> 0" by (induction rs) (auto intro: add_nonpos_nonpos)
  moreover have "sum_list (map ?f rs) = 0 + total_weight rs"
    using assms(2) by (simp add: sum_list_addf)
  ultimately show False using assms(1) by (simp add: fair_routes_def)
qed

lemma preview_balanced:
  assumes "fair_routes rs" and "sum_list (map sr_currentWeight rs) = 0"
    and "\<forall>r\<in>set rs. - total_weight rs < sr_currentWeight r" and "preview n rs = (sq, fin)"
  shows "sum_list (map sr_currentWeight fin) = 0
    \<and> (\<forall>r\<in>set fin. - total_weight rs < sr_currentWeight r)"
  using assms
proof (induction n arbitrary: rs sq)
  case 0
  then show ?case by simp
next
  case (Suc n)
  note fair = Suc.prems(1)
  from preview_step [OF fair, of n] obtain i where i: "chosen rs i"
    "preview (Suc n) rs =
      (Some (sr_id (rs ! i)) # fst (preview n (deduct rs i)), snd (preview n (deduct rs i)))"
    by blast
  obtain sq' where sq': "preview n (deduct rs i) = (sq', fin)"
    using i(2) Suc.prems(4) by (cases "preview n (deduct rs i)") auto
  have pos: "0 < sr_currentWeight (rs ! i) + sr_allocationPercentage (rs ! i)"
    using fair Suc.prems(2) i(1) by (rule chosen_positive)
  have "- total_weight rs < sr_currentWeight (deduct rs i ! j)" if j: "j < length rs" for j
  proof (cases "j = i")
    case True
    with pos j fair show ?thesis by (simp add: nth_deduct bump_def fair_total fair_routes_def)
  next
    case False
    from j Suc.prems(3) have "- total_weight rs < sr_currentWeight (rs ! j)" by simp
    moreover from j fair have "0 \<le> sr_allocationPercentage (rs ! j)" by (simp add: fair_routes_def)
    ultimately have "- total_weight rs < sr_currentWeight (rs ! j) + sr_allocationPercentage (rs ! j)"
      by linarith
    with False j fair show ?thesis by (simp add: nth_deduct bump_def fair_routes_def)
  qed
  then have low: "\<forall>r\<in>set (deduct rs i). - total_weight (deduct rs i) < sr_currentWeight r"
    by (auto simp: in_set_conv_nth map_deduct)
  have "sum_list (map sr_currentWeight (deduct rs i)) = 0"
    using i(1) Suc.prems(2) by (simp add: sum_deduct chosen_def)
  from Suc.IH [OF fair_deduct [OF fair] this low sq'] show ?case
    by (simp add: map_deduct)
qed

lemma sum_others:
  fixes xs :: "rat list"
  assumes "\<forall>x\<in>set xs. - W < x" and "0 < W" and "j < length xs"
  shows "xs ! j \<le> sum_list xs + of_nat (length xs - 1) * W"
  using assms(1,3)
proof (induction xs arbitrary: j)
  case Nil
  then show ?case by simp
next
  case (Cons x xs)
  have all: "0 \<le> sum_list xs + of_nat (length xs) * W" if "\<forall>x\<in>set xs. - W < x" for xs
    using that by (induction xs) (auto simp: algebra_simps)
  show ?case
  proof (cases j)
    case 0
    with all [of xs] Cons.prems(1) show ?thesis by simp
  next
    case (Suc j')
    with Cons.prems have "xs ! j' \<le> sum_list xs + of_nat (length xs - 1) * W"
      by (intro Cons.IH) auto
    moreover from Cons.prems Suc have "length xs = Suc (length xs - 1)" by simp
    then have "of_nat (length xs) * W = of_nat (length xs - 1) * W + W"
      by (metis of_nat_Suc distrib_right mult_1 add.commute)
    moreover from Cons.prems(1) have "- W < x" by simp
    ultimately have "xs ! j' \<le> x + sum_list xs + of_nat (length xs) * W" by linarith
    with Suc show ?thesis by simp
  qed
qed

lemma preview_exact_proportion:
  assumes "fair_routes rs" and "\<forall>r\<in>set rs. sr_currentWeight r = 0"
    and "\<forall>j<length rs. of_nat n * sr_allocationPercentage (rs ! j) = of_nat (m j) * total_weight rs"
  shows "\<forall>j<length rs. times_chosen (fst (preview n rs)) (rs ! j) = m j"
proof -
  obtain sq fin where p: "preview n rs = (sq, fin)" by (cases "preview n rs")
  have W: "0 < total_weight rs" using assms(1) by (simp add: fair_routes_def)
  have zero: "sum_list (map sr_currentWeight rs) = 0"
    using assms(2) by (induction rs) auto
  have low: "\<forall>r\<in>set rs. - total_weight rs < sr_currentWeight r"
    using assms(2) W by simp
  note bal = preview_balanced [OF assms(1) zero low p]
  have cw: "sr_currentWeight (fin ! j) =
      total_weight rs * (of_nat (m j) - of_nat (times_chosen sq (rs ! j))) \<and> length fin = length rs"
    if "j < length rs" for j
    using preview_weights [OF assms(1) p that] assms(2,3) that
    by (simp add: algebra_simps)
  have le: "times_chosen sq (rs ! j) \<le> m j" if j: "j < length rs" for j
  proof (rule ccontr)
    assume "\<not> times_chosen sq (rs ! j) \<le> m j"
    then have "(of_nat (m j) - of_nat (times_chosen sq (rs ! j)) :: rat) \<le> - 1"
      by (simp add: not_le Suc_le_eq [symmetric] of_nat_Suc [symmetric] del: of_nat_Suc)
    then have "sr_currentWeight (fin ! j) \<le> total_weight rs * (- 1)"
      using W cw [OF j] by (metis mult_left_mono less_imp_le)
    moreover from cw [OF j] j have "fin ! j \<in> set fin" by simp
    with bal have "- total_weight rs < sr_currentWeight (fin ! j)" by blast
    ultimately show False by simp
  qed
  have "rs \<noteq> []" using assms(1) by (auto simp: fair_routes_def)
  with cw [of 0] have len: "length fin = length rs" by simp
  have "0 \<le> sr_currentWeight (fin ! j)" if j: "j < length rs" for j
    using cw [OF j] le [OF j] W by simp
  with len have "\<forall>x\<in>set (map sr_currentWeight fin). 0 \<le> x"
    by (auto simp: in_set_conv_nth)
  with bal have zero': "\<forall>x\<in>set (map sr_currentWeight fin). x = 0"
    by (metis sum_list_nonneg_eq_0_iff)
  have "times_chosen sq (rs ! j) = m j" if j: "j < length rs" for j
  proof -
    from j len zero' have "sr_currentWeight (fin ! j) = 0" by simp
    with cw [OF j] W show ?thesis by simp
  qed
  then show ?thesis by (simp add: p)
qed

section \<open>Properties\<close>

definition demo_routes :: "swrr_route list" where
  "demo_routes =
     [\<lparr>sr_id = ''A'', sr_allocationPercentage = 50, sr_currentWeight = 0, sr_isEligible = True\<rparr>,
      \<lparr>sr_id = ''B'', sr_allocationPercentage = 30, sr_currentWeight = 0, sr_isEligible = True\<rparr>,
      \<lparr>sr_id = ''C'', sr_allocationPercentage = 20, sr_currentWeight = 0, sr_isEligible = True\<rparr>]"

lemma demo_routes_fair: "fair_routes demo_routes"
  by (simp add: demo_routes_def fair_routes_def)

text \<open>
  Bounded deviation: starting from zero weights with all routes eligible, after any
  number \<open>n\<close> of selections a route with percentage \<open>a\<close> out of the total \<open>W\<close> has been chosen
  fewer than \<open>n * a / W + 1\<close> times and at least \<open>n * a / W - (k - 1)\<close> times, \<open>k\<close> being the
  number of routes (both sides multiplied by \<open>W\<close>).
\<close>

theorem swrr_bounded_deviation:
  assumes "fair_routes rs" and "\<forall>r\<in>set rs. sr_currentWeight r = 0"
    and "j < length rs"
  shows "of_nat (times_chosen (fst (preview n rs)) (rs ! j)) * total_weight rs
      < of_nat n * sr_allocationPercentage (rs ! j) + total_weight rs
    \<and> of_nat n * sr_allocationPercentage (rs ! j) - of_nat (length rs - 1) * total_weight rs
      \<le> of_nat (times_chosen (fst (preview n rs)) (rs ! j)) * total_weight rs"
proof -
  obtain sq fin where p: "preview n rs = (sq, fin)" by (cases "preview n rs")
  have W: "0 < total_weight rs" using assms(1) by (simp add: fair_routes_def)
  have zero: "sum_list (map sr_currentWeight rs) = 0"
    using assms(2) by (induction rs) auto
  have low: "\<forall>r\<in>set rs. - total_weight rs < sr_currentWeight r"
    using assms(2) W by simp
  from preview_balanced [OF assms(1) zero low p]
  have sum0: "sum_list (map sr_currentWeight fin) = 0"
    and gt: "\<forall>r\<in>set fin. - total_weight rs < sr_currentWeight r" by auto
  from preview_weights [OF assms(1) p assms(3)] assms(2,3)
  have len: "length fin = length rs" and cw: "sr_currentWeight (fin ! j) =
      of_nat n * sr_allocationPercentage (rs ! j)
      - total_weight rs * of_nat (times_chosen sq (rs ! j))"
    by auto
  have "- total_weight rs < sr_currentWeight (fin ! j)"
    using gt len assms(3) by simp
  moreover have "sr_currentWeight (fin ! j) \<le> of_nat (length rs - 1) * total_weight rs"
    using sum_others [of "map sr_currentWeight fin" "total_weight rs" j] gt W sum0 len assms(3)
    by simp
  ultimately show ?thesis by (simp add: p cw algebra_simps)
qed

theorem swrr_bounded_deviation_witness:
  "of_nat (times_chosen (fst (preview 7 demo_routes)) (demo_routes ! 0)) * (100::rat) < 7 * 50 + 100"
  using swrr_bounded_deviation [OF demo_routes_fair, of 0 7]
  by (simp add: demo_routes_def)

text \<open>
  C13. Exact proportion: whenever \<open>n * a / W\<close> is a whole number for every route, the route
  with percentage \<open>a\<close> is chosen exactly that many times in the first \<open>n\<close> selections. With
  whole percentages that sum to 100, every 100 applications are split exactly as configured.
\<close>

theorem swrr_exact_proportion:
  assumes "fair_routes rs" and "\<forall>r\<in>set rs. sr_currentWeight r = 0"
    and "\<forall>j<length rs. of_nat n * sr_allocationPercentage (rs ! j) = of_nat (m j) * total_weight rs"
  shows "\<forall>j<length rs. times_chosen (fst (preview n rs)) (rs ! j) = m j"
  using assms by (rule preview_exact_proportion)

theorem swrr_exact_proportion_witness:
  "times_chosen (fst (preview 10 demo_routes)) (demo_routes ! 1) = 3"
proof -
  have z: "\<forall>r\<in>set demo_routes. sr_currentWeight r = 0" by (simp add: demo_routes_def)
  have m: "\<forall>j<length demo_routes. of_nat 10 * sr_allocationPercentage (demo_routes ! j) =
      of_nat ([5, 3, 2] ! j) * total_weight demo_routes"
    by (simp add: demo_routes_def All_less_Suc numeral_eq_Suc)
  have "1 < length demo_routes" by (simp add: demo_routes_def)
  from swrr_exact_proportion [OF demo_routes_fair z m, rule_format, OF this] show ?thesis
    by simp
qed

end
