(* ===== verification/ProductCalc.thy ===== *)
theory ProductCalc
  imports Prelude "HOL-Library.Multiset"
begin

text \<open>
  Product validation and the offer amount
  (modules/products/product-calculation.service.ts): the checks on offer multipliers and
  amounts, and the part of \<open>simulate\<close> that fixes the principal, which is computed in
  \<open>Prisma.Decimal\<close>. Sums, products and comparisons of the Decimal(12,2) and Decimal(8,4)
  values are exact in decimal.js; a quotient is rounded to 20 significant digits, which is
  the parameter \<open>rnd\<close>. The charges, EMI and APR that follow are computed in binary floating
  point and are not modelled.
\<close>

section \<open>Data\<close>

datatype rounding_method = R_NONE | R_FLOOR | R_NEAREST | R_CEIL

record multiplier_config =
  mc_minimumCompletedLoans :: int
  mc_multiplier :: rat

record amount_config =
  ac_minimumAmount :: rat
  ac_firstLoanBaseAmount :: rat
  ac_maximumAmountCap :: rat
  ac_roundingMethod :: rounding_method
  ac_roundingUnit :: "rat option"

section \<open>Validation\<close>

text \<open>The loop over the sorted multipliers: thresholds seen so far, then the multiplier.\<close>

fun check_multipliers :: "int list \<Rightarrow> multiplier_config list \<Rightarrow> http_error option" where
  "check_multipliers thresholds [] = None"
| "check_multipliers thresholds (m # ms) =
     (if mc_minimumCompletedLoans m \<in> set thresholds
      then Some (BadRequest ''INVALID_MULTIPLIERS'')
      else if mc_multiplier m \<le> 0 then Some (BadRequest ''INVALID_MULTIPLIERS'')
      else check_multipliers (mc_minimumCompletedLoans m # thresholds) ms)"

definition validateMultipliers :: "multiplier_config list \<Rightarrow> http_error option" where
  "validateMultipliers multipliers =
     (case sort_key mc_minimumCompletedLoans multipliers of
        [] \<Rightarrow> Some (BadRequest ''INVALID_MULTIPLIERS'')
      | m # ms \<Rightarrow>
          if mc_minimumCompletedLoans m \<noteq> 0 then Some (BadRequest ''INVALID_MULTIPLIERS'')
          else if mc_multiplier m \<noteq> 1 then Some (BadRequest ''INVALID_MULTIPLIERS'')
          else check_multipliers [] (m # ms))"

definition validateAmounts :: "amount_config \<Rightarrow> http_error option" where
  "validateAmounts config =
     (if ac_minimumAmount config \<le> 0 then Some (BadRequest ''INVALID_AMOUNT'')
      else if ac_firstLoanBaseAmount config < ac_minimumAmount config
      then Some (BadRequest ''INVALID_AMOUNT'')
      else if ac_maximumAmountCap config < ac_firstLoanBaseAmount config
      then Some (BadRequest ''INVALID_AMOUNT'')
      else if ac_roundingMethod config \<noteq> R_NONE then
        (case ac_roundingUnit config of
           None \<Rightarrow> Some (BadRequest ''INVALID_AMOUNT'')
         | Some unit \<Rightarrow> if unit \<le> 0 then Some (BadRequest ''INVALID_AMOUNT'') else None)
      else None)"

section \<open>The principal of an offer\<close>

text \<open>\<open>toDecimalPlaces(0, ROUND_HALF_UP)\<close> on the non-negative quotients that occur here.\<close>

definition round_half_up :: "rat \<Rightarrow> int" where
  "round_half_up x = \<lfloor>x + 1/2\<rfloor>"

definition round_by :: "rounding_method \<Rightarrow> rat \<Rightarrow> int" where
  "round_by m x = (case m of R_NEAREST \<Rightarrow> round_half_up x | R_CEIL \<Rightarrow> \<lceil>x\<rceil> | _ \<Rightarrow> \<lfloor>x\<rfloor>)"

definition capped_amount :: "rat option \<Rightarrow> amount_config \<Rightarrow> rat \<Rightarrow> rat" where
  "capped_amount lenderApprovedAmount config multipliedAmount =
     (let c1 = (if multipliedAmount > ac_maximumAmountCap config
                then ac_maximumAmountCap config else multipliedAmount)
      in case lenderApprovedAmount of
           None \<Rightarrow> c1
         | Some lCap \<Rightarrow> if c1 > lCap then lCap else c1)"

definition rounded_amount :: "(rat \<Rightarrow> rat) \<Rightarrow> amount_config \<Rightarrow> rat \<Rightarrow> rat" where
  "rounded_amount rnd config cappedAmount =
     (case ac_roundingUnit config of
        None \<Rightarrow> cappedAmount
      | Some unit \<Rightarrow>
          if ac_roundingMethod config = R_NONE then cappedAmount
          else
            (let d = rnd (cappedAmount / unit);
                 candidateAmount = of_int (round_by (ac_roundingMethod config) d) * unit
             in if candidateAmount > cappedAmount then of_int \<lfloor>d\<rfloor> * unit else candidateAmount))"

record principal_result =
  pr_matchedMultiplier :: multiplier_config
  pr_multipliedAmount :: rat
  pr_cappedAmount :: rat
  pr_finalAmount :: rat

definition simulate_principal ::
  "(rat \<Rightarrow> rat) \<Rightarrow> int \<Rightarrow> nat \<Rightarrow> rat option \<Rightarrow> amount_config \<Rightarrow> multiplier_config list \<Rightarrow>
   nat list \<Rightarrow> http_error + principal_result" where
  "simulate_principal rnd completedLoans tenure lenderApprovedAmount config multipliers
     validTenures =
     (if tenure \<notin> set validTenures then Inl (BadRequest ''INVALID_TENURE'')
      else
        case List.find (\<lambda>m. mc_minimumCompletedLoans m \<le> completedLoans)
               (sort_key (\<lambda>m. - mc_minimumCompletedLoans m) multipliers) of
          None \<Rightarrow> Inl (BadRequest ''NO_MATCHING_MULTIPLIER'')
        | Some matched \<Rightarrow>
            (let multipliedAmount = ac_firstLoanBaseAmount config * mc_multiplier matched;
                 cappedAmount = capped_amount lenderApprovedAmount config multipliedAmount;
                 rounded = rounded_amount rnd config cappedAmount;
                 finalAmount = (if rounded < ac_minimumAmount config
                                then ac_minimumAmount config else rounded)
             in Inr \<lparr>pr_matchedMultiplier = matched,
                     pr_multipliedAmount = multipliedAmount,
                     pr_cappedAmount = cappedAmount,
                     pr_finalAmount = finalAmount\<rparr>))"

section \<open>Lemmas\<close>

lemma check_multipliers_None:
  "check_multipliers ts ms = None \<longleftrightarrow>
     distinct (map mc_minimumCompletedLoans ms)
     \<and> set ts \<inter> mc_minimumCompletedLoans ` set ms = {}
     \<and> (\<forall>m\<in>set ms. 0 < mc_multiplier m)"
  by (induction ts ms rule: check_multipliers.induct) auto

lemma find_sorted_desc:
  "sorted (map (\<lambda>m. - f m) ms) \<Longrightarrow> List.find (\<lambda>m. f m \<le> (n::int)) ms = Some m \<Longrightarrow>
   m \<in> set ms \<and> f m \<le> n \<and> (\<forall>m'\<in>set ms. f m' \<le> n \<longrightarrow> f m' \<le> f m)"
  by (induction ms) (auto split: if_splits)

lemma rounded_le:
  assumes "\<And>u. ac_roundingUnit config = Some u \<Longrightarrow> 0 < u \<and> of_int \<lfloor>rnd (c / u)\<rfloor> \<le> c / u"
  shows "rounded_amount rnd config c \<le> c"
proof (cases "ac_roundingUnit config")
  case None
  then show ?thesis by (simp add: rounded_amount_def)
next
  case (Some u)
  with assms [OF Some] have "of_int \<lfloor>rnd (c / u)\<rfloor> * u \<le> c"
    by (metis pos_le_divide_eq)
  with Some show ?thesis by (simp add: rounded_amount_def Let_def)
qed

lemma rounded_le_valid:
  assumes "validateAmounts config = None" and "\<And>q. of_int \<lfloor>rnd q\<rfloor> \<le> q"
  shows "rounded_amount rnd config c \<le> c"
proof (cases "ac_roundingMethod config = R_NONE")
  case True
  then show ?thesis by (simp add: rounded_amount_def split: option.split)
next
  case False
  with assms(1) have "ac_roundingUnit config = Some u \<Longrightarrow> 0 < u" for u
    by (auto simp: validateAmounts_def split: if_splits)
  then show ?thesis by (intro rounded_le conjI assms(2))
qed

lemma sort_key_head:
  assumes "sort_key f xs = y # ys"
  shows "y \<in> set xs \<and> (\<forall>x\<in>set xs. f y \<le> f x)"
proof -
  have s: "set xs = insert y (set ys)" using set_sort [of f xs] assms by simp
  have "sorted (map f (y # ys))" using sorted_sort_key [of f xs] assms by simp
  then show ?thesis by (auto simp: s)
qed

lemma validateMultipliers_None:
  "validateMultipliers ms = None \<longleftrightarrow>
     distinct (map mc_minimumCompletedLoans ms)
     \<and> (\<forall>m\<in>set ms. 0 \<le> mc_minimumCompletedLoans m \<and> 0 < mc_multiplier m)
     \<and> (\<exists>m\<in>set ms. mc_minimumCompletedLoans m = 0 \<and> mc_multiplier m = 1)"
proof (cases "sort_key mc_minimumCompletedLoans ms")
  case Nil
  then have "ms = []" by (metis length_0_conv length_sort)
  with Nil show ?thesis by (simp add: validateMultipliers_def)
next
  case (Cons y ys)
  let ?k = mc_minimumCompletedLoans
  from sort_key_head [OF Cons] have y: "y \<in> set ms" "\<forall>x\<in>set ms. ?k y \<le> ?k x" by auto
  have same: "set (y # ys) = set ms" and perm: "mset (y # ys) = mset ms"
    by (metis Cons set_sort) (metis Cons mset_sort)
  have dist: "distinct (map ?k (y # ys)) \<longleftrightarrow> distinct (map ?k ms)"
    using perm by (intro mset_eq_imp_distinct_iff) (simp only: mset_map)
  have "validateMultipliers ms = None \<longleftrightarrow> ?k y = 0 \<and> mc_multiplier y = 1
      \<and> distinct (map ?k ms) \<and> (\<forall>m\<in>set ms. 0 < mc_multiplier m)"
    using check_multipliers_None [of "[]" "y # ys"] unfolding dist same
    by (auto simp: validateMultipliers_def Cons simp del: check_multipliers.simps)
  also have "\<dots> \<longleftrightarrow> distinct (map ?k ms) \<and> (\<forall>m\<in>set ms. 0 \<le> ?k m \<and> 0 < mc_multiplier m)
      \<and> (\<exists>m\<in>set ms. ?k m = 0 \<and> mc_multiplier m = 1)"
    (is "?L \<longleftrightarrow> ?R")
  proof
    assume ?L
    with y show ?R by (auto intro!: bexI [of _ y])
  next
    assume R: ?R
    then obtain m where m: "m \<in> set ms" "?k m = 0" "mc_multiplier m = 1" by blast
    from R y m have "?k y = ?k m" by (metis order_antisym)
    with R y(1) m(1) have "y = m" by (auto simp: distinct_map dest: inj_onD)
    with R m show ?L by blast
  qed
  finally show ?thesis .
qed

text \<open>A non-negative count of completed loans always has a multiplier in a valid table.\<close>

lemma simulate_principal_match:
  assumes "validateMultipliers ms = None" and "0 \<le> n" and "tenure \<in> set tenures"
  shows "\<exists>m\<in>set ms. mc_minimumCompletedLoans m \<le> n
    \<and> (\<forall>m'\<in>set ms. mc_minimumCompletedLoans m' \<le> n \<longrightarrow>
         mc_minimumCompletedLoans m' \<le> mc_minimumCompletedLoans m)
    \<and> simulate_principal rnd n tenure lender config ms tenures =
        (let c = capped_amount lender config (ac_firstLoanBaseAmount config * mc_multiplier m)
         in Inr \<lparr>pr_matchedMultiplier = m,
                 pr_multipliedAmount = ac_firstLoanBaseAmount config * mc_multiplier m,
                 pr_cappedAmount = c,
                 pr_finalAmount = max (rounded_amount rnd config c) (ac_minimumAmount config)\<rparr>)"
proof -
  let ?k = mc_minimumCompletedLoans
  let ?s = "sort_key (\<lambda>m. - ?k m) ms"
  from assms(1) obtain m0 where "m0 \<in> set ms" "?k m0 = 0"
    by (auto simp: validateMultipliers_None)
  with assms(2) have "List.find (\<lambda>m. ?k m \<le> n) ?s \<noteq> None"
    by (auto simp: find_None_iff)
  then obtain m where m: "List.find (\<lambda>m. ?k m \<le> n) ?s = Some m" by blast
  have "sorted (map (\<lambda>m. - ?k m) ?s)" by (rule sorted_sort_key)
  from find_sorted_desc [OF this m] have "m \<in> set ms" "?k m \<le> n"
    "\<forall>m'\<in>set ms. ?k m' \<le> n \<longrightarrow> ?k m' \<le> ?k m" by auto
  with m assms(3) show ?thesis
    by (intro bexI [of _ m]) (auto simp: simulate_principal_def Let_def max_def not_less
        order_antisym split: if_splits)
qed

section \<open>Properties\<close>

text \<open>
  A multiplier table is accepted exactly when its thresholds are distinct and
  non-negative, its multipliers positive, and the threshold 0 has multiplier 1.
\<close>

theorem validate_multipliers_iff:
  "(validateMultipliers ms = None) =
     (distinct (map mc_minimumCompletedLoans ms)
      \<and> list_all (\<lambda>m. 0 \<le> mc_minimumCompletedLoans m \<and> 0 < mc_multiplier m) ms
      \<and> list_ex (\<lambda>m. mc_minimumCompletedLoans m = 0 \<and> mc_multiplier m = 1) ms)"
  by (auto simp: validateMultipliers_None list_all_iff list_ex_iff)

definition demo_multipliers :: "multiplier_config list" where
  "demo_multipliers =
     [\<lparr>mc_minimumCompletedLoans = 3, mc_multiplier = 2\<rparr>,
      \<lparr>mc_minimumCompletedLoans = 0, mc_multiplier = 1\<rparr>,
      \<lparr>mc_minimumCompletedLoans = 1, mc_multiplier = 3/2\<rparr>]"

definition demo_amounts :: amount_config where
  "demo_amounts = \<lparr>ac_minimumAmount = 5000, ac_firstLoanBaseAmount = 10500,
     ac_maximumAmountCap = 50000, ac_roundingMethod = R_NEAREST, ac_roundingUnit = Some 1000\<rparr>"

text \<open>
  With validated multipliers and amounts, an allowed tenure and a non-negative loan count
  the principal of the offer is always determined: it uses the multiplier with the greatest
  threshold the customer has reached, the principal is at least the product minimum, at most the product cap, and at
  most the lender's approved amount unless that is below the minimum. The division's
  rounding may be any that does not cross an integer upwards.
\<close>

theorem offer_principal_bounds:
  assumes "validateMultipliers ms = None" and "validateAmounts config = None"
    and "0 \<le> n" and "tenure \<in> set tenures"
    and "\<And>q. of_int \<lfloor>rnd q\<rfloor> \<le> q"
  shows "\<exists>p. simulate_principal rnd n tenure lender config ms tenures = Inr p
    \<and> pr_matchedMultiplier p \<in> set ms
    \<and> mc_minimumCompletedLoans (pr_matchedMultiplier p) \<le> n
    \<and> (\<forall>m\<in>set ms. mc_minimumCompletedLoans m \<le> n \<longrightarrow>
         mc_minimumCompletedLoans m \<le> mc_minimumCompletedLoans (pr_matchedMultiplier p))
    \<and> ac_minimumAmount config \<le> pr_finalAmount p
    \<and> pr_finalAmount p \<le> ac_maximumAmountCap config
    \<and> (\<forall>l. lender = Some l \<longrightarrow> pr_finalAmount p \<le> max l (ac_minimumAmount config))"
proof -
  from simulate_principal_match [OF assms(1,3,4), of rnd lender config] obtain m where m:
    "m \<in> set ms" "mc_minimumCompletedLoans m \<le> n"
    "\<forall>m'\<in>set ms. mc_minimumCompletedLoans m' \<le> n \<longrightarrow>
       mc_minimumCompletedLoans m' \<le> mc_minimumCompletedLoans m"
    and sim: "simulate_principal rnd n tenure lender config ms tenures =
        (let c = capped_amount lender config (ac_firstLoanBaseAmount config * mc_multiplier m)
         in Inr \<lparr>pr_matchedMultiplier = m,
                 pr_multipliedAmount = ac_firstLoanBaseAmount config * mc_multiplier m,
                 pr_cappedAmount = c,
                 pr_finalAmount = max (rounded_amount rnd config c) (ac_minimumAmount config)\<rparr>)"
    by blast
  define c where "c = capped_amount lender config (ac_firstLoanBaseAmount config * mc_multiplier m)"
  have cap: "c \<le> ac_maximumAmountCap config" and lcap: "\<And>l. lender = Some l \<Longrightarrow> c \<le> l"
    by (auto simp: c_def capped_amount_def Let_def split: option.splits)
  have amounts: "ac_minimumAmount config \<le> ac_maximumAmountCap config"
    using assms(2) by (auto simp: validateAmounts_def split: if_splits)
  have r: "rounded_amount rnd config c \<le> c"
    using assms(2,5) by (rule rounded_le_valid)
  have "\<forall>l. lender = Some l \<longrightarrow>
      max (rounded_amount rnd config c) (ac_minimumAmount config) \<le> max l (ac_minimumAmount config)"
  proof (intro allI impI)
    fix l assume "lender = Some l"
    with lcap r have "rounded_amount rnd config c \<le> l" by (blast intro: order_trans)
    then show "max (rounded_amount rnd config c) (ac_minimumAmount config)
        \<le> max l (ac_minimumAmount config)" by simp
  qed
  moreover have "max (rounded_amount rnd config c) (ac_minimumAmount config) \<le> ac_maximumAmountCap config"
    using r cap amounts by simp
  ultimately show ?thesis
    unfolding sim Let_def c_def [symmetric] using m by simp
qed

theorem offer_principal_bounds_witness:
  "\<exists>p. simulate_principal (\<lambda>q. q) 1 12 (Some 12000) demo_amounts demo_multipliers [6, 12] = Inr p
     \<and> pr_finalAmount p \<le> 12000"
proof -
  have m: "validateMultipliers demo_multipliers = None"
    and a: "validateAmounts demo_amounts = None" by code_simp+
  have t: "(12::nat) \<in> set [6, 12]" and n: "(0::int) \<le> 1" by simp_all
  from offer_principal_bounds [OF m a n t, of "\<lambda>q. q" "Some 12000"]
  show ?thesis by (auto simp: demo_amounts_def)
qed

text \<open>
  The lender's limit does not bind below the product minimum: an offer for a customer
  whose lender approved less than \<open>minimumAmount\<close> has the minimum as its principal, which is
  more than the lender approved.
\<close>

theorem offer_exceeds_lender_limit:
  assumes "validateMultipliers ms = None" and "validateAmounts config = None"
    and "0 \<le> n" and "tenure \<in> set tenures"
    and "\<And>q. of_int \<lfloor>rnd q\<rfloor> \<le> q" and "l < ac_minimumAmount config"
  shows "\<exists>p. simulate_principal rnd n tenure (Some l) config ms tenures = Inr p
    \<and> pr_finalAmount p = ac_minimumAmount config \<and> l < pr_finalAmount p"
proof -
  from simulate_principal_match [OF assms(1,3,4), of rnd "Some l" config] obtain m where
    sim: "simulate_principal rnd n tenure (Some l) config ms tenures =
        (let c = capped_amount (Some l) config (ac_firstLoanBaseAmount config * mc_multiplier m)
         in Inr \<lparr>pr_matchedMultiplier = m,
                 pr_multipliedAmount = ac_firstLoanBaseAmount config * mc_multiplier m,
                 pr_cappedAmount = c,
                 pr_finalAmount = max (rounded_amount rnd config c) (ac_minimumAmount config)\<rparr>)"
    by blast
  define c where
    "c = capped_amount (Some l) config (ac_firstLoanBaseAmount config * mc_multiplier m)"
  have "c \<le> l" by (simp add: c_def capped_amount_def Let_def)
  moreover have "rounded_amount rnd config c \<le> c"
    using assms(2,5) by (rule rounded_le_valid)
  ultimately have "max (rounded_amount rnd config c) (ac_minimumAmount config) = ac_minimumAmount config"
    using assms(6) by simp
  then show ?thesis unfolding sim Let_def c_def [symmetric] using assms(6) by simp
qed

theorem offer_exceeds_lender_limit_witness:
  "\<exists>p. simulate_principal (\<lambda>q. q) 0 6 (Some 3000) demo_amounts demo_multipliers [6, 12] = Inr p
     \<and> pr_finalAmount p = 5000"
proof -
  have m: "validateMultipliers demo_multipliers = None"
    and a: "validateAmounts demo_amounts = None" by code_simp+
  have t: "(6::nat) \<in> set [6, 12]" and n: "(0::int) \<le> 0" by simp_all
  from offer_exceeds_lender_limit [OF m a n t, of "\<lambda>q. q" 3000]
  show ?thesis by (auto simp: demo_amounts_def)
qed

end
