(* ===== verification/Products.thy ===== *)
theory Products
  imports Lenders ProductCalc
begin

text \<open>
  Lender products and their versions (modules/products/products.service.ts): a product is
  created for an approved lender with a first draft version; versions are edited, submitted,
  approved or rejected by a second user, activated, and cloned into the next draft.

  As for lenders, an operation is a check on what it read followed by a write, and requests
  interleave between the two. Unlike the lender handlers, the writes here are guarded by the
  status alone (\<open>submit\<close>, \<open>approve\<close>, \<open>reject\<close>, \<open>activate\<close>) or by the version alone
  (\<open>updateProductStrategy\<close>). The transaction of an activation takes no lock before it writes:
  it reads the active versions of the product, and only later retires the versions it read, by
  their ids, so that read is a step of its own.
\<close>

section \<open>Data\<close>

datatype version_status = V_DRAFT | V_SUBMITTED | V_APPROVED | V_REJECTED | V_ACTIVE | V_SUPERSEDED

text \<open>The columns of a version that the operations copy without looking at them.\<close>

record pricing =
  pg_repeatTierScope :: string
  pg_interestMethod :: string
  pg_annualRoiPercent :: rat
  pg_processingFeePercent :: rat
  pg_processingFeeGstPercent :: rat
  pg_assessmentFeeAmount :: rat
  pg_assessmentFeeGstPercent :: rat
  pg_penalChargeAmount :: rat
  pg_bounceChargeAmount :: rat
  pg_emiDueDay :: int
  pg_includeAssessmentFeeInApr :: bool
  pg_tenureType :: string
  pg_effectiveFrom :: "time option"

text \<open>A strategy: amounts, pricing, and the child rows in the order of their \<open>sortOrder\<close>.\<close>

record strategy =
  st_amounts :: amount_config
  st_pricing :: pricing
  st_multipliers :: "multiplier_config list"
  st_tenures :: "nat list"

record product_version =
  pv_id :: ident
  pv_productId :: ident
  pv_versionNumber :: int
  pv_status :: version_status
  pv_strategy :: strategy
  pv_version :: int
  pv_createdById :: ident
  pv_updatedById :: ident
  pv_submittedById :: "ident option"
  pv_submittedAt :: "time option"
  pv_approvedById :: "ident option"
  pv_approvedAt :: "time option"
  pv_rejectedById :: "ident option"
  pv_rejectedAt :: "time option"
  pv_rejectionReason :: "string option"
  pv_activatedById :: "ident option"
  pv_activatedAt :: "time option"

record lender_product =
  lp_id :: ident
  lp_lenderId :: ident
  lp_platformProductId :: ident
  lp_name :: string
  lp_code :: string
  lp_description :: "string option"
  lp_operationalStatus :: operational
  lp_createdById :: ident
  lp_updatedById :: ident

record platform_product =
  pp_id :: ident
  pp_name :: string
  pp_code :: string
  pp_description :: "string option"
  pp_active :: bool

record create_product_input =
  cp_lenderId :: ident
  cp_platformProductId :: ident
  cp_name :: "string option"
  cp_code :: "string option"
  cp_description :: "string option"
  cp_strategy :: strategy

text \<open>\<open>description\<close> may be absent, or given as null.\<close>

record identity_input =
  ii_name :: "string option"
  ii_description :: "string option option"

record strategy_input =
  si_expectedVersion :: int
  si_strategy :: strategy

text \<open>The values an audit entry of this service carries, by their shape.\<close>

datatype product_audit_value =
    PA_null
  | PA_codeName string string
  | PA_nameDescription string "string option"
  | PA_identity identity_input
  | PA_operational operational
  | PA_versionId ident
  | PA_strategy strategy_input
  | PA_reason string
  | PA_sourceVersionId ident
  | PA_newVersionId ident

record product_audit =
  pa_action :: string
  pa_actorUserId :: ident
  pa_productId :: ident
  pa_previousValue :: product_audit_value
  pa_newValue :: product_audit_value

text \<open>The tables; lenders and platform products are only read.\<close>

record product_db =
  pd_lenders :: "lender list"
  pd_platform :: "platform_product list"
  pd_products :: "lender_product list"
  pd_versions :: "product_version list"
  pd_audits :: "product_audit list"

definition auditLog ::
  "string \<Rightarrow> ident \<Rightarrow> product_audit_value \<Rightarrow> product_audit_value \<Rightarrow> ident \<Rightarrow> product_db \<Rightarrow>
   product_db" where
  "auditLog action productId prev new actor db =
     db\<lparr>pd_audits := pd_audits db @
       [\<lparr>pa_action = action, pa_actorUserId = actor, pa_productId = productId,
         pa_previousValue = prev, pa_newValue = new\<rparr>]\<rparr>"

section \<open>Creating a product\<close>

definition new_version ::
  "ident \<Rightarrow> ident \<Rightarrow> int \<Rightarrow> strategy \<Rightarrow> ident \<Rightarrow> product_version" where
  "new_version vid productId n strat actor =
     \<lparr>pv_id = vid, pv_productId = productId, pv_versionNumber = n, pv_status = V_DRAFT,
      pv_strategy = strat, pv_version = 1, pv_createdById = actor, pv_updatedById = actor,
      pv_submittedById = None, pv_submittedAt = None, pv_approvedById = None,
      pv_approvedAt = None, pv_rejectedById = None, pv_rejectedAt = None,
      pv_rejectionReason = None, pv_activatedById = None, pv_activatedAt = None\<rparr>"

definition validate_strategy :: "strategy \<Rightarrow> http_error option" where
  "validate_strategy s =
     (case validateAmounts (st_amounts s) of
        Some e \<Rightarrow> Some e
      | None \<Rightarrow> validateMultipliers (st_multipliers s))"

text \<open>
  \<open>createProduct\<close> with the generated ids \<open>pid\<close> and \<open>vid\<close>. The unique columns (ids, lender and
  code, tenures of a version) make the transaction fail with P2002, which is not translated.
\<close>

definition createProduct ::
  "ident \<Rightarrow> ident \<Rightarrow> create_product_input \<Rightarrow> ident \<Rightarrow> product_db \<Rightarrow>
   (http_error + lender_product) \<times> product_db" where
  "createProduct pid vid input actor db =
     (case find_unique ln_id (cp_lenderId input) (pd_lenders db) of
        None \<Rightarrow> (Inl (NotFound ''NOT_FOUND''), db)
      | Some lender \<Rightarrow>
          if ln_approvalStatus lender \<noteq> LApproved
          then (Inl (BadRequest ''INVALID_STATE''), db)
          else
            (case find_unique pp_id (cp_platformProductId input) (pd_platform db) of
               None \<Rightarrow> (Inl (NotFound ''NOT_FOUND''), db)
             | Some platformProduct \<Rightarrow>
                 if \<not> pp_active platformProduct
                 then (Inl (BadRequest ''INVALID_STATE''), db)
                 else
                   let finalCode = set_if (cp_code input) (pp_code platformProduct);
                       finalName = set_if (cp_name input) (pp_name platformProduct);
                       finalDescription = (case cp_description input of
                         Some d \<Rightarrow> Some d | None \<Rightarrow> pp_description platformProduct);
                       product =
                         \<lparr>lp_id = pid, lp_lenderId = cp_lenderId input,
                          lp_platformProductId = cp_platformProductId input,
                          lp_name = finalName, lp_code = finalCode,
                          lp_description = finalDescription,
                          lp_operationalStatus = INACTIVE,
                          lp_createdById = actor, lp_updatedById = actor\<rparr>
                   in if list_ex (\<lambda>p. lp_lenderId p = cp_lenderId input \<and> lp_code p = finalCode)
                           (pd_products db)
                      then (Inl (Conflict ''CONFLICT''), db)
                      else
                        (case validate_strategy (cp_strategy input) of
                           Some e \<Rightarrow> (Inl e, db)
                         | None \<Rightarrow>
                             if pid \<in> lp_id ` set (pd_products db)
                               \<or> vid \<in> pv_id ` set (pd_versions db)
                               \<or> \<not> distinct (st_tenures (cp_strategy input))
                             then (Inl (DbError ''P2002''), db)
                             else
                               (Inr product,
                                auditLog ''PRODUCT_CREATED'' pid PA_null
                                  (PA_codeName finalCode finalName) actor
                                  (db\<lparr>pd_products := pd_products db @ [product],
                                      pd_versions := pd_versions db @
                                        [new_version vid pid 1 (cp_strategy input) actor]\<rparr>)))))"

section \<open>The product row\<close>

definition updateProductIdentity ::
  "ident \<Rightarrow> identity_input \<Rightarrow> ident \<Rightarrow> product_db \<Rightarrow> (http_error + lender_product) \<times> product_db"
where
  "updateProductIdentity productId input actor db =
     (if ii_name input = None \<and> ii_description input = None
      then (Inl (BadRequest ''INVALID_REQUEST''), db)
      else
        case find_unique lp_id productId (pd_products db) of
          None \<Rightarrow> (Inl (NotFound ''NOT_FOUND''), db)
        | Some product \<Rightarrow>
            (case update_one lp_id productId (\<lambda>p. True)
                    (\<lambda>p. p\<lparr>lp_name := set_if (ii_name input) (lp_name p),
                           lp_description := set_if (ii_description input) (lp_description p),
                           lp_updatedById := actor\<rparr>) (pd_products db) of
               Inl e \<Rightarrow> (Inl e, db)
             | Inr (updated, t) \<Rightarrow>
                 (Inr updated,
                  auditLog ''PRODUCT_UPDATED'' productId
                    (PA_nameDescription (lp_name product) (lp_description product))
                    (PA_identity input) actor (db\<lparr>pd_products := t\<rparr>))))"

definition updateProductStatus ::
  "ident \<Rightarrow> operational \<Rightarrow> ident \<Rightarrow> product_db \<Rightarrow> (http_error + lender_product) \<times> product_db"
where
  "updateProductStatus productId status actor db =
     (case find_unique lp_id productId (pd_products db) of
        None \<Rightarrow> (Inl (NotFound ''NOT_FOUND''), db)
      | Some product \<Rightarrow>
          if lp_operationalStatus product = status then (Inr product, db)
          else
            (case update_one lp_id productId (\<lambda>p. True)
                    (\<lambda>p. p\<lparr>lp_operationalStatus := status, lp_updatedById := actor\<rparr>)
                    (pd_products db) of
               Inl e \<Rightarrow> (Inl e, db)
             | Inr (updated, t) \<Rightarrow>
                 (Inr updated,
                  auditLog ''PRODUCT_STATUS_UPDATED'' productId
                    (PA_operational (lp_operationalStatus product)) (PA_operational status) actor
                    (db\<lparr>pd_products := t\<rparr>))))"

section \<open>Operations on a version\<close>

text \<open>
  The checks of an operation on the version it read (\<open>Done\<close>: return it unchanged), then its
  write on the database of that moment.
\<close>

datatype version_call =
    VStrategy strategy_input
  | VSubmit
  | VApprove
  | VReject string
  | VActivate

definition strategy_guard :: "strategy_input \<Rightarrow> product_version \<Rightarrow> check" where
  "strategy_guard input v =
     (if pv_status v \<noteq> V_DRAFT \<and> pv_status v \<noteq> V_REJECTED
      then Refuse (BadRequest ''INVALID_STATE'')
      else if pv_version v \<noteq> si_expectedVersion input then Refuse (Conflict ''CONFLICT'')
      else case validate_strategy (si_strategy input) of Some e \<Rightarrow> Refuse e | None \<Rightarrow> Go)"

definition strategy_data :: "strategy_input \<Rightarrow> ident \<Rightarrow> product_version \<Rightarrow> product_version" where
  "strategy_data input actor v =
     v\<lparr>pv_strategy := si_strategy input, pv_status := V_DRAFT,
       pv_rejectedById := None, pv_rejectedAt := None, pv_rejectionReason := None,
       pv_updatedById := actor, pv_version := pv_version v + 1\<rparr>"

definition submitVersion_guard :: "product_version \<Rightarrow> check" where
  "submitVersion_guard v =
     (if pv_status v \<noteq> V_DRAFT then Refuse (BadRequest ''INVALID_STATE'')
      else case validate_strategy (pv_strategy v) of Some e \<Rightarrow> Refuse e | None \<Rightarrow> Go)"

definition submitVersion_data :: "ident \<Rightarrow> time \<Rightarrow> product_version \<Rightarrow> product_version" where
  "submitVersion_data actor now v =
     v\<lparr>pv_status := V_SUBMITTED, pv_submittedById := Some actor, pv_submittedAt := Some now,
       pv_updatedById := actor, pv_version := pv_version v + 1\<rparr>"

text \<open>\<open>submittedById || createdById\<close>; user ids are not empty.\<close>

definition makerId :: "product_version \<Rightarrow> ident" where
  "makerId v = (case pv_submittedById v of Some u \<Rightarrow> u | None \<Rightarrow> pv_createdById v)"

definition approveVersion_guard :: "ident \<Rightarrow> product_version \<Rightarrow> check" where
  "approveVersion_guard actor v =
     (if pv_status v \<noteq> V_SUBMITTED then Refuse (BadRequest ''INVALID_STATE'')
      else if makerId v = actor then Refuse (BadRequest ''SEGREGATION_OF_DUTIES'')
      else Go)"

definition approveVersion_data :: "ident \<Rightarrow> time \<Rightarrow> product_version \<Rightarrow> product_version" where
  "approveVersion_data actor now v =
     v\<lparr>pv_status := V_APPROVED, pv_approvedById := Some actor, pv_approvedAt := Some now,
       pv_updatedById := actor, pv_version := pv_version v + 1\<rparr>"

definition rejectVersion_guard :: "ident \<Rightarrow> product_version \<Rightarrow> check" where
  "rejectVersion_guard actor v =
     (if pv_status v \<noteq> V_SUBMITTED then Refuse (BadRequest ''INVALID_STATE'')
      else if makerId v = actor then Refuse (BadRequest ''SEGREGATION_OF_DUTIES'')
      else Go)"

definition rejectVersion_data ::
  "string \<Rightarrow> ident \<Rightarrow> time \<Rightarrow> product_version \<Rightarrow> product_version" where
  "rejectVersion_data reason actor now v =
     v\<lparr>pv_status := V_REJECTED, pv_rejectedById := Some actor, pv_rejectedAt := Some now,
       pv_rejectionReason := Some reason, pv_updatedById := actor,
       pv_version := pv_version v + 1\<rparr>"

definition activateVersion_guard :: "product_version \<Rightarrow> check" where
  "activateVersion_guard v =
     (if pv_status v = V_ACTIVE then Done
      else if pv_status v \<noteq> V_APPROVED then Refuse (BadRequest ''INVALID_STATE'')
      else Go)"

definition activateVersion_data :: "ident \<Rightarrow> time \<Rightarrow> product_version \<Rightarrow> product_version" where
  "activateVersion_data actor now v =
     v\<lparr>pv_status := V_ACTIVE, pv_activatedById := Some actor, pv_activatedAt := Some now,
       pv_updatedById := actor, pv_version := pv_version v + 1\<rparr>"

text \<open>
  An activation reads the ids of the active versions of its product (\<open>findMany\<close>) and then
  supersedes the versions with those ids, whatever they are by then and without a new version
  count.
\<close>

definition active_ids :: "ident \<Rightarrow> product_version list \<Rightarrow> ident list" where
  "active_ids productId t =
     map pv_id (filter (\<lambda>v. pv_productId v = productId \<and> pv_status v = V_ACTIVE) t)"

definition supersede_active ::
  "ident list \<Rightarrow> ident \<Rightarrow> product_version list \<Rightarrow> product_version list" where
  "supersede_active activeIds actor t =
     update_many (\<lambda>v. pv_id v \<in> set activeIds)
       (\<lambda>v. v\<lparr>pv_status := V_SUPERSEDED, pv_updatedById := actor\<rparr>) t"

fun version_guard :: "version_call \<Rightarrow> ident \<Rightarrow> product_version \<Rightarrow> check" where
  "version_guard (VStrategy input) actor v = strategy_guard input v"
| "version_guard VSubmit actor v = submitVersion_guard v"
| "version_guard VApprove actor v = approveVersion_guard actor v"
| "version_guard (VReject reason) actor v = rejectVersion_guard actor v"
| "version_guard VActivate actor v = activateVersion_guard v"

text \<open>
  The writes. \<open>v\<close> is the version that was read, \<open>ids\<close> the active versions an activation read;
  the \<open>where\<close> of the update looks at the row as it is now. A duplicate tenure violates the unique
  index of the child table.
\<close>

fun version_write ::
  "version_call \<Rightarrow> ident \<Rightarrow> time \<Rightarrow> product_version \<Rightarrow> ident list \<Rightarrow> product_version list \<Rightarrow>
   http_error + product_version \<times> product_version list" where
  "version_write (VStrategy input) actor now v ids t =
     (if pv_id v \<in> pv_id ` set (filter (\<lambda>r. pv_version r = si_expectedVersion input) t)
          \<and> \<not> distinct (st_tenures (si_strategy input))
      then Inl (DbError ''P2002'')
      else update_one pv_id (pv_id v) (\<lambda>r. pv_version r = si_expectedVersion input)
             (strategy_data input actor) t)"
| "version_write VSubmit actor now v ids t =
     update_one pv_id (pv_id v) (\<lambda>r. pv_status r = V_DRAFT) (submitVersion_data actor now) t"
| "version_write VApprove actor now v ids t =
     update_one pv_id (pv_id v) (\<lambda>r. pv_status r = V_SUBMITTED) (approveVersion_data actor now) t"
| "version_write (VReject reason) actor now v ids t =
     update_one pv_id (pv_id v) (\<lambda>r. pv_status r = V_SUBMITTED)
       (rejectVersion_data reason actor now) t"
| "version_write VActivate actor now v ids t =
     update_one pv_id (pv_id v) (\<lambda>r. pv_status r = V_APPROVED) (activateVersion_data actor now)
       (supersede_active ids actor t)"

fun version_action :: "version_call \<Rightarrow> string" where
  "version_action (VStrategy input) = ''PRODUCT_STRATEGY_UPDATED''"
| "version_action VSubmit = ''PRODUCT_VERSION_SUBMITTED''"
| "version_action VApprove = ''PRODUCT_VERSION_APPROVED''"
| "version_action (VReject reason) = ''PRODUCT_VERSION_REJECTED''"
| "version_action VActivate = ''PRODUCT_VERSION_ACTIVATED''"

fun version_audit_new :: "version_call \<Rightarrow> product_audit_value" where
  "version_audit_new (VStrategy input) = PA_strategy input"
| "version_audit_new (VReject reason) = PA_reason reason"
| "version_audit_new _ = PA_null"

definition version_commit ::
  "version_call \<Rightarrow> ident \<Rightarrow> time \<Rightarrow> product_version \<Rightarrow> ident list \<Rightarrow> product_db \<Rightarrow>
   (http_error + product_version) \<times> product_db" where
  "version_commit c actor now v ids db =
     (case version_write c actor now v ids (pd_versions db) of
        Inl e \<Rightarrow> (Inl e, db)
      | Inr (updated, t) \<Rightarrow>
          (Inr updated,
           auditLog (version_action c) (pv_productId v) (PA_versionId (pv_id v))
             (version_audit_new c) actor (db\<lparr>pd_versions := t\<rparr>)))"

definition version_handler ::
  "version_call \<Rightarrow> ident \<Rightarrow> ident \<Rightarrow> time \<Rightarrow> product_db \<Rightarrow>
   (http_error + product_version) \<times> product_db" where
  "version_handler c versionId actor now db =
     (case find_unique pv_id versionId (pd_versions db) of
        None \<Rightarrow> (Inl (NotFound ''NOT_FOUND''), db)
      | Some v \<Rightarrow>
          (case version_guard c actor v of
             Refuse e \<Rightarrow> (Inl e, db)
           | Done \<Rightarrow> (Inr v, db)
           | Go \<Rightarrow> version_commit c actor now v (active_ids (pv_productId v) (pd_versions db)) db))"

section \<open>The next version\<close>

definition versions_desc :: "ident \<Rightarrow> product_db \<Rightarrow> product_version list" where
  "versions_desc productId db =
     sort_key (\<lambda>v. - pv_versionNumber v)
       (filter (\<lambda>v. pv_productId v = productId) (pd_versions db))"

definition next_source :: "product_version list \<Rightarrow> product_version option" where
  "next_source vs =
     (case List.find (\<lambda>v. pv_status v = V_ACTIVE) vs of
        Some v \<Rightarrow> Some v
      | None \<Rightarrow>
          (case List.find (\<lambda>v. pv_status v = V_APPROVED) vs of
             Some v \<Rightarrow> Some v
           | None \<Rightarrow> (case vs of [] \<Rightarrow> None | v # _ \<Rightarrow> Some v)))"

text \<open>What \<open>createNextVersion\<close> decides from its read: the number and the strategy to clone.\<close>

definition next_check :: "ident \<Rightarrow> product_db \<Rightarrow> http_error + (int \<times> product_version)" where
  "next_check productId db =
     (case find_unique lp_id productId (pd_products db) of
        None \<Rightarrow> Inl (NotFound ''NOT_FOUND'')
      | Some product \<Rightarrow>
          let vs = versions_desc productId db
          in if list_ex (\<lambda>v. pv_status v = V_DRAFT \<or> pv_status v = V_SUBMITTED) vs
             then Inl (Conflict ''CONFLICT'')
             else case next_source vs of
                    None \<Rightarrow> Inl (BadRequest ''INVALID_STATE'')
                  | Some s \<Rightarrow> Inr (pv_versionNumber (hd vs) + 1, s))"

definition next_write ::
  "ident \<Rightarrow> ident \<Rightarrow> int \<Rightarrow> product_version \<Rightarrow> ident \<Rightarrow> product_db \<Rightarrow>
   (http_error + product_version) \<times> product_db" where
  "next_write vid productId n source actor db =
     (if vid \<in> pv_id ` set (pd_versions db)
         \<or> list_ex (\<lambda>v. pv_productId v = productId \<and> pv_versionNumber v = n) (pd_versions db)
      then (Inl (DbError ''P2002''), db)
      else
        let v = new_version vid productId n (pv_strategy source) actor
        in (Inr v,
            auditLog ''PRODUCT_VERSION_CREATED'' productId (PA_sourceVersionId (pv_id source))
              (PA_newVersionId vid) actor (db\<lparr>pd_versions := pd_versions db @ [v]\<rparr>)))"

definition createNextVersion ::
  "ident \<Rightarrow> ident \<Rightarrow> ident \<Rightarrow> product_db \<Rightarrow> (http_error + product_version) \<times> product_db" where
  "createNextVersion vid productId actor db =
     (case next_check productId db of
        Inl e \<Rightarrow> (Inl e, db)
      | Inr (n, source) \<Rightarrow> next_write vid productId n source actor db)"

section \<open>What a write does to the versions\<close>

abbreviation supersede :: "ident \<Rightarrow> product_version \<Rightarrow> product_version" where
  "supersede actor v \<equiv> v\<lparr>pv_status := V_SUPERSEDED, pv_updatedById := actor\<rparr>"

fun version_where :: "version_call \<Rightarrow> product_version \<Rightarrow> bool" where
  "version_where (VStrategy input) r \<longleftrightarrow> pv_version r = si_expectedVersion input"
| "version_where VSubmit r \<longleftrightarrow> pv_status r = V_DRAFT"
| "version_where VApprove r \<longleftrightarrow> pv_status r = V_SUBMITTED"
| "version_where (VReject reason) r \<longleftrightarrow> pv_status r = V_SUBMITTED"
| "version_where VActivate r \<longleftrightarrow> pv_status r = V_APPROVED"

fun version_data :: "version_call \<Rightarrow> ident \<Rightarrow> time \<Rightarrow> product_version \<Rightarrow> product_version" where
  "version_data (VStrategy input) actor now = strategy_data input actor"
| "version_data VSubmit actor now = submitVersion_data actor now"
| "version_data VApprove actor now = approveVersion_data actor now"
| "version_data (VReject reason) actor now = rejectVersion_data reason actor now"
| "version_data VActivate actor now = activateVersion_data actor now"

lemmas version_data_defs =
  strategy_data_def submitVersion_data_def approveVersion_data_def rejectVersion_data_def
  activateVersion_data_def

lemmas version_guard_defs =
  strategy_guard_def submitVersion_guard_def approveVersion_guard_def rejectVersion_guard_def
  activateVersion_guard_def

lemma version_data_keys [simp]:
  "pv_id (version_data c actor now r) = pv_id r"
  "pv_productId (version_data c actor now r) = pv_productId r"
  "pv_versionNumber (version_data c actor now r) = pv_versionNumber r"
  "pv_version (version_data c actor now r) = pv_version r + 1"
  by (cases c; simp add: version_data_defs)+

definition before_write ::
  "version_call \<Rightarrow> ident \<Rightarrow> ident list \<Rightarrow> product_version list \<Rightarrow> product_version list" where
  "before_write c actor ids t = (if c = VActivate then supersede_active ids actor t else t)"

lemma version_write_Inr:
  assumes "version_write c actor now v ids t = Inr (v', t')"
  shows "\<exists>r. find_unique pv_id (pv_id v) (before_write c actor ids t) = Some r \<and> version_where c r
    \<and> v' = version_data c actor now r
    \<and> t' = update_many (\<lambda>r. pv_id r = pv_id v \<and> version_where c r) (version_data c actor now)
             (before_write c actor ids t)"
  using assms
  by (cases c) (auto simp: update_one_Inr before_write_def split: if_splits)

text \<open>Identity, product and number of the versions: what no write changes.\<close>

definition skel :: "product_version list \<Rightarrow> (ident \<times> ident \<times> int) list" where
  "skel t = map (\<lambda>v. (pv_id v, pv_productId v, pv_versionNumber v)) t"

lemma skel_update_many:
  "(\<And>r. (pv_id (f r), pv_productId (f r), pv_versionNumber (f r)) =
         (pv_id r, pv_productId r, pv_versionNumber r)) \<Longrightarrow> skel (update_many P f t) = skel t"
  unfolding skel_def by (rule map_key_update_many)

lemma skel_supersede_active [simp]: "skel (supersede_active ids actor t) = skel t"
  by (simp add: supersede_active_def skel_update_many)

lemma skel_before_write [simp]: "skel (before_write c actor ids t) = skel t"
  by (simp add: before_write_def)

lemma skel_version_write:
  assumes "version_write c actor now v ids t = Inr (v', t')"
  shows "skel t' = skel t"
  using version_write_Inr [OF assms] by (auto simp: skel_update_many)

lemma unique_ids_skel: "unique_keys pv_id t \<longleftrightarrow> distinct (map fst (skel t))"
  by (simp add: unique_keys_def skel_def comp_def)

lemma skel_member: "v \<in> set t \<Longrightarrow> (pv_id v, pv_productId v, pv_versionNumber v) \<in> set (skel t)"
  by (auto simp: skel_def)

interpretation product_active: exclusive_activation
  pv_id pv_productId "\<lambda>v. pv_status v = V_ACTIVE" supersede activateVersion_data
  by unfold_locales (simp_all add: activateVersion_data_def)

text \<open>
  With unique ids, superseding the ids read at once is superseding the active versions of the
  product.
\<close>

lemma supersede_active_eq:
  assumes "unique_keys pv_id t"
  shows "supersede_active (active_ids p t) actor t =
    update_many (\<lambda>v. pv_productId v = p \<and> pv_status v = V_ACTIVE) (supersede actor) t"
proof -
  have "pv_id v \<in> set (map pv_id (filter (\<lambda>v. pv_productId v = p \<and> pv_status v = V_ACTIVE) t)) \<longleftrightarrow>
      pv_productId v = p \<and> pv_status v = V_ACTIVE" if "v \<in> set t" for v
  proof
    assume "pv_id v \<in> set (map pv_id (filter (\<lambda>v. pv_productId v = p \<and> pv_status v = V_ACTIVE) t))"
    then obtain w where w: "w \<in> set t" "pv_productId w = p \<and> pv_status w = V_ACTIVE" "pv_id w = pv_id v"
      by auto
    then have "w = v" using assms that by (metis find_unique_in_set option.inject)
    with w show "pv_productId v = p \<and> pv_status v = V_ACTIVE" by simp
  qed (use that in auto)
  then show ?thesis by (simp add: supersede_active_def active_ids_def update_many_def)
qed

lemma active_ids_iff:
  "i \<in> set (active_ids p t) \<longleftrightarrow>
     (\<exists>r\<in>set t. pv_id r = i \<and> pv_productId r = p \<and> pv_status r = V_ACTIVE)"
  by (auto simp: active_ids_def)


section \<open>Row invariant\<close>

definition version_ok :: "product_version \<Rightarrow> bool" where
  "version_ok v \<longleftrightarrow>
     validate_strategy (pv_strategy v) = None
     \<and> (pv_status v \<noteq> V_DRAFT \<longrightarrow> pv_submittedById v \<noteq> None)
     \<and> (pv_status v \<in> {V_APPROVED, V_ACTIVE, V_SUPERSEDED} \<longrightarrow> pv_approvedById v \<noteq> None)
     \<and> (pv_status v = V_REJECTED \<longrightarrow> pv_rejectedById v \<noteq> None \<and> pv_rejectionReason v \<noteq> None)"

fun call_valid :: "version_call \<Rightarrow> bool" where
  "call_valid (VStrategy input) \<longleftrightarrow> validate_strategy (si_strategy input) = None"
| "call_valid _ \<longleftrightarrow> True"

lemma version_guard_valid: "version_guard c actor v = Go \<Longrightarrow> call_valid c"
  by (cases c) (auto simp: strategy_guard_def split: if_splits option.splits)

lemma version_data_ok:
  "version_ok r \<Longrightarrow> version_where c r \<Longrightarrow> call_valid c \<Longrightarrow> version_ok (version_data c actor now r)"
  by (cases c) (auto simp: version_ok_def version_data_defs)

text \<open>
  What keeps a version that an activation once read as active fit for superseding: nothing
  erases who submitted and who approved it.
\<close>

definition settled :: "product_version \<Rightarrow> bool" where
  "settled v \<longleftrightarrow> pv_submittedById v \<noteq> None \<and> pv_approvedById v \<noteq> None"

definition settled_ids :: "product_version list \<Rightarrow> ident set" where
  "settled_ids t = pv_id ` {v \<in> set t. settled v}"

lemma active_settled: "version_ok r \<Longrightarrow> pv_status r = V_ACTIVE \<Longrightarrow> settled r"
  by (simp add: version_ok_def settled_def)

lemma version_data_settled: "settled r \<Longrightarrow> settled (version_data c actor now r)"
  by (cases c) (simp_all add: settled_def version_data_defs)

lemma supersede_ok: "version_ok r \<Longrightarrow> settled r \<Longrightarrow> version_ok (supersede actor r)"
  by (simp add: version_ok_def settled_def)

lemma supersede_settled [simp]: "settled (supersede actor r) = settled r"
  by (simp add: settled_def)

lemma settled_ids_update_many:
  assumes "\<And>r. pv_id (f r) = pv_id r" and "\<And>r. settled r \<Longrightarrow> settled (f r)"
  shows "settled_ids t \<subseteq> settled_ids (update_many P f t)"
proof
  fix i assume "i \<in> settled_ids t"
  then obtain r where r: "r \<in> set t" "settled r" "i = pv_id r" by (auto simp: settled_ids_def)
  from r(1) have "(if P r then f r else r) \<in> set (update_many P f t)" by (auto simp: set_update_many)
  moreover have "settled (if P r then f r else r)" "i = pv_id (if P r then f r else r)"
    using r assms by simp_all
  ultimately show "i \<in> settled_ids (update_many P f t)" unfolding settled_ids_def by blast
qed

lemma settled_ids_append: "settled_ids t \<subseteq> settled_ids (t @ [v])"
  by (auto simp: settled_ids_def)

lemma settled_ids_before_write: "settled_ids t \<subseteq> settled_ids (before_write c actor ids t)"
  by (simp add: before_write_def supersede_active_def settled_ids_update_many)

lemma settled_ids_version_write:
  assumes "version_write c actor now v ids t = Inr (v', t')"
  shows "settled_ids t \<subseteq> settled_ids t'"
proof -
  from version_write_Inr [OF assms]
  have "t' = update_many (\<lambda>r. pv_id r = pv_id v \<and> version_where c r) (version_data c actor now)
      (before_write c actor ids t)" by blast
  with settled_ids_before_write [of t c actor ids] show ?thesis
    by (auto intro!: settled_ids_update_many [THEN subsetD] simp: version_data_settled)
qed

lemma settled_id_row:
  "unique_keys pv_id t \<Longrightarrow> r \<in> set t \<Longrightarrow> pv_id r \<in> settled_ids t \<Longrightarrow> settled r"
  by (auto simp: settled_ids_def) (metis find_unique_in_set option.inject)

lemma version_data_not_active:
  "c \<noteq> VActivate \<Longrightarrow> pv_status (version_data c actor now r) \<noteq> V_ACTIVE"
  by (cases c) (simp_all add: version_data_defs)

text \<open>The invariant of the table of versions.\<close>

definition versions_inv :: "product_version list \<Rightarrow> bool" where
  "versions_inv t \<longleftrightarrow>
     distinct (map fst (skel t)) \<and> distinct (map snd (skel t)) \<and> (\<forall>v\<in>set t. version_ok v)"

lemma versions_inv_unique: "versions_inv t \<Longrightarrow> unique_keys pv_id t"
  by (simp add: versions_inv_def unique_ids_skel)

lemma active_ids_settled: "versions_inv t \<Longrightarrow> set (active_ids p t) \<subseteq> settled_ids t"
  by (auto simp: active_ids_iff settled_ids_def versions_inv_def active_settled)

lemma before_write_inv:
  assumes "versions_inv t" and "set ids \<subseteq> settled_ids t"
  shows "versions_inv (before_write c actor ids t)"
proof -
  have "version_ok (supersede actor r)" if "r \<in> set t" "pv_id r \<in> set ids" for r
    using that assms settled_id_row [OF versions_inv_unique [OF assms(1)]]
    by (intro supersede_ok) (auto simp: versions_inv_def)
  with assms(1) show ?thesis
    using skel_before_write [of c actor ids t]
    by (auto simp: versions_inv_def before_write_def supersede_active_def set_update_many)
qed

lemma version_write_inv:
  assumes "versions_inv t" and "call_valid c" and "set ids \<subseteq> settled_ids t"
    and "version_write c actor now v ids t = Inr (v', t')"
  shows "versions_inv t'"
proof -
  from version_write_Inr [OF assms(4)]
  have t': "t' = update_many (\<lambda>r. pv_id r = pv_id v \<and> version_where c r)
      (version_data c actor now) (before_write c actor ids t)" by blast
  have "\<forall>r\<in>set t'. version_ok r"
    using before_write_inv [OF assms(1,3)] assms(2) unfolding t'
    by (auto simp: versions_inv_def set_update_many version_data_ok)
  then show ?thesis
    using assms(1) skel_version_write [OF assms(4)] by (simp add: versions_inv_def)
qed

text \<open>
  At most one active version: an activation keeps it when the ids it read cover the versions of
  its product that are active when it writes.
\<close>

lemma version_write_exclusive:
  assumes ex: "product_active.exclusive t"
    and grp: "\<forall>r\<in>set t. pv_id r = pv_id v \<longrightarrow> pv_productId r = pv_productId v"
    and ids: "c = VActivate \<Longrightarrow> set (active_ids (pv_productId v) t) \<subseteq> set ids"
    and w: "version_write c actor now v ids t = Inr (v', t')"
  shows "product_active.exclusive t'"
proof -
  let ?b = "before_write c actor ids t"
  from version_write_Inr [OF w]
  have t': "t' = update_many (\<lambda>r. pv_id r = pv_id v \<and> version_where c r)
      (version_data c actor now) ?b" by blast
  have "product_active.exclusive (update_many (\<lambda>v. pv_id v \<in> set ids) (supersede actor) t)"
    by (rule product_active.exclusive_update [OF ex]) simp_all
  with ex have b: "product_active.exclusive ?b"
    by (simp add: before_write_def supersede_active_def)
  show ?thesis
  proof (cases "c = VActivate")
    case True
    have 1: "\<forall>r\<in>set ?b. pv_id r = pv_id v \<longrightarrow> pv_productId r = pv_productId v"
      using grp by (auto simp: before_write_def supersede_active_def set_update_many)
    have 2: "\<forall>r\<in>set ?b. pv_productId r = pv_productId v \<longrightarrow> pv_status r \<noteq> V_ACTIVE"
      using ids [OF True] True
      by (auto simp: before_write_def supersede_active_def set_update_many active_ids_def)
    from product_active.exclusive_promote [OF b 1 2] True show ?thesis
      by (simp add: t')
  next
    case False
    from b show ?thesis unfolding t'
      by (intro product_active.exclusive_update) (auto simp: version_data_not_active [OF False])
  qed
qed

text \<open>The only active version a write adds is the one it activates.\<close>

lemma version_write_active_ids:
  assumes w: "version_write c actor now v ids t = Inr (v', t')"
    and grp: "\<forall>r\<in>set t. pv_id r = pv_id v \<longrightarrow> pv_productId r = pv_productId v"
    and p: "c = VActivate \<longrightarrow> p \<noteq> pv_productId v"
  shows "set (active_ids p t') \<subseteq> set (active_ids p t)"
proof
  fix i assume "i \<in> set (active_ids p t')"
  moreover from version_write_Inr [OF w]
  have "t' = update_many (\<lambda>r. pv_id r = pv_id v \<and> version_where c r)
      (version_data c actor now) (before_write c actor ids t)" by blast
  ultimately obtain r where r: "r \<in> set (before_write c actor ids t)"
    "pv_id r = i" "pv_productId r = p" "pv_status r = V_ACTIVE \<or> (c = VActivate \<and> pv_id r = pv_id v)"
    using version_data_not_active [of c actor now]
    by (auto simp: active_ids_iff set_update_many split: if_splits) metis
  then obtain s where s: "s \<in> set t" "pv_id s = i" "pv_productId s = p"
    "pv_status s = V_ACTIVE \<or> (c = VActivate \<and> pv_id s = pv_id v)"
    by (auto simp: before_write_def supersede_active_def set_update_many split: if_splits)
  with grp p show "i \<in> set (active_ids p t)" by (auto simp: active_ids_iff)
qed

section \<open>Requests, one at a time and interleaved\<close>

datatype product_request =
    RCreate ident ident create_product_input
  | RIdentity ident identity_input
  | RStatus ident operational
  | RVersion version_call ident time
  | RNext ident ident

fun serve :: "product_request \<Rightarrow> ident \<Rightarrow> product_db \<Rightarrow> product_db" where
  "serve (RCreate pid vid input) actor db = snd (createProduct pid vid input actor db)"
| "serve (RIdentity pid input) actor db = snd (updateProductIdentity pid input actor db)"
| "serve (RStatus pid status) actor db = snd (updateProductStatus pid status actor db)"
| "serve (RVersion c i now) actor db = snd (version_handler c i actor now db)"
| "serve (RNext vid pid) actor db = snd (createNextVersion vid pid actor db)"

definition serve_all :: "(ident \<times> product_request) list \<Rightarrow> product_db \<Rightarrow> product_db" where
  "serve_all rs db = fold (\<lambda>(actor, r). serve r actor) rs db"

definition no_products :: "lender list \<Rightarrow> platform_product list \<Rightarrow> product_db" where
  "no_products ls qs = \<lparr>pd_lenders = ls, pd_platform = qs, pd_products = [], pd_versions = [],
     pd_audits = []\<rparr>"

text \<open>
  Requests that read before they write are pending in between; other services may change
  the lenders and platform products at any time. A pending activation holds the ids of the
  active versions once it has read them (\<open>p_actives\<close>). With \<open>apart\<close>, the activations of one
  product do not overlap from that read on: none reads the ids while another holds the ones it
  read. Nothing in the code enforces that, so without \<open>apart\<close> any two may overlap.
\<close>

datatype product_pending =
    PVersion version_call ident product_version "ident list option"
  | PNext ident int product_version ident

fun activating :: "product_pending \<Rightarrow> ident option" where
  "activating (PVersion c actor v (Some ids)) = Some (pv_productId v)"
| "activating _ = None"

inductive products_step ::
  "bool \<Rightarrow> product_db \<times> product_pending list \<Rightarrow> product_db \<times> product_pending list \<Rightarrow> bool"
  for apart where
  p_atomic: "(\<And>c i now. r \<noteq> RVersion c i now) \<Longrightarrow> (\<And>vid pid. r \<noteq> RNext vid pid) \<Longrightarrow>
    products_step apart (db, ps) (serve r actor db, ps)"
| p_read: "find_unique pv_id i (pd_versions db) = Some v \<Longrightarrow> version_guard c actor v = Go \<Longrightarrow>
    products_step apart (db, ps) (db, PVersion c actor v None # ps)"
| p_actives: "PVersion VActivate actor v None \<in> set ps \<Longrightarrow>
    (apart \<Longrightarrow> Some (pv_productId v) \<notin> activating ` set ps) \<Longrightarrow>
    products_step apart (db, ps)
      (db, PVersion VActivate actor v (Some (active_ids (pv_productId v) (pd_versions db)))
             # remove1 (PVersion VActivate actor v None) ps)"
| p_commit: "PVersion c actor v got \<in> set ps \<Longrightarrow> (got = None \<longleftrightarrow> c \<noteq> VActivate) \<Longrightarrow>
    products_step apart (db, ps)
      (snd (version_commit c actor now v (case got of None \<Rightarrow> [] | Some ids \<Rightarrow> ids) db),
       remove1 (PVersion c actor v got) ps)"
| p_next_read: "next_check pid db = Inr (n, source) \<Longrightarrow>
    products_step apart (db, ps) (db, PNext pid n source actor # ps)"
| p_next_commit: "PNext pid n source actor \<in> set ps \<Longrightarrow>
    products_step apart (db, ps)
      (snd (next_write vid pid n source actor db), remove1 (PNext pid n source actor) ps)"
| p_abandon: "products_step apart (db, ps) (db, remove1 p ps)"
| p_others: "products_step apart (db, ps) (db\<lparr>pd_lenders := ls, pd_platform := qs\<rparr>, ps)"

inductive products_reachable :: "bool \<Rightarrow> product_db \<times> product_pending list \<Rightarrow> bool"
  for apart where
  start: "products_reachable apart (no_products ls qs, [])"
| step: "products_reachable apart s \<Longrightarrow> products_step apart s s' \<Longrightarrow> products_reachable apart s'"

fun pending_ok :: "product_db \<Rightarrow> product_pending \<Rightarrow> bool" where
  "pending_ok db (PVersion c actor v got) \<longleftrightarrow>
     call_valid c \<and> (pv_id v, pv_productId v, pv_versionNumber v) \<in> set (skel (pd_versions db))
     \<and> (case got of None \<Rightarrow> True | Some ids \<Rightarrow> set ids \<subseteq> settled_ids (pd_versions db))"
| "pending_ok db (PNext pid n source actor) \<longleftrightarrow>
     validate_strategy (pv_strategy source) = None \<and> pid \<in> lp_id ` set (pd_products db)"

definition products_inv :: "product_db \<Rightarrow> product_pending list \<Rightarrow> bool" where
  "products_inv db ps \<longleftrightarrow>
     unique_keys lp_id (pd_products db)
     \<and> unique_keys (\<lambda>p. (lp_lenderId p, lp_code p)) (pd_products db)
     \<and> versions_inv (pd_versions db)
     \<and> (\<forall>x\<in>set (skel (pd_versions db)). fst (snd x) \<in> lp_id ` set (pd_products db))
     \<and> (\<forall>p\<in>set ps. pending_ok db p)"

lemma pending_ok_mono:
  "pending_ok db p \<Longrightarrow> set (skel (pd_versions db)) \<subseteq> set (skel (pd_versions db')) \<Longrightarrow>
   lp_id ` set (pd_products db) \<subseteq> lp_id ` set (pd_products db') \<Longrightarrow>
   settled_ids (pd_versions db) \<subseteq> settled_ids (pd_versions db') \<Longrightarrow> pending_ok db' p"
  by (cases p) (auto split: option.splits)

lemma pendings_mono:
  assumes "\<forall>p\<in>set ps. pending_ok db p" and "set ps' \<subseteq> set ps"
    and "set (skel (pd_versions db)) \<subseteq> set (skel (pd_versions db'))"
    and "lp_id ` set (pd_products db) \<subseteq> lp_id ` set (pd_products db')"
    and "settled_ids (pd_versions db) \<subseteq> settled_ids (pd_versions db')"
  shows "\<forall>p\<in>set ps'. pending_ok db' p"
  using assms(1,2) pending_ok_mono [OF _ assms(3-5)] by blast

lemma pd_auditLog [simp]:
  "pd_products (auditLog a p x y u db) = pd_products db"
  "pd_versions (auditLog a p x y u db) = pd_versions db"
  "pd_lenders (auditLog a p x y u db) = pd_lenders db"
  "pd_platform (auditLog a p x y u db) = pd_platform db"
  "length (pd_audits (auditLog a p x y u db)) = Suc (length (pd_audits db))"
  by (simp_all add: auditLog_def)

lemma skel_append [simp]: "skel (t @ [v]) = skel t @ [(pv_id v, pv_productId v, pv_versionNumber v)]"
  by (simp add: skel_def)

lemma new_version_fields [simp]:
  "pv_id (new_version vid p n st u) = vid" "pv_productId (new_version vid p n st u) = p"
  "pv_versionNumber (new_version vid p n st u) = n" "pv_status (new_version vid p n st u) = V_DRAFT"
  "pv_strategy (new_version vid p n st u) = st" "pv_version (new_version vid p n st u) = 1"
  by (simp_all add: new_version_def)

lemma versions_inv_append:
  assumes "versions_inv t" and "vid \<notin> pv_id ` set t"
    and "\<forall>v\<in>set t. \<not> (pv_productId v = p \<and> pv_versionNumber v = n)"
    and "validate_strategy st = None"
  shows "versions_inv (t @ [new_version vid p n st u])"
proof -
  have "vid \<notin> set (map fst (skel t))" and "(p, n) \<notin> set (map snd (skel t))"
    using assms(2,3) by (auto simp: skel_def)
  then show ?thesis
    using assms(1,4) by (simp add: versions_inv_def version_ok_def)
qed

text \<open>How the product requests change the tables.\<close>

lemma createProduct_tables:
  "(pd_products (snd (createProduct pid vid input actor db)) = pd_products db
    \<and> pd_versions (snd (createProduct pid vid input actor db)) = pd_versions db)
   \<or> (\<exists>p. pd_products (snd (createProduct pid vid input actor db)) = pd_products db @ [p]
      \<and> lp_id p = pid \<and> pid \<notin> lp_id ` set (pd_products db)
      \<and> (\<forall>q\<in>set (pd_products db). \<not> (lp_lenderId q = lp_lenderId p \<and> lp_code q = lp_code p))
      \<and> vid \<notin> pv_id ` set (pd_versions db)
      \<and> validate_strategy (cp_strategy input) = None
      \<and> pd_versions (snd (createProduct pid vid input actor db)) =
          pd_versions db @ [new_version vid pid 1 (cp_strategy input) actor])"
  by (auto simp: createProduct_def Let_def list_ex_iff split: option.splits)

lemma updateProductIdentity_tables:
  "pd_versions (snd (updateProductIdentity pid input actor db)) = pd_versions db
   \<and> map lp_id (pd_products (snd (updateProductIdentity pid input actor db))) =
       map lp_id (pd_products db)
   \<and> map (\<lambda>p. (lp_lenderId p, lp_code p)) (pd_products (snd (updateProductIdentity pid input actor db))) =
       map (\<lambda>p. (lp_lenderId p, lp_code p)) (pd_products db)"
  by (auto simp: updateProductIdentity_def update_one_def update_many_def
      split: option.splits sum.splits)

lemma updateProductStatus_tables:
  "pd_versions (snd (updateProductStatus pid st actor db)) = pd_versions db
   \<and> map lp_id (pd_products (snd (updateProductStatus pid st actor db))) = map lp_id (pd_products db)
   \<and> map (\<lambda>p. (lp_lenderId p, lp_code p)) (pd_products (snd (updateProductStatus pid st actor db))) =
       map (\<lambda>p. (lp_lenderId p, lp_code p)) (pd_products db)"
  by (auto simp: updateProductStatus_def update_one_def update_many_def
      split: option.splits sum.splits)

lemma version_commit_tables:
  "pd_products (snd (version_commit c actor now v ids db)) = pd_products db
   \<and> pd_versions (snd (version_commit c actor now v ids db)) =
      (case version_write c actor now v ids (pd_versions db) of
         Inl e \<Rightarrow> pd_versions db | Inr p \<Rightarrow> snd p)"
  by (auto simp: version_commit_def split: sum.splits)

text \<open>The pending requests only look at the identities, which no write removes.\<close>

lemma products_inv_same_keys:
  assumes "products_inv db ps" and "versions_inv (pd_versions db')"
    and "map lp_id (pd_products db') = map lp_id (pd_products db)"
    and "map (\<lambda>p. (lp_lenderId p, lp_code p)) (pd_products db') =
         map (\<lambda>p. (lp_lenderId p, lp_code p)) (pd_products db)"
    and "skel (pd_versions db') = skel (pd_versions db)"
    and "settled_ids (pd_versions db) \<subseteq> settled_ids (pd_versions db')"
    and "set ps' \<subseteq> set ps"
  shows "products_inv db' ps'"
proof -
  have "set (map lp_id (pd_products db')) = set (map lp_id (pd_products db))"
    using assms(3) by simp
  then have "lp_id ` set (pd_products db') = lp_id ` set (pd_products db)"
    by simp
  moreover have "\<forall>p\<in>set ps'. pending_ok db' p"
    by (rule pendings_mono [of ps db])
       (use calculation assms(1,5,6,7) in \<open>simp_all add: products_inv_def\<close>)
  ultimately show ?thesis
    using assms by (simp add: products_inv_def unique_keys_def)
qed

lemma products_inv_create:
  assumes "products_inv db ps"
  shows "products_inv (snd (createProduct pid vid input actor db)) ps"
  using createProduct_tables [of pid vid input actor db]
proof (elim disjE exE conjE)
  let ?db' = "snd (createProduct pid vid input actor db)"
  assume "pd_products ?db' = pd_products db" and "pd_versions ?db' = pd_versions db"
  with assms show ?thesis
    by (intro products_inv_same_keys [OF assms]) (simp_all add: products_inv_def)
next
  fix p
  let ?db' = "snd (createProduct pid vid input actor db)"
  let ?v = "new_version vid pid 1 (cp_strategy input) actor"
  assume p: "pd_products ?db' = pd_products db @ [p]" and pid: "lp_id p = pid"
    and fresh: "pid \<notin> lp_id ` set (pd_products db)" "vid \<notin> pv_id ` set (pd_versions db)"
    and code: "\<forall>q\<in>set (pd_products db). \<not> (lp_lenderId q = lp_lenderId p \<and> lp_code q = lp_code p)"
    and valid: "validate_strategy (cp_strategy input) = None"
    and v: "pd_versions ?db' = pd_versions db @ [?v]"
  from assms have known: "\<forall>x\<in>set (skel (pd_versions db)). fst (snd x) \<in> lp_id ` set (pd_products db)"
    by (simp add: products_inv_def)
  have "\<not> (pv_productId w = pid \<and> pv_versionNumber w = 1)" if "w \<in> set (pd_versions db)" for w
    using skel_member [OF that] known fresh(1) by force
  then have "versions_inv (pd_versions ?db')"
    unfolding v using assms fresh(2) valid
    by (intro versions_inv_append) (simp_all add: products_inv_def)
  moreover have "unique_keys (\<lambda>p. (lp_lenderId p, lp_code p)) (pd_products ?db')"
    using assms code p by (auto simp: products_inv_def)
  moreover have "\<forall>q\<in>set ps. pending_ok ?db' q"
    by (rule pendings_mono [of ps db])
       (use assms p v settled_ids_append in \<open>auto simp: products_inv_def\<close>)
  ultimately show ?thesis
    using assms p pid fresh(1) v by (auto simp: products_inv_def)
qed

lemma pending_product:
  assumes "products_inv db ps" and "PVersion c actor v got \<in> set ps"
  shows "\<forall>r\<in>set (pd_versions db). pv_id r = pv_id v \<longrightarrow> pv_productId r = pv_productId v"
proof (intro ballI impI)
  let ?t = "pd_versions db"
  from assms have inv: "versions_inv ?t"
    and mem: "(pv_id v, pv_productId v, pv_versionNumber v) \<in> set (skel ?t)"
    by (auto simp: products_inv_def dest!: bspec)
  fix r assume "r \<in> set ?t" and "pv_id r = pv_id v"
  with skel_member [OF this(1)] mem inv show "pv_productId r = pv_productId v"
    by (auto simp: versions_inv_def dest: eq_key_imp_eq_value)
qed

lemma products_inv_commit:
  assumes "products_inv db ps" and "PVersion c actor v got \<in> set ps" and "set ps' \<subseteq> set ps"
    and ids: "ids = (case got of None \<Rightarrow> [] | Some ids \<Rightarrow> ids)"
  shows "products_inv (snd (version_commit c actor now v ids db)) ps'"
proof -
  let ?t = "pd_versions db"
  from assms(1,2) have inv: "versions_inv ?t" and c: "call_valid c"
    and set: "set ids \<subseteq> settled_ids ?t"
    by (auto simp: products_inv_def ids split: option.splits dest!: bspec)
  show ?thesis
  proof (cases "version_write c actor now v ids ?t")
    case (Inl e)
    with assms(1,3) show ?thesis
      using version_commit_tables [of c actor now v ids db] inv
      by (intro products_inv_same_keys [OF assms(1)]) simp_all
  next
    case (Inr p)
    obtain v' t' where p: "p = (v', t')" by (cases p)
    from version_write_inv [OF inv c set] skel_version_write settled_ids_version_write Inr p
    have "versions_inv t'" and "skel t' = skel ?t" and "settled_ids ?t \<subseteq> settled_ids t'" by auto
    with Inr p assms(3) show ?thesis
      using version_commit_tables [of c actor now v ids db]
      by (intro products_inv_same_keys [OF assms(1)]) simp_all
  qed
qed

lemma next_check_source:
  assumes "next_check pid db = Inr (n, s)"
  shows "s \<in> set (pd_versions db) \<and> pv_productId s = pid \<and> pid \<in> lp_id ` set (pd_products db)"
proof -
  from assms have src: "next_source (versions_desc pid db) = Some s"
    and pid: "find_unique lp_id pid (pd_products db) \<noteq> None"
    by (auto simp: next_check_def Let_def split: option.splits if_splits)
  from src have "s \<in> set (versions_desc pid db)"
    by (auto simp: next_source_def find_Some_iff split: option.splits list.splits)
  with pid show ?thesis
    by (auto simp: versions_desc_def find_unique_None_iff)
qed

lemma products_inv_next:
  assumes "products_inv db ps" and "PNext pid n source actor \<in> set ps" and "set ps' \<subseteq> set ps"
  shows "products_inv (snd (next_write vid pid n source actor db)) ps'"
proof (cases "vid \<in> pv_id ` set (pd_versions db) \<or>
    list_ex (\<lambda>v. pv_productId v = pid \<and> pv_versionNumber v = n) (pd_versions db)")
  case True
  then show ?thesis
    using assms(1,3) by (intro products_inv_same_keys [OF assms(1)])
      (auto simp: next_write_def products_inv_def)
next
  case False
  let ?v = "new_version vid pid n (pv_strategy source) actor"
  from assms(1,2) have src: "validate_strategy (pv_strategy source) = None"
    and pid: "pid \<in> lp_id ` set (pd_products db)"
    by (auto simp: products_inv_def dest!: bspec)
  have "versions_inv (pd_versions db @ [?v])"
    using assms(1) False src by (intro versions_inv_append) (auto simp: products_inv_def list_ex_iff)
  moreover have "\<forall>q\<in>set ps'. pending_ok (snd (next_write vid pid n source actor db)) q"
    by (rule pendings_mono [of ps db])
       (use assms(1,3) False settled_ids_append in
         \<open>auto simp: products_inv_def next_write_def Let_def\<close>)
  ultimately show ?thesis
    using False pid assms(1) by (auto simp: next_write_def Let_def products_inv_def)
qed

lemma products_step_inv:
  "products_step apart s s' \<Longrightarrow> products_inv (fst s) (snd s) \<Longrightarrow> products_inv (fst s') (snd s')"
proof (induction rule: products_step.induct)
  case (p_atomic r db ps actor)
  note inv = p_atomic(3) [unfolded fst_conv snd_conv]
  show ?case
  proof (cases r)
    case (RCreate pid vid input)
    with inv show ?thesis by (simp add: products_inv_create)
  next
    case (RIdentity pid input)
    then show ?thesis
      using updateProductIdentity_tables [of pid input actor db] inv
      by (intro products_inv_same_keys [OF inv]) (simp_all add: products_inv_def)
  next
    case (RStatus pid status)
    then show ?thesis
      using updateProductStatus_tables [of pid status actor db] inv
      by (intro products_inv_same_keys [OF inv]) (simp_all add: products_inv_def)
  qed (use p_atomic(1,2) in auto)
next
  case (p_read i db v c actor ps)
  then have "v \<in> set (pd_versions db)" by (auto dest: find_unique_Some_D)
  with p_read show ?case
    by (auto simp: products_inv_def version_guard_valid skel_member intro: pending_ok_mono)
next
  case (p_actives actor v ps db)
  then have "pending_ok db (PVersion VActivate actor v None)" and "versions_inv (pd_versions db)"
    by (auto simp: products_inv_def)
  moreover from this have "pending_ok db (PVersion VActivate actor v
      (Some (active_ids (pv_productId v) (pd_versions db))))"
    by (simp add: active_ids_settled)
  ultimately show ?case
    using p_actives(3) set_remove1_subset [of "PVersion VActivate actor v None" ps]
    by (auto simp: products_inv_def)
next
  case (p_commit c actor v got ps db now)
  with products_inv_commit [OF _ _ set_remove1_subset refl] show ?case by simp
next
  case (p_next_read pid db n source ps actor)
  from next_check_source [OF p_next_read(1)] p_next_read(2) show ?case
    by (auto simp: products_inv_def versions_inv_def version_ok_def intro: pending_ok_mono)
next
  case (p_next_commit pid n source actor ps vid db)
  with products_inv_next [OF _ _ set_remove1_subset] show ?case by simp
next
  case (p_abandon db ps p)
  then show ?case using set_remove1_subset [of p ps] by (auto simp: products_inv_def)
next
  case (p_others db ps qs ls)
  from p_others pendings_mono [of ps db ps "db\<lparr>pd_lenders := ls, pd_platform := qs\<rparr>"]
  show ?case by (simp add: products_inv_def)
qed

lemma products_reachable_inv: "products_reachable apart s \<Longrightarrow> products_inv (fst s) (snd s)"
proof (induction rule: products_reachable.induct)
  case (start ls qs)
  show ?case
    by (simp add: products_inv_def no_products_def versions_inv_def skel_def)
next
  case (step s s')
  then show ?case by (blast intro: products_step_inv)
qed

text \<open>
  With activations of a product apart: the ids a pending activation holds cover the active
  versions of its product, and no two of one product hold ids.
\<close>

definition reading :: "product_pending list \<Rightarrow> ident list" where
  "reading ps = List.map_filter activating ps"

definition apart_inv :: "product_version list \<Rightarrow> product_pending list \<Rightarrow> bool" where
  "apart_inv t ps \<longleftrightarrow> product_active.exclusive t \<and> distinct (reading ps)
     \<and> (\<forall>c actor v ids. PVersion c actor v (Some ids) \<in> set ps \<longrightarrow>
          set (active_ids (pv_productId v) t) \<subseteq> set ids)"

lemma reading_Cons [simp]:
  "reading [] = []"
  "reading (p # ps) = (case activating p of None \<Rightarrow> reading ps | Some i \<Rightarrow> i # reading ps)"
  by (simp_all add: reading_def List.map_filter_simps split: option.split)

lemma set_reading: "i \<in> set (reading ps) \<longleftrightarrow> Some i \<in> activating ` set ps"
  by (induction ps) (auto split: option.splits)

lemma distinct_reading_remove1:
  "distinct (reading ps) \<Longrightarrow> distinct (reading (remove1 p ps))"
  "distinct (reading ps) \<Longrightarrow> p \<in> set ps \<Longrightarrow> activating p = Some i \<Longrightarrow>
    i \<notin> set (reading (remove1 p ps))"
proof -
  show "distinct (reading ps) \<Longrightarrow> distinct (reading (remove1 p ps))"
  proof (induction ps)
    case (Cons q ps)
    then show ?case using set_remove1_subset [of p ps]
      by (auto simp: set_reading image_iff split: option.splits)
  qed simp
  show "distinct (reading ps) \<Longrightarrow> p \<in> set ps \<Longrightarrow> activating p = Some i \<Longrightarrow>
    i \<notin> set (reading (remove1 p ps))"
  proof (induction ps)
    case (Cons q ps)
    have "activating p \<in> activating ` set ps" if "p \<noteq> q" using Cons.prems(2) that by simp
    with Cons show ?case by (auto simp: set_reading split: option.splits if_splits)
  qed simp
qed

lemma apart_inv_mono:
  assumes "apart_inv t ps" and "product_active.exclusive t'" and "distinct (reading ps')"
    and "\<And>c actor v ids. PVersion c actor v (Some ids) \<in> set ps' \<Longrightarrow>
      PVersion c actor v (Some ids) \<in> set ps
      \<and> set (active_ids (pv_productId v) t') \<subseteq> set (active_ids (pv_productId v) t)"
  shows "apart_inv t' ps'"
  using assms unfolding apart_inv_def by (blast dest: subset_trans)

lemma apart_inv_same:
  assumes "apart_inv t ps"
  shows "apart_inv t (remove1 p ps)"
  using assms set_remove1_subset [of p ps]
  by (intro apart_inv_mono [OF assms]) (auto simp: apart_inv_def distinct_reading_remove1)

lemma apart_inv_append:
  assumes "apart_inv t ps"
  shows "apart_inv (t @ [new_version vid p n st u]) ps"
  using assms by (intro apart_inv_mono [OF assms])
    (auto simp: apart_inv_def active_ids_def product_active.exclusive_snoc)

lemma apart_inv_commit:
  assumes inv: "products_inv db ps" and ap: "apart_inv (pd_versions db) ps"
    and p: "PVersion c actor v got \<in> set ps" and got: "got = None \<longleftrightarrow> c \<noteq> VActivate"
    and w: "version_write c actor now v (case got of None \<Rightarrow> [] | Some ids \<Rightarrow> ids)
      (pd_versions db) = Inr (v', t')"
  shows "apart_inv t' (remove1 (PVersion c actor v got) ps)"
proof (rule apart_inv_mono [OF ap])
  note grp = pending_product [OF inv p]
  have "set (active_ids (pv_productId v) (pd_versions db)) \<subseteq>
      set (case got of None \<Rightarrow> [] | Some ids \<Rightarrow> ids)" if "c = VActivate"
  proof -
    from that got obtain ids where "got = Some ids" by (cases got) auto
    with p ap show ?thesis by (simp add: apart_inv_def)
  qed
  from version_write_exclusive [OF _ grp this w] ap show "product_active.exclusive t'"
    by (simp add: apart_inv_def)
  from ap show "distinct (reading (remove1 (PVersion c actor v got) ps))"
    by (simp add: apart_inv_def distinct_reading_remove1)
  fix c2 actor2 v2 ids2
  assume q: "PVersion c2 actor2 v2 (Some ids2) \<in> set (remove1 (PVersion c actor v got) ps)"
  have "pv_productId v2 \<noteq> pv_productId v" if "c = VActivate"
  proof
    assume eq: "pv_productId v2 = pv_productId v"
    from that got obtain ids where "got = Some ids" by (cases got) auto
    with ap p have "pv_productId v \<notin> set (reading (remove1 (PVersion c actor v got) ps))"
      by (intro distinct_reading_remove1(2)) (simp_all add: apart_inv_def)
    with q eq show False by (force simp: set_reading)
  qed
  with version_write_active_ids [OF w grp] q set_remove1_subset
  show "PVersion c2 actor2 v2 (Some ids2) \<in> set ps
    \<and> set (active_ids (pv_productId v2) t') \<subseteq> set (active_ids (pv_productId v2) (pd_versions db))"
    by (metis (no_types, lifting) subsetD)
qed

lemma products_step_apart:
  "products_step True s s' \<Longrightarrow> products_inv (fst s) (snd s) \<Longrightarrow>
   apart_inv (pd_versions (fst s)) (snd s) \<Longrightarrow> apart_inv (pd_versions (fst s')) (snd s')"
proof (induction rule: products_step.induct)
  case (p_atomic r db ps actor)
  note ap = p_atomic(4) [unfolded fst_conv snd_conv]
  show ?case
  proof (cases r)
    case (RCreate pid vid input)
    with createProduct_tables [of pid vid input actor db] ap apart_inv_append [OF ap]
    show ?thesis by auto
  next
    case (RIdentity pid input)
    with updateProductIdentity_tables [of pid input actor db] ap show ?thesis by simp
  next
    case (RStatus pid status)
    with updateProductStatus_tables [of pid status actor db] ap show ?thesis by simp
  qed (use p_atomic(1,2) in auto)
next
  case (p_actives actor v ps db)
  note ap = apart_inv_same [OF p_actives(4) [unfolded fst_conv snd_conv]]
  have "pv_productId v \<notin> set (reading (remove1 (PVersion VActivate actor v None) ps))"
    using p_actives(2) set_remove1_subset [of "PVersion VActivate actor v None" ps]
    by (auto simp: set_reading)
  with ap [of "PVersion VActivate actor v None"] show ?case
    by (simp add: apart_inv_def)
next
  case (p_commit c actor v got ps db now)
  show ?case
  proof (cases "version_write c actor now v (case got of None \<Rightarrow> [] | Some ids \<Rightarrow> ids) (pd_versions db)")
    case (Inl e)
    with p_commit(4) apart_inv_same show ?thesis by (simp add: version_commit_def)
  next
    case (Inr p)
    with apart_inv_commit [OF p_commit(3,4,1,2) [unfolded fst_conv snd_conv]] show ?thesis
      by (cases p) (simp add: version_commit_def)
  qed
next
  case (p_next_commit pid n source actor ps vid db)
  then show ?case
    using apart_inv_same [THEN apart_inv_append] apart_inv_same
    by (simp add: next_write_def Let_def)
next
  case (p_abandon db ps p)
  then show ?case by (simp add: apart_inv_same)
qed (simp_all add: apart_inv_def)

lemma products_apart_inv:
  assumes "products_reachable True s"
  shows "apart_inv (pd_versions (fst s)) (snd s)"
  using assms
proof (induction rule: products_reachable.induct)
  case (start ls qs)
  show ?case by (simp add: apart_inv_def no_products_def product_active.exclusive_Nil)
next
  case (step s s')
  from products_step_apart [OF step(2) products_reachable_inv [OF step(1)] step(3)] show ?case .
qed

section \<open>Requests that run alone\<close>

definition version_trans ::
  "ident \<Rightarrow> version_call \<times> time \<Rightarrow> product_version \<Rightarrow> product_version option" where
  "version_trans actor cmd v =
     (if version_guard (fst cmd) actor v = Go \<and> version_where (fst cmd) v
      then Some (version_data (fst cmd) actor (snd cmd) v) else None)"

definition cleared_version :: "product_version \<Rightarrow> bool" where
  "cleared_version v \<longleftrightarrow> pv_status v \<in> {V_APPROVED, V_ACTIVE, V_SUPERSEDED}"

lemma makerId_supersede [simp]: "makerId (supersede actor v) = makerId v"
  by (simp add: makerId_def split: option.split)

lemma version_trans_Some:
  "version_trans u (c, now) v = Some v' \<longleftrightarrow>
     version_guard c u v = Go \<and> version_where c v \<and> v' = version_data c u now v"
  by (auto simp: version_trans_def)

lemma version_trans_clears:
  "version_trans u (c, now) v = Some v' \<Longrightarrow> \<not> cleared_version v \<Longrightarrow> cleared_version v' \<Longrightarrow>
   u \<noteq> makerId v \<and> makerId v' = makerId v \<and> pv_approvedById v' = Some u"
  unfolding version_trans_Some
  by (cases c) (auto simp: version_data_defs version_guard_defs makerId_def cleared_version_def
      split: if_splits option.splits)

lemma version_trans_keeps:
  "version_trans u (c, now) v = Some v' \<Longrightarrow> cleared_version v \<Longrightarrow> cleared_version v' \<Longrightarrow>
   makerId v' = makerId v \<and> pv_approvedById v' = pv_approvedById v"
  unfolding version_trans_Some
  by (cases c) (auto simp: version_data_defs version_guard_defs makerId_def cleared_version_def
      split: if_splits option.splits)

interpretation product_review: review_flow cleared_version makerId pv_approvedById version_trans
  by unfold_locales (metis prod.exhaust version_trans_clears, metis prod.exhaust version_trans_keeps)

text \<open>A handler that runs alone writes on the row it read.\<close>

lemma version_handler_row:
  assumes "unique_keys pv_id (pd_versions db)"
    and "w \<in> set (pd_versions (snd (version_handler c i actor now db)))"
  shows "w \<in> set (pd_versions db) \<or> (\<exists>v\<in>set (pd_versions db). version_trans actor (c, now) v = Some w)
    \<or> (\<exists>v\<in>set (pd_versions db). pv_status v = V_ACTIVE \<and> w = supersede actor v)"
proof (cases "\<exists>v v' t'. find_unique pv_id i (pd_versions db) = Some v \<and> version_guard c actor v = Go
    \<and> version_write c actor now v (active_ids (pv_productId v) (pd_versions db)) (pd_versions db) =
        Inr (v', t')")
  case False
  with assms(2) show ?thesis
    by (auto simp: version_handler_def version_commit_def split: option.splits check.splits sum.splits)
next
  case True
  then obtain v v' t' where v: "find_unique pv_id i (pd_versions db) = Some v"
    "version_guard c actor v = Go"
    and wr: "version_write c actor now v (active_ids (pv_productId v) (pd_versions db))
      (pd_versions db) = Inr (v', t')"
    by blast
  let ?b = "before_write c actor (active_ids (pv_productId v) (pd_versions db)) (pd_versions db)"
  from v have i: "pv_id v = i" "v \<in> set (pd_versions db)" by (auto dest: find_unique_Some_D)
  have b: "r \<in> set (pd_versions db) \<or> (\<exists>v\<in>set (pd_versions db). pv_status v = V_ACTIVE \<and> r = supersede actor v)"
    if "r \<in> set ?b" for r
    using that by (auto simp: before_write_def supersede_active_eq [OF assms(1)] set_update_many
        split: if_splits)
  have only: "r = v" if r: "r \<in> set ?b" "pv_id r = pv_id v" "version_where c r" for r
  proof -
    from b [OF r(1)] have "r \<in> set (pd_versions db)"
    proof
      assume "\<exists>v\<in>set (pd_versions db). pv_status v = V_ACTIVE \<and> r = supersede actor v"
      then obtain a where a: "a \<in> set (pd_versions db)" "pv_status a = V_ACTIVE" "r = supersede actor a"
        by blast
      from a(3) r(2) have "pv_id a = pv_id v" by simp
      with a(1) i assms(1) have "a = v" by (metis find_unique_in_set option.inject)
      with a(2) v(2) r(3) a(3) have False by (cases c) (auto simp: version_guard_defs split: if_splits)
      then show ?thesis ..
    qed
    with r(2) i assms(1) show ?thesis by (metis find_unique_in_set option.inject)
  qed
  from version_write_Inr [OF wr]
  have t': "t' = update_many (\<lambda>r. pv_id r = pv_id v \<and> version_where c r) (version_data c actor now) ?b"
    by blast
  from v wr have "pd_versions (snd (version_handler c i actor now db)) = t'"
    by (simp add: version_handler_def version_commit_def)
  with assms(2) t' consider "w \<in> set ?b"
    | r where "r \<in> set ?b" "pv_id r = pv_id v" "version_where c r" "w = version_data c actor now r"
    by (auto simp: set_update_many split: if_splits)
  then show ?thesis
  proof cases
    case 1
    with b show ?thesis by blast
  next
    case 2
    with only have "r = v" by blast
    with 2 v i(2) show ?thesis by (auto simp: version_trans_Some)
  qed
qed

lemma serve_atomic:
  "products_reachable apart (db, ps) \<Longrightarrow> (\<And>c i now. r \<noteq> RVersion c i now) \<Longrightarrow>
   (\<And>vid pid. r \<noteq> RNext vid pid) \<Longrightarrow> products_reachable apart (serve r actor db, ps)"
  by (rule products_reachable.step [OF _ p_atomic])

text \<open>A request served at once is its steps one after another, when nobody holds active ids.\<close>

lemma version_commit_ids:
  "c \<noteq> VActivate \<Longrightarrow> version_commit c actor now v ids db = version_commit c actor now v [] db"
  by (cases c) (simp_all add: version_commit_def)

lemma commit_steps:
  assumes R: "products_reachable apart (db, PVersion c actor v None # ps)"
    and free: "reading ps = []"
  shows "products_reachable apart (snd (version_commit c actor now v
    (active_ids (pv_productId v) (pd_versions db)) db), ps)"
proof (cases "c = VActivate")
  case True
  let ?got = "Some (active_ids (pv_productId v) (pd_versions db))"
  let ?ps = "PVersion VActivate actor v None # ps"
  have "PVersion VActivate actor v None \<in> set ?ps" by simp
  moreover have "Some (pv_productId v) \<notin> activating ` set ?ps"
    using free set_reading [of "pv_productId v" ps] by simp
  ultimately have "products_step apart (db, ?ps)
      (db, PVersion VActivate actor v ?got # remove1 (PVersion VActivate actor v None) ?ps)"
    by (rule p_actives)
  from products_reachable.step [OF R [unfolded True] this]
  have R2: "products_reachable apart (db, PVersion VActivate actor v ?got # ps)" by simp
  have "products_step apart (db, PVersion VActivate actor v ?got # ps)
      (snd (version_commit VActivate actor now v (case ?got of None \<Rightarrow> [] | Some ids \<Rightarrow> ids) db),
       remove1 (PVersion VActivate actor v ?got) (PVersion VActivate actor v ?got # ps))"
    by (rule p_commit) simp_all
  from products_reachable.step [OF R2 this] True show ?thesis by simp
next
  case False
  have "products_step apart (db, PVersion c actor v None # ps)
      (snd (version_commit c actor now v (case None of None \<Rightarrow> [] | Some ids \<Rightarrow> ids) db),
       remove1 (PVersion c actor v None) (PVersion c actor v None # ps))"
    by (rule p_commit) (simp_all add: False)
  from products_reachable.step [OF R this]
  have "products_reachable apart (snd (version_commit c actor now v [] db), ps)" by simp
  then show ?thesis by (subst version_commit_ids [OF False])
qed

lemma serve_steps:
  "products_reachable apart (db, ps) \<Longrightarrow> reading ps = [] \<Longrightarrow>
   products_reachable apart (serve r actor db, ps)"
proof (cases r)
  case (RVersion c i now)
  assume R: "products_reachable apart (db, ps)" and free: "reading ps = []"
  show ?thesis
  proof (cases "\<exists>v. find_unique pv_id i (pd_versions db) = Some v \<and> version_guard c actor v = Go")
    case True
    then obtain v where v: "find_unique pv_id i (pd_versions db) = Some v"
      "version_guard c actor v = Go" by blast
    from R p_read [OF v] have "products_reachable apart (db, PVersion c actor v None # ps)"
      by (rule products_reachable.step)
    from commit_steps [OF this free] v show ?thesis by (simp add: RVersion version_handler_def)
  next
    case False
    with R show ?thesis
      by (cases "find_unique pv_id i (pd_versions db)")
         (auto simp: RVersion version_handler_def split: check.splits)
  qed
next
  case (RNext vid pid)
  assume R: "products_reachable apart (db, ps)"
  show ?thesis
  proof (cases "next_check pid db")
    case (Inl e)
    with R show ?thesis by (simp add: RNext createNextVersion_def)
  next
    case (Inr p)
    obtain n s where p: "p = (n, s)" by (cases p)
    from R p_next_read [OF Inr [unfolded p]]
    have "products_reachable apart (db, PNext pid n s actor # ps)"
      by (rule products_reachable.step)
    from products_reachable.step [OF this p_next_commit [of pid n s actor]] have
      "products_reachable apart (snd (next_write vid pid n s actor db), ps)" by simp
    with Inr p show ?thesis by (simp add: RNext createNextVersion_def)
  qed
qed (rule serve_atomic, assumption, blast, blast)+

lemma serve_reviewed:
  assumes "products_reachable apart (db, ps)"
    and "\<forall>v\<in>set (pd_versions db). product_review.reviewed v"
  shows "\<forall>v\<in>set (pd_versions (serve r actor db)). product_review.reviewed v"
proof -
  have draft: "product_review.reviewed (new_version vid pid n st u)" for vid pid n st u
    by (simp add: product_review.reviewed_def cleared_version_def)
  from products_reachable_inv [OF assms(1)]
  have u: "unique_keys pv_id (pd_versions db)"
    by (simp add: products_inv_def versions_inv_def unique_ids_skel)
  show ?thesis
  proof (cases r)
    case (RCreate pid vid input)
    with createProduct_tables [of pid vid input actor db] assms(2) draft show ?thesis by auto
  next
    case (RIdentity pid input)
    with updateProductIdentity_tables [of pid input actor db] assms(2) show ?thesis by simp
  next
    case (RStatus pid status)
    with updateProductStatus_tables [of pid status actor db] assms(2) show ?thesis by simp
  next
    case (RNext vid pid)
    with assms(2) draft show ?thesis
      by (auto simp: createNextVersion_def next_write_def Let_def split: sum.splits)
  next
    case (RVersion c i now)
    have sup: "product_review.reviewed (supersede actor v)"
      if "v \<in> set (pd_versions db)" "pv_status v = V_ACTIVE" for v
      using assms(2) that by (auto simp: product_review.reviewed_def cleared_version_def)
    show ?thesis
      using version_handler_row [OF u, of _ c i actor now] assms(2) sup
        product_review.trans_reviewed unfolding RVersion serve.simps by blast
  qed
qed

lemma serve_all_reviewed:
  assumes "products_reachable apart (db, [])"
    and "\<forall>v\<in>set (pd_versions db). product_review.reviewed v"
  shows "products_reachable apart (serve_all rs db, [])
    \<and> (\<forall>v\<in>set (pd_versions (serve_all rs db)). product_review.reviewed v)"
  using assms
proof (induction rs arbitrary: db)
  case Nil
  then show ?case by (simp add: serve_all_def)
next
  case (Cons r rs)
  obtain actor q where r: "r = (actor, q)" by (cases r)
  from Cons.IH [OF serve_steps [OF Cons.prems(1)] serve_reviewed [OF Cons.prems]]
  show ?case by (simp add: serve_all_def r)
qed

lemma serve_all_Cons: "serve_all ((actor, r) # rs) db = serve_all rs (serve r actor db)"
  by (simp add: serve_all_def)

lemma serve_all_Nil: "serve_all [] db = db"
  by (simp add: serve_all_def)

lemma sort_desc_head:
  assumes "sort_key (\<lambda>v. - f v) xs = y # ys"
  shows "\<forall>x\<in>set xs. (f x :: int) \<le> f y"
  using sort_key_head [OF assms] by simp

section \<open>Properties\<close>

text \<open>A small world: one approved lender, one platform product, one product with a draft.\<close>

definition demo_lender :: lender where
  "demo_lender = hd (lenders demo_approved)"

definition demo_strategy :: strategy where
  "demo_strategy =
     \<lparr>st_amounts = demo_amounts,
      st_pricing = \<lparr>pg_repeatTierScope = ''SAME_LENDER'', pg_interestMethod = ''FLAT_RATE'',
        pg_annualRoiPercent = 24, pg_processingFeePercent = 2, pg_processingFeeGstPercent = 18,
        pg_assessmentFeeAmount = 0, pg_assessmentFeeGstPercent = 18, pg_penalChargeAmount = 500,
        pg_bounceChargeAmount = 500, pg_emiDueDay = 5, pg_includeAssessmentFeeInApr = False,
        pg_tenureType = ''MONTHS'', pg_effectiveFrom = None\<rparr>,
      st_multipliers = demo_multipliers, st_tenures = [6, 12]\<rparr>"

definition demo_products :: product_db where
  "demo_products = no_products [demo_lender]
     [\<lparr>pp_id = ''PP'', pp_name = ''Personal loan'', pp_code = ''PL'', pp_description = None,
       pp_active = True\<rparr>]"

definition demo_create :: product_request where
  "demo_create = RCreate ''P1'' ''V1''
     \<lparr>cp_lenderId = ''L1'', cp_platformProductId = ''PP'', cp_name = None, cp_code = None,
      cp_description = None, cp_strategy = demo_strategy\<rparr>"

text \<open>
  C2. Whatever product and version requests run concurrently, and however their reads and
  writes interleave (the read of the active versions inside an activation's transaction, which
  takes no lock, included): ids are unique, a lender has no two products with one code, a
  product has no two versions with one number, every version's amounts and multipliers are
  valid, and a version past approval has an approver. In the runs in which no two activations
  of one product overlap from the read of its active versions to the write, a product has also
  at most one active version; without that it may have two
  (\<open>overlapping_activations_leave_two_active\<close>).
\<close>

theorem products_concurrent_invariant:
  assumes "products_reachable apart (db, ps)"
  shows "unique_keys lp_id (pd_products db) \<and> unique_keys pv_id (pd_versions db)
    \<and> unique_keys (\<lambda>p. (lp_lenderId p, lp_code p)) (pd_products db)
    \<and> unique_keys (\<lambda>v. (pv_productId v, pv_versionNumber v)) (pd_versions db)
    \<and> (apart \<longrightarrow>
        (\<forall>p. count_rows (\<lambda>v. pv_productId v = p \<and> pv_status v = V_ACTIVE) (pd_versions db) \<le> 1))
    \<and> (\<forall>v\<in>set (pd_versions db).
         validateAmounts (st_amounts (pv_strategy v)) = None
         \<and> validateMultipliers (st_multipliers (pv_strategy v)) = None
         \<and> (pv_status v \<in> {V_APPROVED, V_ACTIVE, V_SUPERSEDED} \<longrightarrow> pv_approvedById v \<noteq> None))"
proof -
  from products_reachable_inv [OF assms] have inv: "products_inv db ps" by simp
  then have v: "versions_inv (pd_versions db)" by (simp add: products_inv_def)
  then have u: "unique_keys pv_id (pd_versions db)"
    by (simp add: versions_inv_def unique_ids_skel)
  have "unique_keys (\<lambda>v. (pv_productId v, pv_versionNumber v)) (pd_versions db)"
    using v by (simp add: versions_inv_def skel_def unique_keys_def comp_def)
  moreover have "\<forall>p. count_rows (\<lambda>v. pv_productId v = p \<and> pv_status v = V_ACTIVE) (pd_versions db) \<le> 1"
    if apart
    using assms that products_apart_inv [of "(db, ps)"] u product_active.exclusive_count
    by (simp add: apart_inv_def)
  moreover have "\<forall>w\<in>set (pd_versions db).
      validateAmounts (st_amounts (pv_strategy w)) = None
      \<and> validateMultipliers (st_multipliers (pv_strategy w)) = None
      \<and> (pv_status w \<in> {V_APPROVED, V_ACTIVE, V_SUPERSEDED} \<longrightarrow> pv_approvedById w \<noteq> None)"
    using v by (auto simp: versions_inv_def version_ok_def validate_strategy_def split: option.splits)
  ultimately show ?thesis using inv u by (simp add: products_inv_def)
qed

definition demo_activated :: product_db where
  "demo_activated = serve_all
     [(''ann'', demo_create), (''ann'', RVersion VSubmit ''V1'' 1),
      (''bob'', RVersion VApprove ''V1'' 2), (''bob'', RVersion VActivate ''V1'' 3),
      (''ann'', RNext ''V2'' ''P1''), (''ann'', RVersion VSubmit ''V2'' 4),
      (''bob'', RVersion VApprove ''V2'' 5), (''ann'', RVersion VActivate ''V2'' 6)] demo_products"

lemma demo_products_start: "products_reachable apart (demo_products, [])
    \<and> (\<forall>v\<in>set (pd_versions demo_products). product_review.reviewed v)"
  unfolding demo_products_def by (simp add: products_reachable.start) (simp add: no_products_def)

theorem products_concurrent_invariant_witness:
  "map pv_status (pd_versions demo_activated) = [V_SUPERSEDED, V_ACTIVE]
   \<and> count_rows (\<lambda>v. pv_productId v = ''P1'' \<and> pv_status v = V_ACTIVE) (pd_versions demo_activated) \<le> 1"
proof -
  have "products_reachable True (demo_activated, [])"
    unfolding demo_activated_def using serve_all_reviewed demo_products_start by blast
  from products_concurrent_invariant [OF this]
  have "count_rows (\<lambda>v. pv_productId v = ''P1'' \<and> pv_status v = V_ACTIVE) (pd_versions demo_activated) \<le> 1"
    by blast
  moreover have "map pv_status (pd_versions demo_activated) = [V_SUPERSEDED, V_ACTIVE]" by code_simp
  ultimately show ?thesis by blast
qed

text \<open>
  Four eyes when requests run one after another: after any sequence of product and
  version requests by any users, every version that is approved, active or superseded was
  approved by a user other than its maker.
\<close>

theorem products_serial_four_eyes:
  assumes "v \<in> set (pd_versions (serve_all rs (no_products ls qs)))"
    and "pv_status v \<in> {V_APPROVED, V_ACTIVE, V_SUPERSEDED}"
  shows "\<exists>a. pv_approvedById v = Some a \<and> a \<noteq> makerId v"
proof -
  have "\<forall>v\<in>set (pd_versions (no_products ls qs)). product_review.reviewed v"
    by (simp add: no_products_def)
  from serve_all_reviewed [OF products_reachable.start this, of True rs] assms(1)
  have "product_review.reviewed v" by blast
  with assms(2) show ?thesis
    by (simp add: product_review.reviewed_def cleared_version_def)
qed

theorem products_serial_four_eyes_witness:
  "\<exists>a. pv_approvedById (hd (pd_versions demo_activated)) = Some a
     \<and> a \<noteq> makerId (hd (pd_versions demo_activated))"
proof (rule products_serial_four_eyes)
  show "hd (pd_versions demo_activated) \<in> set (pd_versions (serve_all
     [(''ann'', demo_create), (''ann'', RVersion VSubmit ''V1'' 1),
      (''bob'', RVersion VApprove ''V1'' 2), (''bob'', RVersion VActivate ''V1'' 3),
      (''ann'', RNext ''V2'' ''P1''), (''ann'', RVersion VSubmit ''V2'' 4),
      (''bob'', RVersion VApprove ''V2'' 5), (''ann'', RVersion VActivate ''V2'' 6)]
     (no_products [demo_lender]
       [\<lparr>pp_id = ''PP'', pp_name = ''Personal loan'', pp_code = ''PL'', pp_description = None,
         pp_active = True\<rparr>])))"
    by code_simp
  show "pv_status (hd (pd_versions demo_activated)) \<in> {V_APPROVED, V_ACTIVE, V_SUPERSEDED}"
    by code_simp
qed

text \<open>
  The four-eyes rule does not survive concurrency: the approval is committed under the
  status alone, so a checker whose approval is still pending while another user rejects the
  version, and who then edits and resubmits it, approves a version that is now his own.
\<close>

theorem products_self_approval_race:
  "\<exists>db ps v. products_reachable apart (db, ps) \<and> v \<in> set (pd_versions db)
     \<and> pv_status v = V_APPROVED \<and> pv_approvedById v = Some (makerId v)"
proof -
  let ?s = "serve_all [(''ann'', demo_create), (''ann'', RVersion VSubmit ''V1'' 1)] demo_products"
  let ?v = "hd (pd_versions ?s)"
  let ?edit = "\<lparr>si_expectedVersion = 3, si_strategy = demo_strategy\<rparr>"
  let ?db1 = "serve (RVersion (VReject ''rate'') ''V1'' 2) ''carl'' ?s"
  let ?db2 = "serve (RVersion (VStrategy ?edit) ''V1'' 3) ''bob'' ?db1"
  let ?db3 = "serve (RVersion VSubmit ''V1'' 4) ''bob'' ?db2"
  let ?db4 = "snd (version_commit VApprove ''bob'' 5 ?v [] ?db3)"
  have r0: "products_reachable apart (?s, [])"
    using serve_all_reviewed demo_products_start by blast
  have read: "find_unique pv_id ''V1'' (pd_versions ?s) = Some ?v"
    and go: "version_guard VApprove ''bob'' ?v = Go" by code_simp+
  from r0 p_read [OF read go]
  have "products_reachable apart (?s, [PVersion VApprove ''bob'' ?v None])"
    by (rule products_reachable.step)
  then have "products_reachable apart (?db3, [PVersion VApprove ''bob'' ?v None])"
    by (intro serve_steps) simp_all
  from products_reachable.step [OF this p_commit [of VApprove "''bob''" ?v None _ _ _ 5]]
  have "products_reachable apart (?db4, [])" by simp
  moreover have "pd_versions ?db4 \<noteq> [] \<and> pv_status (hd (pd_versions ?db4)) = V_APPROVED
      \<and> pv_approvedById (hd (pd_versions ?db4)) = Some (makerId (hd (pd_versions ?db4)))"
    by code_simp
  ultimately show ?thesis
    by (intro exI [of _ ?db4] exI [of _ "[]"] exI [of _ "hd (pd_versions ?db4)"]) simp
qed

text \<open>
  Nor does the rule of one active version: two activations of one product that both read its
  active versions before either writes retire neither of the versions they activate.
\<close>

theorem overlapping_activations_leave_two_active:
  "\<exists>db. products_reachable False (db, [])
     \<and> count_rows (\<lambda>v. pv_productId v = ''P1'' \<and> pv_status v = V_ACTIVE) (pd_versions db) = 2"
proof -
  let ?s = "serve_all
     [(''ann'', demo_create), (''ann'', RVersion VSubmit ''V1'' 1),
      (''bob'', RVersion VApprove ''V1'' 2), (''ann'', RNext ''V2'' ''P1''),
      (''ann'', RVersion VSubmit ''V2'' 3), (''bob'', RVersion VApprove ''V2'' 4)] demo_products"
  let ?v = "hd (pd_versions ?s)" and ?w = "last (pd_versions ?s)"
  let ?db = "snd (version_commit VActivate ''bob'' 6 ?w []
    (snd (version_commit VActivate ''ann'' 5 ?v [] ?s)))"
  note step = products_reachable.step
  have r: "products_reachable False (?s, [])"
    using serve_all_reviewed demo_products_start by blast
  have v: "find_unique pv_id ''V1'' (pd_versions ?s) = Some ?v"
    "version_guard VActivate ''ann'' ?v = Go" by code_simp+
  have w: "find_unique pv_id ''V2'' (pd_versions ?s) = Some ?w"
    "version_guard VActivate ''bob'' ?w = Go" by code_simp+
  have none: "active_ids (pv_productId ?v) (pd_versions ?s) = []"
    "active_ids (pv_productId ?w) (pd_versions ?s) = []" by code_simp+
  from step [OF step [OF r p_read [OF v]] p_read [OF w]]
  have "products_reachable False
    (?s, [PVersion VActivate ''bob'' ?w None, PVersion VActivate ''ann'' ?v None])" .
  from step [OF this p_actives [of "''bob''" ?w]] none
  have "products_reachable False
    (?s, [PVersion VActivate ''bob'' ?w (Some []), PVersion VActivate ''ann'' ?v None])" by simp
  from step [OF this p_actives [of "''ann''" ?v]] none
  have "products_reachable False
    (?s, [PVersion VActivate ''ann'' ?v (Some []), PVersion VActivate ''bob'' ?w (Some [])])" by simp
  from step [OF this p_commit [of VActivate "''ann''" ?v "Some []" _ _ _ 5]]
  have "products_reachable False
    (snd (version_commit VActivate ''ann'' 5 ?v [] ?s), [PVersion VActivate ''bob'' ?w (Some [])])"
    by simp
  from step [OF this p_commit [of VActivate "''bob''" ?w "Some []" _ _ _ 6]]
  have "products_reachable False (?db, [])" by simp
  moreover have "count_rows (\<lambda>v. pv_productId v = ''P1'' \<and> pv_status v = V_ACTIVE)
      (pd_versions ?db) = 2" by code_simp
  ultimately show ?thesis by blast
qed

text \<open>
  The guard of \<open>createNextVersion\<close> does not keep a product at one open version: with a
  rejected version as the latest it clones a draft, and editing the rejected version makes
  that one a draft too.
\<close>

theorem products_two_drafts:
  "count_rows (\<lambda>v. pv_productId v = ''P1'' \<and> pv_status v = V_DRAFT)
     (pd_versions (serve_all
        [(''ann'', demo_create), (''ann'', RVersion VSubmit ''V1'' 1),
         (''bob'', RVersion (VReject ''rate'') ''V1'' 2), (''ann'', RNext ''V2'' ''P1''),
         (''ann'', RVersion (VStrategy \<lparr>si_expectedVersion = 3, si_strategy = demo_strategy\<rparr>) ''V1'' 3)]
        demo_products)) = 2"
  by code_simp

text \<open>
  \<open>createNextVersion\<close> with an active version: when no activations of the product overlapped, no
  version of the product is open and the generated id is new, it adds one draft whose number is larger than every number of the
  product and whose strategy is the active version's; all existing versions stay as they are.
\<close>

theorem next_version_clones_active:
  assumes "products_reachable True (db, ps)" and "pid \<in> lp_id ` set (pd_products db)"
    and "s \<in> set (pd_versions db)" and "pv_productId s = pid" and "pv_status s = V_ACTIVE"
    and "\<forall>v\<in>set (pd_versions db). pv_productId v = pid \<longrightarrow> pv_status v \<notin> {V_DRAFT, V_SUBMITTED}"
    and "vid \<notin> pv_id ` set (pd_versions db)"
  shows "\<exists>v. fst (createNextVersion vid pid actor db) = Inr v
    \<and> pd_versions (snd (createNextVersion vid pid actor db)) = pd_versions db @ [v]
    \<and> pv_id v = vid \<and> pv_productId v = pid \<and> pv_status v = V_DRAFT \<and> pv_version v = 1
    \<and> pv_strategy v = pv_strategy s
    \<and> (\<forall>w\<in>set (pd_versions db). pv_productId w = pid \<longrightarrow> pv_versionNumber w < pv_versionNumber v)"
proof -
  from products_reachable_inv [OF assms(1)] have inv: "versions_inv (pd_versions db)"
    by (simp add: products_inv_def)
  from products_apart_inv [OF assms(1)] have ex: "product_active.exclusive (pd_versions db)"
    by (simp add: apart_inv_def)
  let ?vs = "versions_desc pid db"
  have set_vs: "v \<in> set ?vs \<longleftrightarrow> v \<in> set (pd_versions db) \<and> pv_productId v = pid" for v
    by (auto simp: versions_desc_def)
  with assms(3,4) have "s \<in> set ?vs" by blast
  then obtain y ys where vs: "?vs = y # ys" by (cases ?vs) auto
  from sort_desc_head [OF vs [unfolded versions_desc_def]]
  have top: "\<forall>w\<in>set (pd_versions db). pv_productId w = pid \<longrightarrow> pv_versionNumber w \<le> pv_versionNumber y"
    by auto
  have closed: "\<not> list_ex (\<lambda>v. pv_status v = V_DRAFT \<or> pv_status v = V_SUBMITTED) ?vs"
    using assms(6) set_vs by (auto simp: list_ex_iff)
  have "List.find (\<lambda>v. pv_status v = V_ACTIVE) ?vs \<noteq> None"
    using \<open>s \<in> set ?vs\<close> assms(5) by (auto simp: find_None_iff)
  then obtain a where a: "List.find (\<lambda>v. pv_status v = V_ACTIVE) ?vs = Some a" by blast
  then have "a \<in> set ?vs" "pv_status a = V_ACTIVE" by (auto simp: find_Some_iff)
  with set_vs ex assms(3-5) have "pv_id a = pv_id s"
    by (intro product_active.exclusiveD [of "pd_versions db"]) auto
  with \<open>a \<in> set ?vs\<close> set_vs assms(3) inv have "a = s"
    by (metis find_unique_in_set option.inject versions_inv_def unique_ids_skel)
  with a have src: "next_source ?vs = Some s" by (simp add: next_source_def)
  have "find_unique lp_id pid (pd_products db) \<noteq> None"
    using assms(2) by (simp add: find_unique_None_iff)
  then have chk: "next_check pid db = Inr (pv_versionNumber y + 1, s)"
    using closed src vs by (auto simp: next_check_def Let_def)
  have "\<not> list_ex (\<lambda>v. pv_productId v = pid \<and> pv_versionNumber v = pv_versionNumber y + 1)
      (pd_versions db)"
    using top by (force simp: list_ex_iff)
  with assms(7) have "createNextVersion vid pid actor db =
      (let v = new_version vid pid (pv_versionNumber y + 1) (pv_strategy s) actor in
       (Inr v, auditLog ''PRODUCT_VERSION_CREATED'' pid (PA_sourceVersionId (pv_id s))
         (PA_newVersionId vid) actor (db\<lparr>pd_versions := pd_versions db @ [v]\<rparr>)))"
    by (simp add: createNextVersion_def chk next_write_def)
  with top show ?thesis
    by (auto simp: Let_def intro!: exI [of _ "new_version vid pid (pv_versionNumber y + 1)
      (pv_strategy s) actor"] zle_iff_zadd [THEN iffD2])
qed

theorem next_version_clones_active_witness:
  "\<exists>v. fst (createNextVersion ''V3'' ''P1'' ''ann'' demo_activated) = Inr v
     \<and> pv_strategy v = demo_strategy"
proof -
  have r: "products_reachable True (demo_activated, [])"
    unfolding demo_activated_def using serve_all_reviewed demo_products_start by blast
  let ?s = "last (pd_versions demo_activated)"
  have p: "''P1'' \<in> lp_id ` set (pd_products demo_activated)" by code_simp
  have s: "?s \<in> set (pd_versions demo_activated)" by (rule last_in_set) code_simp
  have g: "pv_productId ?s = ''P1''" "pv_status ?s = V_ACTIVE" by code_simp+
  have o1: "\<forall>v\<in>set (pd_versions demo_activated). pv_productId v = ''P1'' \<longrightarrow>
      pv_status v \<notin> {V_DRAFT, V_SUBMITTED}" by code_simp
  have n: "''V3'' \<notin> pv_id ` set (pd_versions demo_activated)" by code_simp
  have st: "pv_strategy ?s = demo_strategy" by code_simp
  from next_version_clones_active [OF r p s g o1 n, of "''ann''"] st show ?thesis by auto
qed

end
