(* ===== verification/MlmEngine.thy ===== *)
theory MlmEngine
  imports Products SmoothWrr
begin

text \<open>
  The allocation engine (modules/mlm/services/mlm-allocation-engine/
  mlm-allocation-engine.service.ts): one application is assigned to one lender route of the
  active policy version, by smooth weighted round robin over the routes that are ready, or to
  the previous route of a repeat customer.

  \<open>executeInternal\<close> is one database transaction. Its reads of the existing decision precede
  the row locks, so the decision it saw (\<open>seen\<close>) is an argument of the part that follows.
\<close>

section \<open>Data\<close>

record mlm_route =
  mr_id :: ident
  mr_lenderId :: ident
  mr_productId :: ident
  mr_allocationWeightPercent :: "rat option"
  mr_minimumTicketAmount :: "rat option"
  mr_maximumTicketAmount :: "rat option"
  mr_isActive :: bool
  mr_priority :: int
  mr_sortOrder :: int

text \<open>A policy version as the engine receives it, with its routes.\<close>

record version_view =
  vv_id :: ident
  vv_policyId :: ident
  vv_platformProductId :: "ident option"
  vv_routes :: "mlm_route list"

record route_state =
  rs_routeId :: ident
  rs_mlmPolicyVersionId :: ident
  rs_currentWeight :: rat
  rs_allocatedApplicationCount :: int
  rs_allocatedAmount :: rat
  rs_lastAllocatedAt :: "time option"
  rs_version :: int

datatype decision_status = D_PENDING | D_ASSIGNED | D_NO_ELIGIBLE_ROUTE

record candidate_result =
  cr_routeId :: ident
  cr_lenderId :: ident
  cr_productId :: ident
  cr_isEligible :: bool
  cr_rejectionReason :: "string option"
  cr_allocationPercentage :: rat
  cr_currentWeight :: rat
  cr_psvId :: "ident option"

record allocation_attempt =
  at_policyVersionId :: ident
  at_attemptNumber :: int
  at_outcome :: decision_status
  at_requestedAmount :: "rat option"
  at_candidateResults :: "candidate_result list"
  at_selectedRouteId :: "ident option"
  at_reasonCode :: "string option"

record allocation_decision =
  ad_id :: ident
  ad_applicationReference :: string
  ad_policyId :: ident
  ad_policyVersionId :: ident
  ad_routeId :: "ident option"
  ad_lenderId :: "ident option"
  ad_productId :: "ident option"
  ad_productVersionId :: "ident option"
  ad_platformEvaluationReference :: "ident option"
  ad_requestedAmount :: "rat option"
  ad_customerSegment :: string
  ad_platformDecisionOutcome :: string
  ad_platformProductId :: "ident option"
  ad_status :: decision_status
  ad_decisionReasonCode :: string
  ad_attemptCount :: int
  ad_assignedAt :: "time option"
  ad_attempts :: "allocation_attempt list"

record allocation_dto =
  dt_applicationReference :: string
  dt_requestedAmount :: "rat option"
  dt_platformEvaluationReference :: "ident option"
  dt_platformDecisionOutcome :: string
  dt_platformProductId :: ident
  dt_customerSegment :: string
  dt_stickyRouteHint :: "(ident \<times> ident) option"

text \<open>The tables: the catalogue of lenders and products is read, the other two are written.\<close>

record engine_db =
  ed_catalog :: product_db
  ed_states :: "route_state list"
  ed_decisions :: "allocation_decision list"

section \<open>Readiness of a route\<close>

definition lender_check :: "product_db \<Rightarrow> mlm_route \<Rightarrow> string option" where
  "lender_check cat route =
     (case find_unique ln_id (mr_lenderId route) (pd_lenders cat) of
        None \<Rightarrow> Some ''LENDER_INACTIVE_OR_UNAPPROVED''
      | Some l \<Rightarrow>
          if ln_operationalStatus l \<noteq> ACTIVE \<or> ln_approvalStatus l \<noteq> LApproved
          then Some ''LENDER_INACTIVE_OR_UNAPPROVED'' else None)"

definition product_check :: "product_db \<Rightarrow> ident \<Rightarrow> mlm_route \<Rightarrow> string option" where
  "product_check cat platformProductId route =
     (case find_unique lp_id (mr_productId route) (pd_products cat) of
        None \<Rightarrow> Some ''PRODUCT_INACTIVE''
      | Some p \<Rightarrow>
          if lp_operationalStatus p \<noteq> ACTIVE then Some ''PRODUCT_INACTIVE''
          else if lp_platformProductId p \<noteq> platformProductId then Some ''PRODUCT_MISMATCH''
          else None)"

definition effective_versions :: "product_db \<Rightarrow> time \<Rightarrow> mlm_route \<Rightarrow> product_version list" where
  "effective_versions cat now route =
     filter (\<lambda>v. case pg_effectiveFrom (st_pricing (pv_strategy v)) of
                   None \<Rightarrow> True | Some t \<Rightarrow> t \<le> now)
       (filter (\<lambda>v. pv_productId v = mr_productId route \<and> pv_status v = V_ACTIVE)
         (pd_versions cat))"

definition amount_check :: "rat option \<Rightarrow> mlm_route \<Rightarrow> string option" where
  "amount_check amount route =
     (case amount of
        None \<Rightarrow> None
      | Some a \<Rightarrow>
          if (case mr_minimumTicketAmount route of None \<Rightarrow> False | Some m \<Rightarrow> a < m)
          then Some ''BELOW_MINIMUM_AMOUNT''
          else if (case mr_maximumTicketAmount route of None \<Rightarrow> False | Some m \<Rightarrow> m < a)
          then Some ''ABOVE_MAXIMUM_AMOUNT'' else None)"

text \<open>
  The checks in their order: the reason of the first that fails, and the strategy version
  that was found (kept when only the amount check fails).
\<close>

definition route_check ::
  "product_db \<Rightarrow> allocation_dto \<Rightarrow> time \<Rightarrow> mlm_route \<Rightarrow> string option \<times> ident option" where
  "route_check cat dto now route =
     (if dt_platformDecisionOutcome dto \<noteq> ''PASS'' then (Some ''PLATFORM_POLICY_NOT_PASSED'', None)
      else
        case lender_check cat route of
          Some reason \<Rightarrow> (Some reason, None)
        | None \<Rightarrow>
            (case product_check cat (dt_platformProductId dto) route of
               Some reason \<Rightarrow> (Some reason, None)
             | None \<Rightarrow>
                 (case effective_versions cat now route of
                    [v] \<Rightarrow> (amount_check (dt_requestedAmount dto) route, Some (pv_id v))
                  | _ \<Rightarrow> (Some ''INVALID_PRODUCT_VERSIONS'', None))))"

definition locked_weight :: "ident \<Rightarrow> route_state list \<Rightarrow> mlm_route \<Rightarrow> rat" where
  "locked_weight versionId states route =
     (case find_unique rs_routeId (mr_id route)
             (filter (\<lambda>s. rs_mlmPolicyVersionId s = versionId) states) of
        None \<Rightarrow> 0
      | Some s \<Rightarrow> rs_currentWeight s)"

definition weight_percent :: "mlm_route \<Rightarrow> rat" where
  "weight_percent route = (case mr_allocationWeightPercent route of None \<Rightarrow> 0 | Some w \<Rightarrow> w)"

definition candidate_of ::
  "engine_db \<Rightarrow> ident \<Rightarrow> allocation_dto \<Rightarrow> time \<Rightarrow> mlm_route \<Rightarrow> candidate_result" where
  "candidate_of db versionId dto now route =
     (let (reason, psv) = route_check (ed_catalog db) dto now route
      in \<lparr>cr_routeId = mr_id route, cr_lenderId = mr_lenderId route,
          cr_productId = mr_productId route, cr_isEligible = (reason = None),
          cr_rejectionReason = reason,
          cr_allocationPercentage = weight_percent route,
          cr_currentWeight = locked_weight versionId (ed_states db) route,
          cr_psvId = psv\<rparr>)"

definition eligible_routes ::
  "engine_db \<Rightarrow> allocation_dto \<Rightarrow> time \<Rightarrow> version_view \<Rightarrow> mlm_route list" where
  "eligible_routes db dto now pv =
     filter (\<lambda>r. mr_isActive r \<and> fst (route_check (ed_catalog db) dto now r) = None) (vv_routes pv)"

definition swrr_of :: "ident \<Rightarrow> route_state list \<Rightarrow> mlm_route \<Rightarrow> swrr_route" where
  "swrr_of versionId states route =
     \<lparr>sr_id = mr_id route, sr_allocationPercentage = weight_percent route,
      sr_currentWeight = locked_weight versionId states route, sr_isEligible = True\<rparr>"

section \<open>Selection\<close>

record selection =
  se_routeId :: "ident option"
  se_route :: "mlm_route option"
  se_updates :: "(ident \<times> rat) list"
  se_reason :: string
  se_sticky :: bool

definition sticky_route :: "(ident \<times> ident) option \<Rightarrow> mlm_route list \<Rightarrow> mlm_route option" where
  "sticky_route hint routes =
     (case hint of
        None \<Rightarrow> None
      | Some (l, p) \<Rightarrow> List.find (\<lambda>r. mr_lenderId r = l \<and> mr_productId r = p) routes)"

definition select_route ::
  "engine_db \<Rightarrow> allocation_dto \<Rightarrow> time \<Rightarrow> version_view \<Rightarrow> selection" where
  "select_route db dto now pv =
     (let eligible = eligible_routes db dto now pv;
          reason0 = (if dt_platformDecisionOutcome dto = ''PASS'' then ''NO_ELIGIBLE_ROUTE''
                     else ''PLATFORM_POLICY_NOT_PASSED'')
      in if eligible = []
         then \<lparr>se_routeId = None, se_route = None, se_updates = [], se_reason = reason0,
               se_sticky = False\<rparr>
         else
           case sticky_route (dt_stickyRouteHint dto) eligible of
             Some r \<Rightarrow>
               \<lparr>se_routeId = Some (mr_id r), se_route = Some r, se_updates = [],
                se_reason = ''REPEAT_CUSTOMER_STICKY_LENDER'', se_sticky = True\<rparr>
           | None \<Rightarrow>
               (let res = selectNext (map (swrr_of (vv_id pv) (ed_states db)) eligible)
                in \<lparr>se_routeId = selectedRouteId res,
                    se_route = (case selectedRouteId res of
                        None \<Rightarrow> None
                      | Some i \<Rightarrow> List.find (\<lambda>r. mr_id r = i) (vv_routes pv)),
                    se_updates = updatedRoutes res,
                    se_reason = (if selectedRouteId res \<noteq> None then ''ASSIGNED'' else reason0),
                    se_sticky = False\<rparr>))"

section \<open>Writing the decision and the states\<close>

definition selected_psv :: "candidate_result list \<Rightarrow> mlm_route option \<Rightarrow> ident option" where
  "selected_psv cands route =
     (case route of
        None \<Rightarrow> None
      | Some r \<Rightarrow>
          (case List.find (\<lambda>c. cr_routeId c = mr_id r) cands of
             None \<Rightarrow> None | Some c \<Rightarrow> cr_psvId c))"

definition new_attempt ::
  "ident \<Rightarrow> int \<Rightarrow> decision_status \<Rightarrow> rat option \<Rightarrow> candidate_result list \<Rightarrow> selection \<Rightarrow>
   allocation_attempt" where
  "new_attempt versionId n status amount cands sel =
     \<lparr>at_policyVersionId = versionId, at_attemptNumber = n, at_outcome = status,
      at_requestedAmount = amount, at_candidateResults = cands,
      at_selectedRouteId = map_option mr_id (se_route sel),
      at_reasonCode = (if se_route sel = None then Some (se_reason sel) else None)\<rparr>"

definition new_decision ::
  "ident \<Rightarrow> allocation_dto \<Rightarrow> version_view \<Rightarrow> time \<Rightarrow> decision_status \<Rightarrow> candidate_result list \<Rightarrow>
   selection \<Rightarrow> allocation_decision" where
  "new_decision newId dto pv now status cands sel =
     \<lparr>ad_id = newId, ad_applicationReference = dt_applicationReference dto,
      ad_policyId = vv_policyId pv, ad_policyVersionId = vv_id pv,
      ad_routeId = map_option mr_id (se_route sel),
      ad_lenderId = map_option mr_lenderId (se_route sel),
      ad_productId = map_option mr_productId (se_route sel),
      ad_productVersionId = selected_psv cands (se_route sel),
      ad_platformEvaluationReference = dt_platformEvaluationReference dto,
      ad_requestedAmount = dt_requestedAmount dto,
      ad_customerSegment =
        (if dt_customerSegment dto = '''' then ''ALL'' else dt_customerSegment dto),
      ad_platformDecisionOutcome =
        (if dt_platformDecisionOutcome dto = '''' then ''APPROVED''
         else dt_platformDecisionOutcome dto),
      ad_platformProductId = vv_platformProductId pv,
      ad_status = status, ad_decisionReasonCode = se_reason sel, ad_attemptCount = 1,
      ad_assignedAt = (if se_route sel = None then None else Some now),
      ad_attempts = [new_attempt (vv_id pv) 1 status (dt_requestedAmount dto) cands sel]\<rparr>"

text \<open>
  The new row of an update, with the attempt it creates; an \<open>undefined\<close> field of \<open>data\<close> leaves
  the column as it is. The attempts of a decision are unique by number, which
  \<open>write_decision\<close> checks.
\<close>

definition update_decision ::
  "int \<Rightarrow> allocation_dto \<Rightarrow> version_view \<Rightarrow> time \<Rightarrow> decision_status \<Rightarrow> candidate_result list \<Rightarrow>
   selection \<Rightarrow> allocation_decision \<Rightarrow> allocation_decision" where
  "update_decision n dto pv now status cands sel d =
     d\<lparr>ad_attemptCount := n,
       ad_routeId := (case se_route sel of None \<Rightarrow> ad_routeId d | Some r \<Rightarrow> Some (mr_id r)),
       ad_lenderId := (case se_route sel of None \<Rightarrow> ad_lenderId d | Some r \<Rightarrow> Some (mr_lenderId r)),
       ad_productId := (case se_route sel of None \<Rightarrow> ad_productId d | Some r \<Rightarrow> Some (mr_productId r)),
       ad_productVersionId := selected_psv cands (se_route sel),
       ad_status := status,
       ad_decisionReasonCode := se_reason sel,
       ad_assignedAt := (if se_route sel = None then None else Some now),
       ad_attempts := ad_attempts d @
         [new_attempt (vv_id pv) n status (dt_requestedAmount dto) cands sel]\<rparr>"

text \<open>
  The write of a decision \<open>seen\<close> earlier, on the table as it is now. Two unique indexes may
  refuse it: the application reference (and id) of a decision, and the pair of decision and
  attempt number of an attempt, whose number comes from the decision as it was seen.
\<close>

definition attempt_taken :: "ident \<Rightarrow> int \<Rightarrow> allocation_decision list \<Rightarrow> bool" where
  "attempt_taken decisionId n ds =
     list_ex (\<lambda>d. ad_id d = decisionId
       \<and> list_ex (\<lambda>a. at_attemptNumber a = n) (ad_attempts d)) ds"

definition write_decision ::
  "allocation_decision option \<Rightarrow> ident \<Rightarrow> allocation_dto \<Rightarrow> version_view \<Rightarrow> time \<Rightarrow>
   candidate_result list \<Rightarrow> selection \<Rightarrow> allocation_decision list \<Rightarrow>
   http_error + allocation_decision \<times> allocation_decision list" where
  "write_decision seen newId dto pv now cands sel ds =
     (let status = (if se_routeId sel \<noteq> None then D_ASSIGNED else D_NO_ELIGIBLE_ROUTE)
      in case seen of
           None \<Rightarrow>
             if list_ex (\<lambda>d. ad_id d = newId
                  \<or> ad_applicationReference d = dt_applicationReference dto) ds
             then Inl (DbError ''P2002'')
             else (let d = new_decision newId dto pv now status cands sel in Inr (d, ds @ [d]))
         | Some s \<Rightarrow>
             if attempt_taken (ad_id s) (ad_attemptCount s + 1) ds then Inl (DbError ''P2002'')
             else update_one ad_id (ad_id s) (\<lambda>d. True)
               (update_decision (ad_attemptCount s + 1) dto pv now status cands sel) ds)"

definition counted ::
  "rat option \<Rightarrow> time \<Rightarrow> bool \<Rightarrow> route_state \<Rightarrow> route_state" where
  "counted amount now hit s =
     s\<lparr>rs_allocatedApplicationCount := rs_allocatedApplicationCount s + (if hit then 1 else 0),
       rs_allocatedAmount := rs_allocatedAmount s
         + (case amount of None \<Rightarrow> 0 | Some a \<Rightarrow> if hit then a else 0),
       rs_lastAllocatedAt := (if hit then Some now else rs_lastAllocatedAt s),
       rs_version := rs_version s + 1\<rparr>"

fun write_states ::
  "ident \<Rightarrow> rat option \<Rightarrow> time \<Rightarrow> (ident \<times> rat) list \<Rightarrow> route_state list \<Rightarrow>
   http_error + route_state list" where
  "write_states sel amount now [] t = Inr t"
| "write_states sel amount now ((i, w) # ups) t =
     (case update_one rs_routeId i (\<lambda>s. True)
             (\<lambda>s. (counted amount now (i = sel) s)\<lparr>rs_currentWeight := w\<rparr>) t of
        Inl e \<Rightarrow> Inl e
      | Inr (s, t') \<Rightarrow> write_states sel amount now ups t')"

definition write_sticky ::
  "ident \<Rightarrow> rat option \<Rightarrow> time \<Rightarrow> route_state list \<Rightarrow> http_error + route_state list" where
  "write_sticky sel amount now t =
     (case update_one rs_routeId sel (\<lambda>s. True) (counted amount now True) t of
        Inl e \<Rightarrow> Inl e | Inr (s, t') \<Rightarrow> Inr t')"

definition write_selection ::
  "selection \<Rightarrow> allocation_dto \<Rightarrow> time \<Rightarrow> route_state list \<Rightarrow> http_error + route_state list" where
  "write_selection sel dto now t =
     (case se_routeId sel of
        None \<Rightarrow> Inr t
      | Some i \<Rightarrow>
          if dt_platformDecisionOutcome dto = ''PASS'' \<and> \<not> se_sticky sel
          then write_states i (dt_requestedAmount dto) now (se_updates sel) t
          else if se_sticky sel then write_sticky i (dt_requestedAmount dto) now t
          else Inr t)"

section \<open>The transaction\<close>

definition execute_after_read ::
  "allocation_decision option \<Rightarrow> ident \<Rightarrow> allocation_dto \<Rightarrow> version_view \<Rightarrow> time \<Rightarrow> engine_db \<Rightarrow>
   (http_error + allocation_decision) \<times> engine_db" where
  "execute_after_read seen newId dto pv now db =
     (if (case seen of None \<Rightarrow> False | Some d \<Rightarrow> ad_status d = D_ASSIGNED)
      then (Inr (the seen), db)
      else
        let cands = map (candidate_of db (vv_id pv) dto now) (filter mr_isActive (vv_routes pv));
            sel = select_route db dto now pv
        in case write_decision seen newId dto pv now cands sel (ed_decisions db) of
             Inl e \<Rightarrow> (Inl e, db)
           | Inr (d, ds) \<Rightarrow>
               (case write_selection sel dto now (ed_states db) of
                  Inl e \<Rightarrow> (Inl e, db)
                | Inr st \<Rightarrow> (Inr d, db\<lparr>ed_decisions := ds, ed_states := st\<rparr>)))"

definition find_decision :: "string \<Rightarrow> engine_db \<Rightarrow> allocation_decision option" where
  "find_decision ref db = find_unique ad_applicationReference ref (ed_decisions db)"

text \<open>The transaction when nothing happens between its read and its locks.\<close>

definition executeInternal ::
  "ident \<Rightarrow> allocation_dto \<Rightarrow> version_view \<Rightarrow> time \<Rightarrow> engine_db \<Rightarrow>
   (http_error + allocation_decision) \<times> engine_db" where
  "executeInternal newId dto pv now db =
     execute_after_read (find_decision (dt_applicationReference dto) db) newId dto pv now db"

section \<open>The retry loop\<close>

definition isRetryableError :: "http_error \<Rightarrow> bool" where
  "isRetryableError e \<longleftrightarrow>
     e = DbError ''P2034'' \<or> e = DbError ''ER_LOCK_DEADLOCK'' \<or> e = DbError ''ER_LOCK_WAIT_TIMEOUT''"

text \<open>
  \<open>execute\<close>: \<open>tx n\<close> is what the transaction of attempt \<open>n\<close> (from 0) returns or throws. The
  result is the value returned (\<open>None\<close> for \<open>undefined\<close>), with the number of transactions run.
\<close>

function execute_loop ::
  "nat \<Rightarrow> (nat \<Rightarrow> http_error + 'a) \<Rightarrow> nat \<Rightarrow> (http_error + 'a option) \<times> nat" where
  "execute_loop maxRetries tx attempts =
     (if attempts < maxRetries then
        case tx attempts of
          Inr d \<Rightarrow> (Inr (Some d), Suc attempts)
        | Inl e \<Rightarrow>
            if isRetryableError e \<and> Suc attempts < maxRetries
            then execute_loop maxRetries tx (Suc attempts)
            else if e = DbError ''P2002'' \<and> Suc attempts < maxRetries
            then execute_loop maxRetries tx (Suc attempts)
            else (Inl e, Suc attempts)
      else (Inr None, attempts))"
  by pat_completeness auto
termination
  by (relation "measure (\<lambda>(m, tx, a). m - a)") auto

declare execute_loop.simps [simp del]

definition mlm_execute :: "(nat \<Rightarrow> http_error + 'a) \<Rightarrow> (http_error + 'a option) \<times> nat" where
  "mlm_execute tx = execute_loop 3 tx 0"

section \<open>What the checks establish\<close>

text \<open>A route that passes: everything the engine requires of its lender and product.\<close>

definition route_ready ::
  "product_db \<Rightarrow> allocation_dto \<Rightarrow> time \<Rightarrow> mlm_route \<Rightarrow> ident \<Rightarrow> bool" where
  "route_ready cat dto now r psv \<longleftrightarrow>
     dt_platformDecisionOutcome dto = ''PASS''
     \<and> (\<exists>l. find_unique ln_id (mr_lenderId r) (pd_lenders cat) = Some l
          \<and> ln_operationalStatus l = ACTIVE \<and> ln_approvalStatus l = LApproved)
     \<and> (\<exists>p. find_unique lp_id (mr_productId r) (pd_products cat) = Some p
          \<and> lp_operationalStatus p = ACTIVE
          \<and> lp_platformProductId p = dt_platformProductId dto)
     \<and> (\<exists>v. effective_versions cat now r = [v] \<and> pv_id v = psv)
     \<and> amount_check (dt_requestedAmount dto) r = None"

lemma route_check_ready:
  "route_check cat dto now r = (None, psv) \<longleftrightarrow> (\<exists>i. psv = Some i \<and> route_ready cat dto now r i)"
  by (auto simp: route_check_def route_ready_def lender_check_def product_check_def
      split: option.splits list.splits if_splits)

lemma route_check_pass: "fst (route_check cat dto now r) = None \<longleftrightarrow> (\<exists>i. route_ready cat dto now r i)"
  by (metis route_check_ready fst_conv surj_pair)

lemma eligible_routes_ready:
  "r \<in> set (eligible_routes db dto now pv) \<longleftrightarrow>
     r \<in> set (vv_routes pv) \<and> mr_isActive r \<and> (\<exists>i. route_ready (ed_catalog db) dto now r i)"
  by (auto simp: eligible_routes_def route_check_pass)

lemma not_passed_no_route:
  "dt_platformDecisionOutcome dto \<noteq> ''PASS'' \<Longrightarrow> eligible_routes db dto now pv = []"
  by (simp add: eligible_routes_def route_check_def)

lemma find_distinct:
  "distinct (map key xs) \<Longrightarrow> x \<in> set xs \<Longrightarrow> List.find (\<lambda>y. key y = key x) xs = Some x"
  using find_unique_in_set [of key xs x] by (simp add: find_unique_def unique_keys_def)

text \<open>The three ways a selection ends.\<close>

lemma select_route_cases:
  assumes "distinct (map mr_id (vv_routes pv))"
  shows "(eligible_routes db dto now pv = [] \<and> se_routeId (select_route db dto now pv) = None
      \<and> se_route (select_route db dto now pv) = None)
    \<or> (\<exists>r\<in>set (eligible_routes db dto now pv).
        se_routeId (select_route db dto now pv) = Some (mr_id r)
        \<and> se_route (select_route db dto now pv) = Some r
        \<and> se_sticky (select_route db dto now pv)
        \<and> dt_stickyRouteHint dto = Some (mr_lenderId r, mr_productId r))
    \<or> (\<exists>r\<in>set (eligible_routes db dto now pv).
        se_routeId (select_route db dto now pv) = Some (mr_id r)
        \<and> se_route (select_route db dto now pv) = Some r
        \<and> \<not> se_sticky (select_route db dto now pv)
        \<and> se_reason (select_route db dto now pv) = ''ASSIGNED''
        \<and> selectedRouteId (selectNext (map (swrr_of (vv_id pv) (ed_states db))
             (eligible_routes db dto now pv))) = Some (mr_id r)
        \<and> se_updates (select_route db dto now pv) = updatedRoutes (selectNext
             (map (swrr_of (vv_id pv) (ed_states db)) (eligible_routes db dto now pv))))"
proof -
  let ?e = "eligible_routes db dto now pv"
  let ?s = "map (swrr_of (vv_id pv) (ed_states db)) ?e"
  consider "?e = []" | r where "?e \<noteq> []" "sticky_route (dt_stickyRouteHint dto) ?e = Some r"
    | "?e \<noteq> []" "sticky_route (dt_stickyRouteHint dto) ?e = None" by fastforce
  then show ?thesis
  proof cases
    case 1
    then show ?thesis by (simp add: select_route_def)
  next
    case 2
    then have "r \<in> set ?e \<and> dt_stickyRouteHint dto = Some (mr_lenderId r, mr_productId r)"
      by (auto simp: sticky_route_def find_Some_iff split: option.splits prod.splits)
    with 2 show ?thesis by (simp add: select_route_def Let_def)
  next
    case 3
    have "\<forall>x\<in>set ?s. sr_isEligible x" by (simp add: swrr_of_def)
    with 3(1) obtain i where i: "selectedRouteId (selectNext ?s) = Some i"
      using swrr.all_eligible_selects [of ?s] by auto
    from swrr.selected_known [OF i] obtain r where r: "r \<in> set ?e" "mr_id r = i"
      by (auto simp: swrr_of_def)
    then have "r \<in> set (vv_routes pv)" by (simp add: eligible_routes_ready)
    with assms r(2) have "List.find (\<lambda>r. mr_id r = i) (vv_routes pv) = Some r"
      using find_distinct [of mr_id "vv_routes pv" r] by simp
    with 3 i r show ?thesis by (auto simp: select_route_def Let_def)
  qed
qed

section \<open>What the writes do to the states\<close>

lemma sum_update_key:
  fixes g :: "'r \<Rightarrow> 'a::ab_group_add"
  assumes "unique_keys key t" and "find_unique key k t = Some r"
  shows "sum_list (map g (update_many (\<lambda>r. key r = k \<and> True) f t)) = sum_list (map g t) - g r + g (f r)"
  using assms
proof (induction t)
  case Nil
  then show ?case by simp
next
  case (Cons a t)
  show ?case
  proof (cases "key a = k")
    case True
    with Cons.prems have "k \<notin> key ` set t" by auto
    then have "update_many (\<lambda>r. key r = k \<and> True) f t = t"
      by (intro update_many_no_match) (auto simp: count_rows_zero_iff)
    with True Cons.prems(2) show ?thesis by (simp add: algebra_simps)
  next
    case False
    with Cons show ?thesis by (simp add: algebra_simps)
  qed
qed

abbreviation weights_total :: "route_state list \<Rightarrow> rat" where
  "weights_total t \<equiv> sum_list (map rs_currentWeight t)"

abbreviation count_total :: "route_state list \<Rightarrow> int" where
  "count_total t \<equiv> sum_list (map rs_allocatedApplicationCount t)"

abbreviation amount_total :: "route_state list \<Rightarrow> rat" where
  "amount_total t \<equiv> sum_list (map rs_allocatedAmount t)"

definition weight_of :: "route_state list \<Rightarrow> ident \<Rightarrow> rat" where
  "weight_of t i = (case find_unique rs_routeId i t of None \<Rightarrow> 0 | Some s \<Rightarrow> rs_currentWeight s)"

lemma counted_fields [simp]:
  "rs_routeId (counted amount now hit s) = rs_routeId s"
  "rs_mlmPolicyVersionId (counted amount now hit s) = rs_mlmPolicyVersionId s"
  "rs_currentWeight (counted amount now hit s) = rs_currentWeight s"
  "rs_allocatedApplicationCount (counted amount now hit s) =
     rs_allocatedApplicationCount s + (if hit then 1 else 0)"
  "rs_allocatedAmount (counted amount now hit s) =
     rs_allocatedAmount s + (case amount of None \<Rightarrow> 0 | Some a \<Rightarrow> if hit then a else 0)"
  by (simp_all add: counted_def)

text \<open>The loop writes every listed state once; a missing one aborts the transaction.\<close>

lemma write_states_map:
  assumes "unique_keys rs_routeId t" and "distinct (map fst ups)"
    and "write_states sel amount now ups t = Inr t'"
  shows "t' = map (\<lambda>s. case map_of ups (rs_routeId s) of
        None \<Rightarrow> s
      | Some w \<Rightarrow> (counted amount now (rs_routeId s = sel) s)\<lparr>rs_currentWeight := w\<rparr>) t"
  using assms
proof (induction ups arbitrary: t)
  case Nil
  then show ?case by simp
next
  case (Cons u ups)
  obtain i w where u: "u = (i, w)" by (cases u)
  let ?f = "\<lambda>s. (counted amount now (i = sel) s)\<lparr>rs_currentWeight := w\<rparr>"
  let ?t1 = "update_many (\<lambda>s. rs_routeId s = i \<and> True) ?f t"
  from Cons.prems(3) u have "write_states sel amount now ups ?t1 = Inr t'"
    by (auto simp: update_one_def split: option.splits)
  moreover have "unique_keys rs_routeId ?t1"
    using Cons.prems(1) by (simp add: unique_keys_update_many)
  ultimately have "t' = map (\<lambda>s. case map_of ups (rs_routeId s) of
        None \<Rightarrow> s
      | Some w \<Rightarrow> (counted amount now (rs_routeId s = sel) s)\<lparr>rs_currentWeight := w\<rparr>) ?t1"
    using Cons.prems(2) by (intro Cons.IH) simp_all
  moreover have "map_of ups i = None" using Cons.prems(2) u by (simp add: map_of_eq_None_iff)
  ultimately show ?case by (auto simp: u update_many_def)
qed

lemma write_states_totals:
  assumes "unique_keys rs_routeId t" and "distinct (map fst ups)"
    and "write_states sel amount now ups t = Inr t'"
  shows "weights_total t' = weights_total t + weight_sum ups - sum_list (map (weight_of t \<circ> fst) ups)
    \<and> count_total t' = count_total t + (if sel \<in> fst ` set ups then 1 else 0)
    \<and> amount_total t' = amount_total t
        + (case amount of None \<Rightarrow> 0 | Some a \<Rightarrow> if sel \<in> fst ` set ups then a else 0)"
  using assms
proof (induction ups arbitrary: t)
  case Nil
  then show ?case by (simp add: weight_sum_def split: option.split)
next
  case (Cons u ups)
  obtain i w where u: "u = (i, w)" by (cases u)
  let ?f = "\<lambda>s. (counted amount now (i = sel) s)\<lparr>rs_currentWeight := w\<rparr>"
  let ?t1 = "update_many (\<lambda>s. rs_routeId s = i \<and> True) ?f t"
  from Cons.prems(3) u obtain s where s: "find_unique rs_routeId i t = Some s"
    and wr: "write_states sel amount now ups ?t1 = Inr t'"
    by (auto simp: update_one_def split: option.splits)
  have u1: "unique_keys rs_routeId ?t1"
    using Cons.prems(1) by (simp add: unique_keys_update_many)
  have i: "i \<notin> fst ` set ups" and d: "distinct (map fst ups)"
    using Cons.prems(2) u by auto
  have keep: "weight_of ?t1 j = weight_of t j" if "j \<noteq> i" for j
    using that find_unique_Some_D [of rs_routeId j t]
    by (cases "find_unique rs_routeId j t") (auto simp: weight_of_def find_unique_update_many)
  have same: "sum_list (map (weight_of ?t1 \<circ> fst) ups) = sum_list (map (weight_of t \<circ> fst) ups)"
    using i keep by (intro arg_cong [where f = sum_list] map_cong refl) (auto simp: image_iff)
  have wi: "weight_of t i = rs_currentWeight s" using s by (simp add: weight_of_def)
  note upd = sum_update_key [OF Cons.prems(1) s, of _ ?f]
  have W1: "weights_total ?t1 = weights_total t - rs_currentWeight s + w"
    unfolding upd by simp
  have C1: "count_total ?t1 = count_total t + (if i = sel then 1 else 0)"
    unfolding upd by simp
  have A1: "amount_total ?t1 = amount_total t
      + (case amount of None \<Rightarrow> 0 | Some a \<Rightarrow> if i = sel then a else 0)"
    unfolding upd by (simp split: option.split)
  from Cons.IH [OF u1 d wr] have
    W: "weights_total t' = weights_total ?t1 + weight_sum ups - sum_list (map (weight_of ?t1 \<circ> fst) ups)"
    and C: "count_total t' = count_total ?t1 + (if sel \<in> fst ` set ups then 1 else 0)"
    and A: "amount_total t' = amount_total ?t1
        + (case amount of None \<Rightarrow> 0 | Some a \<Rightarrow> if sel \<in> fst ` set ups then a else 0)" by blast+
  have "weights_total t' = weights_total t + weight_sum (u # ups)
      - sum_list (map (weight_of t \<circ> fst) (u # ups))"
    unfolding W W1 same by (simp add: u wi weight_sum_def)
  moreover have "count_total t' = count_total t + (if sel \<in> fst ` set (u # ups) then 1 else 0)"
    unfolding C C1 using i by (auto simp: u)
  moreover have "amount_total t' = amount_total t
        + (case amount of None \<Rightarrow> 0 | Some a \<Rightarrow> if sel \<in> fst ` set (u # ups) then a else 0)"
    unfolding A A1 using i by (cases amount) (auto simp: u)
  ultimately show ?case by blast
qed

section \<open>A transaction that succeeds\<close>

text \<open>
  What the schema guarantees: unique ids, one state per route, states created for the version
  whose routes they belong to.
\<close>

definition engine_ok :: "version_view \<Rightarrow> engine_db \<Rightarrow> bool" where
  "engine_ok pv db \<longleftrightarrow>
     distinct (map mr_id (vv_routes pv))
     \<and> unique_keys rs_routeId (ed_states db)
     \<and> (\<forall>s\<in>set (ed_states db). rs_routeId s \<in> mr_id ` set (vv_routes pv) \<longrightarrow>
          rs_mlmPolicyVersionId s = vv_id pv)
     \<and> unique_keys ad_id (ed_decisions db)
     \<and> unique_keys ad_applicationReference (ed_decisions db)"

definition already_assigned :: "allocation_dto \<Rightarrow> engine_db \<Rightarrow> bool" where
  "already_assigned dto db \<longleftrightarrow>
     (\<exists>d. find_decision (dt_applicationReference dto) db = Some d \<and> ad_status d = D_ASSIGNED)"

lemma find_unique_filter:
  "(\<And>r. r \<in> set t \<Longrightarrow> key r = k \<Longrightarrow> P r) \<Longrightarrow> find_unique key k (filter P t) = find_unique key k t"
  by (induction t) auto

lemma locked_weight_of:
  assumes "engine_ok pv db" and "r \<in> set (vv_routes pv)"
  shows "locked_weight (vv_id pv) (ed_states db) r = weight_of (ed_states db) (mr_id r)"
proof -
  have "find_unique rs_routeId (mr_id r)
      (filter (\<lambda>s. rs_mlmPolicyVersionId s = vv_id pv) (ed_states db)) =
      find_unique rs_routeId (mr_id r) (ed_states db)"
    using assms by (intro find_unique_filter) (auto simp: engine_ok_def)
  then show ?thesis by (simp add: locked_weight_def weight_of_def)
qed

abbreviation all_candidates ::
  "engine_db \<Rightarrow> allocation_dto \<Rightarrow> time \<Rightarrow> version_view \<Rightarrow> candidate_result list" where
  "all_candidates db dto now pv \<equiv>
     map (candidate_of db (vv_id pv) dto now) (filter mr_isActive (vv_routes pv))"

lemma cr_routeId_candidate [simp]: "cr_routeId (candidate_of db v dto now r) = mr_id r"
  by (simp add: candidate_of_def case_prod_unfold Let_def)

lemma cr_psvId_candidate [simp]:
  "cr_psvId (candidate_of db v dto now r) = snd (route_check (ed_catalog db) dto now r)"
  by (simp add: candidate_of_def case_prod_unfold Let_def)

lemma execute_success:
  assumes "executeInternal newId dto pv now db = (Inr d, db')" and "\<not> already_assigned dto db"
  shows "\<exists>ds st. write_decision (find_decision (dt_applicationReference dto) db) newId dto pv now
        (all_candidates db dto now pv) (select_route db dto now pv) (ed_decisions db) = Inr (d, ds)
    \<and> write_selection (select_route db dto now pv) dto now (ed_states db) = Inr st
    \<and> db' = db\<lparr>ed_decisions := ds, ed_states := st\<rparr>"
  using assms
  by (auto simp: executeInternal_def execute_after_read_def Let_def already_assigned_def
      split: option.splits sum.splits if_splits)

lemma write_decision_fields:
  assumes "write_decision seen newId dto pv now cands sel ds = Inr (d, ds')"
  shows "ad_status d = (if se_routeId sel \<noteq> None then D_ASSIGNED else D_NO_ELIGIBLE_ROUTE)
    \<and> ad_decisionReasonCode d = se_reason sel
    \<and> ad_productVersionId d = selected_psv cands (se_route sel)
    \<and> (\<forall>r. se_route sel = Some r \<longrightarrow> ad_routeId d = Some (mr_id r)
          \<and> ad_lenderId d = Some (mr_lenderId r) \<and> ad_productId d = Some (mr_productId r))"
  using assms
  by (auto simp: write_decision_def new_decision_def update_decision_def Let_def update_one_Inr
      split: option.splits if_splits)

lemma selection_totals:
  assumes "engine_ok pv db"
    and "write_selection (select_route db dto now pv) dto now (ed_states db) = Inr st"
  shows "weights_total st = weights_total (ed_states db)
    \<and> count_total st = count_total (ed_states db)
        + (if se_routeId (select_route db dto now pv) \<noteq> None then 1 else 0)
    \<and> amount_total st = amount_total (ed_states db)
        + (if se_routeId (select_route db dto now pv) \<noteq> None
           then (case dt_requestedAmount dto of None \<Rightarrow> 0 | Some a \<Rightarrow> a) else 0)"
proof -
  let ?sel = "select_route db dto now pv"
  let ?e = "eligible_routes db dto now pv"
  let ?w = "swrr_of (vv_id pv) (ed_states db)"
  from assms(1) have uniq: "unique_keys rs_routeId (ed_states db)"
    and dist: "distinct (map mr_id (vv_routes pv))" by (simp_all add: engine_ok_def)
  from select_route_cases [OF dist, of db dto now] show ?thesis
  proof (elim disjE bexE conjE)
    assume "se_routeId ?sel = None"
    with assms(2) show ?thesis by (simp add: write_selection_def)
  next
    fix r assume r: "se_routeId ?sel = Some (mr_id r)" and sticky: "se_sticky ?sel"
    with assms(2) obtain s where s: "find_unique rs_routeId (mr_id r) (ed_states db) = Some s"
      "st = update_many (\<lambda>s. rs_routeId s = mr_id r \<and> True)
         (counted (dt_requestedAmount dto) now True) (ed_states db)"
      by (auto simp: write_selection_def write_sticky_def update_one_def split: option.splits)
    note upd = sum_update_key [OF uniq s(1), of _ "counted (dt_requestedAmount dto) now True"]
    show ?thesis unfolding s(2) upd using r by (simp split: option.split)
  next
    fix r assume e: "r \<in> set ?e" and r: "se_routeId ?sel = Some (mr_id r)"
      and plain: "\<not> se_sticky ?sel"
      and ups: "se_updates ?sel = updatedRoutes (selectNext (map ?w ?e))"
    from e have pass: "dt_platformDecisionOutcome dto = ''PASS''"
      by (auto simp: eligible_routes_ready route_ready_def)
    with assms(2) r plain have wr: "write_states (mr_id r) (dt_requestedAmount dto) now
        (se_updates ?sel) (ed_states db) = Inr st"
      by (simp add: write_selection_def)
    have fsts: "map fst (se_updates ?sel) = map mr_id ?e"
      unfolding ups swrr.same_routes by (simp add: swrr_of_def)
    have "distinct (map mr_id ?e)"
      using dist by (simp add: eligible_routes_def distinct_map_filter)
    with fsts have d: "distinct (map fst (se_updates ?sel))" by simp
    have hit: "mr_id r \<in> fst ` set (se_updates ?sel)"
      using e fsts by (metis image_eqI list.set_map)
    have "map (weight_of (ed_states db) \<circ> fst) (se_updates ?sel) =
        map (weight_of (ed_states db)) (map mr_id ?e)"
      unfolding fsts [symmetric] by simp
    also have "\<dots> = map sr_currentWeight (map ?w ?e)"
      using locked_weight_of [OF assms(1)]
      by (auto simp: swrr_of_def eligible_routes_ready)
    finally have "sum_list (map (weight_of (ed_states db) \<circ> fst) (se_updates ?sel)) =
        weight_sum (se_updates ?sel)"
      unfolding ups swrr.same_weight by simp
    with write_states_totals [OF uniq d wr] hit r show ?thesis
      by (simp split: option.split)
  qed
qed

text \<open>The decision that was written is the one found afterwards.\<close>

lemma find_decision_after:
  assumes "engine_ok pv db"
    and "write_decision (find_decision (dt_applicationReference dto) db) newId dto pv now cands sel
           (ed_decisions db) = Inr (d, ds)"
  shows "find_unique ad_applicationReference (dt_applicationReference dto) ds = Some d
    \<and> ad_attempts d \<noteq> []
    \<and> length ds = length (ed_decisions db)
        + (if find_decision (dt_applicationReference dto) db = None then 1 else 0)"
proof (cases "find_decision (dt_applicationReference dto) db")
  case None
  with assms(2) show ?thesis
    by (auto simp: write_decision_def Let_def find_unique_append find_decision_def
        new_decision_def split: if_splits)
next
  case (Some s)
  let ?f = "update_decision (ad_attemptCount s + 1) dto pv now
      (if se_routeId sel \<noteq> None then D_ASSIGNED else D_NO_ELIGIBLE_ROUTE) cands sel"
  from Some have f: "find_unique ad_applicationReference (dt_applicationReference dto) (ed_decisions db) = Some s"
    by (simp add: find_decision_def)
  then have "s \<in> set (ed_decisions db)" by (auto dest: find_unique_Some_D)
  with assms(1) have "find_unique ad_id (ad_id s) (ed_decisions db) = Some s"
    by (simp add: engine_ok_def find_unique_in_set)
  with assms(2) Some have d: "d = ?f s"
    and ds: "ds = update_many (\<lambda>r. ad_id r = ad_id s \<and> True) ?f (ed_decisions db)"
    by (auto simp: write_decision_def update_one_Inr Let_def split: if_splits)
  have "ad_applicationReference (?f r) = ad_applicationReference r" for r
    by (simp add: update_decision_def)
  then have "find_unique ad_applicationReference (dt_applicationReference dto) ds = Some (?f s)"
    unfolding ds by (subst find_unique_update_many) (simp_all add: f)
  with d ds Some show ?thesis by (simp add: update_decision_def)
qed

section \<open>Transactions that overlap\<close>

text \<open>
  A transaction that has read its decision is pending until it writes or fails. It writes in one
  step: the decision row and the states of the version are locked while it does. Meanwhile the
  activation of a policy version may create states, with zero counts, and others may change the
  lenders and products.
\<close>

type_synonym engine_pending = "allocation_decision option \<times> allocation_dto \<times> version_view"

inductive engine_step ::
  "engine_db \<times> engine_pending list \<Rightarrow> engine_db \<times> engine_pending list \<Rightarrow> bool" where
  e_read: "engine_step (db, ps)
    (db, (find_decision (dt_applicationReference dto) db, dto, pv) # ps)"
| e_write: "(seen, dto, pv) \<in> set ps \<Longrightarrow> engine_ok pv db \<Longrightarrow>
    engine_step (db, ps)
      (snd (execute_after_read seen newId dto pv now db), remove1 (seen, dto, pv) ps)"
| e_fail: "engine_step (db, ps) (db, remove1 p ps)"
| e_catalog: "engine_step (db, ps) (db\<lparr>ed_catalog := c\<rparr>, ps)"
| e_states: "rs_routeId s \<notin> rs_routeId ` set (ed_states db) \<Longrightarrow>
    rs_allocatedApplicationCount s = 0 \<Longrightarrow>
    engine_step (db, ps) (db\<lparr>ed_states := ed_states db @ [s]\<rparr>, ps)"

definition engine_run ::
  "engine_db \<times> engine_pending list \<Rightarrow> engine_db \<times> engine_pending list \<Rightarrow> bool" where
  "engine_run = engine_step\<^sup>*\<^sup>*"

text \<open>The specification: the same changes, each transaction run at once.\<close>

inductive serial_step :: "engine_db \<Rightarrow> engine_db \<Rightarrow> bool" where
  s_execute: "engine_ok pv db \<Longrightarrow> serial_step db (snd (executeInternal newId dto pv now db))"
| s_catalog: "serial_step db (db\<lparr>ed_catalog := c\<rparr>)"
| s_states: "rs_routeId s \<notin> rs_routeId ` set (ed_states db) \<Longrightarrow>
    rs_allocatedApplicationCount s = 0 \<Longrightarrow> serial_step db (db\<lparr>ed_states := ed_states db @ [s]\<rparr>)"

definition serial_run :: "engine_db \<Rightarrow> engine_db \<Rightarrow> bool" where
  "serial_run = serial_step\<^sup>*\<^sup>*"

text \<open>The attempts of a decision are numbered from 1 to the count the decision holds.\<close>

definition decisions_ok :: "allocation_decision list \<Rightarrow> bool" where
  "decisions_ok ds \<longleftrightarrow> unique_keys ad_id ds \<and> unique_keys ad_applicationReference ds
     \<and> (\<forall>d\<in>set ds. 0 < ad_attemptCount d \<and> at_attemptNumber ` set (ad_attempts d) = {1..ad_attemptCount d})"

text \<open>A decision that was seen is the row as it is, or the row has had more attempts since.\<close>

definition seen_ok :: "allocation_decision list \<Rightarrow> engine_pending \<Rightarrow> bool" where
  "seen_ok ds p \<longleftrightarrow> (case p of (seen, dto, pv) \<Rightarrow>
     (case seen of None \<Rightarrow> True
      | Some s \<Rightarrow> ad_applicationReference s = dt_applicationReference dto
          \<and> (\<exists>d\<in>set ds. ad_id d = ad_id s
               \<and> (d = s \<or> (0 < ad_attemptCount s \<and> ad_attemptCount s < ad_attemptCount d)))))"

definition engine_inv :: "engine_db \<times> engine_pending list \<Rightarrow> bool" where
  "engine_inv x \<longleftrightarrow> decisions_ok (ed_decisions (fst x))
     \<and> (\<forall>p\<in>set (snd x). seen_ok (ed_decisions (fst x)) p)"

text \<open>A write with a stale decision fails; any other is the transaction run at once.\<close>

lemma stale_write_refused:
  assumes "decisions_ok (ed_decisions db)" and "seen_ok (ed_decisions db) (seen, dto, pv)"
    and "seen \<noteq> find_decision (dt_applicationReference dto) db"
  shows "snd (execute_after_read seen newId dto pv now db) = db"
proof (cases seen)
  case None
  with assms(3) obtain d where "find_decision (dt_applicationReference dto) db = Some d"
    by (cases "find_decision (dt_applicationReference dto) db") auto
  then have "d \<in> set (ed_decisions db)" "ad_applicationReference d = dt_applicationReference dto"
    by (auto simp: find_decision_def dest: find_unique_Some_D)
  then have "list_ex (\<lambda>d. ad_id d = newId
      \<or> ad_applicationReference d = dt_applicationReference dto) (ed_decisions db)"
    by (auto simp: list_ex_iff)
  with None show ?thesis by (simp add: execute_after_read_def write_decision_def Let_def)
next
  case (Some s)
  with assms(2) obtain d where d: "d \<in> set (ed_decisions db)" "ad_id d = ad_id s"
    "d = s \<or> (0 < ad_attemptCount s \<and> ad_attemptCount s < ad_attemptCount d)"
    and ref: "ad_applicationReference s = dt_applicationReference dto"
    by (auto simp: seen_ok_def)
  have "d \<noteq> s"
  proof
    assume "d = s"
    with d ref assms(1) have "find_decision (dt_applicationReference dto) db = Some s"
      unfolding find_decision_def decisions_ok_def by (metis find_unique_in_set)
    with Some assms(3) show False by simp
  qed
  with d(3) have "0 < ad_attemptCount s" "ad_attemptCount s < ad_attemptCount d" by simp_all
  then have "ad_attemptCount s + 1 \<in> {1..ad_attemptCount d}" by simp
  with assms(1) d(1) have "ad_attemptCount s + 1 \<in> at_attemptNumber ` set (ad_attempts d)"
    by (simp add: decisions_ok_def)
  then obtain a where "a \<in> set (ad_attempts d)" "at_attemptNumber a = ad_attemptCount s + 1"
    by (metis imageE)
  with d(1,2) have "attempt_taken (ad_id s) (ad_attemptCount s + 1) (ed_decisions db)"
    unfolding attempt_taken_def list_ex_iff by blast
  with Some show ?thesis by (simp add: execute_after_read_def write_decision_def Let_def)
qed

lemma write_is_serial:
  assumes "decisions_ok (ed_decisions db)" and "seen_ok (ed_decisions db) (seen, dto, pv)"
    and "engine_ok pv db"
  shows "serial_step\<^sup>*\<^sup>* db (snd (execute_after_read seen newId dto pv now db))"
proof (cases "seen = find_decision (dt_applicationReference dto) db")
  case True
  then show ?thesis
    using s_execute [OF assms(3), of newId dto now] by (simp add: executeInternal_def)
next
  case False
  with stale_write_refused [OF assms(1,2)] show ?thesis by simp
qed

text \<open>What a transaction that runs at once does to the decisions.\<close>

definition later_decisions :: "allocation_decision list \<Rightarrow> allocation_decision list \<Rightarrow> bool" where
  "later_decisions ds ds' \<longleftrightarrow> (\<forall>d\<in>set ds. \<exists>d'\<in>set ds'. ad_id d' = ad_id d
     \<and> (d' = d \<or> (ad_status d \<noteq> D_ASSIGNED \<and> ad_attemptCount d < ad_attemptCount d')))"

lemma later_decisions_refl: "later_decisions ds ds"
  by (auto simp: later_decisions_def)

lemma seen_ok_later:
  assumes "decisions_ok ds" and "seen_ok ds p" and "later_decisions ds ds'"
  shows "seen_ok ds' p"
proof -
  obtain seen dto pv where p: "p = (seen, dto, pv)" by (cases p)
  show ?thesis
  proof (cases seen)
    case None
    then show ?thesis by (simp add: p seen_ok_def)
  next
    case (Some s)
    with assms(2) p obtain d where d: "d \<in> set ds" "ad_id d = ad_id s"
      "d = s \<or> (0 < ad_attemptCount s \<and> ad_attemptCount s < ad_attemptCount d)"
      and ref: "ad_applicationReference s = dt_applicationReference dto"
      by (auto simp: seen_ok_def)
    from assms(3) d(1) obtain d' where d': "d' \<in> set ds'" "ad_id d' = ad_id d"
      "d' = d \<or> ad_attemptCount d < ad_attemptCount d'" by (auto simp: later_decisions_def)
    have "0 < ad_attemptCount d" using assms(1) d(1) by (simp add: decisions_ok_def)
    with d d' have "d' = s \<or> (0 < ad_attemptCount s \<and> ad_attemptCount s < ad_attemptCount d')"
      by auto
    with d d' ref Some show ?thesis by (auto simp: p seen_ok_def)
  qed
qed

text \<open>A transaction adds a decision, or replaces the unassigned one it found.\<close>

lemma execute_decisions:
  assumes ok: "decisions_ok (ed_decisions db)"
    and ex: "executeInternal newId dto pv now db = (Inr d, db')" and new: "\<not> already_assigned dto db"
  shows "decisions_ok (ed_decisions db') \<and> later_decisions (ed_decisions db) (ed_decisions db')
    \<and> int (count_rows (\<lambda>d. ad_status d = D_ASSIGNED) (ed_decisions db')) =
        int (count_rows (\<lambda>d. ad_status d = D_ASSIGNED) (ed_decisions db))
        + (if ad_status d = D_ASSIGNED then 1 else 0)"
proof -
  let ?ds = "ed_decisions db" and ?ref = "dt_applicationReference dto"
  let ?sel = "select_route db dto now pv" and ?cands = "all_candidates db dto now pv"
  let ?st = "if se_routeId ?sel \<noteq> None then D_ASSIGNED else D_NO_ELIGIBLE_ROUTE"
  from execute_success [OF ex new] obtain ds where
    w: "write_decision (find_decision ?ref db) newId dto pv now ?cands ?sel ?ds = Inr (d, ds)"
    and ds: "ed_decisions db' = ds" by auto
  show ?thesis
  proof (cases "find_decision ?ref db")
    case None
    with w have d: "d = new_decision newId dto pv now ?st ?cands ?sel" "ds = ?ds @ [d]"
      and fresh: "\<forall>e\<in>set ?ds. ad_id e \<noteq> newId \<and> ad_applicationReference e \<noteq> ?ref"
      by (auto simp: write_decision_def Let_def list_ex_iff split: if_splits)
    have f: "ad_id d = newId" "ad_applicationReference d = ?ref" "ad_attemptCount d = 1"
      "at_attemptNumber ` set (ad_attempts d) = {1..1}"
      unfolding d(1) by (simp_all add: new_decision_def new_attempt_def)
    have "decisions_ok ds" using ok fresh f unfolding d(2) by (auto simp: decisions_ok_def)
    moreover have "later_decisions ?ds ds" unfolding d(2) by (auto simp: later_decisions_def)
    ultimately show ?thesis by (simp add: ds d(2) count_rows_def)
  next
    case (Some s)
    let ?f = "update_decision (ad_attemptCount s + 1) dto pv now ?st ?cands ?sel"
    from Some have s: "s \<in> set ?ds" "ad_applicationReference s = ?ref"
      by (auto simp: find_decision_def dest: find_unique_Some_D)
    with ok have u: "find_unique ad_id (ad_id s) ?ds = Some s"
      and uid: "unique_keys ad_id ?ds" and n: "0 < ad_attemptCount s"
        "at_attemptNumber ` set (ad_attempts s) = {1..ad_attemptCount s}"
      by (simp_all add: decisions_ok_def find_unique_in_set)
    from w Some u have d: "d = ?f s" and
      dsu: "ds = update_many (\<lambda>r. ad_id r = ad_id s \<and> True) ?f ?ds"
      by (auto simp: write_decision_def Let_def update_one_Inr split: if_splits)
    have keys: "ad_id (?f r) = ad_id r" "ad_applicationReference (?f r) = ad_applicationReference r" for r
      by (simp_all add: update_decision_def)
    have only: "r = s" if "r \<in> set ?ds" "ad_id r = ad_id s" for r
      using that u uid by (metis find_unique_in_set option.inject)
    have rows: "r' \<in> set ds \<longleftrightarrow> (r' \<in> set ?ds \<and> r' \<noteq> s) \<or> r' = ?f s" for r'
      unfolding dsu using only s(1) keys by (auto simp: set_update_many)
    have fs: "ad_attemptCount (?f s) = ad_attemptCount s + 1"
      "at_attemptNumber ` set (ad_attempts (?f s)) = {1..ad_attemptCount s + 1}"
      using n by (auto simp: update_decision_def new_attempt_def)
    have "unique_keys ad_id ds" "unique_keys ad_applicationReference ds"
      using ok keys unfolding dsu decisions_ok_def by (simp_all add: unique_keys_update_many)
    moreover have "0 < ad_attemptCount r \<and> at_attemptNumber ` set (ad_attempts r) = {1..ad_attemptCount r}"
      if "r \<in> set ds" for r
    proof (cases "r = ?f s")
      case True
      with fs n(1) show ?thesis by simp
    next
      case False
      with that rows have "r \<in> set ?ds" by blast
      with ok show ?thesis unfolding decisions_ok_def by blast
    qed
    ultimately have "decisions_ok ds" by (simp add: decisions_ok_def)
    moreover have ns: "ad_status s \<noteq> D_ASSIGNED" using new Some by (simp add: already_assigned_def)
    have "later_decisions ?ds ds"
      unfolding later_decisions_def
    proof
      fix r assume r: "r \<in> set ?ds"
      show "\<exists>r'\<in>set ds. ad_id r' = ad_id r
          \<and> (r' = r \<or> (ad_status r \<noteq> D_ASSIGNED \<and> ad_attemptCount r < ad_attemptCount r'))"
      proof (cases "r = s")
        case True
        with ns fs(1) keys show ?thesis by (intro bexI [of _ "?f s"]) (simp_all add: rows)
      next
        case False
        with r show ?thesis by (intro bexI [of _ r]) (simp_all add: rows)
      qed
    qed
    moreover have cnt: "int (count_rows (\<lambda>d. ad_status d = D_ASSIGNED) t) =
        sum_list (map (\<lambda>d. if ad_status d = D_ASSIGNED then 1 else 0) t)" for t
      by (induction t) auto
    have "int (count_rows (\<lambda>d. ad_status d = D_ASSIGNED) ds) =
        int (count_rows (\<lambda>d. ad_status d = D_ASSIGNED) ?ds)
        + (if ad_status d = D_ASSIGNED then 1 else 0)"
      unfolding cnt dsu by (subst sum_update_key [OF uid u]) (simp add: ns d)
    ultimately show ?thesis by (simp add: ds)
  qed
qed

lemma execute_assigned_same:
  "already_assigned dto db \<Longrightarrow> snd (executeInternal newId dto pv now db) = db"
  by (auto simp: already_assigned_def executeInternal_def execute_after_read_def)

lemma execute_failed_same:
  "executeInternal newId dto pv now db = (Inl e, db') \<Longrightarrow> db' = db"
  by (auto simp: executeInternal_def execute_after_read_def Let_def split: option.splits if_splits sum.splits)

definition counts_match :: "engine_db \<Rightarrow> int" where
  "counts_match db = count_total (ed_states db)
     - int (count_rows (\<lambda>d. ad_status d = D_ASSIGNED) (ed_decisions db))"

lemma serial_step_keeps:
  assumes "serial_step db db'" and "decisions_ok (ed_decisions db)"
  shows "decisions_ok (ed_decisions db') \<and> later_decisions (ed_decisions db) (ed_decisions db')
    \<and> counts_match db' = counts_match db"
  using assms
proof (cases rule: serial_step.cases)
  case (s_execute pv newId dto now)
  obtain res db2 where ex: "executeInternal newId dto pv now db = (res, db2)"
    by (cases "executeInternal newId dto pv now db")
  show ?thesis
  proof (cases "already_assigned dto db")
    case True
    with s_execute(1) assms(2) show ?thesis by (simp add: execute_assigned_same later_decisions_refl)
  next
    case new: False
    show ?thesis
    proof (cases res)
      case (Inl e)
      with execute_failed_same [OF ex [unfolded Inl]] s_execute(1) ex assms(2) show ?thesis
        by (simp add: later_decisions_refl)
    next
      case (Inr d)
      note ex' = ex [unfolded Inr]
      from execute_success [OF ex' new] obtain ds st where
        w: "write_decision (find_decision (dt_applicationReference dto) db) newId dto pv now
          (all_candidates db dto now pv) (select_route db dto now pv) (ed_decisions db) = Inr (d, ds)"
        and st: "write_selection (select_route db dto now pv) dto now (ed_states db) = Inr st"
        and db2: "db2 = db\<lparr>ed_decisions := ds, ed_states := st\<rparr>" by blast
      from write_decision_fields [OF w]
      have "ad_status d = D_ASSIGNED \<longleftrightarrow> se_routeId (select_route db dto now pv) \<noteq> None" by auto
      with selection_totals [OF s_execute(2) st] db2
      have "count_total (ed_states db2) =
          count_total (ed_states db) + (if ad_status d = D_ASSIGNED then 1 else 0)" by simp
      with execute_decisions [OF assms(2) ex' new] s_execute(1) ex show ?thesis
        by (simp add: counts_match_def)
    qed
  qed
qed (simp_all add: later_decisions_refl counts_match_def)

lemma serial_run_keeps:
  assumes "serial_run db db'" and "decisions_ok (ed_decisions db)"
  shows "decisions_ok (ed_decisions db')
    \<and> (\<forall>d\<in>set (ed_decisions db). ad_status d = D_ASSIGNED \<longrightarrow> d \<in> set (ed_decisions db'))
    \<and> count_total (ed_states db') = count_total (ed_states db)
        - int (count_rows (\<lambda>d. ad_status d = D_ASSIGNED) (ed_decisions db))
        + int (count_rows (\<lambda>d. ad_status d = D_ASSIGNED) (ed_decisions db'))"
  using assms unfolding serial_run_def
proof (induction rule: rtranclp_induct)
  case base
  then show ?case by simp
next
  case (step db1 db2)
  from step.IH [OF step.prems] have ok: "decisions_ok (ed_decisions db1)" by blast
  from serial_step_keeps [OF step.hyps(2) ok] step.IH [OF step.prems] show ?case
    by (auto simp: counts_match_def later_decisions_def)
qed

lemma serial_run_later:
  assumes "serial_run db db'" and "decisions_ok (ed_decisions db)" and "seen_ok (ed_decisions db) p"
  shows "seen_ok (ed_decisions db') p"
  using assms(1) unfolding serial_run_def
proof (induction rule: rtranclp_induct)
  case base
  from assms(3) show ?case .
next
  case (step db1 db2)
  from serial_run_keeps [of db db1] step.hyps(1) assms(2)
  have "decisions_ok (ed_decisions db1)" by (simp add: serial_run_def)
  with serial_step_keeps [OF step.hyps(2)] seen_ok_later step.IH show ?case by blast
qed

text \<open>The refinement: every step of the overlapping run is a serial run of its tables.\<close>

lemma engine_step_serial:
  assumes "engine_step x y" and "engine_inv x"
  shows "engine_inv y \<and> serial_run (fst x) (fst y)"
proof -
  from assms have run: "serial_run (fst x) (fst y)"
  proof (cases rule: engine_step.cases)
    case (e_write seen dto pv ps db newId now)
    with assms(2) write_is_serial [of db seen dto pv newId now] show ?thesis
      by (simp add: engine_inv_def serial_run_def)
  qed (auto simp: serial_run_def intro: s_catalog s_states)
  have new: "p \<in> set (snd x) \<or> seen_ok (ed_decisions (fst x)) p" if "p \<in> set (snd y)" for p
    using assms(1) that
  proof (cases rule: engine_step.cases)
    case (e_read db ps dto pv)
    have "seen_ok (ed_decisions db) (find_decision (dt_applicationReference dto) db, dto, pv)"
      unfolding seen_ok_def
      by (auto simp: find_decision_def dest!: find_unique_Some_D split: option.split)
    with e_read that show ?thesis by auto
  qed (use that set_remove1_subset in fastforce)+
  have ok: "decisions_ok (ed_decisions (fst x))" using assms(2) by (simp add: engine_inv_def)
  have "seen_ok (ed_decisions (fst y)) p" if "p \<in> set (snd y)" for p
  proof -
    from new [OF that] have "seen_ok (ed_decisions (fst x)) p"
      using assms(2) unfolding engine_inv_def by blast
    then show ?thesis by (rule serial_run_later [OF run ok])
  qed
  with serial_run_keeps [OF run ok] run show ?thesis by (simp add: engine_inv_def)
qed

lemma engine_run_serial:
  assumes "engine_run x y" and "engine_inv x"
  shows "engine_inv y \<and> serial_run (fst x) (fst y)"
  using assms(1) unfolding engine_run_def
proof (induction rule: rtranclp_induct)
  case base
  with assms(2) show ?case by (simp add: serial_run_def)
next
  case (step y z)
  from engine_step_serial [OF step.hyps(2)] step.IH show ?case
    unfolding serial_run_def by (meson rtranclp_trans)
qed

section \<open>The retry loop\<close>

lemma execute_loop_bounds:
  assumes "attempts < m" and "execute_loop m tx attempts = (res, n)"
  shows "attempts < n \<and> n \<le> m
    \<and> (\<forall>k. attempts \<le> k \<and> k < n - 1 \<longrightarrow>
         (\<exists>e. tx k = Inl e \<and> (isRetryableError e \<or> e = DbError ''P2002'')))
    \<and> (case tx (n - 1) of
          Inr d \<Rightarrow> res = Inr (Some d)
        | Inl e \<Rightarrow> res = Inl e \<and> (n = m \<or> \<not> isRetryableError e \<and> e \<noteq> DbError ''P2002''))"
  using assms
proof (induction m tx attempts rule: execute_loop.induct)
  case (1 m tx attempts)
  show ?case
  proof (cases "tx attempts")
    case (Inr d)
    with 1(3,4) show ?thesis by (auto simp: execute_loop.simps [of m tx attempts])
  next
    case (Inl e)
    show ?thesis
    proof (cases "(isRetryableError e \<or> e = DbError ''P2002'') \<and> Suc attempts < m")
      case False
      with Inl 1(3,4) have "res = Inl e \<and> n = Suc attempts"
        by (auto simp: execute_loop.simps [of m tx attempts] split: if_splits)
      with False Inl 1(3) show ?thesis by auto
    next
      case True
      with Inl 1(3,4) have loop: "execute_loop m tx (Suc attempts) = (res, n)"
        by (auto simp: execute_loop.simps [of m tx attempts] split: if_splits)
      from True Inl loop 1 have IH: "Suc attempts < n \<and> n \<le> m
        \<and> (\<forall>k. Suc attempts \<le> k \<and> k < n - 1 \<longrightarrow>
             (\<exists>e. tx k = Inl e \<and> (isRetryableError e \<or> e = DbError ''P2002'')))
        \<and> (case tx (n - 1) of
              Inr d \<Rightarrow> res = Inr (Some d)
            | Inl e \<Rightarrow> res = Inl e \<and> (n = m \<or> \<not> isRetryableError e \<and> e \<noteq> DbError ''P2002''))"
        by (cases "isRetryableError e") auto
      have "\<exists>e. tx k = Inl e \<and> (isRetryableError e \<or> e = DbError ''P2002'')"
        if "attempts \<le> k \<and> k < n - 1" for k
      proof (cases "k = attempts")
        case True
        with Inl \<open>(isRetryableError e \<or> e = DbError ''P2002'') \<and> Suc attempts < m\<close>
        show ?thesis by blast
      next
        case False
        with that IH show ?thesis by simp
      qed
      with IH show ?thesis by simp
    qed
  qed
qed

section \<open>A sequence of allocations\<close>

text \<open>Applications handled one after another: the route each got.\<close>

fun allocate_all ::
  "version_view \<Rightarrow> (ident \<times> allocation_dto \<times> time) list \<Rightarrow> engine_db \<Rightarrow>
   (http_error + ident option) list \<times> engine_db" where
  "allocate_all pv [] db = ([], db)"
| "allocate_all pv ((newId, dto, now) # reqs) db =
     (case executeInternal newId dto pv now db of
        (res, db1) \<Rightarrow>
          (case allocate_all pv reqs db1 of
             (out, db2) \<Rightarrow> (map_sum id ad_routeId res # out, db2)))"

text \<open>Requests that find every route ready, without a sticky hint, for new applications.\<close>

definition plain_request ::
  "version_view \<Rightarrow> engine_db \<Rightarrow> ident \<times> allocation_dto \<times> time \<Rightarrow> bool" where
  "plain_request pv db q \<longleftrightarrow>
     (case q of (newId, dto, now) \<Rightarrow>
        dt_stickyRouteHint dto = None
        \<and> (\<forall>r\<in>set (vv_routes pv). fst (route_check (ed_catalog db) dto now r) = None)
        \<and> newId \<notin> ad_id ` set (ed_decisions db)
        \<and> dt_applicationReference dto \<notin> ad_applicationReference ` set (ed_decisions db))"

definition routes_with_state :: "version_view \<Rightarrow> engine_db \<Rightarrow> bool" where
  "routes_with_state pv db \<longleftrightarrow>
     (\<forall>r\<in>set (vv_routes pv). mr_isActive r \<and> mr_id r \<in> rs_routeId ` set (ed_states db))"

abbreviation swrr_view :: "version_view \<Rightarrow> engine_db \<Rightarrow> swrr_route list" where
  "swrr_view pv db \<equiv> map (swrr_of (vv_id pv) (ed_states db)) (vv_routes pv)"

lemma find_unique_map:
  "(\<And>r. key (g r) = key r) \<Longrightarrow> find_unique key k (map g t) = map_option g (find_unique key k t)"
  by (induction t) auto

lemma weight_of_map:
  fixes g :: "route_state \<Rightarrow> route_state"
  assumes "\<And>s. rs_routeId (g s) = rs_routeId s" and "find_unique rs_routeId i t = Some s"
  shows "weight_of (map g t) i = rs_currentWeight (g s)"
proof -
  have "find_unique rs_routeId i (map g t) = map_option g (find_unique rs_routeId i t)"
    by (rule find_unique_map) (rule assms(1))
  with assms(2) show ?thesis by (simp add: weight_of_def)
qed

lemma write_states_total:
  "unique_keys rs_routeId t \<Longrightarrow> fst ` set ups \<subseteq> rs_routeId ` set t \<Longrightarrow>
   \<exists>t'. write_states sel amount now ups t = Inr t'"
proof (induction ups arbitrary: t)
  case Nil
  then show ?case by simp
next
  case (Cons u ups)
  obtain i w where u: "u = (i, w)" by (cases u)
  let ?f = "\<lambda>s. (counted amount now (i = sel) s)\<lparr>rs_currentWeight := w\<rparr>"
  let ?t1 = "update_many (\<lambda>s. rs_routeId s = i \<and> True) ?f t"
  from Cons.prems(2) u obtain s where s: "find_unique rs_routeId i t = Some s"
    by (cases "find_unique rs_routeId i t") (auto simp: find_unique_None_iff)
  have "map rs_routeId ?t1 = map rs_routeId t" by (rule map_key_update_many) simp
  then have keys: "rs_routeId ` set ?t1 = rs_routeId ` set t" by (metis list.set_map)
  have "unique_keys rs_routeId ?t1" using Cons.prems(1) by (simp add: unique_keys_update_many)
  from Cons.IH [OF this] keys Cons.prems(2)
  have "\<exists>t'. write_states sel amount now ups ?t1 = Inr t'" by simp
  then show ?case by (simp add: u update_one_def s)
qed

lemma allocation_step:
  assumes ok: "engine_ok pv db" and st: "routes_with_state pv db" and ne: "vv_routes pv \<noteq> []"
    and req: "plain_request pv db (newId, dto, now)"
  shows "\<exists>d db'. executeInternal newId dto pv now db = (Inr d, db')
    \<and> (\<exists>i. selectedRouteId (selectNext (swrr_view pv db)) = Some i \<and> ad_routeId d = Some i)
    \<and> engine_ok pv db' \<and> routes_with_state pv db'
    \<and> swrr_view pv db' = apply_updates (updatedRoutes (selectNext (swrr_view pv db))) (swrr_view pv db)
    \<and> ed_catalog db' = ed_catalog db \<and> ed_decisions db' = ed_decisions db @ [d]
    \<and> ad_id d = newId \<and> ad_applicationReference d = dt_applicationReference dto"
proof -
  let ?S = "swrr_view pv db"
  let ?sel = "select_route db dto now pv"
  from req have hint: "dt_stickyRouteHint dto = None"
    and ready: "\<forall>r\<in>set (vv_routes pv). fst (route_check (ed_catalog db) dto now r) = None"
    and fresh: "newId \<notin> ad_id ` set (ed_decisions db)"
      "dt_applicationReference dto \<notin> ad_applicationReference ` set (ed_decisions db)"
    by (auto simp: plain_request_def)
  have el: "eligible_routes db dto now pv = vv_routes pv"
    using ready st by (simp add: eligible_routes_def routes_with_state_def filter_id_conv)
  from ok have uniq: "unique_keys rs_routeId (ed_states db)"
    and dist: "distinct (map mr_id (vv_routes pv))" by (simp_all add: engine_ok_def)
  from select_route_cases [OF dist, of db dto now] ne hint el obtain r where
    r: "r \<in> set (vv_routes pv)" "se_routeId ?sel = Some (mr_id r)" "se_route ?sel = Some r"
      "\<not> se_sticky ?sel" "selectedRouteId (selectNext ?S) = Some (mr_id r)"
      "se_updates ?sel = updatedRoutes (selectNext ?S)"
    by auto
  have pass: "dt_platformDecisionOutcome dto = ''PASS''"
    using not_passed_no_route [of dto db now pv] el ne by auto
  let ?ups = "updatedRoutes (selectNext ?S)"
  have fsts: "map fst ?ups = map mr_id (vv_routes pv)"
    unfolding swrr.same_routes by (simp add: swrr_of_def)
  then have dups: "distinct (map fst ?ups)" using dist by simp
  have "fst ` set ?ups = mr_id ` set (vv_routes pv)" using fsts by (metis list.set_map)
  then have "fst ` set ?ups \<subseteq> rs_routeId ` set (ed_states db)"
    using st by (auto simp: routes_with_state_def)
  from write_states_total [OF uniq this] obtain t' where
    wr: "write_states (mr_id r) (dt_requestedAmount dto) now ?ups (ed_states db) = Inr t'" by blast
  let ?g = "\<lambda>s. case map_of ?ups (rs_routeId s) of
        None \<Rightarrow> s
      | Some w \<Rightarrow> (counted (dt_requestedAmount dto) now (rs_routeId s = mr_id r) s)\<lparr>rs_currentWeight := w\<rparr>"
  from write_states_map [OF uniq dups wr] have t': "t' = map ?g (ed_states db)" .
  have keep: "rs_routeId (?g s) = rs_routeId s"
    "rs_mlmPolicyVersionId (?g s) = rs_mlmPolicyVersionId s" for s
    by (simp_all split: option.split)
  let ?d = "new_decision newId dto pv now D_ASSIGNED (all_candidates db dto now pv) ?sel"
  let ?db' = "db\<lparr>ed_decisions := ed_decisions db @ [?d], ed_states := t'\<rparr>"
  have "find_decision (dt_applicationReference dto) db = None"
    using fresh(2) by (simp add: find_decision_def find_unique_None_iff)
  moreover have "\<not> list_ex (\<lambda>d. ad_id d = newId
      \<or> ad_applicationReference d = dt_applicationReference dto) (ed_decisions db)"
    using fresh by (auto simp: list_ex_iff image_iff)
  ultimately have exec: "executeInternal newId dto pv now db = (Inr ?d, ?db')"
    using r pass wr by (simp add: executeInternal_def execute_after_read_def write_decision_def
        write_selection_def Let_def)
  have d: "ad_id ?d = newId" "ad_applicationReference ?d = dt_applicationReference dto"
    "ad_routeId ?d = Some (mr_id r)"
    using r(3) by (simp_all add: new_decision_def)
  have ok': "engine_ok pv ?db'"
    using ok fresh d keep unfolding engine_ok_def
    by (auto simp: t' unique_keys_def comp_def simp del: option.case_eq_if)
  have ids: "rs_routeId ` set t' = rs_routeId ` set (ed_states db)"
    unfolding t' set_map image_image keep ..
  have new: "weight_of t' i = (case map_of ?ups i of None \<Rightarrow> weight_of (ed_states db) i | Some w \<Rightarrow> w)"
    if "i \<in> rs_routeId ` set (ed_states db)" for i
  proof -
    from that obtain s where s: "find_unique rs_routeId i (ed_states db) = Some s"
      by (cases "find_unique rs_routeId i (ed_states db)") (auto simp: find_unique_None_iff)
    then have i: "rs_routeId s = i" by (auto dest: find_unique_Some_D)
    have "weight_of t' i = rs_currentWeight (?g s)"
      unfolding t' by (rule weight_of_map [OF keep(1) s])
    moreover have "weight_of (ed_states db) i = rs_currentWeight s"
      by (simp only: weight_of_def s option.case)
    ultimately show ?thesis unfolding i by (cases "map_of ?ups i") simp_all
  qed
  have "swrr_of (vv_id pv) t' q = (case map_of ?ups (sr_id (swrr_of (vv_id pv) (ed_states db) q)) of
      Some w \<Rightarrow> (swrr_of (vv_id pv) (ed_states db) q)\<lparr>sr_currentWeight := w\<rparr>
    | None \<Rightarrow> swrr_of (vv_id pv) (ed_states db) q)" if "q \<in> set (vv_routes pv)" for q
    using that locked_weight_of [OF ok' that] locked_weight_of [OF ok that] new [of "mr_id q"] st
    by (simp add: swrr_of_def routes_with_state_def split: option.split)
  then have "swrr_view pv ?db' = apply_updates ?ups ?S"
    by (simp add: apply_updates_def)
  moreover have "routes_with_state pv ?db'"
    using st ids by (simp add: routes_with_state_def)
  ultimately show ?thesis
    using exec ok' d r(5) by (intro exI [of _ ?d] exI [of _ ?db']) simp
qed

lemma allocate_all_preview:
  assumes "engine_ok pv db" and "routes_with_state pv db" and "vv_routes pv \<noteq> []"
    and "\<forall>q\<in>set reqs. plain_request pv db q"
    and "distinct (map fst reqs)" and "distinct (map (dt_applicationReference \<circ> fst \<circ> snd) reqs)"
  shows "fst (allocate_all pv reqs db) = map Inr (fst (preview (length reqs) (swrr_view pv db)))"
  using assms
proof (induction reqs arbitrary: db)
  case Nil
  then show ?case by simp
next
  case (Cons q reqs)
  obtain newId dto now where q: "q = (newId, dto, now)" by (cases q)
  from Cons.prems(4) q have "plain_request pv db (newId, dto, now)" by simp
  from allocation_step [OF Cons.prems(1-3) this] obtain d db' i where
    ex: "executeInternal newId dto pv now db = (Inr d, db')"
    and sel: "selectedRouteId (selectNext (swrr_view pv db)) = Some i" "ad_routeId d = Some i"
    and ok: "engine_ok pv db'" "routes_with_state pv db'"
    and view: "swrr_view pv db' =
      apply_updates (updatedRoutes (selectNext (swrr_view pv db))) (swrr_view pv db)"
    and cat: "ed_catalog db' = ed_catalog db" and ds: "ed_decisions db' = ed_decisions db @ [d]"
    and d: "ad_id d = newId" "ad_applicationReference d = dt_applicationReference dto"
    by blast
  have "\<forall>p\<in>set reqs. plain_request pv db' p"
  proof
    fix p assume p: "p \<in> set reqs"
    with Cons.prems(4) have "plain_request pv db p" by simp
    moreover have "fst p \<noteq> newId" and "dt_applicationReference (fst (snd p)) \<noteq> dt_applicationReference dto"
      using p Cons.prems(5,6) q by force+
    ultimately show "plain_request pv db' p"
      by (auto simp: plain_request_def cat ds d split: prod.splits)
  qed
  with Cons.IH [OF ok Cons.prems(3)] Cons.prems(5,6)
  have "fst (allocate_all pv reqs db') = map Inr (fst (preview (length reqs) (swrr_view pv db')))"
    by simp
  then show ?case
    by (simp add: q ex sel view case_prod_unfold Let_def)
qed

section \<open>Properties\<close>

text \<open>
  A small world: one active lender with two products, both with an active version, and two
  routes at 75 and 25 per cent.
\<close>

definition demo_live_lender :: lender where
  "demo_live_lender = hd (lenders (snd (lender_handler CActivate ''L1'' demo_bob demo_ctx 4 demo_approved)))"

definition demo_product_requests :: "ident \<Rightarrow> ident \<Rightarrow> string \<Rightarrow> (ident \<times> product_request) list" where
  "demo_product_requests p v code =
     [(''ann'', RCreate p v
        \<lparr>cp_lenderId = ''L1'', cp_platformProductId = ''PP'', cp_name = None, cp_code = Some code,
         cp_description = None, cp_strategy = demo_strategy\<rparr>),
      (''ann'', RVersion VSubmit v 1), (''bob'', RVersion VApprove v 2),
      (''bob'', RVersion VActivate v 3), (''bob'', RStatus p ACTIVE)]"

definition demo_catalog :: product_db where
  "demo_catalog = serve_all (demo_product_requests ''P1'' ''V1'' ''A'' @ demo_product_requests ''P2'' ''V2'' ''B'')
     (no_products [demo_live_lender]
       [\<lparr>pp_id = ''PP'', pp_name = ''Personal loan'', pp_code = ''PL'', pp_description = None,
         pp_active = True\<rparr>])"

definition demo_route :: "ident \<Rightarrow> ident \<Rightarrow> rat \<Rightarrow> int \<Rightarrow> mlm_route" where
  "demo_route i p w n = \<lparr>mr_id = i, mr_lenderId = ''L1'', mr_productId = p,
     mr_allocationWeightPercent = Some w, mr_minimumTicketAmount = None,
     mr_maximumTicketAmount = Some 50000, mr_isActive = True, mr_priority = n, mr_sortOrder = n\<rparr>"

definition demo_view :: version_view where
  "demo_view = \<lparr>vv_id = ''M1'', vv_policyId = ''MP'', vv_platformProductId = None,
     vv_routes = [demo_route ''R1'' ''P1'' 75 0, demo_route ''R2'' ''P2'' 25 1]\<rparr>"

definition demo_state :: "ident \<Rightarrow> route_state" where
  "demo_state i = \<lparr>rs_routeId = i, rs_mlmPolicyVersionId = ''M1'', rs_currentWeight = 0,
     rs_allocatedApplicationCount = 0, rs_allocatedAmount = 0, rs_lastAllocatedAt = None,
     rs_version = 1\<rparr>"

definition demo_engine :: engine_db where
  "demo_engine = \<lparr>ed_catalog = demo_catalog, ed_states = [demo_state ''R1'', demo_state ''R2''],
     ed_decisions = []\<rparr>"

definition demo_dto :: "string \<Rightarrow> string \<Rightarrow> allocation_dto" where
  "demo_dto ref outcome = \<lparr>dt_applicationReference = ref, dt_requestedAmount = Some 20000,
     dt_platformEvaluationReference = None, dt_platformDecisionOutcome = outcome,
     dt_platformProductId = ''PP'', dt_customerSegment = ''NEW'', dt_stickyRouteHint = None\<rparr>"

definition demo_requests :: "(ident \<times> allocation_dto \<times> time) list" where
  "demo_requests =
     [(''D1'', demo_dto ''A1'' ''PASS'', 10), (''D2'', demo_dto ''A2'' ''PASS'', 11),
      (''D3'', demo_dto ''A3'' ''PASS'', 12), (''D4'', demo_dto ''A4'' ''PASS'', 13)]"

lemma demo_engine_ok: "engine_ok demo_view demo_engine"
  unfolding engine_ok_def
  by (simp add: demo_view_def demo_engine_def demo_route_def demo_state_def)

lemma demo_after_ok:
  assumes "rs_routeId ` set (ed_states db) \<subseteq> {''R1'', ''R2''}
    \<and> map rs_routeId (ed_states db) = [''R1'', ''R2'']
    \<and> map rs_mlmPolicyVersionId (ed_states db) = map rs_mlmPolicyVersionId (ed_states demo_engine)
    \<and> map ad_id (ed_decisions db) = [''D1'']
    \<and> map ad_applicationReference (ed_decisions db) = [''A1'']"
  shows "engine_ok demo_view db"
proof -
  have "rs_mlmPolicyVersionId ` set (ed_states db) = rs_mlmPolicyVersionId ` set (ed_states demo_engine)"
    using assms by (metis list.set_map)
  then have "\<forall>s\<in>set (ed_states db). rs_mlmPolicyVersionId s = vv_id demo_view"
    by (auto simp: demo_engine_def demo_state_def demo_view_def)
  with assms show ?thesis
    by (simp add: engine_ok_def unique_keys_def demo_view_def demo_route_def)
qed



text \<open>
  C4. Only a ready route is assigned: a transaction that succeeds on an unassigned
  application either leaves the decision without an eligible route, or assigns an active
  route of the version whose lender is active and approved, whose product is active and of
  the requested platform product, which has exactly one active and effective version (the one
  recorded), whose ticket limits the amount respects; and the platform policy has passed.
\<close>

theorem assigned_route_is_ready:
  assumes "distinct (map mr_id (vv_routes pv))"
    and "executeInternal newId dto pv now db = (Inr d, db')" and "\<not> already_assigned dto db"
    and "ad_status d = D_ASSIGNED"
  shows "\<exists>r psv. r \<in> set (vv_routes pv) \<and> mr_isActive r
    \<and> ad_routeId d = Some (mr_id r) \<and> ad_lenderId d = Some (mr_lenderId r)
    \<and> ad_productId d = Some (mr_productId r) \<and> ad_productVersionId d = Some psv
    \<and> dt_platformDecisionOutcome dto = ''PASS''
    \<and> (\<exists>l. find_unique ln_id (mr_lenderId r) (pd_lenders (ed_catalog db)) = Some l
         \<and> ln_operationalStatus l = ACTIVE \<and> ln_approvalStatus l = LApproved)
    \<and> (\<exists>p. find_unique lp_id (mr_productId r) (pd_products (ed_catalog db)) = Some p
         \<and> lp_operationalStatus p = ACTIVE \<and> lp_platformProductId p = dt_platformProductId dto)
    \<and> map pv_id (effective_versions (ed_catalog db) now r) = [psv]
    \<and> amount_check (dt_requestedAmount dto) r = None"
proof -
  let ?sel = "select_route db dto now pv"
  let ?cands = "all_candidates db dto now pv"
  from execute_success [OF assms(2,3)] obtain ds where
    "write_decision (find_decision (dt_applicationReference dto) db) newId dto pv now ?cands ?sel
       (ed_decisions db) = Inr (d, ds)" by blast
  note f = write_decision_fields [OF this]
  with assms(4) have "se_routeId ?sel \<noteq> None" by (auto split: if_splits)
  with select_route_cases [OF assms(1), of db dto now] obtain r where
    r: "r \<in> set (eligible_routes db dto now pv)" "se_route ?sel = Some r" by auto
  then obtain psv where mem: "r \<in> set (vv_routes pv)" "mr_isActive r"
    and ready: "route_ready (ed_catalog db) dto now r psv"
    by (auto simp: eligible_routes_ready)
  have "distinct (map cr_routeId ?cands)"
    using assms(1) by (simp add: comp_def distinct_map_filter)
  from find_distinct [OF this, of "candidate_of db (vv_id pv) dto now r"] mem
  have "List.find (\<lambda>c. cr_routeId c = mr_id r) ?cands = Some (candidate_of db (vv_id pv) dto now r)"
    by simp
  moreover have "route_check (ed_catalog db) dto now r = (None, Some psv)"
    using ready by (auto simp: route_check_ready)
  ultimately have "selected_psv ?cands (Some r) = Some psv"
    by (simp add: selected_psv_def)
  with f r mem ready show ?thesis
    by (auto simp: route_ready_def intro!: exI [of _ r] exI [of _ psv])
qed

theorem assigned_route_is_ready_witness:
  "ad_routeId (the (find_decision ''A1'' (snd (executeInternal ''D1'' (demo_dto ''A1'' ''PASS'')
       demo_view 10 demo_engine)))) = Some ''R1''
   \<and> ln_approvalStatus demo_live_lender = LApproved"
proof -
  let ?ex = "executeInternal ''D1'' (demo_dto ''A1'' ''PASS'') demo_view 10 demo_engine"
  let ?d = "the (find_decision ''A1'' (snd ?ex))"
  have ex: "fst ?ex = Inr ?d" by code_simp
  then have ex': "?ex = (Inr ?d, snd ?ex)" by (metis prod.collapse)
  have dist: "distinct (map mr_id (vv_routes demo_view))"
    by (simp add: demo_view_def demo_route_def)
  have new: "\<not> already_assigned (demo_dto ''A1'' ''PASS'') demo_engine"
    by (simp add: already_assigned_def find_decision_def demo_engine_def)
  have st: "ad_status ?d = D_ASSIGNED" by code_simp
  have route: "ad_routeId ?d = Some ''R1''" by code_simp
  have lend: "pd_lenders (ed_catalog demo_engine) = [demo_live_lender]" by code_simp
  from assigned_route_is_ready [OF dist ex' new st] lend have "ln_approvalStatus demo_live_lender = LApproved"
    by (auto split: if_splits)
  with route show ?thesis by blast
qed

text \<open>
  C12. Nothing is lost between the rows: a successful transaction on an unassigned application
  leaves the sum of all route weights as it was, raises the total number of allocated
  applications by one exactly when it assigns a route, and the total allocated amount by the
  requested amount in that case.
\<close>

theorem allocation_conserves_totals:
  assumes "engine_ok pv db" and "executeInternal newId dto pv now db = (Inr d, db')"
    and "\<not> already_assigned dto db"
  shows "sum_list (map rs_currentWeight (ed_states db')) = sum_list (map rs_currentWeight (ed_states db))
    \<and> sum_list (map rs_allocatedApplicationCount (ed_states db')) =
        sum_list (map rs_allocatedApplicationCount (ed_states db)) + (if ad_status d = D_ASSIGNED then 1 else 0)
    \<and> sum_list (map rs_allocatedAmount (ed_states db')) =
        sum_list (map rs_allocatedAmount (ed_states db))
        + (if ad_status d = D_ASSIGNED
           then (case dt_requestedAmount dto of None \<Rightarrow> 0 | Some a \<Rightarrow> a) else 0)"
proof -
  from execute_success [OF assms(2,3)] obtain ds st where
    w: "write_decision (find_decision (dt_applicationReference dto) db) newId dto pv now
        (all_candidates db dto now pv) (select_route db dto now pv) (ed_decisions db) = Inr (d, ds)"
    and st: "write_selection (select_route db dto now pv) dto now (ed_states db) = Inr st"
    and db': "db' = db\<lparr>ed_decisions := ds, ed_states := st\<rparr>" by blast
  from write_decision_fields [OF w]
  have "ad_status d = D_ASSIGNED \<longleftrightarrow> se_routeId (select_route db dto now pv) \<noteq> None" by auto
  with selection_totals [OF assms(1) st] show ?thesis by (simp add: db')
qed

theorem allocation_conserves_totals_witness:
  "sum_list (map rs_currentWeight (ed_states (snd (executeInternal ''D1'' (demo_dto ''A1'' ''PASS'')
     demo_view 10 demo_engine)))) = 0
   \<and> map rs_currentWeight (ed_states (snd (executeInternal ''D1'' (demo_dto ''A1'' ''PASS'')
     demo_view 10 demo_engine))) = [- 25, 25]"
proof -
  let ?ex = "executeInternal ''D1'' (demo_dto ''A1'' ''PASS'') demo_view 10 demo_engine"
  have "isl (fst ?ex) = False" by code_simp
  then obtain d where ex: "?ex = (Inr d, snd ?ex)" by (metis isl_def sum.exhaust prod.collapse)
  have new: "\<not> already_assigned (demo_dto ''A1'' ''PASS'') demo_engine"
    by (simp add: already_assigned_def find_decision_def demo_engine_def)
  from allocation_conserves_totals [OF demo_engine_ok ex new]
  have "sum_list (map rs_currentWeight (ed_states (snd ?ex))) = 0"
    by (simp add: demo_engine_def demo_state_def)
  moreover have "map rs_currentWeight (ed_states (snd ?ex)) = [- 25, 25]" by code_simp
  ultimately show ?thesis by blast
qed

text \<open>
  Without a passed platform policy nothing is allocated: for an unassigned application
  the transaction keeps every route state, and records one more attempt on a decision without
  an eligible route and with the reason PLATFORM\_POLICY\_NOT\_PASSED.
\<close>

theorem policy_not_passed_keeps_weights:
  assumes "dt_platformDecisionOutcome dto \<noteq> ''PASS''" and "\<not> already_assigned dto db"
    and "executeInternal newId dto pv now db = (Inr d, db')"
  shows "ed_states db' = ed_states db \<and> ad_status d = D_NO_ELIGIBLE_ROUTE
    \<and> ad_decisionReasonCode d = ''PLATFORM_POLICY_NOT_PASSED''
    \<and> at_reasonCode (last (ad_attempts d)) = Some ''PLATFORM_POLICY_NOT_PASSED''
    \<and> at_selectedRouteId (last (ad_attempts d)) = None"
proof -
  let ?sel = "select_route db dto now pv"
  have sel: "?sel = \<lparr>se_routeId = None, se_route = None, se_updates = [],
      se_reason = ''PLATFORM_POLICY_NOT_PASSED'', se_sticky = False\<rparr>"
    using assms(1) not_passed_no_route [OF assms(1)] by (simp add: select_route_def)
  from execute_success [OF assms(3,2)] obtain ds st where
    w: "write_decision (find_decision (dt_applicationReference dto) db) newId dto pv now
        (all_candidates db dto now pv) ?sel (ed_decisions db) = Inr (d, ds)"
    and st: "write_selection ?sel dto now (ed_states db) = Inr st"
    and db': "db' = db\<lparr>ed_decisions := ds, ed_states := st\<rparr>" by blast
  have "last (ad_attempts d) = new_attempt (vv_id pv) (ad_attemptCount d) D_NO_ELIGIBLE_ROUTE
      (dt_requestedAmount dto) (all_candidates db dto now pv) ?sel"
    using w by (auto simp: write_decision_def Let_def new_decision_def update_decision_def
        update_one_Inr sel split: option.splits if_splits)
  with write_decision_fields [OF w] st db' show ?thesis
    by (simp add: sel write_selection_def new_attempt_def)
qed

theorem policy_not_passed_keeps_weights_witness:
  "ed_states (snd (executeInternal ''D1'' (demo_dto ''A1'' ''REFER'') demo_view 10 demo_engine)) =
   ed_states demo_engine"
proof -
  let ?ex = "executeInternal ''D1'' (demo_dto ''A1'' ''REFER'') demo_view 10 demo_engine"
  have "isl (fst ?ex) = False" by code_simp
  then obtain d where ex: "?ex = (Inr d, snd ?ex)" by (metis isl_def sum.exhaust prod.collapse)
  have out: "dt_platformDecisionOutcome (demo_dto ''A1'' ''REFER'') \<noteq> ''PASS''"
    by (simp add: demo_dto_def)
  have new: "\<not> already_assigned (demo_dto ''A1'' ''REFER'') demo_engine"
    by (simp add: already_assigned_def find_decision_def demo_engine_def)
  from policy_not_passed_keeps_weights [OF out new ex] show ?thesis by blast
qed

text \<open>
  An assignment is final: once a transaction has assigned a route to an application, any
  later transaction for the same application reference, whatever its outcome, version view or
  time, returns that decision and changes nothing.
\<close>

theorem assignment_is_final:
  assumes "engine_ok pv db" and "executeInternal newId dto pv now db = (Inr d, db')"
    and "ad_status d = D_ASSIGNED" and "dt_applicationReference dto' = dt_applicationReference dto"
  shows "executeInternal newId' dto' pv' now' db' = (Inr d, db')"
proof (cases "already_assigned dto db")
  case True
  then obtain d0 where d0: "find_decision (dt_applicationReference dto) db = Some d0"
    "ad_status d0 = D_ASSIGNED" by (auto simp: already_assigned_def)
  with assms(2) have "d = d0" "db' = db"
    by (auto simp: executeInternal_def execute_after_read_def)
  with d0 assms(4) show ?thesis by (simp add: executeInternal_def execute_after_read_def)
next
  case False
  from execute_success [OF assms(2) this] obtain ds st where
    w: "write_decision (find_decision (dt_applicationReference dto) db) newId dto pv now
        (all_candidates db dto now pv) (select_route db dto now pv) (ed_decisions db) = Inr (d, ds)"
    and db': "db' = db\<lparr>ed_decisions := ds, ed_states := st\<rparr>" by blast
  from find_decision_after [OF assms(1) w]
  have "find_decision (dt_applicationReference dto') db' = Some d"
    by (simp add: db' find_decision_def assms(4))
  with assms(3) show ?thesis by (simp add: executeInternal_def execute_after_read_def)
qed

theorem assignment_is_final_witness:
  "snd (executeInternal ''D9'' (demo_dto ''A1'' ''FAIL'') demo_view 99
     (snd (executeInternal ''D1'' (demo_dto ''A1'' ''PASS'') demo_view 10 demo_engine))) =
   snd (executeInternal ''D1'' (demo_dto ''A1'' ''PASS'') demo_view 10 demo_engine)"
proof -
  let ?ex = "executeInternal ''D1'' (demo_dto ''A1'' ''PASS'') demo_view 10 demo_engine"
  let ?d = "the (find_decision ''A1'' (snd ?ex))"
  have "fst ?ex = Inr ?d" by code_simp
  then have ex: "?ex = (Inr ?d, snd ?ex)" by (metis prod.collapse)
  have st: "ad_status ?d = D_ASSIGNED" by code_simp
  have ref: "dt_applicationReference (demo_dto ''A1'' ''FAIL'') =
      dt_applicationReference (demo_dto ''A1'' ''PASS'')" by (simp add: demo_dto_def)
  from assignment_is_final [OF demo_engine_ok ex st ref, of "''D9''" demo_view 99]
  show ?thesis by simp
qed



text \<open>
  C17. The retry loop runs the transaction at least once and at most three times, retries only
  after a deadlock, lock timeout, write conflict or unique violation, never retries a success,
  and returns the last transaction's value or rethrows its error; it never falls through
  without a result.
\<close>

theorem execute_retries_bounded:
  "case mlm_execute tx of (res, n) \<Rightarrow>
     0 < n \<and> n \<le> 3
     \<and> list_all (\<lambda>k. case tx k of
          Inl e \<Rightarrow> isRetryableError e \<or> e = DbError ''P2002'' | Inr d \<Rightarrow> False) [0..<n - 1]
     \<and> (case tx (n - 1) of
          Inr d \<Rightarrow> res = Inr (Some d)
        | Inl e \<Rightarrow> res = Inl e \<and> (n = 3 \<or> \<not> (isRetryableError e \<or> e = DbError ''P2002'')))"
proof -
  obtain res n where r: "mlm_execute tx = (res, n)" by (cases "mlm_execute tx")
  have "list_all (\<lambda>k. case tx k of
      Inl e \<Rightarrow> isRetryableError e \<or> e = DbError ''P2002'' | Inr d \<Rightarrow> False) [0..<n - 1]"
    using execute_loop_bounds [OF _ r [unfolded mlm_execute_def]] by (fastforce simp: list_all_iff)
  then show ?thesis
    using execute_loop_bounds [OF _ r [unfolded mlm_execute_def]] r
    by (auto split: sum.splits)
qed

theorem execute_retries_bounded_witness:
  "mlm_execute (\<lambda>k. Inl (DbError ''P2034'') :: http_error + unit) = (Inl (DbError ''P2034''), 3)"
  using execute_retries_bounded [of "\<lambda>k. Inl (DbError ''P2034'') :: http_error + unit"]
  by (auto simp: isRetryableError_def split: prod.splits)

end
