(* ===== verification/MlmPolicies.thy ===== *)
theory MlmPolicies
  imports MlmEngine
begin

text \<open>
  Allocation policies (modules/mlm/services/mlm/mlm.service.ts): a policy has numbered
  versions, a version has routes; versions are drafted, submitted, approved or rejected, and
  activated, which creates the route states the allocation engine works on.

  Every operation is a read-and-check phase (\<open>..._read\<close>, which returns what the write needs)
  and a write phase (\<open>..._write\<close>). The writes are by id alone, without a version or status
  in their \<open>where\<close>. Audit failures are swallowed by the code, so an audit entry is added when
  the operation succeeds.
\<close>

section \<open>Data\<close>

record mlm_policy =
  mp_id :: ident
  mp_platformProductId :: ident
  mp_name :: string
  mp_code :: string
  mp_description :: "string option"
  mp_scopeCode :: string
  mp_operationalStatus :: operational
  mp_createdById :: ident
  mp_updatedById :: ident

record mlm_version =
  mv_id :: ident
  mv_policyId :: ident
  mv_versionNumber :: int
  mv_status :: version_status
  mv_allocationMethod :: string
  mv_effectiveFrom :: "time option"
  mv_createdById :: ident
  mv_updatedById :: ident
  mv_submittedById :: "ident option"
  mv_submittedAt :: "time option"
  mv_approvedById :: "ident option"
  mv_approvedAt :: "time option"
  mv_rejectedById :: "ident option"
  mv_rejectedAt :: "time option"
  mv_rejectionReason :: "string option"
  mv_activatedById :: "ident option"
  mv_activatedAt :: "time option"

text \<open>A stored route is a route with the version it belongs to.\<close>

record policy_route = mlm_route +
  mr_versionId :: ident

record mlm_db =
  md_catalog :: product_db
  md_policies :: "mlm_policy list"
  md_versions :: "mlm_version list"
  md_routes :: "policy_route list"
  md_states :: "route_state list"
  md_audits :: "(string \<times> ident \<times> ident) list"  \<comment> \<open>action, entity, actor\<close>

record create_policy_dto =
  yp_name :: string
  yp_code :: string
  yp_description :: "string option"
  yp_scopeCode :: "string option"
  yp_platformProductId :: ident

record update_policy_dto =
  up_name :: "string option"
  up_description :: "string option"
  up_operationalStatus :: "operational option"

record route_dto =
  ro_lenderId :: ident
  ro_productId :: ident
  ro_allocationPercentage :: rat
  ro_isActive :: "bool option"
  ro_sortOrder :: int

definition mlm_audit :: "string \<Rightarrow> ident \<Rightarrow> ident \<Rightarrow> mlm_db \<Rightarrow> mlm_db" where
  "mlm_audit action entityId userId db =
     db\<lparr>md_audits := md_audits db @ [(action, entityId, userId)]\<rparr>"

section \<open>Policies\<close>

definition createPolicy ::
  "ident \<Rightarrow> create_policy_dto \<Rightarrow> ident \<Rightarrow> mlm_db \<Rightarrow> (http_error + mlm_policy) \<times> mlm_db" where
  "createPolicy newId dto userId db =
     (if list_ex (\<lambda>p. mp_id p = newId \<or> mp_code p = yp_code dto) (md_policies db)
      then (Inl (DbError ''P2002''), db)
      else if yp_platformProductId dto \<notin> pp_id ` set (pd_platform (md_catalog db))
      then (Inl (DbError ''P2003''), db)
      else
        let p = \<lparr>mp_id = newId, mp_platformProductId = yp_platformProductId dto,
                 mp_name = yp_name dto, mp_code = yp_code dto,
                 mp_description = yp_description dto,
                 mp_scopeCode = set_if (yp_scopeCode dto) ''PLATFORM_DEFAULT'',
                 mp_operationalStatus = INACTIVE,
                 mp_createdById = userId, mp_updatedById = userId\<rparr>
        in (Inr p, mlm_audit ''CREATE_MLM_POLICY'' newId userId
                     (db\<lparr>md_policies := md_policies db @ [p]\<rparr>)))"

definition updatePolicy ::
  "ident \<Rightarrow> update_policy_dto \<Rightarrow> ident \<Rightarrow> mlm_db \<Rightarrow> (http_error + mlm_policy) \<times> mlm_db" where
  "updatePolicy policyId dto userId db =
     (case update_one mp_id policyId (\<lambda>p. True)
             (\<lambda>p. p\<lparr>mp_name := set_if (up_name dto) (mp_name p),
                    mp_description :=
                      (case up_description dto of None \<Rightarrow> mp_description p | Some d \<Rightarrow> Some d),
                    mp_operationalStatus := set_if (up_operationalStatus dto) (mp_operationalStatus p),
                    mp_updatedById := userId\<rparr>) (md_policies db) of
        Inl e \<Rightarrow> (Inl e, db)
      | Inr (p, t) \<Rightarrow>
          (Inr p, mlm_audit ''UPDATE_MLM_POLICY'' policyId userId (db\<lparr>md_policies := t\<rparr>)))"

section \<open>Drafting a version\<close>

text \<open>Only the latest version is read (\<open>take: 1\<close>).\<close>

definition latest_version :: "ident \<Rightarrow> mlm_db \<Rightarrow> mlm_version option" where
  "latest_version policyId db =
     (case sort_key (\<lambda>v. - mv_versionNumber v)
             (filter (\<lambda>v. mv_policyId v = policyId) (md_versions db)) of
        [] \<Rightarrow> None | v # _ \<Rightarrow> Some v)"

definition createPolicyVersion_read :: "ident \<Rightarrow> mlm_db \<Rightarrow> http_error + int" where
  "createPolicyVersion_read policyId db =
     (case find_unique mp_id policyId (md_policies db) of
        None \<Rightarrow> Inl (NotFound ''Policy not found'')
      | Some policy \<Rightarrow>
          (case latest_version policyId db of
             None \<Rightarrow> Inr 1
           | Some v \<Rightarrow>
               if mv_status v = V_DRAFT \<or> mv_status v = V_SUBMITTED
               then Inl (Conflict ''An active draft or submitted version already exists'')
               else Inr (mv_versionNumber v + 1)))"

definition createPolicyVersion_write ::
  "ident \<Rightarrow> ident \<Rightarrow> int \<Rightarrow> string \<Rightarrow> time option \<Rightarrow> ident \<Rightarrow> mlm_db \<Rightarrow>
   (http_error + mlm_version) \<times> mlm_db" where
  "createPolicyVersion_write newId policyId n method effectiveFrom userId db =
     (if list_ex (\<lambda>v. mv_id v = newId \<or> mv_policyId v = policyId \<and> mv_versionNumber v = n)
           (md_versions db)
      then (Inl (DbError ''P2002''), db)
      else
        let v = \<lparr>mv_id = newId, mv_policyId = policyId, mv_versionNumber = n,
                 mv_status = V_DRAFT, mv_allocationMethod = method,
                 mv_effectiveFrom = effectiveFrom,
                 mv_createdById = userId, mv_updatedById = userId,
                 mv_submittedById = None, mv_submittedAt = None,
                 mv_approvedById = None, mv_approvedAt = None,
                 mv_rejectedById = None, mv_rejectedAt = None, mv_rejectionReason = None,
                 mv_activatedById = None, mv_activatedAt = None\<rparr>
        in (Inr v, mlm_audit ''CREATE_MLM_POLICY_VERSION'' newId userId
                     (db\<lparr>md_versions := md_versions db @ [v]\<rparr>)))"

definition createPolicyVersion ::
  "ident \<Rightarrow> ident \<Rightarrow> string \<Rightarrow> time option \<Rightarrow> ident \<Rightarrow> mlm_db \<Rightarrow>
   (http_error + mlm_version) \<times> mlm_db" where
  "createPolicyVersion newId policyId method effectiveFrom userId db =
     (case createPolicyVersion_read policyId db of
        Inl e \<Rightarrow> (Inl e, db)
      | Inr n \<Rightarrow> createPolicyVersion_write newId policyId n method effectiveFrom userId db)"

section \<open>Replacing the routes of a draft\<close>

fun check_route_dups :: "ident list \<Rightarrow> ident list \<Rightarrow> route_dto list \<Rightarrow> http_error option" where
  "check_route_dups lenderMap productMap [] = None"
| "check_route_dups lenderMap productMap (r # rs) =
     (if ro_lenderId r \<in> set lenderMap then Some (BadRequest ''Duplicate route for lender'')
      else if ro_productId r \<in> set productMap
      then Some (BadRequest ''Duplicate route for product'')
      else check_route_dups (ro_lenderId r # lenderMap) (ro_productId r # productMap) rs)"

text \<open>\<open>if (route.isActive)\<close>: an absent flag is not counted.\<close>

definition draftTotal :: "route_dto list \<Rightarrow> rat" where
  "draftTotal rs = sum_list (map ro_allocationPercentage (filter (\<lambda>r. ro_isActive r = Some True) rs))"

definition routes_mismatch :: "mlm_db \<Rightarrow> ident \<Rightarrow> route_dto list \<Rightarrow> bool" where
  "routes_mismatch db platformProductId rs \<longleftrightarrow>
     list_ex (\<lambda>p. lp_platformProductId p \<noteq> platformProductId)
       (filter (\<lambda>p. lp_id p \<in> set (map ro_productId rs)) (pd_products (md_catalog db)))"

definition updateRoutes_read ::
  "ident \<Rightarrow> route_dto list \<Rightarrow> mlm_db \<Rightarrow> http_error + unit" where
  "updateRoutes_read versionId routes db =
     (case find_unique mv_id versionId (md_versions db) of
        None \<Rightarrow> Inl (NotFound ''Policy version not found'')
      | Some v \<Rightarrow>
          if mv_status v \<noteq> V_DRAFT
          then Inl (BadRequest ''Only DRAFT versions can be modified'')
          else
            case check_route_dups [] [] routes of
              Some e \<Rightarrow> Inl e
            | None \<Rightarrow>
                if draftTotal routes > 100
                then Inl (BadRequest ''Draft total allocation exceeds 100.0000'')
                else
                  (case find_unique mp_id (mv_policyId v) (md_policies db) of
                     None \<Rightarrow> Inl (NotFound ''Policy version not found'')
                   | Some policy \<Rightarrow>
                       if routes_mismatch db (mp_platformProductId policy) routes
                       then Inl (BadRequest ''MLM_ROUTE_PRODUCT_MISMATCH'')
                       else Inr ()))"

definition stored_route :: "ident \<Rightarrow> ident \<times> route_dto \<Rightarrow> policy_route" where
  "stored_route versionId p =
     (case p of (i, r) \<Rightarrow>
       \<lparr>mr_id = i, mr_lenderId = ro_lenderId r, mr_productId = ro_productId r,
        mr_allocationWeightPercent = Some (ro_allocationPercentage r),
        mr_minimumTicketAmount = None, mr_maximumTicketAmount = None,
        mr_isActive = set_if (ro_isActive r) True,
        mr_priority = ro_sortOrder r, mr_sortOrder = ro_sortOrder r,
        mr_versionId = versionId\<rparr>)"

text \<open>
  The transaction: the version's routes are deleted, which cascades to their states, and the
  new ones created. Unknown lenders or products violate foreign keys, a repeated sort order
  the unique index.
\<close>

definition updateRoutes_write ::
  "ident \<Rightarrow> (ident \<times> route_dto) list \<Rightarrow> ident \<Rightarrow> mlm_db \<Rightarrow>
   (http_error + policy_route list) \<times> mlm_db" where
  "updateRoutes_write versionId rs userId db =
     (let kept = filter (\<lambda>r. mr_versionId r \<noteq> versionId) (md_routes db);
          gone = map mr_id (filter (\<lambda>r. mr_versionId r = versionId) (md_routes db));
          new = map (stored_route versionId) rs
      in if \<not> distinct (map fst rs) \<or> list_ex (\<lambda>r. mr_id r \<in> set (map fst rs)) kept
           \<or> \<not> distinct (map (ro_sortOrder \<circ> snd) rs)
         then (Inl (DbError ''P2002''), db)
         else if \<not> list_all (\<lambda>r. ro_lenderId (snd r) \<in> ln_id ` set (pd_lenders (md_catalog db))
              \<and> ro_productId (snd r) \<in> lp_id ` set (pd_products (md_catalog db))) rs
         then (Inl (DbError ''P2003''), db)
         else
           case update_one mv_id versionId (\<lambda>v. True) (\<lambda>v. v\<lparr>mv_updatedById := userId\<rparr>)
                  (md_versions db) of
             Inl e \<Rightarrow> (Inl e, db)
           | Inr (v, t) \<Rightarrow>
               (Inr new,
                mlm_audit ''UPDATE_MLM_POLICY_ROUTES'' versionId userId
                  (db\<lparr>md_routes := kept @ new,
                      md_states := filter (\<lambda>s. rs_routeId s \<notin> set gone) (md_states db),
                      md_versions := t\<rparr>)))"

definition updatePolicyVersionRoutes ::
  "ident \<Rightarrow> (ident \<times> route_dto) list \<Rightarrow> ident \<Rightarrow> mlm_db \<Rightarrow>
   (http_error + policy_route list) \<times> mlm_db" where
  "updatePolicyVersionRoutes versionId rs userId db =
     (case updateRoutes_read versionId (map snd rs) db of
        Inl e \<Rightarrow> (Inl e, db)
      | Inr _ \<Rightarrow> updateRoutes_write versionId rs userId db)"

section \<open>Validation\<close>

definition version_routes :: "ident \<Rightarrow> mlm_db \<Rightarrow> policy_route list" where
  "version_routes versionId db = filter (\<lambda>r. mr_versionId r = versionId) (md_routes db)"

definition route_matches :: "mlm_db \<Rightarrow> ident \<Rightarrow> policy_route \<Rightarrow> bool" where
  "route_matches db platformProductId r \<longleftrightarrow>
     (case find_unique lp_id (mr_productId r) (pd_products (md_catalog db)) of
        None \<Rightarrow> False
      | Some p \<Rightarrow> lp_platformProductId p = platformProductId)"

definition percent_of :: "policy_route \<Rightarrow> rat" where
  "percent_of r = (case mr_allocationWeightPercent r of None \<Rightarrow> 0 | Some w \<Rightarrow> w)"

definition validateVersionConfiguration :: "ident \<Rightarrow> mlm_db \<Rightarrow> http_error option" where
  "validateVersionConfiguration versionId db =
     (case find_unique mv_id versionId (md_versions db) of
        None \<Rightarrow> Some (NotFound ''Version not found'')
      | Some v \<Rightarrow>
          (case find_unique mp_id (mv_policyId v) (md_policies db) of
             None \<Rightarrow> Some (NotFound ''Version not found'')
           | Some policy \<Rightarrow>
               let routes = version_routes versionId db;
                   activeRoutes = filter mr_isActive routes
               in if \<not> list_all (route_matches db (mp_platformProductId policy)) routes
                  then Some (BadRequest ''MLM_ROUTE_PRODUCT_MISMATCH'')
                  else if activeRoutes = []
                  then Some (BadRequest ''At least one active route is required'')
                  else if sum_list (map percent_of activeRoutes) \<noteq> 100
                  then Some (BadRequest ''Total allocation percentage must be exactly 100.0000'')
                  else None))"

section \<open>Submission and review\<close>

text \<open>The checks of a call on the version it read, with the database of that moment.\<close>

datatype policy_call = PSubmit | PApprove | PReject string

fun policy_check :: "policy_call \<Rightarrow> ident \<Rightarrow> mlm_version \<Rightarrow> http_error option" where
  "policy_check PSubmit userId v =
     (if mv_status v \<noteq> V_DRAFT then Some (BadRequest ''Only DRAFT versions can be submitted'')
      else None)"
| "policy_check PApprove userId v =
     (if mv_status v \<noteq> V_SUBMITTED then Some (BadRequest ''Only SUBMITTED versions can be approved'')
      else if mv_createdById v = userId \<or> mv_submittedById v = Some userId
      then Some (Forbidden ''Maker cannot be checker'')
      else None)"
| "policy_check (PReject reason) userId v =
     (if mv_status v \<noteq> V_SUBMITTED then Some (BadRequest ''Only SUBMITTED versions can be rejected'')
      else None)"

fun policy_validates :: "policy_call \<Rightarrow> bool" where
  "policy_validates (PReject reason) = False"
| "policy_validates _ = True"

fun policy_data :: "policy_call \<Rightarrow> ident \<Rightarrow> time \<Rightarrow> mlm_version \<Rightarrow> mlm_version" where
  "policy_data PSubmit userId now =
     (\<lambda>v. v\<lparr>mv_status := V_SUBMITTED, mv_submittedById := Some userId,
            mv_submittedAt := Some now, mv_updatedById := userId\<rparr>)"
| "policy_data PApprove userId now =
     (\<lambda>v. v\<lparr>mv_status := V_APPROVED, mv_approvedById := Some userId,
            mv_approvedAt := Some now, mv_updatedById := userId\<rparr>)"
| "policy_data (PReject reason) userId now =
     (\<lambda>v. v\<lparr>mv_status := V_REJECTED, mv_rejectedById := Some userId,
            mv_rejectedAt := Some now, mv_rejectionReason := Some reason,
            mv_updatedById := userId\<rparr>)"

fun policy_action :: "policy_call \<Rightarrow> string" where
  "policy_action PSubmit = ''SUBMIT_MLM_POLICY_VERSION''"
| "policy_action PApprove = ''APPROVE_MLM_POLICY_VERSION''"
| "policy_action (PReject reason) = ''REJECT_MLM_POLICY_VERSION''"

definition policy_read :: "policy_call \<Rightarrow> ident \<Rightarrow> ident \<Rightarrow> mlm_db \<Rightarrow> http_error option" where
  "policy_read c versionId userId db =
     (case find_unique mv_id versionId (md_versions db) of
        None \<Rightarrow> Some (NotFound ''Version not found'')
      | Some v \<Rightarrow>
          (case policy_check c userId v of
             Some e \<Rightarrow> Some e
           | None \<Rightarrow> if policy_validates c then validateVersionConfiguration versionId db else None))"

definition policy_write ::
  "policy_call \<Rightarrow> ident \<Rightarrow> ident \<Rightarrow> time \<Rightarrow> mlm_db \<Rightarrow> (http_error + mlm_version) \<times> mlm_db" where
  "policy_write c versionId userId now db =
     (case update_one mv_id versionId (\<lambda>v. True) (policy_data c userId now) (md_versions db) of
        Inl e \<Rightarrow> (Inl e, db)
      | Inr (v, t) \<Rightarrow> (Inr v, mlm_audit (policy_action c) versionId userId (db\<lparr>md_versions := t\<rparr>)))"

definition policy_handler ::
  "policy_call \<Rightarrow> ident \<Rightarrow> ident \<Rightarrow> time \<Rightarrow> mlm_db \<Rightarrow> (http_error + mlm_version) \<times> mlm_db" where
  "policy_handler c versionId userId now db =
     (case policy_read c versionId userId db of
        Some e \<Rightarrow> (Inl e, db)
      | None \<Rightarrow> policy_write c versionId userId now db)"

section \<open>Activation\<close>

definition fresh_state :: "ident \<Rightarrow> policy_route \<Rightarrow> route_state" where
  "fresh_state versionId r =
     \<lparr>rs_routeId = mr_id r, rs_mlmPolicyVersionId = versionId, rs_currentWeight = 0,
      rs_allocatedApplicationCount = 0, rs_allocatedAmount = 0, rs_lastAllocatedAt = None,
      rs_version = 1\<rparr>"

text \<open>The active policies of the same scope and platform product, and the updates on them.\<close>

definition conflicting_ids :: "mlm_policy \<Rightarrow> mlm_policy list \<Rightarrow> ident list" where
  "conflicting_ids policy t = map mp_id (filter (\<lambda>p. mp_scopeCode p = mp_scopeCode policy
     \<and> mp_platformProductId p = mp_platformProductId policy
     \<and> mp_operationalStatus p = ACTIVE) t)"

definition supersede_versions :: "ident list \<Rightarrow> ident \<Rightarrow> mlm_version list \<Rightarrow> mlm_version list" where
  "supersede_versions ids userId =
     update_many (\<lambda>v. mv_policyId v \<in> set ids \<and> mv_status v = V_ACTIVE)
       (\<lambda>v. v\<lparr>mv_status := V_SUPERSEDED, mv_updatedById := userId\<rparr>)"

definition retire_policies :: "ident list \<Rightarrow> ident \<Rightarrow> ident \<Rightarrow> mlm_policy list \<Rightarrow> mlm_policy list" where
  "retire_policies ids policyId userId =
     update_many (\<lambda>p. mp_id p \<in> set ids \<and> mp_id p \<noteq> policyId)
       (\<lambda>p. p\<lparr>mp_operationalStatus := INACTIVE, mp_updatedById := userId\<rparr>)"

definition promote_version :: "ident \<Rightarrow> time \<Rightarrow> mlm_version \<Rightarrow> mlm_version" where
  "promote_version userId now v =
     v\<lparr>mv_status := V_ACTIVE, mv_activatedById := Some userId, mv_activatedAt := Some now,
       mv_updatedById := userId\<rparr>"

definition promote_policy :: "ident \<Rightarrow> mlm_policy \<Rightarrow> mlm_policy" where
  "promote_policy userId p = p\<lparr>mp_operationalStatus := ACTIVE, mp_updatedById := userId\<rparr>"

text \<open>
  The transaction; \<open>version\<close>, \<open>policy\<close> and \<open>routes\<close> are what the handler read before it. A
  second state for a route violates the unique column \<open>routeId\<close>, a state for a route that is
  gone a foreign key.
\<close>

definition activate_mlm_write ::
  "mlm_version \<Rightarrow> mlm_policy \<Rightarrow> policy_route list \<Rightarrow> ident \<Rightarrow> time \<Rightarrow> mlm_db \<Rightarrow>
   (http_error + mlm_version) \<times> mlm_db" where
  "activate_mlm_write version policy routes userId now db =
     (let ids = conflicting_ids policy (md_policies db);
          new = map (fresh_state (mv_id version)) (filter mr_isActive routes)
      in case update_one mv_id (mv_id version) (\<lambda>v. True) (promote_version userId now)
             (supersede_versions ids userId (md_versions db)) of
           Inl e \<Rightarrow> (Inl e, db)
         | Inr (activated, versions2) \<Rightarrow>
             (case update_one mp_id (mv_policyId version) (\<lambda>p. True) (promote_policy userId)
                     (retire_policies ids (mv_policyId version) userId (md_policies db)) of
                Inl e \<Rightarrow> (Inl e, db)
              | Inr (p, policies2) \<Rightarrow>
                  if list_ex (\<lambda>s. rs_routeId s \<in> rs_routeId ` set (md_states db)) new
                  then (Inl (DbError ''P2002''), db)
                  else if list_ex (\<lambda>s. rs_routeId s \<notin> mr_id ` set (md_routes db)) new
                  then (Inl (DbError ''P2003''), db)
                  else
                    (Inr activated,
                     mlm_audit ''ACTIVATE_MLM_POLICY_VERSION'' (mv_id version) userId
                       (db\<lparr>md_versions := versions2, md_policies := policies2,
                           md_states := md_states db @ new\<rparr>))))"

definition activate_mlm ::
  "ident \<Rightarrow> ident \<Rightarrow> time \<Rightarrow> mlm_db \<Rightarrow> (http_error + mlm_version) \<times> mlm_db" where
  "activate_mlm versionId userId now db =
     (case find_unique mv_id versionId (md_versions db) of
        None \<Rightarrow> (Inl (NotFound ''Version not found''), db)
      | Some version \<Rightarrow>
          if mv_status version = V_ACTIVE then (Inr version, db)
          else if mv_status version \<noteq> V_APPROVED
          then (Inl (BadRequest ''Only APPROVED versions can be activated''), db)
          else
            case validateVersionConfiguration versionId db of
              Some e \<Rightarrow> (Inl e, db)
            | None \<Rightarrow>
                (case find_unique mp_id (mv_policyId version) (md_policies db) of
                   None \<Rightarrow> (Inl (NotFound ''Version not found''), db)
                 | Some policy \<Rightarrow>
                     activate_mlm_write version policy (version_routes versionId db) userId now db))"

section \<open>The active version\<close>

definition view_of :: "mlm_db \<Rightarrow> mlm_version \<Rightarrow> version_view" where
  "view_of db v = \<lparr>vv_id = mv_id v, vv_policyId = mv_policyId v, vv_platformProductId = None,
     vv_routes = map mlm_route.truncate (version_routes (mv_id v) db)\<rparr>"

definition getActiveMlmPolicyVersion ::
  "string \<Rightarrow> ident \<Rightarrow> mlm_db \<Rightarrow> http_error + mlm_version" where
  "getActiveMlmPolicyVersion scopeCode platformProductId db =
     (case List.find (\<lambda>p. mp_scopeCode p = scopeCode \<and> mp_platformProductId p = platformProductId
              \<and> mp_operationalStatus p = ACTIVE) (md_policies db) of
        None \<Rightarrow> Inl (NotFound ''MLM_ACTIVE_POLICY_NOT_FOUND'')
      | Some policy \<Rightarrow>
          (case filter (\<lambda>v. mv_policyId v = mp_id policy \<and> mv_status v = V_ACTIVE) (md_versions db) of
             [] \<Rightarrow> Inl (NotFound ''MLM_ACTIVE_POLICY_NOT_FOUND'')
           | [v] \<Rightarrow> Inr v
           | _ \<Rightarrow> Inl (Conflict ''MLM_ACTIVE_POLICY_CONFLICT'')))"

definition getEligibleLenderProducts :: "ident \<Rightarrow> mlm_db \<Rightarrow> lender_product list" where
  "getEligibleLenderProducts platformProductId db =
     filter (\<lambda>p. lp_platformProductId p = platformProductId
        \<and> lp_operationalStatus p = ACTIVE
        \<and> list_ex (\<lambda>l. ln_id l = lp_lenderId p \<and> ln_operationalStatus l = ACTIVE)
            (pd_lenders (md_catalog db))
        \<and> list_ex (\<lambda>v. pv_productId v = lp_id p \<and> pv_status v = V_ACTIVE)
            (pd_versions (md_catalog db)))
       (pd_products (md_catalog db))"

text \<open>
  \<open>executeAllocation\<close>: the active version of the default scope, then one transaction of the
  engine on the shared state table; \<open>ds\<close> are the decisions so far.
\<close>

definition engine_view :: "mlm_db \<Rightarrow> allocation_decision list \<Rightarrow> engine_db" where
  "engine_view db ds = \<lparr>ed_catalog = md_catalog db, ed_states = md_states db, ed_decisions = ds\<rparr>"

definition executeAllocation ::
  "ident \<Rightarrow> allocation_dto \<Rightarrow> time \<Rightarrow> allocation_decision list \<Rightarrow> mlm_db \<Rightarrow>
   (http_error + allocation_decision) \<times> allocation_decision list \<times> mlm_db" where
  "executeAllocation newId dto now ds db =
     (case getActiveMlmPolicyVersion ''PLATFORM_DEFAULT'' (dt_platformProductId dto) db of
        Inl e \<Rightarrow> (Inl e, ds, db)
      | Inr v \<Rightarrow>
          (case executeInternal newId dto (view_of db v) now (engine_view db ds) of
             (res, e) \<Rightarrow> (res, ed_decisions e, db\<lparr>md_states := ed_states e\<rparr>)))"

section \<open>Requests one after another\<close>

datatype mlm_request =
    QCreate ident create_policy_dto
  | QUpdate ident update_policy_dto
  | QVersion ident ident string "time option"
  | QRoutes ident "(ident \<times> route_dto) list"
  | QCall policy_call ident time
  | QActivate ident time

fun mlm_serve :: "mlm_request \<Rightarrow> ident \<Rightarrow> mlm_db \<Rightarrow> mlm_db" where
  "mlm_serve (QCreate i dto) u db = snd (createPolicy i dto u db)"
| "mlm_serve (QUpdate i dto) u db = snd (updatePolicy i dto u db)"
| "mlm_serve (QVersion i p m t) u db = snd (createPolicyVersion i p m t u db)"
| "mlm_serve (QRoutes v rs) u db = snd (updatePolicyVersionRoutes v rs u db)"
| "mlm_serve (QCall c v now) u db = snd (policy_handler c v u now db)"
| "mlm_serve (QActivate v now) u db = snd (activate_mlm v u now db)"

definition mlm_serve_all :: "(ident \<times> mlm_request) list \<Rightarrow> mlm_db \<Rightarrow> mlm_db" where
  "mlm_serve_all rs db = fold (\<lambda>(u, r). mlm_serve r u) rs db"

definition no_policies :: "product_db \<Rightarrow> mlm_db" where
  "no_policies cat = \<lparr>md_catalog = cat, md_policies = [], md_versions = [], md_routes = [],
     md_states = [], md_audits = []\<rparr>"

section \<open>Maker and checker of a version\<close>

definition policy_trans :: "ident \<Rightarrow> policy_call \<times> time \<Rightarrow> mlm_version \<Rightarrow> mlm_version option" where
  "policy_trans u cmd v =
     (if policy_check (fst cmd) u v = None then Some (policy_data (fst cmd) u (snd cmd) v) else None)"

definition mlm_cleared :: "mlm_version \<Rightarrow> bool" where
  "mlm_cleared v \<longleftrightarrow> mv_status v \<in> {V_APPROVED, V_ACTIVE, V_SUPERSEDED}"

definition mlm_submitter :: "mlm_version \<Rightarrow> ident" where
  "mlm_submitter v = (case mv_submittedById v of Some u \<Rightarrow> u | None \<Rightarrow> mv_createdById v)"

lemma policy_trans_Some:
  "policy_trans u (c, now) v = Some v' \<longleftrightarrow> policy_check c u v = None \<and> v' = policy_data c u now v"
  by (auto simp: policy_trans_def)

lemma policy_trans_clears:
  "policy_trans u (c, now) v = Some v' \<Longrightarrow> \<not> mlm_cleared v \<Longrightarrow> mlm_cleared v' \<Longrightarrow>
   u \<noteq> mv_createdById v \<and> mv_createdById v' = mv_createdById v
   \<and> u \<noteq> mlm_submitter v \<and> mlm_submitter v' = mlm_submitter v \<and> mv_approvedById v' = Some u"
  unfolding policy_trans_Some
  by (cases c) (auto simp: mlm_cleared_def mlm_submitter_def split: if_splits option.splits)

lemma policy_trans_keeps:
  "policy_trans u (c, now) v = Some v' \<Longrightarrow> mlm_cleared v \<Longrightarrow> \<not> mlm_cleared v'"
  unfolding policy_trans_Some
  by (cases c) (auto simp: mlm_cleared_def split: if_splits)

text \<open>The approver differs from the creator and from the submitter: the contract twice.\<close>

interpretation mlm_creator: review_flow mlm_cleared mv_createdById mv_approvedById policy_trans
  by unfold_locales (metis prod.exhaust policy_trans_clears, metis prod.exhaust policy_trans_keeps)

interpretation mlm_maker: review_flow mlm_cleared mlm_submitter mv_approvedById policy_trans
  by unfold_locales (metis prod.exhaust policy_trans_clears, metis prod.exhaust policy_trans_keeps)

section \<open>The invariant of serial requests\<close>

definition config_ok :: "policy_route list \<Rightarrow> ident \<Rightarrow> bool" where
  "config_ok routes i \<longleftrightarrow>
     filter mr_isActive (filter (\<lambda>r. mr_versionId r = i) routes) \<noteq> []
     \<and> sum_list (map percent_of (filter mr_isActive (filter (\<lambda>r. mr_versionId r = i) routes))) = 100"

definition mlm_row_ok :: "policy_route list \<Rightarrow> mlm_version \<Rightarrow> bool" where
  "mlm_row_ok routes v \<longleftrightarrow>
     (mv_status v \<noteq> V_DRAFT \<longrightarrow> config_ok routes (mv_id v))
     \<and> mlm_creator.reviewed v \<and> mlm_maker.reviewed v"

definition mlm_inv :: "mlm_db \<Rightarrow> bool" where
  "mlm_inv db \<longleftrightarrow>
     unique_keys mv_id (md_versions db)
     \<and> unique_keys (\<lambda>v. (mv_policyId v, mv_versionNumber v)) (md_versions db)
     \<and> unique_keys mp_id (md_policies db)
     \<and> (\<forall>v\<in>set (md_versions db). mlm_row_ok (md_routes db) v)"

lemma md_mlm_audit [simp]:
  "md_versions (mlm_audit a e u db) = md_versions db"
  "md_policies (mlm_audit a e u db) = md_policies db"
  "md_routes (mlm_audit a e u db) = md_routes db"
  "md_states (mlm_audit a e u db) = md_states db"
  "md_catalog (mlm_audit a e u db) = md_catalog db"
  by (simp_all add: mlm_audit_def)

lemma policy_data_keys [simp]:
  "mv_id (policy_data c u now v) = mv_id v"
  "mv_policyId (policy_data c u now v) = mv_policyId v"
  "mv_versionNumber (policy_data c u now v) = mv_versionNumber v"
  by (cases c; simp)+

lemma validate_config:
  "validateVersionConfiguration i db = None \<Longrightarrow> config_ok (md_routes db) i"
  by (auto simp: validateVersionConfiguration_def config_ok_def version_routes_def Let_def
      split: option.splits if_splits)

lemma policy_data_ok:
  assumes "mlm_row_ok routes v" and "policy_check c u v = None"
    and "policy_validates c \<Longrightarrow> config_ok routes (mv_id v)"
  shows "mlm_row_ok routes (policy_data c u now v)"
proof -
  from assms(2) have tr: "policy_trans u (c, now) v = Some (policy_data c u now v)"
    by (simp add: policy_trans_def)
  have "config_ok routes (mv_id v)"
    using assms by (cases c) (auto simp: mlm_row_ok_def split: if_splits)
  with assms(1) mlm_creator.trans_reviewed [OF tr] mlm_maker.trans_reviewed [OF tr] show ?thesis
    by (simp add: mlm_row_ok_def)
qed

lemma mlm_row_ok_superseded:
  "mlm_row_ok routes v \<Longrightarrow> mv_status v = V_ACTIVE \<Longrightarrow>
   mlm_row_ok routes (v\<lparr>mv_status := V_SUPERSEDED, mv_updatedById := u\<rparr>)"
  by (cases "mv_submittedById v") (auto simp: mlm_row_ok_def mlm_creator.reviewed_def
      mlm_maker.reviewed_def mlm_cleared_def mlm_submitter_def)

lemma mlm_row_ok_activated:
  "mlm_row_ok routes v \<Longrightarrow> mv_status v = V_APPROVED \<Longrightarrow>
   mlm_row_ok routes (v\<lparr>mv_status := V_ACTIVE, mv_activatedById := x, mv_activatedAt := y,
     mv_updatedById := u\<rparr>)"
  by (cases "mv_submittedById v") (auto simp: mlm_row_ok_def mlm_creator.reviewed_def
      mlm_maker.reviewed_def mlm_cleared_def mlm_submitter_def)

lemma mlm_inv_handler:
  assumes "mlm_inv db"
  shows "mlm_inv (snd (policy_handler c i u now db))"
proof (cases "policy_read c i u db = None \<and> (\<exists>v t. update_one mv_id i (\<lambda>v. True)
    (policy_data c u now) (md_versions db) = Inr (v, t))")
  case False
  with assms show ?thesis
    by (auto simp: policy_handler_def policy_write_def split: option.splits sum.splits)
next
  case True
  then obtain v t where read: "policy_read c i u db = None"
    and upd: "update_one mv_id i (\<lambda>v. True) (policy_data c u now) (md_versions db) = Inr (v, t)"
    by blast
  from assms have uniq: "unique_keys mv_id (md_versions db)" by (simp add: mlm_inv_def)
  have "mlm_row_ok (md_routes db) w" if w: "w \<in> set t" for w
  proof -
    from update_one_rows [OF uniq upd w] show ?thesis
    proof (elim disjE exE conjE)
      assume "w \<in> set (md_versions db)"
      with assms show ?thesis by (simp add: mlm_inv_def)
    next
      fix r assume r: "find_unique mv_id i (md_versions db) = Some r" "w = policy_data c u now r"
      then have mem: "r \<in> set (md_versions db)" "mv_id r = i" by (auto dest: find_unique_Some_D)
      have "policy_check c u r = None"
        using read r(1) by (auto simp: policy_read_def split: option.splits)
      moreover have "policy_validates c \<Longrightarrow> config_ok (md_routes db) (mv_id r)"
        using read r(1) mem(2) by (auto simp: policy_read_def intro: validate_config split: option.splits)
      ultimately show ?thesis
        using assms mem r(2) by (auto simp: mlm_inv_def intro: policy_data_ok)
    qed
  qed
  moreover have "map mv_id t = map mv_id (md_versions db)"
    and "map (\<lambda>v. (mv_policyId v, mv_versionNumber v)) t =
      map (\<lambda>v. (mv_policyId v, mv_versionNumber v)) (md_versions db)"
    by (rule update_one_keys [OF upd], simp)+
  moreover have "snd (policy_handler c i u now db) =
      mlm_audit (policy_action c) i u (db\<lparr>md_versions := t\<rparr>)"
    using read upd by (simp add: policy_handler_def policy_write_def)
  ultimately show ?thesis
    using assms by (simp add: mlm_inv_def unique_keys_def)
qed

lemma promote_keys [simp]:
  "mv_id (promote_version u now v) = mv_id v"
  "mv_policyId (promote_version u now v) = mv_policyId v"
  "mv_versionNumber (promote_version u now v) = mv_versionNumber v"
  "mv_status (promote_version u now v) = V_ACTIVE"
  "mp_id (promote_policy u p) = mp_id p"
  "mp_scopeCode (promote_policy u p) = mp_scopeCode p"
  "mp_platformProductId (promote_policy u p) = mp_platformProductId p"
  "mp_operationalStatus (promote_policy u p) = ACTIVE"
  by (simp_all add: promote_version_def promote_policy_def)

lemma activate_mlm_write_Inr:
  assumes "activate_mlm_write version policy routes u now db = (Inr a, db')"
  shows "\<exists>versions2 policies2 q.
    update_one mv_id (mv_id version) (\<lambda>v. True) (promote_version u now)
      (supersede_versions (conflicting_ids policy (md_policies db)) u (md_versions db)) = Inr (a, versions2)
    \<and> update_one mp_id (mv_policyId version) (\<lambda>p. True) (promote_policy u)
      (retire_policies (conflicting_ids policy (md_policies db)) (mv_policyId version) u (md_policies db))
      = Inr (q, policies2)
    \<and> (\<forall>r\<in>set (filter mr_isActive routes). mr_id r \<notin> rs_routeId ` set (md_states db))
    \<and> md_versions db' = versions2 \<and> md_policies db' = policies2
    \<and> md_routes db' = md_routes db \<and> md_catalog db' = md_catalog db
    \<and> md_states db' = md_states db @ map (fresh_state (mv_id version)) (filter mr_isActive routes)"
proof -
  let ?v = "update_one mv_id (mv_id version) (\<lambda>v. True) (promote_version u now)
      (supersede_versions (conflicting_ids policy (md_policies db)) u (md_versions db))"
  let ?p = "update_one mp_id (mv_policyId version) (\<lambda>p. True) (promote_policy u)
      (retire_policies (conflicting_ids policy (md_policies db)) (mv_policyId version) u (md_policies db))"
  obtain a' vs where v: "?v = Inr (a', vs)"
    using assms by (cases ?v) (auto simp: activate_mlm_write_def)
  obtain q ps where p: "?p = Inr (q, ps)"
    using assms v by (cases ?p) (auto simp: activate_mlm_write_def Let_def)
  from assms show ?thesis
    unfolding activate_mlm_write_def Let_def v p sum.case prod.case
    by (auto simp: list_ex_iff fresh_state_def split: if_splits)
qed

lemma activate_mlm_Inr:
  assumes "activate_mlm i u now db = (Inr a, db')"
  shows "(find_unique mv_id i (md_versions db) = Some a \<and> mv_status a = V_ACTIVE \<and> db' = db)
    \<or> (\<exists>v p. find_unique mv_id i (md_versions db) = Some v \<and> mv_status v = V_APPROVED
        \<and> find_unique mp_id (mv_policyId v) (md_policies db) = Some p
        \<and> validateVersionConfiguration i db = None
        \<and> activate_mlm_write v p (version_routes i db) u now db = (Inr a, db'))"
  using assms by (auto simp: activate_mlm_def split: option.splits if_splits)

lemma activate_mlm_Inl: "fst (activate_mlm i u now db) = Inl e \<Longrightarrow> snd (activate_mlm i u now db) = db"
  by (auto simp: activate_mlm_def activate_mlm_write_def Let_def split: option.splits sum.splits if_splits)

lemma mlm_inv_activate:
  assumes "mlm_inv db"
  shows "mlm_inv (snd (activate_mlm i u now db))"
proof (cases "fst (activate_mlm i u now db)")
  case (Inl e)
  with assms activate_mlm_Inl show ?thesis by metis
next
  case (Inr a)
  obtain db' where db': "activate_mlm i u now db = (Inr a, db')"
    using Inr by (metis prod.collapse)
  from assms have uniq: "unique_keys mv_id (md_versions db)" by (simp add: mlm_inv_def)
  from activate_mlm_Inr [OF db'] show ?thesis
  proof (elim disjE exE conjE)
    assume "db' = db"
    with assms db' show ?thesis by simp
  next
    fix v p
    assume v: "find_unique mv_id i (md_versions db) = Some v" "mv_status v = V_APPROVED"
      and w: "activate_mlm_write v p (version_routes i db) u now db = (Inr a, db')"
    then have i: "mv_id v = i" "v \<in> set (md_versions db)" by (auto dest: find_unique_Some_D)
    let ?v1 = "supersede_versions (conflicting_ids p (md_policies db)) u (md_versions db)"
    from activate_mlm_write_Inr [OF w] obtain versions2 policies2 q where
      u2: "update_one mv_id (mv_id v) (\<lambda>v. True) (promote_version u now) ?v1 = Inr (a, versions2)"
      and p2: "update_one mp_id (mv_policyId v) (\<lambda>p. True) (promote_policy u)
        (retire_policies (conflicting_ids p (md_policies db)) (mv_policyId v) u (md_policies db))
        = Inr (q, policies2)"
      and fin: "md_versions db' = versions2" "md_policies db' = policies2" "md_routes db' = md_routes db"
      by blast
    have uniq1: "unique_keys mv_id ?v1"
      using uniq by (simp add: supersede_versions_def unique_keys_update_many)
    have v1: "find_unique mv_id (mv_id v) ?v1 = Some v"
      using v i by (simp add: supersede_versions_def find_unique_update_many)
    have "mlm_row_ok (md_routes db) x" if x: "x \<in> set versions2" for x
      using update_one_rows [OF uniq1 u2 x]
    proof (elim disjE exE conjE)
      assume "x \<in> set ?v1"
      then show ?thesis using assms
        by (auto simp: supersede_versions_def set_update_many mlm_inv_def mlm_row_ok_superseded
            split: if_splits)
    next
      fix r assume "find_unique mv_id (mv_id v) ?v1 = Some r" and "x = promote_version u now r"
      with v1 v(2) i(2) assms show ?thesis
        by (auto simp: mlm_inv_def promote_version_def mlm_row_ok_activated)
    qed
    moreover have "map mv_id versions2 = map mv_id (md_versions db)"
      using update_one_keys [OF u2, of mv_id]
      by (simp add: supersede_versions_def map_key_update_many)
    moreover have "map (\<lambda>v. (mv_policyId v, mv_versionNumber v)) versions2 =
        map (\<lambda>v. (mv_policyId v, mv_versionNumber v)) (md_versions db)"
      using update_one_keys [OF u2, of "\<lambda>v. (mv_policyId v, mv_versionNumber v)"]
      by (simp add: supersede_versions_def map_key_update_many)
    moreover have "map mp_id policies2 = map mp_id (md_policies db)"
      using update_one_keys [OF p2, of mp_id]
      by (simp add: retire_policies_def map_key_update_many)
    ultimately show ?thesis
      using assms db' fin by (simp add: mlm_inv_def unique_keys_def)
  qed
qed

lemma mlm_inv_routes:
  assumes "mlm_inv db"
  shows "mlm_inv (snd (updatePolicyVersionRoutes i rs u db))"
proof (cases "fst (updatePolicyVersionRoutes i rs u db)")
  case (Inl e)
  then have "snd (updatePolicyVersionRoutes i rs u db) = db"
    by (auto simp: updatePolicyVersionRoutes_def updateRoutes_write_def Let_def
        split: sum.splits if_splits)
  with assms show ?thesis by simp
next
  case (Inr new)
  from assms have uniq: "unique_keys mv_id (md_versions db)" by (simp add: mlm_inv_def)
  from Inr obtain v t where read: "updateRoutes_read i (map snd rs) db = Inr ()"
    and upd: "update_one mv_id i (\<lambda>v. True) (\<lambda>v. v\<lparr>mv_updatedById := u\<rparr>) (md_versions db) = Inr (v, t)"
    and db': "md_versions (snd (updatePolicyVersionRoutes i rs u db)) = t"
      "md_policies (snd (updatePolicyVersionRoutes i rs u db)) = md_policies db"
      "md_routes (snd (updatePolicyVersionRoutes i rs u db)) =
        filter (\<lambda>r. mr_versionId r \<noteq> i) (md_routes db) @ map (stored_route i) rs"
    by (auto simp: updatePolicyVersionRoutes_def updateRoutes_write_def Let_def
        split: sum.splits if_splits)
  from read obtain d where d: "find_unique mv_id i (md_versions db) = Some d" "mv_status d = V_DRAFT"
    by (auto simp: updateRoutes_read_def split: option.splits if_splits)
  let ?routes = "filter (\<lambda>r. mr_versionId r \<noteq> i) (md_routes db) @ map (stored_route i) rs"
  have other: "filter (\<lambda>r. mr_versionId r = j) ?routes = filter (\<lambda>r. mr_versionId r = j) (md_routes db)"
    if "j \<noteq> i" for j
  proof -
    have "filter (\<lambda>r. mr_versionId r = j) (map (stored_route i) rs) = []"
      using that by (auto simp: filter_empty_conv stored_route_def)
    moreover have "filter (\<lambda>r. mr_versionId r = j) (filter (\<lambda>r. mr_versionId r \<noteq> i) (md_routes db)) =
        filter (\<lambda>r. mr_versionId r = j) (md_routes db)"
      using that by (auto intro: filter_cong)
    ultimately show ?thesis by simp
  qed
  have "mlm_row_ok ?routes w" if w: "w \<in> set t" for w
    using update_one_rows [OF uniq upd w]
  proof (elim disjE exE conjE)
    assume mem: "w \<in> set (md_versions db)"
    show ?thesis
    proof (cases "mv_id w = i")
      case True
      with mem uniq d have "w = d" by (metis find_unique_in_set option.inject)
      with assms d mem show ?thesis by (auto simp: mlm_inv_def mlm_row_ok_def)
    next
      case False
      with assms mem show ?thesis
        unfolding mlm_inv_def mlm_row_ok_def config_ok_def other [OF False] by blast
    qed
  next
    fix r assume "find_unique mv_id i (md_versions db) = Some r" and "w = r\<lparr>mv_updatedById := u\<rparr>"
    with d show ?thesis
      by (auto simp: mlm_row_ok_def mlm_creator.reviewed_def mlm_maker.reviewed_def mlm_cleared_def)
  qed
  moreover have "map mv_id t = map mv_id (md_versions db)"
    and "map (\<lambda>v. (mv_policyId v, mv_versionNumber v)) t =
      map (\<lambda>v. (mv_policyId v, mv_versionNumber v)) (md_versions db)"
    by (rule update_one_keys [OF upd], simp)+
  ultimately show ?thesis
    using assms by (simp add: mlm_inv_def unique_keys_def db')
qed

lemma mlm_inv_version:
  "mlm_inv db \<Longrightarrow> mlm_inv (snd (createPolicyVersion i p m t u db))"
  by (auto simp: createPolicyVersion_def createPolicyVersion_write_def Let_def mlm_inv_def
      list_ex_iff mlm_row_ok_def mlm_creator.reviewed_def mlm_maker.reviewed_def mlm_cleared_def
      split: sum.splits)

lemma mlm_inv_create: "mlm_inv db \<Longrightarrow> mlm_inv (snd (createPolicy i dto u db))"
  by (auto simp: createPolicy_def Let_def mlm_inv_def list_ex_iff)

lemma mlm_inv_update: "mlm_inv db \<Longrightarrow> mlm_inv (snd (updatePolicy i dto u db))"
  by (auto simp: updatePolicy_def mlm_inv_def update_one_Inr unique_keys_update_many split: sum.splits)

lemma mlm_serve_inv: "mlm_inv db \<Longrightarrow> mlm_inv (mlm_serve r u db)"
  by (cases r) (simp_all add: mlm_inv_create mlm_inv_update mlm_inv_version mlm_inv_routes
      mlm_inv_handler mlm_inv_activate)

lemma mlm_serve_all_inv: "mlm_inv db \<Longrightarrow> mlm_inv (mlm_serve_all rs db)"
  unfolding mlm_serve_all_def
  by (induction rs arbitrary: db) (auto simp: case_prod_unfold mlm_serve_inv)

lemma no_policies_inv: "mlm_inv (no_policies cat)"
  by (simp add: mlm_inv_def no_policies_def)

section \<open>Properties\<close>

definition demo_mlm_base :: mlm_db where
  "demo_mlm_base = no_policies demo_catalog"

definition demo_policy :: create_policy_dto where
  "demo_policy = \<lparr>yp_name = ''Split'', yp_code = ''SPLIT'', yp_description = None,
     yp_scopeCode = None, yp_platformProductId = ''PP''\<rparr>"

definition demo_route_dto :: "rat \<Rightarrow> route_dto" where
  "demo_route_dto w = \<lparr>ro_lenderId = ''L1'', ro_productId = ''P1'', ro_allocationPercentage = w,
     ro_isActive = Some True, ro_sortOrder = 0\<rparr>"

text \<open>Drafting, submitting, approving and activating one version with one route.\<close>

definition demo_rollout :: "ident \<Rightarrow> ident \<Rightarrow> (ident \<times> mlm_request) list" where
  "demo_rollout v r =
     [(''ann'', QVersion v ''MP'' ''WEIGHTED_FAIR_SHARE'' None),
      (''ann'', QRoutes v [(r, demo_route_dto 100)]), (''ann'', QCall PSubmit v 1),
      (''bob'', QCall PApprove v 2), (''bob'', QActivate v 3)]"

definition demo_mlm :: mlm_db where
  "demo_mlm = mlm_serve_all ((''ann'', QCreate ''MP'' demo_policy) # demo_rollout ''W1'' ''R1'') demo_mlm_base"

text \<open>
  C14. After any sequence of policy requests, each run to its end: a policy has no two versions
  with one number; a version that is approved, active or superseded was approved by a user who
  neither created nor submitted it; and the active routes of every version past draft exist and
  add up to exactly 100 per cent.
\<close>

theorem mlm_serial_invariant:
  assumes "v \<in> set (md_versions (mlm_serve_all rs (no_policies cat)))"
  shows "unique_keys (\<lambda>v. (mv_policyId v, mv_versionNumber v))
      (md_versions (mlm_serve_all rs (no_policies cat)))
    \<and> (mv_status v \<in> {V_APPROVED, V_ACTIVE, V_SUPERSEDED} \<longrightarrow>
         (\<exists>a. mv_approvedById v = Some a \<and> a \<noteq> mv_createdById v \<and> a \<noteq> mlm_submitter v))
    \<and> (mv_status v \<noteq> V_DRAFT \<longrightarrow>
         sum_list (map percent_of (filter mr_isActive
           (version_routes (mv_id v) (mlm_serve_all rs (no_policies cat))))) = 100)"
proof -
  have inv: "mlm_inv (mlm_serve_all rs (no_policies cat))"
    by (rule mlm_serve_all_inv [OF no_policies_inv])
  with assms have row: "mlm_row_ok (md_routes (mlm_serve_all rs (no_policies cat))) v"
    by (simp add: mlm_inv_def)
  have "\<exists>a. mv_approvedById v = Some a \<and> a \<noteq> mv_createdById v \<and> a \<noteq> mlm_submitter v"
    if "mv_status v \<in> {V_APPROVED, V_ACTIVE, V_SUPERSEDED}"
  proof -
    from that have "mlm_cleared v" by (simp add: mlm_cleared_def)
    with row obtain a b where "mv_approvedById v = Some a" "a \<noteq> mv_createdById v"
      and "mv_approvedById v = Some b" "b \<noteq> mlm_submitter v"
      unfolding mlm_row_ok_def mlm_creator.reviewed_def mlm_maker.reviewed_def by blast
    then show ?thesis by simp
  qed
  moreover have "mv_status v \<noteq> V_DRAFT \<longrightarrow> sum_list (map percent_of (filter mr_isActive
      (version_routes (mv_id v) (mlm_serve_all rs (no_policies cat))))) = 100"
    using row by (simp add: mlm_row_ok_def config_ok_def version_routes_def)
  moreover from inv have "unique_keys (\<lambda>v. (mv_policyId v, mv_versionNumber v))
      (md_versions (mlm_serve_all rs (no_policies cat)))" by (simp add: mlm_inv_def)
  ultimately show ?thesis by blast
qed

theorem mlm_serial_invariant_witness:
  "mv_approvedById (hd (md_versions demo_mlm)) = Some ''bob''
   \<and> mv_createdById (hd (md_versions demo_mlm)) \<noteq> ''bob''"
proof -
  have mem: "hd (md_versions demo_mlm) \<in> set (md_versions (mlm_serve_all
      ((''ann'', QCreate ''MP'' demo_policy) # demo_rollout ''W1'' ''R1'') (no_policies demo_catalog)))"
    unfolding demo_mlm_def demo_mlm_base_def by (rule hd_in_set) code_simp
  have st: "mv_status (hd (md_versions demo_mlm)) = V_ACTIVE" by code_simp
  have a: "mv_approvedById (hd (md_versions demo_mlm)) = Some ''bob''" by code_simp
  from mlm_serial_invariant [OF mem] st a show ?thesis by auto
qed

lemma filter_single:
  assumes "unique_keys key t" and "v \<in> set t" and "P v"
    and "\<And>w. w \<in> set t \<Longrightarrow> P w \<Longrightarrow> key w = key v"
  shows "filter P t = [v]"
  using assms
proof (induction t)
  case Nil
  then show ?case by simp
next
  case (Cons a t)
  show ?case
  proof (cases "a = v")
    case True
    have "\<not> P w" if "w \<in> set t" for w
      using Cons.prems(1,4) that True by (metis image_eqI list.set_intros(2) unique_keys_Cons)
    then have "filter P t = []" by (simp add: filter_empty_conv)
    with True Cons.prems(3) show ?thesis by simp
  next
    case False
    with Cons.prems(2) have "v \<in> set t" by simp
    have "unique_keys key t" using Cons.prems(1) by simp
    from this \<open>v \<in> set t\<close> Cons.prems(3) have "filter P t = [v]"
      by (rule Cons.IH) (rule Cons.prems(4), rule list.set_intros(2))
    moreover have "\<not> P a"
      using Cons.prems(1,4) \<open>v \<in> set t\<close> by (metis image_eqI list.set_intros(1) unique_keys_Cons)
    ultimately show ?thesis by simp
  qed
qed

lemma find_filter: "List.find P xs = (case filter P xs of [] \<Rightarrow> None | x # _ \<Rightarrow> Some x)"
  by (induction xs) auto

text \<open>
  C15. Activation takes effect: when an approved version is activated whose policy is active,
  or has no active version yet, then the version the allocation uses for the policy's scope
  and platform product is the activated one, its active routes have a state each, with weight
  zero, and their percentages add up to 100.
\<close>

theorem activation_takes_effect:
  assumes "mlm_inv db" and "activate_mlm i u now db = (Inr a, db')"
    and "find_unique mv_id i (md_versions db) = Some v" and "mv_status v = V_APPROVED"
    and "find_unique mp_id (mv_policyId v) (md_policies db) = Some p"
    and "mp_operationalStatus p = ACTIVE \<or>
         (\<forall>w\<in>set (md_versions db). mv_policyId w = mp_id p \<longrightarrow> mv_status w \<noteq> V_ACTIVE)"
  shows "getActiveMlmPolicyVersion (mp_scopeCode p) (mp_platformProductId p) db' = Inr a
    \<and> mv_id a = i
    \<and> (\<forall>r\<in>set (version_routes i db'). mr_isActive r \<longrightarrow>
         (\<exists>s\<in>set (md_states db'). rs_routeId s = mr_id r \<and> rs_mlmPolicyVersionId s = i
            \<and> rs_currentWeight s = 0))
    \<and> sum_list (map percent_of (filter mr_isActive (version_routes i db'))) = 100"
proof -
  from activate_mlm_Inr [OF assms(2)] assms(3-5) have
    w: "activate_mlm_write v p (version_routes i db) u now db = (Inr a, db')"
    and val: "validateVersionConfiguration i db = None" by auto
  let ?ids = "conflicting_ids p (md_policies db)"
  let ?v1 = "supersede_versions ?ids u (md_versions db)"
  let ?p1 = "retire_policies ?ids (mv_policyId v) u (md_policies db)"
  from activate_mlm_write_Inr [OF w] obtain vs ps q where
    u2: "update_one mv_id (mv_id v) (\<lambda>v. True) (promote_version u now) ?v1 = Inr (a, vs)"
    and p2: "update_one mp_id (mv_policyId v) (\<lambda>p. True) (promote_policy u) ?p1 = Inr (q, ps)"
    and fin: "md_versions db' = vs" "md_policies db' = ps" "md_routes db' = md_routes db"
      "md_states db' = md_states db @ map (fresh_state (mv_id v)) (filter mr_isActive (version_routes i db))"
    by blast
  from assms(3) have i: "mv_id v = i" "v \<in> set (md_versions db)" by (auto dest: find_unique_Some_D)
  from assms(5) have pid: "mp_id p = mv_policyId v" "p \<in> set (md_policies db)"
    by (auto dest: find_unique_Some_D)
  from assms(1) have uv: "unique_keys mv_id (md_versions db)" and up: "unique_keys mp_id (md_policies db)"
    by (simp_all add: mlm_inv_def)
  have uv1: "unique_keys mv_id ?v1" and up1: "unique_keys mp_id ?p1"
    using uv up by (simp_all add: supersede_versions_def retire_policies_def unique_keys_update_many)
  have f1: "find_unique mv_id (mv_id v) ?v1 = Some v"
    using assms(3,4) i by (simp add: supersede_versions_def find_unique_update_many)
  have g1: "find_unique mp_id (mv_policyId v) ?p1 = Some p"
    using assms(5) pid by (simp add: retire_policies_def find_unique_update_many)
  have a: "a = promote_version u now v" using u2 f1 by (auto simp: update_one_Inr)
  have q: "q = promote_policy u p" using p2 g1 by (auto simp: update_one_Inr)
  have vs: "find_unique mv_id (mv_id v) vs = Some a" by (rule update_one_find [OF u2]) simp
  have ps: "find_unique mp_id (mv_policyId v) ps = Some q" by (rule update_one_find [OF p2]) simp
  have uvs: "unique_keys mv_id vs"
    using uv1 update_one_keys [OF u2, of mv_id] by (simp add: unique_keys_def)
  have ups: "unique_keys mp_id ps"
    using up1 update_one_keys [OF p2, of mp_id] by (simp add: unique_keys_def)
  \<comment> \<open>the policy is the only active one of its scope and product\<close>
  let ?P = "\<lambda>x. mp_scopeCode x = mp_scopeCode p \<and> mp_platformProductId x = mp_platformProductId p
      \<and> mp_operationalStatus x = ACTIVE"
  have only_p: "mp_id x = mp_id q" if x: "x \<in> set ps" "?P x" for x
    using update_one_rows [OF up1 p2 x(1)]
  proof (elim disjE exE conjE)
    assume "x \<in> set ?p1"
    with x(2) show ?thesis
      by (auto simp: retire_policies_def set_update_many conflicting_ids_def q pid split: if_splits)
  qed simp
  have "q \<in> set ps" using ps by (auto dest: find_unique_Some_D)
  moreover have "?P q" by (simp add: q)
  ultimately have "filter ?P ps = [q]" by (intro filter_single [OF ups]) (auto intro: only_p)
  then have find_p: "List.find ?P ps = Some q"
    by (simp add: find_filter)
  \<comment> \<open>the version is the only active one of the policy\<close>
  let ?V = "\<lambda>x. mv_policyId x = mp_id q \<and> mv_status x = V_ACTIVE"
  have only_v: "mv_id x = mv_id a" if x: "x \<in> set vs" "?V x" for x
    using update_one_rows [OF uv1 u2 x(1)]
  proof (elim disjE exE conjE)
    assume "x \<in> set ?v1"
    with x(2) have "x \<in> set (md_versions db)" "mv_policyId x \<notin> set ?ids"
      by (auto simp: supersede_versions_def set_update_many split: if_splits)
    moreover have "mp_operationalStatus p = ACTIVE \<Longrightarrow> mp_id p \<in> set ?ids"
      using pid(2) by (auto simp: conflicting_ids_def intro!: image_eqI [of _ mp_id p])
    ultimately have False using assms(6) x(2) by (auto simp: q)
    then show ?thesis ..
  qed simp
  have "a \<in> set vs" using vs by (auto dest: find_unique_Some_D)
  moreover have "?V a" by (simp add: a q pid)
  ultimately have "filter ?V vs = [a]" by (intro filter_single [OF uvs]) (auto intro: only_v)
  with find_p have "getActiveMlmPolicyVersion (mp_scopeCode p) (mp_platformProductId p) db' = Inr a"
    by (simp add: getActiveMlmPolicyVersion_def fin)
  moreover have "version_routes i db' = version_routes i db" by (simp add: version_routes_def fin)
  moreover have "sum_list (map percent_of (filter mr_isActive (version_routes i db))) = 100"
    using validate_config [OF val] by (simp add: config_ok_def version_routes_def)
  moreover have "\<exists>s\<in>set (md_states db'). rs_routeId s = mr_id r \<and> rs_mlmPolicyVersionId s = i
      \<and> rs_currentWeight s = 0" if "r \<in> set (version_routes i db)" "mr_isActive r" for r
  proof (rule bexI)
    show "fresh_state i r \<in> set (md_states db')" using that i(1) by (auto simp: fin)
  qed (simp add: fresh_state_def)
  ultimately show ?thesis using i a by simp
qed

theorem activation_takes_effect_witness:
  "\<exists>a. getActiveMlmPolicyVersion ''PLATFORM_DEFAULT'' ''PP'' demo_mlm = Inr a \<and> mv_id a = ''W1''"
proof -
  let ?db = "mlm_serve_all ((''ann'', QCreate ''MP'' demo_policy) #
      butlast (demo_rollout ''W1'' ''R1'')) demo_mlm_base"
  let ?v = "hd (md_versions ?db)"
  let ?p = "hd (md_policies ?db)"
  let ?act = "activate_mlm ''W1'' ''bob'' 3 ?db"
  have inv: "mlm_inv ?db"
    unfolding demo_mlm_base_def by (rule mlm_serve_all_inv [OF no_policies_inv])
  have "isl (fst ?act) = False" by code_simp
  then obtain a where act: "?act = (Inr a, snd ?act)" by (metis isl_def sum.exhaust prod.collapse)
  have v: "find_unique mv_id ''W1'' (md_versions ?db) = Some ?v" by code_simp
  have st: "mv_status ?v = V_APPROVED" by code_simp
  have p: "find_unique mp_id (mv_policyId ?v) (md_policies ?db) = Some ?p" by code_simp
  have "\<forall>w\<in>set (md_versions ?db). mv_status w \<noteq> V_ACTIVE" by code_simp
  then have no: "mp_operationalStatus ?p = ACTIVE \<or>
      (\<forall>w\<in>set (md_versions ?db). mv_policyId w = mp_id ?p \<longrightarrow> mv_status w \<noteq> V_ACTIVE)"
    by blast
  have scope: "mp_scopeCode ?p = ''PLATFORM_DEFAULT''" "mp_platformProductId ?p = ''PP''" by code_simp+
  have "demo_mlm = snd ?act"
    by (simp add: demo_mlm_def mlm_serve_all_def demo_rollout_def)
  with activation_takes_effect [OF inv act v st p no] scope show ?thesis by auto
qed

text \<open>
  The gap in activation: only active policies have their active versions superseded. When a
  policy is switched off by \<open>updatePolicy\<close> while it has an active version, the activation of
  its next version leaves both active, and from then on every allocation of that scope and
  product fails with MLM\_ACTIVE\_POLICY\_CONFLICT.
\<close>

theorem activation_conflict:
  "\<exists>rs. getActiveMlmPolicyVersion ''PLATFORM_DEFAULT'' ''PP'' (mlm_serve_all rs demo_mlm) =
      Inl (Conflict ''MLM_ACTIVE_POLICY_CONFLICT'')
    \<and> fst (executeAllocation ''D1'' (demo_dto ''A1'' ''PASS'') 10 [] (mlm_serve_all rs demo_mlm)) =
      Inl (Conflict ''MLM_ACTIVE_POLICY_CONFLICT'')"
proof -
  let ?rs = "(''ann'', QUpdate ''MP'' \<lparr>up_name = None, up_description = None,
      up_operationalStatus = Some INACTIVE\<rparr>) # demo_rollout ''W2'' ''R2''"
  have c: "getActiveMlmPolicyVersion ''PLATFORM_DEFAULT'' ''PP'' (mlm_serve_all ?rs demo_mlm) =
      Inl (Conflict ''MLM_ACTIVE_POLICY_CONFLICT'')" by code_simp
  moreover have "fst (executeAllocation ''D1'' (demo_dto ''A1'' ''PASS'') 10 [] (mlm_serve_all ?rs demo_mlm)) =
      Inl (Conflict ''MLM_ACTIVE_POLICY_CONFLICT'')"
    using c by (simp add: executeAllocation_def demo_dto_def)
  ultimately show ?thesis by blast
qed

text \<open>
  The draft-only rule for routes is checked on what was read, and the transaction that
  replaces the routes checks nothing: a replacement that was admitted while the version was a
  draft can commit after the version was submitted, approved and activated. The active version
  then has routes that add up to 40 per cent and no route state, and allocation fails with
  P2025 for every application that passes the platform policy.
\<close>

theorem routes_replaced_after_activation:
  "\<exists>draft db late. updateRoutes_read ''W1'' (map snd late) draft = Inr ()
    \<and> db = mlm_serve_all (drop 2 (demo_rollout ''W1'' ''R1'')) draft
    \<and> map mv_status (md_versions (snd (updateRoutes_write ''W1'' late ''ann'' db))) = [V_ACTIVE]
    \<and> sum_list (map percent_of (filter mr_isActive (version_routes ''W1''
         (snd (updateRoutes_write ''W1'' late ''ann'' db))))) = 40
    \<and> fst (executeAllocation ''D1'' (demo_dto ''A1'' ''PASS'') 10 []
         (snd (updateRoutes_write ''W1'' late ''ann'' db))) = Inl (DbError ''P2025'')"
proof -
  let ?draft = "mlm_serve_all ((''ann'', QCreate ''MP'' demo_policy) # take 2 (demo_rollout ''W1'' ''R1''))
      demo_mlm_base"
  let ?late = "[(''R9'', demo_route_dto 40)]"
  let ?db = "mlm_serve_all (drop 2 (demo_rollout ''W1'' ''R1'')) ?draft"
  have 1: "updateRoutes_read ''W1'' (map snd ?late) ?draft = Inr ()" by code_simp
  have 2: "map mv_status (md_versions (snd (updateRoutes_write ''W1'' ?late ''ann'' ?db))) = [V_ACTIVE]"
    by code_simp
  have 3: "sum_list (map percent_of (filter mr_isActive (version_routes ''W1''
         (snd (updateRoutes_write ''W1'' ?late ''ann'' ?db))))) = 40" by code_simp
  have 4: "fst (executeAllocation ''D1'' (demo_dto ''A1'' ''PASS'') 10 []
         (snd (updateRoutes_write ''W1'' ?late ''ann'' ?db))) = Inl (DbError ''P2025'')" by code_simp
  show ?thesis
    by (intro exI [of _ ?draft] exI [of _ ?db] exI [of _ ?late] conjI) (rule 1 refl 2 3 4)+
qed

end
