(* ===== verification/PolicyEval.thy ===== *)
theory PolicyEval
  imports AuditLogs "HOL-Library.Multiset"
begin

text \<open>
  Evaluation of the platform eligibility policy
  (modules/platform-policies/policy-evaluation.service.ts).

  Inputs and expected values are JavaScript values (the type \<open>json\<close> of the audit theory). A
  number is the exact decimal value it prints as. Two conversions are parameters: \<open>dec\<close> is
  \<open>new Prisma.Decimal(x.toString())\<close> (None where it throws) and \<open>num\<close> is the coercion of a
  value that is no number, boolean or null to a number (None for NaN). The parsing of a date
  input to its UTC year, month and day is the parameter \<open>civil\<close> (None for an invalid date).
\<close>

section \<open>Rules\<close>

datatype value_type = T_BOOLEAN | T_INTEGER | T_DECIMAL | T_STRING | T_STRING_ARRAY

datatype rule_operator =
    O_EQUALS | O_NOT_EQUALS | O_GREATER_THAN | O_GREATER_THAN_OR_EQUAL
  | O_LESS_THAN | O_LESS_THAN_OR_EQUAL | O_IN | O_NOT_IN | O_IS_TRUE | O_IS_FALSE

datatype outcome = PASS | FAIL | REFER | POLICY_INPUT_MISSING

record policy_rule =
  pr_ruleCode :: string
  pr_ruleName :: string
  pr_category :: string
  pr_inputKey :: string
  pr_valueType :: value_type
  pr_operator :: rule_operator
  pr_expectedValue :: json
  pr_failureOutcome :: outcome
  pr_reasonCode :: string
  pr_customerMessage :: string
  pr_internalMessage :: "string option"
  pr_priority :: int
  pr_isActive :: bool
  pr_sortOrder :: int

record rule_result =
  rr_ruleCode :: string
  rr_ruleName :: string
  rr_outcome :: outcome
  rr_message :: "string option"
  rr_reasonCode :: "string option"
  rr_inputValue :: json
  rr_expectedValue :: json
  rr_source :: json

section \<open>JavaScript values\<close>

fun truthy :: "json \<Rightarrow> bool" where
  "truthy JNull = False"
| "truthy JUndefined = False"
| "truthy (JBool b) = b"
| "truthy (JNum x) = (x \<noteq> 0)"
| "truthy (JStr s) = (s \<noteq> [])"
| "truthy _ = True"

text \<open>\<open>x || y\<close>\<close>

definition js_or :: "json \<Rightarrow> json \<Rightarrow> json" where
  "js_or x y = (if truthy x then x else y)"

definition is_digit :: "char \<Rightarrow> bool" where
  "is_digit c \<longleftrightarrow> 48 \<le> (of_char c :: nat) \<and> (of_char c :: nat) \<le> 57"

definition is_space :: "char \<Rightarrow> bool" where
  "is_space c \<longleftrightarrow> (of_char c :: nat) \<in> {9, 10, 11, 12, 13, 32, 160}"

definition digits_value :: "string \<Rightarrow> int" where
  "digits_value s = foldl (\<lambda>n c. 10 * n + (of_char c - 48)) 0 s"

text \<open>\<open>parseInt(s, 10)\<close>: leading white space, a sign, the longest run of digits; None is NaN.\<close>

definition parse_digits :: "string \<Rightarrow> int option" where
  "parse_digits s = (case takeWhile is_digit s of [] \<Rightarrow> None | ds \<Rightarrow> Some (digits_value ds))"

definition parse_int_str :: "string \<Rightarrow> int option" where
  "parse_int_str s =
     (case dropWhile is_space s of
        c # r \<Rightarrow>
          if c = CHR ''-'' then map_option uminus (parse_digits r)
          else if c = CHR ''+'' then parse_digits r
          else parse_digits (c # r)
      | [] \<Rightarrow> None)"

text \<open>
  \<open>parseInt(x.toString(), 10)\<close> of a number: it prints positionally from 1e-6 to 1e21, where
  the fraction is cut; outside, it prints in exponent form and only the first digit is read.
  A double's exponent is below 330, which bounds \<open>lead_digit\<close>.
\<close>

fun lead_digit :: "nat \<Rightarrow> rat \<Rightarrow> int" where
  "lead_digit 0 x = \<lfloor>x\<rfloor>"
| "lead_digit (Suc n) x =
     (if 10 \<le> x then lead_digit n (x / 10) else if x < 1 then lead_digit n (x * 10) else \<lfloor>x\<rfloor>)"

definition trunc_num :: "rat \<Rightarrow> int" where
  "trunc_num x =
     (let a = \<bar>x\<bar>;
          t = (if a = 0 then 0
               else if 1 / 1000000 \<le> a \<and> a < 1000000000000000000000 then \<lfloor>a\<rfloor>
               else lead_digit 330 a)
      in if x < 0 then - t else t)"

fun parse_int :: "json \<Rightarrow> int option" where
  "parse_int (JNum x) = Some (trunc_num x)"
| "parse_int (JStr s) = parse_int_str s"
| "parse_int (JArr (j # js)) = parse_int j"
| "parse_int _ = None"

text \<open>A converted operand: a \<open>Decimal\<close>, a plain value, or NaN.\<close>

datatype operand = Dec rat | Val json | NotANumber

fun strict_equal :: "json \<Rightarrow> json \<Rightarrow> bool" where
  "strict_equal JNull JNull = True"
| "strict_equal JUndefined JUndefined = True"
| "strict_equal (JBool a) (JBool b) = (a = b)"
| "strict_equal (JNum a) (JNum b) = (a = b)"
| "strict_equal (JStr a) (JStr b) = (a = b)"
| "strict_equal _ _ = False"  \<comment> \<open>other types differ; two objects are never the same\<close>

fun operand_equal :: "operand \<Rightarrow> operand \<Rightarrow> bool" where
  "operand_equal (Val a) (Val b) = strict_equal a b"
| "operand_equal _ _ = False"

fun to_number :: "(json \<Rightarrow> rat option) \<Rightarrow> json \<Rightarrow> rat option" where
  "to_number num JNull = Some 0"
| "to_number num JUndefined = None"
| "to_number num (JBool b) = Some (if b then 1 else 0)"
| "to_number num (JNum x) = Some x"
| "to_number num j = num j"

text \<open>\<open>a < b\<close> and \<open>a <= b\<close> on plain values: strings by their characters, else as numbers.\<close>

fun js_less :: "(json \<Rightarrow> rat option) \<Rightarrow> bool \<Rightarrow> json \<Rightarrow> json \<Rightarrow> bool" where
  "js_less num eq (JStr a) (JStr b) = (a < b \<or> eq \<and> a = b)"
| "js_less num eq a b =
     (case (to_number num a, to_number num b) of
        (Some x, Some y) \<Rightarrow> x < y \<or> eq \<and> x = y
      | _ \<Rightarrow> False)"

fun operand_less :: "(json \<Rightarrow> rat option) \<Rightarrow> bool \<Rightarrow> operand \<Rightarrow> operand \<Rightarrow> bool" where
  "operand_less num eq (Val a) (Val b) = js_less num eq a b"
| "operand_less _ _ _ _ = False"

fun array_includes :: "operand \<Rightarrow> operand \<Rightarrow> bool option" where
  "array_includes (Val (JArr js)) (Val x) = Some (list_ex (strict_equal x) js)"
| "array_includes (Val (JArr js)) _ = Some False"
| "array_includes _ _ = None"

section \<open>One rule\<close>

definition parse_operand ::
  "(json \<Rightarrow> rat option) \<Rightarrow> value_type \<Rightarrow> json \<Rightarrow> operand option" where
  "parse_operand dec vt j =
     (case vt of
        T_DECIMAL \<Rightarrow> map_option Dec (dec j)
      | T_INTEGER \<Rightarrow>
          Some (case parse_int j of None \<Rightarrow> NotANumber | Some n \<Rightarrow> Val (JNum (of_int n)))
      | T_BOOLEAN \<Rightarrow> Some (Val (JBool (truthy j)))
      | _ \<Rightarrow> Some (Val j))"

text \<open>The expected value: null stays null, for the types that convert.\<close>

definition parse_expected ::
  "(json \<Rightarrow> rat option) \<Rightarrow> value_type \<Rightarrow> json \<Rightarrow> operand option" where
  "parse_expected dec vt j = (if j = JNull then Some (Val JNull) else parse_operand dec vt j)"

text \<open>
  A Decimal method compares with a Decimal, and throws on null (\<open>Inl\<close>).
\<close>

fun decimal_compare :: "rule_operator \<Rightarrow> rat \<Rightarrow> rat \<Rightarrow> bool" where
  "decimal_compare O_EQUALS x y = (x = y)"
| "decimal_compare O_NOT_EQUALS x y = (x \<noteq> y)"
| "decimal_compare O_GREATER_THAN x y = (y < x)"
| "decimal_compare O_GREATER_THAN_OR_EQUAL x y = (y \<le> x)"
| "decimal_compare O_LESS_THAN x y = (x < y)"
| "decimal_compare O_LESS_THAN_OR_EQUAL x y = (x \<le> y)"
| "decimal_compare _ x y = False"

fun plain_compare :: "(json \<Rightarrow> rat option) \<Rightarrow> rule_operator \<Rightarrow> operand \<Rightarrow> operand \<Rightarrow> bool" where
  "plain_compare num O_EQUALS x y = operand_equal x y"
| "plain_compare num O_NOT_EQUALS x y = (\<not> operand_equal x y)"
| "plain_compare num O_GREATER_THAN x y = operand_less num False y x"
| "plain_compare num O_GREATER_THAN_OR_EQUAL x y = operand_less num True y x"
| "plain_compare num O_LESS_THAN x y = operand_less num False x y"
| "plain_compare num O_LESS_THAN_OR_EQUAL x y = operand_less num True x y"
| "plain_compare num O_IN x y = (case array_includes y x of Some b \<Rightarrow> b | None \<Rightarrow> False)"
| "plain_compare num O_NOT_IN x y = (case array_includes y x of Some b \<Rightarrow> \<not> b | None \<Rightarrow> False)"
| "plain_compare num O_IS_TRUE x y = operand_equal x (Val (JBool True))"
| "plain_compare num O_IS_FALSE x y = operand_equal x (Val (JBool False))"

definition is_comparison :: "rule_operator \<Rightarrow> bool" where
  "is_comparison o' \<longleftrightarrow> o' \<notin> {O_IN, O_NOT_IN, O_IS_TRUE, O_IS_FALSE}"

definition evaluateRuleCondition ::
  "(json \<Rightarrow> rat option) \<Rightarrow> (json \<Rightarrow> rat option) \<Rightarrow> policy_rule \<Rightarrow> json \<Rightarrow> http_error + bool" where
  "evaluateRuleCondition dec num rule actualInput =
     (case (parse_operand dec (pr_valueType rule) actualInput,
            parse_expected dec (pr_valueType rule) (pr_expectedValue rule)) of
        (Some x, Some y) \<Rightarrow>
          if pr_valueType rule = T_DECIMAL \<and> is_comparison (pr_operator rule) then
            (case (x, y) of
               (Dec a, Dec b) \<Rightarrow> Inr (decimal_compare (pr_operator rule) a b)
             | _ \<Rightarrow> Inl (ServerError ''DecimalError''))
          else Inr (plain_compare num (pr_operator rule) x y)
      | _ \<Rightarrow> Inr False)"

section \<open>Age\<close>

type_synonym civil_date = "int \<times> int \<times> int"

text \<open>\<open>calculateCompletedYears\<close> on year, month and day.\<close>

definition completed_years :: "civil_date \<Rightarrow> civil_date \<Rightarrow> int" where
  "completed_years dob evalDate =
     (case (dob, evalDate) of
        ((y1, m1, d1), (y2, m2, d2)) \<Rightarrow>
          let age = y2 - y1; m = m2 - m1
          in if m < 0 \<or> m = 0 \<and> d2 < d1 then age - 1 else age)"

section \<open>The policy\<close>

definition createMissingResult :: "policy_rule \<Rightarrow> rule_result" where
  "createMissingResult rule =
     \<lparr>rr_ruleCode = pr_ruleCode rule, rr_ruleName = pr_ruleName rule,
      rr_outcome = POLICY_INPUT_MISSING,
      rr_message = Some (''Missing required input for key: '' @ pr_inputKey rule),
      rr_reasonCode = Some ''MISSING_DATA'',
      rr_inputValue = JUndefined, rr_expectedValue = JUndefined, rr_source = JUndefined\<rparr>"

definition age_rule :: "policy_rule \<Rightarrow> bool" where
  "age_rule rule \<longleftrightarrow> pr_ruleCode rule = ''MINIMUM_AGE'' \<or> pr_ruleCode rule = ''MAXIMUM_AGE''"

text \<open>
  The value that is checked: for an age rule the completed years. An invalid date gives NaN;
  the age rules are INTEGER rules in the catalogue, and \<open>parseInt\<close> takes NaN to its string
  and that back to NaN, so the string stands for it here.
\<close>

definition actual_input ::
  "(json \<Rightarrow> civil_date option) \<Rightarrow> civil_date \<Rightarrow> policy_rule \<Rightarrow> json \<Rightarrow> json" where
  "actual_input civil evalDate rule j =
     (if age_rule rule then
        (case civil j of
           None \<Rightarrow> JStr ''NaN''
         | Some dob \<Rightarrow> JNum (of_int (completed_years dob evalDate)))
      else j)"

text \<open>One turn of the loop: the result of the rule, or the error that ends the evaluation.\<close>

definition evaluate_rule ::
  "(json \<Rightarrow> rat option) \<Rightarrow> (json \<Rightarrow> rat option) \<Rightarrow> (json \<Rightarrow> civil_date option) \<Rightarrow> civil_date \<Rightarrow>
   (string \<Rightarrow> json) \<Rightarrow> policy_rule \<Rightarrow> http_error + rule_result" where
  "evaluate_rule dec num civil evalDate inputs rule =
     (let inputVal = inputs (pr_inputKey rule) in
      if inputVal = JUndefined \<or> inputVal = JNull then
        if \<not> age_rule rule \<and> pr_ruleCode rule = ''COOLING_OFF_DAYS'' \<and> inputVal = JNull
        then Inr \<lparr>rr_ruleCode = pr_ruleCode rule, rr_ruleName = pr_ruleName rule,
                  rr_outcome = PASS, rr_message = None, rr_reasonCode = None,
                  rr_inputValue = JStr ''No Previous Rejection'',
                  rr_expectedValue = pr_expectedValue rule, rr_source = JUndefined\<rparr>
        else Inr (createMissingResult rule)
      else
        let actual = actual_input civil evalDate rule inputVal in
        case evaluateRuleCondition dec num rule actual of
          Inl e \<Rightarrow> Inl e
        | Inr passed \<Rightarrow>
            let oc = (if passed then PASS else pr_failureOutcome rule) in
            if oc = REFER then Inl (ServerError ''PLATFORM_POLICY_REFER_NOT_ALLOWED'')
            else
              Inr \<lparr>rr_ruleCode = pr_ruleCode rule, rr_ruleName = pr_ruleName rule,
                   rr_outcome = oc,
                   rr_message = (if passed then None else Some (pr_customerMessage rule)),
                   rr_reasonCode = (if passed then None else Some (pr_reasonCode rule)),
                   rr_inputValue = actual, rr_expectedValue = pr_expectedValue rule,
                   rr_source = (if pr_ruleCode rule = ''MINIMUM_ABB''
                     then js_or (inputs ''averageBankBalanceSource'')
                            (js_or (inputs ''abbSource'') JUndefined)
                     else JUndefined)\<rparr>)"

text \<open>What a result does to the final outcome: the last rule that is not met decides.\<close>

definition rule_passed :: "rule_result \<Rightarrow> bool" where
  "rule_passed r \<longleftrightarrow> rr_message r = None"

definition next_outcome :: "outcome \<Rightarrow> rule_result \<Rightarrow> outcome" where
  "next_outcome oc r =
     (if rr_outcome r = POLICY_INPUT_MISSING then POLICY_INPUT_MISSING
      else if rule_passed r then oc else FAIL)"

fun evaluate_loop ::
  "(json \<Rightarrow> rat option) \<Rightarrow> (json \<Rightarrow> rat option) \<Rightarrow> (json \<Rightarrow> civil_date option) \<Rightarrow> civil_date \<Rightarrow>
   (string \<Rightarrow> json) \<Rightarrow> policy_rule list \<Rightarrow> rule_result list \<Rightarrow> outcome \<Rightarrow>
   http_error + rule_result list \<times> outcome" where
  "evaluate_loop dec num civil evalDate inputs [] results oc = Inr (results, oc)"
| "evaluate_loop dec num civil evalDate inputs (rule # rules) results oc =
     (case evaluate_rule dec num civil evalDate inputs rule of
        Inl e \<Rightarrow> Inl e
      | Inr r \<Rightarrow> evaluate_loop dec num civil evalDate inputs rules (results @ [r])
                   (next_outcome oc r))"

definition active_rules :: "policy_rule list \<Rightarrow> policy_rule list" where
  "active_rules rules = sort_key pr_sortOrder (filter pr_isActive rules)"

definition evaluate ::
  "(json \<Rightarrow> rat option) \<Rightarrow> (json \<Rightarrow> rat option) \<Rightarrow> (json \<Rightarrow> civil_date option) \<Rightarrow> civil_date \<Rightarrow>
   policy_rule list \<Rightarrow> (string \<Rightarrow> json) \<Rightarrow> http_error + rule_result list \<times> outcome" where
  "evaluate dec num civil evalDate rules inputs =
     evaluate_loop dec num civil evalDate inputs (active_rules rules) [] PASS"

section \<open>Lemmas\<close>

lemma evaluate_rule_Inr:
  assumes "evaluate_rule dec num civil d inputs rule = Inr r"
  shows "rr_ruleCode r = pr_ruleCode rule \<and> rr_outcome r \<noteq> REFER
    \<and> (rr_outcome r = POLICY_INPUT_MISSING \<and> pr_failureOutcome rule \<noteq> POLICY_INPUT_MISSING \<longrightarrow>
         \<not> rule_passed r)"
  using assms by (auto simp: evaluate_rule_def createMissingResult_def Let_def rule_passed_def
      split: if_splits sum.splits)

lemma evaluate_loop_Inr:
  "evaluate_loop dec num civil d inputs rules rs0 oc = Inr (rs, oc') \<Longrightarrow>
   \<exists>new. rs = rs0 @ new
     \<and> list_all2 (\<lambda>rule r. evaluate_rule dec num civil d inputs rule = Inr r) rules new
     \<and> oc' = foldl next_outcome oc new"
proof (induction rules arbitrary: rs0 oc)
  case Nil
  then show ?case by simp
next
  case (Cons rule rules)
  then obtain r where r: "evaluate_rule dec num civil d inputs rule = Inr r"
    and l: "evaluate_loop dec num civil d inputs rules (rs0 @ [r]) (next_outcome oc r) = Inr (rs, oc')"
    by (auto split: sum.splits)
  from Cons.IH [OF l] obtain new where "rs = (rs0 @ [r]) @ new"
    "list_all2 (\<lambda>rule r. evaluate_rule dec num civil d inputs rule = Inr r) rules new"
    "oc' = foldl next_outcome (next_outcome oc r) new" by blast
  with r show ?case by (intro exI [of _ "r # new"]) simp
qed

definition failure_of :: "rule_result \<Rightarrow> outcome" where
  "failure_of r = (if rr_outcome r = POLICY_INPUT_MISSING then POLICY_INPUT_MISSING else FAIL)"

lemma foldl_next_outcome:
  assumes "\<forall>r\<in>set rs. rr_outcome r = POLICY_INPUT_MISSING \<longrightarrow> \<not> rule_passed r"
  shows "foldl next_outcome oc rs =
     (if filter (\<lambda>r. \<not> rule_passed r) rs = [] then oc
      else failure_of (last (filter (\<lambda>r. \<not> rule_passed r) rs)))"
  using assms
proof (induction rs rule: rev_induct)
  case Nil
  then show ?case by simp
next
  case (snoc r rs)
  then show ?case by (auto simp: next_outcome_def failure_of_def)
qed

lemma strict_equal_bool: "strict_equal (JBool a) j \<longleftrightarrow> j = JBool a"
  by (cases j) auto

section \<open>Properties\<close>

definition demo_rule :: "string \<Rightarrow> string \<Rightarrow> rule_operator \<Rightarrow> json \<Rightarrow> int \<Rightarrow> policy_rule" where
  "demo_rule code key o' expected n =
     \<lparr>pr_ruleCode = code, pr_ruleName = code, pr_category = ''FRAUD'', pr_inputKey = key,
      pr_valueType = T_BOOLEAN, pr_operator = o', pr_expectedValue = expected,
      pr_failureOutcome = FAIL, pr_reasonCode = ''R'', pr_customerMessage = ''M'',
      pr_internalMessage = None, pr_priority = n, pr_isActive = True, pr_sortOrder = n\<rparr>"

text \<open>
  What an evaluation returns: one result per active rule, in sort order and none of them
  REFER; the outcome is PASS exactly when every rule passed, and otherwise it is the kind (FAIL
  or missing input) of the last rule that did not pass.
\<close>

theorem evaluation_outcome:
  assumes "evaluate dec num civil d rules inputs = Inr (rs, oc)"
    and "\<forall>r\<in>set rules. pr_failureOutcome r \<noteq> POLICY_INPUT_MISSING"
  shows "map rr_ruleCode rs = map pr_ruleCode (active_rules rules)
    \<and> list_all (\<lambda>r. rr_outcome r \<noteq> REFER) rs
    \<and> (oc = PASS \<longleftrightarrow> list_all rule_passed rs)
    \<and> (\<not> list_all rule_passed rs \<longrightarrow>
         oc = (if rr_outcome (last (filter (\<lambda>r. \<not> rule_passed r) rs)) = POLICY_INPUT_MISSING
               then POLICY_INPUT_MISSING else FAIL))"
proof -
  from evaluate_loop_Inr [OF assms(1) [unfolded evaluate_def]]
  have all: "list_all2 (\<lambda>rule r. evaluate_rule dec num civil d inputs rule = Inr r) (active_rules rules) rs"
    and oc: "oc = foldl next_outcome PASS rs" by auto
  have sub: "set (active_rules rules) \<subseteq> set rules" by (auto simp: active_rules_def)
  have each: "\<exists>rule\<in>set rules. evaluate_rule dec num civil d inputs rule = Inr r" if "r \<in> set rs" for r
    using that all sub by (fastforce simp: list_all2_conv_all_nth in_set_conv_nth)
  have "map rr_ruleCode rs = map pr_ruleCode (active_rules rules)"
    using all by (induction rule: list_all2_induct) (auto dest: evaluate_rule_Inr)
  moreover have "list_all (\<lambda>r. rr_outcome r \<noteq> REFER) rs"
    unfolding list_all_iff using each evaluate_rule_Inr by blast
  moreover have "\<forall>r\<in>set rs. rr_outcome r = POLICY_INPUT_MISSING \<longrightarrow> \<not> rule_passed r"
    using each evaluate_rule_Inr assms(2) by blast
  note foldl_next_outcome [OF this, of PASS, folded oc]
  moreover have "filter (\<lambda>r. \<not> rule_passed r) rs = [] \<longleftrightarrow> list_all rule_passed rs"
    by (simp add: filter_empty_conv list_all_iff)
  ultimately show ?thesis by (auto simp: failure_of_def split: if_splits)
qed

definition demo_inputs :: "string \<Rightarrow> json" where
  "demo_inputs k = (if k = ''isPanVerified'' then JBool False
     else if k = ''hasActiveApplication'' then JBool False else JNull)"

theorem evaluation_outcome_witness:
  "map rr_outcome (fst (projr (evaluate (\<lambda>_. None) (\<lambda>_. None) (\<lambda>_. None) (2026, 1, 1)
     [demo_rule ''PAN_VERIFIED'' ''isPanVerified'' O_IS_TRUE JNull 0,
      demo_rule ''NO_ACTIVE_APPLICATION'' ''hasActiveApplication'' O_IS_FALSE JNull 1] demo_inputs))) = [FAIL, PASS]
   \<and> snd (projr (evaluate (\<lambda>_. None) (\<lambda>_. None) (\<lambda>_. None) (2026, 1, 1)
     [demo_rule ''PAN_VERIFIED'' ''isPanVerified'' O_IS_TRUE JNull 0,
      demo_rule ''NO_ACTIVE_APPLICATION'' ''hasActiveApplication'' O_IS_FALSE JNull 1] demo_inputs)) = FAIL"
proof -
  let ?rules = "[demo_rule ''PAN_VERIFIED'' ''isPanVerified'' O_IS_TRUE JNull 0,
      demo_rule ''NO_ACTIVE_APPLICATION'' ''hasActiveApplication'' O_IS_FALSE JNull 1]"
  let ?e = "evaluate (\<lambda>_. None) (\<lambda>_. None) (\<lambda>_. None) (2026, 1, 1) ?rules demo_inputs"
  have "?e = Inr (projr ?e)" by code_simp
  then have e: "?e = Inr (fst (projr ?e), snd (projr ?e))" by simp
  have f: "\<forall>r\<in>set ?rules. pr_failureOutcome r \<noteq> POLICY_INPUT_MISSING" by (simp add: demo_rule_def)
  have oc: "map rr_outcome (fst (projr ?e)) = [FAIL, PASS]" by code_simp
  have np: "\<not> list_all rule_passed (fst (projr ?e))"
    and last: "rr_outcome (last (filter (\<lambda>r. \<not> rule_passed r) (fst (projr ?e)))) = FAIL" by code_simp+
  from evaluation_outcome [OF e f] np last have "snd (projr ?e) = FAIL" by simp
  with oc show ?thesis by blast
qed

text \<open>
  The outcome depends on the order of the rules when one input is missing and another
  rule fails: the same two rules give FAIL (a rejection) when the failing rule comes last and
  a missing-input outcome (no decision) when it comes first. The loop does not stop at the
  missing input.
\<close>

theorem evaluation_order_matters:
  "map_sum id snd (evaluate dec num civil d
     [demo_rule ''NO_FRAUD_FLAG'' ''hasFraudFlag'' O_IS_FALSE JNull 0,
      demo_rule ''PAN_VERIFIED'' ''isPanVerified'' O_IS_TRUE JNull 1] demo_inputs) = Inr FAIL
   \<and> map_sum id snd (evaluate dec num civil d
     [demo_rule ''NO_FRAUD_FLAG'' ''hasFraudFlag'' O_IS_FALSE JNull 1,
      demo_rule ''PAN_VERIFIED'' ''isPanVerified'' O_IS_TRUE JNull 0] demo_inputs) = Inr POLICY_INPUT_MISSING"
  by (simp add: evaluate_def active_rules_def demo_rule_def demo_inputs_def evaluate_rule_def
      createMissingResult_def age_rule_def actual_input_def evaluateRuleCondition_def
      parse_operand_def parse_expected_def next_outcome_def rule_passed_def Let_def)

text \<open>
  The order in which the rules are stored does not matter: two lists with the same rules
  and distinct sort orders evaluate to the same results.
\<close>

theorem evaluation_storage_order:
  assumes "mset rules = mset rules'" and "distinct (map pr_sortOrder rules)"
  shows "evaluate dec num civil d rules inputs = evaluate dec num civil d rules' inputs"
proof -
  have same: "mset (filter pr_isActive rules) = mset (filter pr_isActive rules')"
    using assms(1) by (metis mset_filter)
  have "inj_on pr_sortOrder (set (filter pr_isActive rules))"
    using assms(2) by (auto simp: distinct_map intro: inj_on_subset)
  then have "active_rules rules = active_rules rules'"
    unfolding active_rules_def using same
    by (intro sort_key_inj_key_eq) simp_all
  then show ?thesis by (simp add: evaluate_def)
qed

theorem evaluation_storage_order_witness:
  "evaluate (\<lambda>_. None) (\<lambda>_. None) (\<lambda>_. None) (2026, 1, 1)
     [demo_rule ''A'' ''x'' O_IS_TRUE JNull 0, demo_rule ''B'' ''y'' O_IS_TRUE JNull 1] demo_inputs
   = evaluate (\<lambda>_. None) (\<lambda>_. None) (\<lambda>_. None) (2026, 1, 1)
     [demo_rule ''B'' ''y'' O_IS_TRUE JNull 1, demo_rule ''A'' ''x'' O_IS_TRUE JNull 0] demo_inputs"
  by (rule evaluation_storage_order) (simp_all add: demo_rule_def)

text \<open>
  Completed years: an applicant is counted as at least \<open>n\<close> years old on the evaluation date
  exactly when the \<open>n\<close>-th anniversary of the birth date, compared by year, month and day, is
  not after that date.
\<close>

theorem completed_years_iff:
  "n \<le> completed_years (y1, m1, d1) (y2, m2, d2) \<longleftrightarrow>
     y1 + n < y2 \<or> y1 + n = y2 \<and> (m1 < m2 \<or> m1 = m2 \<and> d1 \<le> d2)"
  by (auto simp: completed_years_def Let_def)

end
