(* ===== verification/PlatformPolicies.thy ===== *)
theory PlatformPolicies
  imports Products PolicyEval
begin

text \<open>
  Platform eligibility policies (modules/platform-policies/platform-policies.service.ts and
  policy-rule-catalog.ts): versions of a policy with their rules, from draft to active. Every
  operation is one database transaction, taken as atomic, and names the version counter the
  caller has loaded (\<open>expectedVersion\<close>).
\<close>

section \<open>The rule catalogue\<close>

record catalog_rule =
  cg_ruleCode :: string
  cg_ruleName :: string
  cg_category :: string
  cg_inputKey :: string
  cg_valueType :: value_type
  cg_supportedOperators :: "rule_operator list"
  cg_isMandatory :: bool
  cg_canBeDisabled :: bool

definition catalog_entry ::
  "string \<Rightarrow> string \<Rightarrow> string \<Rightarrow> string \<Rightarrow> value_type \<Rightarrow> rule_operator list \<Rightarrow> bool \<Rightarrow> catalog_rule" where
  "catalog_entry code name category key vt ops mandatory =
     \<lparr>cg_ruleCode = code, cg_ruleName = name, cg_category = category, cg_inputKey = key,
      cg_valueType = vt, cg_supportedOperators = ops, cg_isMandatory = mandatory,
      cg_canBeDisabled = True\<rparr>"

definition POLICY_RULE_CATALOG :: "catalog_rule list" where
  "POLICY_RULE_CATALOG =
     [catalog_entry ''PAN_VERIFIED'' ''PAN Verification Status'' ''IDENTITY'' ''isPanVerified''
        T_BOOLEAN [O_IS_TRUE, O_EQUALS] True,
      catalog_entry ''MINIMUM_AGE'' ''Minimum Age'' ''DEMOGRAPHIC'' ''dateOfBirth''
        T_INTEGER [O_GREATER_THAN_OR_EQUAL, O_GREATER_THAN] True,
      catalog_entry ''MAXIMUM_AGE'' ''Maximum Age'' ''DEMOGRAPHIC'' ''dateOfBirth''
        T_INTEGER [O_LESS_THAN_OR_EQUAL, O_LESS_THAN] True,
      catalog_entry ''PIN_SERVICEABLE'' ''Pincode Serviceable'' ''GEOGRAPHY'' ''residentialPincode''
        T_STRING_ARRAY [O_IN] True,
      catalog_entry ''MINIMUM_MONTHLY_INCOME'' ''Minimum Monthly Income'' ''INCOME''
        ''declaredMonthlyIncome'' T_DECIMAL [O_GREATER_THAN_OR_EQUAL] False,
      catalog_entry ''MINIMUM_EMPLOYMENT_MONTHS'' ''Minimum Employment Vintage (Months)''
        ''EMPLOYMENT'' ''employmentVintageMonths'' T_INTEGER [O_GREATER_THAN_OR_EQUAL] False,
      catalog_entry ''NO_ACTIVE_APPLICATION'' ''No Active Loan Application'' ''EXPOSURE''
        ''hasActiveApplication'' T_BOOLEAN [O_IS_FALSE, O_EQUALS] True,
      catalog_entry ''NO_FRAUD_FLAG'' ''No Fraud Flags'' ''FRAUD'' ''hasFraudFlag''
        T_BOOLEAN [O_IS_FALSE, O_EQUALS] True,
      catalog_entry ''MAXIMUM_ACTIVE_LOANS'' ''Maximum Active Loans'' ''EXPOSURE''
        ''activeLoanCount'' T_INTEGER [O_LESS_THAN_OR_EQUAL] False,
      catalog_entry ''MAXIMUM_OVERDUE_AMOUNT'' ''Maximum Internal Overdue Amount'' ''PERFORMANCE''
        ''internalOverdueAmount'' T_DECIMAL [O_LESS_THAN_OR_EQUAL] False,
      catalog_entry ''COOLING_OFF_DAYS'' ''Application Cooldown Period (Days)'' ''COOLDOWN''
        ''daysSinceLastRejection'' T_INTEGER [O_GREATER_THAN_OR_EQUAL] False,
      catalog_entry ''SAME_IP_CUSTOMER_COUNT'' ''Same IP Customer Count'' ''FRAUD''
        ''sameIpCustomerCount'' T_INTEGER [O_LESS_THAN_OR_EQUAL, O_LESS_THAN, O_EQUALS] False,
      catalog_entry ''MINIMUM_ABB'' ''Minimum Average Bank Balance (ABB)'' ''INCOME''
        ''averageBankBalance'' T_DECIMAL [O_GREATER_THAN_OR_EQUAL, O_GREATER_THAN] False]"

definition catalog_find :: "string \<Rightarrow> catalog_rule option" where
  "catalog_find code = List.find (\<lambda>c. cg_ruleCode c = code) POLICY_RULE_CATALOG"

definition PRODUCTION_RESOLVERS :: "string list" where
  "PRODUCTION_RESOLVERS =
     [''PAN_VERIFIED'', ''MINIMUM_AGE'', ''MAXIMUM_AGE'', ''PIN_SERVICEABLE'',
      ''MINIMUM_MONTHLY_INCOME'', ''NO_ACTIVE_APPLICATION'', ''SAME_IP_CUSTOMER_COUNT'',
      ''MINIMUM_ABB'']"

section \<open>Data\<close>

record eligibility_policy =
  pl_id :: ident
  pl_platformProductId :: ident
  pl_name :: string
  pl_code :: string
  pl_description :: "string option"
  pl_scopeCode :: string
  pl_operationalStatus :: operational
  pl_createdById :: ident
  pl_updatedById :: ident

record policy_version =
  qv_id :: ident
  qv_policyId :: ident
  qv_versionNumber :: int
  qv_status :: version_status
  qv_effectiveFrom :: "time option"
  qv_version :: int
  qv_createdById :: ident
  qv_updatedById :: ident
  qv_submittedById :: "ident option"
  qv_submittedAt :: "time option"
  qv_approvedById :: "ident option"
  qv_approvedAt :: "time option"
  qv_rejectedById :: "ident option"
  qv_rejectedAt :: "time option"
  qv_rejectionReason :: "string option"
  qv_activatedById :: "ident option"
  qv_activatedAt :: "time option"
  qv_rules :: "policy_rule list"

record rule_payload =
  ry_ruleCode :: string
  ry_operator :: rule_operator
  ry_expectedValue :: json
  ry_failureOutcome :: outcome
  ry_reasonCode :: string
  ry_customerMessage :: string
  ry_internalMessage :: "string option"
  ry_isActive :: bool
  ry_sortOrder :: "int option"

record policy_db =
  lb_policies :: "eligibility_policy list"
  lb_versions :: "policy_version list"
  lb_audits :: "(string \<times> ident \<times> ident) list"  \<comment> \<open>action, entity, actor\<close>

definition policy_audit :: "string \<Rightarrow> ident \<Rightarrow> ident \<Rightarrow> policy_db \<Rightarrow> policy_db" where
  "policy_audit action entityId userId db =
     db\<lparr>lb_audits := lb_audits db @ [(action, entityId, userId)]\<rparr>"

section \<open>Checks on rules\<close>

definition enforceMandatoryRules :: "string list \<Rightarrow> http_error option" where
  "enforceMandatoryRules codes =
     (if list_ex (\<lambda>c. cg_isMandatory c \<and> cg_ruleCode c \<notin> set codes) POLICY_RULE_CATALOG
      then Some (BadRequest ''Missing mandatory rules'') else None)"

definition enforceProductionResolvers :: "policy_rule list \<Rightarrow> http_error option" where
  "enforceProductionResolvers rules =
     (if list_ex (\<lambda>r. pr_isActive r \<and> pr_ruleCode r \<notin> set PRODUCTION_RESOLVERS) rules
      then Some (BadRequest ''active rules lacking production resolvers'') else None)"

definition enforceNoReferRules :: "policy_rule list \<Rightarrow> http_error option" where
  "enforceNoReferRules rules =
     (if list_ex (\<lambda>r. pr_failureOutcome r = REFER) rules
      then Some (BadRequest ''PLATFORM_POLICY_REFER_NOT_ALLOWED'') else None)"

text \<open>The first error of a list of checks.\<close>

fun first_error :: "http_error option list \<Rightarrow> http_error option" where
  "first_error [] = None"
| "first_error (Some e # cs) = Some e"
| "first_error (None # cs) = first_error cs"

text \<open>
  The stored rule of a payload at index \<open>i\<close>: name, category, key and type come from the
  catalogue; a falsy expected value is stored as null (\<open>r.expectedValue ? ... : null\<close>).
\<close>

definition rule_of_payload :: "int \<Rightarrow> rule_payload \<Rightarrow> policy_rule option" where
  "rule_of_payload i r =
     (case catalog_find (ry_ruleCode r) of
        None \<Rightarrow> None
      | Some c \<Rightarrow> Some
          \<lparr>pr_ruleCode = ry_ruleCode r, pr_ruleName = cg_ruleName c,
           pr_category = cg_category c, pr_inputKey = cg_inputKey c,
           pr_valueType = cg_valueType c, pr_operator = ry_operator r,
           pr_expectedValue = (if truthy (ry_expectedValue r) then ry_expectedValue r else JNull),
           pr_failureOutcome = ry_failureOutcome r, pr_reasonCode = ry_reasonCode r,
           pr_customerMessage = ry_customerMessage r, pr_internalMessage = ry_internalMessage r,
           pr_priority = set_if (ry_sortOrder r) i, pr_isActive = ry_isActive r,
           pr_sortOrder = i\<rparr>)"

fun rules_of_payload :: "int \<Rightarrow> rule_payload list \<Rightarrow> policy_rule list" where
  "rules_of_payload i [] = []"
| "rules_of_payload i (r # rs) =
     (case rule_of_payload i r of None \<Rightarrow> [] | Some x \<Rightarrow> [x]) @ rules_of_payload (i + 1) rs"

fun check_payload :: "rule_payload list \<Rightarrow> http_error option" where
  "check_payload [] = None"
| "check_payload (r # rs) =
     (case catalog_find (ry_ruleCode r) of
        None \<Rightarrow> Some (BadRequest ''Unknown rule code'')
      | Some c \<Rightarrow>
          if \<not> cg_canBeDisabled c \<and> \<not> ry_isActive r
          then Some (BadRequest ''Rule cannot be disabled'')
          else check_payload rs)"

section \<open>Policies and new versions\<close>

definition draft_version ::
  "ident \<Rightarrow> ident \<Rightarrow> int \<Rightarrow> ident \<Rightarrow> policy_rule list \<Rightarrow> policy_version" where
  "draft_version vid policyId n userId rules =
     \<lparr>qv_id = vid, qv_policyId = policyId, qv_versionNumber = n, qv_status = V_DRAFT,
      qv_effectiveFrom = None, qv_version = 1, qv_createdById = userId, qv_updatedById = userId,
      qv_submittedById = None, qv_submittedAt = None, qv_approvedById = None,
      qv_approvedAt = None, qv_rejectedById = None, qv_rejectedAt = None,
      qv_rejectionReason = None, qv_activatedById = None, qv_activatedAt = None,
      qv_rules = rules\<rparr>"

definition createPlatformPolicy ::
  "ident \<Rightarrow> ident \<Rightarrow> ident \<Rightarrow> string \<Rightarrow> string \<Rightarrow> string option \<Rightarrow> policy_db \<Rightarrow>
   (http_error + eligibility_policy) \<times> policy_db" where
  "createPlatformPolicy pid vid userId name code description db =
     (if list_ex (\<lambda>p. pl_code p = code) (lb_policies db)
      then (Inl (Conflict ''Policy code already exists''), db)
      else if pid \<in> pl_id ` set (lb_policies db) \<or> vid \<in> qv_id ` set (lb_versions db)
        \<or> list_ex (\<lambda>v. qv_policyId v = pid) (lb_versions db)
      then (Inl (DbError ''P2002''), db)
      else
        let p = \<lparr>pl_id = pid, pl_platformProductId = ''PL_DEFAULT'', pl_name = name,
                 pl_code = code, pl_description = description,
                 pl_scopeCode = ''PLATFORM_DEFAULT'', pl_operationalStatus = INACTIVE,
                 pl_createdById = userId, pl_updatedById = userId\<rparr>
        in (Inr p,
            policy_audit ''POLICY_CREATE'' pid userId
              (db\<lparr>lb_policies := lb_policies db @ [p],
                  lb_versions := lb_versions db @ [draft_version vid pid 1 userId []]\<rparr>)))"

definition updatePlatformPolicy ::
  "ident \<Rightarrow> ident \<Rightarrow> string option \<Rightarrow> string option \<Rightarrow> policy_db \<Rightarrow>
   (http_error + eligibility_policy) \<times> policy_db" where
  "updatePlatformPolicy userId policyId name description db =
     (case update_one pl_id policyId (\<lambda>p. True)
             (\<lambda>p. p\<lparr>pl_name := set_if name (pl_name p),
                    pl_description :=
                      (case description of None \<Rightarrow> pl_description p | Some d \<Rightarrow> Some d),
                    pl_updatedById := userId\<rparr>) (lb_policies db) of
        Inl e \<Rightarrow> (Inl e, db)
      | Inr (p, t) \<Rightarrow> (Inr p, policy_audit ''POLICY_UPDATE'' policyId userId (db\<lparr>lb_policies := t\<rparr>)))"

text \<open>A cloned rule takes name, category, key and type from the catalogue again.\<close>

definition clone_rule :: "policy_rule \<Rightarrow> policy_rule option" where
  "clone_rule r =
     (case catalog_find (pr_ruleCode r) of
        None \<Rightarrow> None
      | Some c \<Rightarrow> Some (r\<lparr>pr_ruleCode := cg_ruleCode c, pr_ruleName := cg_ruleName c,
            pr_category := cg_category c, pr_inputKey := cg_inputKey c,
            pr_valueType := cg_valueType c,
            pr_expectedValue := (if truthy (pr_expectedValue r) then pr_expectedValue r else JNull)\<rparr>))"

definition createNewVersion ::
  "ident \<Rightarrow> ident \<Rightarrow> ident \<Rightarrow> policy_db \<Rightarrow> (http_error + policy_version) \<times> policy_db" where
  "createNewVersion vid userId policyId db =
     (case find_unique pl_id policyId (lb_policies db) of
        None \<Rightarrow> (Inl (NotFound ''Policy not found''), db)
      | Some policy \<Rightarrow>
          let versions = sort_key (\<lambda>v. - qv_versionNumber v)
                (filter (\<lambda>v. qv_policyId v = policyId) (lb_versions db));
              old = (case versions of [] \<Rightarrow> [] | v # _ \<Rightarrow> qv_rules v);
              n = (case versions of [] \<Rightarrow> 1 | v # _ \<Rightarrow> qv_versionNumber v + 1)
          in if list_ex (\<lambda>v. qv_status v = V_DRAFT \<or> qv_status v = V_SUBMITTED) versions
             then (Inl (Conflict ''A DRAFT or SUBMITTED version already exists for this policy''), db)
             else if vid \<in> qv_id ` set (lb_versions db)
             then (Inl (DbError ''P2002''), db)
             else if list_ex (\<lambda>r. clone_rule r = None) old
             then (Inl (BadRequest ''Unknown rule code''), db)
             else
               let v = draft_version vid policyId n userId (List.map_filter clone_rule old)
               in (Inr v, policy_audit ''POLICY_VERSION_CREATE'' vid userId
                            (db\<lparr>lb_versions := lb_versions db @ [v]\<rparr>)))"

section \<open>Operations on a version\<close>

datatype policy_op =
    KRules "rule_payload list"
  | KSubmit
  | KApprove
  | KReject string
  | KActivate "time option"

definition policy_maker :: "policy_version \<Rightarrow> ident" where
  "policy_maker v = (case qv_submittedById v of Some u \<Rightarrow> u | None \<Rightarrow> qv_createdById v)"

definition version_conflict :: "int \<Rightarrow> policy_version \<Rightarrow> http_error option" where
  "version_conflict n v =
     (if qv_version v \<noteq> n then Some (Conflict ''POLICY_VERSION_CONFLICT'') else None)"

definition wrong_status :: "version_status list \<Rightarrow> string \<Rightarrow> policy_version \<Rightarrow> http_error option" where
  "wrong_status sts msg v = (if qv_status v \<notin> set sts then Some (Conflict msg) else None)"

definition same_person :: "ident \<Rightarrow> policy_version \<Rightarrow> http_error option" where
  "same_person userId v =
     (if userId = policy_maker v
      then Some (Forbidden ''Maker and Checker cannot be the same user'') else None)"

definition effective_time :: "time \<Rightarrow> time option \<Rightarrow> time" where
  "effective_time now eff = set_if eff now"

text \<open>The checks of each operation in their order.\<close>

fun op_checks :: "policy_op \<Rightarrow> ident \<Rightarrow> int \<Rightarrow> time \<Rightarrow> policy_version \<Rightarrow> http_error option list" where
  "op_checks (KRules payload) userId n now v =
     [wrong_status [V_DRAFT, V_REJECTED] ''Can only update rules for DRAFT or REJECTED versions'' v,
      version_conflict n v,
      check_payload payload,
      enforceMandatoryRules (map ry_ruleCode payload),
      (if distinct (map ry_ruleCode payload) then None else Some (DbError ''P2002''))]"
| "op_checks KSubmit userId n now v =
     [version_conflict n v,
      wrong_status [V_DRAFT] ''Only DRAFT versions can be submitted'' v,
      enforceMandatoryRules (map pr_ruleCode (qv_rules v)),
      enforceNoReferRules (qv_rules v),
      enforceProductionResolvers (qv_rules v)]"
| "op_checks KApprove userId n now v =
     [version_conflict n v,
      wrong_status [V_SUBMITTED] ''Only SUBMITTED versions can be approved'' v,
      enforceNoReferRules (qv_rules v),
      enforceProductionResolvers (qv_rules v),
      same_person userId v]"
| "op_checks (KReject reason) userId n now v =
     [version_conflict n v,
      wrong_status [V_SUBMITTED] ''Only SUBMITTED versions can be rejected'' v,
      same_person userId v]"
| "op_checks (KActivate eff) userId n now v =
     [version_conflict n v,
      wrong_status [V_APPROVED] ''Only APPROVED versions can be activated'' v,
      enforceNoReferRules (qv_rules v),
      enforceProductionResolvers (qv_rules v),
      (if effective_time now eff > now
       then Some (BadRequest ''Cannot activate a version before its future effectiveFrom date'')
       else None)]"

definition promote_policy_version :: "ident \<times> time option \<Rightarrow> time \<Rightarrow> policy_version \<Rightarrow> policy_version" where
  "promote_policy_version p now v =
     v\<lparr>qv_status := V_ACTIVE, qv_effectiveFrom := Some (effective_time now (snd p)),
       qv_activatedById := Some (fst p), qv_activatedAt := Some now,
       qv_updatedById := fst p, qv_version := qv_version v + 1\<rparr>"

definition retire_policy_version :: "ident \<times> time option \<Rightarrow> policy_version \<Rightarrow> policy_version" where
  "retire_policy_version p v = v\<lparr>qv_status := V_SUPERSEDED, qv_updatedById := fst p\<rparr>"

fun op_data :: "policy_op \<Rightarrow> ident \<Rightarrow> time \<Rightarrow> policy_version \<Rightarrow> policy_version" where
  "op_data (KRules payload) userId now =
     (\<lambda>v. v\<lparr>qv_rules := rules_of_payload 0 payload, qv_status := V_DRAFT,
            qv_updatedById := userId, qv_version := qv_version v + 1\<rparr>)"
| "op_data KSubmit userId now =
     (\<lambda>v. v\<lparr>qv_status := V_SUBMITTED, qv_submittedById := Some userId,
            qv_submittedAt := Some now, qv_updatedById := userId,
            qv_version := qv_version v + 1\<rparr>)"
| "op_data KApprove userId now =
     (\<lambda>v. v\<lparr>qv_status := V_APPROVED, qv_approvedById := Some userId,
            qv_approvedAt := Some now, qv_updatedById := userId,
            qv_version := qv_version v + 1\<rparr>)"
| "op_data (KReject reason) userId now =
     (\<lambda>v. v\<lparr>qv_status := V_REJECTED, qv_rejectedById := Some userId,
            qv_rejectedAt := Some now, qv_rejectionReason := Some reason,
            qv_updatedById := userId, qv_version := qv_version v + 1\<rparr>)"
| "op_data (KActivate eff) userId now = promote_policy_version (userId, eff) now"

fun op_action :: "policy_op \<Rightarrow> string" where
  "op_action (KRules payload) = ''POLICY_UPDATE''"
| "op_action KSubmit = ''POLICY_SUBMIT''"
| "op_action KApprove = ''POLICY_APPROVE''"
| "op_action (KReject reason) = ''POLICY_REJECT''"
| "op_action (KActivate eff) = ''POLICY_ACTIVATE''"

text \<open>Activation supersedes the policy's active version first and switches the policy on.\<close>

fun op_before :: "policy_op \<Rightarrow> ident \<Rightarrow> ident \<Rightarrow> policy_version list \<Rightarrow> policy_version list" where
  "op_before (KActivate eff) userId policyId =
     update_many (\<lambda>v. qv_policyId v = policyId \<and> qv_status v = V_ACTIVE)
       (retire_policy_version (userId, eff))"
| "op_before _ userId policyId = (\<lambda>t. t)"

fun op_policies ::
  "policy_op \<Rightarrow> ident \<Rightarrow> ident \<Rightarrow> eligibility_policy list \<Rightarrow> http_error + eligibility_policy list" where
  "op_policies (KActivate eff) userId policyId t =
     (case update_one pl_id policyId (\<lambda>p. True)
             (\<lambda>p. p\<lparr>pl_operationalStatus := ACTIVE, pl_updatedById := userId\<rparr>) t of
        Inl e \<Rightarrow> Inl e | Inr (p, t') \<Rightarrow> Inr t')"
| "op_policies _ userId policyId t = Inr t"

definition policy_operation ::
  "policy_op \<Rightarrow> ident \<Rightarrow> ident \<Rightarrow> int \<Rightarrow> time \<Rightarrow> policy_db \<Rightarrow>
   (http_error + policy_version) \<times> policy_db" where
  "policy_operation c userId versionId n now db =
     (case find_unique qv_id versionId (lb_versions db) of
        None \<Rightarrow> (Inl (NotFound ''Version not found''), db)
      | Some v \<Rightarrow>
          (case first_error (op_checks c userId n now v) of
             Some e \<Rightarrow> (Inl e, db)
           | None \<Rightarrow>
               (case update_one qv_id versionId (\<lambda>r. qv_version r = n) (op_data c userId now)
                       (op_before c userId (qv_policyId v) (lb_versions db)) of
                  Inl e \<Rightarrow> (Inl e, db)
                | Inr (updated, t) \<Rightarrow>
                    (case op_policies c userId (qv_policyId v) (lb_policies db) of
                       Inl e \<Rightarrow> (Inl e, db)
                     | Inr ps \<Rightarrow>
                         (Inr updated,
                          policy_audit (op_action c) versionId userId
                            (db\<lparr>lb_versions := t, lb_policies := ps\<rparr>))))))"

section \<open>The policy in force\<close>

definition in_force :: "time \<Rightarrow> policy_version \<Rightarrow> bool" where
  "in_force now v \<longleftrightarrow> qv_status v = V_ACTIVE
     \<and> (case qv_effectiveFrom v of None \<Rightarrow> False | Some t \<Rightarrow> t \<le> now)"

definition resolveActivePolicyVersion ::
  "ident \<Rightarrow> string \<Rightarrow> time \<Rightarrow> policy_db \<Rightarrow> http_error + policy_version" where
  "resolveActivePolicyVersion platformProductId scopeCode now db =
     (case filter (\<lambda>p. pl_platformProductId p = platformProductId \<and> pl_scopeCode p = scopeCode
              \<and> pl_operationalStatus p = ACTIVE
              \<and> list_ex (\<lambda>v. qv_policyId v = pl_id p \<and> in_force now v) (lb_versions db))
            (lb_policies db) of
        [p] \<Rightarrow>
          (case filter (\<lambda>v. qv_policyId v = pl_id p \<and> in_force now v) (lb_versions db) of
             [v] \<Rightarrow> Inr v
           | _ \<Rightarrow> Inl (ServerError ''Expected exactly one active version for policy''))
      | _ \<Rightarrow> Inl (ServerError ''Expected exactly one active policy''))"

section \<open>Requests\<close>

datatype policy_request =
    QCreate ident ident string string "string option"
  | QUpdate ident "string option" "string option"
  | QNewVersion ident ident
  | QOperation policy_op ident int

fun policy_serve :: "policy_request \<Rightarrow> ident \<Rightarrow> time \<Rightarrow> policy_db \<Rightarrow> policy_db" where
  "policy_serve (QCreate pid vid name code description) userId now db =
     snd (createPlatformPolicy pid vid userId name code description db)"
| "policy_serve (QUpdate policyId name description) userId now db =
     snd (updatePlatformPolicy userId policyId name description db)"
| "policy_serve (QNewVersion vid policyId) userId now db = snd (createNewVersion vid userId policyId db)"
| "policy_serve (QOperation c versionId n) userId now db =
     snd (policy_operation c userId versionId n now db)"

fun policy_run :: "(policy_request \<times> ident \<times> time) list \<Rightarrow> policy_db \<Rightarrow> policy_db" where
  "policy_run [] db = db"
| "policy_run ((r, u, now) # rs) db = policy_run rs (policy_serve r u now db)"

section \<open>One active version per policy, maker and checker\<close>

lemma promote_retire_fields [simp]:
  "qv_id (promote_policy_version p now v) = qv_id v"
  "qv_policyId (promote_policy_version p now v) = qv_policyId v"
  "qv_versionNumber (promote_policy_version p now v) = qv_versionNumber v"
  "qv_rules (promote_policy_version p now v) = qv_rules v"
  "qv_approvedById (promote_policy_version p now v) = qv_approvedById v"
  "policy_maker (promote_policy_version p now v) = policy_maker v"
  "qv_status (promote_policy_version p now v) = V_ACTIVE"
  "qv_version (promote_policy_version p now v) = qv_version v + 1"
  "qv_id (retire_policy_version p v) = qv_id v"
  "qv_policyId (retire_policy_version p v) = qv_policyId v"
  "qv_versionNumber (retire_policy_version p v) = qv_versionNumber v"
  "qv_rules (retire_policy_version p v) = qv_rules v"
  "qv_approvedById (retire_policy_version p v) = qv_approvedById v"
  "policy_maker (retire_policy_version p v) = policy_maker v"
  "qv_status (retire_policy_version p v) = V_SUPERSEDED"
  "qv_version (retire_policy_version p v) = qv_version v"
  by (simp_all add: promote_policy_version_def retire_policy_version_def policy_maker_def
      split: option.splits)

interpretation policy_active: exclusive_activation
  qv_id qv_policyId "\<lambda>v. qv_status v = V_ACTIVE" retire_policy_version promote_policy_version
  by unfold_locales simp_all

definition policy_cleared :: "policy_version \<Rightarrow> bool" where
  "policy_cleared v \<longleftrightarrow> qv_status v \<in> {V_APPROVED, V_ACTIVE, V_SUPERSEDED}"

definition policy_row_trans ::
  "ident \<Rightarrow> policy_op \<times> int \<times> time \<Rightarrow> policy_version \<Rightarrow> policy_version option" where
  "policy_row_trans u x v =
     (case x of (c, n, now) \<Rightarrow>
        case first_error (op_checks c u n now v) of
          Some e \<Rightarrow> None
        | None \<Rightarrow> Some (op_data c u now v))"

lemma first_error_None: "first_error cs = None \<longleftrightarrow> set cs \<subseteq> {None}"
  by (induction cs rule: first_error.induct) auto

lemma policy_row_trans_Some:
  "policy_row_trans u (c, n, now) v = Some w \<longleftrightarrow>
     first_error (op_checks c u n now v) = None \<and> w = op_data c u now v"
  by (auto simp: policy_row_trans_def split: option.splits)

lemmas op_guard_defs = first_error_None wrong_status_def version_conflict_def same_person_def
  enforceNoReferRules_def enforceProductionResolvers_def enforceMandatoryRules_def

lemma op_data_fields:
  "qv_id (op_data c u now v) = qv_id v"
  "qv_policyId (op_data c u now v) = qv_policyId v"
  "qv_versionNumber (op_data c u now v) = qv_versionNumber v"
  "qv_version (op_data c u now v) = qv_version v + 1"
  by (cases c; simp)+

lemma op_checks_version: "first_error (op_checks c u n now v) = None \<Longrightarrow> qv_version v = n"
  by (cases c) (simp_all add: op_guard_defs split: if_splits)

lemma policy_row_trans_clears:
  "policy_row_trans u (c, n, now) v = Some w \<Longrightarrow> \<not> policy_cleared v \<Longrightarrow> policy_cleared w \<Longrightarrow>
   u \<noteq> policy_maker v \<and> policy_maker w = policy_maker v \<and> qv_approvedById w = Some u"
  unfolding policy_row_trans_Some
  by (cases c) (auto simp: op_guard_defs policy_cleared_def policy_maker_def
      split: if_splits option.splits)

lemma policy_row_trans_keeps:
  "policy_row_trans u (c, n, now) v = Some w \<Longrightarrow> policy_cleared v \<Longrightarrow> policy_cleared w \<Longrightarrow>
   policy_maker w = policy_maker v \<and> qv_approvedById w = qv_approvedById v"
  unfolding policy_row_trans_Some
  by (cases c) (auto simp: op_guard_defs policy_cleared_def split: if_splits)

interpretation policy_review: review_flow policy_cleared policy_maker qv_approvedById policy_row_trans
  by unfold_locales (metis prod.exhaust policy_row_trans_clears, metis prod.exhaust policy_row_trans_keeps)

section \<open>The invariant\<close>

text \<open>Rules that have been through submission.\<close>

definition vetted :: "policy_rule list \<Rightarrow> bool" where
  "vetted rules \<longleftrightarrow>
     enforceMandatoryRules (map pr_ruleCode rules) = None \<and> enforceNoReferRules rules = None
     \<and> enforceProductionResolvers rules = None"

text \<open>A rule whose key and type are those of its catalogue entry.\<close>

definition from_catalogue :: "policy_rule \<Rightarrow> bool" where
  "from_catalogue r \<longleftrightarrow>
     (case catalog_find (pr_ruleCode r) of
        None \<Rightarrow> False
      | Some c \<Rightarrow> pr_ruleName r = cg_ruleName c \<and> pr_category r = cg_category c
          \<and> pr_inputKey r = cg_inputKey c \<and> pr_valueType r = cg_valueType c)"

definition policy_row_ok :: "policy_version \<Rightarrow> bool" where
  "policy_row_ok v \<longleftrightarrow>
     policy_review.reviewed v \<and> (qv_status v \<noteq> V_DRAFT \<longrightarrow> vetted (qv_rules v))
     \<and> list_all from_catalogue (qv_rules v)"

definition policy_scope :: "eligibility_policy \<Rightarrow> ident \<times> string" where
  "policy_scope p = (pl_platformProductId p, pl_scopeCode p)"

definition default_scope :: "ident \<times> string" where
  "default_scope = (''PL_DEFAULT'', ''PLATFORM_DEFAULT'')"

definition default_scoped :: "eligibility_policy list \<Rightarrow> bool" where
  "default_scoped t \<longleftrightarrow> set (map policy_scope t) \<subseteq> {default_scope}"

definition policy_inv :: "policy_db \<Rightarrow> bool" where
  "policy_inv db \<longleftrightarrow>
     unique_keys qv_id (lb_versions db)
     \<and> unique_keys (\<lambda>v. (qv_policyId v, qv_versionNumber v)) (lb_versions db)
     \<and> unique_keys pl_id (lb_policies db)
     \<and> policy_active.exclusive (lb_versions db)
     \<and> list_all policy_row_ok (lb_versions db)
     \<and> default_scoped (lb_policies db)"

lemma policy_audit_tables [simp]:
  "lb_versions (policy_audit a e u db) = lb_versions db"
  "lb_policies (policy_audit a e u db) = lb_policies db"
  by (simp_all add: policy_audit_def)

lemma catalog_find_code: "catalog_find code = Some c \<Longrightarrow> cg_ruleCode c = code"
  by (auto simp: catalog_find_def find_Some_iff)

lemma rules_of_payload_catalogue: "list_all from_catalogue (rules_of_payload i rs)"
  by (induction i rs rule: rules_of_payload.induct)
     (auto simp: rule_of_payload_def from_catalogue_def split: option.splits)

lemma clone_rule_catalogue: "clone_rule r = Some r' \<Longrightarrow> from_catalogue r'"
  by (auto simp: clone_rule_def from_catalogue_def split: option.splits) (simp_all add: catalog_find_code)

lemma map_filter_clone_catalogue: "list_all from_catalogue (List.map_filter clone_rule rs)"
  by (induction rs) (auto simp: List.map_filter_simps clone_rule_catalogue split: option.splits)

lemma draft_row_ok: "list_all from_catalogue rules \<Longrightarrow> policy_row_ok (draft_version vid pid n u rules)"
  by (simp add: policy_row_ok_def draft_version_def policy_review.reviewed_def policy_cleared_def)

lemma draft_version_fields [simp]:
  "qv_id (draft_version vid pid n u rules) = vid"
  "qv_policyId (draft_version vid pid n u rules) = pid"
  "qv_versionNumber (draft_version vid pid n u rules) = n"
  "qv_status (draft_version vid pid n u rules) = V_DRAFT"
  by (simp_all add: draft_version_def)

lemma retired_row_ok:
  "policy_row_ok v \<Longrightarrow> qv_status v = V_ACTIVE \<Longrightarrow> policy_row_ok (retire_policy_version p v)"
  by (auto simp: policy_row_ok_def policy_review.reviewed_def policy_cleared_def)

lemma trans_row_ok:
  assumes "policy_row_ok v" and "policy_row_trans u (c, n, now) v = Some w"
  shows "policy_row_ok w"
proof -
  from assms have "policy_review.reviewed w"
    by (auto simp: policy_row_ok_def intro: policy_review.trans_reviewed)
  moreover have "qv_status w \<noteq> V_DRAFT \<longrightarrow> vetted (qv_rules w)"
    using assms unfolding policy_row_trans_Some policy_row_ok_def vetted_def
    by (cases c) (auto simp: first_error_None wrong_status_def split: if_splits)
  moreover have "list_all from_catalogue (qv_rules w)"
    using assms unfolding policy_row_trans_Some policy_row_ok_def
    by (cases c) (auto simp: rules_of_payload_catalogue)
  ultimately show ?thesis by (simp add: policy_row_ok_def)
qed

text \<open>What an operation does to the versions.\<close>

lemma op_before_rows:
  assumes "w \<in> set (op_before c u p t)"
  shows "w \<in> set t \<or> (\<exists>v\<in>set t. qv_status v = V_ACTIVE \<and> qv_policyId v = p
    \<and> w = retire_policy_version (u, case c of KActivate e \<Rightarrow> e | _ \<Rightarrow> None) v)"
  using assms by (cases c) (auto simp: set_update_many split: if_splits)

lemma op_before_keys:
  "map qv_id (op_before c u p t) = map qv_id t"
  "map (\<lambda>v. (qv_policyId v, qv_versionNumber v)) (op_before c u p t)
     = map (\<lambda>v. (qv_policyId v, qv_versionNumber v)) t"
  by (cases c; simp add: map_key_update_many)+

lemma op_before_find:
  assumes "find_unique qv_id i t = Some v" and "first_error (op_checks c u n now v) = None"
  shows "find_unique qv_id i (op_before c u (qv_policyId v) t) = Some v"
  using assms by (cases c) (auto simp: find_unique_update_many op_guard_defs split: if_splits)

lemma policy_operation_cases:
  assumes "unique_keys qv_id (lb_versions db)"
  obtains e where "policy_operation c u i n now db = (Inl e, db)"
  | v t ps where "find_unique qv_id i (lb_versions db) = Some v"
    "first_error (op_checks c u n now v) = None" "qv_version v = n"
    "t = update_many (\<lambda>r. qv_id r = i \<and> qv_version r = n) (op_data c u now)
       (op_before c u (qv_policyId v) (lb_versions db))"
    "op_policies c u (qv_policyId v) (lb_policies db) = Inr ps"
    "policy_operation c u i n now db =
       (Inr (op_data c u now v),
        policy_audit (op_action c) i u (db\<lparr>lb_versions := t, lb_policies := ps\<rparr>))"
proof (cases "find_unique qv_id i (lb_versions db)")
  case None
  then show ?thesis by (intro that(1)) (simp add: policy_operation_def)
next
  case v: (Some v)
  show ?thesis
  proof (cases "first_error (op_checks c u n now v)")
    case (Some e)
    with v show ?thesis by (intro that(1)) (simp add: policy_operation_def)
  next
    case ok: None
    let ?t = "update_many (\<lambda>r. qv_id r = i \<and> qv_version r = n) (op_data c u now)
       (op_before c u (qv_policyId v) (lb_versions db))"
    from op_checks_version [OF ok] have n: "qv_version v = n" .
    have w: "update_one qv_id i (\<lambda>r. qv_version r = n) (op_data c u now)
        (op_before c u (qv_policyId v) (lb_versions db)) = Inr (op_data c u now v, ?t)"
      by (simp add: update_one_Inr op_before_find [OF v ok] n)
    show ?thesis
    proof (cases "op_policies c u (qv_policyId v) (lb_policies db)")
      case (Inl e)
      with v ok w show ?thesis by (intro that(1)) (simp add: policy_operation_def)
    next
      case (Inr ps)
      with v ok w n show ?thesis by (intro that(2)) (simp_all add: policy_operation_def)
    qed
  qed
qed

lemma op_policies_ids:
  "op_policies c u p t = Inr t' \<Longrightarrow> map pl_id t' = map pl_id t"
  "op_policies c u p t = Inr t' \<Longrightarrow> map policy_scope t' = map policy_scope t"
  by (cases c; auto simp: update_one_Inr map_key_update_many policy_scope_def split: sum.splits)+

lemma default_scoped_cong:
  "map policy_scope t' = map policy_scope t \<Longrightarrow> default_scoped t' = default_scoped t"
  by (simp add: default_scoped_def del: set_map)

lemma op_exclusive:
  assumes "policy_active.exclusive t" and "unique_keys qv_id t"
    and "find_unique qv_id i t = Some v" and "first_error (op_checks c u n now v) = None"
  shows "policy_active.exclusive (update_many (\<lambda>r. qv_id r = i \<and> qv_version r = n)
    (op_data c u now) (op_before c u (qv_policyId v) t))"
proof (cases "\<exists>e. c = KActivate e")
  case True
  then obtain e where c: "c = KActivate e" by blast
  have "\<forall>r\<in>set t. qv_id r = i \<longrightarrow> qv_policyId r = qv_policyId v"
    using assms(2,3) by (metis find_unique_in_set option.inject)
  from policy_active.exclusive_switch [OF assms(1) this] show ?thesis
    unfolding c op_data.simps op_before.simps .
next
  case False
  then have b: "op_before c u (qv_policyId v) t = t" by (cases c) auto
  have "qv_status (op_data c u now r) \<noteq> V_ACTIVE" for r using False by (cases c) auto
  then show ?thesis unfolding b
    by (intro policy_active.exclusive_update [OF assms(1)]) (simp_all add: op_data_fields)
qed

lemma policy_operation_inv:
  assumes "policy_inv db"
  shows "policy_inv (snd (policy_operation c u i n now db))"
proof -
  from assms have u: "unique_keys qv_id (lb_versions db)" by (simp add: policy_inv_def)
  show ?thesis
  proof (rule policy_operation_cases [OF u, of c u i n now])
    fix e assume "policy_operation c u i n now db = (Inl e, db)"
    with assms show ?thesis by simp
  next
    fix v t ps
    assume v: "find_unique qv_id i (lb_versions db) = Some v"
      and ok: "first_error (op_checks c u n now v) = None" and n: "qv_version v = n"
      and t: "t = update_many (\<lambda>r. qv_id r = i \<and> qv_version r = n) (op_data c u now)
       (op_before c u (qv_policyId v) (lb_versions db))"
      and ps: "op_policies c u (qv_policyId v) (lb_policies db) = Inr ps"
      and r: "policy_operation c u i n now db = (Inr (op_data c u now v),
        policy_audit (op_action c) i u (db\<lparr>lb_versions := t, lb_policies := ps\<rparr>))"
    have keys: "map qv_id t = map qv_id (lb_versions db)"
      "map (\<lambda>v. (qv_policyId v, qv_versionNumber v)) t
         = map (\<lambda>v. (qv_policyId v, qv_versionNumber v)) (lb_versions db)"
      unfolding t by (simp_all add: map_key_update_many op_data_fields op_before_keys)
    have rows: "policy_row_ok w" if "w \<in> set t" for w
    proof -
      have old: "policy_row_ok x" if "x \<in> set (op_before c u (qv_policyId v) (lb_versions db))" for x
        using op_before_rows [OF that] assms by (auto simp: policy_inv_def list_all_iff intro: retired_row_ok)
      from that consider "w \<in> set (op_before c u (qv_policyId v) (lb_versions db))"
        | x where "x \<in> set (op_before c u (qv_policyId v) (lb_versions db))" "qv_id x = i"
          "w = op_data c u now x"
        unfolding t by (auto simp: set_update_many split: if_splits)
      then show ?thesis
      proof cases
        case 2
        have "unique_keys qv_id (op_before c u (qv_policyId v) (lb_versions db))"
          using u by (simp add: unique_keys_def op_before_keys)
        from find_unique_in_set [OF this 2(1)] op_before_find [OF v ok] 2(2) have "x = v" by simp
        with 2 ok have "policy_row_trans u (c, n, now) v = Some w" by (simp add: policy_row_trans_Some)
        moreover from v assms have "policy_row_ok v"
          by (auto simp: policy_inv_def list_all_iff dest: find_unique_Some_D)
        ultimately show ?thesis by (rule trans_row_ok [rotated])
      qed (rule old)
    qed
    have "policy_active.exclusive t"
      unfolding t using assms u v ok by (intro op_exclusive) (simp_all add: policy_inv_def)
    with keys rows op_policies_ids [OF ps] default_scoped_cong [OF op_policies_ids(2) [OF ps]] assms show ?thesis
      unfolding r by (simp add: policy_inv_def unique_keys_def list_all_iff)
  qed
qed

lemma createNewVersion_tables:
  "snd (createNewVersion vid u pid db) = db \<or>
   (\<exists>n rules. lb_versions (snd (createNewVersion vid u pid db)) =
        lb_versions db @ [draft_version vid pid n u rules]
      \<and> lb_policies (snd (createNewVersion vid u pid db)) = lb_policies db
      \<and> vid \<notin> qv_id ` set (lb_versions db) \<and> list_all from_catalogue rules
      \<and> (\<forall>v\<in>set (lb_versions db). qv_policyId v = pid \<longrightarrow> qv_versionNumber v < n))"
proof -
  let ?vs = "sort_key (\<lambda>v. - qv_versionNumber v) (filter (\<lambda>v. qv_policyId v = pid) (lb_versions db))"
  let ?n = "case ?vs of [] \<Rightarrow> 1 | v # _ \<Rightarrow> qv_versionNumber v + 1"
  let ?old = "case ?vs of [] \<Rightarrow> [] | v # _ \<Rightarrow> qv_rules v"
  let ?v = "draft_version vid pid ?n u (List.map_filter clone_rule ?old)"
  have n: "\<forall>v\<in>set (lb_versions db). qv_policyId v = pid \<longrightarrow> qv_versionNumber v < ?n"
  proof (cases ?vs)
    case Nil
    then have "filter (\<lambda>v. qv_policyId v = pid) (lb_versions db) = []" by (metis set_empty set_sort)
    then show ?thesis by (auto simp: filter_empty_conv)
  next
    case (Cons y ys)
    from sort_desc_head [OF Cons] show ?thesis unfolding Cons by force
  qed
  have "snd (createNewVersion vid u pid db) = db \<or> vid \<notin> qv_id ` set (lb_versions db) \<and>
      snd (createNewVersion vid u pid db) =
         policy_audit ''POLICY_VERSION_CREATE'' vid u (db\<lparr>lb_versions := lb_versions db @ [?v]\<rparr>)"
    unfolding createNewVersion_def Let_def by (cases "find_unique pl_id pid (lb_policies db)") simp_all
  then show ?thesis
  proof
    assume "vid \<notin> qv_id ` set (lb_versions db) \<and> snd (createNewVersion vid u pid db) =
         policy_audit ''POLICY_VERSION_CREATE'' vid u (db\<lparr>lb_versions := lb_versions db @ [?v]\<rparr>)"
    with n map_filter_clone_catalogue [of ?old] show ?thesis
      by (intro disjI2 exI [of _ ?n] exI [of _ "List.map_filter clone_rule ?old"]) simp
  qed simp
qed

lemma policy_serve_inv:
  assumes "policy_inv db"
  shows "policy_inv (policy_serve r u now db)"
proof (cases r)
  case (QCreate pid vid name code description)
  have "qv_policyId v \<noteq> pid" if "v \<in> set (lb_versions db)"
    "\<not> list_ex (\<lambda>v. qv_policyId v = pid) (lb_versions db)" for v
    using that by (auto simp: list_ex_iff)
  with assms show ?thesis unfolding QCreate
    by (auto simp: createPlatformPolicy_def policy_inv_def Let_def draft_row_ok
        default_scoped_def policy_scope_def default_scope_def policy_active.exclusive_snoc)
next
  case (QUpdate policyId name description)
  show ?thesis
  proof (cases "snd (updatePlatformPolicy u policyId name description db) = db")
    case True
    with assms show ?thesis by (simp add: QUpdate)
  next
    case False
    then obtain p t where t: "update_one pl_id policyId (\<lambda>p. True)
             (\<lambda>p. p\<lparr>pl_name := set_if name (pl_name p),
                    pl_description :=
                      (case description of None \<Rightarrow> pl_description p | Some d \<Rightarrow> Some d),
                    pl_updatedById := u\<rparr>) (lb_policies db) = Inr (p, t)"
      by (auto simp: updatePlatformPolicy_def split: sum.splits)
    from update_one_keys [OF t, of pl_id] update_one_keys [OF t, of policy_scope]
    have k: "map pl_id t = map pl_id (lb_policies db)"
      "map policy_scope t = map policy_scope (lb_policies db)" by (simp_all add: policy_scope_def)
    from default_scoped_cong [OF k(2)] k t assms show ?thesis
      by (simp add: QUpdate updatePlatformPolicy_def policy_inv_def unique_keys_def)
  qed
next
  case (QNewVersion vid policyId)
  from createNewVersion_tables [of vid u policyId db] show ?thesis
  proof
    assume "snd (createNewVersion vid u policyId db) = db"
    with assms show ?thesis by (simp add: QNewVersion)
  next
    assume "\<exists>n rules. lb_versions (snd (createNewVersion vid u policyId db)) =
        lb_versions db @ [draft_version vid policyId n u rules]
      \<and> lb_policies (snd (createNewVersion vid u policyId db)) = lb_policies db
      \<and> vid \<notin> qv_id ` set (lb_versions db) \<and> list_all from_catalogue rules
      \<and> (\<forall>v\<in>set (lb_versions db). qv_policyId v = policyId \<longrightarrow> qv_versionNumber v < n)"
    then obtain n rules where *: "lb_versions (snd (createNewVersion vid u policyId db)) =
        lb_versions db @ [draft_version vid policyId n u rules]"
      "lb_policies (snd (createNewVersion vid u policyId db)) = lb_policies db"
      "vid \<notin> qv_id ` set (lb_versions db)" "list_all from_catalogue rules"
      "\<forall>v\<in>set (lb_versions db). qv_policyId v = policyId \<longrightarrow> qv_versionNumber v < n" by blast
    from * assms draft_row_ok show ?thesis unfolding QNewVersion
      by (auto simp: policy_inv_def policy_active.exclusive_snoc)
  qed
next
  case (QOperation c i n)
  with policy_operation_inv [OF assms] show ?thesis by simp
qed

lemma policy_run_inv: "policy_inv db \<Longrightarrow> policy_inv (policy_run rs db)"
  by (induction rs db rule: policy_run.induct) (simp_all add: policy_serve_inv)

section \<open>Versions only grow\<close>

definition no_older :: "policy_version list \<Rightarrow> policy_version list \<Rightarrow> bool" where
  "no_older t t' \<longleftrightarrow> (\<forall>i v. find_unique qv_id i t = Some v \<longrightarrow>
     (\<exists>w. find_unique qv_id i t' = Some w \<and> qv_version v \<le> qv_version w))"

lemma no_older_refl [simp]: "no_older t t"
  by (simp add: no_older_def)

lemma no_older_append [simp]: "no_older t (t @ u)"
  by (simp add: no_older_def find_unique_append)

lemma no_older_update:
  "(\<And>r. qv_id (f r) = qv_id r) \<Longrightarrow> (\<And>r. qv_version r \<le> qv_version (f r)) \<Longrightarrow>
   no_older t (update_many P f t)"
  by (simp add: no_older_def find_unique_update_many)

lemma no_older_trans: "no_older t t' \<Longrightarrow> no_older t' t'' \<Longrightarrow> no_older t t''"
  unfolding no_older_def by (meson order_trans)

lemma no_older_before: "no_older t (op_before c u p t)"
  by (cases c) (simp_all add: no_older_update)

lemma policy_serve_no_older:
  assumes "policy_inv db"
  shows "no_older (lb_versions db) (lb_versions (policy_serve r u now db))"
proof (cases r)
  case (QCreate pid vid name code description)
  then show ?thesis by (simp add: createPlatformPolicy_def Let_def)
next
  case (QUpdate policyId name description)
  then show ?thesis by (simp add: updatePlatformPolicy_def split: sum.splits prod.splits)
next
  case (QNewVersion vid policyId)
  with createNewVersion_tables [of vid u policyId db] show ?thesis by auto
next
  case (QOperation c i n)
  from assms have un: "unique_keys qv_id (lb_versions db)" by (simp add: policy_inv_def)
  show ?thesis
  proof (rule policy_operation_cases [OF un, of c u i n now])
    fix v t ps
    assume t: "t = update_many (\<lambda>r. qv_id r = i \<and> qv_version r = n) (op_data c u now)
       (op_before c u (qv_policyId v) (lb_versions db))"
      and r: "policy_operation c u i n now db = (Inr (op_data c u now v),
        policy_audit (op_action c) i u (db\<lparr>lb_versions := t, lb_policies := ps\<rparr>))"
    have "no_older (lb_versions db) t" unfolding t
      by (rule no_older_trans [OF no_older_before no_older_update]) (simp_all add: op_data_fields)
    with r show ?thesis by (simp add: QOperation)
  qed (simp_all add: QOperation)
qed

lemma policy_run_no_older:
  "policy_inv db \<Longrightarrow> no_older (lb_versions db) (lb_versions (policy_run rs db))"
proof (induction rs db rule: policy_run.induct)
  case (2 r u now rs db)
  from no_older_trans [OF policy_serve_no_older [OF 2(2)] 2(1) [OF policy_serve_inv [OF 2(2)]]]
  show ?case by simp
qed simp

section \<open>Properties\<close>

definition empty_policy_db :: policy_db where
  "empty_policy_db = \<lparr>lb_policies = [], lb_versions = [], lb_audits = []\<rparr>"

lemma empty_policy_inv: "policy_inv empty_policy_db"
  by (simp add: policy_inv_def empty_policy_db_def default_scoped_def policy_active.exclusive_Nil)

text \<open>
  C11. Serial requests (creation, new versions, rules, submission, approval, rejection,
  activation, from the empty database, by any users): a version in force is the only active one
  of its policy, its approver is not its maker, its rules passed the checks of submission, and
  every rule reads the input and type its catalogue entry prescribes.
\<close>

theorem platform_policies_serial:
  assumes "v \<in> set (lb_versions (policy_run rs empty_policy_db))" and "qv_status v = V_ACTIVE"
  shows "count_rows (\<lambda>w. qv_policyId w = qv_policyId v \<and> qv_status w = V_ACTIVE)
       (lb_versions (policy_run rs empty_policy_db)) = 1
     \<and> (\<exists>a. qv_approvedById v = Some a \<and> a \<noteq> policy_maker v)
     \<and> vetted (qv_rules v) \<and> list_all from_catalogue (qv_rules v)"
proof -
  let ?t = "lb_versions (policy_run rs empty_policy_db)"
  from policy_run_inv [OF empty_policy_inv]
  have inv: "policy_active.exclusive ?t" "unique_keys qv_id ?t" "list_all policy_row_ok ?t"
    by (simp_all add: policy_inv_def)
  from assms inv(3) have "policy_row_ok v" by (simp add: list_all_iff)
  moreover have "count_rows (\<lambda>w. qv_policyId w = qv_policyId v \<and> qv_status w = V_ACTIVE) ?t \<noteq> 0"
    using assms by (auto simp: count_rows_zero_iff)
  moreover note policy_active.exclusive_count [OF inv(1,2), of "qv_policyId v"]
  ultimately show ?thesis
    using assms(2) by (auto simp: policy_row_ok_def policy_review.reviewed_def policy_cleared_def)
qed

definition demo_payload :: "rule_payload list" where
  "demo_payload =
     map (\<lambda>(code, o', expected, act).
       \<lparr>ry_ruleCode = code, ry_operator = o', ry_expectedValue = expected, ry_failureOutcome = FAIL,
        ry_reasonCode = code, ry_customerMessage = ''not eligible'', ry_internalMessage = None,
        ry_isActive = act, ry_sortOrder = None\<rparr>)
     [(''PAN_VERIFIED'', O_IS_TRUE, JNull, True),
      (''MINIMUM_AGE'', O_GREATER_THAN_OR_EQUAL, JNum 21, True),
      (''MAXIMUM_AGE'', O_LESS_THAN_OR_EQUAL, JNum 60, True),
      (''PIN_SERVICEABLE'', O_IN, JArr [JStr ''110001''], True),
      (''NO_ACTIVE_APPLICATION'', O_EQUALS, JBool False, True),
      (''NO_FRAUD_FLAG'', O_IS_FALSE, JNull, False)]"

definition demo_policy_requests :: "ident \<Rightarrow> ident \<Rightarrow> (policy_request \<times> ident \<times> time) list" where
  "demo_policy_requests pid vid =
     [(QCreate pid vid ''Base'' pid None, ''maker'', 1),
      (QOperation (KRules demo_payload) vid 1, ''maker'', 2),
      (QOperation KSubmit vid 2, ''maker'', 3),
      (QOperation KApprove vid 3, ''checker'', 4),
      (QOperation (KActivate None) vid 4, ''maker'', 5)]"

definition demo_policy_db :: policy_db where
  "demo_policy_db = policy_run (demo_policy_requests ''p'' ''v'') empty_policy_db"

theorem platform_policies_serial_witness:
  "map qv_approvedById (lb_versions demo_policy_db) = [Some ''checker'']
     \<and> count_rows (\<lambda>w. qv_policyId w = ''p'' \<and> qv_status w = V_ACTIVE) (lb_versions demo_policy_db) = 1
     \<and> vetted (qv_rules (hd (lb_versions demo_policy_db)))"
proof -
  let ?v = "hd (lb_versions demo_policy_db)"
  have l: "length (lb_versions demo_policy_db) = 1" by code_simp
  then have "lb_versions demo_policy_db \<noteq> []" by auto
  then have v: "?v \<in> set (lb_versions demo_policy_db)" by (rule hd_in_set)
  have a: "qv_status ?v = V_ACTIVE" and p: "qv_policyId ?v = ''p''" by code_simp+
  have "map qv_approvedById (lb_versions demo_policy_db) = [Some ''checker'']" by code_simp
  with platform_policies_serial [OF v [unfolded demo_policy_db_def] a [unfolded demo_policy_db_def],
      folded demo_policy_db_def] p show ?thesis by simp
qed

text \<open>
  Optimistic concurrency: a successful operation moves the version counter of its row by
  one, and from then on, whatever other requests are served in between, every operation on
  that version that still names the old counter fails and changes nothing.
\<close>

theorem expected_version_used_once:
  assumes "policy_inv db" and "policy_operation c u i n now db = (Inr w, db1)"
  shows "qv_version w = n + 1 \<and> find_unique qv_id i (lb_versions db1) = Some w
    \<and> (\<exists>e. policy_operation c' u' i n now' (policy_run rs db1) = (Inl e, policy_run rs db1))"
proof -
  from assms have un: "unique_keys qv_id (lb_versions db)" by (simp add: policy_inv_def)
  have w: "qv_version w = n + 1 \<and> find_unique qv_id i (lb_versions db1) = Some w"
  proof (rule policy_operation_cases [OF un, of c u i n now])
    fix v t ps
    assume v: "find_unique qv_id i (lb_versions db) = Some v"
      and ok: "first_error (op_checks c u n now v) = None" and n: "qv_version v = n"
      and t: "t = update_many (\<lambda>r. qv_id r = i \<and> qv_version r = n) (op_data c u now)
       (op_before c u (qv_policyId v) (lb_versions db))"
      and r: "policy_operation c u i n now db = (Inr (op_data c u now v),
        policy_audit (op_action c) i u (db\<lparr>lb_versions := t, lb_policies := ps\<rparr>))"
    from r assms(2) have "w = op_data c u now v" "lb_versions db1 = t" by auto
    moreover have "find_unique qv_id i t = Some (op_data c u now v)" unfolding t
      using find_unique_Some_D [OF v] n
      by (simp add: find_unique_update_many op_data_fields op_before_find [OF v ok])
    ultimately show ?thesis using n by (simp add: op_data_fields)
  qed (use assms(2) in simp)
  have "policy_inv db1" using policy_operation_inv [OF assms(1), of c u i n now] assms(2) by simp
  from policy_run_inv [OF this, of rs] policy_run_no_older [OF this, of rs] w
  obtain x where x: "find_unique qv_id i (lb_versions (policy_run rs db1)) = Some x"
      "n < qv_version x" and inv: "unique_keys qv_id (lb_versions (policy_run rs db1))"
    by (force simp: no_older_def policy_inv_def)
  have "\<exists>e. policy_operation c' u' i n now' (policy_run rs db1) = (Inl e, policy_run rs db1)"
    by (rule policy_operation_cases [OF inv, of c' u' i n now']) (use x in auto)
  with w show ?thesis by blast
qed

theorem expected_version_used_once_witness:
  "\<exists>w e. fst (policy_operation (KActivate None) ''maker'' ''v'' 4 5
       (policy_run (take 4 (demo_policy_requests ''p'' ''v'')) empty_policy_db)) = Inr w
     \<and> qv_version w = 5
     \<and> policy_operation (KActivate None) ''other'' ''v'' 4 9 demo_policy_db = (Inl e, demo_policy_db)"
proof -
  let ?db = "policy_run (take 4 (demo_policy_requests ''p'' ''v'')) empty_policy_db"
  let ?r = "policy_operation (KActivate None) ''maker'' ''v'' 4 5 ?db"
  have "fst ?r = Inr (projr (fst ?r))" by code_simp
  then have r: "?r = (Inr (projr (fst ?r)), snd ?r)" by (metis prod.collapse)
  have s: "snd ?r = demo_policy_db" by (simp add: demo_policy_db_def demo_policy_requests_def)
  from expected_version_used_once [OF policy_run_inv [OF empty_policy_inv] r, of "KActivate None" "''other''" 9 "[]"]
  obtain e where "qv_version (projr (fst ?r)) = 5"
    "policy_operation (KActivate None) ''other'' ''v'' 4 9 demo_policy_db = (Inl e, demo_policy_db)"
    unfolding s by auto
  with r show ?thesis by (metis fst_conv)
qed

text \<open>The version an operation leaves in force is the one its policy resolves to.\<close>

lemma filter_key_single:
  assumes "unique_keys key t" and "find_unique key k t = Some x" and "P x"
    and "\<forall>y\<in>set t. P y \<longrightarrow> key y = k"
  shows "filter P t = [x]"
  using assms
proof (induction t)
  case (Cons y t)
  show ?case
  proof (cases "key y = k")
    case True
    with Cons.prems have "\<forall>z\<in>set t. \<not> P z" by (force simp: image_iff)
    with True Cons.prems show ?thesis by (simp add: filter_empty_conv)
  next
    case False
    with Cons show ?thesis by auto
  qed
qed simp

lemma activation_state:
  assumes "policy_inv db" and "policy_operation (KActivate eff) u i n now db = (Inr w, db1)"
  shows "qv_id w = i" "find_unique qv_id i (lb_versions db1) = Some w" "qv_status w = V_ACTIVE"
    "now \<le> now' \<Longrightarrow> in_force now' w"
    "\<exists>y. find_unique pl_id (qv_policyId w) (lb_policies db1) = Some y \<and> pl_operationalStatus y = ACTIVE"
proof -
  from assms have un: "unique_keys qv_id (lb_versions db)" by (simp add: policy_inv_def)
  have "qv_id w = i \<and> find_unique qv_id i (lb_versions db1) = Some w \<and> qv_status w = V_ACTIVE
    \<and> (now \<le> now' \<longrightarrow> in_force now' w)
    \<and> (\<exists>y. find_unique pl_id (qv_policyId w) (lb_policies db1) = Some y \<and> pl_operationalStatus y = ACTIVE)"
  proof (rule policy_operation_cases [OF un, of "KActivate eff" u i n now])
    fix v t ps
    assume v: "find_unique qv_id i (lb_versions db) = Some v"
      and ok: "first_error (op_checks (KActivate eff) u n now v) = None" and n: "qv_version v = n"
      and t: "t = update_many (\<lambda>r. qv_id r = i \<and> qv_version r = n) (op_data (KActivate eff) u now)
       (op_before (KActivate eff) u (qv_policyId v) (lb_versions db))"
      and ps: "op_policies (KActivate eff) u (qv_policyId v) (lb_policies db) = Inr ps"
      and r: "policy_operation (KActivate eff) u i n now db = (Inr (op_data (KActivate eff) u now v),
        policy_audit (op_action (KActivate eff)) i u (db\<lparr>lb_versions := t, lb_policies := ps\<rparr>))"
    from r assms(2) have w: "w = promote_policy_version (u, eff) now v"
      "lb_versions db1 = t" "lb_policies db1 = ps" by auto
    have "find_unique qv_id i t = Some w" unfolding t w
      using find_unique_Some_D [OF v] n op_before_find [OF v ok]
      by (simp add: find_unique_update_many del: op_before.simps)
    moreover from ok have "effective_time now eff \<le> now" by (auto simp: first_error_None split: if_splits)
    then have "in_force now' w" if "now \<le> now'"
      using that by (simp add: w in_force_def promote_policy_version_def)
    moreover from ps obtain y where "update_one pl_id (qv_policyId v) (\<lambda>p. True)
        (\<lambda>p. p\<lparr>pl_operationalStatus := ACTIVE, pl_updatedById := u\<rparr>) (lb_policies db) = Inr (y, ps)"
      by (auto split: sum.splits)
    with update_one_find [OF this] have "find_unique pl_id (qv_policyId v) ps = Some y"
      "pl_operationalStatus y = ACTIVE" by (auto simp: update_one_Inr)
    ultimately show ?thesis using w find_unique_Some_D [OF v] by simp
  qed (use assms(2) in simp)
  then show "qv_id w = i" "find_unique qv_id i (lb_versions db1) = Some w" "qv_status w = V_ACTIVE"
    "now \<le> now' \<Longrightarrow> in_force now' w"
    "\<exists>y. find_unique pl_id (qv_policyId w) (lb_policies db1) = Some y \<and> pl_operationalStatus y = ACTIVE"
    by blast+
qed

definition others_in_force :: "time \<Rightarrow> ident \<Rightarrow> policy_db \<Rightarrow> bool" where
  "others_in_force now p db \<longleftrightarrow>
     list_ex (\<lambda>y. pl_id y \<noteq> p \<and> pl_operationalStatus y = ACTIVE
       \<and> list_ex (\<lambda>x. qv_policyId x = pl_id y \<and> in_force now x) (lb_versions db)) (lb_policies db)"

text \<open>
  After an activation at time \<open>now\<close>, the eligibility check of an application at any later
  time finds exactly the activated version; unless another policy has a version in force, and
  then it finds none: every policy carries the same product and scope, nothing retires the
  policies that were active before, and the lookup fails for every applicant.
\<close>

theorem activation_resolves:
  assumes "policy_inv db" and "policy_operation (KActivate eff) u i n now db = (Inr w, db1)"
    and "now \<le> now'"
  shows "resolveActivePolicyVersion ''PL_DEFAULT'' ''PLATFORM_DEFAULT'' now' db1 =
     (if others_in_force now' (qv_policyId w) db1
      then Inl (ServerError ''Expected exactly one active policy'') else Inr w)"
proof -
  note w = activation_state(1-3) [OF assms(1,2)] activation_state(4) [OF assms]
  from activation_state(5) [OF assms(1,2)] obtain y
    where y: "find_unique pl_id (qv_policyId w) (lb_policies db1) = Some y" "pl_operationalStatus y = ACTIVE"
    by blast
  from find_unique_Some_D [OF y(1)] have yp: "y \<in> set (lb_policies db1)" "pl_id y = qv_policyId w" by simp_all
  have inv: "policy_inv db1" using policy_operation_inv [OF assms(1), of "KActivate eff" u i n now] assms(2) by simp
  let ?Q = "\<lambda>p. pl_platformProductId p = ''PL_DEFAULT'' \<and> pl_scopeCode p = ''PLATFORM_DEFAULT''
      \<and> pl_operationalStatus p = ACTIVE
      \<and> list_ex (\<lambda>v. qv_policyId v = pl_id p \<and> in_force now' v) (lb_versions db1)"
  from w have wt: "w \<in> set (lb_versions db1)" by (auto dest: find_unique_Some_D)
  from inv have scope: "pl_platformProductId p = ''PL_DEFAULT'' \<and> pl_scopeCode p = ''PLATFORM_DEFAULT''"
    if "p \<in> set (lb_policies db1)" for p
    using that by (auto simp: policy_inv_def default_scoped_def policy_scope_def default_scope_def)
  from wt w(4) yp y(2) scope have Qy: "?Q y" by (auto simp: list_ex_iff)
  have vs: "filter (\<lambda>v. qv_policyId v = pl_id y \<and> in_force now' v) (lb_versions db1) = [w]"
  proof (rule filter_key_single [OF _ w(2)])
    show "unique_keys qv_id (lb_versions db1)" using inv by (simp add: policy_inv_def)
    show "\<forall>v\<in>set (lb_versions db1). qv_policyId v = pl_id y \<and> in_force now' v \<longrightarrow> qv_id v = i"
    proof (intro ballI impI)
      fix v assume "v \<in> set (lb_versions db1)" "qv_policyId v = pl_id y \<and> in_force now' v"
      with policy_active.exclusiveD [of "lb_versions db1" v w] inv wt w(1,3) yp(2)
      show "qv_id v = i" by (simp add: policy_inv_def in_force_def)
    qed
  qed (use w(4) yp(2) in simp)
  show ?thesis
  proof (cases "others_in_force now' (qv_policyId w) db1")
    case True
    then obtain z where z: "z \<in> set (lb_policies db1)" "pl_id z \<noteq> qv_policyId w" "?Q z"
      using scope by (auto simp: others_in_force_def list_ex_iff)
    have "y \<in> set (filter ?Q (lb_policies db1))" "z \<in> set (filter ?Q (lb_policies db1))"
      using Qy yp z by simp_all
    moreover have "y \<noteq> z" using z(2) yp(2) by auto
    ultimately have "filter ?Q (lb_policies db1) \<noteq> [a]" for a
      by (metis empty_iff empty_set set_ConsD)
    with True show ?thesis unfolding resolveActivePolicyVersion_def
      by (auto split: list.splits)
  next
    case False
    have "filter ?Q (lb_policies db1) = [y]"
      by (rule filter_key_single [where P = ?Q, OF _ y(1) Qy])
        (use inv False in \<open>auto simp: policy_inv_def others_in_force_def list_ex_iff\<close>)
    with False vs show ?thesis unfolding resolveActivePolicyVersion_def by simp
  qed
qed

theorem activation_resolves_witness:
  "\<exists>w. resolveActivePolicyVersion ''PL_DEFAULT'' ''PLATFORM_DEFAULT'' 9 demo_policy_db = Inr w \<and> qv_version w = 5"
proof -
  let ?db = "policy_run (take 4 (demo_policy_requests ''p'' ''v'')) empty_policy_db"
  let ?r = "policy_operation (KActivate None) ''maker'' ''v'' 4 5 ?db"
  have "fst ?r = Inr (projr (fst ?r))" by code_simp
  then have r: "?r = (Inr (projr (fst ?r)), snd ?r)" by (metis prod.collapse)
  have s: "snd ?r = demo_policy_db" by (simp add: demo_policy_db_def demo_policy_requests_def)
  have o: "\<not> others_in_force 9 (qv_policyId (projr (fst ?r))) demo_policy_db"
    and v: "qv_version (projr (fst ?r)) = 5" by code_simp+
  from activation_resolves [OF policy_run_inv [OF empty_policy_inv] r, of 9, unfolded s] o v
  show ?thesis by simp
qed

text \<open>
  The second policy: each of two policies goes through its own review and activation, all
  requests succeed, and no policy can be resolved any more.
\<close>

theorem second_policy_stops_resolution:
  "map qv_status (lb_versions (policy_run (demo_policy_requests ''p'' ''v'' @ demo_policy_requests ''q'' ''w'')
       empty_policy_db)) = [V_ACTIVE, V_ACTIVE]
   \<and> resolveActivePolicyVersion ''PL_DEFAULT'' ''PLATFORM_DEFAULT'' 9
       (policy_run (demo_policy_requests ''p'' ''v'' @ demo_policy_requests ''q'' ''w'') empty_policy_db)
     = Inl (ServerError ''Expected exactly one active policy'')"
  by code_simp

text \<open>
  A false expected value is lost: a Boolean rule that asks for the input to equal false is
  stored with null, and the stored rule fails every applicant, those with a false input
  included.
\<close>

theorem false_expectation_never_met:
  assumes "rule_of_payload i r = Some rule" and "ry_expectedValue r = JBool False"
    and "ry_operator r = O_EQUALS"
    and "ry_ruleCode r \<in> {''PAN_VERIFIED'', ''NO_ACTIVE_APPLICATION'', ''NO_FRAUD_FLAG''}"
  shows "evaluateRuleCondition dec num rule input = Inr False"
proof -
  have "list_all (\<lambda>code. map_option cg_valueType (catalog_find code) = Some T_BOOLEAN)
    [''PAN_VERIFIED'', ''NO_ACTIVE_APPLICATION'', ''NO_FRAUD_FLAG'']" by code_simp
  with assms(4) have "map_option cg_valueType (catalog_find (ry_ruleCode r)) = Some T_BOOLEAN"
    by (elim insertE emptyE) (simp_all only: list.pred_inject simp_thms)
  with assms(1-3) show ?thesis
    by (auto simp: rule_of_payload_def evaluateRuleCondition_def parse_expected_def parse_operand_def
        split: option.splits)
qed

theorem false_expectation_never_met_witness:
  "map (\<lambda>r. evaluateRuleCondition (\<lambda>_. None) (\<lambda>_. None) r (JBool False))
     (rules_of_payload 0 (filter (\<lambda>r. ry_ruleCode r = ''NO_ACTIVE_APPLICATION'') demo_payload)) = [Inr False]"
proof -
  let ?r = "hd (filter (\<lambda>r. ry_ruleCode r = ''NO_ACTIVE_APPLICATION'') demo_payload)"
  have "rule_of_payload 0 ?r = Some (the (rule_of_payload 0 ?r))"
    "ry_expectedValue ?r = JBool False" "ry_operator ?r = O_EQUALS"
    "ry_ruleCode ?r = ''NO_ACTIVE_APPLICATION''"
    "rules_of_payload 0 (filter (\<lambda>r. ry_ruleCode r = ''NO_ACTIVE_APPLICATION'') demo_payload) =
       [the (rule_of_payload 0 ?r)]" by code_simp+
  with false_expectation_never_met [of 0 ?r] show ?thesis by simp
qed

text \<open>
  The fraud rule is mandatory and can never be in force: rules that pass submission contain
  a NO_FRAUD_FLAG rule, and it is switched off, because no production resolver supplies its
  input; an evaluation never has a result for it.
\<close>

theorem fraud_rule_switched_off:
  assumes "vetted rules" and "evaluate dec num civil d rules inputs = Inr (rs, oc)"
  shows "''NO_FRAUD_FLAG'' \<in> pr_ruleCode ` set rules \<and> ''NO_FRAUD_FLAG'' \<notin> rr_ruleCode ` set rs"
proof
  from assms(1) show "''NO_FRAUD_FLAG'' \<in> pr_ruleCode ` set rules"
    by (auto simp: vetted_def enforceMandatoryRules_def POLICY_RULE_CATALOG_def catalog_entry_def
        split: if_splits)
  have "pr_ruleCode r \<noteq> ''NO_FRAUD_FLAG''" if "r \<in> set (active_rules rules)" for r
    using assms(1) that by (auto simp: vetted_def enforceProductionResolvers_def active_rules_def
        list_ex_iff PRODUCTION_RESOLVERS_def split: if_splits)
  moreover from evaluate_loop_Inr [OF assms(2) [unfolded evaluate_def]]
  have "list_all2 (\<lambda>rule r. evaluate_rule dec num civil d inputs rule = Inr r) (active_rules rules) rs"
    by auto
  then have "map rr_ruleCode rs = map pr_ruleCode (active_rules rules)"
    by (induction rule: list_all2_induct) (auto dest: evaluate_rule_Inr)
  then have "rr_ruleCode ` set rs = pr_ruleCode ` set (active_rules rules)"
    by (metis list.set_map)
  ultimately show "''NO_FRAUD_FLAG'' \<notin> rr_ruleCode ` set rs" by force
qed

theorem fraud_rule_switched_off_witness:
  "vetted (rules_of_payload 0 demo_payload)
   \<and> (\<exists>rs oc. evaluate (\<lambda>_. None) (\<lambda>_. None) (\<lambda>_. None) (2026, 1, 1) (rules_of_payload 0 demo_payload) demo_inputs
          = Inr (rs, oc) \<and> ''NO_FRAUD_FLAG'' \<notin> rr_ruleCode ` set rs)"
proof -
  let ?e = "evaluate (\<lambda>_. None) (\<lambda>_. None) (\<lambda>_. None) (2026, 1, 1) (rules_of_payload 0 demo_payload) demo_inputs"
  have v: "vetted (rules_of_payload 0 demo_payload)" by code_simp
  have "?e = Inr (projr ?e)" by code_simp
  then have e: "?e = Inr (fst (projr ?e), snd (projr ?e))" by simp
  from fraud_rule_switched_off [OF v e] v e show ?thesis by blast
qed

end
