(* ===== verification/Accounts.thy ===== *)
theory Accounts
  imports PolicyEval
begin

text \<open>
  Administrator accounts (modules/users/users.service.ts, modules/roles/roles.service.ts), the
  permission check of every request (common/guards/permissions.guard.ts), the security event
  log and the string helpers of common/utils.

  The state holds the tables these services share with the login (theory AuthSessions): users,
  roles, permissions, their assignments, sessions and refresh tokens. The password hash is a
  parameter. Audit entries keep action, entity and actor.
\<close>

section \<open>Data\<close>

datatype user_status = U_ACTIVE | U_DISABLED

datatype role_status = R_ACTIVE | R_INACTIVE

record user_row =
  u_id :: ident
  u_name :: string
  u_email :: string
  u_passwordHash :: string
  u_status :: user_status
  u_failedLoginCount :: int
  u_lockedUntil :: "time option"
  u_lastLoginAt :: "time option"
  u_passwordChangedAt :: time
  u_authVersion :: int

record role_row =
  ro_id :: ident
  ro_name :: string
  ro_code :: string
  ro_description :: "string option"
  ro_status :: role_status
  ro_isSystem :: bool

record session_row =
  s_id :: ident
  s_userId :: ident
  s_lastSeenAt :: time
  s_absoluteExpiresAt :: time
  s_idleExpiresAt :: time
  s_revokedAt :: "time option"
  s_revokedReason :: "string option"
  s_ipAddress :: "string option"
  s_userAgent :: "string option"
  s_deviceLabel :: string
  s_requestId :: string

record refresh_row =
  t_id :: ident
  t_sessionId :: ident
  t_tokenHash :: string
  t_parentTokenId :: "ident option"
  t_expiresAt :: time
  t_usedAt :: "time option"
  t_revokedAt :: "time option"

record login_attempt =
  la_userId :: "ident option"
  la_emailFingerprint :: string
  la_maskedEmail :: string
  la_outcome :: string
  la_reasonCode :: string
  la_ipAddress :: "string option"
  la_userAgent :: "string option"
  la_requestId :: string

record security_event =
  ev_userId :: "ident option"
  ev_sessionId :: "ident option"
  ev_eventType :: string
  ev_severity :: string
  ev_requestId :: string
  ev_ipAddress :: "string option"
  ev_userAgent :: "string option"
  ev_metadata :: json

record auth_db =
  ac_users :: "user_row list"
  ac_roles :: "role_row list"
  ac_permissions :: "(ident \<times> string) list"  \<comment> \<open>id, code\<close>
  ac_userRoles :: "(ident \<times> ident) list"  \<comment> \<open>user, role\<close>
  ac_rolePermissions :: "(ident \<times> ident) list"  \<comment> \<open>role, permission\<close>
  ac_sessions :: "session_row list"
  ac_tokens :: "refresh_row list"
  ac_attempts :: "login_attempt list"
  ac_events :: "security_event list"
  ac_audits :: "(string \<times> ident \<times> ident option) list"  \<comment> \<open>action, entity, actor\<close>

record auth_context =
  xc_requestId :: string
  xc_ipAddress :: "string option"
  xc_userAgent :: "string option"
  xc_actorUserId :: "ident option"

section \<open>Helpers\<close>

definition trim_str :: "string \<Rightarrow> string" where
  "trim_str s = rev (dropWhile is_space (rev (dropWhile is_space s)))"

definition normalizeEmail :: "string \<Rightarrow> string" where
  "normalizeEmail v = map lower_char (trim_str v)"

text \<open>\<open>const [local = '', domain = ''] = s.split('@')\<close>\<close>

definition split_at_sign :: "string \<Rightarrow> string \<times> string" where
  "split_at_sign s =
     (takeWhile (\<lambda>c. c \<noteq> CHR ''@'') s,
      takeWhile (\<lambda>c. c \<noteq> CHR ''@'') (drop 1 (dropWhile (\<lambda>c. c \<noteq> CHR ''@'') s)))"

definition maskEmail :: "string \<Rightarrow> string" where
  "maskEmail v =
     (case split_at_sign (normalizeEmail v) of
        (local, domain) \<Rightarrow>
          let visible = take (min 2 (length local)) local
          in visible @ replicate (max 2 (length local - length visible)) (CHR ''*'') @ ''@''
             @ (if domain = [] then ''invalid'' else domain))"

definition deviceLabel :: "string option \<Rightarrow> string" where
  "deviceLabel ua =
     (case ua of
        None \<Rightarrow> ''Unknown device''
      | Some [] \<Rightarrow> ''Unknown device''
      | Some s \<Rightarrow>
          (if contains ''Edg/'' s then ''Edge''
           else if contains ''Chrome/'' s then ''Chrome''
           else if contains ''Firefox/'' s then ''Firefox''
           else if contains ''Safari/'' s then ''Safari''
           else ''Browser'') @ '' on '' @
          (if contains ''Windows'' s then ''Windows''
           else if contains ''Mac OS'' s then ''macOS''
           else if contains ''Android'' s then ''Android''
           else if contains ''iPhone'' s \<or> contains ''iPad'' s then ''iOS''
           else if contains ''Linux'' s then ''Linux''
           else ''Unknown OS''))"

definition is_upper :: "char \<Rightarrow> bool" where
  "is_upper c \<longleftrightarrow> 65 \<le> (of_char c :: nat) \<and> (of_char c :: nat) \<le> 90"

definition is_lower :: "char \<Rightarrow> bool" where
  "is_lower c \<longleftrightarrow> 97 \<le> (of_char c :: nat) \<and> (of_char c :: nat) \<le> 122"

definition COMMON_PASSWORD_FRAGMENTS :: "string list" where
  "COMMON_PASSWORD_FRAGMENTS =
     [''password'', ''qwerty'', ''letmein'', ''welcome'', ''admin123'', ''12345678'', ''iloveyou'']"

definition validatePasswordStrength :: "string \<Rightarrow> string list" where
  "validatePasswordStrength p =
     (if length p < 12 then [''must be at least 12 characters''] else [])
     @ (if length p > 128 then [''must be at most 128 characters''] else [])
     @ (if \<not> list_ex is_upper p then [''must contain an uppercase letter''] else [])
     @ (if \<not> list_ex is_lower p then [''must contain a lowercase letter''] else [])
     @ (if \<not> list_ex is_digit p then [''must contain a number''] else [])
     @ (if list_all (\<lambda>c. is_upper c \<or> is_lower c \<or> is_digit c) p
        then [''must contain a special character''] else [])
     @ (if list_ex (\<lambda>w. contains w (map lower_char p)) COMMON_PASSWORD_FRAGMENTS
        then [''is too common''] else [])"

text \<open>\<open>[...new Set(xs)]\<close> keeps the first occurrence of each element.\<close>

definition js_unique :: "'a list \<Rightarrow> 'a list" where
  "js_unique xs = rev (remdups (rev xs))"

definition security_record ::
  "ident option \<Rightarrow> ident option \<Rightarrow> string \<Rightarrow> string \<Rightarrow> json \<Rightarrow> auth_context \<Rightarrow> auth_db \<Rightarrow> auth_db" where
  "security_record userId sessionId eventType severity metadata cx db =
     db\<lparr>ac_events := ac_events db @
        [\<lparr>ev_userId = userId, ev_sessionId = sessionId, ev_eventType = eventType,
          ev_severity = severity, ev_requestId = xc_requestId cx,
          ev_ipAddress = map_option (take 64) (xc_ipAddress cx),
          ev_userAgent = map_option (take 512) (xc_userAgent cx),
          ev_metadata = sanitizeObject metadata\<rparr>]\<rparr>"

definition account_audit :: "string \<Rightarrow> ident \<Rightarrow> auth_context \<Rightarrow> auth_db \<Rightarrow> auth_db" where
  "account_audit action entityId cx db =
     db\<lparr>ac_audits := ac_audits db @ [(action, entityId, xc_actorUserId cx)]\<rparr>"

section \<open>Roles and permissions of a user\<close>

definition roles_of :: "auth_db \<Rightarrow> ident \<Rightarrow> role_row list" where
  "roles_of db userId = filter (\<lambda>r. (userId, ro_id r) \<in> set (ac_userRoles db)) (ac_roles db)"

definition has_role :: "auth_db \<Rightarrow> string \<Rightarrow> ident \<Rightarrow> bool" where
  "has_role db code userId \<longleftrightarrow> list_ex (\<lambda>r. ro_code r = code) (roles_of db userId)"

definition permissions_of :: "auth_db \<Rightarrow> role_row \<Rightarrow> string list" where
  "permissions_of db r =
     map snd (filter (\<lambda>p. (ro_id r, fst p) \<in> set (ac_rolePermissions db)) (ac_permissions db))"

definition active_roles :: "auth_db \<Rightarrow> ident \<Rightarrow> role_row list" where
  "active_roles db userId = filter (\<lambda>r. ro_status r = R_ACTIVE) (roles_of db userId)"

text \<open>The user object of a request: codes of the active roles and what they permit.\<close>

record authenticated =
  az_userId :: ident
  az_sessionId :: ident
  az_authVersion :: int
  az_roleCodes :: "string list"
  az_permissionCodes :: "string list"

definition role_codes :: "auth_db \<Rightarrow> ident \<Rightarrow> string list" where
  "role_codes db userId = map ro_code (active_roles db userId)"

definition permission_codes :: "auth_db \<Rightarrow> ident \<Rightarrow> string list" where
  "permission_codes db userId = js_unique (concat (map (permissions_of db) (active_roles db userId)))"

text \<open>\<open>getUser\<close>: the permissions the administration shows for a user.\<close>

definition effectivePermissions :: "auth_db \<Rightarrow> ident \<Rightarrow> string list" where
  "effectivePermissions db userId = js_unique (concat (map (permissions_of db) (roles_of db userId)))"

text \<open>\<open>PermissionsGuard.canActivate\<close>\<close>

definition permission_granted :: "bool \<Rightarrow> string list \<Rightarrow> authenticated option \<Rightarrow> bool" where
  "permission_granted public required user \<longleftrightarrow>
     public \<or> required = []
     \<or> (let roles = (case user of None \<Rightarrow> [] | Some u \<Rightarrow> az_roleCodes u);
            granted = (case user of None \<Rightarrow> [] | Some u \<Rightarrow> az_permissionCodes u)
        in ''SUPERADMIN'' \<in> set roles
           \<or> list_all (\<lambda>p. p \<in> set granted \<or> p \<in> set roles) required)"

definition permissions_guard ::
  "bool \<Rightarrow> string list \<Rightarrow> authenticated option \<Rightarrow> string \<Rightarrow> string \<Rightarrow> auth_context \<Rightarrow> auth_db \<Rightarrow>
   (http_error + bool) \<times> auth_db" where
  "permissions_guard public required user route method' cx db =
     (if permission_granted public required user then (Inr True, db)
      else (Inl (Forbidden ''AUTH_PERMISSION_REQUIRED''),
        security_record (map_option az_userId user) (map_option az_sessionId user)
          ''FORBIDDEN_ACCESS'' ''MEDIUM''
          (JObj [(''route'', JStr route), (''method'', JStr method'),
                 (''requiredPermissions'', JArr (map JStr required))]) cx db))"

section \<open>Revoking sessions\<close>

definition revoke_sessions ::
  "(session_row \<Rightarrow> bool) \<Rightarrow> (ident \<Rightarrow> bool) \<Rightarrow> string \<Rightarrow> time \<Rightarrow> auth_db \<Rightarrow> auth_db" where
  "revoke_sessions which ids reason now db =
     db\<lparr>ac_sessions := update_many (\<lambda>s. which s \<and> s_revokedAt s = None)
          (\<lambda>s. s\<lparr>s_revokedAt := Some now, s_revokedReason := Some reason\<rparr>) (ac_sessions db),
        ac_tokens := update_many (\<lambda>t. ids (t_sessionId t) \<and> t_revokedAt t = None)
          (\<lambda>t. t\<lparr>t_revokedAt := Some now\<rparr>) (ac_tokens db)\<rparr>"

text \<open>The ids of a user's sessions that are not revoked, and the transaction that revokes them.\<close>

definition open_sessions :: "ident \<Rightarrow> auth_db \<Rightarrow> ident list" where
  "open_sessions userId db =
     map s_id (filter (\<lambda>s. s_userId s = userId \<and> s_revokedAt s = None) (ac_sessions db))"

definition revoke_ids :: "ident list \<Rightarrow> string \<Rightarrow> time \<Rightarrow> auth_db \<Rightarrow> auth_db" where
  "revoke_ids ids reason now =
     revoke_sessions (\<lambda>s. s_id s \<in> set ids) (\<lambda>i. i \<in> set ids) reason now"

section \<open>Users\<close>

record create_user_dto =
  cu_name :: string
  cu_email :: string
  cu_password :: string
  cu_roleIds :: "ident list"
  cu_status :: user_status

definition find_roles :: "auth_db \<Rightarrow> ident list \<Rightarrow> role_row list" where
  "find_roles db ids = filter (\<lambda>r. ro_id r \<in> set ids) (ac_roles db)"

definition check_roles :: "auth_db \<Rightarrow> ident list \<Rightarrow> http_error + role_row list" where
  "check_roles db ids =
     (let roles = find_roles db ids in
      if length roles \<noteq> length ids then Inl (BadRequest ''One or more role IDs are invalid.'')
      else if list_ex (\<lambda>r. ro_status r \<noteq> R_ACTIVE) roles
      then Inl (BadRequest ''All assigned roles must be ACTIVE.'')
      else Inr roles)"

definition createUser ::
  "(string \<Rightarrow> string) \<Rightarrow> ident \<Rightarrow> create_user_dto \<Rightarrow> auth_context \<Rightarrow> time \<Rightarrow> auth_db \<Rightarrow>
   (http_error + ident) \<times> auth_db" where
  "createUser hashPassword uid dto cx now db =
     (if validatePasswordStrength (cu_password dto) \<noteq> []
      then (Inl (BadRequest ''INVALID_REQUEST''), db)
      else if list_ex (\<lambda>u. u_email u = cu_email dto) (ac_users db)
      then (Inl (Conflict ''Email already in use.''), db)
      else
        let ids = js_unique (cu_roleIds dto) in
        case check_roles db ids of
          Inl e \<Rightarrow> (Inl e, db)
        | Inr roles \<Rightarrow>
            if uid \<in> u_id ` set (ac_users db)
            then (Inl (DbError ''P2002''), db)
            else
              (Inr uid,
               account_audit ''USER_CREATED'' uid cx
                 (db\<lparr>ac_users := ac_users db @
                       [\<lparr>u_id = uid, u_name = cu_name dto, u_email = cu_email dto,
                         u_passwordHash = hashPassword (cu_password dto), u_status = cu_status dto,
                         u_failedLoginCount = 0, u_lockedUntil = None, u_lastLoginAt = None,
                         u_passwordChangedAt = now, u_authVersion = 1\<rparr>],
                     ac_userRoles := ac_userRoles db @ map (\<lambda>r. (uid, r)) ids\<rparr>)))"

definition set_opt :: "'a option \<Rightarrow> 'a \<Rightarrow> 'a" where
  "set_opt o' x = (case o' of None \<Rightarrow> x | Some y \<Rightarrow> y)"

definition updateUser ::
  "ident \<Rightarrow> string option \<Rightarrow> string option \<Rightarrow> auth_context \<Rightarrow> auth_db \<Rightarrow>
   (http_error + user_row) \<times> auth_db" where
  "updateUser userId name email cx db =
     (case find_unique u_id userId (ac_users db) of
        None \<Rightarrow> (Inl (NotFound ''User not found.''), db)
      | Some user \<Rightarrow>
          if (case email of None \<Rightarrow> False
              | Some e \<Rightarrow> e \<noteq> [] \<and> e \<noteq> u_email user \<and> list_ex (\<lambda>u. u_email u = e) (ac_users db))
          then (Inl (Conflict ''Email already in use.''), db)
          else
            let f = (\<lambda>u. u\<lparr>u_name := set_opt name (u_name u), u_email := set_opt email (u_email u)\<rparr>)
            in (Inr (f user),
                account_audit ''USER_UPDATED'' userId cx
                  (db\<lparr>ac_users := update_many (\<lambda>u. u_id u = userId) f (ac_users db)\<rparr>)))"

text \<open>
  \<open>replaceUserRoles\<close>: the checks read the database, the transaction writes it; another
  request may come between.
\<close>

definition superadmins_except :: "ident \<Rightarrow> auth_db \<Rightarrow> nat" where
  "superadmins_except userId db =
     length (filter (\<lambda>u. u_id u \<noteq> userId \<and> u_status u = U_ACTIVE \<and> has_role db ''SUPERADMIN'' (u_id u))
       (ac_users db))"

definition replaceUserRoles_check ::
  "ident \<Rightarrow> ident list \<Rightarrow> auth_context \<Rightarrow> auth_db \<Rightarrow>
   http_error + ident list \<times> string list \<times> string list" where
  "replaceUserRoles_check userId roleIds cx db =
     (case find_unique u_id userId (ac_users db) of
        None \<Rightarrow> Inl (NotFound ''User not found.'')
      | Some user \<Rightarrow>
          let ids = js_unique roleIds in
          case check_roles db ids of
            Inl e \<Rightarrow> Inl e
          | Inr roles \<Rightarrow>
              let had = has_role db ''SUPERADMIN'' userId;
                  stays = list_ex (\<lambda>r. ro_code r = ''SUPERADMIN'') roles
              in if xc_actorUserId cx = Some userId \<and> had \<and> \<not> stays
                 then Inl (Forbidden ''You cannot remove your own SUPERADMIN role.'')
                 else if had \<and> \<not> stays \<and> superadmins_except userId db = 0
                 then Inl (Forbidden ''Cannot remove the last active SUPERADMIN role assignment.'')
                 else Inr (ids, map ro_code (roles_of db userId), map ro_code roles))"

definition replaceUserRoles_write ::
  "ident \<Rightarrow> ident list \<Rightarrow> string list \<Rightarrow> string list \<Rightarrow> auth_context \<Rightarrow> time \<Rightarrow> auth_db \<Rightarrow> auth_db" where
  "replaceUserRoles_write userId ids previousCodes newCodes cx now db =
     (let db1 = db\<lparr>ac_userRoles :=
                    filter (\<lambda>ur. fst ur \<noteq> userId) (ac_userRoles db) @ map (\<lambda>r. (userId, r)) ids,
                  ac_users := update_many (\<lambda>u. u_id u = userId)
                    (\<lambda>u. u\<lparr>u_authVersion := u_authVersion u + 1\<rparr>) (ac_users db)\<rparr>
      in security_record (Some userId) None ''USER_ROLES_CHANGED'' ''MEDIUM''
           (JObj [(''previousRoles'', JArr (map JStr previousCodes)),
                  (''newRoles'', JArr (map JStr newCodes))]) cx
           (account_audit ''USER_ROLES_REPLACED'' userId cx
             (revoke_ids (open_sessions userId db1) ''ROLES_CHANGED'' now db1)))"

definition replaceUserRoles ::
  "ident \<Rightarrow> ident list \<Rightarrow> auth_context \<Rightarrow> time \<Rightarrow> auth_db \<Rightarrow> (http_error + unit) \<times> auth_db" where
  "replaceUserRoles userId roleIds cx now db =
     (case replaceUserRoles_check userId roleIds cx db of
        Inl e \<Rightarrow> (Inl e, db)
      | Inr (ids, previousCodes, newCodes) \<Rightarrow>
          (Inr (), replaceUserRoles_write userId ids previousCodes newCodes cx now db))"

definition activateUser ::
  "ident \<Rightarrow> auth_context \<Rightarrow> auth_db \<Rightarrow> (http_error + unit) \<times> auth_db" where
  "activateUser userId cx db =
     (case find_unique u_id userId (ac_users db) of
        None \<Rightarrow> (Inl (NotFound ''User not found.''), db)
      | Some user \<Rightarrow>
          if u_status user = U_ACTIVE then (Inr (), db)
          else (Inr (),
            account_audit ''USER_ACTIVATED'' userId cx
              (db\<lparr>ac_users := update_many (\<lambda>u. u_id u = userId)
                   (\<lambda>u. u\<lparr>u_status := U_ACTIVE, u_failedLoginCount := 0, u_lockedUntil := None,
                          u_authVersion := u_authVersion u + 1\<rparr>) (ac_users db)\<rparr>)))"

definition disableUser_check ::
  "ident \<Rightarrow> auth_context \<Rightarrow> auth_db \<Rightarrow> http_error + unit" where
  "disableUser_check userId cx db =
     (if xc_actorUserId cx = Some userId
      then Inl (Forbidden ''You cannot disable your own account.'')
      else case find_unique u_id userId (ac_users db) of
        None \<Rightarrow> Inl (NotFound ''User not found.'')
      | Some user \<Rightarrow>
          if has_role db ''SUPERADMIN'' userId \<and> superadmins_except userId db = 0
          then Inl (Forbidden ''Cannot disable the last active SUPERADMIN.'')
          else Inr ())"

definition disableUser_write :: "ident \<Rightarrow> auth_context \<Rightarrow> time \<Rightarrow> auth_db \<Rightarrow> auth_db" where
  "disableUser_write userId cx now db =
     (let db1 = db\<lparr>ac_users := update_many (\<lambda>u. u_id u = userId)
                   (\<lambda>u. u\<lparr>u_status := U_DISABLED, u_authVersion := u_authVersion u + 1\<rparr>) (ac_users db)\<rparr>
      in security_record (Some userId) None ''USER_DISABLED'' ''HIGH'' (JObj []) cx
           (account_audit ''USER_DISABLED'' userId cx
             (revoke_ids (open_sessions userId db1) ''USER_DISABLED'' now db1)))"

definition disableUser ::
  "ident \<Rightarrow> auth_context \<Rightarrow> time \<Rightarrow> auth_db \<Rightarrow> (http_error + unit) \<times> auth_db" where
  "disableUser userId cx now db =
     (case disableUser_check userId cx db of
        Inl e \<Rightarrow> (Inl e, db)
      | Inr _ \<Rightarrow> (Inr (), disableUser_write userId cx now db))"

definition revokeUserSessions ::
  "ident \<Rightarrow> auth_context \<Rightarrow> time \<Rightarrow> auth_db \<Rightarrow> (http_error + nat) \<times> auth_db" where
  "revokeUserSessions userId cx now db =
     (case find_unique u_id userId (ac_users db) of
        None \<Rightarrow> (Inl (NotFound ''User not found.''), db)
      | Some user \<Rightarrow>
          let ids = open_sessions userId db
          in (Inr (length ids),
              security_record (Some userId) None ''ALL_SESSIONS_REVOKED_BY_ADMIN'' ''HIGH''
                (JObj [(''revokedCount'', JNum (of_nat (length ids)))]) cx
                (account_audit ''USER_SESSIONS_REVOKED'' userId cx
                  (revoke_ids ids ''ADMIN_REVOKED'' now db))))"

section \<open>Roles\<close>

record create_role_dto =
  cr_name :: string
  cr_code :: string
  cr_description :: "string option"
  cr_status :: role_status
  cr_permissionIds :: "ident list"

definition check_permissions :: "auth_db \<Rightarrow> ident list \<Rightarrow> http_error option" where
  "check_permissions db ids =
     (if length (filter (\<lambda>p. fst p \<in> set ids) (ac_permissions db)) \<noteq> length ids
      then Some (BadRequest ''One or more permission IDs are invalid.'') else None)"

definition createRole ::
  "ident \<Rightarrow> create_role_dto \<Rightarrow> auth_context \<Rightarrow> auth_db \<Rightarrow> (http_error + role_row) \<times> auth_db" where
  "createRole rid dto cx db =
     (if list_ex (\<lambda>r. ro_code r = cr_code dto) (ac_roles db)
      then (Inl (Conflict ''Role code already exists.''), db)
      else
        let ids = js_unique (cr_permissionIds dto) in
        case (if ids = [] then None else check_permissions db ids) of
          Some e \<Rightarrow> (Inl e, db)
        | None \<Rightarrow>
            if rid \<in> ro_id ` set (ac_roles db)
            then (Inl (DbError ''P2002''), db)
            else
              let r = \<lparr>ro_id = rid, ro_name = cr_name dto, ro_code = cr_code dto,
                       ro_description = cr_description dto, ro_status = cr_status dto,
                       ro_isSystem = False\<rparr>
              in (Inr r,
                  account_audit ''ROLE_CREATED'' rid cx
                    (db\<lparr>ac_roles := ac_roles db @ [r],
                        ac_rolePermissions := ac_rolePermissions db @ map (\<lambda>p. (rid, p)) ids\<rparr>)))"

definition updateRole ::
  "ident \<Rightarrow> string option \<Rightarrow> string option \<Rightarrow> auth_context \<Rightarrow> auth_db \<Rightarrow>
   (http_error + role_row) \<times> auth_db" where
  "updateRole roleId name description cx db =
     (case find_unique ro_id roleId (ac_roles db) of
        None \<Rightarrow> (Inl (NotFound ''Role not found''), db)
      | Some role \<Rightarrow>
          let f = (\<lambda>r. r\<lparr>ro_name := set_opt name (ro_name r),
                         ro_description := (case description of None \<Rightarrow> ro_description r | Some d \<Rightarrow> Some d)\<rparr>)
          in (Inr (f role),
              account_audit ''ROLE_UPDATED'' roleId cx
                (db\<lparr>ac_roles := update_many (\<lambda>r. ro_id r = roleId) f (ac_roles db)\<rparr>)))"

definition replacePermissions ::
  "ident \<Rightarrow> ident list \<Rightarrow> auth_context \<Rightarrow> auth_db \<Rightarrow> (http_error + unit) \<times> auth_db" where
  "replacePermissions roleId permissionIds cx db =
     (case find_unique ro_id roleId (ac_roles db) of
        None \<Rightarrow> (Inl (NotFound ''Role not found''), db)
      | Some role \<Rightarrow>
          if ro_code role = ''SUPERADMIN''
          then (Inl (Forbidden ''SUPERADMIN permissions cannot be modified.''), db)
          else
            let ids = js_unique permissionIds in
            case check_permissions db ids of
              Some e \<Rightarrow> (Inl e, db)
            | None \<Rightarrow>
                (Inr (),
                 account_audit ''ROLE_PERMISSIONS_REPLACED'' roleId cx
                   (db\<lparr>ac_rolePermissions :=
                        filter (\<lambda>rp. fst rp \<noteq> roleId) (ac_rolePermissions db)
                        @ map (\<lambda>p. (roleId, p)) ids\<rparr>)))"

definition changeRoleStatus ::
  "ident \<Rightarrow> role_status \<Rightarrow> string \<Rightarrow> auth_context \<Rightarrow> auth_db \<Rightarrow> (http_error + unit) \<times> auth_db" where
  "changeRoleStatus roleId status action cx db =
     (case find_unique ro_id roleId (ac_roles db) of
        None \<Rightarrow> (Inl (NotFound ''Role not found''), db)
      | Some role \<Rightarrow>
          if ro_status role = status then (Inr (), db)
          else (Inr (),
            account_audit action roleId cx
              (db\<lparr>ac_roles := update_many (\<lambda>r. ro_id r = roleId)
                   (\<lambda>r. r\<lparr>ro_status := status\<rparr>) (ac_roles db)\<rparr>)))"

definition activateRole ::
  "ident \<Rightarrow> auth_context \<Rightarrow> auth_db \<Rightarrow> (http_error + unit) \<times> auth_db" where
  "activateRole roleId = changeRoleStatus roleId R_ACTIVE ''ROLE_ACTIVATED''"

definition deactivateRole ::
  "ident \<Rightarrow> auth_context \<Rightarrow> auth_db \<Rightarrow> (http_error + unit) \<times> auth_db" where
  "deactivateRole roleId cx db =
     (if list_ex (\<lambda>r. ro_id r = roleId \<and> ro_code r = ''SUPERADMIN'') (ac_roles db)
      then (Inl (Forbidden ''SUPERADMIN role cannot be deactivated.''), db)
      else changeRoleStatus roleId R_INACTIVE ''ROLE_DEACTIVATED'' cx db)"

section \<open>Requests\<close>

datatype account_request =
    XCreateUser ident create_user_dto
  | XUpdateUser ident "string option" "string option"
  | XReplaceRoles ident "ident list"
  | XActivateUser ident
  | XDisableUser ident
  | XRevokeSessions ident
  | XCreateRole ident create_role_dto
  | XUpdateRole ident "string option" "string option"
  | XReplacePermissions ident "ident list"
  | XActivateRole ident
  | XDeactivateRole ident

fun account_serve ::
  "(string \<Rightarrow> string) \<Rightarrow> account_request \<Rightarrow> auth_context \<Rightarrow> time \<Rightarrow> auth_db \<Rightarrow> auth_db" where
  "account_serve hp (XCreateUser uid dto) cx now db = snd (createUser hp uid dto cx now db)"
| "account_serve hp (XUpdateUser i name email) cx now db = snd (updateUser i name email cx db)"
| "account_serve hp (XReplaceRoles i ids) cx now db = snd (replaceUserRoles i ids cx now db)"
| "account_serve hp (XActivateUser i) cx now db = snd (activateUser i cx db)"
| "account_serve hp (XDisableUser i) cx now db = snd (disableUser i cx now db)"
| "account_serve hp (XRevokeSessions i) cx now db = snd (revokeUserSessions i cx now db)"
| "account_serve hp (XCreateRole rid dto) cx now db = snd (createRole rid dto cx db)"
| "account_serve hp (XUpdateRole i name description) cx now db = snd (updateRole i name description cx db)"
| "account_serve hp (XReplacePermissions i ids) cx now db = snd (replacePermissions i ids cx db)"
| "account_serve hp (XActivateRole i) cx now db = snd (activateRole i cx db)"
| "account_serve hp (XDeactivateRole i) cx now db = snd (deactivateRole i cx db)"

fun account_run ::
  "(string \<Rightarrow> string) \<Rightarrow> (account_request \<times> auth_context \<times> time) list \<Rightarrow> auth_db \<Rightarrow> auth_db" where
  "account_run hp [] db = db"
| "account_run hp ((r, cx, now) # rs) db = account_run hp rs (account_serve hp r cx now db)"

section \<open>An active super administrator remains\<close>

definition superadmin :: "auth_db \<Rightarrow> user_row \<Rightarrow> bool" where
  "superadmin db u \<longleftrightarrow> u_status u = U_ACTIVE \<and> ''SUPERADMIN'' \<in> set (role_codes db (u_id u))"

definition accounts_inv :: "auth_db \<Rightarrow> bool" where
  "accounts_inv db \<longleftrightarrow>
     unique_keys u_id (ac_users db) \<and> unique_keys ro_id (ac_roles db)
     \<and> list_all (\<lambda>r. ro_code r = ''SUPERADMIN'' \<longrightarrow> ro_status r = R_ACTIVE) (ac_roles db)
     \<and> list_ex (superadmin db) (ac_users db)"

lemma audit_tables [simp]:
  "ac_users (account_audit a e cx db) = ac_users db" "ac_users (security_record u s t sv m cx db) = ac_users db"
  "ac_roles (account_audit a e cx db) = ac_roles db" "ac_roles (security_record u s t sv m cx db) = ac_roles db"
  "ac_userRoles (account_audit a e cx db) = ac_userRoles db"
  "ac_userRoles (security_record u s t sv m cx db) = ac_userRoles db"
  "ac_permissions (account_audit a e cx db) = ac_permissions db"
  "ac_permissions (security_record u s t sv m cx db) = ac_permissions db"
  "ac_rolePermissions (account_audit a e cx db) = ac_rolePermissions db"
  "ac_rolePermissions (security_record u s t sv m cx db) = ac_rolePermissions db"
  "ac_sessions (account_audit a e cx db) = ac_sessions db"
  "ac_sessions (security_record u s t sv m cx db) = ac_sessions db"
  "ac_tokens (account_audit a e cx db) = ac_tokens db"
  "ac_tokens (security_record u s t sv m cx db) = ac_tokens db"
  by (simp_all add: account_audit_def security_record_def)

lemma revoke_tables [simp]:
  "ac_users (revoke_sessions w ids reason now db) = ac_users db"
  "ac_roles (revoke_sessions w ids reason now db) = ac_roles db"
  "ac_userRoles (revoke_sessions w ids reason now db) = ac_userRoles db"
  "ac_users (revoke_ids is reason now db) = ac_users db"
  "ac_roles (revoke_ids is reason now db) = ac_roles db"
  "ac_userRoles (revoke_ids is reason now db) = ac_userRoles db"
  by (simp_all add: revoke_sessions_def revoke_ids_def)

lemma has_role_iff:
  "has_role db code i \<longleftrightarrow> (\<exists>r\<in>set (ac_roles db). (i, ro_id r) \<in> set (ac_userRoles db) \<and> ro_code r = code)"
  by (auto simp: has_role_def roles_of_def list_ex_iff)

lemma superadmin_iff:
  "superadmin db u \<longleftrightarrow> u_status u = U_ACTIVE \<and>
     (\<exists>r\<in>set (ac_roles db). (u_id u, ro_id r) \<in> set (ac_userRoles db) \<and> ro_status r = R_ACTIVE
        \<and> ro_code r = ''SUPERADMIN'')"
  by (force simp: superadmin_def role_codes_def active_roles_def roles_of_def)

lemma superadmins_except_pos:
  assumes "superadmins_except i db \<noteq> 0" and "accounts_inv db"
  shows "\<exists>u\<in>set (ac_users db). u_id u \<noteq> i \<and> superadmin db u"
proof -
  from assms(1) obtain u where "u \<in> set (ac_users db)" "u_id u \<noteq> i" "u_status u = U_ACTIVE"
    "has_role db ''SUPERADMIN'' (u_id u)"
    by (auto simp: superadmins_except_def filter_empty_conv)
  with assms(2) show ?thesis
    by (auto simp: has_role_iff superadmin_iff accounts_inv_def list_all_iff)
qed

lemma check_roles_Inr:
  "check_roles db ids = Inr roles \<Longrightarrow>
   roles = find_roles db ids \<and> (\<forall>r\<in>set roles. ro_status r = R_ACTIVE)"
  by (auto simp: check_roles_def Let_def list_ex_iff split: if_splits)

lemma find_roles_set: "r \<in> set (find_roles db ids) \<longleftrightarrow> r \<in> set (ac_roles db) \<and> ro_id r \<in> set ids"
  by (auto simp: find_roles_def)

text \<open>A change that keeps the keys and one super administrator keeps the invariant.\<close>

lemma accounts_invI:
  assumes "unique_keys u_id (ac_users db)" and "unique_keys ro_id (ac_roles db)"
    and "\<And>r. r \<in> set (ac_roles db) \<Longrightarrow> ro_code r = ''SUPERADMIN'' \<Longrightarrow> ro_status r = R_ACTIVE"
    and "u \<in> set (ac_users db)" and "superadmin db u"
  shows "accounts_inv db"
  using assms by (auto simp: accounts_inv_def list_all_iff list_ex_iff)

lemma replaceUserRoles_check_keeps:
  assumes "replaceUserRoles_check i roleIds cx db = Inr (ids, p, n)" and "accounts_inv db"
  shows "(\<exists>u\<in>set (ac_users db). u_id u \<noteq> i \<and> superadmin db u)
    \<or> (\<exists>r\<in>set (ac_roles db). ro_id r \<in> set ids \<and> ro_code r = ''SUPERADMIN'' \<and> ro_status r = R_ACTIVE)"
proof -
  from assms(1) obtain roles where roles: "check_roles db ids = Inr roles"
    and keep: "\<not> has_role db ''SUPERADMIN'' i \<or> list_ex (\<lambda>r. ro_code r = ''SUPERADMIN'') roles
      \<or> superadmins_except i db \<noteq> 0"
    by (auto simp: replaceUserRoles_check_def Let_def split: option.splits sum.splits if_splits)
  from keep show ?thesis
  proof (elim disjE)
    assume "\<not> has_role db ''SUPERADMIN'' i"
    moreover from assms(2) obtain u where "u \<in> set (ac_users db)" "superadmin db u"
      by (auto simp: accounts_inv_def list_ex_iff)
    ultimately show ?thesis by (auto simp: has_role_iff superadmin_iff)
  next
    assume "list_ex (\<lambda>r. ro_code r = ''SUPERADMIN'') roles"
    with check_roles_Inr [OF roles] show ?thesis by (auto simp: list_ex_iff find_roles_set)
  next
    assume "superadmins_except i db \<noteq> 0"
    from superadmins_except_pos [OF this assms(2)] show ?thesis by blast
  qed
qed

lemma superadmin_mono:
  assumes "superadmin db u" and "u_status u' = u_status u" and "u_id u' = u_id u"
    and "\<And>r. r \<in> set (ac_roles db) \<Longrightarrow> ro_code r = ''SUPERADMIN'' \<Longrightarrow> ro_status r = R_ACTIVE \<Longrightarrow>
      (u_id u, ro_id r) \<in> set (ac_userRoles db) \<Longrightarrow>
      \<exists>r'\<in>set (ac_roles db'). ro_id r' = ro_id r \<and> ro_code r' = ro_code r \<and> ro_status r' = ro_status r"
    and "\<And>x. (u_id u, x) \<in> set (ac_userRoles db) \<Longrightarrow> (u_id u, x) \<in> set (ac_userRoles db')"
  shows "superadmin db' u'"
proof -
  from assms(1) obtain r where r: "u_status u = U_ACTIVE" "r \<in> set (ac_roles db)"
    "(u_id u, ro_id r) \<in> set (ac_userRoles db)" "ro_status r = R_ACTIVE" "ro_code r = ''SUPERADMIN''"
    by (auto simp: superadmin_iff)
  with assms(4) obtain r' where "r' \<in> set (ac_roles db')" "ro_id r' = ro_id r" "ro_code r' = ro_code r"
    "ro_status r' = ro_status r" by blast
  with r assms(2,3) assms(5) [OF r(3)] show ?thesis
    unfolding superadmin_iff by (intro conjI bexI [of _ r']) simp_all
qed

lemma same_tables_inv:
  assumes "accounts_inv db" and "ac_users db' = ac_users db" and "ac_roles db' = ac_roles db"
    and "ac_userRoles db' = ac_userRoles db"
  shows "accounts_inv db'"
proof -
  have "superadmin db' = superadmin db"
    using assms(2-4) by (auto simp: fun_eq_iff superadmin_iff)
  with assms show ?thesis by (simp add: accounts_inv_def)
qed

lemma users_update_inv:
  assumes "accounts_inv db" and "ac_users db' = update_many (\<lambda>u. u_id u = i) f (ac_users db)"
    and "ac_roles db' = ac_roles db"
    and f: "\<And>u. u_id (f u) = u_id u"
    and u: "u \<in> set (ac_users db)" "superadmin db' u" "u_id u = i \<Longrightarrow> u_status (f u) = U_ACTIVE"
  shows "accounts_inv db'"
proof (rule accounts_invI [of _ "if u_id u = i then f u else u"])
  show "unique_keys u_id (ac_users db')" "unique_keys ro_id (ac_roles db')"
    using assms(1-3) f by (simp_all add: accounts_inv_def unique_keys_update_many)
  show "ro_status r = R_ACTIVE" if "r \<in> set (ac_roles db')" "ro_code r = ''SUPERADMIN''" for r
    using that assms(1,3) by (auto simp: accounts_inv_def list_all_iff)
  show "(if u_id u = i then f u else u) \<in> set (ac_users db')"
    using u(1) assms(2) by (auto simp: set_update_many)
  show "superadmin db' (if u_id u = i then f u else u)"
    using u(2,3) f by (auto simp: superadmin_iff)
qed

lemma roles_update_inv:
  assumes "accounts_inv db" and "ac_users db' = ac_users db"
    and "ac_roles db' = update_many (\<lambda>r. ro_id r = i) f (ac_roles db)"
    and "ac_userRoles db' = ac_userRoles db"
    and f: "\<And>r. ro_id (f r) = ro_id r" "\<And>r. ro_code (f r) = ro_code r"
    and keep: "\<And>r. r \<in> set (ac_roles db) \<Longrightarrow> ro_id r = i \<Longrightarrow> ro_code r = ''SUPERADMIN'' \<Longrightarrow>
       ro_status r = R_ACTIVE \<Longrightarrow> ro_status (f r) = R_ACTIVE"
  shows "accounts_inv db'"
proof -
  from assms(1) have act: "ro_status r = R_ACTIVE"
    if "r \<in> set (ac_roles db)" "ro_code r = ''SUPERADMIN''" for r
    using that by (auto simp: accounts_inv_def list_all_iff)
  from assms(1) obtain u where u: "u \<in> set (ac_users db)" "superadmin db u"
    by (auto simp: accounts_inv_def list_ex_iff)
  show ?thesis
  proof (rule accounts_invI [of _ u])
    show "unique_keys u_id (ac_users db')" "unique_keys ro_id (ac_roles db')"
      using assms(1-3) f by (simp_all add: accounts_inv_def unique_keys_update_many)
    show "ro_status r = R_ACTIVE" if "r \<in> set (ac_roles db')" "ro_code r = ''SUPERADMIN''" for r
      using that act keep f unfolding assms(3) by (auto simp: set_update_many split: if_splits)
    show "u \<in> set (ac_users db')" using u(1) assms(2) by simp
    show "superadmin db' u"
    proof (rule superadmin_mono [OF u(2)])
      fix r assume r: "r \<in> set (ac_roles db)" "ro_code r = ''SUPERADMIN''" "ro_status r = R_ACTIVE"
      then have "(if ro_id r = i then f r else r) \<in> set (ac_roles db')"
        unfolding assms(3) by (auto simp: set_update_many)
      with r keep f show "\<exists>r'\<in>set (ac_roles db'). ro_id r' = ro_id r \<and> ro_code r' = ro_code r
          \<and> ro_status r' = ro_status r"
        by (intro bexI [of _ "if ro_id r = i then f r else r"]) auto
    qed (simp_all add: assms(4))
  qed
qed

lemma replaceUserRoles_inv:
  assumes "accounts_inv db"
  shows "accounts_inv (snd (replaceUserRoles i roleIds cx now db))"
proof (cases "replaceUserRoles_check i roleIds cx db")
  case (Inl e)
  with assms show ?thesis by (simp add: replaceUserRoles_def)
next
  case (Inr x)
  obtain ids p n where x: "x = (ids, p, n)" by (cases x)
  let ?db = "replaceUserRoles_write i ids p n cx now db"
  have t: "ac_users ?db = update_many (\<lambda>u. u_id u = i) (\<lambda>u. u\<lparr>u_authVersion := u_authVersion u + 1\<rparr>) (ac_users db)"
    "ac_roles ?db = ac_roles db"
    "ac_userRoles ?db = filter (\<lambda>ur. fst ur \<noteq> i) (ac_userRoles db) @ map (\<lambda>r. (i, r)) ids"
    by (simp_all add: replaceUserRoles_write_def Let_def)
  have other: "superadmin ?db u" if "superadmin db u" "u_id u \<noteq> i" for u
    using that by (intro superadmin_mono [OF that(1)]) (auto simp: t)
  from replaceUserRoles_check_keeps [OF Inr [unfolded x] assms]
  have "\<exists>u\<in>set (ac_users db). superadmin ?db u"
  proof
    assume "\<exists>r\<in>set (ac_roles db). ro_id r \<in> set ids \<and> ro_code r = ''SUPERADMIN'' \<and> ro_status r = R_ACTIVE"
    moreover from assms obtain u where u: "u \<in> set (ac_users db)" "superadmin db u"
      by (auto simp: accounts_inv_def list_ex_iff)
    ultimately show ?thesis using other by (cases "u_id u = i") (auto simp: superadmin_iff t)
  qed (use other in blast)
  then obtain u where u: "u \<in> set (ac_users db)" "superadmin ?db u" by blast
  have "accounts_inv ?db"
    by (rule users_update_inv [OF assms t(1,2) _ u]) (use u(2) in \<open>simp_all add: superadmin_def\<close>)
  then show ?thesis by (simp add: replaceUserRoles_def Inr x)
qed

lemma disableUser_inv:
  assumes "accounts_inv db"
  shows "accounts_inv (snd (disableUser i cx now db))"
proof (cases "disableUser_check i cx db")
  case (Inl e)
  with assms show ?thesis by (simp add: disableUser_def)
next
  case (Inr x)
  let ?db = "disableUser_write i cx now db"
  have t: "ac_users ?db = update_many (\<lambda>u. u_id u = i)
      (\<lambda>u. u\<lparr>u_status := U_DISABLED, u_authVersion := u_authVersion u + 1\<rparr>) (ac_users db)"
    "ac_roles ?db = ac_roles db" "ac_userRoles ?db = ac_userRoles db"
    by (simp_all add: disableUser_write_def Let_def)
  from assms obtain u0 where u0: "u0 \<in> set (ac_users db)" "superadmin db u0"
    by (auto simp: accounts_inv_def list_ex_iff)
  have "\<exists>u\<in>set (ac_users db). u_id u \<noteq> i \<and> superadmin db u"
  proof (cases "has_role db ''SUPERADMIN'' i")
    case True
    with Inr have "superadmins_except i db \<noteq> 0"
      by (auto simp: disableUser_check_def split: if_splits option.splits)
    from superadmins_except_pos [OF this assms] show ?thesis .
  next
    case False
    with u0 show ?thesis by (auto simp: has_role_iff superadmin_iff)
  qed
  then obtain u where u: "u \<in> set (ac_users db)" "u_id u \<noteq> i" "superadmin db u" by blast
  from u(3) have "superadmin ?db u" by (auto simp: superadmin_iff t)
  from users_update_inv [OF assms t(1,2) _ u(1) this] u(2) have "accounts_inv ?db" by simp
  with Inr show ?thesis by (simp add: disableUser_def)
qed

lemma user_edit_inv:
  assumes "accounts_inv db" and "ac_users db' = update_many (\<lambda>u. u_id u = i) f (ac_users db)"
    and "ac_roles db' = ac_roles db" and "ac_userRoles db' = ac_userRoles db"
    and "\<And>u. u_id (f u) = u_id u" and "\<And>u. u_status u = U_ACTIVE \<Longrightarrow> u_status (f u) = U_ACTIVE"
  shows "accounts_inv db'"
proof -
  from assms(1) obtain u where u: "u \<in> set (ac_users db)" "superadmin db u"
    by (auto simp: accounts_inv_def list_ex_iff)
  from u(2) assms(3,4) have "superadmin db' u" by (simp add: superadmin_iff)
  from users_update_inv [OF assms(1-3,5) u(1) this] u(2) assms(6) show ?thesis
    by (simp add: superadmin_def)
qed

lemma changeRoleStatus_inv:
  assumes "accounts_inv db"
    and "status = R_ACTIVE \<or> \<not> list_ex (\<lambda>r. ro_id r = i \<and> ro_code r = ''SUPERADMIN'') (ac_roles db)"
  shows "accounts_inv (snd (changeRoleStatus i status action cx db))"
proof (cases "find_unique ro_id i (ac_roles db)")
  case None
  with assms show ?thesis by (simp add: changeRoleStatus_def)
next
  case (Some role)
  show ?thesis
  proof (cases "ro_status role = status")
    case True
    with Some assms show ?thesis by (simp add: changeRoleStatus_def)
  next
    case False
    with Some have "accounts_inv (snd (changeRoleStatus i status action cx db)) =
      accounts_inv (account_audit action i cx (db\<lparr>ac_roles := update_many (\<lambda>r. ro_id r = i)
        (\<lambda>r. r\<lparr>ro_status := status\<rparr>) (ac_roles db)\<rparr>))" by (simp add: changeRoleStatus_def)
    moreover have "accounts_inv (account_audit action i cx (db\<lparr>ac_roles := update_many (\<lambda>r. ro_id r = i)
        (\<lambda>r. r\<lparr>ro_status := status\<rparr>) (ac_roles db)\<rparr>))"
      by (rule roles_update_inv [where i = i and f = "\<lambda>r. r\<lparr>ro_status := status\<rparr>", OF assms(1)])
        (use assms(2) in \<open>auto simp: list_ex_iff\<close>)
    ultimately show ?thesis by simp
  qed
qed

lemma createUser_inv:
  assumes "accounts_inv db"
  shows "accounts_inv (snd (createUser hp uid dto cx now db))"
proof -
  from assms obtain u where u: "u \<in> set (ac_users db)" "superadmin db u"
    by (auto simp: accounts_inv_def list_ex_iff)
  show ?thesis
    using assms u by (auto simp: createUser_def Let_def split: sum.splits
        intro!: accounts_invI [of _ u] superadmin_mono [OF u(2)])
      (auto simp: accounts_inv_def list_all_iff)
qed

lemma createRole_inv:
  assumes "accounts_inv db"
  shows "accounts_inv (snd (createRole rid dto cx db))"
proof -
  from assms obtain u r where u: "u \<in> set (ac_users db)" "superadmin db u"
    and r: "r \<in> set (ac_roles db)" "ro_code r = ''SUPERADMIN''"
    by (auto simp: accounts_inv_def list_ex_iff superadmin_iff)
  show ?thesis
    using assms u r by (auto simp: createRole_def Let_def list_ex_iff split: option.splits
        intro!: accounts_invI [of _ u] superadmin_mono [OF u(2)])
      (auto simp: accounts_inv_def list_all_iff)
qed

lemma account_serve_inv:
  assumes "accounts_inv db"
  shows "accounts_inv (account_serve hp r cx now db)"
proof (cases r)
  case (XCreateUser uid dto)
  with createUser_inv [OF assms] show ?thesis by simp
next
  case (XUpdateUser i name email)
  with assms show ?thesis
    by (auto simp: updateUser_def Let_def split: option.splits
        intro!: user_edit_inv [where i = i and db = db and
          f = "\<lambda>u. u\<lparr>u_name := set_opt name (u_name u), u_email := set_opt email (u_email u)\<rparr>"])
next
  case (XReplaceRoles i ids)
  with replaceUserRoles_inv [OF assms] show ?thesis by simp
next
  case (XActivateUser i)
  with assms show ?thesis
    by (auto simp: activateUser_def split: option.splits
        intro!: user_edit_inv [where i = i and db = db and
          f = "\<lambda>u. u\<lparr>u_status := U_ACTIVE, u_failedLoginCount := 0, u_lockedUntil := None,
                          u_authVersion := u_authVersion u + 1\<rparr>"])
next
  case (XDisableUser i)
  with disableUser_inv [OF assms] show ?thesis by simp
next
  case (XRevokeSessions i)
  with assms show ?thesis
    by (auto simp: revokeUserSessions_def Let_def split: option.splits intro: same_tables_inv)
next
  case (XCreateRole rid dto)
  with createRole_inv [OF assms] show ?thesis by simp
next
  case (XUpdateRole i name description)
  with assms show ?thesis
    by (auto simp: updateRole_def Let_def split: option.splits
        intro!: roles_update_inv [where i = i and db = db and
          f = "\<lambda>r. r\<lparr>ro_name := set_opt name (ro_name r),
            ro_description := (case description of None \<Rightarrow> ro_description r | Some d \<Rightarrow> Some d)\<rparr>"])
next
  case (XReplacePermissions i ids)
  with assms show ?thesis
    by (auto simp: replacePermissions_def Let_def split: option.splits intro: same_tables_inv)
next
  case (XActivateRole i)
  with changeRoleStatus_inv [OF assms] show ?thesis by (simp add: activateRole_def)
next
  case (XDeactivateRole i)
  with changeRoleStatus_inv [OF assms] assms show ?thesis by (simp add: deactivateRole_def)
qed

lemma account_run_inv: "accounts_inv db \<Longrightarrow> accounts_inv (account_run hp rs db)"
  by (induction hp rs db rule: account_run.induct) (simp_all add: account_serve_inv)

section \<open>Properties\<close>

text \<open>
  C5. The last super administrator: whatever account and role requests are served one after the
  other, an active user with the active SUPERADMIN role remains, and the permission check lets
  that user do everything.
\<close>

theorem superadmin_remains:
  assumes "accounts_inv db"
  shows "\<exists>u\<in>set (ac_users (account_run hp rs db)). u_status u = U_ACTIVE \<and>
     (\<forall>required sid v. permission_granted False required
        (Some \<lparr>az_userId = u_id u, az_sessionId = sid, az_authVersion = v,
               az_roleCodes = role_codes (account_run hp rs db) (u_id u),
               az_permissionCodes = permission_codes (account_run hp rs db) (u_id u)\<rparr>))"
proof -
  from account_run_inv [OF assms, of hp rs] obtain u where
    "u \<in> set (ac_users (account_run hp rs db))" "superadmin (account_run hp rs db) u"
    by (auto simp: accounts_inv_def list_ex_iff)
  then show ?thesis by (intro bexI [of _ u]) (auto simp: superadmin_def permission_granted_def Let_def)
qed

definition demo_user :: "ident \<Rightarrow> user_row" where
  "demo_user i = \<lparr>u_id = i, u_name = i, u_email = i, u_passwordHash = ''h'', u_status = U_ACTIVE,
     u_failedLoginCount = 0, u_lockedUntil = None, u_lastLoginAt = None, u_passwordChangedAt = 0,
     u_authVersion = 1\<rparr>"

definition demo_role :: "ident \<Rightarrow> string \<Rightarrow> role_row" where
  "demo_role i code = \<lparr>ro_id = i, ro_name = code, ro_code = code, ro_description = None,
     ro_status = R_ACTIVE, ro_isSystem = True\<rparr>"

definition demo_accounts :: auth_db where
  "demo_accounts =
     \<lparr>ac_users = [demo_user ''a'', demo_user ''b'', demo_user ''c''],
      ac_roles = [demo_role ''r1'' ''SUPERADMIN'', demo_role ''r2'' ''AUDITOR''],
      ac_permissions = [(''p1'', ''LENDER_APPROVE''), (''p2'', ''AUDIT_READ'')],
      ac_userRoles = [(''a'', ''r1''), (''b'', ''r1''), (''c'', ''r2'')],
      ac_rolePermissions = [(''r2'', ''p2'')],
      ac_sessions = [], ac_tokens = [], ac_attempts = [], ac_events = [], ac_audits = []\<rparr>"

definition ctx_of :: "ident \<Rightarrow> auth_context" where
  "ctx_of i = \<lparr>xc_requestId = ''req'', xc_ipAddress = None, xc_userAgent = None, xc_actorUserId = Some i\<rparr>"

lemma demo_accounts_inv: "accounts_inv demo_accounts"
  by code_simp

theorem superadmin_remains_witness:
  "\<exists>u\<in>set (ac_users (account_run id [(XDisableUser ''b'', ctx_of ''a'', 5), (XDisableUser ''a'', ctx_of ''c'', 6)]
       demo_accounts)). u_status u = U_ACTIVE
     \<and> permission_granted False [''LENDER_APPROVE'']
        (Some \<lparr>az_userId = u_id u, az_sessionId = ''s'', az_authVersion = 1,
          az_roleCodes = role_codes (account_run id [(XDisableUser ''b'', ctx_of ''a'', 5),
            (XDisableUser ''a'', ctx_of ''c'', 6)] demo_accounts) (u_id u),
          az_permissionCodes = permission_codes (account_run id [(XDisableUser ''b'', ctx_of ''a'', 5),
            (XDisableUser ''a'', ctx_of ''c'', 6)] demo_accounts) (u_id u)\<rparr>)"
  using superadmin_remains [OF demo_accounts_inv,
      of id "[(XDisableUser ''b'', ctx_of ''a'', 5), (XDisableUser ''a'', ctx_of ''c'', 6)]"] by blast

text \<open>
  The check is not atomic with the write: two super administrators who disable each other
  at the same time both pass the check, and afterwards no active super administrator is left.
\<close>

theorem superadmins_race:
  "disableUser_check ''b'' (ctx_of ''a'') demo_accounts = Inr ()
   \<and> disableUser_check ''a'' (ctx_of ''b'') demo_accounts = Inr ()
   \<and> \<not> list_ex (superadmin (disableUser_write ''a'' (ctx_of ''b'') 6
           (disableUser_write ''b'' (ctx_of ''a'') 5 demo_accounts)))
         (ac_users (disableUser_write ''a'' (ctx_of ''b'') 6
           (disableUser_write ''b'' (ctx_of ''a'') 5 demo_accounts)))"
  by code_simp

text \<open>
  The permission check: outside public routes, a request whose route needs permissions is
  let through exactly when the user holds the SUPERADMIN role or every needed permission, and a
  role code counts as a permission of the same name.
\<close>

theorem permission_granted_iff:
  "permission_granted False (p # ps) user \<longleftrightarrow>
     (\<exists>u. user = Some u \<and>
        (''SUPERADMIN'' \<in> set (az_roleCodes u)
         \<or> set (p # ps) \<subseteq> set (az_permissionCodes u) \<union> set (az_roleCodes u)))"
  by (cases user) (auto simp: permission_granted_def Let_def list_all_iff)

text \<open>
  Role codes as permissions: a user who may create and assign roles makes a role whose code
  is the name of a permission, with no permissions at all, and whoever gets that role passes the
  check for that permission.
\<close>

theorem role_code_grants_permission:
  "\<not> permission_granted False [''LENDER_APPROVE'']
      (Some \<lparr>az_userId = ''c'', az_sessionId = ''s'', az_authVersion = 2,
        az_roleCodes = role_codes demo_accounts ''c'', az_permissionCodes = permission_codes demo_accounts ''c''\<rparr>)
   \<and> (let db = account_run id
        [(XCreateRole ''r9'' \<lparr>cr_name = ''x'', cr_code = ''LENDER_APPROVE'', cr_description = None,
            cr_status = R_ACTIVE, cr_permissionIds = []\<rparr>, ctx_of ''c'', 5),
         (XReplaceRoles ''c'' [''r2'', ''r9''], ctx_of ''c'', 6)] demo_accounts
      in permission_codes db ''c'' = [''AUDIT_READ'']
       \<and> permission_granted False [''LENDER_APPROVE'']
          (Some \<lparr>az_userId = ''c'', az_sessionId = ''s'', az_authVersion = 2,
            az_roleCodes = role_codes db ''c'', az_permissionCodes = permission_codes db ''c''\<rparr>))"
  by code_simp

text \<open>
  The permissions shown for a user (\<open>effectivePermissions\<close>) include those of roles that have
  been deactivated; the permissions a request really has do not.
\<close>

theorem shown_permissions_overstate:
  "set (permission_codes db i) \<subseteq> set (effectivePermissions db i)
   \<and> (let db = snd (deactivateRole ''r2'' (ctx_of ''a'') demo_accounts)
      in effectivePermissions db ''c'' = [''AUDIT_READ''] \<and> permission_codes db ''c'' = [])"
proof
  show "set (permission_codes db i) \<subseteq> set (effectivePermissions db i)"
    by (auto simp: permission_codes_def effectivePermissions_def js_unique_def active_roles_def)
  show "let db = snd (deactivateRole ''r2'' (ctx_of ''a'') demo_accounts)
      in effectivePermissions db ''c'' = [''AUDIT_READ''] \<and> permission_codes db ''c'' = []" by code_simp
qed

end
