(* ===== verification/AuthSessions.thy ===== *)
theory AuthSessions
  imports Accounts
begin

text \<open>
  Administrator login and sessions (modules/auth/auth.service.ts, modules/sessions/
  sessions.service.ts, modules/auth/strategies/jwt.strategy.ts).

  A login opens a session with one refresh token. A refresh claims the token, which can be done
  once, and issues a replacement; presenting a used token revokes the session. The password
  check, the keyed hashes and the fixed hash for unknown users are the parameters of
  \<open>auth_env\<close>; the signing of access tokens is the JWT library's, an access token is its claims.

  Every handler reads first and then writes in transactions. The read part gives a snapshot
  (the user of a login, the token of a refresh), the write part takes it with the database of
  its time.
\<close>

section \<open>Environment\<close>

record auth_env =
  en_verify :: "string \<Rightarrow> string \<Rightarrow> bool"  \<comment> \<open>hash, password\<close>
  en_dummyHash :: string
  en_emailHmac :: "string \<Rightarrow> string"
  en_tokenHmac :: "string \<Rightarrow> string"
  en_sessionHours :: int
  en_idleMinutes :: int
  en_maxFailed :: int
  en_lockMinutes :: int

record access_claims =
  cl_sub :: ident
  cl_sid :: ident
  cl_type :: string
  cl_authVersion :: int

record token_result =
  tr_accessToken :: access_claims
  tr_refreshToken :: string
  tr_userId :: ident
  tr_roleCodes :: "string list"
  tr_permissionCodes :: "string list"
  tr_sessionId :: ident

text \<open>\<open>userAuthSelect\<close>: the user with the active roles and their permissions, as read.\<close>

record user_snapshot =
  us_user :: user_row
  us_roleCodes :: "string list"
  us_permissionCodes :: "string list"

definition snapshot_of :: "auth_db \<Rightarrow> user_row \<Rightarrow> user_snapshot" where
  "snapshot_of db u =
     \<lparr>us_user = u, us_roleCodes = role_codes db (u_id u),
      us_permissionCodes = permission_codes db (u_id u)\<rparr>"

definition idleExpiry :: "auth_env \<Rightarrow> time \<Rightarrow> time \<Rightarrow> time" where
  "idleExpiry env now absolute =
     (let idle = now + en_idleMinutes env * 60000 in if idle < absolute then idle else absolute)"

definition loginAttemptData ::
  "auth_env \<Rightarrow> ident option \<Rightarrow> string \<Rightarrow> string \<Rightarrow> string \<Rightarrow> auth_context \<Rightarrow> login_attempt" where
  "loginAttemptData env userId email outcome reasonCode cx =
     \<lparr>la_userId = userId, la_emailFingerprint = en_emailHmac env email,
      la_maskedEmail = maskEmail email, la_outcome = outcome, la_reasonCode = reasonCode,
      la_ipAddress = map_option (take 64) (xc_ipAddress cx),
      la_userAgent = map_option (take 512) (xc_userAgent cx), la_requestId = xc_requestId cx\<rparr>"

definition recordAttempt ::
  "auth_env \<Rightarrow> ident option \<Rightarrow> string \<Rightarrow> string \<Rightarrow> string \<Rightarrow> auth_context \<Rightarrow> auth_db \<Rightarrow> auth_db" where
  "recordAttempt env userId email outcome reasonCode cx db =
     db\<lparr>ac_attempts := ac_attempts db @ [loginAttemptData env userId email outcome reasonCode cx]\<rparr>"

definition issueAccessToken :: "ident \<Rightarrow> ident \<Rightarrow> int \<Rightarrow> access_claims" where
  "issueAccessToken userId sessionId authVersion =
     \<lparr>cl_sub = userId, cl_sid = sessionId, cl_type = ''access'', cl_authVersion = authVersion\<rparr>"

section \<open>Login\<close>

text \<open>
  \<open>registerFailure\<close>: whether the account is locked is decided on the count that was read; the
  count itself is incremented in the database.
\<close>

definition registerFailure ::
  "auth_env \<Rightarrow> user_row \<Rightarrow> string \<Rightarrow> auth_context \<Rightarrow> time \<Rightarrow> auth_db \<Rightarrow> auth_db" where
  "registerFailure env user email cx now db =
     (let shouldLock = u_failedLoginCount user + 1 \<ge> en_maxFailed env;
          db1 = db\<lparr>ac_users := update_many (\<lambda>u. u_id u = u_id user)
                  (\<lambda>u. u\<lparr>u_failedLoginCount := (if shouldLock then 0 else u_failedLoginCount u + 1),
                         u_lockedUntil := (if shouldLock then Some (now + en_lockMinutes env * 60000)
                                           else u_lockedUntil u)\<rparr>) (ac_users db)\<rparr>;
          db2 = recordAttempt env (Some (u_id user)) email
                  (if shouldLock then ''LOCKED'' else ''FAILURE'')
                  (if shouldLock then ''ACCOUNT_TEMPORARILY_LOCKED'' else ''INVALID_CREDENTIALS'') cx db1
      in if shouldLock
         then account_audit ''ACCOUNT_LOCKED'' (u_id user) (cx\<lparr>xc_actorUserId := Some (u_id user)\<rparr>)
                (security_record (Some (u_id user)) None ''ACCOUNT_TEMPORARILY_LOCKED'' ''HIGH''
                  (JObj []) cx db2)
         else db2)"

definition login_read :: "string \<Rightarrow> auth_db \<Rightarrow> user_snapshot option" where
  "login_read rawEmail db =
     map_option (snapshot_of db)
       (List.find (\<lambda>u. u_email u = normalizeEmail rawEmail) (ac_users db))"

definition login_valid :: "auth_env \<Rightarrow> string \<Rightarrow> user_snapshot option \<Rightarrow> bool" where
  "login_valid env password snap =
     en_verify env (case snap of None \<Rightarrow> en_dummyHash env | Some s \<Rightarrow> u_passwordHash (us_user s)) password"

text \<open>The refused login: failure or attempt, then the security event.\<close>

definition login_refuse ::
  "auth_env \<Rightarrow> string \<Rightarrow> bool \<Rightarrow> user_snapshot option \<Rightarrow> auth_context \<Rightarrow> time \<Rightarrow> auth_db \<Rightarrow> auth_db" where
  "login_refuse env email valid snap cx now db =
     (let disabled = (case snap of None \<Rightarrow> False | Some s \<Rightarrow> u_status (us_user s) = U_DISABLED);
          uid = map_option (\<lambda>s. u_id (us_user s)) snap;
          db1 = (case snap of
                   Some s \<Rightarrow>
                     if \<not> valid then registerFailure env (us_user s) email cx now db
                     else recordAttempt env uid email (if disabled then ''DISABLED'' else ''FAILURE'')
                            ''INVALID_CREDENTIALS'' cx db
                 | None \<Rightarrow> recordAttempt env None email ''FAILURE'' ''INVALID_CREDENTIALS'' cx db)
      in security_record uid None
           (if disabled then ''USER_DISABLED_ACCESS_ATTEMPT'' else ''LOGIN_FAILED'') ''MEDIUM''
           (JObj [(''reasonCode'', JStr ''INVALID_CREDENTIALS'')]) cx db1)"

definition new_session ::
  "auth_env \<Rightarrow> ident \<Rightarrow> ident \<Rightarrow> auth_context \<Rightarrow> time \<Rightarrow> session_row" where
  "new_session env sid userId cx now =
     (let absolute = now + en_sessionHours env * 3600000 in
      \<lparr>s_id = sid, s_userId = userId, s_lastSeenAt = now, s_absoluteExpiresAt = absolute,
       s_idleExpiresAt = idleExpiry env now absolute, s_revokedAt = None, s_revokedReason = None,
       s_ipAddress = map_option (take 64) (xc_ipAddress cx),
       s_userAgent = map_option (take 512) (xc_userAgent cx),
       s_deviceLabel = deviceLabel (xc_userAgent cx), s_requestId = xc_requestId cx\<rparr>)"

definition new_token :: "ident \<Rightarrow> ident \<Rightarrow> string \<Rightarrow> ident option \<Rightarrow> time \<Rightarrow> refresh_row" where
  "new_token tid sid hash parent expires =
     \<lparr>t_id = tid, t_sessionId = sid, t_tokenHash = hash, t_parentTokenId = parent,
      t_expiresAt = expires, t_usedAt = None, t_revokedAt = None\<rparr>"

text \<open>
  The transaction of a successful login. A session id or token id that exists, or a token hash
  that exists, is a unique violation and rolls everything back.
\<close>

definition login_commit ::
  "auth_env \<Rightarrow> ident \<Rightarrow> ident \<Rightarrow> string \<Rightarrow> string \<Rightarrow> user_snapshot \<Rightarrow> auth_context \<Rightarrow> time \<Rightarrow> auth_db \<Rightarrow>
   (http_error + token_result) \<times> auth_db" where
  "login_commit env sid tid raw email snap cx now db =
     (let user = us_user snap; uid = u_id user;
          session = new_session env sid uid cx now
      in if u_id user \<notin> u_id ` set (ac_users db) then (Inl (DbError ''P2025''), db)
         else if sid \<in> s_id ` set (ac_sessions db) \<or> tid \<in> t_id ` set (ac_tokens db)
           \<or> en_tokenHmac env raw \<in> t_tokenHash ` set (ac_tokens db)
         then (Inl (DbError ''P2002''), db)
         else
           (Inr \<lparr>tr_accessToken = issueAccessToken uid sid (u_authVersion user),
                 tr_refreshToken = raw, tr_userId = uid, tr_roleCodes = us_roleCodes snap,
                 tr_permissionCodes = us_permissionCodes snap, tr_sessionId = sid\<rparr>,
            account_audit ''ADMIN_LOGIN'' sid (cx\<lparr>xc_actorUserId := Some uid\<rparr>)
              (security_record (Some uid) (Some sid) ''SESSION_CREATED'' ''INFO'' (JObj []) cx
                (security_record (Some uid) (Some sid) ''LOGIN_SUCCESS'' ''INFO'' (JObj []) cx
                  (recordAttempt env (Some uid) email ''SUCCESS'' ''LOGIN_SUCCESS'' cx
                    (db\<lparr>ac_users := update_many (\<lambda>u. u_id u = uid)
                          (\<lambda>u. u\<lparr>u_failedLoginCount := 0, u_lockedUntil := None,
                                 u_lastLoginAt := Some now\<rparr>) (ac_users db),
                        ac_sessions := ac_sessions db @ [session],
                        ac_tokens := ac_tokens db @
                          [new_token tid sid (en_tokenHmac env raw) None
                             (s_absoluteExpiresAt session)]\<rparr>))))))"

definition login_finish ::
  "auth_env \<Rightarrow> ident \<Rightarrow> ident \<Rightarrow> string \<Rightarrow> string \<Rightarrow> string \<Rightarrow> user_snapshot option \<Rightarrow> auth_context \<Rightarrow> time \<Rightarrow>
   auth_db \<Rightarrow> (http_error + token_result) \<times> auth_db" where
  "login_finish env sid tid raw rawEmail password snap cx now db =
     (let email = normalizeEmail rawEmail; valid = login_valid env password snap in
      case snap of
        None \<Rightarrow> (Inl (Unauthorized ''AUTH_INVALID_CREDENTIALS''),
                 login_refuse env email valid None cx now db)
      | Some s \<Rightarrow>
          if \<not> valid \<or> u_status (us_user s) \<noteq> U_ACTIVE
          then (Inl (Unauthorized ''AUTH_INVALID_CREDENTIALS''),
                login_refuse env email valid (Some s) cx now db)
          else if (case u_lockedUntil (us_user s) of None \<Rightarrow> False | Some t \<Rightarrow> now < t)
          then (Inl (Locked ''ACCOUNT_TEMPORARILY_LOCKED''),
                recordAttempt env (Some (u_id (us_user s))) email ''LOCKED''
                  ''ACCOUNT_TEMPORARILY_LOCKED'' cx db)
          else login_commit env sid tid raw email s cx now db)"

definition login ::
  "auth_env \<Rightarrow> ident \<Rightarrow> ident \<Rightarrow> string \<Rightarrow> string \<Rightarrow> string \<Rightarrow> auth_context \<Rightarrow> time \<Rightarrow> auth_db \<Rightarrow>
   (http_error + token_result) \<times> auth_db" where
  "login env sid tid raw rawEmail password cx now db =
     login_finish env sid tid raw rawEmail password (login_read rawEmail db) cx now db"

section \<open>Refresh\<close>

record refresh_snapshot =
  rf_token :: refresh_row
  rf_session :: session_row
  rf_user :: user_snapshot

text \<open>The token with its session and user; the foreign keys guarantee both.\<close>

definition refresh_read :: "auth_env \<Rightarrow> string option \<Rightarrow> auth_db \<Rightarrow> refresh_snapshot option" where
  "refresh_read env raw db =
     (case raw of
        None \<Rightarrow> None
      | Some [] \<Rightarrow> None
      | Some r \<Rightarrow>
          (case find_unique t_tokenHash (en_tokenHmac env r) (ac_tokens db) of
             None \<Rightarrow> None
           | Some t \<Rightarrow>
               (case find_unique s_id (t_sessionId t) (ac_sessions db) of
                  None \<Rightarrow> None
                | Some s \<Rightarrow>
                    (case find_unique u_id (s_userId s) (ac_users db) of
                       None \<Rightarrow> None
                     | Some u \<Rightarrow> Some \<lparr>rf_token = t, rf_session = s, rf_user = snapshot_of db u\<rparr>))))"

datatype refresh_decision = R_Reuse | R_Expired | R_Rotate

definition refresh_decide :: "refresh_snapshot \<Rightarrow> time \<Rightarrow> refresh_decision" where
  "refresh_decide snap now =
     (let t = rf_token snap; s = rf_session snap in
      if t_usedAt t \<noteq> None then R_Reuse
      else if t_revokedAt t \<noteq> None \<or> t_expiresAt t \<le> now \<or> s_revokedAt s \<noteq> None
        \<or> s_absoluteExpiresAt s \<le> now \<or> s_idleExpiresAt s \<le> now
        \<or> u_status (us_user (rf_user snap)) \<noteq> U_ACTIVE
      then R_Expired else R_Rotate)"

definition token_live :: "refresh_row \<Rightarrow> bool" where
  "token_live t \<longleftrightarrow> t_usedAt t = None \<and> t_revokedAt t = None"

definition use_token :: "time \<Rightarrow> refresh_row \<Rightarrow> refresh_row" where
  "use_token now t = t\<lparr>t_usedAt := Some now\<rparr>"

text \<open>\<open>revokeForReuse\<close>, \<open>logout\<close> and the revocations of sessions.service.ts.\<close>

definition revokeForReuse :: "ident \<Rightarrow> ident \<Rightarrow> auth_context \<Rightarrow> time \<Rightarrow> auth_db \<Rightarrow> auth_db" where
  "revokeForReuse sid userId cx now db =
     security_record (Some userId) (Some sid) ''REFRESH_TOKEN_REUSE'' ''CRITICAL'' (JObj []) cx
       (revoke_sessions (\<lambda>s. s_id s = sid) (\<lambda>i. i = sid) ''REFRESH_TOKEN_REUSE'' now db)"

text \<open>
  The rotation transaction: None when the token could not be claimed, which leaves the database
  as it is; a clash of the new token's id or hash is a unique violation.
\<close>

definition refresh_rotate ::
  "auth_env \<Rightarrow> ident \<Rightarrow> string \<Rightarrow> refresh_snapshot \<Rightarrow> time \<Rightarrow> auth_db \<Rightarrow> (http_error + auth_db) option" where
  "refresh_rotate env tid replacement snap now db =
     (let i = t_id (rf_token snap); sid = s_id (rf_session snap);
          absolute = s_absoluteExpiresAt (rf_session snap)
      in if count_rows (\<lambda>t. t_id t = i \<and> token_live t) (ac_tokens db) \<noteq> 1 then None
         else if tid \<in> t_id ` set (ac_tokens db)
           \<or> en_tokenHmac env replacement \<in> t_tokenHash ` set (ac_tokens db)
         then Some (Inl (DbError ''P2002''))
         else Some (Inr (db\<lparr>ac_tokens :=
                update_many (\<lambda>t. t_id t = i \<and> token_live t) (use_token now) (ac_tokens db)
                @ [new_token tid sid (en_tokenHmac env replacement) (Some i) absolute],
              ac_sessions := update_many (\<lambda>s. s_id s = sid)
                (\<lambda>s. s\<lparr>s_lastSeenAt := now, s_idleExpiresAt := idleExpiry env now absolute\<rparr>)
                (ac_sessions db)\<rparr>)))"

definition refresh_result :: "string \<Rightarrow> refresh_snapshot \<Rightarrow> token_result" where
  "refresh_result replacement snap =
     (let u = us_user (rf_user snap); sid = s_id (rf_session snap) in
      \<lparr>tr_accessToken = issueAccessToken (u_id u) sid (u_authVersion u),
       tr_refreshToken = replacement, tr_userId = u_id u,
       tr_roleCodes = us_roleCodes (rf_user snap),
       tr_permissionCodes = us_permissionCodes (rf_user snap), tr_sessionId = sid\<rparr>)"

definition refresh_finish ::
  "auth_env \<Rightarrow> ident \<Rightarrow> string \<Rightarrow> refresh_snapshot option \<Rightarrow> auth_context \<Rightarrow> time \<Rightarrow> auth_db \<Rightarrow>
   (http_error + token_result) \<times> auth_db" where
  "refresh_finish env tid replacement snap cx now db =
     (case snap of
        None \<Rightarrow> (Inl (Unauthorized ''AUTH_REFRESH_INVALID''), db)
      | Some s \<Rightarrow>
          let sid = s_id (rf_session s); uid = s_userId (rf_session s) in
          (case refresh_decide s now of
             R_Reuse \<Rightarrow> (Inl (Unauthorized ''AUTH_REFRESH_INVALID''), revokeForReuse sid uid cx now db)
           | R_Expired \<Rightarrow>
               (Inl (Unauthorized ''AUTH_REFRESH_INVALID''),
                security_record (Some uid) (Some sid) ''EXPIRED_SESSION'' ''LOW'' (JObj []) cx db)
           | R_Rotate \<Rightarrow>
               (case refresh_rotate env tid replacement s now db of
                  None \<Rightarrow> (Inl (Unauthorized ''AUTH_REFRESH_INVALID''), revokeForReuse sid uid cx now db)
                | Some (Inl e) \<Rightarrow> (Inl e, db)
                | Some (Inr db1) \<Rightarrow>
                    (Inr (refresh_result replacement s),
                     security_record (Some uid) (Some sid) ''SESSION_REFRESHED'' ''INFO'' (JObj []) cx db1))))"

definition refresh ::
  "auth_env \<Rightarrow> ident \<Rightarrow> string \<Rightarrow> string option \<Rightarrow> auth_context \<Rightarrow> time \<Rightarrow> auth_db \<Rightarrow>
   (http_error + token_result) \<times> auth_db" where
  "refresh env tid replacement raw cx now db =
     refresh_finish env tid replacement (refresh_read env raw db) cx now db"

section \<open>Logout and revocation\<close>

definition logout :: "authenticated \<Rightarrow> auth_context \<Rightarrow> time \<Rightarrow> auth_db \<Rightarrow> auth_db" where
  "logout user cx now db =
     account_audit ''ADMIN_LOGOUT'' (az_sessionId user) (cx\<lparr>xc_actorUserId := Some (az_userId user)\<rparr>)
       (security_record (Some (az_userId user)) (Some (az_sessionId user)) ''SESSION_REVOKED'' ''INFO''
         (JObj [(''reasonCode'', JStr ''LOGOUT'')]) cx
         (revoke_sessions (\<lambda>s. s_id s = az_sessionId user \<and> s_userId s = az_userId user)
            (\<lambda>i. i = az_sessionId user) ''LOGOUT'' now db))"

definition revokeOwn ::
  "authenticated \<Rightarrow> ident \<Rightarrow> auth_context \<Rightarrow> time \<Rightarrow> auth_db \<Rightarrow> (http_error + bool) \<times> auth_db" where
  "revokeOwn user sid cx now db =
     (case find_unique s_id sid (ac_sessions db) of
        None \<Rightarrow> (Inl (NotFound ''''), db)
      | Some session \<Rightarrow>
          if s_userId session \<noteq> az_userId user then (Inl (Forbidden ''SESSION_NOT_OWNED''), db)
          else
            let n = count_rows (\<lambda>s. s_id s = sid \<and> s_userId s = az_userId user \<and> s_revokedAt s = None)
                      (ac_sessions db);
                db1 = revoke_sessions (\<lambda>s. s_id s = sid \<and> s_userId s = az_userId user) (\<lambda>i. i = sid)
                      ''USER_REVOKED'' now db
            in (Inr (n > 0),
                if n > 0
                then account_audit ''SESSION_REVOKED'' sid (cx\<lparr>xc_actorUserId := Some (az_userId user)\<rparr>)
                       (security_record (Some (az_userId user)) (Some sid) ''SESSION_REVOKED'' ''INFO''
                         (JObj []) cx db1)
                else db1))"

definition other_sessions :: "authenticated \<Rightarrow> auth_db \<Rightarrow> ident list" where
  "other_sessions user db =
     map s_id (filter (\<lambda>s. s_userId s = az_userId user \<and> s_id s \<noteq> az_sessionId user \<and> s_revokedAt s = None)
       (ac_sessions db))"

definition revokeOthers_write ::
  "authenticated \<Rightarrow> ident list \<Rightarrow> auth_context \<Rightarrow> time \<Rightarrow> auth_db \<Rightarrow> nat \<times> auth_db" where
  "revokeOthers_write user ids cx now db =
     (let w = (\<lambda>s. s_id s \<in> set ids \<and> s_userId s = az_userId user) in
      (count_rows (\<lambda>s. w s \<and> s_revokedAt s = None) (ac_sessions db),
       account_audit ''OTHER_SESSIONS_REVOKED'' (az_userId user)
         (cx\<lparr>xc_actorUserId := Some (az_userId user)\<rparr>)
         (revoke_sessions w (\<lambda>i. i \<in> set ids) ''OTHER_SESSIONS_REVOKED'' now db)))"

definition revokeOthers ::
  "authenticated \<Rightarrow> auth_context \<Rightarrow> time \<Rightarrow> auth_db \<Rightarrow> nat \<times> auth_db" where
  "revokeOthers user cx now db = revokeOthers_write user (other_sessions user db) cx now db"

section \<open>Access\<close>

text \<open>\<open>JwtStrategy.validate\<close> on the claims of a token whose signature the library accepted.\<close>

definition jwt_validate :: "access_claims \<Rightarrow> time \<Rightarrow> auth_db \<Rightarrow> http_error + authenticated" where
  "jwt_validate c now db =
     (if cl_type c \<noteq> ''access'' \<or> cl_sub c = [] \<or> cl_sid c = [] then Inl (Unauthorized '''')
      else
        case List.find (\<lambda>s. s_id s = cl_sid c \<and> s_userId s = cl_sub c \<and> s_revokedAt s = None
               \<and> s_absoluteExpiresAt s > now \<and> s_idleExpiresAt s > now) (ac_sessions db) of
          None \<Rightarrow> Inl (Unauthorized '''')
        | Some s \<Rightarrow>
            (case find_unique u_id (s_userId s) (ac_users db) of
               None \<Rightarrow> Inl (Unauthorized '''')
             | Some u \<Rightarrow>
                 if u_status u \<noteq> U_ACTIVE \<or> u_authVersion u \<noteq> cl_authVersion c
                 then Inl (Unauthorized '''')
                 else Inr \<lparr>az_userId = u_id u, az_sessionId = s_id s, az_authVersion = u_authVersion u,
                           az_roleCodes = role_codes db (u_id u),
                           az_permissionCodes = permission_codes db (u_id u)\<rparr>))"

end
