(* ===== verification/AuthSteps.thy ===== *)
theory AuthSteps
  imports AuthSessions
begin

text \<open>
  Sessions under concurrency. The handlers of theory AuthSessions are split into their read and
  their transaction; \<open>auth_step\<close> interleaves them with the account requests. Every step changes
  the session and token tables in one of four ways (\<open>sess_change\<close>), which carries the invariant
  of the tables, the growth of what is recorded, and the refinement of a ledger in which a
  session is open with one current token, or closed.
\<close>

section \<open>Interleaved handlers\<close>

text \<open>What a handler holds between its read and its transaction.\<close>

datatype auth_pending =
    AP_Login string string "user_snapshot option"
  | AP_Refresh "refresh_snapshot option"
  | AP_Reuse ident ident
  | AP_Request authenticated
  | AP_Others authenticated "ident list"

type_synonym auth_state = "auth_db \<times> auth_pending list"

text \<open>
  The steps: reads add to what is pending, transactions use it up. A refresh that loses the
  claim revokes in a transaction of its own, so both its steps are listed. The transactions of
  disabling and of replacing roles are also listed alone, without their checks, which ran
  earlier. Ids and raw tokens are the ones the database and the random generator choose.
\<close>

inductive auth_step :: "auth_env \<Rightarrow> (string \<Rightarrow> string) \<Rightarrow> auth_state \<Rightarrow> auth_state \<Rightarrow> bool"
  for env :: auth_env and hp :: "string \<Rightarrow> string"
where
  login_begin: "auth_step env hp (db, ps) (db, AP_Login email pw (login_read email db) # ps)"
| login_end: "auth_step env hp (db, ps @ AP_Login email pw snap # qs)
    (snd (login_finish env sid tid raw email pw snap cx now db), ps @ qs)"
| refresh_begin: "auth_step env hp (db, ps) (db, AP_Refresh (refresh_read env raw db) # ps)"
| refresh_end: "auth_step env hp (db, ps @ AP_Refresh snap # qs)
    (snd (refresh_finish env tid replacement snap cx now db), ps @ qs)"
| claim_lost: "refresh_decide s now = R_Rotate \<Longrightarrow> refresh_rotate env tid replacement s now db = None \<Longrightarrow>
    auth_step env hp (db, ps @ AP_Refresh (Some s) # qs)
      (db, ps @ AP_Reuse (s_id (rf_session s)) (s_userId (rf_session s)) # qs)"
| reuse_end: "auth_step env hp (db, ps @ AP_Reuse sid uid # qs) (revokeForReuse sid uid cx now db, ps @ qs)"
| request: "jwt_validate claims now db = Inr user \<Longrightarrow> auth_step env hp (db, ps) (db, AP_Request user # ps)"
| logout_end: "auth_step env hp (db, ps @ AP_Request user # qs) (logout user cx now db, ps @ qs)"
| revoke_own: "auth_step env hp (db, ps @ AP_Request user # qs) (snd (revokeOwn user sid cx now db), ps @ qs)"
| others_begin: "auth_step env hp (db, ps @ AP_Request user # qs)
    (db, ps @ AP_Others user (other_sessions user db) # qs)"
| others_end: "auth_step env hp (db, ps @ AP_Others user ids # qs)
    (snd (revokeOthers_write user ids cx now db), ps @ qs)"
| account: "auth_step env hp (db, ps) (account_serve hp r cx now db, ps)"
| disable_write: "auth_step env hp (db, ps) (disableUser_write i cx now db, ps)"
| roles_write: "auth_step env hp (db, ps) (replaceUserRoles_write i ids prev new cx now db, ps)"

abbreviation auth_steps :: "auth_env \<Rightarrow> (string \<Rightarrow> string) \<Rightarrow> auth_state \<Rightarrow> auth_state \<Rightarrow> bool" where
  "auth_steps env hp \<equiv> (auth_step env hp)\<^sup>*\<^sup>*"

section \<open>The tables\<close>

interpretation chain: exclusive_rows t_id t_sessionId token_live use_token
  by unfold_locales (simp_all add: use_token_def token_live_def)

text \<open>
  A token belongs to a session and expires with it, is revoked with it, and its parent is a used
  token of the same session.
\<close>

definition token_ok :: "auth_db \<Rightarrow> refresh_row \<Rightarrow> bool" where
  "token_ok db t \<longleftrightarrow>
     (\<exists>s\<in>set (ac_sessions db). s_id s = t_sessionId t \<and> t_expiresAt t = s_absoluteExpiresAt s
        \<and> (s_revokedAt s \<noteq> None \<longrightarrow> t_revokedAt t \<noteq> None))
     \<and> (case t_parentTokenId t of None \<Rightarrow> True
        | Some i \<Rightarrow> \<exists>p\<in>set (ac_tokens db). t_id p = i \<and> t_usedAt p \<noteq> None \<and> t_sessionId p = t_sessionId t)"

definition one_successor :: "refresh_row list \<Rightarrow> bool" where
  "one_successor ts \<longleftrightarrow> distinct (filter (\<lambda>p. p \<noteq> None) (map t_parentTokenId ts))"

definition sessions_inv :: "auth_db \<Rightarrow> bool" where
  "sessions_inv db \<longleftrightarrow>
     unique_keys s_id (ac_sessions db) \<and> unique_keys t_id (ac_tokens db)
     \<and> unique_keys t_tokenHash (ac_tokens db) \<and> chain.exclusive (ac_tokens db)
     \<and> (\<forall>t\<in>set (ac_tokens db). token_ok db t)
     \<and> (\<forall>s\<in>set (ac_sessions db). s_revokedAt s = None \<longrightarrow>
          (\<exists>t\<in>set (ac_tokens db). t_sessionId t = s_id s \<and> token_live t))
     \<and> one_successor (ac_tokens db)"

text \<open>What later states keep of a session, of a token and of the users.\<close>

definition session_le :: "session_row \<Rightarrow> session_row \<Rightarrow> bool" where
  "session_le s s' \<longleftrightarrow> s_id s' = s_id s \<and> s_userId s' = s_userId s
     \<and> s_absoluteExpiresAt s' = s_absoluteExpiresAt s \<and> (s_revokedAt s \<noteq> None \<longrightarrow> s_revokedAt s' \<noteq> None)"

definition token_le :: "refresh_row \<Rightarrow> refresh_row \<Rightarrow> bool" where
  "token_le t t' \<longleftrightarrow> t_id t' = t_id t \<and> t_sessionId t' = t_sessionId t \<and> t_tokenHash t' = t_tokenHash t
     \<and> (t_usedAt t \<noteq> None \<longrightarrow> t_usedAt t' \<noteq> None) \<and> (t_revokedAt t \<noteq> None \<longrightarrow> t_revokedAt t' \<noteq> None)"

definition users_le :: "user_row list \<Rightarrow> user_row list \<Rightarrow> bool" where
  "users_le t t' \<longleftrightarrow> (\<forall>i u. find_unique u_id i t = Some u \<longrightarrow>
     (\<exists>u'. find_unique u_id i t' = Some u' \<and> u_authVersion u \<le> u_authVersion u'))"

lemma users_le_refl: "users_le t t"
  by (simp add: users_le_def)

lemma users_le_trans: "users_le t t' \<Longrightarrow> users_le t' t'' \<Longrightarrow> users_le t t''"
  unfolding users_le_def by (meson order_trans)

lemma users_le_append: "users_le t (t @ u)"
  by (simp add: users_le_def find_unique_append)

lemma users_le_update:
  assumes "\<And>u. u_id (f u) = u_id u" and "\<And>u. u_authVersion u \<le> u_authVersion (f u)"
  shows "users_le t (update_many P f t)"
  using assms by (simp add: users_le_def find_unique_update_many)

lemma le_refl [simp]: "session_le s s" "token_le t t"
  by (simp_all add: session_le_def token_le_def)

lemma le_trans:
  "session_le s s' \<Longrightarrow> session_le s' s'' \<Longrightarrow> session_le s s''"
  "token_le t t' \<Longrightarrow> token_le t' t'' \<Longrightarrow> token_le t t''"
  by (auto simp: session_le_def token_le_def)

definition grows :: "auth_db \<Rightarrow> auth_db \<Rightarrow> bool" where
  "grows db db' \<longleftrightarrow> covers session_le (ac_sessions db) (ac_sessions db')
     \<and> covers token_le (ac_tokens db) (ac_tokens db') \<and> users_le (ac_users db) (ac_users db')"

lemma grows_refl: "grows db db"
  by (simp add: grows_def covers_refl users_le_refl)

lemma grows_trans: "grows db db' \<Longrightarrow> grows db' db'' \<Longrightarrow> grows db db''"
  unfolding grows_def by (blast intro: covers_trans le_trans users_le_trans)

section \<open>Four kinds of change\<close>

inductive sess_change :: "auth_db \<Rightarrow> auth_db \<Rightarrow> bool" where
  sc_same: "ac_sessions db' = ac_sessions db \<Longrightarrow> ac_tokens db' = ac_tokens db \<Longrightarrow> sess_change db db'"
| sc_revoke: "(\<And>s. s \<in> set (ac_sessions db) \<Longrightarrow> s_revokedAt s = None \<Longrightarrow> which s = ids (s_id s)) \<Longrightarrow>
    ac_sessions db' = ac_sessions (revoke_sessions which ids reason now db) \<Longrightarrow>
    ac_tokens db' = ac_tokens (revoke_sessions which ids reason now db) \<Longrightarrow> sess_change db db'"
| sc_open: "s_id s \<notin> s_id ` set (ac_sessions db) \<Longrightarrow> tid \<notin> t_id ` set (ac_tokens db) \<Longrightarrow>
    h \<notin> t_tokenHash ` set (ac_tokens db) \<Longrightarrow> s_revokedAt s = None \<Longrightarrow>
    ac_sessions db' = ac_sessions db @ [s] \<Longrightarrow>
    ac_tokens db' = ac_tokens db @ [new_token tid (s_id s) h None (s_absoluteExpiresAt s)] \<Longrightarrow>
    sess_change db db'"
| sc_rotate: "r \<in> set (ac_tokens db) \<Longrightarrow> token_live r \<Longrightarrow> s \<in> set (ac_sessions db) \<Longrightarrow>
    s_id s = t_sessionId r \<Longrightarrow> tid \<notin> t_id ` set (ac_tokens db) \<Longrightarrow>
    h \<notin> t_tokenHash ` set (ac_tokens db) \<Longrightarrow>
    ac_tokens db' = update_many (\<lambda>t. t_id t = t_id r \<and> token_live t) (use_token now) (ac_tokens db)
      @ [new_token tid (s_id s) h (Some (t_id r)) (s_absoluteExpiresAt s)] \<Longrightarrow>
    ac_sessions db' = update_many (\<lambda>x. s_id x = s_id s)
      (\<lambda>x. x\<lparr>s_lastSeenAt := now, s_idleExpiresAt := idle\<rparr>) (ac_sessions db) \<Longrightarrow>
    sess_change db db'"


lemma revoke_rows:
  "ac_sessions (revoke_sessions which ids reason now db) =
     update_many (\<lambda>s. which s \<and> s_revokedAt s = None)
       (\<lambda>s. s\<lparr>s_revokedAt := Some now, s_revokedReason := Some reason\<rparr>) (ac_sessions db)"
  "ac_tokens (revoke_sessions which ids reason now db) =
     update_many (\<lambda>t. ids (t_sessionId t) \<and> t_revokedAt t = None)
       (\<lambda>t. t\<lparr>t_revokedAt := Some now\<rparr>) (ac_tokens db)"
  by (simp_all add: revoke_sessions_def)

lemma new_token_fields [simp]:
  "t_id (new_token i sid h p e) = i" "t_sessionId (new_token i sid h p e) = sid"
  "t_tokenHash (new_token i sid h p e) = h" "t_parentTokenId (new_token i sid h p e) = p"
  "t_expiresAt (new_token i sid h p e) = e" "t_usedAt (new_token i sid h p e) = None"
  "t_revokedAt (new_token i sid h p e) = None" "token_live (new_token i sid h p e)"
  by (simp_all add: new_token_def token_live_def)

lemma use_token_fields [simp]:
  "t_id (use_token now t) = t_id t" "t_sessionId (use_token now t) = t_sessionId t"
  "t_tokenHash (use_token now t) = t_tokenHash t" "t_parentTokenId (use_token now t) = t_parentTokenId t"
  "t_expiresAt (use_token now t) = t_expiresAt t" "t_usedAt (use_token now t) = Some now"
  "t_revokedAt (use_token now t) = t_revokedAt t"
  by (simp_all add: use_token_def)

lemma sessions_invD:
  assumes "sessions_inv db"
  shows "unique_keys s_id (ac_sessions db)" "unique_keys t_id (ac_tokens db)"
    "unique_keys t_tokenHash (ac_tokens db)" "chain.exclusive (ac_tokens db)" "one_successor (ac_tokens db)"
    and "t \<in> set (ac_tokens db) \<Longrightarrow> token_ok db t"
    and "s \<in> set (ac_sessions db) \<Longrightarrow> s_revokedAt s = None \<Longrightarrow>
      \<exists>t\<in>set (ac_tokens db). t_sessionId t = s_id s \<and> token_live t"
  using assms unfolding sessions_inv_def by blast+

lemma token_ok_revoked:
  assumes "sessions_inv db" and "t \<in> set (ac_tokens db)" and "s \<in> set (ac_sessions db)"
    and "s_id s = t_sessionId t" and "s_revokedAt s \<noteq> None"
  shows "t_revokedAt t \<noteq> None"
proof -
  from sessions_invD(6) [OF assms(1,2)] obtain s' where s': "s' \<in> set (ac_sessions db)"
    "s_id s' = t_sessionId t" "s_revokedAt s' \<noteq> None \<longrightarrow> t_revokedAt t \<noteq> None"
    unfolding token_ok_def by blast
  from s'(2) assms(4) have "s_id s' = s_id s" by simp
  from unique_keys_eq [OF sessions_invD(1) [OF assms(1)] s'(1) assms(3) this] s'(3) assms(5)
  show ?thesis by blast
qed

text \<open>A token stays in order when its session and its parent are carried over.\<close>

lemma token_ok_mono:
  assumes "sessions_inv db" and t: "t \<in> set (ac_tokens db)" and "token_le t t'"
    and "t_expiresAt t' = t_expiresAt t" "t_parentTokenId t' = t_parentTokenId t"
    and sess: "\<And>s. s \<in> set (ac_sessions db) \<Longrightarrow> s_id s = t_sessionId t \<Longrightarrow>
       \<exists>s'\<in>set (ac_sessions db'). session_le s s'
         \<and> (s_revokedAt s' \<noteq> None \<longrightarrow> s_revokedAt s \<noteq> None \<or> t_revokedAt t' \<noteq> None)"
    and tok: "covers token_le (ac_tokens db) (ac_tokens db')"
  shows "token_ok db' t'"
proof -
  from sessions_invD(6) [OF assms(1) t] obtain s where s: "s \<in> set (ac_sessions db)" "s_id s = t_sessionId t"
    "t_expiresAt t = s_absoluteExpiresAt s" unfolding token_ok_def by blast
  from sess [OF s(1,2)] obtain s' where s': "s' \<in> set (ac_sessions db')" "session_le s s'"
    "s_revokedAt s' \<noteq> None \<longrightarrow> s_revokedAt s \<noteq> None \<or> t_revokedAt t' \<noteq> None" by blast
  from s'(3) token_ok_revoked [OF assms(1) t s(1,2)] assms(3)
  have rev: "s_revokedAt s' \<noteq> None \<longrightarrow> t_revokedAt t' \<noteq> None" unfolding token_le_def by blast
  have "\<exists>p'\<in>set (ac_tokens db'). t_id p' = i \<and> t_usedAt p' \<noteq> None \<and> t_sessionId p' = t_sessionId t"
    if i: "t_parentTokenId t = Some i" for i
  proof -
    from sessions_invD(6) [OF assms(1) t] i obtain p where p: "p \<in> set (ac_tokens db)" "t_id p = i"
      "t_usedAt p \<noteq> None" "t_sessionId p = t_sessionId t" unfolding token_ok_def by auto
    from tok p(1) obtain p' where "p' \<in> set (ac_tokens db')" "token_le p p'"
      unfolding covers_def by blast
    with p show ?thesis unfolding token_le_def by (intro bexI [of _ p']) simp_all
  qed
  moreover from s s' assms(3,4) rev have "s_id s' = t_sessionId t'" "t_expiresAt t' = s_absoluteExpiresAt s'"
    unfolding session_le_def token_le_def by simp_all
  moreover from assms(3) have "t_sessionId t' = t_sessionId t" unfolding token_le_def by simp
  ultimately show ?thesis
    unfolding token_ok_def assms(5) using s'(1) rev by (cases "t_parentTokenId t") auto
qed

text \<open>Updates keep the columns they do not write.\<close>

lemma update_columns:
  assumes "\<And>t. t_id (f t) = t_id t" "\<And>t. t_tokenHash (f t) = t_tokenHash t"
    "\<And>t. t_parentTokenId (f t) = t_parentTokenId t"
  shows "unique_keys t_id (update_many P f ts) = unique_keys t_id ts"
    "unique_keys t_tokenHash (update_many P f ts) = unique_keys t_tokenHash ts"
    "one_successor (update_many P f ts) = one_successor ts"
    "t_id ` set (update_many P f ts) = t_id ` set ts"
    "t_tokenHash ` set (update_many P f ts) = t_tokenHash ` set ts"
    "t_parentTokenId ` set (update_many P f ts) = t_parentTokenId ` set ts"
  using map_key_update_many [of t_id f P ts, OF assms(1)] map_key_update_many [of t_tokenHash f P ts, OF assms(2)]
    map_key_update_many [of t_parentTokenId f P ts, OF assms(3)]
  unfolding unique_keys_def one_successor_def set_map [symmetric] by simp_all

lemma one_successor_snoc:
  "one_successor (ts @ [t]) \<longleftrightarrow>
     one_successor ts \<and> (t_parentTokenId t = None \<or> t_parentTokenId t \<notin> t_parentTokenId ` set ts)"
  by (auto simp: one_successor_def)

lemma grows_tokens: "sess_change db db' \<Longrightarrow> covers token_le (ac_tokens db) (ac_tokens db')"
proof (induction rule: sess_change.induct)
  case (sc_revoke db which ids db' reason now)
  show ?case unfolding sc_revoke(3) revoke_rows by (rule covers_update) (simp_all add: token_le_def)
next
  case (sc_rotate r db s tid h db' now idle)
  show ?case unfolding sc_rotate(7) by (intro covers_append covers_update) (simp_all add: token_le_def)
qed (simp_all add: covers_append covers_refl)

lemma grows_sessions: "sess_change db db' \<Longrightarrow> covers session_le (ac_sessions db) (ac_sessions db')"
proof (induction rule: sess_change.induct)
  case (sc_revoke db which ids db' reason now)
  show ?case unfolding sc_revoke(2) revoke_rows by (rule covers_update) (simp_all add: session_le_def)
next
  case (sc_rotate r db s tid h db' now idle)
  show ?case unfolding sc_rotate(8) by (intro covers_update) (simp_all add: session_le_def)
qed (simp_all add: covers_append covers_refl)

lemma grows_change: "sess_change db db' \<Longrightarrow> users_le (ac_users db) (ac_users db') \<Longrightarrow> grows db db'"
  by (simp add: grows_def grows_tokens grows_sessions)

subsection \<open>Revocation\<close>

lemma revoke_token_ok:
  assumes inv: "sessions_inv db"
    and which: "\<And>s. s \<in> set (ac_sessions db) \<Longrightarrow> s_revokedAt s = None \<Longrightarrow> which s = ids (s_id s)"
    and ss: "ac_sessions db' = ac_sessions (revoke_sessions which ids reason now db)"
    and ts: "ac_tokens db' = ac_tokens (revoke_sessions which ids reason now db)"
    and t': "t' \<in> set (ac_tokens db')"
  shows "token_ok db' t'"
proof -
  from t' obtain t where t: "t \<in> set (ac_tokens db)"
    "t' = (if ids (t_sessionId t) \<and> t_revokedAt t = None then t\<lparr>t_revokedAt := Some now\<rparr> else t)"
    unfolding ts revoke_rows set_update_many by blast
  show ?thesis
  proof (rule token_ok_mono [OF inv t(1)])
    show "covers token_le (ac_tokens db) (ac_tokens db')"
      by (rule grows_tokens [OF sc_revoke [OF which ss ts]])
    fix s assume s: "s \<in> set (ac_sessions db)" "s_id s = t_sessionId t"
    let ?s = "if which s \<and> s_revokedAt s = None
      then s\<lparr>s_revokedAt := Some now, s_revokedReason := Some reason\<rparr> else s"
    have "?s \<in> set (ac_sessions db')" unfolding ss revoke_rows set_update_many using s(1) by blast
    then show "\<exists>s'\<in>set (ac_sessions db'). session_le s s'
        \<and> (s_revokedAt s' \<noteq> None \<longrightarrow> s_revokedAt s \<noteq> None \<or> t_revokedAt t' \<noteq> None)"
      using which [OF s(1)] s(2) by (intro bexI [of _ ?s]) (auto simp: t(2) session_le_def)
  qed (simp_all add: t(2) token_le_def)
qed

lemma revoke_inv:
  assumes inv: "sessions_inv db"
    and which: "\<And>s. s \<in> set (ac_sessions db) \<Longrightarrow> s_revokedAt s = None \<Longrightarrow> which s = ids (s_id s)"
    and ss: "ac_sessions db' = ac_sessions (revoke_sessions which ids reason now db)"
    and ts: "ac_tokens db' = ac_tokens (revoke_sessions which ids reason now db)"
  shows "sessions_inv db'"
proof -
  note I = sessions_invD [OF inv]
  have "\<exists>t\<in>set (ac_tokens db'). t_sessionId t = s_id s' \<and> token_live t"
    if s': "s' \<in> set (ac_sessions db')" "s_revokedAt s' = None" for s'
  proof -
    from s' have s: "s' \<in> set (ac_sessions db)" "\<not> which s'"
      unfolding ss revoke_rows by (auto simp: set_update_many split: if_splits)
    with which s'(2) have "\<not> ids (s_id s')" by blast
    moreover from I(7) [OF s(1) s'(2)] obtain t where
      t: "t \<in> set (ac_tokens db)" "t_sessionId t = s_id s'" "token_live t" by blast
    ultimately have "t = (if ids (t_sessionId t) \<and> t_revokedAt t = None then t\<lparr>t_revokedAt := Some now\<rparr> else t)"
      by simp
    with t show ?thesis unfolding ts revoke_rows set_update_many by blast
  qed
  moreover have "chain.exclusive (ac_tokens db')"
    unfolding ts revoke_rows by (rule chain.exclusive_update [OF I(4)]) (simp_all add: token_live_def)
  moreover have "unique_keys s_id (ac_sessions db')"
    unfolding ss revoke_rows by (rule unique_keys_update_many [OF _ I(1)]) simp
  moreover have "unique_keys t_id (ac_tokens db')" "unique_keys t_tokenHash (ac_tokens db')"
    "one_successor (ac_tokens db')"
    unfolding ts revoke_rows by (simp_all add: update_columns I)
  moreover note revoke_token_ok [OF inv which ss ts]
  ultimately show ?thesis unfolding sessions_inv_def by blast
qed

subsection \<open>Login and rotation\<close>

lemma open_inv:
  assumes inv: "sessions_inv db" and new: "s_id s \<notin> s_id ` set (ac_sessions db)"
    "tid \<notin> t_id ` set (ac_tokens db)" "h \<notin> t_tokenHash ` set (ac_tokens db)" "s_revokedAt s = None"
    and ss: "ac_sessions db' = ac_sessions db @ [s]"
    and ts: "ac_tokens db' = ac_tokens db @ [new_token tid (s_id s) h None (s_absoluteExpiresAt s)]"
  shows "sessions_inv db'"
proof -
  note I = sessions_invD [OF inv]
  have other: "t_sessionId t \<noteq> s_id s" if "t \<in> set (ac_tokens db)" for t
    using I(6) [OF that] new(1) unfolding token_ok_def by (metis imageI)
  have ok: "token_ok db' t" if "t \<in> set (ac_tokens db)" for t
    by (rule token_ok_mono [OF inv that]) (force simp: ss ts intro!: covers_append covers_refl)+
  moreover have "token_ok db' (new_token tid (s_id s) h None (s_absoluteExpiresAt s))"
    using new(4) by (auto simp: token_ok_def ss)
  moreover have "chain.exclusive (ac_tokens db')"
    unfolding ts by (rule chain.exclusive_snoc_active [OF I(4)]) (use other in auto)
  moreover have "\<exists>t\<in>set (ac_tokens db'). t_sessionId t = s_id s' \<and> token_live t"
    if "s' \<in> set (ac_sessions db')" "s_revokedAt s' = None" for s'
    using that I(7) [of s'] unfolding ss ts by auto
  moreover have "one_successor (ac_tokens db')"
    using I(5) by (simp add: ts one_successor_snoc)
  ultimately show ?thesis
    using I(1-3) new unfolding sessions_inv_def by (auto simp: ss ts)
qed

lemma rotate_tokens:
  assumes inv: "sessions_inv db" and r: "r \<in> set (ac_tokens db)" "token_live r"
  shows "chain.exclusive (update_many (\<lambda>t. t_id t = t_id r \<and> token_live t) (use_token now) (ac_tokens db)
        @ [new_token tid (t_sessionId r) h (Some (t_id r)) e])"
    and "Some (t_id r) \<notin> t_parentTokenId ` set (ac_tokens db)"
proof -
  note I = sessions_invD [OF inv]
  show "chain.exclusive (update_many (\<lambda>t. t_id t = t_id r \<and> token_live t) (use_token now) (ac_tokens db)
        @ [new_token tid (t_sessionId r) h (Some (t_id r)) e])"
    by (rule chain.exclusive_succeed [OF I(4) r]) simp
  show "Some (t_id r) \<notin> t_parentTokenId ` set (ac_tokens db)"
  proof
    assume "Some (t_id r) \<in> t_parentTokenId ` set (ac_tokens db)"
    then obtain u where "u \<in> set (ac_tokens db)" "t_parentTokenId u = Some (t_id r)" by force
    with I(6) [OF this(1)] obtain q where q: "q \<in> set (ac_tokens db)" "t_id q = t_id r" "t_usedAt q \<noteq> None"
      unfolding token_ok_def by auto
    from unique_keys_eq [OF I(2) q(1) r(1) q(2)] q(3) r(2) show False by (simp add: token_live_def)
  qed
qed

lemma rotate_inv:
  assumes inv: "sessions_inv db" and r: "r \<in> set (ac_tokens db)" "token_live r"
    and s: "s \<in> set (ac_sessions db)" "s_id s = t_sessionId r"
    and new: "tid \<notin> t_id ` set (ac_tokens db)" "h \<notin> t_tokenHash ` set (ac_tokens db)"
    and ts: "ac_tokens db' = update_many (\<lambda>t. t_id t = t_id r \<and> token_live t) (use_token now) (ac_tokens db)
      @ [new_token tid (s_id s) h (Some (t_id r)) (s_absoluteExpiresAt s)]" (is "_ = ?U @ [?n]")
    and ss: "ac_sessions db' = update_many (\<lambda>x. s_id x = s_id s)
      (\<lambda>x. x\<lparr>s_lastSeenAt := now, s_idleExpiresAt := idle\<rparr>) (ac_sessions db)"
  shows "sessions_inv db'"
proof -
  note I = sessions_invD [OF inv]
  have cov: "covers token_le (ac_tokens db) (ac_tokens db')"
    by (rule grows_tokens [OF sc_rotate [OF r s new ts ss]])
  have keep: "\<exists>x'\<in>set (ac_sessions db'). session_le x x' \<and> s_revokedAt x' = s_revokedAt x"
    if "x \<in> set (ac_sessions db)" for x
    using that unfolding ss set_update_many
    by (intro bexI [of _ "if s_id x = s_id s then x\<lparr>s_lastSeenAt := now, s_idleExpiresAt := idle\<rparr> else x"])
      (simp_all add: session_le_def)
  have old: "token_ok db' v" if "v \<in> set ?U" for v
    using that
  proof (rule update_many_obtain)
    fix t assume "t \<in> set (ac_tokens db)" "v = t"
    with keep show ?thesis by (intro token_ok_mono [OF inv _ _ _ _ _ cov, of t]) fastforce+
  next
    fix t assume "t \<in> set (ac_tokens db)" "v = use_token now t"
    with keep show ?thesis
      by (intro token_ok_mono [OF inv _ _ _ _ _ cov, of t]) (simp_all add: token_le_def, fastforce)
  qed
  have "s_revokedAt s = None"
    using token_ok_revoked [OF inv r(1) s] r(2) by (cases "s_revokedAt s") (auto simp: token_live_def)
  with keep [OF s(1)] obtain s' where s': "s' \<in> set (ac_sessions db')" "session_le s s'" "s_revokedAt s' = None"
    by metis
  have rU: "use_token now r \<in> set ?U" using r by (auto simp: set_update_many)
  have "token_ok db' ?n"
    unfolding token_ok_def using s s' by (auto simp: session_le_def ts intro!: bexI [of _ s'] bexI [OF _ rU])
  moreover have "\<exists>t\<in>set (ac_tokens db'). t_sessionId t = s_id x \<and> token_live t"
    if x: "x \<in> set (ac_sessions db')" "s_revokedAt x = None" for x
  proof -
    from x obtain y where "y \<in> set (ac_sessions db)" "s_id y = s_id x" "s_revokedAt y = None"
      unfolding ss by (auto simp: set_update_many split: if_splits)
    with I(7) obtain t where "t \<in> set (ac_tokens db)" "t_sessionId t = s_id x" "token_live t" by metis
    then show ?thesis
      using unique_keys_eq [OF I(2) _ r(1), of t] s(2) unfolding ts
      by (cases "t_id t = t_id r") (auto simp: set_update_many)
  qed
  moreover have "unique_keys s_id (ac_sessions db')"
    unfolding ss by (rule unique_keys_update_many [OF _ I(1)]) simp
  moreover note rotate_tokens [OF inv r]
  ultimately show ?thesis
    using I(2,3,5) new old unfolding sessions_inv_def ts s(2)
    by (simp add: update_columns one_successor_snoc)
qed

lemma sess_change_inv: "sess_change db db' \<Longrightarrow> sessions_inv db \<Longrightarrow> sessions_inv db'"
proof (induction rule: sess_change.induct)
  case (sc_same db' db)
  then have "token_ok db' = token_ok db" by (simp add: fun_eq_iff token_ok_def cong: option.case_cong)
  with sc_same show ?case unfolding sessions_inv_def by auto
next
  case (sc_revoke db which ids db' reason now)
  show ?case by (rule revoke_inv [OF sc_revoke(4) sc_revoke(1) sc_revoke(2,3)])
next
  case (sc_open s db tid h db')
  show ?case by (rule open_inv [OF sc_open(7) sc_open(1-6)])
next
  case (sc_rotate r db s tid h db' now idle)
  show ?case by (rule rotate_inv [OF sc_rotate(9) sc_rotate(1-8)])
qed

section \<open>Every step is such a change\<close>

lemma attempt_tables [simp]:
  "ac_users (recordAttempt env u e oc rc cx db) = ac_users db"
  "ac_sessions (recordAttempt env u e oc rc cx db) = ac_sessions db"
  "ac_tokens (recordAttempt env u e oc rc cx db) = ac_tokens db"
  by (simp_all add: recordAttempt_def)

lemma failure_tables [simp]:
  "ac_sessions (registerFailure env u e cx now db) = ac_sessions db"
  "ac_tokens (registerFailure env u e cx now db) = ac_tokens db"
  "ac_sessions (login_refuse env e v snap cx now db) = ac_sessions db"
  "ac_tokens (login_refuse env e v snap cx now db) = ac_tokens db"
  by (simp_all add: registerFailure_def login_refuse_def Let_def split: option.split)

lemma change_cong:
  "sess_change db db1 \<Longrightarrow> ac_sessions db' = ac_sessions db1 \<Longrightarrow> ac_tokens db' = ac_tokens db1 \<Longrightarrow> sess_change db db'"
proof (induction rule: sess_change.induct)
  case (sc_same db1 db)
  then show ?case by (intro sess_change.sc_same) simp_all
next
  case (sc_revoke db which ids db1 reason now)
  show ?case
    by (rule sess_change.sc_revoke [where which = which and ids = ids and now = now and reason = reason])
      (simp_all add: sc_revoke)
next
  case (sc_open s db tid h db1)
  show ?case by (rule sess_change.sc_open [OF sc_open(1-4)]) (simp_all add: sc_open)
next
  case (sc_rotate r db s tid h db1 now idle)
  show ?case by (rule sess_change.sc_rotate [OF sc_rotate(1-6)]) (simp_all add: sc_rotate)
qed

lemma revoke_change:
  assumes "ac_sessions db' = ac_sessions db" "ac_tokens db' = ac_tokens db"
    and "\<And>s. s \<in> set (ac_sessions db) \<Longrightarrow> s_revokedAt s = None \<Longrightarrow> which s = ids (s_id s)"
  shows "sess_change db (revoke_sessions which ids reason now db')"
  using sc_revoke [of db which ids "revoke_sessions which ids reason now db'" reason now] assms
  by (simp add: revoke_rows)

lemma login_change: "sess_change db (snd (login_finish env sid tid raw email pw snap cx now db))"
proof (cases "\<exists>s. snap = Some s \<and> login_valid env pw snap \<and> u_status (us_user s) = U_ACTIVE
    \<and> snd (login_finish env sid tid raw email pw snap cx now db) =
      snd (login_commit env sid tid raw (normalizeEmail email) s cx now db)")
  case True
  then obtain s where s: "snd (login_finish env sid tid raw email pw snap cx now db) =
      snd (login_commit env sid tid raw (normalizeEmail email) s cx now db)" by blast
  let ?s = "new_session env sid (u_id (us_user s)) cx now"
  have id: "s_id ?s = sid" "s_revokedAt ?s = None" by (simp_all add: new_session_def Let_def)
  show ?thesis
  proof (cases "u_id (us_user s) \<in> u_id ` set (ac_users db) \<and> sid \<notin> s_id ` set (ac_sessions db)
      \<and> tid \<notin> t_id ` set (ac_tokens db) \<and> en_tokenHmac env raw \<notin> t_tokenHash ` set (ac_tokens db)")
    case True
    then show ?thesis unfolding s
      by (intro sc_open [of ?s db tid "en_tokenHmac env raw"]) (simp_all add: id login_commit_def Let_def)
  next
    case False
    then show ?thesis unfolding s
      by (intro sc_same) (auto simp: login_commit_def Let_def)
  qed
next
  case False
  then show ?thesis
    by (intro sc_same) (auto simp: login_finish_def Let_def split: option.splits if_splits)
qed

text \<open>What a refresh read, and what still holds of it.\<close>

definition refresh_pend_ok :: "auth_db \<Rightarrow> refresh_snapshot \<Rightarrow> bool" where
  "refresh_pend_ok db r \<longleftrightarrow>
     (\<exists>t\<in>set (ac_tokens db). token_le (rf_token r) t)
     \<and> (\<exists>s\<in>set (ac_sessions db). session_le (rf_session r) s)
     \<and> s_id (rf_session r) = t_sessionId (rf_token r)"

lemma refresh_read_Some:
  assumes "refresh_read env raw db = Some r"
  obtains c cs where "raw = Some (c # cs)"
    "find_unique t_tokenHash (en_tokenHmac env (c # cs)) (ac_tokens db) = Some (rf_token r)"
    "find_unique s_id (t_sessionId (rf_token r)) (ac_sessions db) = Some (rf_session r)"
    "find_unique u_id (s_userId (rf_session r)) (ac_users db) = Some (us_user (rf_user r))"
    "rf_user r = snapshot_of db (us_user (rf_user r))"
  using assms by (auto simp: refresh_read_def snapshot_of_def split: option.splits list.splits)

lemma refresh_read_ok:
  assumes "refresh_read env raw db = Some r"
  shows "refresh_pend_ok db r"
  using assms
proof (rule refresh_read_Some)
  fix c cs
  assume "find_unique t_tokenHash (en_tokenHmac env (c # cs)) (ac_tokens db) = Some (rf_token r)"
    and "find_unique s_id (t_sessionId (rf_token r)) (ac_sessions db) = Some (rf_session r)"
  then have "rf_token r \<in> set (ac_tokens db)" "rf_session r \<in> set (ac_sessions db)"
    "s_id (rf_session r) = t_sessionId (rf_token r)" by (auto dest: find_unique_Some_D)
  then show ?thesis unfolding refresh_pend_ok_def using le_refl by blast
qed

lemma rotate_change:
  assumes inv: "sessions_inv db" and ok: "refresh_pend_ok db r"
    and rot: "refresh_rotate env tid replacement r now db = Some (Inr db1)"
  shows "sess_change db db1"
proof -
  note I = sessions_invD [OF inv]
  from ok obtain t s where t: "t \<in> set (ac_tokens db)" "token_le (rf_token r) t"
    and s: "s \<in> set (ac_sessions db)" "session_le (rf_session r) s"
    and id: "s_id (rf_session r) = t_sessionId (rf_token r)"
    unfolding refresh_pend_ok_def by blast
  let ?i = "t_id (rf_token r)"
  from rot have one: "count_rows (\<lambda>t. t_id t = ?i \<and> token_live t) (ac_tokens db) = 1"
    and new: "tid \<notin> t_id ` set (ac_tokens db)" "en_tokenHmac env replacement \<notin> t_tokenHash ` set (ac_tokens db)"
    and db1: "db1 = db\<lparr>ac_tokens :=
                update_many (\<lambda>t. t_id t = ?i \<and> token_live t) (use_token now) (ac_tokens db)
                @ [new_token tid (s_id (rf_session r)) (en_tokenHmac env replacement) (Some ?i)
                    (s_absoluteExpiresAt (rf_session r))],
              ac_sessions := update_many (\<lambda>x. s_id x = s_id (rf_session r))
                (\<lambda>x. x\<lparr>s_lastSeenAt := now, s_idleExpiresAt := idleExpiry env now (s_absoluteExpiresAt (rf_session r))\<rparr>)
                (ac_sessions db)\<rparr>"
    by (auto simp: refresh_rotate_def Let_def split: if_splits)
  from t(2) s(2) id have e: "?i = t_id t" "s_id (rf_session r) = s_id s" "s_id s = t_sessionId t"
    "s_absoluteExpiresAt (rf_session r) = s_absoluteExpiresAt s"
    unfolding token_le_def session_le_def by simp_all
  from tbl.cnt_one_iff [OF I(2), of ?i token_live] one
  have "\<exists>q. find_unique t_id ?i (ac_tokens db) = Some q \<and> token_live q" by blast
  with find_unique_in_set [OF I(2) t(1)] e(1) have "token_live t" by simp
  from sc_rotate [OF t(1) this s(1) e(3) new] show ?thesis
    unfolding db1 e(1,2,4) by simp
qed

lemma refresh_change:
  assumes "sessions_inv db" and "\<And>r. snap = Some r \<Longrightarrow> refresh_pend_ok db r"
  shows "sess_change db (snd (refresh_finish env tid replacement snap cx now db))"
proof (cases "\<exists>r db1. snap = Some r \<and> refresh_rotate env tid replacement r now db = Some (Inr db1)
    \<and> refresh_decide r now = R_Rotate")
  case True
  then obtain r db1 where r: "snap = Some r" "refresh_rotate env tid replacement r now db = Some (Inr db1)"
    "refresh_decide r now = R_Rotate" by blast
  from rotate_change [OF assms(1) assms(2) [OF r(1)] r(2)] show ?thesis
    by (rule change_cong) (simp_all add: r refresh_finish_def Let_def)
next
  case False
  have rev: "sess_change db (revokeForReuse sid uid cx now db)" for sid uid
    by (rule change_cong [OF revoke_change [of db db "\<lambda>s. s_id s = sid" "\<lambda>i. i = sid"]])
      (simp_all add: revokeForReuse_def)
  show ?thesis
  proof (cases "snd (refresh_finish env tid replacement snap cx now db) = db")
    case True then show ?thesis by (intro sc_same) simp_all
  next
    case changed: False
    with False show ?thesis
      by (auto simp: refresh_finish_def Let_def rev sc_same
          split: option.splits sum.splits refresh_decision.splits)
  qed
qed

lemma open_sessions_change:
  assumes "sessions_inv db" and "ac_sessions db1 = ac_sessions db" "ac_tokens db1 = ac_tokens db"
  shows "sess_change db (revoke_ids ids reason now db1)"
  unfolding revoke_ids_def by (rule revoke_change) (use assms in simp_all)

lemma account_change:
  assumes "sessions_inv db"
  shows "sess_change db (account_serve hp r cx now db)"
    and "sess_change db (disableUser_write i cx now db)"
    and "sess_change db (replaceUserRoles_write i ids prev new cx now db)"
proof -
  show dis: "sess_change db (disableUser_write i cx now db)" for i
    by (rule change_cong [OF open_sessions_change [OF assms refl refl,
          of "open_sessions i db" "''USER_DISABLED''" now]])
      (simp_all add: disableUser_write_def Let_def open_sessions_def revoke_ids_def revoke_rows)
  show rol: "sess_change db (replaceUserRoles_write i ids prev new cx now db)" for i ids prev new
    by (rule change_cong [OF open_sessions_change [OF assms refl refl,
          of "open_sessions i db" "''ROLES_CHANGED''" now]])
      (simp_all add: replaceUserRoles_write_def Let_def open_sessions_def revoke_ids_def revoke_rows)
  show "sess_change db (account_serve hp r cx now db)"
  proof (cases r)
    case (XReplaceRoles i ids)
    with rol show ?thesis by (auto simp: replaceUserRoles_def sc_same split: sum.splits)
  next
    case (XDisableUser i)
    with dis show ?thesis by (auto simp: disableUser_def sc_same split: sum.splits)
  next
    case (XRevokeSessions i)
    have "sess_change db (security_record u s' ty sv m cx (account_audit a e cx
        (revoke_ids (open_sessions i db) ''ADMIN_REVOKED'' now db)))" for u s' ty sv m a e
      by (rule change_cong [OF open_sessions_change [OF assms refl refl]]) simp_all
    with XRevokeSessions show ?thesis
      by (auto simp: revokeUserSessions_def Let_def sc_same split: option.splits)
  qed (auto intro!: sc_same simp: createUser_def updateUser_def activateUser_def createRole_def
      updateRole_def replacePermissions_def activateRole_def deactivateRole_def changeRoleStatus_def Let_def
      split: option.splits sum.splits)
qed

text \<open>The users: no request removes one or lowers a version.\<close>

lemma users_covers:
  "users_le (ac_users db) (ac_users (snd (login_finish env sid tid raw email pw snap cx now db)))"
  "users_le (ac_users db) (ac_users (snd (refresh_finish env tid replacement rs cx now db)))"
  "users_le (ac_users db) (ac_users (account_serve hp r cx now db))"
  "users_le (ac_users db) (ac_users (disableUser_write i cx now db))"
  "users_le (ac_users db) (ac_users (replaceUserRoles_write i ids prev new cx now db))"
proof -
  show dis: "users_le (ac_users db) (ac_users (disableUser_write i cx now db))" for i
    by (auto simp: disableUser_write_def Let_def intro!: users_le_update)
  show rol: "users_le (ac_users db) (ac_users (replaceUserRoles_write i ids prev new cx now db))"
    for i ids prev new
    by (auto simp: replaceUserRoles_write_def Let_def intro!: users_le_update)
  show "users_le (ac_users db) (ac_users (account_serve hp r cx now db))"
    by (cases r)
      (auto simp: users_le_refl dis rol createUser_def updateUser_def replaceUserRoles_def activateUser_def
        disableUser_def revokeUserSessions_def createRole_def updateRole_def replacePermissions_def
        activateRole_def deactivateRole_def changeRoleStatus_def Let_def
        intro!: users_le_update users_le_append split: option.splits sum.splits)
  show "users_le (ac_users db) (ac_users (snd (login_finish env sid tid raw email pw snap cx now db)))"
    by (auto simp: login_finish_def login_commit_def login_refuse_def registerFailure_def Let_def
        users_le_refl intro!: users_le_update split: option.splits)
  show "users_le (ac_users db) (ac_users (snd (refresh_finish env tid replacement rs cx now db)))"
    by (auto simp: refresh_finish_def refresh_rotate_def revokeForReuse_def Let_def users_le_refl
        split: option.splits sum.splits refresh_decision.splits if_splits)
qed

text \<open>What is pending stays true of the tables.\<close>

fun pend_ok :: "auth_db \<Rightarrow> auth_pending \<Rightarrow> bool" where
  "pend_ok db (AP_Login email pw snap) = True"
| "pend_ok db (AP_Refresh snap) = (case snap of None \<Rightarrow> True | Some r \<Rightarrow> refresh_pend_ok db r)"
| "pend_ok db (AP_Reuse sid uid) = True"
| "pend_ok db (AP_Request user) =
     (\<exists>s\<in>set (ac_sessions db). s_id s = az_sessionId user \<and> s_userId s = az_userId user)"
| "pend_ok db (AP_Others user ids) =
     (\<forall>i\<in>set ids. \<exists>s\<in>set (ac_sessions db). s_id s = i \<and> s_userId s = az_userId user)"

definition auth_inv :: "auth_state \<Rightarrow> bool" where
  "auth_inv st \<longleftrightarrow> sessions_inv (fst st) \<and> list_all (pend_ok (fst st)) (snd st)"

lemma pend_ok_grows:
  assumes "grows db db'" and "pend_ok db p"
  shows "pend_ok db' p"
proof -
  have s: "\<exists>s'\<in>set (ac_sessions db'). session_le s s'" if "s \<in> set (ac_sessions db)" for s
    using assms(1) that unfolding grows_def covers_def by blast
  have t: "\<exists>t'\<in>set (ac_tokens db'). token_le t t'" if "t \<in> set (ac_tokens db)" for t
    using assms(1) that unfolding grows_def covers_def by blast
  have own: "\<exists>s'\<in>set (ac_sessions db'). s_id s' = i \<and> s_userId s' = u"
    if "s \<in> set (ac_sessions db)" "s_id s = i" "s_userId s = u" for s i u
    using s [OF that(1)] that(2,3) unfolding session_le_def by metis
  show ?thesis
  proof (cases p)
    case (AP_Refresh snap)
    with assms(2) show ?thesis
      using s t le_trans unfolding refresh_pend_ok_def by (cases snap) (auto simp: refresh_pend_ok_def, meson+)
  next
    case (AP_Request user)
    with assms(2) own show ?thesis by auto
  next
    case (AP_Others user ids)
    with assms(2) own show ?thesis by fastforce
  qed simp_all
qed

lemma pend_change:
  assumes "auth_inv (db, ps @ p # qs)"
  shows "sessions_inv db" "pend_ok db p" "list_all (pend_ok db) (ps @ qs)"
  using assms by (auto simp: auth_inv_def)

lemma own_session:
  assumes "sessions_inv db" and "pend_ok db (AP_Request user)" and "s \<in> set (ac_sessions db)"
    and "s_id s = az_sessionId user"
  shows "s_userId s = az_userId user"
  using assms(2) unique_keys_eq [OF sessions_invD(1) [OF assms(1)] assms(3)] assms(4) by auto

lemma request_change:
  assumes "sessions_inv db" and "pend_ok db (AP_Request user)"
  shows "sess_change db (logout user cx now db)" and "sess_change db (snd (revokeOwn user sid cx now db))"
proof -
  have "sess_change db (revoke_sessions (\<lambda>s. s_id s = az_sessionId user \<and> s_userId s = az_userId user)
      (\<lambda>i. i = az_sessionId user) ''LOGOUT'' now db)"
    by (rule revoke_change) (use own_session [OF assms] in auto)
  then show "sess_change db (logout user cx now db)"
    by (rule change_cong) (simp_all add: logout_def)
  show "sess_change db (snd (revokeOwn user sid cx now db))"
  proof (cases "find_unique s_id sid (ac_sessions db)")
    case None
    then show ?thesis by (simp add: revokeOwn_def sc_same)
  next
    case (Some x)
    show ?thesis
    proof (cases "s_userId x = az_userId user")
      case True
      have "sess_change db (revoke_sessions (\<lambda>s. s_id s = sid \<and> s_userId s = az_userId user) (\<lambda>i. i = sid)
          ''USER_REVOKED'' now db)"
      proof (rule revoke_change)
        fix s assume "s \<in> set (ac_sessions db)"
        from find_unique_in_set [OF sessions_invD(1) [OF assms(1)] this] Some True
        show "(s_id s = sid \<and> s_userId s = az_userId user) = (s_id s = sid)" by auto
      qed simp_all
      then show ?thesis
        by (rule change_cong) (use Some True in \<open>simp_all add: revokeOwn_def Let_def\<close>)
    qed (use Some in \<open>simp add: revokeOwn_def sc_same\<close>)
  qed
qed

lemma others_change:
  assumes "sessions_inv db" and "pend_ok db (AP_Others user ids)"
  shows "sess_change db (snd (revokeOthers_write user ids cx now db))"
proof -
  have "sess_change db (revoke_sessions (\<lambda>s. s_id s \<in> set ids \<and> s_userId s = az_userId user)
      (\<lambda>i. i \<in> set ids) ''OTHER_SESSIONS_REVOKED'' now db)"
  proof (rule revoke_change)
    fix s assume s: "s \<in> set (ac_sessions db)"
    show "(s_id s \<in> set ids \<and> s_userId s = az_userId user) = (s_id s \<in> set ids)"
    proof (cases "s_id s \<in> set ids")
      case True
      with assms(2) obtain x where "x \<in> set (ac_sessions db)" "s_id x = s_id s" "s_userId x = az_userId user"
        by auto
      with unique_keys_eq [OF sessions_invD(1) [OF assms(1)] _ s] show ?thesis by blast
    qed simp
  qed simp_all
  then show ?thesis by (rule change_cong) (simp_all add: revokeOthers_write_def Let_def)
qed

lemma request_users [simp]:
  "ac_users (logout user cx now db) = ac_users db"
  "ac_users (snd (revokeOwn user sid cx now db)) = ac_users db"
  "ac_users (snd (revokeOthers_write user ids cx now db)) = ac_users db"
  "ac_users (revokeForReuse sid uid cx now db) = ac_users db"
  by (auto simp: logout_def revokeOwn_def revokeOthers_write_def revokeForReuse_def Let_def split: option.splits)

lemma jwt_validate_Inr:
  assumes "jwt_validate c now db = Inr user"
  obtains s u where "s \<in> set (ac_sessions db)" "s_id s = cl_sid c" "s_userId s = cl_sub c"
    "s_revokedAt s = None" "u \<in> set (ac_users db)" "u_id u = cl_sub c" "u_status u = U_ACTIVE"
    "u_authVersion u = cl_authVersion c" "az_userId user = cl_sub c" "az_sessionId user = cl_sid c"
  using assms
  by (auto simp: jwt_validate_def find_Some_iff split: if_splits option.splits dest!: find_unique_Some_D)
    (metis nth_mem)

lemma step_change:
  assumes "auth_step env hp st st'" and "auth_inv st"
  shows "sess_change (fst st) (fst st') \<and> users_le (ac_users (fst st)) (ac_users (fst st'))
    \<and> list_all (\<lambda>p. pend_ok (fst st) p) (snd st')"
  using assms
proof (induction rule: auth_step.induct)
  case (request claims now db user ps)
  then show ?case
    by (auto simp: sc_same users_le_refl auth_inv_def elim!: jwt_validate_Inr)
next
  case (login_end db ps email pw snap qs sid tid raw cx now)
  then show ?case using login_change users_covers(1) pend_change(3) by simp
next
  case (refresh_begin db ps raw)
  then show ?case
    by (auto simp: sc_same users_le_refl auth_inv_def dest: refresh_read_ok split: option.split)
next
  case (refresh_end db ps snap qs tid replacement cx now)
  note p = pend_change [OF refresh_end]
  have "refresh_pend_ok db r" if "snap = Some r" for r using p(2) that by simp
  from refresh_change [OF p(1) this] p(3) users_covers(2) show ?case by simp
next
  case (reuse_end db ps sid uid qs cx now)
  have "sess_change db (revokeForReuse sid uid cx now db)"
    by (rule change_cong [OF revoke_change [of db db "\<lambda>s. s_id s = sid" "\<lambda>i. i = sid"]])
      (simp_all add: revokeForReuse_def)
  with pend_change [OF reuse_end] show ?case by (simp add: users_le_refl)
next
  case (logout_end db ps user qs cx now)
  note p = pend_change [OF logout_end]
  from request_change [OF p(1,2)] p(3) show ?case by (simp add: users_le_refl)
next
  case (revoke_own db ps user qs sid cx now)
  note p = pend_change [OF revoke_own]
  from request_change [OF p(1,2)] p(3) show ?case by (simp add: users_le_refl)
next
  case (others_begin db ps user qs)
  note p = pend_change [OF others_begin]
  from p(3) show ?case by (auto simp: sc_same users_le_refl other_sessions_def)
next
  case (others_end db ps user ids qs cx now)
  note p = pend_change [OF others_end]
  from others_change [OF p(1,2)] p(3) show ?case by (simp add: users_le_refl)
next
  case (account db ps r cx now)
  then show ?case using account_change(1) users_covers(3) by (simp add: auth_inv_def)
next
  case (disable_write db ps i cx now)
  then show ?case using account_change(2) users_covers(4) by (simp add: auth_inv_def)
next
  case (roles_write db ps i ids prev new cx now)
  then show ?case using account_change(3) users_covers(5) by (simp add: auth_inv_def)
qed (auto simp: sc_same users_le_refl auth_inv_def)

lemma auth_step_inv:
  assumes "auth_step env hp st st'" and "auth_inv st"
  shows "auth_inv st' \<and> grows (fst st) (fst st')"
proof -
  note c = step_change [OF assms]
  from c have g: "grows (fst st) (fst st')" by (simp add: grows_change)
  with c assms(2) sess_change_inv show ?thesis
    by (auto simp: auth_inv_def list_all_iff intro: pend_ok_grows)
qed

lemma auth_steps_inv:
  assumes "auth_steps env hp st st'" and "auth_inv st"
  shows "auth_inv st' \<and> grows (fst st) (fst st')"
  using assms
proof (induction rule: rtranclp_induct)
  case base
  then show ?case by (simp add: grows_refl)
next
  case (step st1 st2)
  with auth_step_inv [OF step(2)] show ?case by (blast intro: grows_trans)
qed

section \<open>The ledger\<close>

text \<open>The abstract view: a session is open with one current token, or closed for good.\<close>

datatype ledger_entry = S_Open ident | S_Closed

inductive ledger_step :: "(ident \<Rightarrow> ledger_entry option) \<Rightarrow> (ident \<Rightarrow> ledger_entry option) \<Rightarrow> bool" where
  stutter: "ledger_step m m"
| opened: "m sid = None \<Longrightarrow> ledger_step m (m(sid \<mapsto> S_Open tid))"
| rotated: "m sid = Some (S_Open i) \<Longrightarrow> tid \<noteq> i \<Longrightarrow> ledger_step m (m(sid \<mapsto> S_Open tid))"
| closed: "ledger_step m (\<lambda>sid. if sid \<in> S \<and> m sid \<noteq> None then Some S_Closed else m sid)"

definition ledger :: "auth_db \<Rightarrow> ident \<Rightarrow> ledger_entry option" where
  "ledger db sid =
     (case find_unique s_id sid (ac_sessions db) of
        None \<Rightarrow> None
      | Some s \<Rightarrow>
          if s_revokedAt s \<noteq> None then Some S_Closed
          else (case List.find (\<lambda>t. t_sessionId t = sid \<and> token_live t) (ac_tokens db) of
                  None \<Rightarrow> Some S_Closed
                | Some t \<Rightarrow> Some (S_Open (t_id t))))"

lemma ledger_None: "sid \<notin> s_id ` set (ac_sessions db) \<Longrightarrow> ledger db sid = None"
  by (simp add: ledger_def find_unique_None_iff [symmetric])

lemma ledger_Closed:
  assumes "sessions_inv db" and "s \<in> set (ac_sessions db)" "s_revokedAt s \<noteq> None" "s_id s = sid"
  shows "ledger db sid = Some S_Closed"
  using find_unique_in_set [OF sessions_invD(1) [OF assms(1)] assms(2)] assms(3,4) by (simp add: ledger_def)

lemma ledger_Open:
  assumes inv: "sessions_inv db" and t: "t \<in> set (ac_tokens db)" "token_live t" "t_sessionId t = sid"
  shows "ledger db sid = Some (S_Open (t_id t))"
proof -
  note I = sessions_invD [OF inv]
  from I(6) [OF t(1)] obtain s where s: "s \<in> set (ac_sessions db)" "s_id s = t_sessionId t"
    unfolding token_ok_def by blast
  have "s_revokedAt s = None"
    using token_ok_revoked [OF inv t(1) s] t(2) by (cases "s_revokedAt s") (auto simp: token_live_def)
  moreover have "find_unique s_id sid (ac_sessions db) = Some s"
    using find_unique_in_set [OF I(1) s(1)] s(2) t(3) by simp
  moreover obtain x where x: "List.find (\<lambda>t. t_sessionId t = sid \<and> token_live t) (ac_tokens db) = Some x"
    using t by (cases "List.find (\<lambda>t. t_sessionId t = sid \<and> token_live t) (ac_tokens db)")
      (auto simp: find_None_iff)
  then have "x \<in> set (ac_tokens db)" "t_sessionId x = sid" "token_live x"
    by (auto simp: find_Some_iff)
  with chain.exclusiveD [OF I(4) this(1) t(1)] t have "t_id x = t_id t" by simp
  ultimately show ?thesis by (simp add: ledger_def x)
qed

text \<open>Under the invariant these three cases are all there are.\<close>

lemma ledger_cases:
  assumes "sessions_inv db"
  obtains "sid \<notin> s_id ` set (ac_sessions db)"
  | s where "s \<in> set (ac_sessions db)" "s_revokedAt s \<noteq> None" "s_id s = sid"
  | t where "t \<in> set (ac_tokens db)" "token_live t" "t_sessionId t = sid"
  using sessions_invD(7) [OF assms] by (metis imageE)

lemma revoke_ledger:
  assumes inv: "sessions_inv db"
    and which: "\<And>s. s \<in> set (ac_sessions db) \<Longrightarrow> s_revokedAt s = None \<Longrightarrow> which s = ids (s_id s)"
    and ss: "ac_sessions db' = ac_sessions (revoke_sessions which ids reason now db)"
    and ts: "ac_tokens db' = ac_tokens (revoke_sessions which ids reason now db)"
  shows "ledger db' sid =
    (if sid \<in> Collect ids \<and> ledger db sid \<noteq> None then Some S_Closed else ledger db sid)"
proof -
  note inv' = revoke_inv [OF inv which ss ts]
  from inv show ?thesis
  proof (rule ledger_cases [where sid = sid])
    assume n: "sid \<notin> s_id ` set (ac_sessions db)"
    moreover have "s_id ` set (ac_sessions db') = s_id ` set (ac_sessions db)"
      unfolding ss revoke_rows set_map [symmetric] by (simp add: map_key_update_many)
    ultimately show ?thesis by (simp add: ledger_None)
  next
    fix s assume s: "s \<in> set (ac_sessions db)" "s_revokedAt s \<noteq> None" "s_id s = sid"
    then have "s \<in> set (ac_sessions db')"
      unfolding ss revoke_rows set_update_many by (intro image_eqI [of _ _ s]) auto
    from ledger_Closed [OF inv' this s(2,3)] ledger_Closed [OF inv s] show ?thesis by simp
  next
    fix t assume t: "t \<in> set (ac_tokens db)" "token_live t" "t_sessionId t = sid"
    show ?thesis
    proof (cases "ids sid")
      case True
      from sessions_invD(6) [OF inv t(1)] obtain s where s: "s \<in> set (ac_sessions db)" "s_id s = t_sessionId t"
        unfolding token_ok_def by blast
      have r: "s_revokedAt s = None"
        using token_ok_revoked [OF inv t(1) s] t(2) by (cases "s_revokedAt s") (auto simp: token_live_def)
      with which [OF s(1)] True s(2) t(3) have "which s" by simp
      with s r have "s\<lparr>s_revokedAt := Some now, s_revokedReason := Some reason\<rparr> \<in> set (ac_sessions db')"
        unfolding ss revoke_rows set_update_many by (intro image_eqI [of _ _ s]) auto
      from ledger_Closed [OF inv' this] s(2) t(3) True ledger_Open [OF inv t] show ?thesis by simp
    next
      case False
      with t have "t \<in> set (ac_tokens db')"
        unfolding ts revoke_rows set_update_many by (intro image_eqI [of _ _ t]) auto
      from ledger_Open [OF inv' this t(2,3)] False ledger_Open [OF inv t] show ?thesis by simp
    qed
  qed
qed

text \<open>A change that adds one live token and keeps what other sessions have.\<close>

lemma add_ledger:
  assumes inv: "sessions_inv db" "sessions_inv db'"
    and n: "n \<in> set (ac_tokens db')" "token_live n"
    and ids: "s_id ` set (ac_sessions db') \<subseteq> insert (t_sessionId n) (s_id ` set (ac_sessions db))"
    and ss: "covers session_le (ac_sessions db) (ac_sessions db')"
    and ts: "\<And>t. t \<in> set (ac_tokens db) \<Longrightarrow> t_sessionId t \<noteq> t_sessionId n \<Longrightarrow> t \<in> set (ac_tokens db')"
  shows "ledger db' = (ledger db)(t_sessionId n \<mapsto> S_Open (t_id n))"
proof
  fix sid
  show "ledger db' sid = ((ledger db)(t_sessionId n \<mapsto> S_Open (t_id n))) sid"
  proof (cases "sid = t_sessionId n")
    case True
    with ledger_Open [OF inv(2) n] show ?thesis by simp
  next
    case False
    from inv(1) have "ledger db' sid = ledger db sid"
    proof (rule ledger_cases [where sid = sid])
      assume out: "sid \<notin> s_id ` set (ac_sessions db)"
      with ids False have "sid \<notin> s_id ` set (ac_sessions db')" by blast
      with out show ?thesis using ledger_None by metis
    next
      fix s assume s: "s \<in> set (ac_sessions db)" "s_revokedAt s \<noteq> None" "s_id s = sid"
      with ss obtain s' where "s' \<in> set (ac_sessions db')" "s_revokedAt s' \<noteq> None" "s_id s' = sid"
        unfolding covers_def session_le_def by metis
      from ledger_Closed [OF inv(2) this] ledger_Closed [OF inv(1) s] show ?thesis by simp
    next
      fix t assume t: "t \<in> set (ac_tokens db)" "token_live t" "t_sessionId t = sid"
      from ts [OF t(1)] t(3) False have "t \<in> set (ac_tokens db')" by simp
      from ledger_Open [OF inv(2) this t(2,3)] ledger_Open [OF inv(1) t] show ?thesis by simp
    qed
    with False show ?thesis by simp
  qed
qed

lemma change_ledger:
  assumes "sess_change db db'" and "sessions_inv db"
  shows "ledger_step (ledger db) (ledger db')"
  using assms(1)
proof (cases rule: sess_change.cases)
  case sc_same
  then have "ledger db' = ledger db" by (intro ext) (simp only: ledger_def)
  then show ?thesis by (simp only: ledger_step.stutter)
next
  case (sc_revoke which ids reason now)
  have "ledger db' = (\<lambda>sid. if sid \<in> Collect ids \<and> ledger db sid \<noteq> None then Some S_Closed else ledger db sid)"
    by (rule ext) (rule revoke_ledger [OF assms(2) sc_revoke])
  then show ?thesis by (simp only: ledger_step.closed)
next
  case (sc_open s tid h)
  let ?n = "new_token tid (s_id s) h None (s_absoluteExpiresAt s)"
  have "ledger db' = (ledger db)(t_sessionId ?n \<mapsto> S_Open (t_id ?n))"
    by (rule add_ledger [OF assms(2) sess_change_inv [OF assms]])
      (simp_all add: sc_open(5,6) covers_append covers_refl)
  with ledger_step.opened [of "ledger db" "s_id s" tid] ledger_None [OF sc_open(1)] show ?thesis by simp
next
  case (sc_rotate r s tid h now idle)
  let ?n = "new_token tid (s_id s) h (Some (t_id r)) (s_absoluteExpiresAt s)"
  have "ledger db' = (ledger db)(t_sessionId ?n \<mapsto> S_Open (t_id ?n))"
  proof (rule add_ledger [OF assms(2) sess_change_inv [OF assms]])
    show "covers session_le (ac_sessions db) (ac_sessions db')" by (rule grows_sessions [OF assms(1)])
    show "s_id ` set (ac_sessions db') \<subseteq> insert (t_sessionId ?n) (s_id ` set (ac_sessions db))"
      unfolding sc_rotate(8) by (auto simp: set_update_many)
    fix t assume t: "t \<in> set (ac_tokens db)" "t_sessionId t \<noteq> t_sessionId ?n"
    with sc_rotate(4) unique_keys_eq [OF sessions_invD(2) [OF assms(2)] t(1) sc_rotate(1)]
    show "t \<in> set (ac_tokens db')"
      unfolding sc_rotate(7) set_append set_update_many by (intro UnI1 image_eqI [of _ _ t]) auto
  qed (simp_all add: sc_rotate(7))
  moreover have "tid \<noteq> t_id r" using sc_rotate(1,5) by blast
  moreover from ledger_Open [OF assms(2) sc_rotate(1,2)] sc_rotate(4)
  have "ledger db (s_id s) = Some (S_Open (t_id r))" by simp
  ultimately show ?thesis using ledger_step.rotated [of "ledger db" "s_id s" "t_id r" tid] by simp
qed

section \<open>A closed session stays closed\<close>

definition session_dead :: "auth_db \<Rightarrow> ident \<Rightarrow> bool" where
  "session_dead db sid \<longleftrightarrow> (\<exists>s\<in>set (ac_sessions db). s_id s = sid \<and> s_revokedAt s \<noteq> None)"

lemma dead_grows: "grows db db' \<Longrightarrow> session_dead db sid \<Longrightarrow> session_dead db' sid"
  unfolding grows_def covers_def session_dead_def session_le_def by metis

lemma dead_tokens:
  assumes "sessions_inv db" and "session_dead db (t_sessionId t)" and "t \<in> set (ac_tokens db)"
  shows "t_revokedAt t \<noteq> None"
  using assms token_ok_revoked unfolding session_dead_def by blast

lemma dead_claims:
  assumes "sessions_inv db" and "session_dead db (cl_sid c)"
  shows "jwt_validate c now db = Inl (Unauthorized '''')"
proof -
  from assms(2) obtain s where s: "s \<in> set (ac_sessions db)" "s_id s = cl_sid c" "s_revokedAt s \<noteq> None"
    unfolding session_dead_def by blast
  have "\<not> (x \<in> set (ac_sessions db) \<and> s_id x = cl_sid c \<and> s_revokedAt x = None)" for x
    using unique_keys_eq [OF sessions_invD(1) [OF assms(1)] _ s(1), of x] s(2,3) by auto
  then have "List.find (\<lambda>s. s_id s = cl_sid c \<and> s_userId s = cl_sub c \<and> s_revokedAt s = None
      \<and> s_absoluteExpiresAt s > now \<and> s_idleExpiresAt s > now) (ac_sessions db) = None"
    by (auto simp: find_None_iff)
  then show ?thesis by (simp add: jwt_validate_def)
qed

lemma dead_refresh:
  assumes "sessions_inv db" and "refresh_pend_ok db r" and "session_dead db (s_id (rf_session r))"
  shows "fst (refresh_finish env tid replacement (Some r) cx now db) = Inl (Unauthorized ''AUTH_REFRESH_INVALID'')"
proof -
  from assms(2) obtain t where t: "t \<in> set (ac_tokens db)" "t_id t = t_id (rf_token r)"
    "t_sessionId t = s_id (rf_session r)"
    unfolding refresh_pend_ok_def token_le_def by auto
  from dead_tokens [OF assms(1) _ t(1)] assms(3) t(3) have "\<not> token_live t"
    by (simp add: token_live_def)
  with find_unique_in_set [OF sessions_invD(2) [OF assms(1)] t(1)] t(2)
  have "count_rows (\<lambda>x. t_id x = t_id (rf_token r) \<and> token_live x) (ac_tokens db) = 0"
    by (simp add: count_rows_key [OF sessions_invD(2) [OF assms(1)]])
  then have "refresh_rotate env tid replacement r now db = None"
    by (simp add: refresh_rotate_def Let_def)
  then show ?thesis by (simp add: refresh_finish_def Let_def split: refresh_decision.split)
qed

text \<open>A whole refresh is two steps.\<close>

lemma refresh_steps:
  "auth_steps env hp (db, ps) (snd (refresh env tid replacement raw cx now db), ps)"
proof -
  from refresh_begin [of env hp db ps raw]
  have "auth_steps env hp (db, ps) (db, AP_Refresh (refresh_read env raw db) # ps)" by blast
  moreover have "auth_step env hp (db, [] @ AP_Refresh (refresh_read env raw db) # ps)
      (snd (refresh_finish env tid replacement (refresh_read env raw db) cx now db), [] @ ps)"
    by (rule refresh_end)
  ultimately show ?thesis by (simp add: refresh_def rtranclp.rtrancl_into_rtrancl)
qed

lemma reuse_kills:
  assumes inv: "sessions_inv db" and read: "refresh_read env raw db = Some r"
    and used: "t_usedAt (rf_token r) \<noteq> None"
  shows "fst (refresh env tid replacement raw cx now db) = Inl (Unauthorized ''AUTH_REFRESH_INVALID'')"
    and "session_dead (snd (refresh env tid replacement raw cx now db)) (s_id (rf_session r))"
proof -
  from used have d: "refresh_decide r now = R_Reuse" by (simp add: refresh_decide_def Let_def)
  then show "fst (refresh env tid replacement raw cx now db) = Inl (Unauthorized ''AUTH_REFRESH_INVALID'')"
    by (simp add: refresh_def refresh_finish_def read Let_def)
  from read have s: "rf_session r \<in> set (ac_sessions db)"
    by (rule refresh_read_Some) (auto dest: find_unique_Some_D)
  let ?f = "\<lambda>s. if s_id s = s_id (rf_session r) \<and> s_revokedAt s = None
    then s\<lparr>s_revokedAt := Some now, s_revokedReason := Some ''REFRESH_TOKEN_REUSE''\<rparr> else s"
  have "ac_sessions (snd (refresh env tid replacement raw cx now db)) = map ?f (ac_sessions db)"
    by (simp add: refresh_def refresh_finish_def read d Let_def revokeForReuse_def revoke_rows update_many_def)
  with s show "session_dead (snd (refresh env tid replacement raw cx now db)) (s_id (rf_session r))"
    unfolding session_dead_def by (intro bexI [of _ "?f (rf_session r)"]) auto
qed

section \<open>Properties\<close>

text \<open>
  C6. Refresh tokens under concurrency: however logins, refreshes, revocations and account
  requests interleave, a session never has two live tokens, no token is exchanged twice, a live
  token belongs to a session that is not revoked and expires with it, and the token it was
  exchanged for is used and of the same session.
\<close>

theorem sessions_safe:
  assumes "auth_inv st" and "auth_steps env hp st (db, ps)"
  shows "count_rows (\<lambda>t. t_sessionId t = sid \<and> token_live t) (ac_tokens db) \<le> 1
   \<and> distinct (filter (\<lambda>p. p \<noteq> None) (map t_parentTokenId (ac_tokens db)))
   \<and> (\<forall>t\<in>set (ac_tokens db). token_live t \<longrightarrow>
        (\<exists>s\<in>set (ac_sessions db). s_id s = t_sessionId t \<and> s_revokedAt s = None
           \<and> t_expiresAt t = s_absoluteExpiresAt s))
   \<and> (\<forall>t\<in>set (ac_tokens db). \<forall>i. t_parentTokenId t = Some i \<longrightarrow>
        (\<exists>p\<in>set (ac_tokens db). t_id p = i \<and> t_usedAt p \<noteq> None \<and> t_sessionId p = t_sessionId t))"
proof -
  from auth_steps_inv [OF assms(2,1)] have inv: "sessions_inv db" by (simp add: auth_inv_def)
  note I = sessions_invD [OF inv]
  have "\<exists>s\<in>set (ac_sessions db). s_id s = t_sessionId t \<and> s_revokedAt s = None
      \<and> t_expiresAt t = s_absoluteExpiresAt s" if t: "t \<in> set (ac_tokens db)" "token_live t" for t
  proof -
    from t(2) have "t_revokedAt t = None" by (simp add: token_live_def)
    with I(6) [OF t(1)] show ?thesis unfolding token_ok_def by metis
  qed
  moreover have "\<exists>p\<in>set (ac_tokens db). t_id p = i \<and> t_usedAt p \<noteq> None \<and> t_sessionId p = t_sessionId t"
    if "t \<in> set (ac_tokens db)" "t_parentTokenId t = Some i" for t i
    using I(6) [OF that(1)] that(2) unfolding token_ok_def by simp
  ultimately show ?thesis
    using chain.exclusive_count [OF I(4,2)] I(5) unfolding one_successor_def by blast
qed

text \<open>
  C8. The sessions implement a ledger: seen through \<open>ledger\<close>, every run of the interleaved
  handlers is a run of an abstract machine in which a session is opened with a first token, its
  one current token is replaced by another, and sessions are closed for good.
\<close>

theorem sessions_refine_ledger:
  assumes "auth_steps env hp st st'" and "auth_inv st"
  shows "ledger_step\<^sup>*\<^sup>* (ledger (fst st)) (ledger (fst st'))"
  using assms
proof (induction rule: rtranclp_induct)
  case (step st1 st2)
  from auth_steps_inv [OF step(1,4)] have inv: "auth_inv st1" by simp
  with step_change [OF step(2)] have "ledger_step (ledger (fst st1)) (ledger (fst st2))"
    by (simp add: change_ledger auth_inv_def)
  with step show ?case by auto
qed simp

text \<open>
  C7. Theft of a refresh token: presenting a token that was already exchanged is refused and
  revokes its session, and from then on, whatever else happens, no access token of that session
  is accepted and no refresh of it succeeds, not even one that was under way.
\<close>

theorem reuse_revokes_forever:
  assumes "auth_inv (db, ps)" and "refresh_read env raw db = Some r" and "t_usedAt (rf_token r) \<noteq> None"
    and "auth_steps env hp (snd (refresh env tid replacement raw cx now db), ps) (db', ps')"
  shows "fst (refresh env tid replacement raw cx now db) = Inl (Unauthorized ''AUTH_REFRESH_INVALID'')
   \<and> (\<forall>c now'. cl_sid c = s_id (rf_session r) \<longrightarrow> jwt_validate c now' db' = Inl (Unauthorized ''''))
   \<and> (\<forall>x tid' rep' cx' now'. AP_Refresh (Some x) \<in> set ps' \<or> (\<exists>raw'. refresh_read env raw' db' = Some x) \<longrightarrow>
        s_id (rf_session x) = s_id (rf_session r) \<longrightarrow>
        fst (refresh_finish env tid' rep' (Some x) cx' now' db') = Inl (Unauthorized ''AUTH_REFRESH_INVALID''))"
proof -
  from auth_steps_inv [OF refresh_steps assms(1)]
  have "auth_inv (snd (refresh env tid replacement raw cx now db), ps)" by blast
  from auth_steps_inv [OF assms(4) this] have inv: "sessions_inv db'" "list_all (pend_ok db') ps'"
    and g: "grows (snd (refresh env tid replacement raw cx now db)) db'" by (auto simp: auth_inv_def)
  from assms(1) have "sessions_inv db" by (simp add: auth_inv_def)
  note kill = reuse_kills [OF this assms(2,3), of tid replacement cx now]
  note dead = dead_grows [OF g kill(2)]
  have "refresh_pend_ok db' x" if "AP_Refresh (Some x) \<in> set ps' \<or> (\<exists>raw'. refresh_read env raw' db' = Some x)" for x
    using that inv(2) by (auto simp: list_all_iff refresh_read_ok)
  then show ?thesis using kill(1) dead dead_claims [OF inv(1)] dead_refresh [OF inv(1)] by metis
qed

text \<open>
  Disabling a user or replacing their roles makes every access token issued before useless
  for ever: with concurrent logins, refreshes and later re-activation, claims of an authorisation
  version that was current before are refused in every later state.
\<close>

theorem old_claims_refused:
  assumes "auth_inv (db, ps)" and "find_unique u_id i (ac_users db) = Some u"
    and "cl_sub c = i" and "cl_authVersion c \<le> u_authVersion u"
    and "db1 = disableUser_write i cx now db \<or> db1 = replaceUserRoles_write i ids prev new cx now db"
    and "auth_steps env hp (db1, ps) (db', ps')"
  shows "jwt_validate c now' db' = Inl (Unauthorized '''')"
proof -
  have "auth_step env hp (db, ps) (db1, ps)"
    using assms(5) disable_write roles_write by metis
  from auth_step_inv [OF this assms(1)] have "auth_inv (db1, ps)" by simp
  from auth_steps_inv [OF assms(6) this] have g: "users_le (ac_users db1) (ac_users db')"
    by (simp add: grows_def)
  have "\<exists>u1. find_unique u_id i (ac_users db1) = Some u1 \<and> u_authVersion u < u_authVersion u1"
    using assms(2,5) find_unique_Some_D [OF assms(2)]
    by (auto simp: disableUser_write_def replaceUserRoles_write_def Let_def find_unique_update_many)
  with g obtain u' where u': "find_unique u_id i (ac_users db') = Some u'" "u_authVersion u < u_authVersion u'"
    unfolding users_le_def by (meson less_le_trans)
  show ?thesis
    using u' assms(3,4)
    by (auto simp: jwt_validate_def find_Some_iff split: option.split)
qed


subsection \<open>Locking\<close>

text \<open>Serial attempts with one email; ids and token of a login that is refused do not matter.\<close>

fun attempts ::
  "auth_env \<Rightarrow> string \<Rightarrow> (string \<times> auth_context \<times> time) list \<Rightarrow> auth_db \<Rightarrow> auth_db" where
  "attempts env email [] db = db"
| "attempts env email ((pw, cx, now) # as) db =
     attempts env email as (snd (login env [] [] [] email pw cx now db))"

text \<open>The same attempts when each read the user before any was recorded.\<close>

fun parallel_attempts ::
  "auth_env \<Rightarrow> string \<Rightarrow> user_snapshot option \<Rightarrow> (string \<times> auth_context \<times> time) list \<Rightarrow> auth_db \<Rightarrow> auth_db" where
  "parallel_attempts env email snap [] db = db"
| "parallel_attempts env email snap ((pw, cx, now) # as) db =
     parallel_attempts env email snap as (snd (login_finish env [] [] [] email pw snap cx now db))"

abbreviation by_email :: "auth_db \<Rightarrow> string \<Rightarrow> user_row option" where
  "by_email db email \<equiv> find_unique u_email (normalizeEmail email) (ac_users db)"

lemma login_read_alt: "login_read email db = map_option (snapshot_of db) (by_email db email)"
  by (simp add: login_read_def find_unique_def)

text \<open>What one wrong password does to the user it names.\<close>

lemma wrong_password_user:
  assumes "snap = Some s" and "\<not> en_verify env (u_passwordHash (us_user s)) pw"
    and "by_email db email = Some u" and "u_id u = u_id (us_user s)"
  shows "fst (login_finish env sid tid raw email pw snap cx now db) = Inl (Unauthorized ''AUTH_INVALID_CREDENTIALS'')"
    and "by_email (snd (login_finish env sid tid raw email pw snap cx now db)) email =
      Some (if u_failedLoginCount (us_user s) + 1 \<ge> en_maxFailed env
            then u\<lparr>u_failedLoginCount := 0, u_lockedUntil := Some (now + en_lockMinutes env * 60000)\<rparr>
            else u\<lparr>u_failedLoginCount := u_failedLoginCount u + 1\<rparr>)"
  using assms
  by (simp_all add: login_finish_def login_valid_def login_refuse_def registerFailure_def Let_def
      find_unique_update_many)

lemma login_wrong:
  assumes "by_email db email = Some u" and "\<not> en_verify env (u_passwordHash u) pw"
  shows "by_email (snd (login env sid tid raw email pw cx now db)) email =
    Some (if u_failedLoginCount u + 1 \<ge> en_maxFailed env
          then u\<lparr>u_failedLoginCount := 0, u_lockedUntil := Some (now + en_lockMinutes env * 60000)\<rparr>
          else u\<lparr>u_failedLoginCount := u_failedLoginCount u + 1\<rparr>)"
proof -
  let ?s = "snapshot_of db u"
  have s: "login_read email db = Some ?s" "us_user ?s = u"
    by (simp_all add: login_read_alt assms(1) snapshot_of_def)
  show ?thesis
    unfolding login_def by (rule wrong_password_user(2) [OF s(1), unfolded s(2), OF assms(2,1) refl])
qed

lemma attempts_append:
  "attempts env email (as @ bs) db = attempts env email bs (attempts env email as db)"
  by (induction env email as db rule: attempts.induct) simp_all

lemma attempts_count:
  assumes "by_email db email = Some u"
    and "\<forall>a\<in>set as. \<not> en_verify env (u_passwordHash u) (fst a)"
    and "u_failedLoginCount u + int (length as) < en_maxFailed env"
  shows "by_email (attempts env email as db) email =
    Some (u\<lparr>u_failedLoginCount := u_failedLoginCount u + int (length as)\<rparr>)"
  using assms
proof (induction as arbitrary: db u)
  case (Cons a as)
  obtain pw cx now where a: "a = (pw, cx, now)" by (cases a)
  let ?db = "snd (login env [] [] [] email pw cx now db)"
  have "by_email ?db email = Some (u\<lparr>u_failedLoginCount := u_failedLoginCount u + 1\<rparr>)"
    using login_wrong [OF Cons.prems(1), of env pw "[]" "[]" "[]" cx now] Cons.prems(2,3) a by simp
  from Cons.IH [OF this] Cons.prems show ?case by (simp add: a algebra_simps)
qed simp

text \<open>
  Lock-out: the wrong password that makes the failures reach the configured number locks the
  account, and for the lock time the right password is refused with status 423.
\<close>

theorem account_locks:
  assumes "by_email db email = Some u" and "u_status u = U_ACTIVE"
    and "\<forall>a\<in>set (as @ [(pwl, cxl, nowl)]). \<not> en_verify env (u_passwordHash u) (fst a)"
    and "u_failedLoginCount u + int (length as) + 1 = en_maxFailed env"
    and "en_verify env (u_passwordHash u) pw" and "now < nowl + en_lockMinutes env * 60000"
  shows "fst (login env sid tid raw email pw cx now (attempts env email (as @ [(pwl, cxl, nowl)]) db))
    = Inl (Locked ''ACCOUNT_TEMPORARILY_LOCKED'')"
proof -
  let ?d = "attempts env email as db"
  let ?u = "u\<lparr>u_failedLoginCount := u_failedLoginCount u + int (length as)\<rparr>"
  from attempts_count [OF assms(1), of as env] assms(3,4) have u: "by_email ?d email = Some ?u" by simp
  let ?d1 = "snd (login env [] [] [] email pwl cxl nowl ?d)"
  have "by_email ?d1 email =
    Some (?u\<lparr>u_failedLoginCount := 0, u_lockedUntil := Some (nowl + en_lockMinutes env * 60000)\<rparr>)"
    using login_wrong [OF u, of env pwl "[]" "[]" "[]" cxl nowl] assms(3,4) by simp
  with assms(2,5,6) show ?thesis
    by (simp add: attempts_append login_def login_read_alt login_finish_def login_valid_def snapshot_of_def)
qed

text \<open>
  The lock does not stop guessing: while an account is locked the answer still tells a right
  password (423) from a wrong one (401).
\<close>

theorem locked_account_password_oracle:
  assumes "by_email db email = Some u" and "u_status u = U_ACTIVE"
    and "u_lockedUntil u = Some t" and "now < t"
  shows "fst (login env sid tid raw email pw cx now db) =
    (if en_verify env (u_passwordHash u) pw then Inl (Locked ''ACCOUNT_TEMPORARILY_LOCKED'')
     else Inl (Unauthorized ''AUTH_INVALID_CREDENTIALS''))"
  using assms
  by (simp add: login_def login_read_alt login_finish_def login_valid_def snapshot_of_def Let_def)

text \<open>
  C19. Attempts in parallel escape the lock. Whether to lock is decided on the count that was read:
  where that count is at least two below the maximum, any number of wrong passwords that have read
  the user at the same time leaves the user as it was but for the count, so an account that was
  unlocked stays unlocked, as none of them sees that the limit is reached; the count they leave is
  the old one and one for each of them, so with enough of them it is past the limit. A count read
  that is one below the maximum is left out: there the code locks.
\<close>

theorem parallel_guesses_never_lock:
  assumes "by_email db email = Some u" and "\<forall>a\<in>set as. \<not> en_verify env (u_passwordHash u) (fst a)"
    and "u_failedLoginCount u + 1 < en_maxFailed env"
  shows "by_email (parallel_attempts env email (login_read email db) as db) email =
    Some (u\<lparr>u_failedLoginCount := u_failedLoginCount u + int (length as)\<rparr>)"
proof -
  have "by_email (parallel_attempts env email (Some s) as d) email =
      Some (v\<lparr>u_failedLoginCount := u_failedLoginCount v + int (length as)\<rparr>)"
    if "by_email d email = Some v" "u_id v = u_id (us_user s)" "us_user s = u" for d v s
    using that assms(2)
  proof (induction as arbitrary: d v)
    case (Cons a as)
    obtain pw cx now where a: "a = (pw, cx, now)" by (cases a)
    from wrong_password_user(2) [OF refl _ Cons.prems(1,2), of env pw "[]" "[]" "[]" cx now]
      Cons.prems(3,4) assms(3) a
    have "by_email (snd (login_finish env [] [] [] email pw (Some s) cx now d)) email =
      Some (v\<lparr>u_failedLoginCount := u_failedLoginCount v + 1\<rparr>)" by simp
    from Cons.IH [OF this] Cons.prems show ?case by (simp add: a algebra_simps)
  qed simp
  from this [OF assms(1)] assms(1) show ?thesis by (simp add: login_read_alt snapshot_of_def)
qed


section \<open>Instances\<close>

definition demo_env :: auth_env where
  "demo_env = \<lparr>en_verify = (\<lambda>h p. h = p), en_dummyHash = ''none'', en_emailHmac = id, en_tokenHmac = id,
     en_sessionHours = 12, en_idleMinutes = 30, en_maxFailed = 3, en_lockMinutes = 15\<rparr>"

definition demo_cx :: auth_context where
  "demo_cx = \<lparr>xc_requestId = ''req'', xc_ipAddress = None, xc_userAgent = None, xc_actorUserId = None\<rparr>"

text \<open>User a logs in and refreshes once.\<close>

definition demo_login :: auth_db where
  "demo_login = snd (login demo_env ''s1'' ''t1'' ''raw1'' ''a'' ''h'' demo_cx 0 demo_accounts)"

definition demo_refresh :: auth_db where
  "demo_refresh = snd (refresh demo_env ''t2'' ''raw2'' (Some ''raw1'') demo_cx 1000 demo_login)"

definition demo_reuse :: "(http_error + token_result) \<times> auth_db" where
  "demo_reuse = refresh demo_env ''t3'' ''raw3'' (Some ''raw1'') demo_cx 2000 demo_refresh"

definition demo_claims :: access_claims where
  "demo_claims = issueAccessToken ''a'' ''s1'' 1"

lemma demo_auth_inv: "auth_inv (demo_accounts, [])"
  by (simp add: auth_inv_def sessions_inv_def demo_accounts_def chain.exclusive_Nil one_successor_def)

lemma login_steps:
  "auth_steps env hp (db, ps) (snd (login env sid tid raw email pw cx now db), ps)"
proof -
  from login_begin [of env hp db ps email pw]
  have "auth_steps env hp (db, ps) (db, AP_Login email pw (login_read email db) # ps)" by blast
  moreover have "auth_step env hp (db, [] @ AP_Login email pw (login_read email db) # ps)
      (snd (login_finish env sid tid raw email pw (login_read email db) cx now db), [] @ ps)"
    by (rule login_end)
  ultimately show ?thesis by (simp add: login_def rtranclp.rtrancl_into_rtrancl)
qed

lemma demo_login_run: "auth_steps demo_env id (demo_accounts, []) (demo_login, [])"
  unfolding demo_login_def by (rule login_steps)

lemma demo_run: "auth_steps demo_env id (demo_accounts, []) (demo_refresh, [])"
  using rtranclp_trans [OF demo_login_run refresh_steps] unfolding demo_refresh_def .

theorem sessions_safe_witness:
  "count_rows (\<lambda>t. t_sessionId t = ''s1'' \<and> token_live t) (ac_tokens demo_refresh) \<le> 1
   \<and> length (ac_tokens demo_refresh) = 2"
proof
  show "count_rows (\<lambda>t. t_sessionId t = ''s1'' \<and> token_live t) (ac_tokens demo_refresh) \<le> 1"
    using sessions_safe [OF demo_auth_inv demo_run] by blast
  show "length (ac_tokens demo_refresh) = 2" by code_simp
qed

theorem sessions_refine_ledger_witness:
  "ledger_step\<^sup>*\<^sup>* (ledger demo_accounts) (ledger demo_refresh)
   \<and> ledger demo_accounts ''s1'' = None \<and> ledger demo_refresh ''s1'' = Some (S_Open ''t2'')"
proof (intro conjI)
  show "ledger_step\<^sup>*\<^sup>* (ledger demo_accounts) (ledger demo_refresh)"
    using sessions_refine_ledger [OF demo_run demo_auth_inv] by simp
  show "ledger demo_accounts ''s1'' = None" by code_simp
  show "ledger demo_refresh ''s1'' = Some (S_Open ''t2'')" by code_simp
qed

theorem reuse_revokes_forever_witness:
  "(\<exists>u. jwt_validate demo_claims 2000 demo_refresh = Inr u)
   \<and> jwt_validate demo_claims 3000 (snd demo_reuse) = Inl (Unauthorized '''')"
proof
  show "\<exists>u. jwt_validate demo_claims 2000 demo_refresh = Inr u"
  proof -
    have "isl (jwt_validate demo_claims 2000 demo_refresh) = False" by code_simp
    then show ?thesis by (cases "jwt_validate demo_claims 2000 demo_refresh") simp_all
  qed
  let ?r = "the (refresh_read demo_env (Some ''raw1'') demo_refresh)"
  have inv: "auth_inv (demo_refresh, [])" using auth_steps_inv [OF demo_run demo_auth_inv] by blast
  have read: "refresh_read demo_env (Some ''raw1'') demo_refresh = Some ?r" by code_simp
  have used: "t_usedAt (rf_token ?r) \<noteq> None" by code_simp
  have sid: "cl_sid demo_claims = s_id (rf_session ?r)" by code_simp
  from reuse_revokes_forever [OF inv read used rtranclp.rtrancl_refl, where tid = "''t3''" and replacement = "''raw3''" and cx = demo_cx and now = 2000] sid
  show "jwt_validate demo_claims 3000 (snd demo_reuse) = Inl (Unauthorized '''')"
    unfolding demo_reuse_def by blast
qed

theorem old_claims_refused_witness:
  "jwt_validate demo_claims 2000 (disableUser_write ''a'' (ctx_of ''b'') 1500 demo_login) = Inl (Unauthorized '''')"
proof (rule old_claims_refused [where i = "''a''" and db = demo_login and ps = "[]", OF _ _ _ _ disjI1 [OF refl] rtranclp.rtrancl_refl])
  show "auth_inv (demo_login, [])" using auth_steps_inv [OF demo_login_run demo_auth_inv] by blast
  show "find_unique u_id ''a'' (ac_users demo_login) = Some (the (find_unique u_id ''a'' (ac_users demo_login)))"
    by code_simp
  show "cl_sub demo_claims = ''a''" by code_simp
  show "cl_authVersion demo_claims \<le> u_authVersion (the (find_unique u_id ''a'' (ac_users demo_login)))"
    by code_simp
qed

theorem account_locks_witness:
  "fst (login demo_env ''s'' ''t'' ''r'' ''a'' ''h'' demo_cx 5
     (attempts demo_env ''a'' [(''x'', demo_cx, 1), (''y'', demo_cx, 2), (''z'', demo_cx, 3)] demo_accounts))
   = Inl (Locked ''ACCOUNT_TEMPORARILY_LOCKED'')"
proof -
  have "by_email demo_accounts ''a'' = Some (demo_user ''a'')" by code_simp
  from account_locks [OF this, where as = "[(''x'', demo_cx, 1), (''y'', demo_cx, 2)]" and pwl = "''z''" and cxl = demo_cx and nowl = 3
      and env = demo_env and pw = "''h''" and now = 5]
  show ?thesis by (simp add: demo_user_def demo_env_def)
qed

theorem locked_account_password_oracle_witness:
  "let db = attempts demo_env ''a'' [(''x'', demo_cx, 1), (''y'', demo_cx, 2), (''z'', demo_cx, 3)] demo_accounts
   in fst (login demo_env ''s'' ''t'' ''r'' ''a'' ''w'' demo_cx 5 db) = Inl (Unauthorized ''AUTH_INVALID_CREDENTIALS'')"
proof -
  let ?db = "attempts demo_env ''a'' [(''x'', demo_cx, 1), (''y'', demo_cx, 2), (''z'', demo_cx, 3)] demo_accounts"
  let ?u = "(demo_user ''a'')\<lparr>u_lockedUntil := Some 900003\<rparr>"
  have "by_email ?db ''a'' = Some ?u" by code_simp
  from locked_account_password_oracle [OF this, where t = 900003 and now = 5 and env = demo_env and pw = "''w''"]
  show ?thesis by (simp add: demo_user_def demo_env_def)
qed

theorem parallel_guesses_never_lock_witness:
  "map_option u_failedLoginCount (by_email (parallel_attempts demo_env ''a'' (login_read ''a'' demo_accounts)
     [(''v'', demo_cx, 1), (''w'', demo_cx, 1), (''x'', demo_cx, 2), (''y'', demo_cx, 2), (''z'', demo_cx, 3)]
     demo_accounts) ''a'') = Some 5"
proof -
  have "by_email demo_accounts ''a'' = Some (demo_user ''a'')" by code_simp
  from parallel_guesses_never_lock [OF this, of
      "[(''v'', demo_cx, 1), (''w'', demo_cx, 1), (''x'', demo_cx, 2), (''y'', demo_cx, 2), (''z'', demo_cx, 3)]" demo_env]
  show ?thesis by (simp add: demo_user_def demo_env_def)
qed

end
