(* ===== verification/Doubles.thy ===== *)
theory Doubles
  imports Complex_Main "HOL-Library.Log_Nat"
begin

text \<open>
  JavaScript numbers. A finite number is the rational it stands for, and each arithmetic
  operation rounds its exact result to 53 binary digits, ties to even. Overflow, the subnormal
  numbers and NaN are left out: the amounts of money the services compute with are far from
  both ends. Whole numbers below \<open>2 ^ 53\<close> are exact, which is what the theorems about money use.
\<close>

section \<open>Rounding\<close>

definition round_even :: "rat \<Rightarrow> int" where
  "round_even x =
     (let n = \<lfloor>x\<rfloor>; d = x - of_int n in if d < 1/2 \<or> (d = 1/2 \<and> even n) then n else n + 1)"

definition pow2 :: "int \<Rightarrow> rat" where
  "pow2 e = (if 0 \<le> e then 2 ^ nat e else 1 / 2 ^ nat (- e))"

text \<open>The double nearest to a rational.\<close>

definition dbl :: "rat \<Rightarrow> rat" where
  "dbl x =
     (let (p, q) = quotient_of \<bar>x\<bar>;
          e0 = bitlen p - bitlen q - 53;
          e = (if 2 ^ 53 \<le> \<bar>x\<bar> * pow2 (- e0) then e0 + 1 else e0)
      in sgn x * of_int (round_even (\<bar>x\<bar> * pow2 (- e))) * pow2 e)"

text \<open>\<open>Math.round\<close>: the nearest whole number, ties upwards.\<close>

definition js_round :: "rat \<Rightarrow> int" where
  "js_round x = \<lfloor>x + 1/2\<rfloor>"

section \<open>Whole numbers\<close>

lemma round_even_of_int [simp]: "round_even (of_int n) = n"
  by (simp add: round_even_def Let_def)

lemma js_round_of_int [simp]: "js_round (of_int n) = n"
  by (simp add: js_round_def) linarith

lemma pow2_neg: "e \<le> 0 \<Longrightarrow> pow2 (- e) = of_int (2 ^ nat (- e))"
  by (simp add: pow2_def)

lemma pow2_inverse: "pow2 (- e) * pow2 e = 1"
  by (auto simp: pow2_def)

lemma bitlen_le_53: "0 \<le> n \<Longrightarrow> n < 2 ^ 53 \<Longrightarrow> bitlen n \<le> 53"
  by (cases "n = 0") (simp_all add: bitlen_le_iff_power)

lemma dbl_of_int:
  assumes "\<bar>n\<bar> < 2 ^ 53"
  shows "dbl (of_int n) = of_int n"
proof -
  let ?x = "of_int n :: rat" and ?e0 = "bitlen \<bar>n\<bar> - bitlen 1 - 53"
  let ?e = "if 2 ^ 53 \<le> \<bar>?x\<bar> * pow2 (- ?e0) then ?e0 + 1 else ?e0"
  have q: "quotient_of \<bar>?x\<bar> = (\<bar>n\<bar>, 1)"
    by (simp add: Fract_of_int_quotient quotient_of_Fract normalize_def flip: of_int_abs)
  have "bitlen \<bar>n\<bar> \<le> 53" using assms by (intro bitlen_le_53) simp_all
  moreover have "bitlen 1 = 1" by (simp add: bitlen_def floorlog_def)
  ultimately have "?e \<le> 0" by simp
  then have "\<bar>?x\<bar> * pow2 (- ?e) = of_int (\<bar>n\<bar> * 2 ^ nat (- ?e))"
    by (simp only: pow2_neg of_int_mult of_int_abs)
  then have r: "of_int (round_even (\<bar>?x\<bar> * pow2 (- ?e))) = \<bar>?x\<bar> * pow2 (- ?e)"
    by (simp only: round_even_of_int)
  have "dbl ?x = sgn ?x * of_int (round_even (\<bar>?x\<bar> * pow2 (- ?e))) * pow2 ?e"
    by (simp only: dbl_def q Let_def prod.case)
  also have "\<dots> = sgn ?x * (\<bar>?x\<bar> * (pow2 (- ?e) * pow2 ?e))"
    by (simp only: r mult.assoc)
  also have "\<dots> = ?x" by (simp only: pow2_inverse mult_1_right sgn_mult_abs)
  finally show ?thesis .
qed

text \<open>Amounts in whole rupees below the limit of the columns (\<open>Decimal(15, 2)\<close>).\<close>

definition whole :: "rat \<Rightarrow> bool" where
  "whole x \<longleftrightarrow> x \<in> \<int> \<and> 0 \<le> x \<and> x < 10 ^ 13"

lemma wholeE:
  assumes "whole x"
  obtains n where "x = of_int n" "0 \<le> n" "n < 10 ^ 13"
proof -
  from assms obtain n where n: "x = of_int n" by (auto simp: whole_def elim: Ints_cases)
  with assms have "(0::rat) \<le> of_int n" "of_int n < (of_int (10 ^ 13) :: rat)"
    by (simp_all add: whole_def)
  then have "0 \<le> n" "n < 10 ^ 13" by (simp_all only: of_int_0_le_iff of_int_less_iff)
  with n show ?thesis by (rule that)
qed

lemma whole_of_int: "0 \<le> n \<Longrightarrow> n < 10 ^ 13 \<Longrightarrow> whole (of_int n)"
proof -
  assume "0 \<le> n" "n < 10 ^ 13"
  then have "(of_int n :: rat) < of_int (10 ^ 13)" by (simp only: of_int_less_iff)
  with \<open>0 \<le> n\<close> show ?thesis by (simp add: whole_def)
qed

text \<open>Sums and differences of whole amounts are exact.\<close>

lemma dbl_whole [simp]: "whole x \<Longrightarrow> dbl x = x"
  by (erule wholeE) (simp add: dbl_of_int)

lemma dbl_add:
  assumes "whole x" and "whole y"
  shows "dbl (x + y) = x + y"
proof -
  from assms(1) obtain m where m: "x = of_int m" "0 \<le> m" "m < 10 ^ 13" by (rule wholeE)
  from assms(2) obtain n where n: "y = of_int n" "0 \<le> n" "n < 10 ^ 13" by (rule wholeE)
  have "dbl (of_int (m + n)) = of_int (m + n)" by (rule dbl_of_int) (use m n in simp)
  then show ?thesis by (simp only: m(1) n(1) of_int_add)
qed

lemma dbl_diff:
  assumes "whole x" and "whole y"
  shows "dbl (x - y) = x - y"
proof -
  from assms(1) obtain m where m: "x = of_int m" "0 \<le> m" "m < 10 ^ 13" by (rule wholeE)
  from assms(2) obtain n where n: "y = of_int n" "0 \<le> n" "n < 10 ^ 13" by (rule wholeE)
  have "dbl (of_int (m - n)) = of_int (m - n)" by (rule dbl_of_int) (use m n in simp)
  then show ?thesis by (simp only: m(1) n(1) of_int_diff)
qed

lemma whole_diff: "whole x \<Longrightarrow> whole y \<Longrightarrow> y \<le> x \<Longrightarrow> whole (x - y)"
  by (simp add: whole_def)

lemma whole_le: "whole x \<Longrightarrow> y \<in> \<int> \<Longrightarrow> 0 \<le> y \<Longrightarrow> y \<le> x \<Longrightarrow> whole y"
  by (simp add: whole_def)

lemma whole_min: "whole x \<Longrightarrow> whole y \<Longrightarrow> whole (min x y)"
  by (simp add: min_def)

lemma whole_0 [simp]: "whole 0"
  by (simp add: whole_def)

lemma whole_max_diff: "whole x \<Longrightarrow> whole y \<Longrightarrow> whole (max 0 (x - y))"
  by (auto simp: max_def whole_diff)

section \<open>The rounding error\<close>

lemma round_even_error: "\<bar>of_int (round_even x) - x\<bar> \<le> (1/2 :: rat)"
proof -
  have "of_int \<lfloor>x\<rfloor> \<le> x" "x < of_int \<lfloor>x\<rfloor> + 1" by linarith+
  then show ?thesis by (auto simp: round_even_def Let_def)
qed

lemma pow2_pos [simp]: "0 < pow2 e"
  by (simp add: pow2_def)

lemma pow2_add: "pow2 (a + b) = pow2 a * pow2 b"
proof -
  have "pow2 e = 2 powi e" for e :: int
    by (simp add: pow2_def power_int_def field_simps)
  then show ?thesis by (simp add: power_int_add)
qed

lemma pow2_nat [simp]: "pow2 (int n) = 2 ^ n"
  by (simp add: pow2_def)

lemma bitlen_range:
  assumes "0 < (n :: int)"
  shows "pow2 (bitlen n - 1) \<le> of_int n" "of_int n < pow2 (bitlen n)"
proof -
  have b: "2 ^ nat (bitlen n - 1) \<le> n \<and> n < 2 ^ nat (bitlen n)" by (rule bitlen_bounds [OF assms])
  have "1 \<le> bitlen n" using assms by (metis bitlen_eq_zero_iff bitlen_nonneg int_one_le_iff_zero_less le_less not_less)
  then have "pow2 (bitlen n - 1) = of_int (2 ^ nat (bitlen n - 1))" "pow2 (bitlen n) = of_int (2 ^ nat (bitlen n))"
    by (simp_all add: pow2_def)
  with b show "pow2 (bitlen n - 1) \<le> of_int n" "of_int n < pow2 (bitlen n)" by (simp_all only: of_int_le_iff of_int_less_iff)
qed

text \<open>The scaled number has 53 binary digits before the point.\<close>

lemma dbl_scale:
  assumes "x \<noteq> 0" and "quotient_of \<bar>x\<bar> = (p, q)" and "e0 = bitlen p - bitlen q - 53"
    and "e = (if 2 ^ 53 \<le> \<bar>x\<bar> * pow2 (- e0) then e0 + 1 else e0)"
  shows "2 ^ 52 \<le> \<bar>x\<bar> * pow2 (- e)"
proof -
  have x: "\<bar>x\<bar> = of_int p / of_int q" and q: "0 < q" using quotient_of_div [OF assms(2)] quotient_of_denom_pos [OF assms(2)] by simp_all
  have "0 < of_int p / (of_int q :: rat)" using assms(1) by (simp flip: x)
  then have p: "0 < p" using q by (simp add: zero_less_divide_iff)
  have "pow2 (bitlen p - 1) * of_int q \<le> of_int p * pow2 (bitlen q)"
    by (intro mult_mono) (use bitlen_range [OF p] bitlen_range [OF q] p q in auto)
  moreover have "pow2 (bitlen p - 1) = 2 ^ 52 * pow2 e0 * pow2 (bitlen q)"
  proof -
    have "bitlen p - 1 = int 52 + (e0 + bitlen q)" by (simp add: assms(3))
    then show ?thesis by (simp only: pow2_add pow2_nat mult.assoc)
  qed
  ultimately have "2 ^ 52 * pow2 e0 * of_int q * pow2 (bitlen q) \<le> of_int p * pow2 (bitlen q)" by (simp add: ac_simps)
  then have "2 ^ 52 * pow2 e0 * of_int q \<le> of_int p" by simp
  then have "2 ^ 52 * pow2 e0 \<le> \<bar>x\<bar>" using q by (simp add: x field_simps)
  then have *: "2 ^ 52 * pow2 e0 * pow2 (- e0) \<le> \<bar>x\<bar> * pow2 (- e0)" by (rule mult_right_mono) (simp add: less_imp_le)
  have "2 ^ 52 * pow2 e0 * pow2 (- e0) = (2 ^ 52 :: rat)" using pow2_inverse [of e0] by (simp add: mult.assoc mult.commute [of "pow2 e0"])
  with * have low: "2 ^ 52 \<le> \<bar>x\<bar> * pow2 (- e0)" by (simp only:)
  show ?thesis
  proof (cases "2 ^ 53 \<le> \<bar>x\<bar> * pow2 (- e0)")
    case True
    have "pow2 (- e0) = pow2 (- (e0 + 1)) * 2" using pow2_add [of "- (e0 + 1)" 1] by (simp add: pow2_def [of 1])
    with True have "2 ^ 53 \<le> \<bar>x\<bar> * pow2 (- (e0 + 1)) * 2" by (simp only: mult.assoc)
    with True assms(4) show ?thesis by simp
  qed (use assms(4) low in simp)
qed

lemma dbl_error: "\<bar>dbl x - x\<bar> \<le> \<bar>x\<bar> / 2 ^ 53"
proof (cases "x = 0")
  case True
  then show ?thesis using dbl_of_int [of 0] by simp
next
  case False
  obtain p q where pq: "quotient_of \<bar>x\<bar> = (p, q)" by (cases "quotient_of \<bar>x\<bar>")
  define e0 where "e0 = bitlen p - bitlen q - 53"
  define e where "e = (if 2 ^ 53 \<le> \<bar>x\<bar> * pow2 (- e0) then e0 + 1 else e0)"
  let ?m = "\<bar>x\<bar> * pow2 (- e)"
  have d: "dbl x = sgn x * of_int (round_even ?m) * pow2 e"
    unfolding dbl_def pq Let_def prod.case e0_def [symmetric] e_def [symmetric] ..
  have x: "x = sgn x * ?m * pow2 e" using pow2_inverse [of e] by (simp add: mult.assoc sgn_mult_abs)
  have "dbl x - x = sgn x * (of_int (round_even ?m) - ?m) * pow2 e"
    by (subst x) (simp add: d algebra_simps)
  then have "\<bar>dbl x - x\<bar> = \<bar>of_int (round_even ?m) - ?m\<bar> * pow2 e" using False by (simp add: abs_mult abs_of_pos)
  also have "\<dots> \<le> 1/2 * pow2 e" by (rule mult_right_mono [OF round_even_error]) (simp add: less_imp_le)
  also have "\<dots> \<le> \<bar>x\<bar> / 2 ^ 53"
  proof -
    have "2 ^ 52 * pow2 e \<le> ?m * pow2 e"
      by (rule mult_right_mono [OF dbl_scale [OF False pq e0_def e_def]]) (simp add: less_imp_le)
    moreover have "?m * pow2 e = \<bar>x\<bar>" using pow2_inverse [of e] by (simp add: mult.assoc)
    ultimately have "2 ^ 52 * pow2 e \<le> \<bar>x\<bar>" by (simp only:)
    then show ?thesis by simp
  qed
  finally show ?thesis .
qed

lemma dbl_nonneg: "0 \<le> x \<Longrightarrow> 0 \<le> dbl x"
proof -
  have "0 \<le> (y :: rat) \<Longrightarrow> 0 \<le> round_even y" for y by (simp add: round_even_def Let_def)
  then show "0 \<le> x \<Longrightarrow> 0 \<le> dbl x"
    unfolding dbl_def by (cases "quotient_of \<bar>x\<bar>") (auto simp: Let_def sgn_if less_imp_le intro!: mult_nonneg_nonneg)
qed

lemma dbl_le: "0 \<le> x \<Longrightarrow> dbl x \<le> x * (1 + 1 / 2 ^ 53)"
  using dbl_error [of x] by (simp add: algebra_simps abs_if split: if_splits)

end
