(* ===== verification/JsText.thy ===== *)
theory JsText
  imports Accounts
begin

text \<open>
  Strings as the services handle them: what counts as absent, upper case, trimming to a column's
  length. A string is a list of bytes here, so case and white space are those of ASCII.
\<close>

text \<open>A string that JavaScript takes as false is as good as absent.\<close>

definition truthy_str :: "string option \<Rightarrow> string option" where
  "truthy_str s = (case s of Some [] \<Rightarrow> None | _ \<Rightarrow> s)"

definition upper_char :: "char \<Rightarrow> char" where
  "upper_char c = (if is_lower c then char_of ((of_char c :: nat) - 32) else c)"

definition to_upper :: "string \<Rightarrow> string" where
  "to_upper = map upper_char"

definition to_lower :: "string \<Rightarrow> string" where
  "to_lower = map lower_char"

text \<open>\<open>replace(/\s+/g, sep)\<close>, \<open>split\<close>, and numbers in decimal.\<close>

fun squash_spaces :: "char \<Rightarrow> bool \<Rightarrow> string \<Rightarrow> string" where
  "squash_spaces sep prev [] = []"
| "squash_spaces sep prev (c # s) =
     (if is_space c then (if prev then squash_spaces sep True s else sep # squash_spaces sep True s)
      else c # squash_spaces sep False s)"

fun split_on :: "char \<Rightarrow> string \<Rightarrow> string list" where
  "split_on d [] = [[]]"
| "split_on d (c # s) =
     (if c = d then [] # split_on d s
      else case split_on d s of [] \<Rightarrow> [[c]] | w # ws \<Rightarrow> (c # w) # ws)"

fun show_nat :: "nat \<Rightarrow> string" where
  "show_nat n = (if n < 10 then [char_of (48 + n)] else show_nat (n div 10) @ [char_of (48 + n mod 10)])"

declare show_nat.simps [simp del]

definition show_int :: "int \<Rightarrow> string" where
  "show_int i = (if i < 0 then CHR ''-'' # show_nat (nat (- i)) else show_nat (nat i))"

text \<open>What is printed in decimal reads back.\<close>

lemma show_nat_digits: "show_nat n \<noteq> [] \<and> list_all is_digit (show_nat n)"
proof (induction n rule: show_nat.induct)
  case (1 n)
  have d: "is_digit (char_of (48 + m))" if "m < 10" for m :: nat
    using that by (simp add: is_digit_def of_char_of)
  show ?case using 1 d by (cases "n < 10") (simp_all add: show_nat.simps [of n])
qed

lemma digits_value_snoc: "digits_value (s @ [c]) = 10 * digits_value s + (of_char c - 48)"
  by (simp add: digits_value_def)

lemma digits_value_show_nat: "digits_value (show_nat n) = int n"
proof (induction n rule: show_nat.induct)
  case (1 n)
  have d: "(of_char (char_of (48 + m) :: char) :: int) = 48 + int m" if "m < 10" for m :: nat
  proof -
    have "int (of_char (char_of (48 + m) :: char)) = int (48 + m)" using that by (simp add: of_char_of)
    then show ?thesis by (simp only: of_nat_of_char of_nat_add of_nat_numeral)
  qed
  show ?case
  proof (cases "n < 10")
    case True
    then show ?thesis by (simp add: show_nat.simps [of n] digits_value_def d)
  next
    case False
    have "10 * int (n div 10) + int (n mod 10) = int n" by presburger
    with False 1 show ?thesis by (simp add: show_nat.simps [of n] digits_value_snoc d)
  qed
qed

lemma show_int_nonneg: "0 \<le> n \<Longrightarrow> show_int n = show_nat (nat n)"
  by (simp add: show_int_def)

lemma truthy_str_None [simp]: "truthy_str None = None"
  by (simp add: truthy_str_def)

lemma truthy_str_Some: "truthy_str x = Some s \<longleftrightarrow> x = Some s \<and> s \<noteq> []"
  by (cases x) (auto simp: truthy_str_def split: list.split)

text \<open>Days in milliseconds.\<close>

definition DAY_MS :: int where
  "DAY_MS = 86400000"

lemma DAY_MS_pos [simp]: "0 < DAY_MS"
  by (simp add: DAY_MS_def)

end
