(* ===== verification/Repayments.thy ===== *)
theory Repayments
  imports JsText Doubles
begin

text \<open>
  Repayment of a loan (modules/loan/loan.service.ts: the schedule, \<open>processRepayment\<close>,
  \<open>addLoanCharge\<close>, \<open>waiveLoanCharge\<close>).

  A repayment is one interactive transaction. It reads the loan, the instalment and the earlier
  repayments without locking them (\<open>repay_read\<close>), and writes values computed from what it read
  (\<open>repay_write\<close>); the database's default isolation lets another repayment come in between.
  \<open>processRepayment\<close> is the composition. Amounts are columns of two decimals, computed with as
  JavaScript numbers (theory Doubles); how a number is rounded into such a column is the
  database's and the parameter \<open>store\<close>. Messages keep their fixed part.
\<close>

section \<open>Data\<close>

record servicing_loan =
  sl_id :: int
  sl_lan :: string
  sl_applicationId :: int
  sl_status :: string

record instalment =
  rs_id :: int
  rs_lan :: string
  rs_number :: int
  rs_dueDate :: time
  rs_emi :: rat
  rs_interest :: rat
  rs_principal :: rat
  rs_status :: string
  rs_paid :: rat
  rs_remaining :: rat
  rs_paymentDate :: "time option"

record repayment_row =
  rp_id :: int
  rp_lan :: string
  rp_loanId :: int
  rp_paymentId :: string
  rp_amount :: rat
  rp_paymentDate :: time
  rp_mode :: string
  rp_reference :: string
  rp_unallocated :: rat

record allocation_row =
  al_repaymentId :: int
  al_lan :: string
  al_number :: int
  al_component :: string
  al_amount :: rat

record charge_row =
  ch_id :: int
  ch_lan :: string
  ch_loanId :: int
  ch_type :: string
  ch_amount :: rat
  ch_paid :: rat
  ch_remaining :: rat
  ch_status :: string
  ch_dueDate :: time
  ch_description :: "string option"

record waiver_row =
  wv_chargeId :: int
  wv_lan :: string
  wv_amount :: rat
  wv_by :: "ident option"
  wv_remarks :: "string option"

record repay_db =
  rd_loans :: "servicing_loan list"
  rd_schedule :: "instalment list"
  rd_repayments :: "repayment_row list"
  rd_allocations :: "allocation_row list"
  rd_charges :: "charge_row list"
  rd_waivers :: "waiver_row list"
  rd_applications :: "(int \<times> string) list"  \<comment> \<open>id, status\<close>
  rd_outbox :: "string list"  \<comment> \<open>notifications queued for the lender\<close>

section \<open>The schedule\<close>

text \<open>
  \<open>calculateRpsRows\<close>: one bullet instalment. \<open>calculateRps_interest\<close> is its interest,
  \<open>accepted_interest\<close> the interest that credit review stores as accepted, from the same inputs.
\<close>

definition calculateRps_interest :: "rat \<Rightarrow> rat \<Rightarrow> rat \<Rightarrow> int" where
  "calculateRps_interest amount annualRate tenureDays =
     js_round (dbl (dbl (amount * dbl (annualRate / 100)) * dbl (tenureDays / 365)))"

definition accepted_interest :: "rat \<Rightarrow> rat \<Rightarrow> rat \<Rightarrow> int" where
  "accepted_interest amount approvedRoi tenureDays =
     js_round (dbl (dbl (dbl (amount * approvedRoi) * tenureDays) / 36500))"

definition calculateRpsRows ::
  "(rat \<Rightarrow> rat) \<Rightarrow> int \<Rightarrow> string \<Rightarrow> rat \<Rightarrow> rat \<Rightarrow> int \<Rightarrow> time \<Rightarrow> time option \<Rightarrow> instalment list" where
  "calculateRpsRows store newId lan amount annualRate tenureDays disbursalDate firstRepaymentDate =
     (let interestVal = of_int (calculateRps_interest amount annualRate (of_int tenureDays));
          emiVal = dbl (amount + interestVal)
      in [\<lparr>rs_id = newId, rs_lan = lan, rs_number = 1,
           rs_dueDate = (case firstRepaymentDate of Some d \<Rightarrow> d | None \<Rightarrow> disbursalDate + tenureDays * DAY_MS),
           rs_emi = store emiVal, rs_interest = store interestVal, rs_principal = store amount,
           rs_status = ''PENDING'', rs_paid = 0, rs_remaining = store emiVal, rs_paymentDate = None\<rparr>])"

section \<open>A repayment\<close>

record repay_payload =
  py_installmentNumber :: int
  py_amount :: rat
  py_paymentId :: "string option"
  py_paymentMode :: "string option"
  py_reference :: "string option"

record repay_done =
  rr_paymentId :: string
  rr_remaining :: rat
  rr_status :: string
  rr_fullyPaid :: bool
  rr_applicationId :: int
  rr_repaymentId :: int

datatype repay_result =
    RP_Duplicate string string  \<comment> \<open>payment id, reference\<close>
  | RP_Done repay_done

text \<open>The split of an amount: interest first, then principal; the rest is left for charges.\<close>

definition waterfall :: "instalment \<Rightarrow> rat \<Rightarrow> rat \<times> rat \<times> rat" where
  "waterfall rps amount =
     (let interestDue = dbl (rs_interest rps); principalDue = dbl (rs_principal rps);
          paidSoFar = dbl (rs_paid rps);
          unpaidInterest = max 0 (dbl (interestDue - paidSoFar));
          allocInterest = (if unpaidInterest > 0 then min amount unpaidInterest else 0);
          left1 = (if unpaidInterest > 0 then dbl (amount - allocInterest) else amount);
          unpaidPrincipal = max 0 (dbl (principalDue - max 0 (dbl (paidSoFar - interestDue))));
          allocPrincipal = (if left1 > 0 \<and> unpaidPrincipal > 0 then min left1 unpaidPrincipal else 0)
      in (allocInterest, allocPrincipal,
          if left1 > 0 \<and> unpaidPrincipal > 0 then dbl (left1 - allocPrincipal) else left1))"

text \<open>The loop over the pending charges: the charges it updates, with what each was given.\<close>

definition pay_charge :: "(rat \<Rightarrow> rat) \<Rightarrow> rat \<Rightarrow> charge_row \<Rightarrow> charge_row" where
  "pay_charge store allocChg c =
     (let newRem = dbl (dbl (ch_remaining c) - allocChg) in
      c\<lparr>ch_paid := store (dbl (dbl (ch_paid c) + allocChg)), ch_remaining := store newRem,
        ch_status := (if newRem = 0 then ''PAID'' else ''PARTIAL'')\<rparr>)"

fun charge_loop :: "(rat \<Rightarrow> rat) \<Rightarrow> rat \<Rightarrow> charge_row list \<Rightarrow> (charge_row \<times> rat) list \<times> rat" where
  "charge_loop store unallocated [] = ([], unallocated)"
| "charge_loop store unallocated (c # cs) =
     (if unallocated \<le> 0 then ([], unallocated)
      else
        let allocChg = min unallocated (dbl (ch_remaining c));
            (rest, out) = charge_loop store (dbl (unallocated - allocChg)) cs
        in ((pay_charge store allocChg c, allocChg) # rest, out))"

definition pending_charges :: "string \<Rightarrow> charge_row list \<Rightarrow> charge_row list" where
  "pending_charges lan cs =
     sort_key ch_id (filter (\<lambda>c. ch_lan c = lan \<and> ch_status c \<in> {''PENDING'', ''PARTIAL''}) cs)"

definition write_charges :: "charge_row list \<Rightarrow> charge_row list \<Rightarrow> charge_row list" where
  "write_charges upd cs = map (\<lambda>c. case find_unique ch_id (ch_id c) upd of None \<Rightarrow> c | Some u \<Rightarrow> u) cs"

text \<open>The checks before the transaction.\<close>

definition repay_lan :: "string \<Rightarrow> string" where
  "repay_lan lanInput = trim_str lanInput"

definition repay_payload_check :: "string \<Rightarrow> repay_payload \<Rightarrow> http_error option" where
  "repay_payload_check lanInput p =
     (if repay_lan lanInput = [] then Some (BadRequest ''LAN is required.'')
      else if py_installmentNumber p < 1 then Some (BadRequest ''Valid installmentNumber is required.'')
      else if py_amount p \<le> 0 then Some (BadRequest ''Payment amount must be a positive number.'')
      else None)"

text \<open>What the transaction reads: a loan with its instalment, or an earlier repayment.\<close>

datatype repay_snapshot = RS_Duplicate repayment_row | RS_New servicing_loan instalment

definition repay_read :: "string \<Rightarrow> repay_payload \<Rightarrow> repay_db \<Rightarrow> http_error + repay_snapshot" where
  "repay_read lan p db =
     (case List.find (\<lambda>l. sl_lan l = lan) (rd_loans db) of
        None \<Rightarrow> Inl (NotFound ''Loan not found.'')
      | Some loan \<Rightarrow>
          (case List.find (\<lambda>r. rs_lan r = lan \<and> rs_number r = py_installmentNumber p) (rd_schedule db) of
             None \<Rightarrow> Inl (NotFound ''Installment not found.'')
           | Some rps \<Rightarrow>
               if dbl (rs_remaining rps) \<le> 0 \<or> rs_status rps = ''PAID''
               then Inl (BadRequest ''Installment is already fully paid.'')
               else
                 case (case truthy_str (py_reference p) of None \<Rightarrow> None
                       | Some r \<Rightarrow> List.find (\<lambda>x. rp_lan x = lan \<and> rp_reference x = r) (rd_repayments db)) of
                   Some x \<Rightarrow> Inr (RS_Duplicate x)
                 | None \<Rightarrow>
                     (case (case truthy_str (py_paymentId p) of None \<Rightarrow> None
                            | Some i \<Rightarrow> find_unique rp_paymentId i (rd_repayments db)) of
                        Some x \<Rightarrow> Inr (RS_Duplicate x)
                      | None \<Rightarrow> Inr (RS_New loan rps))))"

definition new_repayment ::
  "(rat \<Rightarrow> rat) \<Rightarrow> int \<Rightarrow> string \<Rightarrow> string \<Rightarrow> servicing_loan \<Rightarrow> repay_payload \<Rightarrow> time \<Rightarrow> repayment_row" where
  "new_repayment store rid genId lan loan p now =
     (let pid = (case truthy_str (py_paymentId p) of Some i \<Rightarrow> i | None \<Rightarrow> genId) in
      \<lparr>rp_id = rid, rp_lan = lan, rp_loanId = sl_id loan, rp_paymentId = pid,
       rp_amount = store (py_amount p), rp_paymentDate = now,
       rp_mode = (case truthy_str (py_paymentMode p) of Some m \<Rightarrow> m | None \<Rightarrow> ''EASEBUZZ''),
       rp_reference = (case truthy_str (py_reference p) of Some r \<Rightarrow> r | None \<Rightarrow> pid),
       rp_unallocated = 0\<rparr>)"

definition new_allocations ::
  "(rat \<Rightarrow> rat) \<Rightarrow> int \<Rightarrow> string \<Rightarrow> int \<Rightarrow> rat \<Rightarrow> rat \<Rightarrow> (charge_row \<times> rat) list \<Rightarrow> allocation_row list" where
  "new_allocations store rid lan n allocInterest allocPrincipal charges =
     (let row = (\<lambda>part a. \<lparr>al_repaymentId = rid, al_lan = lan, al_number = n,
                           al_component = part, al_amount = store a\<rparr>)
      in (if allocInterest > 0 then [row ''INTEREST'' allocInterest] else [])
         @ (if allocPrincipal > 0 then [row ''PRINCIPAL'' allocPrincipal] else [])
         @ map (\<lambda>(c, a). row (ch_type c) a) charges)"

text \<open>
  The writes. A payment id that exists is a unique violation. When the instalment is paid and
  no other is open, the loan is fully paid and its application closed.
\<close>

definition repay_write ::
  "(rat \<Rightarrow> rat) \<Rightarrow> int \<Rightarrow> string \<Rightarrow> string \<Rightarrow> repay_payload \<Rightarrow> repay_snapshot \<Rightarrow> time \<Rightarrow> repay_db \<Rightarrow>
   (http_error + repay_result) \<times> repay_db" where
  "repay_write store rid genId lan p snap now db =
     (case snap of
        RS_Duplicate x \<Rightarrow> (Inr (RP_Duplicate (rp_paymentId x) (rp_reference x)), db)
      | RS_New loan rps \<Rightarrow>
          let rep = new_repayment store rid genId lan loan p now in
          if rp_paymentId rep \<in> rp_paymentId ` set (rd_repayments db)
          then (Inl (DbError ''P2002''), db)
          else
            let (allocInterest, allocPrincipal, left) = waterfall rps (py_amount p);
                (charged, unallocated) =
                  (if left > 0 then charge_loop store left (pending_charges lan (rd_charges db)) else ([], left));
                newPaid = dbl (dbl (rs_paid rps) + py_amount p);
                newRemaining = max 0 (dbl (dbl (rs_emi rps) - newPaid));
                newStatus = (if newRemaining = 0 then ''PAID'' else ''PARTIAL'');
                schedule = update_many (\<lambda>r. rs_id r = rs_id rps)
                  (\<lambda>r. r\<lparr>rs_paid := store newPaid, rs_remaining := store newRemaining,
                         rs_status := newStatus, rs_paymentDate := Some now\<rparr>) (rd_schedule db);
                fullyPaid = (newStatus = ''PAID''
                  \<and> count_rows (\<lambda>r. rs_lan r = lan \<and> rs_status r \<noteq> ''PAID'') schedule = 0)
            in (Inr (RP_Done \<lparr>rr_paymentId = rp_paymentId rep, rr_remaining = newRemaining,
                   rr_status = newStatus, rr_fullyPaid = fullyPaid,
                   rr_applicationId = sl_applicationId loan, rr_repaymentId = rid\<rparr>),
                db\<lparr>rd_repayments := rd_repayments db @ [rep],
                   rd_allocations := rd_allocations db
                     @ new_allocations store rid lan (py_installmentNumber p) allocInterest allocPrincipal charged,
                   rd_charges := write_charges (map fst charged) (rd_charges db),
                   rd_schedule := schedule,
                   rd_loans := (if fullyPaid
                     then update_many (\<lambda>l. sl_id l = sl_id loan) (\<lambda>l. l\<lparr>sl_status := ''FULLY_PAID''\<rparr>) (rd_loans db)
                     else rd_loans db),
                   rd_applications := (if fullyPaid
                     then update_many (\<lambda>a. fst a = sl_applicationId loan) (\<lambda>a. (fst a, ''LOAN_CLOSED'')) (rd_applications db)
                     else rd_applications db),
                   rd_outbox := rd_outbox db @ [''LENDER_NOTIFY_REPAYMENT'']\<rparr>))"

definition processRepayment ::
  "(rat \<Rightarrow> rat) \<Rightarrow> int \<Rightarrow> string \<Rightarrow> string \<Rightarrow> repay_payload \<Rightarrow> time \<Rightarrow> repay_db \<Rightarrow>
   (http_error + repay_result) \<times> repay_db" where
  "processRepayment store rid genId lanInput p now db =
     (case repay_payload_check lanInput p of
        Some e \<Rightarrow> (Inl e, db)
      | None \<Rightarrow>
          (case repay_read (repay_lan lanInput) p db of
             Inl e \<Rightarrow> (Inl e, db)
           | Inr snap \<Rightarrow> repay_write store rid genId (repay_lan lanInput) p snap now db))"

section \<open>Charges\<close>

definition normal_charge_type :: "string \<Rightarrow> string" where
  "normal_charge_type s = squash_spaces (CHR ''_'') False (map upper_char (trim_str s))"

definition new_charge ::
  "(rat \<Rightarrow> rat) \<Rightarrow> int \<Rightarrow> string \<Rightarrow> string \<Rightarrow> servicing_loan \<Rightarrow> rat \<Rightarrow> time \<Rightarrow> string option \<Rightarrow> charge_row" where
  "new_charge store cid lan ty loan amount due remarks =
     \<lparr>ch_id = cid, ch_lan = lan, ch_loanId = sl_id loan, ch_type = ty, ch_amount = store amount,
      ch_paid = 0, ch_remaining = store amount, ch_status = ''PENDING'', ch_dueDate = due,
      ch_description = truthy_str (map_option trim_str remarks)\<rparr>"

definition addLoanCharge ::
  "(rat \<Rightarrow> rat) \<Rightarrow> int \<Rightarrow> string \<Rightarrow> string \<Rightarrow> rat \<Rightarrow> time option \<Rightarrow> string option \<Rightarrow> repay_db \<Rightarrow>
   (http_error + int) \<times> repay_db" where
  "addLoanCharge store cid lanInput chargeType amount dueDate remarks db =
     (let lan = trim_str lanInput; ty = normal_charge_type chargeType in
      if lan = [] then (Inl (BadRequest ''LAN is required.''), db)
      else if ty = [] then (Inl (BadRequest ''chargeType is required.''), db)
      else if amount \<le> 0 then (Inl (BadRequest ''Charge amount must be a positive number.''), db)
      else
        case dueDate of
          None \<Rightarrow> (Inl (BadRequest ''dueDate is required.''), db)
        | Some due \<Rightarrow>
            (case List.find (\<lambda>l. sl_lan l = lan) (rd_loans db) of
               None \<Rightarrow> (Inl (NotFound ''Loan not found.''), db)
             | Some loan \<Rightarrow>
                 (Inr cid,
                  db\<lparr>rd_charges := rd_charges db @ [new_charge store cid lan ty loan amount due remarks],
                     rd_outbox := rd_outbox db @ [''LENDER_NOTIFY_CHARGE'']\<rparr>)))"

text \<open>\<open>waiveLoanCharge\<close> reads the charge and writes it in a transaction of its own.\<close>

definition waive_read ::
  "string \<Rightarrow> int \<Rightarrow> rat \<Rightarrow> repay_db \<Rightarrow> http_error + charge_row" where
  "waive_read lan chargeId amount db =
     (if lan = [] then Inl (BadRequest ''LAN is required.'')
      else if amount \<le> 0 then Inl (BadRequest ''waiverAmount must be a positive number.'')
      else
        case List.find (\<lambda>c. ch_id c = chargeId \<and> ch_lan c = lan) (rd_charges db) of
          None \<Rightarrow> Inl (NotFound ''Charge not found.'')
        | Some c \<Rightarrow>
            if ch_status c \<notin> {''PENDING'', ''PARTIAL''} then Inl (BadRequest ''Charge is not outstanding.'')
            else if amount > dbl (ch_remaining c)
            then Inl (BadRequest ''waiverAmount exceeds the outstanding amount.'')
            else Inr c)"

definition waive_write ::
  "(rat \<Rightarrow> rat) \<Rightarrow> string \<Rightarrow> charge_row \<Rightarrow> rat \<Rightarrow> ident option \<Rightarrow> string option \<Rightarrow> repay_db \<Rightarrow> rat \<times> repay_db" where
  "waive_write store lan c amount actor remarks db =
     (let newRemaining = dbl (of_int (js_round (dbl (dbl (dbl (ch_remaining c) - amount) * 100))) / 100) in
      (newRemaining,
       db\<lparr>rd_charges := update_many (\<lambda>x. ch_id x = ch_id c)
            (\<lambda>x. x\<lparr>ch_remaining := store newRemaining,
                   ch_status := (if newRemaining = 0 then ''WAIVED'' else ch_status c)\<rparr>) (rd_charges db),
          rd_waivers := rd_waivers db @
            [\<lparr>wv_chargeId = ch_id c, wv_lan = lan, wv_amount = store amount, wv_by = actor,
              wv_remarks = truthy_str (map_option trim_str remarks)\<rparr>],
          rd_outbox := rd_outbox db @ [''LENDER_NOTIFY_CHARGE_WAIVER'']\<rparr>))"

definition waiveLoanCharge ::
  "(rat \<Rightarrow> rat) \<Rightarrow> string \<Rightarrow> int \<Rightarrow> rat \<Rightarrow> ident option \<Rightarrow> string option \<Rightarrow> repay_db \<Rightarrow>
   (http_error + rat) \<times> repay_db" where
  "waiveLoanCharge store lanInput chargeId amount actor remarks db =
     (case waive_read (trim_str lanInput) chargeId amount db of
        Inl e \<Rightarrow> (Inl e, db)
      | Inr c \<Rightarrow> (case waive_write store (trim_str lanInput) c amount actor remarks db of (x, db') \<Rightarrow> (Inr x, db')))"

section \<open>Whole amounts\<close>

text \<open>
  The columns keep whole rupees exactly. The invariant of the books is stated for whole amounts,
  where the arithmetic of the numbers is exact.
\<close>

definition store_ok :: "(rat \<Rightarrow> rat) \<Rightarrow> bool" where
  "store_ok store \<longleftrightarrow> (\<forall>x. whole x \<longrightarrow> store x = x)"

lemma split_step:
  assumes "whole a" and "whole u"
  shows "(if 0 < u then min a u else 0) = min a u"
    and "(if 0 < u then dbl (a - min a u) else a) = a - min a u"
    and "(if 0 < a \<and> 0 < u then min a u else 0) = min a u"
    and "(if 0 < a \<and> 0 < u then dbl (a - min a u) else a) = a - min a u"
    and "whole (min a u)" and "whole (a - min a u)"
proof -
  from assms have n: "0 \<le> a" "0 \<le> u" by (simp_all add: whole_def)
  show m: "whole (min a u)" using assms by (rule whole_min)
  show "whole (a - min a u)" by (rule whole_diff [OF assms(1) m]) simp
  note d = dbl_diff [OF assms(1) m]
  show "(if 0 < u then min a u else 0) = min a u" "(if 0 < u then dbl (a - min a u) else a) = a - min a u"
    using n d by (cases "u = 0"; simp)+
  show "(if 0 < a \<and> 0 < u then min a u else 0) = min a u"
    "(if 0 < a \<and> 0 < u then dbl (a - min a u) else a) = a - min a u"
    using n d by (cases "u = 0"; cases "a = 0"; simp)+
qed

lemma waterfall_whole:
  assumes "whole (rs_interest r)" "whole (rs_principal r)" "whole (rs_paid r)" "whole a"
    and "i = min a (max 0 (rs_interest r - rs_paid r))"
    and "q = min (a - i) (max 0 (rs_principal r - max 0 (rs_paid r - rs_interest r)))"
  shows "waterfall r a = (i, q, a - i - q) \<and> whole i \<and> whole q \<and> whole (a - i - q)"
proof -
  let ?ui = "max 0 (rs_interest r - rs_paid r)" and ?x = "max 0 (rs_paid r - rs_interest r)"
  let ?up = "max 0 (rs_principal r - ?x)"
  have w: "whole ?ui" "whole ?x" "whole ?up" using assms(1-4) by (simp_all add: whole_max_diff)
  note S1 = split_step [OF assms(4) w(1), folded assms(5)]
  note S2 = split_step [OF S1(6) w(3), folded assms(6)]
  have "waterfall r a =
     (let allocInterest = (if 0 < ?ui then min a ?ui else 0);
          left1 = (if 0 < ?ui then dbl (a - allocInterest) else a);
          allocPrincipal = (if 0 < left1 \<and> 0 < ?up then min left1 ?up else 0)
      in (allocInterest, allocPrincipal, if 0 < left1 \<and> 0 < ?up then dbl (left1 - allocPrincipal) else left1))"
    using assms(1-3) w(2) by (simp only: waterfall_def dbl_whole dbl_diff Let_def)
  also have "\<dots> = (i, q, a - i - q)"
    unfolding Let_def by (simp only: S1 S2 assms(5)[symmetric] assms(6)[symmetric])
  finally show ?thesis using S1 S2 by simp
qed

text \<open>A charge of the books: what was charged is paid, waived or outstanding.\<close>

definition waived :: "waiver_row list \<Rightarrow> int \<Rightarrow> rat" where
  "waived ws i = sum_list (map wv_amount (filter (\<lambda>w. wv_chargeId w = i) ws))"

definition charge_ok :: "waiver_row list \<Rightarrow> charge_row \<Rightarrow> bool" where
  "charge_ok ws c \<longleftrightarrow>
     whole (ch_amount c) \<and> whole (ch_paid c) \<and> whole (ch_remaining c)
     \<and> ch_paid c + ch_remaining c + waived ws (ch_id c) = ch_amount c \<and> 0 \<le> waived ws (ch_id c)
     \<and> ch_type c \<notin> {''INTEREST'', ''PRINCIPAL''}
     \<and> (ch_status c \<in> {''PENDING'', ''PARTIAL''} \<longleftrightarrow> 0 < ch_remaining c)"

text \<open>One pass of the loop on whole amounts.\<close>

lemma pay_charge_whole:
  assumes "store_ok store" and "charge_ok ws c" and "whole a" and "a \<le> ch_remaining c"
  shows "ch_paid (pay_charge store a c) = ch_paid c + a"
    and "ch_remaining (pay_charge store a c) = ch_remaining c - a"
    and "charge_ok ws (pay_charge store a c)"
proof -
  have w: "whole (ch_amount c)" "whole (ch_paid c)" "whole (ch_remaining c)"
    and s: "ch_paid c + ch_remaining c + waived ws (ch_id c) = ch_amount c" "0 \<le> waived ws (ch_id c)"
    and t: "ch_type c \<notin> {''INTEREST'', ''PRINCIPAL''}"
    using assms(2) unfolding charge_ok_def by blast+
  have r: "whole (ch_remaining c - a)" using w(3) assms(3,4) by (simp add: whole_diff)
  have p: "whole (ch_paid c + a)"
    using w(1,2) assms(3,4) s by (auto simp: whole_def)
  note e = dbl_add [OF w(2) assms(3)] dbl_diff [OF w(3) assms(3)]
  from assms(1) p r show pd: "ch_paid (pay_charge store a c) = ch_paid c + a"
    and rm: "ch_remaining (pay_charge store a c) = ch_remaining c - a"
    by (simp_all add: pay_charge_def Let_def w e store_ok_def assms(3))
  show "charge_ok ws (pay_charge store a c)"
    unfolding charge_ok_def pd rm
    using w s t p r by (auto simp: pay_charge_def Let_def e assms(3) whole_def)
qed

lemma charge_loop_whole:
  assumes "store_ok store" and "\<forall>c\<in>set cs. charge_ok ws c" and "whole u"
    and "charge_loop store u cs = (upd, out)"
  shows "whole out \<and> sum_list (map snd upd) + out = u
    \<and> (\<forall>(c', a)\<in>set upd. whole a \<and> (\<exists>c\<in>set cs. c' = pay_charge store a c \<and> a \<le> ch_remaining c))
    \<and> map (\<lambda>x. ch_id (fst x)) upd = take (length upd) (map ch_id cs)
    \<and> (0 < out \<longrightarrow> length upd = length cs \<and> (\<forall>(c', a)\<in>set upd. ch_remaining c' = 0))"
  using assms(2-4)
proof (induction cs arbitrary: u upd out)
  case Nil
  then show ?case by simp
next
  case (Cons c cs)
  show ?case
  proof (cases "u \<le> 0")
    case True
    with Cons.prems show ?thesis by simp
  next
    case False
    have wr: "whole (ch_remaining c)" using Cons.prems(1) by (simp add: charge_ok_def)
    let ?a = "min u (ch_remaining c)"
    have a: "whole ?a" "?a \<le> ch_remaining c" using Cons.prems(2) wr by (simp_all add: whole_min)
    have d: "dbl (u - ?a) = u - ?a" by (rule dbl_diff [OF Cons.prems(2) a(1)])
    have wu: "whole (u - ?a)" using Cons.prems(2) a(1) by (simp add: whole_diff)
    obtain rest o' where rest: "charge_loop store (u - ?a) cs = (rest, o')" by fastforce
    have upd: "upd = (pay_charge store ?a c, ?a) # rest" "out = o'"
      using Cons.prems(3) False rest d wr by (auto simp: Let_def)
    have IH: "whole out \<and> sum_list (map snd rest) + out = u - ?a
        \<and> (\<forall>(c', a)\<in>set rest. whole a \<and> (\<exists>c\<in>set cs. c' = pay_charge store a c \<and> a \<le> ch_remaining c))
        \<and> map (\<lambda>x. ch_id (fst x)) rest = take (length rest) (map ch_id cs)
        \<and> (0 < out \<longrightarrow> length rest = length cs \<and> (\<forall>(c', a)\<in>set rest. ch_remaining c' = 0))"
      using Cons.IH [OF _ wu rest] Cons.prems(1) upd(2) by simp
    have pos: "0 \<le> sum_list (map snd rest)"
      using IH by (intro sum_list_nonneg) (auto simp: whole_def)
    have "ch_remaining (pay_charge store ?a c) = ch_remaining c - ?a"
      by (rule pay_charge_whole(2) [where ws = ws, OF assms(1) _ a]) (use Cons.prems(1) in simp)
    moreover have "0 < out \<Longrightarrow> ?a = ch_remaining c"
      using IH pos by (auto simp: min_def split: if_splits)
    ultimately have zero: "0 < out \<Longrightarrow> ch_remaining (pay_charge store ?a c) = 0" by simp
    have "ch_id (pay_charge store ?a c) = ch_id c" by (simp add: pay_charge_def Let_def)
    with IH a zero show ?thesis unfolding upd(1) by (auto simp: algebra_simps)
  qed
qed

section \<open>The books\<close>

text \<open>What was allocated to a component of an instalment.\<close>

definition allocated :: "allocation_row list \<Rightarrow> string \<Rightarrow> int \<Rightarrow> string \<Rightarrow> rat" where
  "allocated als lan n part =
     sum_list (map al_amount (filter (\<lambda>a. al_lan a = lan \<and> al_number a = n \<and> al_component a = part) als))"

definition instalment_ok :: "allocation_row list \<Rightarrow> instalment \<Rightarrow> bool" where
  "instalment_ok als r \<longleftrightarrow>
     whole (rs_emi r) \<and> whole (rs_interest r) \<and> whole (rs_principal r) \<and> whole (rs_paid r)
     \<and> rs_interest r + rs_principal r = rs_emi r
     \<and> rs_remaining r = max 0 (rs_emi r - rs_paid r)
     \<and> (rs_status r = ''PAID'' \<longleftrightarrow> rs_remaining r = 0)
     \<and> allocated als (rs_lan r) (rs_number r) ''INTEREST'' = min (rs_paid r) (rs_interest r)
     \<and> allocated als (rs_lan r) (rs_number r) ''PRINCIPAL''
         = min (max 0 (rs_paid r - rs_interest r)) (rs_principal r)"

definition books_ok :: "repay_db \<Rightarrow> bool" where
  "books_ok db \<longleftrightarrow>
     unique_keys rs_id (rd_schedule db) \<and> unique_keys (\<lambda>r. (rs_lan r, rs_number r)) (rd_schedule db)
     \<and> unique_keys ch_id (rd_charges db) \<and> unique_keys rp_paymentId (rd_repayments db)
     \<and> (\<forall>r\<in>set (rd_schedule db). instalment_ok (rd_allocations db) r)
     \<and> (\<forall>c\<in>set (rd_charges db). charge_ok (rd_waivers db) c)
     \<and> (\<forall>a\<in>set (rd_allocations db). (al_lan a, al_number a) \<in> (\<lambda>r. (rs_lan r, rs_number r)) ` set (rd_schedule db))
     \<and> (\<forall>w\<in>set (rd_waivers db). wv_chargeId w \<in> ch_id ` set (rd_charges db))"

text \<open>
  Requests served one after the other, in whole rupees and within the columns: a disbursal
  writes the schedule of a loan that has none, then repayments, charges and waivers. Ids are
  fresh, as the database generates them.
\<close>

inductive servicing :: "(rat \<Rightarrow> rat) \<Rightarrow> repay_db \<Rightarrow> repay_db \<Rightarrow> bool" for store :: "rat \<Rightarrow> rat" where
  start: "servicing store db db"
| disbursed: "servicing store db0 db \<Longrightarrow> newId \<notin> rs_id ` set (rd_schedule db) \<Longrightarrow>
    lan \<notin> rs_lan ` set (rd_schedule db) \<Longrightarrow> whole amount \<Longrightarrow> 0 < amount \<Longrightarrow>
    whole (of_int (calculateRps_interest amount rate (of_int days))) \<Longrightarrow>
    whole (amount + of_int (calculateRps_interest amount rate (of_int days))) \<Longrightarrow>
    servicing store db0 (db\<lparr>rd_schedule := rd_schedule db @ calculateRpsRows store newId lan amount rate days d first\<rparr>)"
| repaid: "servicing store db0 db \<Longrightarrow> whole (py_amount p) \<Longrightarrow>
    \<forall>r\<in>set (rd_schedule db). whole (rs_paid r + py_amount p) \<Longrightarrow>
    servicing store db0 (snd (processRepayment store rid genId lanInput p now db))"
| charged: "servicing store db0 db \<Longrightarrow> cid \<notin> ch_id ` set (rd_charges db) \<Longrightarrow> whole amount \<Longrightarrow>
    normal_charge_type ty \<notin> {''INTEREST'', ''PRINCIPAL''} \<Longrightarrow>
    servicing store db0 (snd (addLoanCharge store cid lanInput ty amount due remarks db))"
| waivered: "servicing store db0 db \<Longrightarrow> whole amount \<Longrightarrow>
    servicing store db0 (snd (waiveLoanCharge store lanInput cid amount actor remarks db))"

lemma books_okD:
  assumes "books_ok db"
  shows "unique_keys rs_id (rd_schedule db)" "unique_keys (\<lambda>r. (rs_lan r, rs_number r)) (rd_schedule db)"
    "unique_keys ch_id (rd_charges db)" "unique_keys rp_paymentId (rd_repayments db)"
    and "r \<in> set (rd_schedule db) \<Longrightarrow> instalment_ok (rd_allocations db) r"
    and "c \<in> set (rd_charges db) \<Longrightarrow> charge_ok (rd_waivers db) c"
    and "a \<in> set (rd_allocations db) \<Longrightarrow>
      (al_lan a, al_number a) \<in> (\<lambda>r. (rs_lan r, rs_number r)) ` set (rd_schedule db)"
    and "w \<in> set (rd_waivers db) \<Longrightarrow> wv_chargeId w \<in> ch_id ` set (rd_charges db)"
  using assms unfolding books_ok_def by blast+

lemma allocated_append: "allocated (as @ bs) lan n part = allocated as lan n part + allocated bs lan n part"
  by (simp add: allocated_def)

lemma allocated_none:
  "(\<And>a. a \<in> set as \<Longrightarrow> (al_lan a, al_number a) \<noteq> (lan, n) \<or> al_component a \<noteq> part) \<Longrightarrow>
   allocated as lan n part = 0"
  by (auto simp: allocated_def filter_empty_conv intro!: arg_cong [where f = sum_list])

lemma instalment_ok_cong:
  assumes "instalment_ok als r"
    and "\<And>part. part \<in> {''INTEREST'', ''PRINCIPAL''} \<Longrightarrow>
      allocated als' (rs_lan r) (rs_number r) part = allocated als (rs_lan r) (rs_number r) part"
  shows "instalment_ok als' r"
proof -
  have "allocated als' (rs_lan r) (rs_number r) ''INTEREST'' = allocated als (rs_lan r) (rs_number r) ''INTEREST''"
    "allocated als' (rs_lan r) (rs_number r) ''PRINCIPAL'' = allocated als (rs_lan r) (rs_number r) ''PRINCIPAL''"
    by (rule assms(2); simp)+
  then have "instalment_ok als' r = instalment_ok als r"
    unfolding instalment_ok_def by (simp only:)
  with assms(1) show ?thesis by blast
qed

lemma waived_snoc: "waived (ws @ [w]) i = waived ws i + (if wv_chargeId w = i then wv_amount w else 0)"
  by (simp add: waived_def)

text \<open>A disbursal.\<close>

lemma disburse_books:
  assumes ok: "books_ok db" and st: "store_ok store"
    and fresh: "newId \<notin> rs_id ` set (rd_schedule db)" "lan \<notin> rs_lan ` set (rd_schedule db)"
    and amt: "whole amount" "0 < amount"
    and int: "whole (of_int (calculateRps_interest amount rate (of_int days)))"
      "whole (amount + of_int (calculateRps_interest amount rate (of_int days)))"
  shows "books_ok (db\<lparr>rd_schedule := rd_schedule db @ calculateRpsRows store newId lan amount rate days d first\<rparr>)"
proof -
  note I = books_okD [OF ok]
  let ?i = "of_int (calculateRps_interest amount rate (of_int days)) :: rat"
  obtain r where r: "calculateRpsRows store newId lan amount rate days d first = [r]"
    "rs_id r = newId" "rs_lan r = lan" "rs_number r = 1" "rs_emi r = amount + ?i" "rs_interest r = ?i"
    "rs_principal r = amount" "rs_paid r = 0" "rs_remaining r = amount + ?i" "rs_status r = ''PENDING''"
    using st amt int by (simp add: calculateRpsRows_def Let_def store_ok_def dbl_add)
  have none: "allocated (rd_allocations db) lan 1 part = 0" for part
    by (rule allocated_none) (use I(7) fresh(2) in force)
  have "0 \<le> ?i" using int(1) by (simp add: whole_def)
  then have "instalment_ok (rd_allocations db) r"
    unfolding instalment_ok_def using r amt int none by simp
  moreover have "(lan, 1) \<notin> (\<lambda>r. (rs_lan r, rs_number r)) ` set (rd_schedule db)" using fresh(2) by auto
  ultimately show ?thesis
    using I fresh unfolding books_ok_def by (simp add: r)
qed

text \<open>A charge and a waiver.\<close>

lemma charge_books:
  assumes ok: "books_ok db" and st: "store_ok store" and fresh: "cid \<notin> ch_id ` set (rd_charges db)"
    and amt: "whole amount" and ty: "normal_charge_type ty \<notin> {''INTEREST'', ''PRINCIPAL''}"
  shows "books_ok (snd (addLoanCharge store cid lanInput ty amount due remarks db))"
proof (cases "snd (addLoanCharge store cid lanInput ty amount due remarks db) = db")
  case True
  with ok show ?thesis by simp
next
  case False
  note I = books_okD [OF ok]
  have "snd (addLoanCharge store cid lanInput ty amount due remarks db) = db
    \<or> (\<exists>loan due'. 0 < amount \<and> snd (addLoanCharge store cid lanInput ty amount due remarks db) =
      db\<lparr>rd_charges := rd_charges db @ [new_charge store cid (trim_str lanInput) (normal_charge_type ty) loan amount due' remarks],
         rd_outbox := rd_outbox db @ [''LENDER_NOTIFY_CHARGE'']\<rparr>)"
    by (auto simp: addLoanCharge_def Let_def split: option.split)
  with False obtain loan due' where pos: "0 < amount" and
    db': "snd (addLoanCharge store cid lanInput ty amount due remarks db) =
      db\<lparr>rd_charges := rd_charges db @ [new_charge store cid (trim_str lanInput) (normal_charge_type ty) loan amount due' remarks],
         rd_outbox := rd_outbox db @ [''LENDER_NOTIFY_CHARGE'']\<rparr>" by blast
  let ?c = "new_charge store cid (trim_str lanInput) (normal_charge_type ty) loan amount due' remarks"
  have "waived (rd_waivers db) cid = 0"
  proof -
    have "filter (\<lambda>w. wv_chargeId w = cid) (rd_waivers db) = []"
      using I(8) fresh by (auto simp: filter_empty_conv)
    then show ?thesis by (simp add: waived_def)
  qed
  then have "charge_ok (rd_waivers db) ?c"
    using st amt pos ty by (simp add: charge_ok_def store_ok_def new_charge_def)
  moreover have "ch_id ?c = cid" by (simp add: new_charge_def)
  ultimately show ?thesis
    using I fresh unfolding db' books_ok_def by auto
qed

lemma js_round_100: "whole x \<Longrightarrow> dbl (of_int (js_round (dbl (x * 100))) / 100) = x"
proof -
  assume "whole x"
  then obtain n where n: "x = of_int n" "0 \<le> n" "n < 10 ^ 13" by (rule wholeE)
  have "dbl (of_int (n * 100)) = of_int (n * 100)" by (rule dbl_of_int) (use n in simp)
  moreover have "x * 100 = of_int (n * 100)" by (simp add: n(1))
  ultimately have "js_round (dbl (x * 100)) = n * 100" by (simp only: js_round_of_int)
  then have "of_int (js_round (dbl (x * 100))) / 100 = x" by (simp add: n(1))
  with \<open>whole x\<close> show ?thesis by simp
qed

lemma waive_books:
  assumes ok: "books_ok db" and st: "store_ok store" and amt: "whole amount"
  shows "books_ok (snd (waiveLoanCharge store lanInput cid amount actor remarks db))"
proof (cases "waive_read (trim_str lanInput) cid amount db")
  case (Inl e)
  with ok show ?thesis by (simp add: waiveLoanCharge_def)
next
  case (Inr c)
  note I = books_okD [OF ok]
  from Inr have c: "c \<in> set (rd_charges db)" "ch_id c = cid" "0 < amount" "amount \<le> dbl (ch_remaining c)"
    "ch_status c \<in> {''PENDING'', ''PARTIAL''}"
    by (auto simp: waive_read_def find_Some_iff split: if_splits option.splits)
  have cok: "charge_ok (rd_waivers db) c" by (rule I(6) [OF c(1)])
  then have w: "whole (ch_remaining c)" unfolding charge_ok_def by blast
  with c(4) have le: "amount \<le> ch_remaining c" by simp
  have wd: "whole (ch_remaining c - amount)" by (rule whole_diff [OF w amt le])
  let ?n = "ch_remaining c - amount"
  let ?f = "\<lambda>x. x\<lparr>ch_remaining := ?n, ch_status := (if ?n = 0 then ''WAIVED'' else ch_status c)\<rparr>"
  let ?w = "\<lparr>wv_chargeId = cid, wv_lan = trim_str lanInput, wv_amount = amount, wv_by = actor,
    wv_remarks = truthy_str (map_option trim_str remarks)\<rparr>"
  have db': "snd (waiveLoanCharge store lanInput cid amount actor remarks db) =
    db\<lparr>rd_charges := update_many (\<lambda>x. ch_id x = cid) ?f (rd_charges db), rd_waivers := rd_waivers db @ [?w],
       rd_outbox := rd_outbox db @ [''LENDER_NOTIFY_CHARGE_WAIVER'']\<rparr>"
  proof -
    have e: "dbl (of_int (js_round (dbl (dbl (dbl (ch_remaining c) - amount) * 100))) / 100) = ?n"
      by (simp only: dbl_whole [OF w] dbl_diff [OF w amt] js_round_100 [OF wd])
    have "store ?n = ?n" "store amount = amount" using st wd amt by (simp_all add: store_ok_def)
    then show ?thesis
      by (simp only: waiveLoanCharge_def Inr sum.case waive_write_def e Let_def prod.case snd_conv c(2))
  qed
  have "charge_ok (rd_waivers db @ [?w]) x" if "x \<in> set (update_many (\<lambda>x. ch_id x = cid) ?f (rd_charges db))" for x
    using that
  proof (rule update_many_obtain)
    fix y assume "y \<in> set (rd_charges db)" "\<not> ch_id y = cid" "x = y"
    with I(6) [of y] show ?thesis by (simp add: charge_ok_def waived_snoc)
  next
    fix y assume y: "y \<in> set (rd_charges db)" "ch_id y = cid" "x = ?f y"
    with unique_keys_eq [OF I(3) y(1) c(1)] c(2) have "y = c" by simp
    with cok wd c(5) le amt y(2,3) show ?thesis
      by (auto simp: charge_ok_def waived_snoc whole_def)
  qed
  moreover have "ch_id ` set (update_many (\<lambda>x. ch_id x = cid) ?f (rd_charges db)) = ch_id ` set (rd_charges db)"
    unfolding set_map [symmetric] by (subst map_key_update_many) simp_all
  moreover have "unique_keys ch_id (update_many (\<lambda>x. ch_id x = cid) ?f (rd_charges db))"
    by (rule unique_keys_update_many [OF _ I(3)]) simp
  ultimately show ?thesis
    using I c(1,2) unfolding db' books_ok_def by auto
qed

text \<open>A repayment: what it adds to the allocations, and what it does to the charges.\<close>

lemma new_allocations_allocated:
  assumes "store_ok store" and "whole i" "whole q"
    and "\<forall>(c, a)\<in>set charged. ch_type c \<notin> {''INTEREST'', ''PRINCIPAL''}"
  shows "allocated (new_allocations store rid lan n i q charged) lan n ''INTEREST'' = i"
    and "allocated (new_allocations store rid lan n i q charged) lan n ''PRINCIPAL'' = q"
proof -
  let ?rows = "map (\<lambda>(c, a). \<lparr>al_repaymentId = rid, al_lan = lan, al_number = n,
    al_component = ch_type c, al_amount = store a\<rparr>) charged"
  have z: "allocated ?rows lan n ''INTEREST'' = 0" "allocated ?rows lan n ''PRINCIPAL'' = 0"
    by (rule allocated_none; use assms(4) in auto)+
  have "0 \<le> i" "0 \<le> q" using assms(2,3) by (simp_all add: whole_def)
  then show "allocated (new_allocations store rid lan n i q charged) lan n ''INTEREST'' = i"
    "allocated (new_allocations store rid lan n i q charged) lan n ''PRINCIPAL'' = q"
    unfolding new_allocations_def Let_def allocated_append
    using z assms(1-3) by (auto simp: allocated_def store_ok_def)
qed

lemma new_allocations_key:
  "a \<in> set (new_allocations store rid lan n i q charged) \<Longrightarrow> al_lan a = lan \<and> al_number a = n \<and> al_repaymentId a = rid"
  by (auto simp: new_allocations_def Let_def split: if_splits)

lemma write_charges_ok:
  assumes "store_ok store" and "\<forall>c\<in>set cs. charge_ok ws c"
    and "\<forall>(c', a)\<in>set charged. whole a \<and> (\<exists>c\<in>set cs. c' = pay_charge store a c \<and> a \<le> ch_remaining c)"
  shows "c \<in> set (write_charges (map fst charged) cs) \<Longrightarrow> charge_ok ws c"
    and "map ch_id (write_charges (map fst charged) cs) = map ch_id cs"
proof -
  have u: "charge_ok ws u" if "u \<in> fst ` set charged" for u
    using that assms pay_charge_whole(3) [OF assms(1)] by fastforce
  have f: "ch_id u = k \<and> u \<in> fst ` set charged" if "find_unique ch_id k (map fst charged) = Some u" for k u
    using find_unique_Some_D [OF that] by simp
  show "c \<in> set (write_charges (map fst charged) cs) \<Longrightarrow> charge_ok ws c"
    using assms(2) u f by (auto simp: write_charges_def split: option.splits)
  show "map ch_id (write_charges (map fst charged) cs) = map ch_id cs"
    using f by (auto simp: write_charges_def split: option.split)
qed

lemma split_totals:
  fixes P I Pr a :: rat
  assumes "0 \<le> P" "0 \<le> I" "0 \<le> Pr" "0 \<le> a"
    and "i = min a (max 0 (I - P))" and "q = min (a - i) (max 0 (Pr - max 0 (P - I)))"
  shows "min (P + a) I = min P I + i"
    and "min (max 0 (P + a - I)) Pr = min (max 0 (P - I)) Pr + q"
  using assms by (auto simp: min_def max_def split: if_splits)

text \<open>The step that pays: the reads and the charges that are given something.\<close>

lemma repay_read_New:
  assumes "repay_read lan p db = Inr (RS_New loan rps)"
  shows "rps \<in> set (rd_schedule db)" "rs_lan rps = lan" "rs_number rps = py_installmentNumber p"
    "rs_status rps \<noteq> ''PAID''" "loan \<in> set (rd_loans db)" "sl_lan loan = lan"
  using assms by (auto simp: repay_read_def find_Some_iff split: option.splits if_splits)

definition charged_of :: "(rat \<Rightarrow> rat) \<Rightarrow> string \<Rightarrow> rat \<Rightarrow> charge_row list \<Rightarrow> (charge_row \<times> rat) list \<times> rat" where
  "charged_of store lan left cs =
     (if left > 0 then charge_loop store left (pending_charges lan cs) else ([], left))"

lemma charged_of_whole:
  assumes "store_ok store" and "\<forall>c\<in>set cs. charge_ok ws c" and "whole left"
    and "charged_of store lan left cs = (charged, out)"
  shows "whole out \<and> sum_list (map snd charged) + out = left"
    and "\<forall>(c', a)\<in>set charged. whole a \<and> (\<exists>c\<in>set cs. c' = pay_charge store a c \<and> a \<le> ch_remaining c)"
    and "\<forall>(c', a)\<in>set charged. ch_type c' \<notin> {''INTEREST'', ''PRINCIPAL''}"
    and "0 < out \<Longrightarrow> map (\<lambda>x. ch_id (fst x)) charged = map ch_id (pending_charges lan cs)
      \<and> (\<forall>(c', a)\<in>set charged. ch_remaining c' = 0)"
proof -
  have sub: "set (pending_charges lan cs) \<subseteq> set cs" by (auto simp: pending_charges_def)
  with assms(2) have pc: "\<forall>c\<in>set (pending_charges lan cs). charge_ok ws c" by blast
  have all: "(whole out \<and> sum_list (map snd charged) + out = left)
    \<and> (\<forall>(c', a)\<in>set charged. whole a \<and> (\<exists>c\<in>set cs. c' = pay_charge store a c \<and> a \<le> ch_remaining c))
    \<and> (0 < out \<longrightarrow> map (\<lambda>x. ch_id (fst x)) charged = map ch_id (pending_charges lan cs)
        \<and> (\<forall>(c', a)\<in>set charged. ch_remaining c' = 0))"
  proof (cases "left > 0")
    case True
    with assms(4) have "charge_loop store left (pending_charges lan cs) = (charged, out)"
      by (simp add: charged_of_def)
    from charge_loop_whole [OF assms(1) pc assms(3) this] sub show ?thesis by fastforce
  next
    case False
    with assms(3,4) show ?thesis by (auto simp: charged_of_def whole_def)
  qed
  then show "whole out \<and> sum_list (map snd charged) + out = left"
    and w: "\<forall>(c', a)\<in>set charged. whole a \<and> (\<exists>c\<in>set cs. c' = pay_charge store a c \<and> a \<le> ch_remaining c)"
    and "0 < out \<Longrightarrow> map (\<lambda>x. ch_id (fst x)) charged = map ch_id (pending_charges lan cs)
      \<and> (\<forall>(c', a)\<in>set charged. ch_remaining c' = 0)" by blast+
  have "ch_type (pay_charge store a c) = ch_type c" for a c by (simp add: pay_charge_def Let_def)
  with w assms(2) show "\<forall>(c', a)\<in>set charged. ch_type c' \<notin> {''INTEREST'', ''PRINCIPAL''}"
    by (fastforce simp: charge_ok_def)
qed

text \<open>One new repayment in whole rupees, written out.\<close>

lemma repay_write_New:
  assumes ok: "books_ok db" and st: "store_ok store" and amt: "whole (py_amount p)" "0 < py_amount p"
    and snap: "repay_read lan p db = Inr (RS_New loan rps)"
    and fits: "whole (rs_paid rps + py_amount p)"
    and new: "rp_paymentId (new_repayment store rid genId lan loan p now) \<notin> rp_paymentId ` set (rd_repayments db)"
    and i: "i = min (py_amount p) (max 0 (rs_interest rps - rs_paid rps))"
    and q: "q = min (py_amount p - i) (max 0 (rs_principal rps - max 0 (rs_paid rps - rs_interest rps)))"
    and ch: "charged_of store lan (py_amount p - i - q) (rd_charges db) = (charged, out)"
    and rem: "remaining = max 0 (rs_emi rps - (rs_paid rps + py_amount p))"
    and row: "f = (\<lambda>r. r\<lparr>rs_paid := rs_paid rps + py_amount p, rs_remaining := remaining,
        rs_status := (if remaining = 0 then ''PAID'' else ''PARTIAL''), rs_paymentDate := Some now\<rparr>)"
    and full: "fullyPaid = (remaining = 0 \<and> count_rows (\<lambda>r. rs_lan r = lan \<and> rs_status r \<noteq> ''PAID'')
        (update_many (\<lambda>r. rs_id r = rs_id rps) f (rd_schedule db)) = 0)"
  shows "repay_write store rid genId lan p (RS_New loan rps) now db =
    (Inr (RP_Done \<lparr>rr_paymentId = rp_paymentId (new_repayment store rid genId lan loan p now),
        rr_remaining = remaining, rr_status = (if remaining = 0 then ''PAID'' else ''PARTIAL''),
        rr_fullyPaid = fullyPaid, rr_applicationId = sl_applicationId loan, rr_repaymentId = rid\<rparr>),
     db\<lparr>rd_repayments := rd_repayments db @ [new_repayment store rid genId lan loan p now],
        rd_allocations := rd_allocations db @ new_allocations store rid lan (py_installmentNumber p) i q charged,
        rd_charges := write_charges (map fst charged) (rd_charges db),
        rd_schedule := update_many (\<lambda>r. rs_id r = rs_id rps) f (rd_schedule db),
        rd_loans := (if fullyPaid
           then update_many (\<lambda>l. sl_id l = sl_id loan) (\<lambda>l. l\<lparr>sl_status := ''FULLY_PAID''\<rparr>) (rd_loans db)
           else rd_loans db),
        rd_applications := (if fullyPaid
           then update_many (\<lambda>a. fst a = sl_applicationId loan) (\<lambda>a. (fst a, ''LOAN_CLOSED'')) (rd_applications db)
           else rd_applications db),
        rd_outbox := rd_outbox db @ [''LENDER_NOTIFY_REPAYMENT'']\<rparr>)"
proof -
  from books_okD(5) [OF ok repay_read_New(1) [OF snap]]
  have w: "whole (rs_emi rps)" "whole (rs_interest rps)" "whole (rs_principal rps)" "whole (rs_paid rps)"
    unfolding instalment_ok_def by blast+
  from waterfall_whole [OF w(2,3,4) amt(1) i q]
  have wf: "waterfall rps (py_amount p) = (i, q, py_amount p - i - q)" by blast
  note e = dbl_whole [OF w(1)] dbl_whole [OF w(4)] dbl_add [OF w(4) amt(1)] dbl_diff [OF w(1) fits]
  have "whole remaining" unfolding rem by (rule whole_max_diff [OF w(1) fits])
  then have s: "store remaining = remaining" "store (rs_paid rps + py_amount p) = rs_paid rps + py_amount p"
    using st fits by (simp_all add: store_ok_def)
  have st2: "((if remaining = 0 then ''PAID'' else ''PARTIAL'') = ''PAID'') = (remaining = 0)" by simp
  show ?thesis
    unfolding repay_write_def full row
    by (simp only: repay_snapshot.case Let_def wf prod.case e rem [symmetric] s st2 new if_False
        ch [unfolded charged_of_def])
qed

text \<open>A repayment request either leaves the database alone or is such a write.\<close>

lemma processRepayment_cases:
  obtains "snd (processRepayment store rid genId lanInput p now db) = db"
    "\<And>d. fst (processRepayment store rid genId lanInput p now db) \<noteq> Inr (RP_Done d)"
  | loan rps where "0 < py_amount p" "repay_read (repay_lan lanInput) p db = Inr (RS_New loan rps)"
    "rp_paymentId (new_repayment store rid genId (repay_lan lanInput) loan p now) \<notin> rp_paymentId ` set (rd_repayments db)"
    "processRepayment store rid genId lanInput p now db =
      repay_write store rid genId (repay_lan lanInput) p (RS_New loan rps) now db"
proof (cases "repay_payload_check lanInput p")
  case (Some e)
  with that(1) show ?thesis by (simp add: processRepayment_def)
next
  case None
  then have pos: "0 < py_amount p" by (simp add: repay_payload_check_def split: if_splits)
  show ?thesis
  proof (cases "repay_read (repay_lan lanInput) p db")
    case (Inl e)
    with None that(1) show ?thesis by (simp add: processRepayment_def)
  next
    case (Inr snap)
    with None have w: "processRepayment store rid genId lanInput p now db =
      repay_write store rid genId (repay_lan lanInput) p snap now db" by (simp add: processRepayment_def)
    show ?thesis
    proof (cases snap)
      case (RS_Duplicate x)
      with w that(1) show ?thesis by (simp add: repay_write_def)
    next
      case (RS_New loan rps)
      show ?thesis
      proof (cases "rp_paymentId (new_repayment store rid genId (repay_lan lanInput) loan p now) \<in> rp_paymentId ` set (rd_repayments db)")
        case True
        then have "repay_write store rid genId (repay_lan lanInput) p (RS_New loan rps) now db = (Inl (DbError ''P2002''), db)"
          by (simp add: repay_write_def Let_def)
        with w RS_New that(1) show ?thesis by simp
      next
        case False
        from that(2) [OF pos _ False] Inr w RS_New show ?thesis by simp
      qed
    qed
  qed
qed

lemma processRepayment_Done:
  assumes "processRepayment store rid genId lanInput p now db = (Inr (RP_Done d), db')"
  obtains loan rps where "0 < py_amount p" "repay_read (repay_lan lanInput) p db = Inr (RS_New loan rps)"
    "rp_paymentId (new_repayment store rid genId (repay_lan lanInput) loan p now) \<notin> rp_paymentId ` set (rd_repayments db)"
    "repay_write store rid genId (repay_lan lanInput) p (RS_New loan rps) now db = (Inr (RP_Done d), db')"
proof (rule processRepayment_cases [of store rid genId lanInput p now db])
  assume "\<And>d. fst (processRepayment store rid genId lanInput p now db) \<noteq> Inr (RP_Done d)"
  from this [of d] assms show ?thesis by simp
next
  fix loan rps
  assume "0 < py_amount p" "repay_read (repay_lan lanInput) p db = Inr (RS_New loan rps)"
    "rp_paymentId (new_repayment store rid genId (repay_lan lanInput) loan p now) \<notin> rp_paymentId ` set (rd_repayments db)"
    "processRepayment store rid genId lanInput p now db =
      repay_write store rid genId (repay_lan lanInput) p (RS_New loan rps) now db"
  with that assms show ?thesis by simp
qed

text \<open>The instalments after the write.\<close>

lemma repaid_instalment_ok:
  assumes inst: "instalment_ok als r" and amt: "whole a" and fit: "whole (rs_paid r + a)"
    and i: "i = min a (max 0 (rs_interest r - rs_paid r))"
    and q: "q = min (a - i) (max 0 (rs_principal r - max 0 (rs_paid r - rs_interest r)))"
    and new: "allocated news (rs_lan r) (rs_number r) ''INTEREST'' = i"
      "allocated news (rs_lan r) (rs_number r) ''PRINCIPAL'' = q"
    and rem: "remaining = max 0 (rs_emi r - (rs_paid r + a))"
  shows "instalment_ok (als @ news) (r\<lparr>rs_paid := rs_paid r + a, rs_remaining := remaining,
    rs_status := (if remaining = 0 then ''PAID'' else ''PARTIAL''), rs_paymentDate := t\<rparr>)"
proof -
  from inst have w: "whole (rs_emi r)" "whole (rs_interest r)" "whole (rs_principal r)" "whole (rs_paid r)"
    "rs_interest r + rs_principal r = rs_emi r"
    and al: "allocated als (rs_lan r) (rs_number r) ''INTEREST'' = min (rs_paid r) (rs_interest r)"
      "allocated als (rs_lan r) (rs_number r) ''PRINCIPAL'' = min (max 0 (rs_paid r - rs_interest r)) (rs_principal r)"
    unfolding instalment_ok_def by blast+
  have n: "0 \<le> rs_paid r" "0 \<le> rs_interest r" "0 \<le> rs_principal r" "0 \<le> a"
    using w(2-4) amt by (simp_all add: whole_def)
  note T = split_totals [OF n i q]
  have "allocated (als @ news) (rs_lan r) (rs_number r) ''INTEREST'' = min (rs_paid r + a) (rs_interest r)"
    "allocated (als @ news) (rs_lan r) (rs_number r) ''PRINCIPAL''
      = min (max 0 (rs_paid r + a - rs_interest r)) (rs_principal r)"
    by (simp_all only: allocated_append al new T)
  with w fit rem show ?thesis unfolding instalment_ok_def by simp (simp add: max_def)
qed

lemma repaid_schedule_ok:
  assumes ok: "books_ok db" and rps: "rps \<in> set (rd_schedule db)"
    and f: "\<And>r. rs_lan (f r) = rs_lan r \<and> rs_number (f r) = rs_number r"
    and new: "instalment_ok (rd_allocations db @ news) (f rps)"
    and key: "\<And>a. a \<in> set news \<Longrightarrow> (al_lan a, al_number a) = (rs_lan rps, rs_number rps)"
    and r: "r \<in> set (update_many (\<lambda>r. rs_id r = rs_id rps) f (rd_schedule db))"
  shows "instalment_ok (rd_allocations db @ news) r"
  using r
proof (rule update_many_obtain)
  note I = books_okD [OF ok]
  fix x assume x: "x \<in> set (rd_schedule db)" "\<not> rs_id x = rs_id rps" "r = x"
  have "(rs_lan x, rs_number x) \<noteq> (rs_lan rps, rs_number rps)"
    using unique_keys_eq [OF I(2) x(1) rps] x(2) by auto
  with key have "allocated news (rs_lan x) (rs_number x) part = 0" for part
    by (intro allocated_none) force
  then show ?thesis
    unfolding x(3) by (intro instalment_ok_cong [OF I(5) [OF x(1)]]) (simp add: allocated_append)
next
  fix x assume x: "x \<in> set (rd_schedule db)" "rs_id x = rs_id rps" "r = f x"
  with unique_keys_eq [OF books_okD(1) [OF ok] x(1) rps x(2)] new show ?thesis by simp
qed

lemma repaid_books_ok:
  assumes ok: "books_ok db" and rps: "rps \<in> set (rd_schedule db)"
    and f: "\<And>r. rs_id (f r) = rs_id r \<and> rs_lan (f r) = rs_lan r \<and> rs_number (f r) = rs_number r"
    and inst: "instalment_ok (rd_allocations db @ news) (f rps)"
    and key: "\<And>a. a \<in> set news \<Longrightarrow> (al_lan a, al_number a) = (rs_lan rps, rs_number rps)"
    and cs: "\<And>c. c \<in> set cs \<Longrightarrow> charge_ok (rd_waivers db) c" "map ch_id cs = map ch_id (rd_charges db)"
    and rep: "rp_paymentId rep \<notin> rp_paymentId ` set (rd_repayments db)"
  shows "books_ok (db\<lparr>rd_repayments := rd_repayments db @ [rep], rd_allocations := rd_allocations db @ news,
    rd_charges := cs, rd_schedule := update_many (\<lambda>r. rs_id r = rs_id rps) f (rd_schedule db),
    rd_loans := loans, rd_applications := apps, rd_outbox := out\<rparr>)"
proof -
  note I = books_okD [OF ok]
  let ?sched = "update_many (\<lambda>r. rs_id r = rs_id rps) f (rd_schedule db)"
  have sched: "instalment_ok (rd_allocations db @ news) r" if "r \<in> set ?sched" for r
    by (rule repaid_schedule_ok [OF ok rps _ inst key that]) (use f in blast)
  have keys: "map (\<lambda>r. (rs_lan r, rs_number r)) ?sched = map (\<lambda>r. (rs_lan r, rs_number r)) (rd_schedule db)"
    "map rs_id ?sched = map rs_id (rd_schedule db)"
    by (rule map_key_update_many; simp add: f)+
  have sets: "(\<lambda>r. (rs_lan r, rs_number r)) ` set ?sched = (\<lambda>r. (rs_lan r, rs_number r)) ` set (rd_schedule db)"
    "ch_id ` set cs = ch_id ` set (rd_charges db)"
    by (simp_all only: list.set_map [symmetric] keys cs(2))
  have als: "(al_lan a, al_number a) \<in> (\<lambda>r. (rs_lan r, rs_number r)) ` set (rd_schedule db)"
    if "a \<in> set (rd_allocations db @ news)" for a
    using that I(7) [of a] key [of a] rps by (auto simp: image_iff)
  show ?thesis
    unfolding books_ok_def using sched als cs(1) I(8) rep I(4)
    by (simp add: unique_keys_def keys cs(2) sets I(1-3) [unfolded unique_keys_def])
qed

lemma repay_books:
  assumes ok: "books_ok db" and st: "store_ok store" and amt: "whole (py_amount p)"
    and fits: "\<forall>r\<in>set (rd_schedule db). whole (rs_paid r + py_amount p)"
  shows "books_ok (snd (processRepayment store rid genId lanInput p now db))"
proof (rule processRepayment_cases [of store rid genId lanInput p now db])
  assume "snd (processRepayment store rid genId lanInput p now db) = db"
  with ok show ?thesis by simp
next
  let ?lan = "repay_lan lanInput" and ?a = "py_amount p"
  fix loan rps
  assume pos: "0 < ?a" and snap: "repay_read ?lan p db = Inr (RS_New loan rps)"
    and new: "rp_paymentId (new_repayment store rid genId ?lan loan p now) \<notin> rp_paymentId ` set (rd_repayments db)"
    and run: "processRepayment store rid genId lanInput p now db =
      repay_write store rid genId ?lan p (RS_New loan rps) now db"
  note I = books_okD [OF ok] and R = repay_read_New [OF snap]
  define i where "i = min ?a (max 0 (rs_interest rps - rs_paid rps))"
  define q where "q = min (?a - i) (max 0 (rs_principal rps - max 0 (rs_paid rps - rs_interest rps)))"
  obtain charged out where ch: "charged_of store ?lan (?a - i - q) (rd_charges db) = (charged, out)"
    by fastforce
  define remaining where "remaining = max 0 (rs_emi rps - (rs_paid rps + ?a))"
  define f :: "instalment \<Rightarrow> instalment" where "f = (\<lambda>r. r\<lparr>rs_paid := rs_paid rps + ?a, rs_remaining := remaining,
        rs_status := (if remaining = 0 then ''PAID'' else ''PARTIAL''), rs_paymentDate := Some now\<rparr>)"
  have inst: "instalment_ok (rd_allocations db) rps" by (rule I(5) [OF R(1)])
  then have w: "whole (rs_interest rps)" "whole (rs_principal rps)" "whole (rs_paid rps)"
    unfolding instalment_ok_def by blast+
  from waterfall_whole [OF w amt i_def q_def] have wq: "whole i" "whole q" "whole (?a - i - q)" by blast+
  note fit = bspec [OF fits R(1)]
  note W = repay_write_New [OF ok st amt pos snap fit new i_def q_def ch remaining_def f_def refl]
  let ?news = "new_allocations store rid ?lan (py_installmentNumber p) i q charged"
  have cs: "\<forall>c\<in>set (rd_charges db). charge_ok (rd_waivers db) c" using I(6) by blast
  note C = charged_of_whole [OF st cs wq(3) ch]
  note N = new_allocations_allocated [OF st wq(1,2) C(3)]
  have key: "(al_lan a, al_number a) = (rs_lan rps, rs_number rps)" if "a \<in> set ?news" for a
    using new_allocations_key [OF that] R(2,3) by simp
  have "instalment_ok (rd_allocations db @ ?news) (f rps)"
    unfolding f_def by (rule repaid_instalment_ok [OF inst amt fit i_def q_def _ _ remaining_def])
      (simp_all add: N R(2,3))
  moreover have "rs_id (f r) = rs_id r \<and> rs_lan (f r) = rs_lan r \<and> rs_number (f r) = rs_number r" for r
    by (simp add: f_def)
  ultimately show ?thesis
    unfolding run W snd_conv using R(1) key write_charges_ok [OF st cs C(2)] new
    by (intro repaid_books_ok [OF ok]) blast+
qed

lemma servicing_books: "servicing store db0 db \<Longrightarrow> store_ok store \<Longrightarrow> books_ok db0 \<Longrightarrow> books_ok db"
proof (induction rule: servicing.induct)
  case (disbursed db0 db newId lan amount rate days d first)
  then show ?case by (intro disburse_books) simp_all
next
  case (repaid db0 db p rid genId lanInput now)
  then show ?case by (intro repay_books) simp_all
next
  case (charged db0 db cid amount ty lanInput due remarks)
  then show ?case by (intro charge_books) simp_all
next
  case (waivered db0 db amount lanInput cid actor remarks)
  then show ?case by (intro waive_books) simp_all
qed

lemma instalment_okD:
  assumes "instalment_ok als r"
  shows "rs_interest r + rs_principal r = rs_emi r"
    "rs_remaining r = max 0 (rs_emi r - rs_paid r)"
    "rs_status r = ''PAID'' \<longleftrightarrow> rs_remaining r = 0"
    "allocated als (rs_lan r) (rs_number r) ''INTEREST'' = min (rs_paid r) (rs_interest r)"
    "allocated als (rs_lan r) (rs_number r) ''PRINCIPAL'' = min (max 0 (rs_paid r - rs_interest r)) (rs_principal r)"
    "whole (rs_emi r)" "whole (rs_interest r)" "whole (rs_principal r)" "whole (rs_paid r)"
  using assms unfolding instalment_ok_def by blast+

lemma charge_okD:
  assumes "charge_ok ws c"
  shows "ch_paid c + ch_remaining c + waived ws (ch_id c) = ch_amount c"
    "0 \<le> ch_paid c" "0 \<le> ch_remaining c"
    "ch_status c \<in> {''PENDING'', ''PARTIAL''} \<longleftrightarrow> 0 < ch_remaining c"
  using assms unfolding charge_ok_def whole_def by blast+

section \<open>Properties\<close>

text \<open>
  C9. The books balance: after any sequence, served one request after another in whole rupees
  within the columns, of disbursals (each writing the schedule of a loan that has none),
  repayments, waivers and charges of any type but INTEREST and PRINCIPAL (whose allocations
  could not be told from those of the instalment), what an instalment has been paid is allocated
  to its interest first and then to its principal, it is PAID exactly when nothing remains of it,
  every charge is the sum of what was paid, waived and is outstanding, and no payment id was
  counted twice.
\<close>

theorem books_balance:
  assumes "servicing store db0 db" and "store_ok store" and "books_ok db0"
  shows "(\<forall>r\<in>set (rd_schedule db).
      allocated (rd_allocations db) (rs_lan r) (rs_number r) ''INTEREST'' = min (rs_paid r) (rs_interest r)
      \<and> allocated (rd_allocations db) (rs_lan r) (rs_number r) ''PRINCIPAL''
          = min (max 0 (rs_paid r - rs_interest r)) (rs_principal r)
      \<and> rs_remaining r = max 0 (rs_interest r + rs_principal r - rs_paid r)
      \<and> (rs_status r = ''PAID'' \<longleftrightarrow> rs_remaining r = 0))
   \<and> (\<forall>c\<in>set (rd_charges db).
      ch_paid c + ch_remaining c + waived (rd_waivers db) (ch_id c) = ch_amount c
      \<and> 0 \<le> ch_paid c \<and> 0 \<le> ch_remaining c
      \<and> (ch_status c \<in> {''PENDING'', ''PARTIAL''} \<longleftrightarrow> 0 < ch_remaining c))
   \<and> distinct (map rp_paymentId (rd_repayments db))"
proof (intro conjI ballI)
  note ok = servicing_books [OF assms]
  note I = books_okD [OF ok]
  show "distinct (map rp_paymentId (rd_repayments db))" using I(4) by (simp add: unique_keys_def)
  fix r assume "r \<in> set (rd_schedule db)"
  note J = instalment_okD [OF I(5) [OF this]]
  show "allocated (rd_allocations db) (rs_lan r) (rs_number r) ''INTEREST'' = min (rs_paid r) (rs_interest r)"
    by (rule J(4))
  show "allocated (rd_allocations db) (rs_lan r) (rs_number r) ''PRINCIPAL''
      = min (max 0 (rs_paid r - rs_interest r)) (rs_principal r)"
    by (rule J(5))
  show "rs_remaining r = max 0 (rs_interest r + rs_principal r - rs_paid r)"
    unfolding J(1) by (rule J(2))
  show "(rs_status r = ''PAID'') = (rs_remaining r = 0)"
    by (rule J(3))
next
  fix c assume "c \<in> set (rd_charges db)"
  note J = charge_okD [OF books_okD(6) [OF servicing_books [OF assms] this]]
  show "ch_paid c + ch_remaining c + waived (rd_waivers db) (ch_id c) = ch_amount c" by (rule J(1))
  show "0 \<le> ch_paid c" by (rule J(2))
  show "0 \<le> ch_remaining c" by (rule J(3))
  show "(ch_status c \<in> {''PENDING'', ''PARTIAL''}) = (0 < ch_remaining c)" by (rule J(4))
qed

lemma charges_settled:
  assumes st: "store_ok store" and cs: "\<forall>c\<in>set cs. charge_ok ws c" and w: "whole left"
    and ch: "charged_of store lan left cs = (charged, out)" and out: "0 < out"
    and c: "c \<in> set (write_charges (map fst charged) cs)" "ch_lan c = lan"
  shows "ch_remaining c = 0"
proof -
  note C = charged_of_whole [OF st cs w ch]
  from c(1) obtain x where x: "x \<in> set cs"
    "c = (case find_unique ch_id (ch_id x) (map fst charged) of None \<Rightarrow> x | Some u \<Rightarrow> u)"
    by (auto simp: write_charges_def)
  show ?thesis
  proof (cases "find_unique ch_id (ch_id x) (map fst charged)")
    case None
    have ids: "ch_id ` set (map fst charged) = ch_id ` set (pending_charges lan cs)"
      using arg_cong [OF conjunct1 [OF C(4) [OF out]], of set] by (simp add: image_image)
    from None have "ch_id x \<notin> ch_id ` set (pending_charges lan cs)"
      by (simp only: find_unique_None_iff ids simp_thms)
    moreover from x None have cx: "c = x" by simp
    ultimately have "x \<notin> set (pending_charges lan cs)" by blast
    with x(1) c(2) cx have "ch_status c \<notin> {''PENDING'', ''PARTIAL''}" "c \<in> set cs"
      by (simp_all add: pending_charges_def)
    with cs have ok: "charge_ok ws c" by blast
    from charge_okD(3,4) [OF ok] \<open>ch_status c \<notin> {''PENDING'', ''PARTIAL''}\<close> show ?thesis by linarith
  next
    case (Some u)
    from find_unique_Some_D [OF this] C(4) [OF out] x(2) Some show ?thesis by auto
  qed
qed

text \<open>
  The loop in order: it walks down the charges it is given, each gets what is left or what it
  still owes, whichever is less, and it stops before the end only when nothing is left.
\<close>

definition settle :: "rat \<Rightarrow> charge_row \<Rightarrow> charge_row" where
  "settle a c = c\<lparr>ch_paid := ch_paid c + a, ch_remaining := ch_remaining c - a,
     ch_status := (if ch_remaining c = a then ''PAID'' else ''PARTIAL'')\<rparr>"

lemma pay_charge_settle:
  assumes "store_ok store" and "charge_ok ws c" and "whole a" and "a \<le> ch_remaining c"
  shows "pay_charge store a c = settle a c"
proof -
  have w: "whole (ch_paid c)" "whole (ch_remaining c)"
    using assms(2) unfolding charge_ok_def by blast+
  note P = pay_charge_whole [OF assms]
  have "dbl (dbl (ch_remaining c) - a) = ch_remaining c - a"
    using dbl_diff [OF w(2) assms(3)] w(2) by simp
  with P(1,2) show ?thesis
    by (simp add: settle_def pay_charge_def Let_def)
qed

lemma charge_loop_order:
  assumes "store_ok store" and "\<forall>c\<in>set cs. charge_ok ws c" and "whole u"
    and "charge_loop store u cs = (upd, out)"
  shows "length upd \<le> length cs \<and> (length upd < length cs \<longrightarrow> out = 0)
    \<and> (\<forall>k<length upd. fst (upd ! k) = settle (snd (upd ! k)) (cs ! k)
        \<and> snd (upd ! k) = min (u - sum_list (take k (map snd upd))) (ch_remaining (cs ! k)))"
  using assms(2-4)
proof (induction cs arbitrary: u upd out)
  case Nil
  then show ?case by simp
next
  case (Cons c cs)
  show ?case
  proof (cases "u \<le> 0")
    case True
    with Cons.prems(2,3) show ?thesis by (auto simp: whole_def)
  next
    case False
    have c: "charge_ok ws c" using Cons.prems(1) by simp
    then have wr: "whole (ch_remaining c)" by (simp add: charge_ok_def)
    let ?a = "min u (ch_remaining c)"
    have a: "whole ?a" "?a \<le> ch_remaining c" using Cons.prems(2) wr by (simp_all add: whole_min)
    have d: "dbl (u - ?a) = u - ?a" by (rule dbl_diff [OF Cons.prems(2) a(1)])
    have wu: "whole (u - ?a)" using Cons.prems(2) a(1) by (simp add: whole_diff)
    obtain rest o' where rest: "charge_loop store (u - ?a) cs = (rest, o')" by fastforce
    have upd: "upd = (settle ?a c, ?a) # rest" "out = o'"
      using Cons.prems(3) False rest d wr pay_charge_settle [OF assms(1) c a]
      by (auto simp: Let_def)
    have IH: "length rest \<le> length cs \<and> (length rest < length cs \<longrightarrow> out = 0)
        \<and> (\<forall>k<length rest. fst (rest ! k) = settle (snd (rest ! k)) (cs ! k)
          \<and> snd (rest ! k) = min (u - ?a - sum_list (take k (map snd rest))) (ch_remaining (cs ! k)))"
      using Cons.IH [OF _ wu rest] Cons.prems(1) upd(2) by simp
    have "fst (upd ! k) = settle (snd (upd ! k)) ((c # cs) ! k)
        \<and> snd (upd ! k) = min (u - sum_list (take k (map snd upd))) (ch_remaining ((c # cs) ! k))"
      if "k < length upd" for k
      using that IH unfolding upd(1) by (cases k) (simp_all add: diff_diff_eq)
    with IH show ?thesis unfolding upd(1) by simp
  qed
qed

lemma charged_of_order:
  assumes "store_ok store" and "\<forall>c\<in>set cs. charge_ok ws c" and "whole left"
    and "charged_of store lan left cs = (charged, out)"
    and L: "L = sort_key ch_id (filter (\<lambda>c. ch_lan c = lan \<and> 0 < ch_remaining c) cs)"
  shows "length charged \<le> length L" and "length charged < length L \<longrightarrow> out = 0"
    and "\<forall>k<length charged. fst (charged ! k) = settle (snd (charged ! k)) (L ! k)
        \<and> snd (charged ! k) = min (left - sum_list (take k (map snd charged))) (ch_remaining (L ! k))"
proof -
  have "filter (\<lambda>c. ch_lan c = lan \<and> ch_status c \<in> {''PENDING'', ''PARTIAL''}) cs =
      filter (\<lambda>c. ch_lan c = lan \<and> 0 < ch_remaining c) cs"
    using assms(2) charge_okD(4) by (intro filter_cong) blast+
  then have P: "pending_charges lan cs = L" by (simp add: pending_charges_def L)
  have ok: "\<forall>c\<in>set L. charge_ok ws c" using assms(2) by (simp add: L)
  have "length charged \<le> length L \<and> (length charged < length L \<longrightarrow> out = 0)
    \<and> (\<forall>k<length charged. fst (charged ! k) = settle (snd (charged ! k)) (L ! k)
        \<and> snd (charged ! k) = min (left - sum_list (take k (map snd charged))) (ch_remaining (L ! k)))"
  proof (cases "left > 0")
    case True
    with assms(4) P have "charge_loop store left L = (charged, out)" by (simp add: charged_of_def)
    from charge_loop_order [OF assms(1) ok assms(3) this] show ?thesis .
  next
    case False
    with assms(3,4) show ?thesis by (auto simp: charged_of_def whole_def)
  qed
  then show "length charged \<le> length L" and "length charged < length L \<longrightarrow> out = 0"
    and "\<forall>k<length charged. fst (charged ! k) = settle (snd (charged ! k)) (L ! k)
        \<and> snd (charged ! k) = min (left - sum_list (take k (map snd charged))) (ch_remaining (L ! k))"
    by blast+
qed


text \<open>A repayment that was booked: its rows in terms of what was read.\<close>

lemma repay_write_booked:
  assumes "repay_write store rid genId lan p (RS_New loan rps) now db = (Inr x, db')"
  shows "rd_repayments db' = rd_repayments db @ [new_repayment store rid genId lan loan p now]"
    and "r \<in> set (rd_schedule db') \<Longrightarrow> rs_id r = rs_id rps \<Longrightarrow>
      rs_paid r = store (dbl (dbl (rs_paid rps) + py_amount p))"
proof -
  let ?rep = "new_repayment store rid genId lan loan p now"
  have new: "rp_paymentId ?rep \<notin> rp_paymentId ` set (rd_repayments db)"
    using assms by (auto simp: repay_write_def Let_def split: if_splits)
  obtain i q left charged out where s: "waterfall rps (py_amount p) = (i, q, left)"
    "(if left > 0 then charge_loop store left (pending_charges lan (rd_charges db)) else ([], left)) = (charged, out)"
    by (metis prod_cases3 surj_pair)
  note eq = assms [unfolded repay_write_def Let_def repay_snapshot.case s prod.case if_not_P [OF new] s(2) prod.inject]
  show "rd_repayments db' = rd_repayments db @ [?rep]"
    unfolding conjunct2 [OF eq, symmetric] by simp
  show "rs_paid r = store (dbl (dbl (rs_paid rps) + py_amount p))" if "r \<in> set (rd_schedule db')" "rs_id r = rs_id rps"
    using that unfolding conjunct2 [OF eq, symmetric] by (auto simp: update_many_def)
qed

lemma processRepayment_appends:
  "\<exists>xs. rd_repayments (snd (processRepayment store rid genId lanInput p now db)) = rd_repayments db @ xs"
proof (rule processRepayment_cases [of store rid genId lanInput p now db])
  assume "snd (processRepayment store rid genId lanInput p now db) = db"
  then show ?thesis by simp
next
  fix loan rps
  assume new: "rp_paymentId (new_repayment store rid genId (repay_lan lanInput) loan p now) \<notin> rp_paymentId ` set (rd_repayments db)"
    and run: "processRepayment store rid genId lanInput p now db =
      repay_write store rid genId (repay_lan lanInput) p (RS_New loan rps) now db"
  obtain x db' where w: "repay_write store rid genId (repay_lan lanInput) p (RS_New loan rps) now db = (x, db')"
    by fastforce
  show ?thesis
  proof (cases x)
    case (Inl e)
    with w new show ?thesis
      by (simp add: repay_write_def Let_def split_beta)
  next
    case (Inr y)
    from repay_write_booked(1) [OF w [unfolded Inr]] show ?thesis by (simp add: run w)
  qed
qed

lemma servicing_keeps_repayments:
  "servicing store db0 db \<Longrightarrow> \<exists>xs. rd_repayments db = rd_repayments db0 @ xs"
proof (induction rule: servicing.induct)
  case (repaid db0 db p rid genId lanInput now)
  from repaid.IH processRepayment_appends [of store rid genId lanInput p now db] show ?case by force
next
  case (charged db0 db cid amount ty lanInput due remarks)
  have "rd_repayments (snd (addLoanCharge store cid lanInput ty amount due remarks db)) = rd_repayments db"
    by (simp add: addLoanCharge_def Let_def split: option.split)
  with charged.IH show ?case by simp
next
  case (waivered db0 db amount lanInput cid actor remarks)
  have "rd_repayments (snd (waiveLoanCharge store lanInput cid amount actor remarks db)) = rd_repayments db"
    by (simp add: waiveLoanCharge_def waive_write_def Let_def split: sum.split)
  with waivered.IH show ?case by simp
qed simp_all

text \<open>
  A repayment is booked once: after one with a reference, whatever was served in between, a
  request of the same loan with that reference changes nothing; it is answered as a duplicate
  or refused.
\<close>

theorem repayment_booked_once:
  assumes "processRepayment store rid genId lanInput p now db = (Inr (RP_Done d), db')"
    and "truthy_str (py_reference p) = Some r" and "servicing store db' db2"
    and "repay_lan lanInput2 = repay_lan lanInput" and "truthy_str (py_reference p2) = Some r"
  shows "snd (processRepayment store rid2 genId2 lanInput2 p2 now2 db2) = db2
    \<and> (\<forall>e. fst (processRepayment store rid2 genId2 lanInput2 p2 now2 db2) \<noteq> Inr (RP_Done e))"
proof -
  have "\<exists>x\<in>set (rd_repayments db'). rp_lan x = repay_lan lanInput \<and> rp_reference x = r"
  proof -
    obtain loan rps where "repay_write store rid genId (repay_lan lanInput) p (RS_New loan rps) now db = (Inr (RP_Done d), db')"
      by (rule processRepayment_Done [OF assms(1)])
    from repay_write_booked(1) [OF this] show ?thesis by (simp add: new_repayment_def Let_def assms(2))
  qed
  with servicing_keeps_repayments [OF assms(3)]
  have "List.find (\<lambda>x. rp_lan x = repay_lan lanInput \<and> rp_reference x = r) (rd_repayments db2) \<noteq> None"
    by (auto simp: find_None_iff)
  then have no: "repay_read (repay_lan lanInput2) p2 db2 \<noteq> Inr (RS_New loan rps)" for loan rps
    by (auto simp: repay_read_def assms(4,5) split: option.splits)
  show ?thesis
    by (rule processRepayment_cases [of store rid2 genId2 lanInput2 p2 now2 db2]) (use no in blast)+
qed

text \<open>
  C20. Two repayments of an instalment that both read before either writes lose one: both are
  booked, but the instalment keeps only the second one's amount as paid.
\<close>

theorem concurrent_repayments_lose_one:
  assumes "repay_read lan p1 db = Inr (RS_New loan rps)" and "repay_read lan p2 db = Inr (RS_New loan rps)"
    and "repay_write store rid1 gen1 lan p1 (RS_New loan rps) now1 db = (Inr x1, db1)"
    and "repay_write store rid2 gen2 lan p2 (RS_New loan rps) now2 db1 = (Inr x2, db2)"
  shows "rd_repayments db2 = rd_repayments db @
      [new_repayment store rid1 gen1 lan loan p1 now1, new_repayment store rid2 gen2 lan loan p2 now2]
    \<and> (\<forall>r\<in>set (rd_schedule db2). rs_id r = rs_id rps \<longrightarrow>
        rs_paid r = store (dbl (dbl (rs_paid rps) + py_amount p2)))"
  using repay_write_booked [OF assms(3)] repay_write_booked [OF assms(4)] by auto

text \<open>
  The interest of the schedule is not always the interest that was accepted: for 2500 rupees
  at 21.9 percent over 15 days, credit review stores 23 as accepted and the schedule charges 22.
\<close>

theorem schedule_interest_differs:
  "calculateRps_interest 2500 (dbl (219/10)) 15 = 22 \<and> accepted_interest 2500 (dbl (219/10)) 15 = 23"
  by (rule conjI; code_simp)

lemma exact_rest:
  assumes "instalment_ok als r" and "rs_paid r \<le> rs_emi r" and "a = rs_emi r - rs_paid r"
    and "i = min a (max 0 (rs_interest r - rs_paid r))"
    and "q = min (a - i) (max 0 (rs_principal r - max 0 (rs_paid r - rs_interest r)))"
  shows "a - i - q = 0"
proof -
  note J = instalment_okD [OF assms(1)]
  have "0 \<le> rs_paid r" "0 \<le> rs_interest r" "0 \<le> rs_principal r" using J(7-9) by (simp_all add: whole_def)
  with J(1) assms(2) show ?thesis unfolding assms(3-5) by (simp add: min_def max_def split: if_splits)
qed

text \<open>A paid instalment is found first whatever the payload.\<close>

lemma paid_instalment_refused:
  assumes "r \<in> set (rd_schedule db)" "rs_status r = ''PAID''"
    and "unique_keys (\<lambda>r. (rs_lan r, rs_number r)) (rd_schedule db)"
    and "rs_lan r = repay_lan lanInput" "rs_number r = py_installmentNumber p"
    and "repay_payload_check lanInput p = None"
    and "\<exists>l\<in>set (rd_loans db). sl_lan l = repay_lan lanInput"
  shows "processRepayment store rid genId lanInput p now db =
    (Inl (BadRequest ''Installment is already fully paid.''), db)"
proof -
  obtain l where l: "List.find (\<lambda>l. sl_lan l = repay_lan lanInput) (rd_loans db) = Some l"
    using assms(7) by (cases "List.find (\<lambda>l. sl_lan l = repay_lan lanInput) (rd_loans db)") (auto simp: find_None_iff)
  obtain r' where r': "List.find (\<lambda>r. rs_lan r = repay_lan lanInput \<and> rs_number r = py_installmentNumber p) (rd_schedule db) = Some r'"
    using assms(1,4,5)
    by (cases "List.find (\<lambda>r. rs_lan r = repay_lan lanInput \<and> rs_number r = py_installmentNumber p) (rd_schedule db)")
      (auto simp: find_None_iff)
  then have "r' \<in> set (rd_schedule db)" "rs_lan r' = repay_lan lanInput" "rs_number r' = py_installmentNumber p"
    by (auto simp: find_Some_iff)
  with unique_keys_eq [OF assms(3) _ assms(1), of r'] assms(4,5) have "r' = r" by simp
  with assms(2) have "repay_read (repay_lan lanInput) p db = Inl (BadRequest ''Installment is already fully paid.'')"
    by (simp add: repay_read_def l r')
  with assms(6) show ?thesis by (simp add: processRepayment_def)
qed

text \<open>
  Charges outlive the loan: a repayment of exactly what remains of an instalment leaves every
  charge as it was, and from then on any request to pay that instalment is refused as fully paid.
  Where it was the only instalment open, the loan is reported as fully paid all the same.
\<close>

theorem exact_payment_leaves_charges:
  assumes "books_ok db" and "store_ok store" and "whole (py_amount p)"
    and "repay_read (repay_lan lanInput) p db = Inr (RS_New loan rps)"
    and "py_amount p = rs_remaining rps" and "rs_paid rps \<le> rs_emi rps"
    and "processRepayment store rid genId lanInput p now db = (Inr (RP_Done d), db')"
    and "repay_payload_check lanInput p2 = None" and "py_installmentNumber p2 = py_installmentNumber p"
  shows "rd_charges db' = rd_charges db \<and> rr_status d = ''PAID''
    \<and> (rr_fullyPaid d \<longleftrightarrow> (\<forall>r\<in>set (rd_schedule db'). rs_lan r = repay_lan lanInput \<longrightarrow> rs_status r = ''PAID''))
    \<and> processRepayment store rid2 genId2 lanInput p2 now2 db' =
        (Inl (BadRequest ''Installment is already fully paid.''), db')"
proof -
  let ?lan = "repay_lan lanInput" and ?a = "py_amount p"
  note I = books_okD [OF assms(1)] and R = repay_read_New [OF assms(4)]
  note J = instalment_okD [OF I(5) [OF R(1)]]
  have a: "?a = rs_emi rps - rs_paid rps" using assms(5,6) J(2) by simp
  define i where "i = min ?a (max 0 (rs_interest rps - rs_paid rps))"
  define q where "q = min (?a - i) (max 0 (rs_principal rps - max 0 (rs_paid rps - rs_interest rps)))"
  have ch: "charged_of store ?lan (?a - i - q) (rd_charges db) = ([], 0)"
    using exact_rest [OF I(5) [OF R(1)] assms(6) a i_def q_def] by (simp add: charged_of_def)
  have fit: "whole (rs_paid rps + ?a)" using J(6) by (simp add: a)
  have rem: "0 = max 0 (rs_emi rps - (rs_paid rps + ?a))" by (simp add: a)
  define f :: "instalment \<Rightarrow> instalment" where "f = (\<lambda>r. r\<lparr>rs_paid := rs_paid rps + ?a, rs_remaining := 0,
        rs_status := (if (0::rat) = 0 then ''PAID'' else ''PARTIAL''), rs_paymentDate := Some now\<rparr>)"
  obtain loan' rps' where pos: "0 < ?a" and same: "repay_read ?lan p db = Inr (RS_New loan' rps')"
    and new': "rp_paymentId (new_repayment store rid genId ?lan loan' p now) \<notin> rp_paymentId ` set (rd_repayments db)"
    and run': "repay_write store rid genId ?lan p (RS_New loan' rps') now db = (Inr (RP_Done d), db')"
    by (rule processRepayment_Done [OF assms(7)])
  from same assms(4) have e: "loan' = loan" "rps' = rps" by simp_all
  note new = new' [unfolded e] and run = run' [unfolded e]
  note W = repay_write_New [OF assms(1-3) pos assms(4) fit new i_def q_def ch rem f_def refl]
  note eqs = run [unfolded W prod.inject sum.inject repay_result.inject]
  let ?sched = "update_many (\<lambda>r. rs_id r = rs_id rps) f (rd_schedule db)"
  have d: "rr_status d = ''PAID''" "rr_fullyPaid d = (count_rows (\<lambda>r. rs_lan r = ?lan \<and> rs_status r \<noteq> ''PAID'') ?sched = 0)"
    unfolding conjunct1 [OF eqs, symmetric] by simp_all
  have db': "rd_charges db' = write_charges [] (rd_charges db)" "rd_schedule db' = ?sched"
    "map sl_lan (rd_loans db') = map sl_lan (rd_loans db)"
    unfolding conjunct2 [OF eqs, symmetric] by (simp_all add: map_key_update_many)
  have "write_charges [] (rd_charges db) = rd_charges db" by (simp add: write_charges_def)
  moreover have "rr_fullyPaid d \<longleftrightarrow> (\<forall>r\<in>set (rd_schedule db'). rs_lan r = ?lan \<longrightarrow> rs_status r = ''PAID'')"
    unfolding d(2) db'(2) by (simp add: count_rows_def filter_empty_conv)
  moreover have "processRepayment store rid2 genId2 lanInput p2 now2 db' =
        (Inl (BadRequest ''Installment is already fully paid.''), db')"
  proof (rule paid_instalment_refused)
    show "f rps \<in> set (rd_schedule db')" using R(1) by (auto simp: db'(2) update_many_def)
    show "rs_status (f rps) = ''PAID''" by (simp add: f_def)
    show "unique_keys (\<lambda>r. (rs_lan r, rs_number r)) (rd_schedule db')"
      unfolding db'(2) by (rule unique_keys_update_many [OF _ I(2)]) (simp add: f_def)
    show "rs_lan (f rps) = ?lan" "rs_number (f rps) = py_installmentNumber p2" using R(2,3) assms(9) by (simp_all add: f_def)
    show "\<exists>l\<in>set (rd_loans db'). sl_lan l = ?lan" using arg_cong [OF db'(3), of set] R(5,6) by (metis imageE imageI list.set_map)
  qed (rule assms(8))
  ultimately show ?thesis using d(1) db'(1) by simp
qed

section \<open>Witnesses\<close>

definition demo_rps :: instalment where
  "demo_rps = \<lparr>rs_id = 1, rs_lan = ''PL1'', rs_number = 1, rs_dueDate = 0, rs_emi = 1100, rs_interest = 100,
     rs_principal = 1000, rs_status = ''PENDING'', rs_paid = 0, rs_remaining = 1100, rs_paymentDate = None\<rparr>"

definition demo_loan :: servicing_loan where
  "demo_loan = \<lparr>sl_id = 5, sl_lan = ''PL1'', sl_applicationId = 7, sl_status = ''DISBURSED''\<rparr>"

definition demo_books :: repay_db where
  "demo_books = \<lparr>rd_loans = [demo_loan], rd_schedule = [demo_rps], rd_repayments = [], rd_allocations = [],
     rd_charges = [\<lparr>ch_id = 3, ch_lan = ''PL1'', ch_loanId = 5, ch_type = ''BOUNCE_CHARGE'', ch_amount = 50,
       ch_paid = 0, ch_remaining = 50, ch_status = ''PENDING'', ch_dueDate = 0, ch_description = None\<rparr>],
     rd_waivers = [], rd_applications = [(7, ''LENDER_APPROVED'')], rd_outbox = []\<rparr>"

definition demo_pay :: "rat \<Rightarrow> string \<Rightarrow> repay_payload" where
  "demo_pay a ref = \<lparr>py_installmentNumber = 1, py_amount = a, py_paymentId = Some ref,
     py_paymentMode = None, py_reference = Some ref\<rparr>"

abbreviation demo_run :: "rat \<Rightarrow> string \<Rightarrow> repay_db \<Rightarrow> (http_error + repay_result) \<times> repay_db" where
  "demo_run a ref db \<equiv> processRepayment (\<lambda>x. x) 9 ''GEN'' ''PL1'' (demo_pay a ref) 10 db"

lemma demo_books_ok: "books_ok demo_books" "store_ok (\<lambda>x. x)" "whole 500" "whole 1100" "whole 2000" "whole 300"
  by (simp_all add: books_ok_def demo_books_def demo_rps_def instalment_ok_def charge_ok_def whole_def
      allocated_def waived_def unique_keys_def store_ok_def)

lemma demo_read:
  "repay_read ''PL1'' (demo_pay a ref) demo_books = Inr (RS_New demo_loan demo_rps)"
  "repay_lan ''PL1'' = ''PL1''" "0 < a \<Longrightarrow> repay_payload_check ''PL1'' (demo_pay a ref) = None"
  by (simp_all add: repay_read_def demo_books_def demo_loan_def demo_rps_def demo_pay_def find_unique_def
      truthy_str_def repay_lan_def repay_payload_check_def trim_str_def is_space_def demo_books_ok split: list.split)

lemma demo_done:
  assumes "0 < a" "whole a"
  obtains d where "demo_run a ref demo_books = (Inr (RP_Done d), snd (demo_run a ref demo_books))"
proof -
  have a: "py_amount (demo_pay a ref) = a" "rs_paid demo_rps = 0" by (simp_all add: demo_pay_def demo_rps_def)
  have new: "rp_paymentId (new_repayment (\<lambda>x. x) 9 ''GEN'' ''PL1'' demo_loan (demo_pay a ref) 10)
      \<notin> rp_paymentId ` set (rd_repayments demo_books)" by (simp add: demo_books_def)
  obtain charged out where ch: "charged_of (\<lambda>x. x) ''PL1'' (a - min a (max 0 (rs_interest demo_rps - 0))
      - min (a - min a (max 0 (rs_interest demo_rps - 0))) (max 0 (rs_principal demo_rps - max 0 (0 - rs_interest demo_rps))))
      (rd_charges demo_books) = (charged, out)" by fastforce
  note W = repay_write_New [OF demo_books_ok(1,2) _ _ demo_read(1) _ new refl refl _ refl refl refl, unfolded a, OF assms(2,1) _ ch]
  have "demo_run a ref demo_books =
      repay_write (\<lambda>x. x) 9 ''GEN'' ''PL1'' (demo_pay a ref) (RS_New demo_loan demo_rps) 10 demo_books"
    using assms(1) by (simp add: processRepayment_def demo_read)
  with W assms(2) that show ?thesis by simp
qed

text \<open>A repayment of 500 out of 1100: 100 go to the interest, 400 to the principal.\<close>

theorem books_balance_witness:
  "list_all (\<lambda>r. allocated (rd_allocations (snd (demo_run 500 ''P1'' demo_books))) (rs_lan r) (rs_number r) ''INTEREST''
       = min (rs_paid r) (rs_interest r)) (rd_schedule (snd (demo_run 500 ''P1'' demo_books)))"
proof -
  have "servicing (\<lambda>x. x) demo_books (snd (demo_run 500 ''P1'' demo_books))"
    by (rule servicing.repaid [OF servicing.start]) (simp_all add: demo_pay_def demo_books_def demo_rps_def demo_books_ok [simplified])
  from books_balance [OF this demo_books_ok(2,1)] show ?thesis unfolding list_all_iff by blast
qed


theorem repayment_booked_once_witness:
  "snd (demo_run 300 ''P1'' (snd (demo_run 500 ''P1'' demo_books))) = snd (demo_run 500 ''P1'' demo_books)"
proof -
  obtain d where d: "demo_run 500 ''P1'' demo_books = (Inr (RP_Done d), snd (demo_run 500 ''P1'' demo_books))"
    by (rule demo_done [OF _ demo_books_ok(3)]) simp_all
  have "truthy_str (py_reference (demo_pay 500 ''P1'')) = Some ''P1''" "truthy_str (py_reference (demo_pay 300 ''P1'')) = Some ''P1''"
    by (simp_all add: demo_pay_def truthy_str_def)
  from repayment_booked_once [OF d this(1) servicing.start refl this(2)] show ?thesis by blast
qed

theorem concurrent_repayments_lose_one_witness:
  "\<exists>db1 db2. snd (demo_run 500 ''P1'' demo_books) = db1
   \<and> snd (repay_write (\<lambda>x. x) 10 ''GEN'' ''PL1'' (demo_pay 300 ''P2'') (RS_New demo_loan demo_rps) 11 db1) = db2
   \<and> length (rd_repayments db2) = 2
   \<and> filter (\<lambda>r. rs_id r = 1 \<and> rs_paid r \<noteq> 300) (rd_schedule db2) = []"
proof -
  let ?db1 = "snd (demo_run 500 ''P1'' demo_books)"
  obtain d where d: "demo_run 500 ''P1'' demo_books = (Inr (RP_Done d), ?db1)"
    by (rule demo_done [OF _ demo_books_ok(3)]) simp_all
  have w1: "repay_write (\<lambda>x. x) 9 ''GEN'' ''PL1'' (demo_pay 500 ''P1'') (RS_New demo_loan demo_rps) 10 demo_books = (Inr (RP_Done d), ?db1)"
    using d demo_read(2,3) by (simp add: processRepayment_def demo_read(1))
  have "rd_repayments ?db1 = [new_repayment (\<lambda>x. x) 9 ''GEN'' ''PL1'' demo_loan (demo_pay 500 ''P1'') 10]"
    using repay_write_booked(1) [OF w1] by (simp add: demo_books_def)
  then have "rp_paymentId (new_repayment (\<lambda>x. x) 10 ''GEN'' ''PL1'' demo_loan (demo_pay 300 ''P2'') 11)
      \<notin> rp_paymentId ` set (rd_repayments ?db1)"
    by (simp add: new_repayment_def Let_def demo_pay_def truthy_str_def)
  then obtain x db2 where w2: "repay_write (\<lambda>x. x) 10 ''GEN'' ''PL1'' (demo_pay 300 ''P2'') (RS_New demo_loan demo_rps) 11 ?db1 = (Inr x, db2)"
    by (auto simp: repay_write_def Let_def split_beta)
  from concurrent_repayments_lose_one [OF demo_read(1) demo_read(1) w1 w2] w2 show ?thesis
    by (auto simp: demo_books_def demo_rps_def demo_pay_def demo_books_ok filter_empty_conv)
qed

theorem exact_payment_leaves_charges_witness:
  "\<exists>d db'. demo_run 1100 ''P1'' demo_books = (Inr (RP_Done d), db') \<and> rr_status d = ''PAID''
   \<and> map ch_remaining (rd_charges db') = [50]
   \<and> demo_run 50 ''P2'' db' = (Inl (BadRequest ''Installment is already fully paid.''), db')"
proof -
  obtain d where d: "demo_run 1100 ''P1'' demo_books = (Inr (RP_Done d), snd (demo_run 1100 ''P1'' demo_books))"
    by (rule demo_done [OF _ demo_books_ok(4)]) simp_all
  have a: "py_amount (demo_pay 1100 ''P1'') = rs_remaining demo_rps" "rs_paid demo_rps \<le> rs_emi demo_rps"
    "py_installmentNumber (demo_pay 50 ''P2'') = py_installmentNumber (demo_pay 1100 ''P1'')" "whole (py_amount (demo_pay 1100 ''P1''))"
    by (simp_all add: demo_pay_def demo_rps_def demo_books_ok)
  have chk: "repay_payload_check ''PL1'' (demo_pay 50 ''P2'') = None" by (rule demo_read(3)) simp
  have "repay_read (repay_lan ''PL1'') (demo_pay 1100 ''P1'') demo_books = Inr (RS_New demo_loan demo_rps)"
    by (simp only: demo_read(1,2))
  from exact_payment_leaves_charges [OF demo_books_ok(1,2) a(4) this a(1,2) d chk a(3)] have "rr_status d = ''PAID''" "rd_charges (snd (demo_run 1100 ''P1'' demo_books)) = rd_charges demo_books"
    "demo_run 50 ''P2'' (snd (demo_run 1100 ''P1'' demo_books)) =
      (Inl (BadRequest ''Installment is already fully paid.''), snd (demo_run 1100 ''P1'' demo_books))"
    by blast+
  moreover have "map ch_remaining (rd_charges demo_books) = [50]" by (simp add: demo_books_def)
  ultimately show ?thesis using d by (metis (no_types))
qed

end
