(* ===== verification/Attribution.thy ===== *)
theory Attribution
  imports JsText
begin

text \<open>
  Where customers come from (modules/customer/attribution.service.ts). What a sign-in brings is
  resolved to one of nine sources; the first touch of a customer is kept, later touches
  overwrite the last one, and an application keeps a copy of the touch it was made under.
\<close>

section \<open>Data\<close>

datatype acquisition_source =
  SRC_RM | SRC_GOOGLE | SRC_META | SRC_MARKETING | SRC_PARTNER | SRC_ORGANIC | SRC_REFERRAL | SRC_WEBSITE | SRC_OTHER

fun source_name :: "acquisition_source \<Rightarrow> string" where
  "source_name SRC_RM = ''RM''"
| "source_name SRC_GOOGLE = ''GOOGLE''"
| "source_name SRC_META = ''META''"
| "source_name SRC_MARKETING = ''MARKETING''"
| "source_name SRC_PARTNER = ''PARTNER''"
| "source_name SRC_ORGANIC = ''ORGANIC''"
| "source_name SRC_REFERRAL = ''REFERRAL''"
| "source_name SRC_WEBSITE = ''WEBSITE''"
| "source_name SRC_OTHER = ''OTHER''"

definition all_sources :: "acquisition_source list" where
  "all_sources = [SRC_RM, SRC_GOOGLE, SRC_META, SRC_MARKETING, SRC_PARTNER, SRC_ORGANIC, SRC_REFERRAL, SRC_WEBSITE, SRC_OTHER]"

record attribution_input =
  in_source :: "string option"
  in_utmSource :: "string option"
  in_utmMedium :: "string option"
  in_utmCampaign :: "string option"
  in_utmTerm :: "string option"
  in_utmContent :: "string option"
  in_rmId :: "string option"
  in_rmName :: "string option"
  in_partnerCode :: "string option"
  in_partnerName :: "string option"
  in_referralCode :: "string option"
  in_clickId :: "string option"
  in_landingPage :: "string option"
  in_referrer :: "string option"

text \<open>A touch: a normalised attribution, as it fills a set of columns.\<close>

record touch =
  tc_source :: acquisition_source
  tc_utmSource :: "string option"
  tc_utmMedium :: "string option"
  tc_utmCampaign :: "string option"
  tc_utmTerm :: "string option"
  tc_utmContent :: "string option"
  tc_rmId :: "string option"
  tc_rmName :: "string option"
  tc_partnerCode :: "string option"
  tc_partnerName :: "string option"
  tc_referralCode :: "string option"
  tc_clickId :: "string option"
  tc_landingPage :: "string option"
  tc_referrer :: "string option"

text \<open>The columns of the last touch are written together; before that all are null.\<close>

record customer_attribution =
  ca_customerId :: int
  ca_first :: touch
  ca_firstTouchAt :: time
  ca_last :: "(touch \<times> time) option"

record application_attribution =
  aa_applicationId :: int
  aa_touch :: touch
  aa_capturedAt :: time

section \<open>Resolution\<close>

text \<open>\<open>x ? String(x).trim() : null\<close>, then used as a condition or compared.\<close>

definition trimmed :: "string option \<Rightarrow> string option" where
  "trimmed x = map_option trim_str (truthy_str x)"

definition given :: "string option \<Rightarrow> bool" where
  "given x \<longleftrightarrow> truthy_str x \<noteq> None"

definition has_part :: "string \<Rightarrow> string option \<Rightarrow> bool" where
  "has_part p x = (case x of None \<Rightarrow> False | Some s \<Rightarrow> contains p s)"

definition is_one_of :: "string option \<Rightarrow> string list \<Rightarrow> bool" where
  "is_one_of x xs = (case x of None \<Rightarrow> False | Some s \<Rightarrow> s \<in> set xs)"

definition resolveAcquisitionSource :: "attribution_input option \<Rightarrow> acquisition_source" where
  "resolveAcquisitionSource input =
     (case input of
        None \<Rightarrow> SRC_WEBSITE
      | Some i \<Rightarrow>
          let raw = map_option to_upper (trimmed (in_source i));
              utmSource = map_option to_lower (trimmed (in_utmSource i));
              utmMedium = map_option to_lower (trimmed (in_utmMedium i));
              utmCampaign = map_option to_lower (trimmed (in_utmCampaign i));
              rmId = trimmed (in_rmId i); rmName = trimmed (in_rmName i);
              partnerCode = trimmed (in_partnerCode i); partnerName = trimmed (in_partnerName i);
              referralCode = trimmed (in_referralCode i);
              clickId = map_option to_lower (trimmed (in_clickId i));
              referrer = map_option to_lower (trimmed (in_referrer i))
          in if raw = Some ''RM'' \<or> given rmId \<or> given rmName \<or> utmSource = Some ''rm'' \<or> utmMedium = Some ''rm''
             then SRC_RM
             else if raw = Some ''PARTNER'' \<or> given partnerCode \<or> given partnerName
               \<or> utmSource = Some ''partner'' \<or> utmSource = Some ''dsa'' then SRC_PARTNER
             else if raw = Some ''REFERRAL'' \<or> given referralCode
               \<or> utmSource = Some ''referral'' \<or> utmMedium = Some ''referral'' then SRC_REFERRAL
             else if raw = Some ''GOOGLE'' \<or> has_part ''gclid'' clickId
               \<or> is_one_of utmSource [''google'', ''googleads'', ''adwords'']
               \<or> is_one_of utmMedium [''cpc'', ''ppc'', ''search''] \<and> has_part ''google'' referrer then SRC_GOOGLE
             else if raw = Some ''META'' \<or> has_part ''fbclid'' clickId
               \<or> is_one_of utmSource [''meta'', ''facebook'', ''instagram'', ''fb'', ''ig'']
               \<or> is_one_of utmMedium [''paid_social'', ''social_paid'']
                 \<and> (has_part ''facebook'' referrer \<or> has_part ''instagram'' referrer) then SRC_META
             else case List.find (\<lambda>s. raw = Some (source_name s)) all_sources of
               Some s \<Rightarrow> s
             | None \<Rightarrow>
                 if raw = Some ''MARKETING'' \<or> given utmCampaign \<or> given utmSource
                   \<or> is_one_of utmMedium [''email'', ''newsletter'', ''sms'', ''whatsapp'', ''affiliate'', ''display'', ''banner'', ''cpm'']
                 then SRC_MARKETING
                 else if raw = Some ''ORGANIC'' \<or> utmMedium = Some ''organic''
                   \<or> has_part ''google.'' referrer \<or> has_part ''bing.'' referrer
                   \<or> has_part ''yahoo.'' referrer \<or> has_part ''duckduckgo.'' referrer then SRC_ORGANIC
                 else if raw = Some ''OTHER'' then SRC_OTHER
                 else SRC_WEBSITE)"

definition cleanStr :: "nat \<Rightarrow> string option \<Rightarrow> string option" where
  "cleanStr maxLen x =
     (case x of None \<Rightarrow> None | Some s \<Rightarrow> let t = trim_str s in if t \<noteq> [] then Some (take maxLen t) else None)"

definition clean_field :: "nat \<Rightarrow> (attribution_input \<Rightarrow> string option) \<Rightarrow> attribution_input option \<Rightarrow> string option" where
  "clean_field maxLen f input = (case input of None \<Rightarrow> None | Some i \<Rightarrow> cleanStr maxLen (f i))"

definition normalizeAttribution :: "attribution_input option \<Rightarrow> touch" where
  "normalizeAttribution input =
     \<lparr>tc_source = resolveAcquisitionSource input,
      tc_utmSource = clean_field 100 in_utmSource input,
      tc_utmMedium = clean_field 100 in_utmMedium input,
      tc_utmCampaign = clean_field 150 in_utmCampaign input,
      tc_utmTerm = clean_field 150 in_utmTerm input,
      tc_utmContent = clean_field 150 in_utmContent input,
      tc_rmId = clean_field 100 in_rmId input,
      tc_rmName = clean_field 150 in_rmName input,
      tc_partnerCode = clean_field 100 in_partnerCode input,
      tc_partnerName = clean_field 150 in_partnerName input,
      tc_referralCode = clean_field 150 in_referralCode input,
      tc_clickId = clean_field 255 in_clickId input,
      tc_landingPage = clean_field 500 in_landingPage input,
      tc_referrer = clean_field 500 in_referrer input\<rparr>"

section \<open>Recording\<close>

definition unassigned :: "customer_attribution \<Rightarrow> bool" where
  "unassigned a \<longleftrightarrow>
     (let f = ca_first a in
      tc_source f = SRC_WEBSITE \<and> \<not> given (tc_rmId f) \<and> \<not> given (tc_partnerCode f)
      \<and> \<not> given (tc_referralCode f) \<and> \<not> given (tc_utmSource f) \<and> \<not> given (tc_utmCampaign f))"

definition has_new_touch :: "touch \<Rightarrow> bool" where
  "has_new_touch n \<longleftrightarrow>
     tc_source n \<noteq> SRC_WEBSITE \<or> tc_utmSource n \<noteq> None \<or> tc_utmCampaign n \<noteq> None
     \<or> tc_rmId n \<noteq> None \<or> tc_partnerCode n \<noteq> None \<or> tc_referralCode n \<noteq> None"

definition recordCustomerAttribution ::
  "int \<Rightarrow> attribution_input option \<Rightarrow> time \<Rightarrow> customer_attribution list \<Rightarrow> customer_attribution list" where
  "recordCustomerAttribution customerId input now t =
     (let n = normalizeAttribution input in
      case find_unique ca_customerId customerId t of
        None \<Rightarrow> t @ [\<lparr>ca_customerId = customerId, ca_first = n, ca_firstTouchAt = now, ca_last = None\<rparr>]
      | Some a \<Rightarrow>
          if unassigned a \<and> tc_source n \<noteq> SRC_WEBSITE
          then update_many (\<lambda>r. ca_customerId r = customerId) (\<lambda>r. r\<lparr>ca_first := n\<rparr>) t
          else if has_new_touch n
          then update_many (\<lambda>r. ca_customerId r = customerId) (\<lambda>r. r\<lparr>ca_last := Some (n, now)\<rparr>) t
          else t)"

definition createApplicationAttributionSnapshot ::
  "int \<Rightarrow> int \<Rightarrow> attribution_input option \<Rightarrow> time \<Rightarrow> customer_attribution list \<Rightarrow>
   application_attribution list \<Rightarrow> application_attribution list" where
  "createApplicationAttributionSnapshot applicationId customerId sessionInput now customers t =
     (case find_unique aa_applicationId applicationId t of
        Some a \<Rightarrow> t
      | None \<Rightarrow>
          let tc = (case find_unique ca_customerId customerId customers of
                      Some a \<Rightarrow> (case ca_last a of Some (l, _) \<Rightarrow> l | None \<Rightarrow> ca_first a)
                    | None \<Rightarrow> normalizeAttribution sessionInput)
          in t @ [\<lparr>aa_applicationId = applicationId, aa_touch = tc, aa_capturedAt = now\<rparr>])"

section \<open>Properties\<close>

definition record_all ::
  "(int \<times> attribution_input option \<times> time) list \<Rightarrow> customer_attribution list \<Rightarrow> customer_attribution list" where
  "record_all rs t = foldl (\<lambda>t (c, i, now). recordCustomerAttribution c i now t) t rs"

lemma record_keeps_first:
  assumes "find_unique ca_customerId c t = Some a" and "\<not> unassigned a"
  shows "\<exists>b. find_unique ca_customerId c (recordCustomerAttribution c' i now t) = Some b
    \<and> ca_first b = ca_first a \<and> ca_firstTouchAt b = ca_firstTouchAt a \<and> \<not> unassigned b"
proof -
  from find_unique_Some_D [OF assms(1)] have k: "ca_customerId a = c" by blast
  have u: "unassigned (a\<lparr>ca_last := l\<rparr>) = unassigned a" for l by (simp add: unassigned_def)
  show ?thesis
  proof (cases "c' = c")
    case True
    with assms k show ?thesis
      by (simp add: recordCustomerAttribution_def Let_def find_unique_update_many u)
  next
    case False
    with assms k show ?thesis
      by (auto simp: recordCustomerAttribution_def Let_def find_unique_append find_unique_update_many
          split: option.split)
  qed
qed

text \<open>
  The first touch is final: once a customer's first touch is assigned, that is, has a source
  other than a plain visit of the web site or any channel identifier, no later sign-in of any
  customer changes it.
\<close>

theorem first_touch_final:
  assumes "find_unique ca_customerId c t = Some a" and "\<not> unassigned a"
  shows "\<exists>b. find_unique ca_customerId c (record_all rs t) = Some b
    \<and> ca_first b = ca_first a \<and> ca_firstTouchAt b = ca_firstTouchAt a"
proof -
  have "\<exists>b. find_unique ca_customerId c (record_all rs t) = Some b
    \<and> ca_first b = ca_first a \<and> ca_firstTouchAt b = ca_firstTouchAt a \<and> \<not> unassigned b"
  proof (induction rs rule: rev_induct)
    case Nil
    with assms show ?case by (simp add: record_all_def)
  next
    case (snoc r rs)
    then obtain b where b: "find_unique ca_customerId c (record_all rs t) = Some b" "\<not> unassigned b"
      "ca_first b = ca_first a" "ca_firstTouchAt b = ca_firstTouchAt a" by blast
    obtain c' i now where r: "r = (c', i, now)" by (cases r)
    from record_keeps_first [OF b(1,2), of c' i now] b(3,4) show ?case
      by (simp add: record_all_def r)
  qed
  then show ?thesis by blast
qed

definition no_input :: attribution_input where
  "no_input = \<lparr>in_source = None, in_utmSource = None, in_utmMedium = None, in_utmCampaign = None, in_utmTerm = None,
     in_utmContent = None, in_rmId = None, in_rmName = None, in_partnerCode = None, in_partnerName = None,
     in_referralCode = None, in_clickId = None, in_landingPage = None, in_referrer = None\<rparr>"

theorem first_touch_final_witness:
  "\<exists>b. find_unique ca_customerId 1
      (record_all [(1, Some (no_input\<lparr>in_utmSource := Some ''google''\<rparr>), 9)]
        (recordCustomerAttribution 1 (Some (no_input\<lparr>in_rmId := Some '' R7 ''\<rparr>)) 5 [])) = Some b
    \<and> tc_source (ca_first b) = SRC_RM \<and> tc_rmId (ca_first b) = Some ''R7''"
proof -
  let ?t = "recordCustomerAttribution 1 (Some (no_input\<lparr>in_rmId := Some '' R7 ''\<rparr>)) 5 []"
  have a: "find_unique ca_customerId 1 ?t = Some (hd ?t)" "\<not> unassigned (hd ?t)"
    "tc_source (ca_first (hd ?t)) = SRC_RM" "tc_rmId (ca_first (hd ?t)) = Some ''R7''"
    by code_simp+
  from first_touch_final [OF a(1,2)] a(3,4) show ?thesis by metis
qed

end
