(* ===== verification/Applications.thy ===== *)
theory Applications
  imports Attribution
begin

text \<open>
  The applications of customers (modules/loan/services/application-transition.service.ts,
  common/utils/reapply-cooldown.ts, common/constants/application.constants.ts), and the two other
  places that create one: the partner interface (\<open>createApplication\<close> of
  modules/partner-api/partner-application.service.ts) and the check of liveness
  (modules/external-api/external-api.service.ts). Then what the check of the eligibility and the
  allocation of a lender (\<open>runEligibility\<close> and \<open>allocateLender\<close> of
  modules/customer/customer.service.ts) write to an application.

  \<open>createOrResumeApplication\<close> and \<open>submitCanonicalApplication\<close> lock the customer's row in a
  serialisable transaction, so each is one step. How \<open>Number\<close> reads a string is the parameter
  \<open>num\<close>. Messages keep their fixed part.
\<close>

section \<open>Data\<close>

datatype app_status =
    A_DRAFT | A_SUBMITTED | A_PLATFORM_REJECTED | A_ALLOCATION_PENDING | A_LENDER_ALLOCATED
  | A_LENDER_REVIEW | A_LENDER_PRE_APPROVED | A_PENDING_CREDIT_REVIEW | A_LENDER_APPROVED
  | A_LENDER_REJECTED | A_ASSESSMENT_FEE_PAID | A_LOAN_CLOSED

definition ACTIVE_APPLICATION_STATUSES :: "app_status list" where
  "ACTIVE_APPLICATION_STATUSES =
     [A_DRAFT, A_SUBMITTED, A_ALLOCATION_PENDING, A_LENDER_ALLOCATED, A_ASSESSMENT_FEE_PAID, A_LENDER_REVIEW,
      A_LENDER_PRE_APPROVED, A_PENDING_CREDIT_REVIEW, A_LENDER_APPROVED]"

record pl_application =
  pa_id :: int
  pa_customerId :: int
  pa_number :: string
  pa_status :: app_status
  pa_platformProductId :: "ident option"
  pa_scopeCode :: "string option"
  pa_submittedAt :: "time option"
  pa_platformDecisionAt :: "time option"
  pa_platformLan :: "string option"
  pa_lenderId :: "ident option"
  pa_allocationId :: "ident option"
  pa_lenderProductId :: "ident option"
  pa_productVersionId :: "ident option"
  pa_selectedAmount :: "rat option"
  pa_selectedTenure :: "int option"
  pa_lenderDecisionReference :: "string option"
  pa_lenderDecisionAt :: "time option"
  pa_lenderDecisionReason :: "string option"
  pa_lenderApprovedAmount :: "rat option"
  pa_lenderApprovedRoi :: "rat option"
  pa_approvedAmount :: "rat option"
  pa_lenderCoolingOffDays :: "int option"
  pa_lenderCoolingOffUntil :: "time option"
  pa_lenderNextStatusCheckAt :: "time option"
  pa_updatedAt :: time

record customer_row =
  cu_id :: int
  cu_code :: string
  cu_mobile :: string
  cu_email :: "string option"
  cu_firstName :: "string option"
  cu_lastName :: "string option"
  cu_latestApplicationId :: "int option"

record partner_app =
  pp_id :: ident
  pp_clientId :: ident
  pp_partnerApplicationId :: string
  pp_number :: string
  pp_externalReference :: string
  pp_sourceSystem :: string
  pp_productCode :: string
  pp_status :: string
  pp_customerId :: int
  pp_plApplicationId :: int

record app_db =
  ab_customers :: "customer_row list"
  ab_apps :: "pl_application list"
  ab_attributions :: "customer_attribution list"
  ab_appAttributions :: "application_attribution list"
  ab_policyProducts :: "(time \<times> ident) list"  \<comment> \<open>the ACTIVE platform policies: creation, product\<close>
  ab_partnerApps :: "partner_app list"
  ab_partnerEvents :: "(ident \<times> ident \<times> string) list"  \<comment> \<open>client, partner application, event type\<close>

datatype app_error = AppError http_error | CoolingOff time int  \<comment> \<open>eligible at, days remaining\<close>

definition new_application ::
  "int \<Rightarrow> int \<Rightarrow> string \<Rightarrow> ident option \<Rightarrow> string option \<Rightarrow> time \<Rightarrow> pl_application" where
  "new_application newId customerId number product scope now =
     \<lparr>pa_id = newId, pa_customerId = customerId, pa_number = number, pa_status = A_DRAFT,
      pa_platformProductId = product, pa_scopeCode = scope, pa_submittedAt = None, pa_platformDecisionAt = None,
      pa_platformLan = None, pa_lenderId = None, pa_allocationId = None, pa_lenderProductId = None, pa_productVersionId = None,
      pa_selectedAmount = None, pa_selectedTenure = None, pa_lenderDecisionReference = None,
      pa_lenderDecisionAt = None, pa_lenderDecisionReason = None, pa_lenderApprovedAmount = None,
      pa_lenderApprovedRoi = None, pa_approvedAmount = None, pa_lenderCoolingOffDays = None,
      pa_lenderCoolingOffUntil = None, pa_lenderNextStatusCheckAt = None, pa_updatedAt = now\<rparr>"

section \<open>The wait after a rejection\<close>

definition REJECTED_APPLICATION_STATUSES :: "app_status list" where
  "REJECTED_APPLICATION_STATUSES = [A_PLATFORM_REJECTED, A_LENDER_REJECTED]"

definition DEFAULT_REAPPLY_COOLING_OFF_DAYS :: int where
  "DEFAULT_REAPPLY_COOLING_OFF_DAYS = 30"

definition getReapplyCoolingOffDays :: "(string \<Rightarrow> rat option) \<Rightarrow> string option \<Rightarrow> int" where
  "getReapplyCoolingOffDays num raw =
     (case raw of
        None \<Rightarrow> DEFAULT_REAPPLY_COOLING_OFF_DAYS
      | Some s \<Rightarrow>
          if trim_str s = [] then DEFAULT_REAPPLY_COOLING_OFF_DAYS
          else case num s of
            None \<Rightarrow> DEFAULT_REAPPLY_COOLING_OFF_DAYS
          | Some x \<Rightarrow> if x = of_int \<lfloor>x\<rfloor> \<and> 0 \<le> x then \<lfloor>x\<rfloor> else DEFAULT_REAPPLY_COOLING_OFF_DAYS)"

record reapply_cooldown =
  rc_active :: bool
  rc_eligibleAt :: "time option"
  rc_daysRemaining :: int

definition evaluateReapplyCooldown ::
  "app_status option \<Rightarrow> time option \<Rightarrow> time option \<Rightarrow> int \<Rightarrow> time \<Rightarrow> reapply_cooldown" where
  "evaluateReapplyCooldown status rejectedAt lenderCoolingOffUntil coolingOffDays now =
     (let none = \<lparr>rc_active = False, rc_eligibleAt = None, rc_daysRemaining = 0\<rparr> in
      case status of
        None \<Rightarrow> none
      | Some st \<Rightarrow>
          if st \<notin> set REJECTED_APPLICATION_STATUSES then none
          else
            let candidates =
                  (case rejectedAt of Some r \<Rightarrow> if coolingOffDays > 0 then [r + coolingOffDays * DAY_MS] else [] | None \<Rightarrow> [])
                  @ (case lenderCoolingOffUntil of Some u \<Rightarrow> [u] | None \<Rightarrow> [])
            in case candidates of
                 [] \<Rightarrow> none
               | c # cs \<Rightarrow>
                   let eligibleAt = foldl max c cs in
                   if eligibleAt \<le> now then \<lparr>rc_active = False, rc_eligibleAt = Some eligibleAt, rc_daysRemaining = 0\<rparr>
                   else \<lparr>rc_active = True, rc_eligibleAt = Some eligibleAt,
                         rc_daysRemaining = - (- (eligibleAt - now) div DAY_MS)\<rparr>)"

definition rejected_at :: "pl_application \<Rightarrow> time" where
  "rejected_at a =
     (let when' = (if pa_status a = A_PLATFORM_REJECTED then pa_platformDecisionAt a else pa_lenderDecisionAt a)
      in case when' of Some t \<Rightarrow> t | None \<Rightarrow> pa_updatedAt a)"

definition app_cooldown :: "int \<Rightarrow> pl_application \<Rightarrow> time \<Rightarrow> reapply_cooldown" where
  "app_cooldown days a now =
     evaluateReapplyCooldown (Some (pa_status a)) (Some (rejected_at a)) (pa_lenderCoolingOffUntil a) days now"

section \<open>Creating and submitting\<close>

definition is_active :: "pl_application \<Rightarrow> bool" where
  "is_active a \<longleftrightarrow> pa_status a \<in> set ACTIVE_APPLICATION_STATUSES"

definition active_application :: "int \<Rightarrow> pl_application list \<Rightarrow> pl_application option" where
  "active_application customerId apps = List.find (\<lambda>a. pa_customerId a = customerId \<and> is_active a) apps"

definition latest_application :: "int \<Rightarrow> pl_application list \<Rightarrow> pl_application option" where
  "latest_application customerId apps =
     (case sort_key (\<lambda>a. - pa_id a) (filter (\<lambda>a. pa_customerId a = customerId) apps) of
        [] \<Rightarrow> None | a # _ \<Rightarrow> Some a)"

definition createOrResumeApplication ::
  "int \<Rightarrow> int \<Rightarrow> string \<Rightarrow> int \<Rightarrow> ident \<Rightarrow> string \<Rightarrow> time \<Rightarrow> app_db \<Rightarrow> (app_error + pl_application) \<times> app_db" where
  "createOrResumeApplication coolingOffDays newId number customerId product scope now db =
     (case active_application customerId (ab_apps db) of
        Some a \<Rightarrow>
          if pa_platformProductId a \<noteq> Some product
          then (Inl (AppError (Conflict ''You already have an active application for a different product.'')), db)
          else (Inr a, db)
      | None \<Rightarrow>
          let create =
            (let a = new_application newId customerId number (Some product) (Some scope) now in
             (Inr a,
              db\<lparr>ab_apps := ab_apps db @ [a],
                 ab_appAttributions := createApplicationAttributionSnapshot newId customerId None now
                   (ab_attributions db) (ab_appAttributions db)\<rparr>))
          in case latest_application customerId (ab_apps db) of
               None \<Rightarrow> create
             | Some l \<Rightarrow>
                 let c = app_cooldown coolingOffDays l now in
                 if rc_active c
                 then (Inl (CoolingOff (the (rc_eligibleAt c)) (rc_daysRemaining c)), db)
                 else create)"

definition submitCanonicalApplication ::
  "int \<Rightarrow> time \<Rightarrow> app_db \<Rightarrow> (app_error + pl_application) \<times> app_db" where
  "submitCanonicalApplication customerId now db =
     (case latest_application customerId (ab_apps db) of
        None \<Rightarrow> (Inl (AppError (Conflict ''Canonical application was not found.'')), db)
      | Some a \<Rightarrow>
          if pa_status a \<in> {A_SUBMITTED, A_LENDER_REVIEW, A_LENDER_APPROVED} then (Inr a, db)
          else if pa_status a \<noteq> A_ASSESSMENT_FEE_PAID
          then (Inl (AppError (Conflict ''Application cannot be submitted.'')), db)
          else
            let f = (\<lambda>x. x\<lparr>pa_status := A_SUBMITTED,
                        pa_submittedAt := (case pa_submittedAt a of Some t \<Rightarrow> Some t | None \<Rightarrow> Some now),
                        pa_updatedAt := now\<rparr>)
            in (Inr (f a), db\<lparr>ab_apps := update_many (\<lambda>x. pa_id x = pa_id a) f (ab_apps db)\<rparr>))"

text \<open>\<open>resumeApplication\<close> of the customer's service: the default product, then the pointer on the customer.\<close>

definition resumeApplication ::
  "int \<Rightarrow> int \<Rightarrow> string \<Rightarrow> int \<Rightarrow> ident option \<Rightarrow> string option \<Rightarrow> time \<Rightarrow> app_db \<Rightarrow>
   (app_error + pl_application) \<times> app_db" where
  "resumeApplication coolingOffDays newId number customerId product scope now db =
     (let chosen = (case truthy_str product of
                      Some p \<Rightarrow> Some p
                    | None \<Rightarrow> (case sort_key fst (ab_policyProducts db) of [] \<Rightarrow> None | (_, p) # _ \<Rightarrow> Some p))
      in case truthy_str chosen of
           None \<Rightarrow> (Inl (AppError (BadRequest ''Platform product ID must be provided or configured by default.'')), db)
         | Some p \<Rightarrow>
             (case createOrResumeApplication coolingOffDays newId number customerId p
                (case truthy_str scope of Some s \<Rightarrow> s | None \<Rightarrow> ''PLATFORM_DEFAULT'') now db of
                (Inl e, db1) \<Rightarrow> (Inl e, db1)
              | (Inr a, db1) \<Rightarrow>
                  if customerId \<in> cu_id ` set (ab_customers db1)
                  then (Inr a, db1\<lparr>ab_customers := update_many (\<lambda>c. cu_id c = customerId)
                                (\<lambda>c. c\<lparr>cu_latestApplicationId := Some (pa_id a)\<rparr>) (ab_customers db1)\<rparr>)
                  else (Inl (AppError (DbError ''P2025'')), db1)))"

text \<open>
  The partner interface: the look-up by the client's reference, then a transaction that creates
  the customer when the mobile number is new, an application, the partner's application and its
  event.
\<close>

record create_partner_dto =
  cp_externalReference :: string
  cp_sourceSystem :: string
  cp_productCode :: string
  cp_mobile :: string
  cp_email :: "string option"
  cp_firstName :: "string option"
  cp_lastName :: "string option"

record partner_fresh =
  fr_customerId :: int
  fr_customerCode :: string
  fr_applicationId :: int
  fr_applicationNumber :: string
  fr_partnerId :: ident
  fr_partnerApplicationId :: string
  fr_partnerNumber :: string

definition partner_createApplication ::
  "partner_fresh \<Rightarrow> ident \<Rightarrow> create_partner_dto \<Rightarrow> time \<Rightarrow> app_db \<Rightarrow> (app_error + partner_app) \<times> app_db" where
  "partner_createApplication fr clientId dto now db =
     (case List.find (\<lambda>x. pp_clientId x = clientId \<and> pp_externalReference x = cp_externalReference dto) (ab_partnerApps db) of
        Some x \<Rightarrow> (Inr x, db)
      | None \<Rightarrow>
          let (customer, customers) =
                (case List.find (\<lambda>c. cu_mobile c = cp_mobile dto) (ab_customers db) of
                   Some c \<Rightarrow> (c, ab_customers db)
                 | None \<Rightarrow>
                     (let c = \<lparr>cu_id = fr_customerId fr, cu_code = fr_customerCode fr, cu_mobile = cp_mobile dto,
                               cu_email = cp_email dto, cu_firstName = cp_firstName dto,
                               cu_lastName = cp_lastName dto, cu_latestApplicationId = None\<rparr>
                      in (c, ab_customers db @ [c])));
              a = new_application (fr_applicationId fr) (cu_id customer) (fr_applicationNumber fr) None None now;
              p = \<lparr>pp_id = fr_partnerId fr, pp_clientId = clientId,
                   pp_partnerApplicationId = fr_partnerApplicationId fr, pp_number = fr_partnerNumber fr,
                   pp_externalReference = cp_externalReference dto, pp_sourceSystem = cp_sourceSystem dto,
                   pp_productCode = cp_productCode dto, pp_status = ''CREATED'',
                   pp_customerId = cu_id customer, pp_plApplicationId = pa_id a\<rparr>
          in (Inr p,
              db\<lparr>ab_customers := customers, ab_apps := ab_apps db @ [a], ab_partnerApps := ab_partnerApps db @ [p],
                 ab_partnerEvents := ab_partnerEvents db @ [(clientId, pp_id p, ''APPLICATION_CREATED'')]\<rparr>))"

text \<open>The application that the check of liveness works on: the one asked for, the latest, or a new one.\<close>

definition liveness_application ::
  "int \<Rightarrow> string \<Rightarrow> int \<Rightarrow> int option \<Rightarrow> time \<Rightarrow> app_db \<Rightarrow> pl_application \<times> app_db" where
  "liveness_application newId number customerId hinted now db =
     (case (case hinted of
              Some i \<Rightarrow> List.find (\<lambda>a. pa_id a = i \<and> pa_customerId a = customerId) (ab_apps db)
            | None \<Rightarrow> latest_application customerId (ab_apps db)) of
        Some a \<Rightarrow> (a, db)
      | None \<Rightarrow>
          let a = new_application newId customerId number None None now
          in (a, db\<lparr>ab_apps := ab_apps db @ [a]\<rparr>))"

section \<open>Eligibility and allocation\<close>

text \<open>
  \<open>runEligibility\<close> and \<open>allocateLender\<close> of the customer's service work on the application the
  body names, or on the latest one in a status that can still be decided. The status of an
  application that is named is not looked at.
\<close>

definition DECIDABLE_STATUSES :: "app_status list" where
  "DECIDABLE_STATUSES =
     [A_DRAFT, A_SUBMITTED, A_ALLOCATION_PENDING, A_LENDER_ALLOCATED, A_ASSESSMENT_FEE_PAID, A_LENDER_REVIEW]"

definition chosen_application ::
  "int \<Rightarrow> int option \<Rightarrow> string \<Rightarrow> pl_application list \<Rightarrow> http_error + pl_application" where
  "chosen_application customerId named message apps =
     (case named of
        Some i \<Rightarrow>
          (case find_unique pa_id i apps of
             None \<Rightarrow> Inl (NotFound ''Application not found'')
           | Some a \<Rightarrow>
               if pa_customerId a \<noteq> customerId
               then Inl (Forbidden ''Application ownership verification failed'') else Inr a)
      | None \<Rightarrow>
          (case latest_application customerId (filter (\<lambda>a. pa_status a \<in> set DECIDABLE_STATUSES) apps) of
             None \<Rightarrow> Inl (BadRequest message) | Some a \<Rightarrow> Inr a))"

text \<open>What the allocation assigned: decision, lender, product and version of its strategy.\<close>

record assigned_route =
  ar_decisionId :: ident
  ar_lenderId :: ident
  ar_productId :: ident
  ar_productVersionId :: ident

definition allocated_row :: "assigned_route \<Rightarrow> time \<Rightarrow> pl_application \<Rightarrow> pl_application" where
  "allocated_row ar now x =
     x\<lparr>pa_status := A_LENDER_ALLOCATED, pa_allocationId := Some (ar_decisionId ar),
       pa_lenderId := Some (ar_lenderId ar), pa_lenderProductId := Some (ar_productId ar),
       pa_productVersionId := Some (ar_productVersionId ar), pa_updatedAt := now\<rparr>"

definition evaluated_row :: "bool \<Rightarrow> pl_application \<Rightarrow> time \<Rightarrow> pl_application \<Rightarrow> pl_application" where
  "evaluated_row isPass a now x =
     x\<lparr>pa_status :=
         (if isPass
          then (if pa_status a = A_ASSESSMENT_FEE_PAID then A_ASSESSMENT_FEE_PAID
                else if truthy_str (pa_lenderId a) \<noteq> None then A_LENDER_ALLOCATED
                else A_ALLOCATION_PENDING)
          else A_PLATFORM_REJECTED),
       pa_platformDecisionAt := (if isPass then pa_platformDecisionAt x else Some now),
       pa_updatedAt := now\<rparr>"

text \<open>
  \<open>passedBefore\<close> tells whether the outcome recorded on the application is PASS, \<open>evaluation\<close> is
  the policy evaluation (its errors are thrown) and \<open>route\<close> what the allocation assigned
  (\<open>None\<close> also for its errors, which are logged). The answer is the application as it was read
  and whether it passed.
\<close>

definition eligibility_write ::
  "bool \<Rightarrow> pl_application \<Rightarrow> assigned_route option \<Rightarrow> time \<Rightarrow> pl_application list \<Rightarrow> pl_application list" where
  "eligibility_write isPass a route now apps =
     (let evaluated = update_many (\<lambda>x. pa_id x = pa_id a) (evaluated_row isPass a now) apps
      in if isPass \<and> truthy_str (pa_lenderId a) = None
         then (case route of
                 None \<Rightarrow> evaluated
               | Some ar \<Rightarrow> update_many (\<lambda>x. pa_id x = pa_id a) (allocated_row ar now) evaluated)
         else evaluated)"

definition runEligibility ::
  "int \<Rightarrow> int option \<Rightarrow> (pl_application \<Rightarrow> bool) \<Rightarrow> (pl_application \<Rightarrow> http_error + bool) \<Rightarrow>
   (pl_application \<Rightarrow> assigned_route option) \<Rightarrow> time \<Rightarrow> app_db \<Rightarrow> (http_error + pl_application \<times> bool) \<times> app_db"
where
  "runEligibility customerId named passedBefore evaluation route now db =
     (if customerId \<notin> cu_id ` set (ab_customers db) then (Inl (NotFound ''Customer not found.''), db)
      else
        case chosen_application customerId named ''No active application found to run eligibility.'' (ab_apps db) of
          Inl e \<Rightarrow> (Inl e, db)
        | Inr a \<Rightarrow>
            if pa_status a \<in> {A_LENDER_ALLOCATED, A_ASSESSMENT_FEE_PAID} \<and> passedBefore a
            then (Inr (a, True), db)
            else if truthy_str (pa_platformProductId a) = None
            then (Inl (BadRequest ''Canonical application is missing platformProductId.''), db)
            else
              case evaluation a of
                Inl e \<Rightarrow> (Inl e, db)
              | Inr isPass \<Rightarrow>
                  (Inr (a, isPass), db\<lparr>ab_apps := eligibility_write isPass a (route a) now (ab_apps db)\<rparr>))"

text \<open>\<open>feeKnown\<close> tells whether the assessment fee of the application is recorded already.\<close>

definition allocateLender ::
  "int \<Rightarrow> int option \<Rightarrow> (pl_application \<Rightarrow> bool) \<Rightarrow> (pl_application \<Rightarrow> http_error + assigned_route option) \<Rightarrow>
   time \<Rightarrow> app_db \<Rightarrow> (http_error + pl_application) \<times> app_db" where
  "allocateLender customerId named feeKnown route now db =
     (if customerId \<notin> cu_id ` set (ab_customers db) then (Inl (NotFound ''Customer not found.''), db)
      else
        case chosen_application customerId named ''No active application found to allocate lender.'' (ab_apps db) of
          Inl e \<Rightarrow> (Inl e, db)
        | Inr a \<Rightarrow>
            if truthy_str (pa_lenderId a) \<noteq> None \<and> feeKnown a then (Inr a, db)
            else if truthy_str (pa_platformProductId a) = None
            then (Inl (BadRequest ''Canonical application is missing platformProductId.''), db)
            else
              case route a of
                Inl e \<Rightarrow> (Inl e, db)
              | Inr None \<Rightarrow> (Inl (BadRequest ''No lender route available for allocation at this moment.''), db)
              | Inr (Some ar) \<Rightarrow>
                  (Inr a, db\<lparr>ab_apps := update_many (\<lambda>x. pa_id x = pa_id a) (allocated_row ar now) (ab_apps db)\<rparr>))"

section \<open>The latest application\<close>

lemma latest_application_Some:
  assumes "latest_application c apps = Some a"
  shows "a \<in> set apps" "pa_customerId a = c"
    and "\<And>b. b \<in> set apps \<Longrightarrow> pa_customerId b = c \<Longrightarrow> pa_id b \<le> pa_id a"
proof -
  let ?xs = "sort_key (\<lambda>a. - pa_id a) (filter (\<lambda>a. pa_customerId a = c) apps)"
  from assms obtain r where r: "?xs = a # r" by (auto simp: latest_application_def split: list.splits)
  have s: "set ?xs = {a \<in> set apps. pa_customerId a = c}" by simp
  from r s show "a \<in> set apps" "pa_customerId a = c" by auto
  have "sorted (map (\<lambda>a. - pa_id a) ?xs)" by simp
  then have "\<forall>b\<in>set r. pa_id b \<le> pa_id a" by (simp add: r)
  with r s show "pa_id b \<le> pa_id a" if "b \<in> set apps" "pa_customerId b = c" for b
    using that by (metis (mono_tags, lifting) mem_Collect_eq order_refl set_ConsD)
qed

lemma latest_application_None:
  "latest_application c apps = None \<longleftrightarrow> (\<forall>a\<in>set apps. pa_customerId a \<noteq> c)"
proof -
  let ?xs = "sort_key (\<lambda>a. - pa_id a) (filter (\<lambda>a. pa_customerId a = c) apps)"
  have "set ?xs = {a \<in> set apps. pa_customerId a = c}" by simp
  then have "?xs = [] \<longleftrightarrow> (\<forall>a\<in>set apps. pa_customerId a \<noteq> c)"
    unfolding set_empty [symmetric] by (simp only:) auto
  moreover have "latest_application c apps = None \<longleftrightarrow> ?xs = []"
    by (simp add: latest_application_def split: list.split)
  ultimately show ?thesis by blast
qed

lemma new_application_active [simp]:
  "is_active (new_application i c n p s t)" "pa_customerId (new_application i c n p s t) = c"
  "pa_platformProductId (new_application i c n p s t) = p" "pa_id (new_application i c n p s t) = i"
  by (simp_all add: is_active_def ACTIVE_APPLICATION_STATUSES_def new_application_def)

lemma count_rows_snoc: "count_rows P (t @ [r]) = count_rows P t + (if P r then 1 else 0)"
  by (simp add: count_rows_def)

lemma find_append: "List.find P (xs @ ys) = (case List.find P xs of Some x \<Rightarrow> Some x | None \<Rightarrow> List.find P ys)"
  by (induction xs) auto

lemma active_application_Some:
  "active_application c apps = Some a \<Longrightarrow> a \<in> set apps \<and> pa_customerId a = c \<and> is_active a"
  by (auto simp: active_application_def find_Some_iff)

lemma active_application_None:
  "active_application c apps = None \<longleftrightarrow> (\<forall>a\<in>set apps. pa_customerId a = c \<longrightarrow> \<not> is_active a)"
  by (auto simp: active_application_def find_None_iff)

section \<open>One active application\<close>

text \<open>
  The steps of the customer's own journey, one request after another. An eligibility check or an
  allocation may name an application, as long as it names an active one: the code does not
  look (\<open>eligibility_revives\<close>). \<open>decided\<close> is any other change of applications by id, such as a
  decision of the lender or of the internal review; what the journey relies on is that none of
  these makes an inactive application active again.
\<close>

definition names_active :: "int option \<Rightarrow> pl_application list \<Rightarrow> bool" where
  "names_active named apps \<longleftrightarrow>
     (case named of None \<Rightarrow> True | Some i \<Rightarrow> list_all (\<lambda>a. pa_id a = i \<longrightarrow> is_active a) apps)"

inductive journey :: "app_db \<Rightarrow> app_db \<Rightarrow> bool" where
  start: "journey db db"
| resumed: "journey db0 db \<Longrightarrow> \<forall>a\<in>set (ab_apps db). pa_id a < newId \<Longrightarrow>
    journey db0 (snd (resumeApplication days newId number c product scope now db))"
| submitted: "journey db0 db \<Longrightarrow> journey db0 (snd (submitCanonicalApplication c now db))"
| evaluated: "journey db0 db \<Longrightarrow> names_active named (ab_apps db) \<Longrightarrow>
    journey db0 (snd (runEligibility c named passedBefore evaluation route now db))"
| allocated: "journey db0 db \<Longrightarrow> names_active named (ab_apps db) \<Longrightarrow>
    journey db0 (snd (allocateLender c named feeKnown assigned now db))"
| decided: "journey db0 db \<Longrightarrow> \<forall>a. pa_id (f a) = pa_id a \<and> pa_customerId (f a) = pa_customerId a \<Longrightarrow>
    \<forall>a. is_active (f a) \<longrightarrow> is_active a \<Longrightarrow>
    journey db0 (db\<lparr>ab_apps := update_many (\<lambda>a. pa_id a = i) f (ab_apps db)\<rparr>)"

definition one_active :: "pl_application list \<Rightarrow> bool" where
  "one_active apps \<longleftrightarrow> (\<forall>a\<in>set apps. \<forall>b\<in>set apps.
     is_active a \<longrightarrow> is_active b \<longrightarrow> pa_customerId a = pa_customerId b \<longrightarrow> pa_id a = pa_id b)"

lemma one_activeD:
  "one_active apps \<Longrightarrow> a \<in> set apps \<Longrightarrow> b \<in> set apps \<Longrightarrow> is_active a \<Longrightarrow> is_active b \<Longrightarrow>
   pa_customerId a = pa_customerId b \<Longrightarrow> pa_id a = pa_id b"
  unfolding one_active_def by blast

lemma one_active_update:
  assumes "one_active apps"
    and "\<And>a. a \<in> set apps \<Longrightarrow> P a \<Longrightarrow> pa_id (f a) = pa_id a \<and> pa_customerId (f a) = pa_customerId a
      \<and> (is_active (f a) \<longrightarrow> is_active a)"
  shows "one_active (update_many P f apps)"
  unfolding one_active_def
proof (intro ballI impI)
  fix a b
  assume ab: "a \<in> set (update_many P f apps)" "b \<in> set (update_many P f apps)"
    and act: "is_active a" "is_active b" "pa_customerId a = pa_customerId b"
  have old: "\<exists>x\<in>set apps. is_active x \<and> pa_customerId a = pa_customerId x \<and> pa_id a = pa_id x"
    if "a \<in> set (update_many P f apps)" "is_active a" for a
    using that(1)
  proof (rule update_many_obtain)
    fix r assume r: "r \<in> set apps" "P r" "a = f r"
    show ?thesis by (rule bexI [OF _ r(1)]) (use assms(2) [OF r(1,2)] that(2) r(3) in simp)
  qed (use that(2) in blast)
  from old [OF ab(1) act(1)] old [OF ab(2) act(2)] act(3) show "pa_id a = pa_id b"
    using one_activeD [OF assms(1)] by metis
qed

lemma one_active_create:
  assumes "one_active apps" and "active_application (pa_customerId a) apps = None"
  shows "one_active (apps @ [a])"
  unfolding one_active_def
proof (intro ballI impI)
  fix x y
  assume xy: "x \<in> set (apps @ [a])" "y \<in> set (apps @ [a])"
    and act: "is_active x" "is_active y" "pa_customerId x = pa_customerId y"
  from assms(2) have no: "z \<notin> set apps" if "pa_customerId z = pa_customerId a" "is_active z" for z
    using that by (auto simp: active_application_None)
  show "pa_id x = pa_id y"
  proof (cases "x = a \<or> y = a")
    case True
    then have "x = y" using xy act no [of x] no [of y] by auto
    then show ?thesis by simp
  next
    case False
    with xy have "x \<in> set apps" "y \<in> set apps" by simp_all
    with act show ?thesis by (intro one_activeD [OF assms(1)])
  qed
qed

definition apps_ok :: "pl_application list \<Rightarrow> bool" where
  "apps_ok apps \<longleftrightarrow> unique_keys pa_id apps \<and> one_active apps"

lemma apps_ok_update:
  assumes "apps_ok apps"
    and "\<And>a. pa_id (f a) = pa_id a \<and> pa_customerId (f a) = pa_customerId a"
    and "\<And>a. a \<in> set apps \<Longrightarrow> pa_id a = i \<Longrightarrow> is_active (f a) \<longrightarrow> is_active a"
  shows "apps_ok (update_many (\<lambda>a. pa_id a = i) f apps)"
  using assms unfolding apps_ok_def
  by (intro conjI unique_keys_update_many one_active_update) simp_all

lemma createOrResume_apps:
  "ab_apps (snd (createOrResumeApplication days newId number c product scope now db)) = ab_apps db
   \<or> active_application c (ab_apps db) = None
     \<and> ab_apps (snd (createOrResumeApplication days newId number c product scope now db))
       = ab_apps db @ [new_application newId c number (Some product) (Some scope) now]"
  unfolding createOrResumeApplication_def Let_def
  by (cases "active_application c (ab_apps db)"; cases "latest_application c (ab_apps db)") simp_all

lemma createOrResume_ok:
  assumes "apps_ok (ab_apps db)" and "\<forall>a\<in>set (ab_apps db). pa_id a < newId"
  shows "apps_ok (ab_apps (snd (createOrResumeApplication days newId number c product scope now db)))"
  using createOrResume_apps [of days newId number c product scope now db]
proof (elim disjE conjE)
  let ?a = "new_application newId c number (Some product) (Some scope) now"
  assume "active_application c (ab_apps db) = None"
    and r: "ab_apps (snd (createOrResumeApplication days newId number c product scope now db)) = ab_apps db @ [?a]"
  then have "one_active (ab_apps db @ [?a])"
    using assms(1) unfolding apps_ok_def by (intro one_active_create) (simp_all add: new_application_def)
  moreover have "pa_id ?a \<notin> pa_id ` set (ab_apps db)" using assms(2) by (auto simp: new_application_def)
  ultimately show ?thesis using assms(1) by (simp add: apps_ok_def r)
qed (simp only: assms)

lemma resume_apps:
  "ab_apps (snd (resumeApplication days newId number c product scope now db)) = ab_apps db
   \<or> (\<exists>p s. ab_apps (snd (resumeApplication days newId number c product scope now db))
        = ab_apps (snd (createOrResumeApplication days newId number c p s now db)))"
proof -
  define chosen where "chosen = truthy_str (case truthy_str product of Some p \<Rightarrow> Some p
    | None \<Rightarrow> (case sort_key fst (ab_policyProducts db) of [] \<Rightarrow> None | (_, p) # _ \<Rightarrow> Some p))"
  define s where "s = (case truthy_str scope of Some s \<Rightarrow> s | None \<Rightarrow> ''PLATFORM_DEFAULT'')"
  show ?thesis
  proof (cases chosen)
    case None
    then show ?thesis by (simp add: resumeApplication_def chosen_def)
  next
    case (Some p)
    obtain r db1 where r: "createOrResumeApplication days newId number c p s now db = (r, db1)" by fastforce
    have "ab_apps (snd (resumeApplication days newId number c product scope now db)) = ab_apps db1"
      unfolding resumeApplication_def Let_def chosen_def [symmetric] s_def [symmetric] Some option.case r
      by (cases r) simp_all
    with r show ?thesis by (metis snd_conv)
  qed
qed

lemma submit_ok:
  assumes "apps_ok (ab_apps db)"
  shows "apps_ok (ab_apps (snd (submitCanonicalApplication c now db)))"
proof (cases "latest_application c (ab_apps db)")
  case None
  with assms show ?thesis by (simp add: submitCanonicalApplication_def)
next
  case (Some a)
  define f where "f = (\<lambda>x. x\<lparr>pa_status := A_SUBMITTED,
      pa_submittedAt := (case pa_submittedAt a of Some t \<Rightarrow> Some t | None \<Rightarrow> Some now), pa_updatedAt := now\<rparr> :: pl_application)"
  show ?thesis
  proof (cases "pa_status a = A_ASSESSMENT_FEE_PAID")
    case True
    note a = latest_application_Some(1) [OF Some]
    have "apps_ok (update_many (\<lambda>x. pa_id x = pa_id a) f (ab_apps db))"
    proof (rule apps_ok_update [OF assms])
      fix x assume "x \<in> set (ab_apps db)" "pa_id x = pa_id a"
      with assms a have "x = a" by (auto simp: apps_ok_def dest: unique_keys_eq)
      with True show "is_active (f x) \<longrightarrow> is_active x" by (simp add: is_active_def ACTIVE_APPLICATION_STATUSES_def)
    qed (simp add: f_def)
    with True Some show ?thesis by (simp add: submitCanonicalApplication_def Let_def f_def)
  next
    case False
    with assms Some show ?thesis by (simp add: submitCanonicalApplication_def)
  qed
qed

lemma chosen_application_active:
  assumes "chosen_application c named m apps = Inr a" and "names_active named apps"
  shows "a \<in> set apps" and "is_active a"
proof -
  have "a \<in> set apps \<and> is_active a"
  proof (cases named)
    case None
    with assms(1) have "latest_application c (filter (\<lambda>a. pa_status a \<in> set DECIDABLE_STATUSES) apps) = Some a"
      by (auto simp: chosen_application_def split: option.splits)
    from latest_application_Some(1) [OF this] show ?thesis
      by (auto simp: is_active_def ACTIVE_APPLICATION_STATUSES_def DECIDABLE_STATUSES_def)
  next
    case (Some i)
    with assms show ?thesis
      by (auto simp: chosen_application_def names_active_def list_all_iff dest: find_unique_Some_D
          split: option.splits if_splits)
  qed
  then show "a \<in> set apps" "is_active a" by blast+
qed

lemma apps_ok_row:
  assumes "apps_ok apps" and "a \<in> set apps" and "is_active a"
    and "\<And>x. pa_id (f x) = pa_id x \<and> pa_customerId (f x) = pa_customerId x"
  shows "apps_ok (update_many (\<lambda>x. pa_id x = pa_id a) f apps)"
proof (rule apps_ok_update [OF assms(1)])
  fix x assume "x \<in> set apps" "pa_id x = pa_id a"
  with assms(1,2) have "x = a" by (auto simp: apps_ok_def dest: unique_keys_eq)
  with assms(3) show "is_active (f x) \<longrightarrow> is_active x" by simp
qed (use assms(4) in blast)

lemma runEligibility_cases:
  "snd (runEligibility c named passedBefore evaluation route now db) = db
   \<or> (\<exists>a p. chosen_application c named ''No active application found to run eligibility.'' (ab_apps db) = Inr a
        \<and> snd (runEligibility c named passedBefore evaluation route now db) =
            db\<lparr>ab_apps := eligibility_write p a (route a) now (ab_apps db)\<rparr>)"
  unfolding runEligibility_def by (simp split: sum.split) blast

lemma eligibility_write_ok:
  assumes "apps_ok apps" and ac: "a \<in> set apps" "is_active a"
  shows "apps_ok (eligibility_write p a r now apps)"
proof -
  let ?ev = "update_many (\<lambda>x. pa_id x = pa_id a) (evaluated_row p a now) apps"
  have ev: "apps_ok ?ev"
    by (rule apps_ok_row [OF assms(1) ac]) (simp add: evaluated_row_def)
  moreover have "apps_ok (update_many (\<lambda>x. pa_id x = pa_id a) (allocated_row ar now) ?ev)" if p for ar
  proof -
    let ?a = "evaluated_row p a now a"
    have "?a \<in> set ?ev" using ac(1) by (auto simp: set_update_many)
    moreover have "is_active ?a"
      using that by (simp add: evaluated_row_def is_active_def ACTIVE_APPLICATION_STATUSES_def)
    moreover have "pa_id ?a = pa_id a" by (simp add: evaluated_row_def)
    ultimately show ?thesis
      using apps_ok_row [OF ev, of ?a "allocated_row ar now"] by (simp add: allocated_row_def)
  qed
  ultimately show ?thesis unfolding eligibility_write_def Let_def by (auto split: option.split)
qed

lemma eligibility_ok:
  assumes "apps_ok (ab_apps db)" and "names_active named (ab_apps db)"
  shows "apps_ok (ab_apps (snd (runEligibility c named passedBefore evaluation route now db)))"
  using runEligibility_cases [of c named passedBefore evaluation route now db]
proof (elim disjE exE conjE)
  fix a p
  assume a: "chosen_application c named ''No active application found to run eligibility.'' (ab_apps db) = Inr a"
    and res: "snd (runEligibility c named passedBefore evaluation route now db) =
      db\<lparr>ab_apps := eligibility_write p a (route a) now (ab_apps db)\<rparr>"
  from eligibility_write_ok [OF assms(1) chosen_application_active [OF a assms(2)]] show ?thesis
    by (simp add: res)
qed (simp add: assms(1))

lemma allocate_ok:
  assumes "apps_ok (ab_apps db)" and "names_active named (ab_apps db)"
  shows "apps_ok (ab_apps (snd (allocateLender c named feeKnown assigned now db)))"
proof (cases "ab_apps (snd (allocateLender c named feeKnown assigned now db)) = ab_apps db")
  case False
  then obtain a ar where a: "chosen_application c named ''No active application found to allocate lender.'' (ab_apps db) = Inr a"
    and res: "ab_apps (snd (allocateLender c named feeKnown assigned now db)) =
      update_many (\<lambda>x. pa_id x = pa_id a) (allocated_row ar now) (ab_apps db)"
    by (auto simp: allocateLender_def split: if_splits sum.splits option.splits)
  show ?thesis unfolding res
    by (rule apps_ok_row [OF assms(1) chosen_application_active [OF a assms(2)]])
       (simp add: allocated_row_def)
qed (simp add: assms(1))

lemma journey_ok:
  assumes "journey db0 db" and "apps_ok (ab_apps db0)"
  shows "apps_ok (ab_apps db)"
  using assms
proof (induction rule: journey.induct)
  case (resumed db0 db newId days number c product scope now)
  then have "apps_ok (ab_apps db)" by blast
  with resume_apps [of days newId number c product scope now db] resumed.hyps(2) show ?case
    by (metis createOrResume_ok)
next
  case (submitted db0 db c now)
  then show ?case by (intro submit_ok) blast
next
  case (evaluated db0 db named c passedBefore evaluation route now)
  then show ?case by (intro eligibility_ok) blast+
next
  case (allocated db0 db named c feeKnown assigned now)
  then show ?case by (intro allocate_ok) blast+
next
  case (decided db0 db f i)
  then have "apps_ok (ab_apps db)" by blast
  then have "apps_ok (update_many (\<lambda>a. pa_id a = i) f (ab_apps db))"
    by (rule apps_ok_update) (use decided.hyps(2,3) in blast)+
  then show ?case by simp
qed simp

lemma same_key_length:
  assumes "distinct (map f xs)" and "\<forall>x\<in>set xs. \<forall>y\<in>set xs. f x = f y"
  shows "length xs \<le> 1"
proof (cases xs)
  case x: (Cons x ys)
  show ?thesis
  proof (cases ys)
    case y: (Cons y zs)
    from assms(2) have "f x = f y" unfolding x y by (meson list.set_intros)
    with assms(1) show ?thesis by (simp add: x y)
  qed (simp add: x)
qed simp

lemma apps_ok_count:
  assumes "apps_ok apps"
  shows "count_rows (\<lambda>a. pa_customerId a = c \<and> is_active a) apps \<le> 1"
proof -
  let ?xs = "filter (\<lambda>a. pa_customerId a = c \<and> is_active a) apps"
  have "distinct (map pa_id ?xs)"
    using assms by (simp add: apps_ok_def unique_keys_def distinct_map_filter)
  moreover have "\<forall>x\<in>set ?xs. \<forall>y\<in>set ?xs. pa_id x = pa_id y"
  proof (intro ballI)
    fix x y assume "x \<in> set ?xs" "y \<in> set ?xs"
    then show "pa_id x = pa_id y"
      using one_activeD [OF conjunct2 [OF assms [unfolded apps_ok_def]], of x y] by simp
  qed
  ultimately have "length ?xs \<le> 1" by (rule same_key_length)
  then show ?thesis by (simp add: count_rows_def)
qed

section \<open>Properties\<close>

text \<open>
  C21. A customer has one active application at most, after any sequence of the customer's own
  requests, served one after another: resuming, submitting, checking the eligibility and
  allocating a lender, where an eligibility check or allocation that names an application names
  an active one, and after any decisions in between, provided no decision makes an inactive
  application active. Applications that the partner interface or the liveness check creates
  are outside this claim, and so are eligibility checks and allocations that name an inactive
  application: these do leave a customer with two (\<open>partner_second_active\<close>,
  \<open>eligibility_revives\<close>).
\<close>

theorem one_active_application:
  assumes "journey db0 db" and "apps_ok (ab_apps db0)"
  shows "count_rows (\<lambda>a. pa_customerId a = c \<and> is_active a) (ab_apps db) \<le> 1"
  by (rule apps_ok_count [OF journey_ok [OF assms]])

text \<open>The wait: what the answer tells, and when it ends.\<close>

lemma cooldown_active:
  assumes "rc_active (app_cooldown days a now)"
  obtains e where "rc_eligibleAt (app_cooldown days a now) = Some e" "now < e"
    "rc_daysRemaining (app_cooldown days a now) = - (- (e - now) div DAY_MS)"
    "pa_status a \<in> {A_PLATFORM_REJECTED, A_LENDER_REJECTED}"
    "0 < days \<Longrightarrow> rejected_at a + days * DAY_MS \<le> e"
    "\<And>u. pa_lenderCoolingOffUntil a = Some u \<Longrightarrow> u \<le> e"
    "\<And>t. rc_active (app_cooldown days a t) \<longleftrightarrow> t < e"
    "\<And>t. t < e \<Longrightarrow> rc_eligibleAt (app_cooldown days a t) = Some e"
proof -
  have st: "pa_status a \<in> set REJECTED_APPLICATION_STATUSES"
    using assms by (auto simp: app_cooldown_def evaluateReapplyCooldown_def Let_def split: if_splits)
  define cs where "cs = (if days > 0 then [rejected_at a + days * DAY_MS] else [])
      @ (case pa_lenderCoolingOffUntil a of Some u \<Rightarrow> [u] | None \<Rightarrow> [])"
  have eq: "app_cooldown days a t = (case cs of [] \<Rightarrow> \<lparr>rc_active = False, rc_eligibleAt = None, rc_daysRemaining = 0\<rparr>
     | c # ds \<Rightarrow> (let e = foldl max c ds in
         if e \<le> t then \<lparr>rc_active = False, rc_eligibleAt = Some e, rc_daysRemaining = 0\<rparr>
         else \<lparr>rc_active = True, rc_eligibleAt = Some e, rc_daysRemaining = - (- (e - t) div DAY_MS)\<rparr>))" for t
    using st by (simp add: app_cooldown_def evaluateReapplyCooldown_def cs_def)
  with assms obtain c ds where c: "cs = c # ds" by (cases cs) auto
  define e where "e = foldl max c ds"
  have mx: "x \<le> e" if "x \<in> set cs" for x
  proof -
    have "c \<le> e \<and> (\<forall>x\<in>set ds. x \<le> e)"
      unfolding e_def by (induction ds arbitrary: c) (simp_all add: order_trans, meson max.cobounded1 max.cobounded2 order_trans)
    with that c show ?thesis by auto
  qed
  from assms have now: "now < e" by (auto simp: eq c e_def [symmetric] Let_def split: if_splits)
  show thesis
  proof (rule that [of e])
    show "pa_status a \<in> {A_PLATFORM_REJECTED, A_LENDER_REJECTED}"
      using st by (simp add: REJECTED_APPLICATION_STATUSES_def)
    show "rejected_at a + days * DAY_MS \<le> e" if "0 < days" by (rule mx) (simp add: cs_def that)
    show "u \<le> e" if "pa_lenderCoolingOffUntil a = Some u" for u by (rule mx) (simp add: cs_def that)
  qed (use now in \<open>simp_all add: eq c e_def [symmetric] Let_def\<close>)
qed

lemma ceil_days:
  fixes x :: int
  assumes "0 < x"
  shows "(- (- x div DAY_MS) - 1) * DAY_MS < x" "x \<le> - (- x div DAY_MS) * DAY_MS"
proof -
  define q m where "q = - x div DAY_MS" and "m = - x mod DAY_MS"
  have "- x = q * DAY_MS + m" by (simp only: q_def m_def div_mult_mod_eq)
  moreover have "0 \<le> m" "m < DAY_MS" by (simp_all add: m_def DAY_MS_def)
  moreover have "(- q - 1) * DAY_MS = - (q * DAY_MS) - DAY_MS" "- q * DAY_MS = - (q * DAY_MS)"
    by (simp_all add: algebra_simps)
  ultimately show "(- (- x div DAY_MS) - 1) * DAY_MS < x" "x \<le> - (- x div DAY_MS) * DAY_MS"
    unfolding q_def [symmetric] by linarith+
qed

text \<open>
  C22. The wait after a rejection is the one announced: the answer's date is at least the
  configured days after the time recorded for the decision of the latest application (the time
  of the platform's decision when the platform rejected it, else that of the lender's decision,
  which a rejection by the internal review leaves as the lender's earlier approval set it; the
  last change of the application when there is no such time) and never before what the lender
  asked for, the days are rounded up, and the same request is refused before that date and
  accepted from it on.
\<close>

theorem reapply_wait:
  assumes "createOrResumeApplication days newId number c product scope now db = (Inl (CoolingOff e n), db')"
  shows "db' = db \<and> now < e \<and> (n - 1) * DAY_MS < e - now \<and> e - now \<le> n * DAY_MS
    \<and> (\<exists>a. latest_application c (ab_apps db) = Some a \<and> pa_status a \<in> {A_PLATFORM_REJECTED, A_LENDER_REJECTED}
        \<and> (0 < days \<longrightarrow> rejected_at a + days * DAY_MS \<le> e)
        \<and> (\<forall>u. pa_lenderCoolingOffUntil a = Some u \<longrightarrow> u \<le> e))
    \<and> (\<forall>t. (\<exists>m. fst (createOrResumeApplication days newId number c product scope t db) = Inl (CoolingOff e m)) = (t < e)
         \<and> (e \<le> t \<longrightarrow> (\<exists>a. fst (createOrResumeApplication days newId number c product scope t db) = Inr a)))"
proof -
  from assms have none: "active_application c (ab_apps db) = None"
    by (auto simp: createOrResumeApplication_def split: option.splits if_splits)
  with assms obtain a where a: "latest_application c (ab_apps db) = Some a"
    by (auto simp: createOrResumeApplication_def Let_def split: option.splits if_splits)
  have run: "fst (createOrResumeApplication days newId number c product scope t db) =
      (if rc_active (app_cooldown days a t)
       then Inl (CoolingOff (the (rc_eligibleAt (app_cooldown days a t))) (rc_daysRemaining (app_cooldown days a t)))
       else Inr (new_application newId c number (Some product) (Some scope) t))"
    "rc_active (app_cooldown days a t) \<Longrightarrow> snd (createOrResumeApplication days newId number c product scope t db) = db" for t
    by (simp_all add: createOrResumeApplication_def none a Let_def)
  have now: "fst (createOrResumeApplication days newId number c product scope now db) = Inl (CoolingOff e n)"
    "snd (createOrResumeApplication days newId number c product scope now db) = db'" by (simp_all add: assms)
  from now(1) have act: "rc_active (app_cooldown days a now)" by (simp add: run(1) split: if_splits)
  from act obtain e' where E: "rc_eligibleAt (app_cooldown days a now) = Some e'" "now < e'"
    "rc_daysRemaining (app_cooldown days a now) = - (- (e' - now) div DAY_MS)"
    "pa_status a \<in> {A_PLATFORM_REJECTED, A_LENDER_REJECTED}"
    "0 < days \<Longrightarrow> rejected_at a + days * DAY_MS \<le> e'"
    "\<And>u. pa_lenderCoolingOffUntil a = Some u \<Longrightarrow> u \<le> e'"
    "\<And>t. rc_active (app_cooldown days a t) \<longleftrightarrow> t < e'"
    "\<And>t. t < e' \<Longrightarrow> rc_eligibleAt (app_cooldown days a t) = Some e'"
    by (rule cooldown_active) blast
  note en = now(1) [unfolded run(1) if_P [OF act] E(1,3) option.sel sum.inject app_error.inject]
  then have r: "e' = e" by (rule conjunct1)
  have days: "n = - (- (e - now) div DAY_MS)" using conjunct2 [OF en] unfolding r by (rule sym)
  have same: "db' = db" using now(2) run(2) [OF act] by simp
  have "(\<exists>m. fst (createOrResumeApplication days newId number c product scope t db) = Inl (CoolingOff e m)) = (t < e)
      \<and> (e \<le> t \<longrightarrow> (\<exists>a. fst (createOrResumeApplication days newId number c product scope t db) = Inr a))" for t
    unfolding run(1) [of t] using E(7,8) [of t] r by auto
  with a same E(2,4-6) ceil_days [of "e - now"] show ?thesis unfolding r days by simp
qed

text \<open>
  The partner interface does not look for an active application: whoever has one with the
  mobile number of a partner's request has two afterwards.
\<close>

theorem partner_second_active:
  assumes "find_unique cu_mobile (cp_mobile dto) (ab_customers db) = Some cust"
    and "active_application (cu_id cust) (ab_apps db) = Some a"
    and "\<forall>x\<in>set (ab_partnerApps db). pp_externalReference x \<noteq> cp_externalReference dto"
  shows "2 \<le> count_rows (\<lambda>a. pa_customerId a = cu_id cust \<and> is_active a)
    (ab_apps (snd (partner_createApplication fr clientId dto now db)))"
proof -
  have none: "List.find (\<lambda>x. pp_clientId x = clientId \<and> pp_externalReference x = cp_externalReference dto) (ab_partnerApps db) = None"
    using assms(3) by (auto simp: find_None_iff)
  have apps: "ab_apps (snd (partner_createApplication fr clientId dto now db)) =
      ab_apps db @ [new_application (fr_applicationId fr) (cu_id cust) (fr_applicationNumber fr) None None now]"
    using assms(1) by (simp add: partner_createApplication_def none find_unique_def Let_def)
  have "count_rows (\<lambda>a. pa_customerId a = cu_id cust \<and> is_active a) (ab_apps db) \<noteq> 0"
    using active_application_Some [OF assms(2)] by (auto simp: count_rows_zero_iff)
  then show ?thesis by (simp add: apps count_rows_snoc new_application_active)
qed

text \<open>
  An eligibility check or an allocation that names an inactive application of the customer does
  not look at its status: when the check passes, or a lender is assigned, the rejected (or
  closed) application is active again, next to the one the customer has meanwhile.
\<close>

theorem eligibility_revives:
  assumes "apps_ok (ab_apps db)" and "customerId \<in> cu_id ` set (ab_customers db)"
    and "a \<in> set (ab_apps db)" and "pa_customerId a = customerId" and "\<not> is_active a"
    and "truthy_str (pa_platformProductId a) \<noteq> None" and "evaluation a = Inr True"
    and "b \<in> set (ab_apps db)" and "pa_customerId b = customerId" and "is_active b"
  shows "2 \<le> count_rows (\<lambda>x. pa_customerId x = customerId \<and> is_active x)
    (ab_apps (snd (runEligibility customerId (Some (pa_id a)) passedBefore evaluation route now db)))"
proof -
  have "find_unique pa_id (pa_id a) (ab_apps db) = Some a"
    using assms(1,3) by (simp add: apps_ok_def find_unique_in_set)
  then have ch: "chosen_application customerId (Some (pa_id a)) m (ab_apps db) = Inr a" for m
    using assms(4) by (simp add: chosen_application_def)
  have st: "pa_status a \<notin> {A_LENDER_ALLOCATED, A_ASSESSMENT_FEE_PAID}"
    using assms(5) by (auto simp: is_active_def ACTIVE_APPLICATION_STATUSES_def)
  define t where "t = ab_apps (snd (runEligibility customerId (Some (pa_id a)) passedBefore evaluation route now db))"
  have t: "t = eligibility_write True a (route a) now (ab_apps db)"
    using ch st assms(2,6,7) by (auto simp: t_def runEligibility_def)
  have rows: "\<exists>g. t = update_many (\<lambda>x. pa_id x = pa_id a) g (ab_apps db)
      \<and> (\<forall>x. pa_id (g x) = pa_id x \<and> pa_customerId (g x) = pa_customerId x \<and> is_active (g x))"
  proof (cases "truthy_str (pa_lenderId a) = None \<and> route a \<noteq> None")
    case True
    then obtain ar where ar: "route a = Some ar" by blast
    show ?thesis
      by (rule exI [of _ "\<lambda>x. allocated_row ar now (evaluated_row True a now x)"])
         (use True ar in \<open>simp add: t eligibility_write_def update_many_def
            evaluated_row_def allocated_row_def is_active_def ACTIVE_APPLICATION_STATUSES_def\<close>)
  next
    case False
    then show ?thesis
      by (intro exI [of _ "evaluated_row True a now"])
         (auto simp: t eligibility_write_def Let_def
            evaluated_row_def is_active_def ACTIVE_APPLICATION_STATUSES_def split: option.split)
  qed
  then obtain g where t: "t = update_many (\<lambda>x. pa_id x = pa_id a) g (ab_apps db)"
    and g: "\<And>x. pa_id (g x) = pa_id x \<and> pa_customerId (g x) = pa_customerId x \<and> is_active (g x)"
    by blast
  have "pa_id b \<noteq> pa_id a" using assms(1,3,5,8,10) by (auto simp: apps_ok_def dest: unique_keys_eq)
  then have rows: "b \<in> set t" "g a \<in> set t" unfolding t using assms(3,8) by (auto simp: set_update_many)
  have "b \<noteq> g a" using g \<open>pa_id b \<noteq> pa_id a\<close> by metis
  then have "card {b, g a} = 2" by simp
  moreover have "{b, g a} \<subseteq> set (filter (\<lambda>x. pa_customerId x = customerId \<and> is_active x) t)"
    using rows g assms(4,9,10) by simp
  then have "card {b, g a} \<le> length (filter (\<lambda>x. pa_customerId x = customerId \<and> is_active x) t)"
    by (meson List.finite_set card_length card_mono le_trans)
  ultimately show ?thesis by (simp add: count_rows_def t_def)
qed

text \<open>
  An application without a product blocks its customer: after the check of liveness has
  created one, every request to resume or create an application is refused, for every product.
\<close>

theorem draft_without_product_blocks:
  assumes "latest_application c (ab_apps db) = None"
    and "liveness_application newId number c None now db = (a, db1)"
  shows "createOrResumeApplication days newId2 number2 c product scope later db1 =
    (Inl (AppError (Conflict ''You already have an active application for a different product.'')), db1)"
proof -
  let ?a = "new_application newId c number None None now"
  have no: "active_application c (ab_apps db) = None"
    using assms(1) by (simp add: latest_application_None active_application_None)
  from assms have "ab_apps db1 = ab_apps db @ [?a]"
    by (auto simp: liveness_application_def Let_def)
  then have "active_application c (ab_apps db1) = Some ?a"
    using no by (simp add: active_application_def find_append new_application_active)
  then show ?thesis by (simp add: createOrResumeApplication_def new_application_active)
qed

section \<open>Witnesses\<close>

text \<open>Customer 1, whose application was rejected on day 100; the lender asked for 10 days.\<close>

definition demo_app_db :: app_db where
  "demo_app_db = \<lparr>ab_customers = [\<lparr>cu_id = 1, cu_code = ''C1'', cu_mobile = ''98'', cu_email = None,
       cu_firstName = None, cu_lastName = None, cu_latestApplicationId = Some 5\<rparr>],
     ab_apps = [(new_application 5 1 ''APP-5'' (Some ''PL'') None 0)\<lparr>pa_status := A_LENDER_REJECTED,
       pa_lenderDecisionAt := Some (100 * DAY_MS), pa_lenderCoolingOffUntil := Some (110 * DAY_MS)\<rparr>],
     ab_attributions = [], ab_appAttributions = [], ab_policyProducts = [(0, ''PL'')], ab_partnerApps = [], ab_partnerEvents = []\<rparr>"

lemma demo_apps_ok: "apps_ok (ab_apps demo_app_db)"
  by (simp add: apps_ok_def one_active_def demo_app_db_def)

theorem one_active_application_witness:
  "count_rows (\<lambda>a. pa_customerId a = 1 \<and> is_active a)
     (ab_apps (snd (resumeApplication 30 6 ''APP-6'' 1 None None (200 * DAY_MS) demo_app_db))) \<le> 1"
proof -
  have "journey demo_app_db (snd (resumeApplication 30 6 ''APP-6'' 1 None None (200 * DAY_MS) demo_app_db))"
    by (rule journey.resumed [OF journey.start]) (simp add: demo_app_db_def)
  from one_active_application [OF this demo_apps_ok] show ?thesis .
qed

theorem reapply_wait_witness:
  "fst (createOrResumeApplication 30 6 ''APP-6'' 1 ''PL'' ''S'' (101 * DAY_MS + 1) demo_app_db)
     = Inl (CoolingOff (130 * DAY_MS) 29)
   \<and> (\<exists>a. fst (createOrResumeApplication 30 6 ''APP-6'' 1 ''PL'' ''S'' (130 * DAY_MS) demo_app_db) = Inr a)"
proof -
  have r: "createOrResumeApplication 30 6 ''APP-6'' 1 ''PL'' ''S'' (101 * DAY_MS + 1) demo_app_db
      = (Inl (CoolingOff (130 * DAY_MS) 29), demo_app_db)"
    by code_simp
  from reapply_wait [OF r] r show ?thesis by auto
qed

definition demo_partner :: create_partner_dto where
  "demo_partner = \<lparr>cp_externalReference = ''X1'', cp_sourceSystem = ''PLP'', cp_productCode = ''PL'', cp_mobile = ''98'',
     cp_email = None, cp_firstName = None, cp_lastName = None\<rparr>"

definition demo_fresh :: partner_fresh where
  "demo_fresh = \<lparr>fr_customerId = 2, fr_customerCode = ''C2'', fr_applicationId = 7, fr_applicationNumber = ''FTPA-7'',
     fr_partnerId = ''p7'', fr_partnerApplicationId = ''FTPA'', fr_partnerNumber = ''FTPN''\<rparr>"

definition demo_resumed :: app_db where
  "demo_resumed = snd (createOrResumeApplication 30 6 ''APP-6'' 1 ''PL'' ''S'' (200 * DAY_MS) demo_app_db)"

theorem partner_second_active_witness:
  "2 \<le> count_rows (\<lambda>a. pa_customerId a = 1 \<and> is_active a)
     (ab_apps (snd (partner_createApplication demo_fresh ''client'' demo_partner (201 * DAY_MS) demo_resumed)))"
proof -
  let ?cust = "hd (ab_customers demo_resumed)"
  have "find_unique cu_mobile (cp_mobile demo_partner) (ab_customers demo_resumed) = Some ?cust" "cu_id ?cust = 1"
    "active_application 1 (ab_apps demo_resumed) = Some (the (active_application 1 (ab_apps demo_resumed)))"
    "ab_partnerApps demo_resumed = []"
    by code_simp+
  then show ?thesis
    using partner_second_active [of demo_partner demo_resumed ?cust _ demo_fresh "''client''" "201 * DAY_MS"] by simp
qed

theorem draft_without_product_blocks_witness:
  "fst (createOrResumeApplication 30 9 ''APP-9'' 3 ''PL'' ''S'' 50 (snd (liveness_application 8 ''APP-8'' 3 None 40 demo_app_db)))
     = Inl (AppError (Conflict ''You already have an active application for a different product.''))"
proof -
  have "latest_application 3 (ab_apps demo_app_db) = None"
    by (simp add: latest_application_None demo_app_db_def)
  from draft_without_product_blocks [OF this surjective_pairing] show ?thesis by simp
qed

theorem eligibility_revives_witness:
  "2 \<le> count_rows (\<lambda>x. pa_customerId x = 1 \<and> is_active x)
     (ab_apps (snd (runEligibility 1 (Some 5) (\<lambda>a. False) (\<lambda>a. Inr True) (\<lambda>a. None) (201 * DAY_MS) demo_resumed)))"
proof -
  let ?a = "hd (ab_apps demo_resumed)" and ?b = "last (ab_apps demo_resumed)"
  have len: "length (ab_apps demo_resumed) = 2" by code_simp
  have ap: "\<And>xs :: pl_application list. length xs = 2 \<Longrightarrow> xs = [hd xs, last xs]"
    by (auto simp: length_Suc_conv numeral_2_eq_2)
  have f: "pa_id ?a = 5" "pa_customerId ?a = 1" "\<not> is_active ?a" "truthy_str (pa_platformProductId ?a) \<noteq> None"
    "pa_id ?b = 6" "pa_customerId ?b = 1" "is_active ?b" by code_simp+
  have "set (ab_apps demo_resumed) = {?a, ?b}" "map pa_id (ab_apps demo_resumed) = [pa_id ?a, pa_id ?b]"
    using ap [OF len] by (metis list.set(1,2), metis list.map)
  then have m: "?a \<in> set (ab_apps demo_resumed)" "?b \<in> set (ab_apps demo_resumed)"
    and ok: "apps_ok (ab_apps demo_resumed)"
    using f by (simp_all add: apps_ok_def one_active_def unique_keys_def)
  have c: "1 \<in> cu_id ` set (ab_customers demo_resumed)" by code_simp
  from eligibility_revives [OF ok c m(1) f(2,3,4) _ m(2) f(6,7)] f(1) show ?thesis by simp
qed

end
