(* ===== verification/LenderOutbox.thy ===== *)
theory LenderOutbox
  imports Applications
begin

text \<open>
  The outbox of calls to the lender and the workers that drain it
  (modules/lender-integrations/lender-integration.worker.ts, lender-integration.errors.ts,
  lender-integration-outbox.service.ts, and \<open>markStageFailure\<close> of lender-integration.service.ts).

  An event is claimed under a lock token and a lease; every later write of its worker carries the
  token. What the lender answers is not modelled: an event's processing returns or throws. How a
  text is redacted is the parameter \<open>redact\<close>. Messages keep their fixed part.
\<close>

section \<open>Data\<close>

datatype op_status =
  OP_NOT_STARTED | OP_PENDING | OP_PROCESSING | OP_ACKNOWLEDGED | OP_RETRY_PENDING | OP_FAILED | OP_COMPLETED

datatype lender_stage =
    ST_CREATE | ST_UPDATE | ST_DECISION | ST_STATUS | ST_CONSENT | ST_DOCUMENT | ST_DISBURSE
  | ST_REPAYMENT | ST_CHARGE | ST_CHARGE_WAIVER

datatype ev_status = EV_PENDING | EV_PROCESSING | EV_RETRY_PENDING | EV_COMPLETED | EV_FAILED

record lender_event =
  le_id :: ident
  le_eventType :: string
  le_applicationId :: int
  le_reference :: string
  le_lenderId :: ident
  le_stage :: lender_stage
  le_payloadVersion :: int
  le_key :: string
  le_consentType :: "string option"
  le_subjectId :: "int option"  \<comment> \<open>the repayment, charge, waiver or document transfer it is for\<close>
  le_status :: ev_status
  le_attemptCount :: int
  le_availableAt :: time
  le_lockedAt :: "time option"
  le_lockedBy :: "string option"
  le_lockToken :: "string option"
  le_leaseExpiresAt :: "time option"
  le_processedAt :: "time option"
  le_errorCode :: "string option"
  le_errorMessage :: "string option"
  le_createdAt :: time

record lender_link =
  lk_applicationId :: int
  lk_partnerApplicationId :: "string option"
  lk_createStatus :: op_status
  lk_consentStatus :: op_status
  lk_updateStatus :: op_status
  lk_decisionStatus :: op_status
  lk_updateKey :: "string option"
  lk_decisionKey :: "string option"
  lk_updatePayloadVersion :: int
  lk_decisionPayloadVersion :: int
  lk_normalizedDecision :: "string option"
  lk_rejectionReasonCode :: "string option"
  lk_lastAttemptAt :: "time option"
  lk_lastSuccessAt :: "time option"
  lk_errorCode :: "string option"
  lk_errorMessage :: "string option"

record document_transfer =
  dt_id :: int
  dt_status :: string
  dt_errorCode :: "string option"
  dt_errorMessage :: "string option"

record outbox_db =
  ob_events :: "lender_event list"
  ob_links :: "lender_link list"
  ob_apps :: "pl_application list"
  ob_loans :: "(int \<times> string) list"  \<comment> \<open>application, disbursal status\<close>
  ob_transfers :: "document_transfer list"
  ob_onboarding :: "(int \<times> string) list"  \<comment> \<open>customer, onboarding status\<close>

section \<open>Errors\<close>

datatype error_class = EC_TEMPORARY | EC_AUTHENTICATION_CONFIGURATION | EC_PERMANENT_VALIDATION | EC_UNKNOWN

record lender_error =
  er_code :: string
  er_message :: string
  er_class :: error_class
  er_retryable :: bool

text \<open>What a call throws: an error of the integration, or anything with perhaps a code, a status and a text.\<close>

datatype thrown = T_Lender lender_error | T_Other "string option" "rat option" string

definition redactLenderIntegrationText :: "(string \<Rightarrow> string) \<Rightarrow> string \<Rightarrow> string" where
  "redactLenderIntegrationText redact text = take 500 (redact text)"

definition normalizeLenderIntegrationError :: "(string \<Rightarrow> string) \<Rightarrow> thrown \<Rightarrow> lender_error" where
  "normalizeLenderIntegrationError redact e =
     (case e of
        T_Lender le \<Rightarrow> le
      | T_Other codeOpt status text \<Rightarrow>
          let code = (case codeOpt of Some c \<Rightarrow> c | None \<Rightarrow> ''LENDER_INTEGRATION_UNKNOWN'');
              between = (\<lambda>lo hi. case status of Some s \<Rightarrow> lo \<le> s \<and> s < hi | None \<Rightarrow> False)
          in if code \<in> {''ECONNRESET'', ''ETIMEDOUT'', ''ECONNABORTED'', ''ECONNREFUSED''}
               \<or> status \<in> {Some 429, Some 500, Some 502, Some 503, Some 504}
             then \<lparr>er_code = code, er_message = redactLenderIntegrationText redact text,
                   er_class = EC_TEMPORARY, er_retryable = True\<rparr>
             else if status = Some 401 \<or> status = Some 403
             then \<lparr>er_code = ''LENDER_AUTH_CONFIGURATION'',
                   er_message = ''Lender authentication configuration was rejected.'',
                   er_class = EC_AUTHENTICATION_CONFIGURATION, er_retryable = False\<rparr>
             else if between 400 500
             then \<lparr>er_code = ''LENDER_PERMANENT_VALIDATION'', er_message = redactLenderIntegrationText redact text,
                   er_class = EC_PERMANENT_VALIDATION, er_retryable = False\<rparr>
             else \<lparr>er_code = code, er_message = redactLenderIntegrationText redact text,
                   er_class = EC_UNKNOWN, er_retryable = False\<rparr>)"

section \<open>Claiming\<close>

text \<open>
  The oldest event that is due, of an application this process is not working on, in a row no
  other transaction holds (\<open>held\<close>, for SKIP LOCKED). The claim is one transaction.
\<close>

definition claimable :: "time \<Rightarrow> int list \<Rightarrow> ident list \<Rightarrow> lender_event \<Rightarrow> bool" where
  "claimable now exclude held e \<longleftrightarrow>
     le_status e \<in> {EV_PENDING, EV_RETRY_PENDING} \<and> le_availableAt e \<le> now
     \<and> le_applicationId e \<notin> set exclude \<and> le_id e \<notin> set held"

definition claim_data :: "int \<Rightarrow> string \<Rightarrow> string \<Rightarrow> time \<Rightarrow> lender_event \<Rightarrow> lender_event" where
  "claim_data leaseSeconds workerId lockToken now e =
     e\<lparr>le_status := EV_PROCESSING, le_lockedAt := Some now, le_lockedBy := Some workerId,
       le_lockToken := Some lockToken, le_leaseExpiresAt := Some (now + leaseSeconds * 1000),
       le_attemptCount := le_attemptCount e + 1\<rparr>"

definition claimNextEvent ::
  "int \<Rightarrow> string \<Rightarrow> string \<Rightarrow> time \<Rightarrow> int list \<Rightarrow> ident list \<Rightarrow> lender_event list \<Rightarrow>
   lender_event option \<times> lender_event list" where
  "claimNextEvent leaseSeconds workerId lockToken now exclude held t =
     (case sort_key le_availableAt (sort_key le_createdAt (filter (claimable now exclude held) t)) of
        [] \<Rightarrow> (None, t)
      | e # _ \<Rightarrow>
          let t' = update_many (\<lambda>x. le_id x = le_id e \<and> le_status x \<in> {EV_PENDING, EV_RETRY_PENDING})
                     (claim_data leaseSeconds workerId lockToken now) t
          in (find_unique le_id (le_id e) t', t'))"

section \<open>Finishing\<close>

definition owned :: "ident \<Rightarrow> string option \<Rightarrow> lender_event \<Rightarrow> bool" where
  "owned i token x \<longleftrightarrow> le_id x = i \<and> le_status x = EV_PROCESSING \<and> le_lockToken x = token"

definition unlock :: "lender_event \<Rightarrow> lender_event" where
  "unlock e = e\<lparr>le_lockedAt := None, le_lockedBy := None, le_lockToken := None, le_leaseExpiresAt := None\<rparr>"

definition complete_data :: "time \<Rightarrow> lender_event \<Rightarrow> lender_event" where
  "complete_data now e =
     (unlock e)\<lparr>le_status := EV_COMPLETED, le_processedAt := Some now, le_errorCode := None, le_errorMessage := None\<rparr>"

definition complete_event :: "ident \<Rightarrow> string option \<Rightarrow> time \<Rightarrow> lender_event list \<Rightarrow> nat \<times> lender_event list" where
  "complete_event i token now t =
     (count_rows (owned i token) t, update_many (owned i token) (complete_data now) t)"

text \<open>\<open>retryPolicy\<close>: the entries of the schedule that \<open>Number\<close> reads as whole numbers from 0 on.\<close>

record retry_policy =
  ry_maximumAttempts :: int
  ry_scheduleSeconds :: "int list"

definition retryPolicy :: "(string \<Rightarrow> rat option) \<Rightarrow> (int \<times> string) option \<Rightarrow> retry_policy" where
  "retryPolicy num config =
     (let maximumAttempts = (case config of Some (m, _) \<Rightarrow> m | None \<Rightarrow> 5);
          rawSchedule = (case config of Some (_, s) \<Rightarrow> s | None \<Rightarrow> ''0,60,300,900,3600'');
          seconds = map (\<lambda>x. \<lfloor>x\<rfloor>) (filter (\<lambda>x. x = of_int \<lfloor>x\<rfloor> \<and> 0 \<le> x)
                      (List.map_filter (\<lambda>s. num (trim_str s)) (split_on (CHR '','') rawSchedule)))
      in \<lparr>ry_maximumAttempts = maximumAttempts,
          ry_scheduleSeconds = (if seconds \<noteq> [] then seconds else [0, 60, 300, 900, 3600])\<rparr>)"

text \<open>\<open>schedule[min(attempts, length - 1)] ?? 3600\<close>\<close>

definition retry_delay :: "retry_policy \<Rightarrow> int \<Rightarrow> int" where
  "retry_delay policy attempts =
     (let s = ry_scheduleSeconds policy; i = min attempts (int (length s) - 1)
      in if 0 \<le> i \<and> i < int (length s) then s ! nat i else 3600)"

definition retrying :: "retry_policy \<Rightarrow> lender_error \<Rightarrow> lender_event \<Rightarrow> bool" where
  "retrying policy err e \<longleftrightarrow> er_retryable err \<and> le_attemptCount e < ry_maximumAttempts policy"

definition fail_data :: "retry_policy \<Rightarrow> lender_error \<Rightarrow> lender_event \<Rightarrow> time \<Rightarrow> lender_event \<Rightarrow> lender_event" where
  "fail_data policy err e now x =
     (let r = retrying policy err e in
      (unlock x)\<lparr>le_status := (if r then EV_RETRY_PENDING else EV_FAILED),
        le_availableAt := (if r then now + retry_delay policy (le_attemptCount e) * 1000 else le_availableAt e),
        le_processedAt := (if r then None else Some now),
        le_errorCode := Some (er_code err), le_errorMessage := Some (er_message err)\<rparr>)"

definition fail_event ::
  "retry_policy \<Rightarrow> lender_error \<Rightarrow> lender_event \<Rightarrow> time \<Rightarrow> lender_event list \<Rightarrow> lender_event list" where
  "fail_event policy err e now t = update_many (owned (le_id e) (le_lockToken e)) (fail_data policy err e now) t"

text \<open>\<open>markStageFailure\<close>: the failure shows on the link, the loan or the document transfer.\<close>

definition gating_consent :: "lender_event \<Rightarrow> bool" where
  "gating_consent e \<longleftrightarrow>
     le_stage e = ST_CONSENT \<and> (case le_consentType e of Some c \<Rightarrow> c | None \<Rightarrow> ''DATA_SHARING'') = ''DATA_SHARING''"

definition stage_failure_link :: "lender_event \<Rightarrow> op_status \<Rightarrow> (lender_link \<Rightarrow> lender_link) option" where
  "stage_failure_link e status =
     (case le_stage e of
        ST_CREATE \<Rightarrow> Some (\<lambda>l. l\<lparr>lk_createStatus := status\<rparr>)
      | ST_CONSENT \<Rightarrow> if gating_consent e then Some (\<lambda>l. l\<lparr>lk_consentStatus := status\<rparr>) else None
      | ST_UPDATE \<Rightarrow> Some (\<lambda>l. l\<lparr>lk_updateStatus := status\<rparr>)
      | _ \<Rightarrow> Some (\<lambda>l. l\<lparr>lk_decisionStatus := status\<rparr>))"

definition markStageFailure ::
  "ident \<Rightarrow> string option \<Rightarrow> lender_error \<Rightarrow> bool \<Rightarrow> time \<Rightarrow> outbox_db \<Rightarrow> outbox_db" where
  "markStageFailure i token err retry now db =
     (case List.find (owned i token) (ob_events db) of
        None \<Rightarrow> db
      | Some e \<Rightarrow>
          if le_stage e = ST_DOCUMENT \<and> le_subjectId e \<noteq> None
          then db\<lparr>ob_transfers := update_many (\<lambda>d. Some (dt_id d) = le_subjectId e)
                 (\<lambda>d. d\<lparr>dt_status := (if retry then ''PENDING'' else ''FAILED''),
                        dt_errorCode := Some (er_code err), dt_errorMessage := Some (er_message err)\<rparr>) (ob_transfers db)\<rparr>
          else if le_stage e = ST_DISBURSE
          then (if retry then db
                else db\<lparr>ob_loans := update_many (\<lambda>l. fst l = le_applicationId e)
                       (\<lambda>l. (fst l, ''DISBURSAL_TRIGGER_FAILED'')) (ob_loans db)\<rparr>)
          else
            case stage_failure_link e (if retry then OP_RETRY_PENDING else OP_FAILED) of
              None \<Rightarrow> db
            | Some f \<Rightarrow>
                db\<lparr>ob_links := update_many (\<lambda>l. lk_applicationId l = le_applicationId e)
                     (\<lambda>l. (f l)\<lparr>lk_lastAttemptAt := Some now, lk_errorCode := Some (er_code err),
                               lk_errorMessage := Some (er_message err)\<rparr>) (ob_links db)\<rparr>)"

text \<open>
  The end of \<open>processClaimed\<close>, with what the event's processing did: it returned, having completed
  the event itself or not, or it threw.
\<close>

datatype outcome = Returned bool | Threw thrown

definition finishClaimed ::
  "(string \<Rightarrow> string) \<Rightarrow> retry_policy \<Rightarrow> lender_event \<Rightarrow> outcome \<Rightarrow> time \<Rightarrow> outbox_db \<Rightarrow> outbox_db" where
  "finishClaimed redact policy e out now db =
     (case out of
        Returned completedAtomically \<Rightarrow>
          if completedAtomically then db
          else db\<lparr>ob_events := snd (complete_event (le_id e) (le_lockToken e) now (ob_events db))\<rparr>
      | Threw th \<Rightarrow>
          let err = normalizeLenderIntegrationError redact th in
          if count_rows (owned (le_id e) (le_lockToken e)) (ob_events db) = 0 then db
          else
            let db1 = markStageFailure (le_id e) (le_lockToken e) err (retrying policy err e) now db
            in db1\<lparr>ob_events := fail_event policy err e now (ob_events db1)\<rparr>)"

definition recoverStaleEvents :: "time \<Rightarrow> lender_event list \<Rightarrow> lender_event list" where
  "recoverStaleEvents now t =
     update_many (\<lambda>e. le_status e = EV_PROCESSING \<and> (case le_leaseExpiresAt e of Some l \<Rightarrow> l < now | None \<Rightarrow> False))
       (\<lambda>e. (unlock e)\<lparr>le_status := EV_RETRY_PENDING, le_availableAt := now,
          le_errorCode := Some ''WORKER_LOCK_RECOVERED'',
          le_errorMessage := Some ''Recovered after an expired worker lease.''\<rparr>) t"

section \<open>Queueing\<close>

text \<open>\<open>number:type:V1\<close> for the stages of an application, \<open>number:type:id\<close> for what it has many of.\<close>

definition versioned_key :: "string \<Rightarrow> string \<Rightarrow> int \<Rightarrow> string" where
  "versioned_key number ty version = number @ '':'' @ ty @ '':V'' @ show_int version"

definition subject_key :: "string \<Rightarrow> string \<Rightarrow> int \<Rightarrow> string" where
  "subject_key number ty i = number @ '':'' @ ty @ '':'' @ show_int i"

definition new_event ::
  "ident \<Rightarrow> string \<Rightarrow> pl_application \<Rightarrow> ident \<Rightarrow> lender_stage \<Rightarrow> int \<Rightarrow> string \<Rightarrow> int option \<Rightarrow> time \<Rightarrow> lender_event" where
  "new_event i ty a lender stage version key subject now =
     \<lparr>le_id = i, le_eventType = ty, le_applicationId = pa_id a, le_reference = pa_number a, le_lenderId = lender,
      le_stage = stage, le_payloadVersion = version, le_key = key, le_consentType = None, le_subjectId = subject,
      le_status = EV_PENDING, le_attemptCount = 0, le_availableAt = now, le_lockedAt = None, le_lockedBy = None,
      le_lockToken = None, le_leaseExpiresAt = None, le_processedAt = None, le_errorCode = None,
      le_errorMessage = None, le_createdAt = now\<rparr>"

text \<open>\<open>upsert\<close> with an empty update: the row of the key, or the new one.\<close>

definition upsert_event :: "lender_event \<Rightarrow> lender_event list \<Rightarrow> lender_event \<times> lender_event list" where
  "upsert_event e t = (case find_unique le_key (le_key e) t of Some x \<Rightarrow> (x, t) | None \<Rightarrow> (e, t @ [e]))"

definition put_event :: "lender_event \<Rightarrow> outbox_db \<Rightarrow> lender_event \<times> outbox_db" where
  "put_event e db = (case upsert_event e (ob_events db) of (x, t) \<Rightarrow> (x, db\<lparr>ob_events := t\<rparr>))"

definition allocated_application :: "int \<Rightarrow> outbox_db \<Rightarrow> http_error + pl_application \<times> ident" where
  "allocated_application applicationId db =
     (case find_unique pa_id applicationId (ob_apps db) of
        None \<Rightarrow> Inl (BadRequest ''Allocated lender is missing.'')
      | Some a \<Rightarrow> (case truthy_str (pa_lenderId a) of
                     None \<Rightarrow> Inl (BadRequest ''Allocated lender is missing.'')
                   | Some l \<Rightarrow> Inr (a, l)))"

definition enqueueStage ::
  "ident \<Rightarrow> int \<Rightarrow> lender_stage \<Rightarrow> int option \<Rightarrow> time \<Rightarrow> outbox_db \<Rightarrow> (http_error + lender_event) \<times> outbox_db" where
  "enqueueStage i applicationId stage payloadVersion now db =
     (case allocated_application applicationId db of
        Inl e \<Rightarrow> (Inl e, db)
      | Inr (a, l) \<Rightarrow>
          let version = (case payloadVersion of Some v \<Rightarrow> v | None \<Rightarrow> 1);
              ty = (if stage = ST_UPDATE then ''LENDER_UPDATE_APPLICATION''
                    else if stage = ST_DECISION then ''LENDER_REQUEST_DECISION'' else ''LENDER_STATUS_CHECK'')
          in map_prod Inr id (put_event (new_event i ty a l stage version (versioned_key (pa_number a) ty version) None now) db))"

definition enqueueDisbursalWhenReady ::
  "ident \<Rightarrow> int \<Rightarrow> int \<Rightarrow> time \<Rightarrow> outbox_db \<Rightarrow> (http_error + lender_event) \<times> outbox_db" where
  "enqueueDisbursalWhenReady i applicationId version now db =
     (case allocated_application applicationId db of
        Inl e \<Rightarrow> (Inl e, db)
      | Inr (a, l) \<Rightarrow>
          if applicationId \<notin> fst ` set (ob_loans db) then (Inl (BadRequest ''No loan exists for this application yet.''), db)
          else map_prod Inr id (put_event (new_event i ''LENDER_REQUEST_DISBURSAL'' a l ST_DISBURSE version
                 (versioned_key (pa_number a) ''LENDER_REQUEST_DISBURSAL'' version) None now) db))"

text \<open>\<open>enqueueRepaymentNotification\<close>, \<open>enqueueChargeNotification\<close>, \<open>enqueueChargeWaiverNotification\<close>\<close>

datatype notification = N_REPAYMENT | N_CHARGE | N_CHARGE_WAIVER

fun notification_type :: "notification \<Rightarrow> string" where
  "notification_type N_REPAYMENT = ''LENDER_NOTIFY_REPAYMENT''"
| "notification_type N_CHARGE = ''LENDER_NOTIFY_CHARGE''"
| "notification_type N_CHARGE_WAIVER = ''LENDER_NOTIFY_CHARGE_WAIVER''"

fun notification_stage :: "notification \<Rightarrow> lender_stage" where
  "notification_stage N_REPAYMENT = ST_REPAYMENT"
| "notification_stage N_CHARGE = ST_CHARGE"
| "notification_stage N_CHARGE_WAIVER = ST_CHARGE_WAIVER"

definition enqueueNotification ::
  "notification \<Rightarrow> ident \<Rightarrow> int \<Rightarrow> int \<Rightarrow> time \<Rightarrow> outbox_db \<Rightarrow> (http_error + lender_event) \<times> outbox_db" where
  "enqueueNotification n i applicationId subject now db =
     (case allocated_application applicationId db of
        Inl e \<Rightarrow> (Inl e, db)
      | Inr (a, l) \<Rightarrow>
          map_prod Inr id (put_event (new_event i (notification_type n) a l (notification_stage n) 1
            (subject_key (pa_number a) (notification_type n) subject) (Some subject) now) db))"

text \<open>The transaction of \<open>enqueueUpdateWhenReady\<close>, for an application that is ready.\<close>

definition acknowledged :: "op_status \<Rightarrow> bool" where
  "acknowledged s \<longleftrightarrow> s = OP_ACKNOWLEDGED \<or> s = OP_COMPLETED"

definition enqueueUpdate_ready ::
  "ident \<Rightarrow> pl_application \<Rightarrow> ident \<Rightarrow> int \<Rightarrow> time \<Rightarrow> outbox_db \<Rightarrow> lender_event \<times> outbox_db" where
  "enqueueUpdate_ready i a l version now db =
     (let key = versioned_key (pa_number a) ''LENDER_UPDATE_APPLICATION'' version;
          (e, db1) = put_event (new_event i ''LENDER_UPDATE_APPLICATION'' a l ST_UPDATE version key None now) db
      in (e, db1\<lparr>ob_links := update_many (\<lambda>k. lk_applicationId k = pa_id a
                   \<and> (\<not> acknowledged (lk_updateStatus k) \<or> lk_updatePayloadVersion k < version))
                 (\<lambda>k. k\<lparr>lk_updateStatus := OP_PENDING, lk_updateKey := Some key, lk_updatePayloadVersion := version\<rparr>)
                 (ob_links db1)\<rparr>))"

section \<open>Replay\<close>

text \<open>
  An operator's replay checks the event and the application, and then resets the event by its id
  in a transaction of its own.
\<close>

definition replay_check :: "ident \<Rightarrow> outbox_db \<Rightarrow> http_error + lender_event" where
  "replay_check i db =
     (case find_unique le_id i (ob_events db) of
        None \<Rightarrow> Inl (BadRequest ''Only a lender event that has failed or is awaiting retry can be replayed.'')
      | Some e \<Rightarrow>
          if le_status e \<notin> {EV_FAILED, EV_RETRY_PENDING}
          then Inl (BadRequest ''Only a lender event that has failed or is awaiting retry can be replayed.'')
          else
            case find_unique pa_id (le_applicationId e) (ob_apps db) of
              None \<Rightarrow> Inl (BadRequest ''Terminal lender decisions cannot be replayed.'')
            | Some a \<Rightarrow>
                if pa_status a = A_LOAN_CLOSED
                   \<or> le_stage e \<notin> {ST_DISBURSE, ST_DOCUMENT} \<and> pa_status a \<in> {A_LENDER_APPROVED, A_LENDER_REJECTED}
                then Inl (BadRequest ''Terminal lender decisions cannot be replayed.'')
                else Inr e)"

definition replay_data :: "time \<Rightarrow> lender_event \<Rightarrow> lender_event" where
  "replay_data now e =
     (unlock e)\<lparr>le_status := EV_PENDING, le_attemptCount := 0, le_availableAt := now, le_processedAt := None,
       le_errorCode := None, le_errorMessage := None\<rparr>"

definition replay_link :: "lender_event \<Rightarrow> (lender_link \<Rightarrow> lender_link) option" where
  "replay_link e =
     (case le_stage e of
        ST_CREATE \<Rightarrow> Some (\<lambda>l. l\<lparr>lk_createStatus := OP_PENDING\<rparr>)
      | ST_CONSENT \<Rightarrow> if gating_consent e then Some (\<lambda>l. l\<lparr>lk_consentStatus := OP_PENDING\<rparr>) else None
      | ST_UPDATE \<Rightarrow> Some (\<lambda>l. l\<lparr>lk_updateStatus := OP_PENDING\<rparr>)
      | ST_DECISION \<Rightarrow> Some (\<lambda>l. l\<lparr>lk_decisionStatus := OP_PENDING\<rparr>)
      | _ \<Rightarrow> None)"

definition replay_write :: "lender_event \<Rightarrow> time \<Rightarrow> outbox_db \<Rightarrow> outbox_db" where
  "replay_write e now db =
     db\<lparr>ob_events := update_many (\<lambda>x. le_id x = le_id e) (replay_data now) (ob_events db),
        ob_links := (case replay_link e of
            None \<Rightarrow> ob_links db
          | Some f \<Rightarrow> update_many (\<lambda>l. lk_applicationId l = le_applicationId e)
              (\<lambda>l. (f l)\<lparr>lk_errorCode := None, lk_errorMessage := None\<rparr>) (ob_links db)),
        ob_loans := (if le_stage e = ST_DISBURSE
          then update_many (\<lambda>l. fst l = le_applicationId e) (\<lambda>l. (fst l, ''DISBURSAL_REQUESTED'')) (ob_loans db)
          else ob_loans db)\<rparr>"

definition replayFailedEvent :: "ident \<Rightarrow> time \<Rightarrow> outbox_db \<Rightarrow> (http_error + unit) \<times> outbox_db" where
  "replayFailedEvent i now db =
     (case replay_check i db of Inl e \<Rightarrow> (Inl e, db) | Inr e \<Rightarrow> (Inr (), replay_write e now db))"

end
