(* ===== verification/OutboxSteps.thy ===== *)
theory OutboxSteps
  imports LenderOutbox
begin

text \<open>
  Several worker processes drain one outbox (theory LenderOutbox). A step is a claim, the end of
  an event's processing, a completion inside it, the death of a process, the recovery of stale
  events, the queueing of an event, the check of an operator's replay, or the reset that follows
  it. What a worker holds is the event as the claim returned it; a replay holds the event as its
  check, which runs outside the transaction of the reset, found it. Any step may come between a claim and the end of its processing; time
  is arbitrary, so leases may run out under their holder.
\<close>

section \<open>The steps\<close>

record cluster =
  cl_db :: outbox_db
  cl_inflight :: "(string \<times> lender_event) list"
  cl_replays :: "lender_event list"

definition busy :: "string \<Rightarrow> cluster \<Rightarrow> int list" where
  "busy w c = map (\<lambda>x. le_applicationId (snd x)) (filter (\<lambda>x. fst x = w) (cl_inflight c))"

definition tokens :: "cluster \<Rightarrow> string option list" where
  "tokens c = map le_lockToken (ob_events (cl_db c)) @ map (\<lambda>x. le_lockToken (snd x)) (cl_inflight c)"

definition queued_row :: "lender_event \<Rightarrow> bool" where
  "queued_row e \<longleftrightarrow> le_status e = EV_PENDING \<and> le_attemptCount e = 0 \<and> le_lockToken e = None
     \<and> le_lockedAt e = None \<and> le_lockedBy e = None \<and> le_leaseExpiresAt e = None \<and> le_processedAt e = None"

inductive cluster_step :: "cluster \<Rightarrow> cluster \<Rightarrow> bool" where
  claims: "claimNextEvent lease w tok now (busy w c) held (ob_events (cl_db c)) = (Some e, t) \<Longrightarrow>
    Some tok \<notin> set (tokens c) \<Longrightarrow>
    cluster_step c (c\<lparr>cl_db := (cl_db c)\<lparr>ob_events := t\<rparr>, cl_inflight := cl_inflight c @ [(w, e)]\<rparr>)"
| completes: "(w, e) \<in> set (cl_inflight c) \<Longrightarrow>
    complete_event (le_id e) (le_lockToken e) now (ob_events (cl_db c)) = (1, t) \<Longrightarrow>
    cluster_step c (c\<lparr>cl_db := (cl_db c)\<lparr>ob_events := t\<rparr>\<rparr>)"
| works: "ob_events db = ob_events (cl_db c) \<Longrightarrow> cluster_step c (c\<lparr>cl_db := db\<rparr>)"
| finishes: "(w, e) \<in> set (cl_inflight c) \<Longrightarrow>
    cluster_step c (c\<lparr>cl_db := finishClaimed redact policy e out now (cl_db c),
                      cl_inflight := filter (\<lambda>x. x \<noteq> (w, e)) (cl_inflight c)\<rparr>)"
| dies: "cluster_step c (c\<lparr>cl_inflight := filter (\<lambda>x. fst x \<noteq> w) (cl_inflight c)\<rparr>)"
| recovers: "cluster_step c (c\<lparr>cl_db := (cl_db c)\<lparr>ob_events := recoverStaleEvents now (ob_events (cl_db c))\<rparr>\<rparr>)"
| queues: "queued_row e \<Longrightarrow> le_id e \<notin> le_id ` set (ob_events (cl_db c)) \<Longrightarrow>
    cluster_step c (c\<lparr>cl_db := snd (put_event e (cl_db c))\<rparr>)"
| replay_checked: "replay_check i (cl_db c) = Inr e \<Longrightarrow>
    cluster_step c (c\<lparr>cl_replays := e # cl_replays c\<rparr>)"
| replay_written: "e \<in> set (cl_replays c) \<Longrightarrow>
    cluster_step c (c\<lparr>cl_db := replay_write e now (cl_db c), cl_replays := remove1 e (cl_replays c)\<rparr>)"
| replay_lost: "cluster_step c (c\<lparr>cl_replays := remove1 e (cl_replays c)\<rparr>)"

abbreviation cluster_steps :: "cluster \<Rightarrow> cluster \<Rightarrow> bool" where
  "cluster_steps \<equiv> cluster_step\<^sup>*\<^sup>*"

section \<open>What a claim does\<close>

lemma claimNextEvent_Some:
  assumes "claimNextEvent lease w tok now excl held t = (Some e, t')" and "unique_keys le_id t"
  obtains e0 where "e0 \<in> set t" "claimable now excl held e0" "e = claim_data lease w tok now e0"
    "t' = update_many (\<lambda>x. le_id x = le_id e0) (claim_data lease w tok now) t"
    "\<And>x. x \<in> set t \<Longrightarrow> claimable now excl held x \<Longrightarrow> le_availableAt e0 \<le> le_availableAt x"
proof -
  let ?due = "sort_key le_availableAt (sort_key le_createdAt (filter (claimable now excl held) t))"
  from assms(1) obtain e0 r where due: "?due = e0 # r"
    by (auto simp: claimNextEvent_def split: list.splits)
  have "set ?due = {x \<in> set t. claimable now excl held x}" by simp
  with due have e0: "e0 \<in> set t" "claimable now excl held e0"
    and rest: "\<And>x. x \<in> set t \<Longrightarrow> claimable now excl held x \<Longrightarrow> x = e0 \<or> x \<in> set r" by auto
  have "sorted (map le_availableAt ?due)" by simp
  then have "\<forall>x\<in>set r. le_availableAt e0 \<le> le_availableAt x" by (simp add: due)
  with rest have min: "\<And>x. x \<in> set t \<Longrightarrow> claimable now excl held x \<Longrightarrow> le_availableAt e0 \<le> le_availableAt x" by blast
  let ?f = "claim_data lease w tok now"
  let ?t = "update_many (\<lambda>x. le_id x = le_id e0 \<and> le_status x \<in> {EV_PENDING, EV_RETRY_PENDING}) ?f t"
  note r = assms(1) [unfolded claimNextEvent_def due Let_def list.case prod.inject]
  have same: "x = e0" if "x \<in> set t" "le_id x = le_id e0" for x
    using unique_keys_eq [OF assms(2) that(1) e0(1) that(2)] .
  have "?t = update_many (\<lambda>x. le_id x = le_id e0) ?f t"
    unfolding update_many_def using same e0(2) by (auto simp: claimable_def)
  moreover have "find_unique le_id (le_id e0) ?t = Some (?f e0)"
    using e0 by (simp add: find_unique_update_many claim_data_def find_unique_in_set [OF assms(2)] claimable_def)
  ultimately have "e = ?f e0" "t' = update_many (\<lambda>x. le_id x = le_id e0) ?f t" using r by simp_all
  with min e0 show thesis by (intro that [of e0])
qed

section \<open>The invariant\<close>

text \<open>A row: what its status says of the lock, the attempts and the end.\<close>

definition event_ok :: "lender_event \<Rightarrow> bool" where
  "event_ok e \<longleftrightarrow> 0 \<le> le_attemptCount e
     \<and> (if le_status e = EV_PROCESSING
        then le_lockToken e \<noteq> None \<and> le_lockedBy e \<noteq> None \<and> le_lockedAt e \<noteq> None
          \<and> le_leaseExpiresAt e \<noteq> None \<and> 0 < le_attemptCount e
        else le_lockToken e = None \<and> le_lockedBy e = None \<and> le_lockedAt e = None \<and> le_leaseExpiresAt e = None)
     \<and> (le_status e \<in> {EV_COMPLETED, EV_FAILED} \<longrightarrow> le_processedAt e \<noteq> None)"

definition cluster_inv :: "cluster \<Rightarrow> bool" where
  "cluster_inv c \<longleftrightarrow>
     unique_keys le_id (ob_events (cl_db c)) \<and> unique_keys le_key (ob_events (cl_db c))
     \<and> (\<forall>e\<in>set (ob_events (cl_db c)). event_ok e)
     \<and> (\<forall>x\<in>set (cl_inflight c). le_lockToken (snd x) \<noteq> None)
     \<and> distinct (map (\<lambda>x. le_lockToken (snd x)) (cl_inflight c))
     \<and> (\<forall>x\<in>set (ob_events (cl_db c)). \<forall>y\<in>set (ob_events (cl_db c)).
          le_lockToken x \<noteq> None \<longrightarrow> le_lockToken x = le_lockToken y \<longrightarrow> le_id x = le_id y)
     \<and> (\<forall>w. distinct (busy w c))"

lemma cluster_invD:
  assumes "cluster_inv c"
  shows "unique_keys le_id (ob_events (cl_db c))" "unique_keys le_key (ob_events (cl_db c))"
    "e \<in> set (ob_events (cl_db c)) \<Longrightarrow> event_ok e"
    "x \<in> set (cl_inflight c) \<Longrightarrow> le_lockToken (snd x) \<noteq> None"
    "distinct (map (\<lambda>x. le_lockToken (snd x)) (cl_inflight c))"
    "distinct (busy w c)"
    "a \<in> set (ob_events (cl_db c)) \<Longrightarrow> b \<in> set (ob_events (cl_db c)) \<Longrightarrow> le_lockToken a \<noteq> None \<Longrightarrow>
      le_lockToken a = le_lockToken b \<Longrightarrow> le_id a = le_id b"
  using assms unfolding cluster_inv_def by blast+

text \<open>
  A change of rows in place that keeps them well-formed and gives out no token but, perhaps, one
  fresh one to one row.
\<close>

definition rows_change :: "(lender_event \<Rightarrow> lender_event) \<Rightarrow> bool" where
  "rows_change f \<longleftrightarrow> (\<forall>e. le_id (f e) = le_id e \<and> le_key (f e) = le_key e)"

definition events_ok :: "lender_event list \<Rightarrow> bool" where
  "events_ok t \<longleftrightarrow> unique_keys le_id t \<and> unique_keys le_key t \<and> (\<forall>e\<in>set t. event_ok e)
     \<and> (\<forall>x\<in>set t. \<forall>y\<in>set t. le_lockToken x \<noteq> None \<longrightarrow> le_lockToken x = le_lockToken y \<longrightarrow> le_id x = le_id y)"

lemma events_okD:
  assumes "events_ok t"
  shows "unique_keys le_id t" "unique_keys le_key t" "e \<in> set t \<Longrightarrow> event_ok e"
    "a \<in> set t \<Longrightarrow> b \<in> set t \<Longrightarrow> le_lockToken a \<noteq> None \<Longrightarrow> le_lockToken a = le_lockToken b \<Longrightarrow> le_id a = le_id b"
  using assms unfolding events_ok_def by blast+

lemma cluster_inv_events:
  "cluster_inv c \<longleftrightarrow> events_ok (ob_events (cl_db c))
     \<and> (\<forall>x\<in>set (cl_inflight c). le_lockToken (snd x) \<noteq> None)
     \<and> distinct (map (\<lambda>x. le_lockToken (snd x)) (cl_inflight c)) \<and> (\<forall>w. distinct (busy w c))"
  unfolding cluster_inv_def events_ok_def by blast

text \<open>Rows that give their lock back.\<close>

lemma events_ok_unlocking:
  assumes ok: "events_ok t"
    and keys: "\<And>e. le_id (f e) = le_id e" "\<And>e. le_key (f e) = le_key e"
    and row: "\<And>e. e \<in> set t \<Longrightarrow> P e \<Longrightarrow> event_ok (f e)" "\<And>e. e \<in> set t \<Longrightarrow> P e \<Longrightarrow> le_lockToken (f e) = None"
  shows "events_ok (update_many P f t)"
  unfolding events_ok_def
proof (intro conjI ballI impI)
  note I = events_okD [OF ok]
  show "unique_keys le_id (update_many P f t)" by (rule unique_keys_update_many [OF keys(1) I(1)])
  show "unique_keys le_key (update_many P f t)" by (rule unique_keys_update_many [OF keys(2) I(2)])
  show "event_ok e" if "e \<in> set (update_many P f t)" for e
    using that by (rule update_many_obtain) (use I(3) row(1) in auto)
  fix x y assume x: "x \<in> set (update_many P f t)" "le_lockToken x \<noteq> None" and y: "y \<in> set (update_many P f t)"
    and eq: "le_lockToken x = le_lockToken y"
  have old: "z \<in> set t" if "z \<in> set (update_many P f t)" "le_lockToken z \<noteq> None" for z
    using that(1) by (rule update_many_obtain) (use that(2) row(2) in auto)
  from x(2) eq have ny: "le_lockToken y \<noteq> None" by simp
  show "le_id x = le_id y" by (rule I(4) [OF old [OF x] old [OF y ny] x(2) eq])
qed

lemma event_ok_unlock [simp]:
  "event_ok (complete_data now e) = (0 \<le> le_attemptCount e)"
  "event_ok (replay_data now e)"
  "le_lockToken (complete_data now e) = None" "le_lockToken (replay_data now e) = None"
  "le_lockToken (unlock e) = None"
  by (simp_all add: event_ok_def complete_data_def replay_data_def unlock_def)

section \<open>The invariant is kept\<close>

lemma recover_ok: "events_ok t \<Longrightarrow> events_ok (recoverStaleEvents now t)"
  unfolding recoverStaleEvents_def
  by (rule events_ok_unlocking) (auto simp: unlock_def event_ok_def dest: events_okD(3))

lemma complete_ok: "events_ok t \<Longrightarrow> events_ok (snd (complete_event i token now t))"
  unfolding complete_event_def snd_conv
  by (rule events_ok_unlocking) (auto simp: complete_data_def unlock_def event_ok_def dest!: events_okD(3))

lemma fail_ok: "events_ok t \<Longrightarrow> events_ok (fail_event policy err e now t)"
  unfolding fail_event_def
  by (rule events_ok_unlocking) (auto simp: fail_data_def Let_def unlock_def event_ok_def dest!: events_okD(3))

lemma markStageFailure_events [simp]:
  "ob_events (markStageFailure i token err r now db) = ob_events db"
  by (simp add: markStageFailure_def split: option.split)

lemma finishClaimed_events:
  "ob_events (finishClaimed redact policy e out now db) = ob_events db
   \<or> ob_events (finishClaimed redact policy e out now db)
       = snd (complete_event (le_id e) (le_lockToken e) now (ob_events db))
   \<or> (\<exists>err. ob_events (finishClaimed redact policy e out now db) = fail_event policy err e now (ob_events db))"
  by (cases out) (auto simp: finishClaimed_def Let_def)

lemma replay_check_event:
  assumes "replay_check i db = Inr e"
  shows "e \<in> set (ob_events db)" "le_id e = i" "le_status e \<in> {EV_FAILED, EV_RETRY_PENDING}"
  using assms
  by (auto simp: replay_check_def dest: find_unique_Some_D split: option.splits if_splits)

lemma replay_write_events:
  "ob_events (replay_write e now db) = update_many (\<lambda>x. le_id x = le_id e) (replay_data now) (ob_events db)"
  by (simp add: replay_write_def)

lemma replay_ok: "events_ok (ob_events db) \<Longrightarrow> events_ok (ob_events (replay_write e now db))"
  unfolding replay_write_events
  by (auto intro!: events_ok_unlocking simp: replay_data_def unlock_def event_ok_def)

lemma queue_events:
  "ob_events (snd (put_event e db)) =
     (if le_key e \<in> le_key ` set (ob_events db) then ob_events db else ob_events db @ [e])"
proof (cases "find_unique le_key (le_key e) (ob_events db)")
  case None
  then have "le_key e \<notin> le_key ` set (ob_events db)" by (simp only: find_unique_None_iff simp_thms)
  with None show ?thesis by (simp add: put_event_def upsert_event_def)
next
  case (Some x)
  from find_unique_Some_D [OF Some] have "le_key e \<in> le_key ` set (ob_events db)" by (metis imageI)
  with Some show ?thesis by (simp add: put_event_def upsert_event_def)
qed

lemma events_ok_snoc:
  assumes ok: "events_ok t" and e: "event_ok e" "le_lockToken e = None" "le_id e \<notin> le_id ` set t" "le_key e \<notin> le_key ` set t"
  shows "events_ok (t @ [e])"
  unfolding events_ok_def
proof (intro conjI ballI impI)
  note I = events_okD [OF ok]
  show "unique_keys le_id (t @ [e])" "unique_keys le_key (t @ [e])" using I(1,2) e(3,4) by simp_all
  show "event_ok x" if "x \<in> set (t @ [e])" for x using that I(3) [of x] e(1) by auto
  fix x y assume xy: "x \<in> set (t @ [e])" "y \<in> set (t @ [e])" "le_lockToken x \<noteq> None" "le_lockToken x = le_lockToken y"
  with e(2) have "x \<noteq> e" "y \<noteq> e" by metis+
  with xy(1,2) have "x \<in> set t" "y \<in> set t" by simp_all
  from I(4) [OF this xy(3,4)] show "le_id x = le_id y" .
qed

lemma queue_ok:
  assumes "events_ok (ob_events db)" and "queued_row e" and "le_id e \<notin> le_id ` set (ob_events db)"
  shows "events_ok (ob_events (snd (put_event e db)))"
proof (cases "le_key e \<in> le_key ` set (ob_events db)")
  case True
  with assms(1) show ?thesis by (simp add: queue_events)
next
  case False
  from assms(2) have "event_ok e" "le_lockToken e = None" by (simp_all add: queued_row_def event_ok_def)
  with assms(1,3) False show ?thesis by (simp add: queue_events events_ok_snoc)
qed

lemma claim_ok:
  assumes ok: "events_ok t" and e0: "e0 \<in> set t" and fresh: "Some tok \<notin> le_lockToken ` set t"
  shows "events_ok (update_many (\<lambda>x. le_id x = le_id e0) (claim_data lease w tok now) t)"
  unfolding events_ok_def
proof (intro conjI ballI impI)
  note I = events_okD [OF ok]
  let ?f = "claim_data lease w tok now" and ?P = "\<lambda>x. le_id x = le_id e0"
  have f: "le_id (?f e) = le_id e" "le_key (?f e) = le_key e" "le_lockToken (?f e) = Some tok" for e
    by (simp_all add: claim_data_def)
  show "unique_keys le_id (update_many ?P ?f t)" by (rule unique_keys_update_many [OF f(1) I(1)])
  show "unique_keys le_key (update_many ?P ?f t)" by (rule unique_keys_update_many [OF f(2) I(2)])
  show "event_ok e" if "e \<in> set (update_many ?P ?f t)" for e
    using that by (rule update_many_obtain) (use I(3) in \<open>auto simp: event_ok_def claim_data_def\<close>)
  fix x y assume x: "x \<in> set (update_many ?P ?f t)" "le_lockToken x \<noteq> None" and y: "y \<in> set (update_many ?P ?f t)"
    and eq: "le_lockToken x = le_lockToken y"
  have old: "z \<in> set t \<and> le_lockToken z \<noteq> Some tok \<or> le_lockToken z = Some tok \<and> le_id z = le_id e0"
    if "z \<in> set (update_many ?P ?f t)" for z
    using that by (rule update_many_obtain) (use fresh f in \<open>auto simp: image_iff\<close>)
  from old [OF x(1)] old [OF y] eq have "x \<in> set t \<and> y \<in> set t \<or> le_id x = le_id e0 \<and> le_id y = le_id e0" by argo
  then show "le_id x = le_id y" using I(4) [OF _ _ x(2) eq] by argo
qed

text \<open>Fewer events in flight.\<close>

definition flight_ok :: "(string \<times> lender_event) list \<Rightarrow> bool" where
  "flight_ok xs \<longleftrightarrow> (\<forall>x\<in>set xs. le_lockToken (snd x) \<noteq> None)
     \<and> distinct (map (\<lambda>x. le_lockToken (snd x)) xs)
     \<and> (\<forall>w. distinct (map (\<lambda>x. le_applicationId (snd x)) (filter (\<lambda>x. fst x = w) xs)))"

lemma cluster_inv_flight:
  "cluster_inv c \<longleftrightarrow> events_ok (ob_events (cl_db c)) \<and> flight_ok (cl_inflight c)"
  unfolding cluster_inv_events flight_ok_def busy_def by blast

lemma flight_ok_filter:
  assumes "flight_ok xs"
  shows "flight_ok (filter P xs)"
proof -
  have "filter (\<lambda>x. fst x = w) (filter P xs) = filter P (filter (\<lambda>x. fst x = w) xs)" for w
    by (simp add: conj_commute)
  with assms show ?thesis
    unfolding flight_ok_def by (simp only: distinct_map_filter set_filter mem_Collect_eq simp_thms ball_simps) blast
qed

lemma flight_ok_snoc:
  assumes "flight_ok xs" and "le_lockToken e \<noteq> None" and "le_lockToken e \<notin> (\<lambda>x. le_lockToken (snd x)) ` set xs"
    and "le_applicationId e \<notin> (\<lambda>x. le_applicationId (snd x)) ` {x \<in> set xs. fst x = w}"
  shows "flight_ok (xs @ [(w, e)])"
  using assms unfolding flight_ok_def by auto

lemma cluster_step_inv:
  assumes "cluster_step c c'" and "cluster_inv c"
  shows "cluster_inv c'"
  using assms
proof (induction rule: cluster_step.cases)
  case (claims lease w tok now c held e t)
  then have ok: "events_ok (ob_events (cl_db c))" "flight_ok (cl_inflight c)" by (simp_all add: cluster_inv_flight)
  from claimNextEvent_Some [OF claims(3) events_okD(1) [OF ok(1)]]
  obtain e0 where e0: "e0 \<in> set (ob_events (cl_db c))" "claimable now (busy w c) held e0"
    "e = claim_data lease w tok now e0"
    "t = update_many (\<lambda>x. le_id x = le_id e0) (claim_data lease w tok now) (ob_events (cl_db c))" by metis
  have "events_ok t"
    unfolding e0(4) by (rule claim_ok [OF ok(1) e0(1)]) (use claims(4) in \<open>auto simp: tokens_def\<close>)
  moreover have e: "le_lockToken e = Some tok" "le_applicationId e = le_applicationId e0"
    by (simp_all add: e0(3) claim_data_def)
  moreover have "flight_ok (cl_inflight c @ [(w, e)])"
    by (rule flight_ok_snoc [OF ok(2)]) (use claims(4) e e0(2) in \<open>auto simp: tokens_def claimable_def busy_def\<close>)
  ultimately show ?case by (simp add: claims(1,2) cluster_inv_flight)
next
  case (completes w e c now t)
  then have ok: "events_ok (ob_events (cl_db c))" "flight_ok (cl_inflight c)" by (simp_all only: cluster_inv_flight)
  from complete_ok [OF ok(1), of "le_id e" "le_lockToken e" now] have "events_ok t" by (simp only: completes(4) snd_conv)
  with ok(2) show ?case by (simp add: completes(1,2) cluster_inv_flight)
next
  case (finishes w e c redact policy out now)
  then have ok: "events_ok (ob_events (cl_db c))" by (simp add: cluster_inv_flight)
  have "events_ok (ob_events (finishClaimed redact policy e out now (cl_db c)))"
    using finishClaimed_events [of redact policy e out now "cl_db c"] ok complete_ok [OF ok] fail_ok [OF ok] by auto
  with finishes show ?case by (simp add: cluster_inv_flight flight_ok_filter)
qed (simp_all add: cluster_inv_flight flight_ok_filter recover_ok queue_ok replay_ok)

lemma cluster_steps_inv: "cluster_steps c c' \<Longrightarrow> cluster_inv c \<Longrightarrow> cluster_inv c'"
  by (induction rule: rtranclp_induct) (auto intro: cluster_step_inv)

section \<open>A run\<close>

text \<open>
  Two events of two applications. A worker of the process w2 claims the first and stalls; its lease
  runs out and the event is recovered; the process w1 claims both and completes the second.
\<close>

definition demo_event :: "string \<Rightarrow> int \<Rightarrow> lender_stage \<Rightarrow> time \<Rightarrow> lender_event" where
  "demo_event i app stage due =
     \<lparr>le_id = i, le_eventType = ''T'', le_applicationId = app, le_reference = ''A'', le_lenderId = ''l'',
      le_stage = stage, le_payloadVersion = 1, le_key = i, le_consentType = None, le_subjectId = None,
      le_status = EV_PENDING, le_attemptCount = 0, le_availableAt = due, le_lockedAt = None, le_lockedBy = None,
      le_lockToken = None, le_leaseExpiresAt = None, le_processedAt = None, le_errorCode = None,
      le_errorMessage = None, le_createdAt = due\<rparr>"

definition demo_link :: "int \<Rightarrow> lender_link" where
  "demo_link app =
     \<lparr>lk_applicationId = app, lk_partnerApplicationId = Some ''P'', lk_createStatus = OP_COMPLETED,
      lk_consentStatus = OP_COMPLETED, lk_updateStatus = OP_ACKNOWLEDGED, lk_decisionStatus = OP_COMPLETED,
      lk_updateKey = None, lk_decisionKey = None, lk_updatePayloadVersion = 1, lk_decisionPayloadVersion = 1,
      lk_normalizedDecision = Some ''APPROVED'', lk_rejectionReasonCode = None, lk_lastAttemptAt = None,
      lk_lastSuccessAt = None, lk_errorCode = None, lk_errorMessage = None\<rparr>"

definition demo_cluster :: "lender_event list \<Rightarrow> cluster" where
  "demo_cluster es =
     \<lparr>cl_db = \<lparr>ob_events = es, ob_links = [demo_link 1], ob_apps = [new_application 1 1 ''A'' (Some ''PL'') (Some ''S'') 0], ob_loans = [], ob_transfers = [],
               ob_onboarding = []\<rparr>, cl_inflight = [], cl_replays = []\<rparr>"

definition demo_claim :: "string \<Rightarrow> string \<Rightarrow> time \<Rightarrow> cluster \<Rightarrow> cluster" where
  "demo_claim w tok now c =
     (case claimNextEvent 60 w tok now (busy w c) [] (ob_events (cl_db c)) of
        (Some e, t) \<Rightarrow> c\<lparr>cl_db := (cl_db c)\<lparr>ob_events := t\<rparr>, cl_inflight := cl_inflight c @ [(w, e)]\<rparr>
      | (None, _) \<Rightarrow> c)"

definition demo_recover :: "time \<Rightarrow> cluster \<Rightarrow> cluster" where
  "demo_recover now c = c\<lparr>cl_db := (cl_db c)\<lparr>ob_events := recoverStaleEvents now (ob_events (cl_db c))\<rparr>\<rparr>"

definition demo_finish :: "nat \<Rightarrow> outcome \<Rightarrow> time \<Rightarrow> cluster \<Rightarrow> cluster" where
  "demo_finish k out now c =
     (case cl_inflight c ! k of (w, e) \<Rightarrow>
        c\<lparr>cl_db := finishClaimed id \<lparr>ry_maximumAttempts = 3, ry_scheduleSeconds = [0, 60]\<rparr> e out now (cl_db c),
          cl_inflight := filter (\<lambda>x. x \<noteq> (w, e)) (cl_inflight c)\<rparr>)"

lemma demo_claim_steps:
  "cluster_steps c0 c \<Longrightarrow> Some tok \<notin> set (tokens c) \<Longrightarrow> cluster_steps c0 (demo_claim w tok now c)"
  by (auto simp: demo_claim_def split: prod.split option.split intro: rtranclp.rtrancl_into_rtrancl cluster_step.claims)

lemma demo_recover_steps: "cluster_steps c0 c \<Longrightarrow> cluster_steps c0 (demo_recover now c)"
  unfolding demo_recover_def by (erule rtranclp.rtrancl_into_rtrancl) (rule cluster_step.recovers)

lemma demo_finish_steps:
  assumes "cluster_steps c0 c" and "k < length (cl_inflight c)"
  shows "cluster_steps c0 (demo_finish k out now c)"
proof -
  obtain w e where we: "cl_inflight c ! k = (w, e)" by (cases "cl_inflight c ! k")
  with assms(2) have "(w, e) \<in> set (cl_inflight c)" by (metis nth_mem)
  from rtranclp.rtrancl_into_rtrancl [OF assms(1) cluster_step.finishes [OF this]] show ?thesis
    by (simp add: demo_finish_def we)
qed

lemma demo_inv:
  assumes "unique_keys le_id es" and "list_all queued_row es" and "map le_key es = map le_id es"
  shows "cluster_inv (demo_cluster es)"
proof -
  have "unique_keys le_key es" using assms(1) unfolding unique_keys_def by (simp only: assms(3))
  moreover have row: "event_ok e \<and> le_lockToken e = None" if "e \<in> set es" for e
    using that assms(2) by (simp add: list_all_iff queued_row_def event_ok_def)
  ultimately have "events_ok es" unfolding events_ok_def using assms(1) by auto
  then show ?thesis by (simp add: cluster_inv_flight demo_cluster_def flight_ok_def)
qed

definition demo_0 :: cluster where
  "demo_0 = demo_cluster [demo_event ''e1'' 1 ST_REPAYMENT 0, demo_event ''e2'' 2 ST_UPDATE 5]"

definition demo_pair :: "lender_event list" where
  "demo_pair = [demo_event ''e1'' 1 ST_CREATE 0, demo_event ''e2'' 1 ST_CONSENT 0]"

definition demo_two :: cluster where
  "demo_two = demo_claim ''w2'' ''t2'' 0 (demo_claim ''w1'' ''t1'' 0 (demo_cluster demo_pair))"

definition demo_1 :: cluster where
  "demo_1 = demo_recover 100000 (demo_claim ''w2'' ''t2'' 0 demo_0)"

definition demo_2 :: cluster where
  "demo_2 = demo_claim ''w1'' ''t1'' 100000 (demo_claim ''w1'' ''t3'' 100000 demo_1)"

definition demo_3 :: cluster where
  "demo_3 = demo_finish 1 (Returned False) 100500 demo_2"

definition demo_4 :: cluster where
  "demo_4 = demo_finish 0 (Threw (T_Other (Some ''ETIMEDOUT'') None ''timeout'')) 1000 (demo_claim ''w1'' ''t1'' 0 demo_0)"

lemma demo_0_inv: "cluster_inv demo_0"
  unfolding demo_0_def by (rule demo_inv) (simp_all add: demo_event_def queued_row_def)

lemma demo_2_steps: "cluster_steps demo_0 demo_2"
  unfolding demo_2_def demo_1_def
  by (intro demo_claim_steps demo_recover_steps rtranclp.rtrancl_refl) code_simp+

lemma demo_4_steps: "cluster_steps demo_0 demo_4"
  unfolding demo_4_def by (intro demo_finish_steps demo_claim_steps rtranclp.rtrancl_refl) code_simp+

lemma demo_3_steps: "cluster_steps demo_0 demo_3"
  unfolding demo_3_def by (rule demo_finish_steps [OF demo_2_steps]) code_simp

section \<open>Properties\<close>

text \<open>
  C23. One process never works on two events of an application: whatever the workers, the clock
  and the operators did, the events a process has in flight are of different applications.
\<close>

theorem one_event_per_application:
  assumes "cluster_steps c0 c" and "cluster_inv c0"
  shows "distinct (busy w c)"
  by (rule cluster_invD(6) [OF cluster_steps_inv [OF assms]])

theorem one_event_per_application_witness: "distinct (busy ''w1'' demo_2) \<and> busy ''w1'' demo_2 = [2, 1]"
proof -
  have "busy ''w1'' demo_2 = [2, 1]" by code_simp
  with one_event_per_application [OF demo_2_steps demo_0_inv, of "''w1''"] show ?thesis by simp
qed

text \<open>
  Two processes can work on one application at the same time: what a process leaves out of its
  claims is what it has in flight itself.
\<close>

theorem two_processes_one_application:
  "cluster_steps (demo_cluster demo_pair) demo_two \<and> busy ''w1'' demo_two = [1] \<and> busy ''w2'' demo_two = [1]"
proof -
  have "cluster_steps (demo_cluster demo_pair) demo_two"
    unfolding demo_two_def by (intro demo_claim_steps rtranclp.rtrancl_refl) code_simp+
  moreover have "busy ''w1'' demo_two = [1]" "busy ''w2'' demo_two = [1]" by code_simp+
  ultimately show ?thesis by simp
qed

text \<open>
  Leases exclude each other: while a worker owns the row of an event, another holder of that
  event, whose lease ran out earlier, changes nothing at all by finishing, whatever its outcome.
\<close>

theorem lease_exclusive:
  assumes "cluster_steps c0 c" and "cluster_inv c0"
    and "(w1, e1) \<in> set (cl_inflight c)" and "(w2, e2) \<in> set (cl_inflight c)" and "(w1, e1) \<noteq> (w2, e2)"
    and "x \<in> set (ob_events (cl_db c))" and "owned (le_id e1) (le_lockToken e1) x" and "le_id e2 = le_id x"
  shows "finishClaimed redact policy e2 out now (cl_db c) = cl_db c"
proof -
  note I = cluster_invD [OF cluster_steps_inv [OF assms(1,2)]]
  have ne: "le_lockToken e1 \<noteq> le_lockToken e2"
  proof
    assume eq: "le_lockToken e1 = le_lockToken e2"
    have "inj_on (\<lambda>p. le_lockToken (snd p)) (set (cl_inflight c))"
      using I(5) by (simp add: distinct_map comp_def)
    from inj_onD [OF this _ assms(3,4)] eq assms(5) show False by simp
  qed
  have "\<not> owned (le_id e2) (le_lockToken e2) y" if "y \<in> set (ob_events (cl_db c))" for y
  proof
    assume "owned (le_id e2) (le_lockToken e2) y"
    with assms(8) unique_keys_eq [OF I(1) that assms(6)] have "y = x" "le_lockToken y = le_lockToken e2"
      by (simp_all add: owned_def)
    with assms(7) ne show False by (simp add: owned_def)
  qed
  then have none: "count_rows (owned (le_id e2) (le_lockToken e2)) (ob_events (cl_db c)) = 0"
    by (simp add: count_rows_zero_iff)
  then show ?thesis
    by (cases out) (simp_all add: finishClaimed_def complete_event_def update_many_no_match)
qed

theorem lease_exclusive_witness:
  "finishClaimed id \<lparr>ry_maximumAttempts = 3, ry_scheduleSeconds = []\<rparr> (snd (cl_inflight demo_2 ! 0)) (Returned False) 200000 (cl_db demo_2) = cl_db demo_2
   \<and> le_lockToken (ob_events (cl_db demo_2) ! 0) = Some ''t1''"
proof -
  have x: "(''w1'', ob_events (cl_db demo_2) ! 0) \<in> set (cl_inflight demo_2)" by code_simp
  have o: "owned (le_id (ob_events (cl_db demo_2) ! 0)) (le_lockToken (ob_events (cl_db demo_2) ! 0)) (ob_events (cl_db demo_2) ! 0)
    \<and> le_lockToken (ob_events (cl_db demo_2) ! 0) = Some ''t1''" by code_simp
  have y: "(''w2'', snd (cl_inflight demo_2 ! 0)) \<in> set (cl_inflight demo_2)" by code_simp
  have ne: "(''w1'', ob_events (cl_db demo_2) ! 0) \<noteq> (''w2'', snd (cl_inflight demo_2 ! 0))" by simp
  have m: "ob_events (cl_db demo_2) ! 0 \<in> set (ob_events (cl_db demo_2))" by code_simp
  have i: "le_id (snd (cl_inflight demo_2 ! 0)) = le_id (ob_events (cl_db demo_2) ! 0)" by code_simp
  from lease_exclusive [OF demo_2_steps demo_0_inv x y ne m conjunct1 [OF o] i, of id _ "Returned False" 200000] o
  show ?thesis by simp
qed

lemma update_keeps: "x \<in> set t \<Longrightarrow> \<not> P x \<Longrightarrow> x \<in> set (update_many P f t)"
  by (auto simp: set_update_many intro!: image_eqI [of _ _ x])

text \<open>No replay that checked an event before it was completed is under way.\<close>

definition no_replay :: "lender_event \<Rightarrow> cluster \<Rightarrow> bool" where
  "no_replay x c \<longleftrightarrow> le_id x \<notin> le_id ` set (cl_replays c)"

lemma completed_step:
  assumes "cluster_step c c'" and inv: "cluster_inv c"
    and x: "x \<in> set (ob_events (cl_db c))" "le_status x = EV_COMPLETED" and quiet: "no_replay x c"
  shows "x \<in> set (ob_events (cl_db c')) \<and> no_replay x c'"
  using assms(1)
proof (cases rule: cluster_step.cases)
  case (claims lease w tok now held e t)
  from claimNextEvent_Some [OF claims(2) cluster_invD(1) [OF inv]]
  obtain e0 where e0: "e0 \<in> set (ob_events (cl_db c))" "claimable now (busy w c) held e0"
    "t = update_many (\<lambda>x. le_id x = le_id e0) (claim_data lease w tok now) (ob_events (cl_db c))" by metis
  have "le_id x \<noteq> le_id e0"
    using unique_keys_eq [OF cluster_invD(1) [OF inv] x(1) e0(1)] e0(2) x(2) by (auto simp: claimable_def)
  with x(1) quiet show ?thesis by (simp add: claims(1) e0(3) update_keeps no_replay_def)
next
  case (completes w e now t)
  have "x \<in> set (snd (complete_event (le_id e) (le_lockToken e) now (ob_events (cl_db c))))"
    using x by (auto simp: complete_event_def owned_def intro: update_keeps)
  with quiet show ?thesis by (simp add: completes(1,3) no_replay_def)
next
  case (finishes w e redact policy out now)
  have "x \<in> set (snd (complete_event (le_id e) (le_lockToken e) now (ob_events (cl_db c))))"
    "x \<in> set (fail_event policy err e now (ob_events (cl_db c)))" for err
    using x by (auto simp: complete_event_def fail_event_def owned_def intro: update_keeps)
  with x(1) quiet finishClaimed_events [of redact policy e out now "cl_db c"] show ?thesis
    by (auto simp: finishes(1) no_replay_def)
next
  case (recovers now)
  with x quiet show ?thesis by (simp add: recoverStaleEvents_def update_keeps no_replay_def)
next
  case (queues e)
  with x quiet show ?thesis by (simp add: queue_events no_replay_def)
next
  case (replay_checked i e)
  note e = replay_check_event [OF replay_checked(2)]
  have "le_id x \<noteq> le_id e"
    using unique_keys_eq [OF cluster_invD(1) [OF inv] x(1) e(1)] e(3) x(2) by auto
  with x(1) quiet show ?thesis by (simp add: replay_checked(1) no_replay_def)
next
  case (replay_written e now)
  have "le_id x \<noteq> le_id e" using quiet replay_written(2) by (auto simp: no_replay_def)
  moreover have "no_replay x c'"
    using quiet set_remove1_subset [of e "cl_replays c"]
    by (auto simp: replay_written(1) no_replay_def)
  ultimately show ?thesis using x(1) by (simp add: replay_written(1) replay_write_events update_keeps)
next
  case (replay_lost e)
  then show ?thesis using x(1) quiet set_remove1_subset [of e "cl_replays c"]
    by (auto simp: no_replay_def)
qed (use x(1) quiet in \<open>simp_all add: no_replay_def\<close>)

text \<open>
  C24. What was sent stays sent, unless a replay is under way that checked the event before it was
  completed: when none is (\<open>cl_replays\<close> holds the events as the replays under way found them), a
  completed event keeps its row, whatever claims, completions, recoveries, failures, deaths of
  processes and checks and resets of further replays follow. A replay that did check it before
  resets it (\<open>replay_race\<close>).
\<close>

theorem completed_final:
  assumes "cluster_steps c c'" and "cluster_inv c"
    and "x \<in> set (ob_events (cl_db c))" and "le_status x = EV_COMPLETED"
    and "\<forall>e\<in>set (cl_replays c). le_id e \<noteq> le_id x"
  shows "x \<in> set (ob_events (cl_db c'))"
proof -
  have "no_replay x c" using assms(5) by (force simp: no_replay_def)
  with assms(1-4) have "x \<in> set (ob_events (cl_db c')) \<and> no_replay x c'"
  proof (induction rule: rtranclp_induct)
    case (step c1 c2)
    from step(3) [OF step(4-7)] completed_step [OF step(2) cluster_steps_inv [OF step(1,4)] _ step(6)]
    show ?case by blast
  qed blast
  then show ?thesis ..
qed

theorem completed_final_witness:
  "le_status (ob_events (cl_db demo_3) ! 1) = EV_COMPLETED
   \<and> ob_events (cl_db demo_3) ! 1 \<in> set (ob_events (cl_db (demo_recover 900000 demo_3)))"
proof -
  have s: "le_status (ob_events (cl_db demo_3) ! 1) = EV_COMPLETED" by code_simp
  have m: "ob_events (cl_db demo_3) ! 1 \<in> set (ob_events (cl_db demo_3))" by code_simp
  have r: "cl_replays demo_3 = []" by code_simp
  then have "\<forall>e\<in>set (cl_replays demo_3). le_id e \<noteq> le_id (ob_events (cl_db demo_3) ! 1)" by simp
  from completed_final [OF demo_recover_steps [OF rtranclp.rtrancl_refl]
    cluster_steps_inv [OF demo_3_steps demo_0_inv] m s this] s show ?thesis by simp
qed

text \<open>
  C25. Every row of the outbox is well-formed at all times: it carries a token, a holder and a lease
  exactly while it is being processed, then has been attempted, and has an end once it is
  completed or has failed; keys are unique.
\<close>

theorem outbox_rows_typed:
  assumes "cluster_steps c0 c" and "cluster_inv c0" and "e \<in> set (ob_events (cl_db c))"
  shows "unique_keys le_key (ob_events (cl_db c)) \<and> 0 \<le> le_attemptCount e
    \<and> (if le_status e = EV_PROCESSING
       then le_lockToken e \<noteq> None \<and> le_lockedBy e \<noteq> None \<and> le_lockedAt e \<noteq> None
         \<and> le_leaseExpiresAt e \<noteq> None \<and> 0 < le_attemptCount e
       else le_lockToken e = None \<and> le_lockedBy e = None \<and> le_lockedAt e = None \<and> le_leaseExpiresAt e = None)
    \<and> (le_status e \<in> {EV_COMPLETED, EV_FAILED} \<longrightarrow> le_processedAt e \<noteq> None)"
  using cluster_invD(2,3) [OF cluster_steps_inv [OF assms(1,2)]] assms(3) unfolding event_ok_def by blast

theorem outbox_rows_typed_witness:
  "le_status (ob_events (cl_db demo_2) ! 1) = EV_PROCESSING \<and> 0 < le_attemptCount (ob_events (cl_db demo_2) ! 1)
   \<and> unique_keys le_key (ob_events (cl_db demo_2))"
proof -
  have s: "le_status (ob_events (cl_db demo_2) ! 1) = EV_PROCESSING" by code_simp
  have m: "ob_events (cl_db demo_2) ! 1 \<in> set (ob_events (cl_db demo_2))" by code_simp
  from outbox_rows_typed [OF demo_2_steps demo_0_inv m] s show ?thesis by simp
qed

text \<open>
  What a failed call leads to: the event is tried again exactly when the error counts as
  temporary and attempts are left, after a delay from the lender's schedule (or an hour);
  otherwise it has failed for good. Either way its lock is released.
\<close>

theorem failed_call_outcome:
  assumes "unique_keys le_id (ob_events db)" and "x \<in> set (ob_events db)"
    and "owned (le_id e) (le_lockToken e) x" and "err = normalizeLenderIntegrationError redact th"
    and "r = (er_retryable err \<and> le_attemptCount e < ry_maximumAttempts policy)"
  shows "\<exists>x'. find_unique le_id (le_id x) (ob_events (finishClaimed redact policy e (Threw th) now db)) = Some x'
    \<and> le_status x' = (if r then EV_RETRY_PENDING else EV_FAILED) \<and> le_lockToken x' = None
    \<and> le_errorCode x' = Some (er_code err)
    \<and> (r \<longrightarrow> (\<exists>d\<in>insert 3600 (set (ry_scheduleSeconds policy)). le_availableAt x' = now + d * 1000))
    \<and> (\<not> r \<longrightarrow> le_processedAt x' = Some now)"
proof -
  let ?x = "fail_data policy err e now x"
  have "count_rows (owned (le_id e) (le_lockToken e)) (ob_events db) \<noteq> 0"
    using assms(2,3) by (auto simp: count_rows_zero_iff)
  then have "ob_events (finishClaimed redact policy e (Threw th) now db) = fail_event policy err e now (ob_events db)"
    by (simp add: finishClaimed_def assms(4) Let_def)
  moreover have "le_id (fail_data policy err e now y) = le_id y" for y
    by (simp add: fail_data_def Let_def unlock_def)
  ultimately have "find_unique le_id (le_id x) (ob_events (finishClaimed redact policy e (Threw th) now db)) = Some ?x"
    using assms(3) find_unique_in_set [OF assms(1,2)] by (simp add: fail_event_def find_unique_update_many)
  moreover have "retry_delay policy n \<in> insert 3600 (set (ry_scheduleSeconds policy))" for n
  proof -
    let ?s = "ry_scheduleSeconds policy"
    have mem: "?s ! nat i \<in> set ?s" if "0 \<le> i" "i < int (length ?s)" for i :: int
      using that by (intro nth_mem) simp
    show ?thesis using mem [of "min n (int (length ?s) - 1)"] unfolding retry_delay_def Let_def by (metis insertCI)
  qed
  moreover have "retrying policy err e = r" by (simp add: retrying_def assms(5))
  ultimately show ?thesis by (auto simp: fail_data_def Let_def unlock_def)
qed

theorem failed_call_outcome_witness:
  "\<exists>x'. find_unique le_id ''e1'' (ob_events (cl_db demo_4)) = Some x' \<and> le_status x' = EV_RETRY_PENDING
    \<and> le_lockToken x' = None \<and> le_errorCode x' = Some ''ETIMEDOUT''"
proof -
  let ?c = "demo_claim ''w1'' ''t1'' 0 demo_0" and ?p = "\<lparr>ry_maximumAttempts = 3, ry_scheduleSeconds = [0, 60]\<rparr>"
  let ?x = "ob_events (cl_db ?c) ! 0" and ?th = "T_Other (Some ''ETIMEDOUT'') None ''timeout''"
  let ?err = "normalizeLenderIntegrationError id ?th"
  have u: "unique_keys le_id (ob_events (cl_db ?c))" by code_simp
  have m: "?x \<in> set (ob_events (cl_db ?c))" by code_simp
  have o: "owned (le_id ?x) (le_lockToken ?x) ?x" by code_simp
  have r: "True = (er_retryable ?err \<and> le_attemptCount ?x < ry_maximumAttempts ?p)" by code_simp
  have i: "le_id ?x = ''e1''" "er_code ?err = ''ETIMEDOUT''" by code_simp+
  have d: "cl_db demo_4 = finishClaimed id ?p ?x (Threw ?th) 1000 (cl_db ?c)" by code_simp
  from failed_call_outcome [OF u m o refl r, of 1000, unfolded i] show ?thesis unfolding d by auto
qed

lemma crash_round:
  assumes "cl_inflight c = []" and "ob_events (cl_db c) = [e]" and "le_status e \<in> {EV_PENDING, EV_RETRY_PENDING}"
    and "le_lockToken e = None"
  shows "\<exists>c' e'. cluster_steps c c' \<and> cl_inflight c' = [] \<and> ob_events (cl_db c') = [e'] \<and> le_id e' = le_id e
    \<and> le_attemptCount e' = le_attemptCount e + 1 \<and> le_status e' = EV_RETRY_PENDING \<and> le_lockToken e' = None"
proof -
  let ?now = "le_availableAt e" and ?w = "''w''" and ?tok = "''t''"
  let ?e1 = "claim_data 1 ?w ?tok ?now e"
  let ?c1 = "c\<lparr>cl_db := (cl_db c)\<lparr>ob_events := [?e1]\<rparr>, cl_inflight := [(?w, ?e1)]\<rparr>"
  have "claimNextEvent 1 ?w ?tok ?now (busy ?w c) [] (ob_events (cl_db c)) = (Some ?e1, [?e1])"
    using assms by (auto simp: claimNextEvent_def claimable_def claim_data_def busy_def Let_def)
  then have s1: "cluster_step c ?c1"
    using cluster_step.claims [of 1 ?w ?tok ?now c "[]" ?e1 "[?e1]"] assms by (simp add: tokens_def)
  let ?c2 = "?c1\<lparr>cl_inflight := []\<rparr>"
  have s2: "cluster_step ?c1 ?c2" using cluster_step.dies [of ?c1 ?w] by simp
  let ?c3 = "?c2\<lparr>cl_db := (cl_db ?c2)\<lparr>ob_events := recoverStaleEvents (?now + 2000) (ob_events (cl_db ?c2))\<rparr>\<rparr>"
  have s3: "cluster_step ?c2 ?c3" by (rule cluster_step.recovers)
  from s1 s2 s3 have "cluster_steps c ?c3" by (meson rtranclp.rtrancl_into_rtrancl r_into_rtranclp)
  moreover have "\<exists>e'. ob_events (cl_db ?c3) = [e'] \<and> le_id e' = le_id e
    \<and> le_attemptCount e' = le_attemptCount e + 1 \<and> le_status e' = EV_RETRY_PENDING \<and> le_lockToken e' = None"
    by (simp add: recoverStaleEvents_def claim_data_def unlock_def)
  moreover have "cl_inflight ?c3 = []" by simp
  ultimately show ?thesis by blast
qed

text \<open>
  An event that kills its worker is never given up: recovery puts it back whatever the number
  of attempts, so every number of attempts is reached.
\<close>

theorem recovery_never_gives_up:
  assumes "cl_inflight c = []" and "ob_events (cl_db c) = [e]" and "queued_row e"
  shows "\<exists>c' e'. cluster_steps c c' \<and> ob_events (cl_db c') = [e'] \<and> le_id e' = le_id e
    \<and> le_attemptCount e' = int n \<and> le_status e' \<in> {EV_PENDING, EV_RETRY_PENDING}"
proof -
  have "\<exists>c' e'. cluster_steps c c' \<and> cl_inflight c' = [] \<and> ob_events (cl_db c') = [e'] \<and> le_id e' = le_id e
    \<and> le_attemptCount e' = int n \<and> le_status e' \<in> {EV_PENDING, EV_RETRY_PENDING} \<and> le_lockToken e' = None"
  proof (induction n)
    case 0
    show ?case by (rule exI [of _ c], rule exI [of _ e]) (use assms in \<open>simp add: queued_row_def\<close>)
  next
    case (Suc n)
    then obtain c1 e1 where c1: "cluster_steps c c1" "cl_inflight c1 = []" "ob_events (cl_db c1) = [e1]"
      "le_id e1 = le_id e" "le_attemptCount e1 = int n" "le_status e1 \<in> {EV_PENDING, EV_RETRY_PENDING}"
      "le_lockToken e1 = None" by blast
    from crash_round [OF c1(2,3,6,7)] c1(1,4,5) show ?case
      by (metis (no_types, lifting) insertCI of_nat_Suc add.commute rtranclp_trans)
  qed
  then show ?thesis by blast
qed

theorem recovery_never_gives_up_witness:
  "\<exists>c' e'. cluster_steps (demo_cluster [demo_event ''e1'' 1 ST_CREATE 0]) c' \<and> ob_events (cl_db c') = [e']
    \<and> le_attemptCount e' = 1000"
proof -
  have "cl_inflight (demo_cluster [demo_event ''e1'' 1 ST_CREATE 0]) = []"
    "ob_events (cl_db (demo_cluster [demo_event ''e1'' 1 ST_CREATE 0])) = [demo_event ''e1'' 1 ST_CREATE 0]"
    "queued_row (demo_event ''e1'' 1 ST_CREATE 0)" by (simp_all add: demo_cluster_def demo_event_def queued_row_def)
  from recovery_never_gives_up [OF this, of 1000] show ?thesis by auto
qed

text \<open>
  A failed notification hides the decision: when a repayment, a charge or a waiver cannot be
  notified, the status of the lender's decision on the application's link is set to FAILED, and a
  replay of the notification leaves it so.
\<close>

theorem notification_failure_hides_decision:
  assumes "List.find (owned i token) (ob_events db) = Some e"
    and "le_stage e \<in> {ST_REPAYMENT, ST_CHARGE, ST_CHARGE_WAIVER}"
    and "l \<in> set (ob_links (markStageFailure i token err False now db))" and "lk_applicationId l = le_applicationId e"
  shows "lk_decisionStatus l = OP_FAILED \<and> ob_links (replay_write e later db2) = ob_links db2"
proof -
  from assms(2) obtain f where f: "stage_failure_link e OP_FAILED = Some (\<lambda>l. l\<lparr>lk_decisionStatus := OP_FAILED\<rparr>)"
    "replay_link e = None" by (auto simp: stage_failure_link_def replay_link_def)
  have links: "ob_links (markStageFailure i token err False now db) =
      update_many (\<lambda>l. lk_applicationId l = le_applicationId e)
        (\<lambda>l. l\<lparr>lk_decisionStatus := OP_FAILED, lk_lastAttemptAt := Some now, lk_errorCode := Some (er_code err),
              lk_errorMessage := Some (er_message err)\<rparr>) (ob_links db)"
    using assms(1,2) by (auto simp: markStageFailure_def f(1))
  have "lk_decisionStatus l = OP_FAILED"
    using assms(3,4) unfolding links by (auto elim!: update_many_obtain)
  then show ?thesis by (simp add: replay_write_def f(2))
qed

theorem notification_failure_hides_decision_witness:
  "map lk_decisionStatus (ob_links (cl_db demo_0)) = [OP_COMPLETED]
   \<and> map lk_decisionStatus (ob_links (markStageFailure ''e1'' (Some ''t1'')
        (normalizeLenderIntegrationError id (T_Other None (Some 400) ''bad'')) False 9 (cl_db (demo_claim ''w1'' ''t1'' 0 demo_0))))
     = [OP_FAILED]"
proof -
  let ?db = "cl_db (demo_claim ''w1'' ''t1'' 0 demo_0)"
  let ?err = "normalizeLenderIntegrationError id (T_Other None (Some 400) ''bad'')"
  let ?ls = "ob_links (markStageFailure ''e1'' (Some ''t1'') ?err False 9 ?db)"
  have f: "List.find (owned ''e1'' (Some ''t1'')) (ob_events ?db) = Some (ob_events ?db ! 0)" by code_simp
  have st: "le_stage (ob_events ?db ! 0) = ST_REPAYMENT" "le_applicationId (ob_events ?db ! 0) = 1" by code_simp+
  have ls: "length ?ls = 1" "lk_applicationId (?ls ! 0) = 1" by code_simp+
  then have m: "?ls ! 0 \<in> set ?ls" by simp
  from notification_failure_hides_decision [OF f _ m] st ls(2) have "lk_decisionStatus (?ls ! 0) = OP_FAILED" by simp
  with ls(1) have "map lk_decisionStatus ?ls = [OP_FAILED]" by (cases ?ls) simp_all
  moreover have "map lk_decisionStatus (ob_links (cl_db demo_0)) = [OP_COMPLETED]" by code_simp
  ultimately show ?thesis by simp
qed

text \<open>
  A replay can send again what was sent: an operator's replay checks that the event failed or
  waits for a retry, a worker takes the retry and completes it, and the replay's reset, which is
  not conditional on the status, queues the completed event once more, ready to be claimed.
\<close>

definition demo_checked :: cluster where
  "demo_checked = demo_4\<lparr>cl_replays := [ob_events (cl_db demo_4) ! 0]\<rparr>"

definition demo_5 :: cluster where
  "demo_5 = demo_finish 1 (Returned False) 62100 (demo_claim ''w1'' ''t4'' 62000 (demo_claim ''w1'' ''t3'' 62000 demo_checked))"

definition demo_6 :: cluster where
  "demo_6 = demo_5\<lparr>cl_db := replay_write (ob_events (cl_db demo_4) ! 0) 62200 (cl_db demo_5), cl_replays := []\<rparr>"

theorem replay_race:
  "cluster_steps demo_0 demo_5 \<and> cluster_steps demo_5 demo_6
   \<and> map le_status (ob_events (cl_db demo_5)) = [EV_COMPLETED, EV_PROCESSING]
   \<and> map le_status (ob_events (cl_db demo_6)) = [EV_PENDING, EV_PROCESSING]
   \<and> map_option le_id (fst (claimNextEvent 60 ''w2'' ''t9'' 70000 [] [] (ob_events (cl_db demo_6)))) = Some ''e1''"
proof (intro conjI)
  let ?e = "ob_events (cl_db demo_4) ! 0"
  have "replay_check ''e1'' (cl_db demo_4) = Inr ?e" by code_simp
  moreover have none: "cl_replays demo_4 = []" by code_simp
  ultimately have "cluster_step demo_4 demo_checked"
    using cluster_step.replay_checked [of "''e1''" demo_4 ?e] by (simp add: demo_checked_def)
  with demo_4_steps have checked: "cluster_steps demo_0 demo_checked"
    by (rule rtranclp.rtrancl_into_rtrancl)
  show "cluster_steps demo_0 demo_5"
    unfolding demo_5_def by (intro demo_finish_steps demo_claim_steps checked) code_simp+
  have "cl_replays demo_5 = [?e]" by code_simp
  then have "cluster_step demo_5 demo_6"
    using cluster_step.replay_written [of ?e demo_5 62200] by (simp add: demo_6_def)
  then show "cluster_steps demo_5 demo_6" by (rule r_into_rtranclp)
qed (code_simp+)

end
