(* ===== verification/NameMatch.thy ===== *)
theory NameMatch
  imports JsText Doubles "HOL-Library.Multiset"
begin

text \<open>
  The local matching of names (common/utils/name-matcher.helper.ts): the edit distance with two
  rows, the similarity of two words, and the greedy pairing of the words of two names. A name is a
  string of ASCII characters; numbers are doubles. What the edit distance promises is stated as
  the least number of single-character edits.
\<close>

section \<open>The code\<close>

definition HONORIFICS :: "string list" where
  "HONORIFICS = [''MR'', ''MRS'', ''MS'', ''MISS'', ''DR'', ''SHRI'', ''SMT'', ''KUM'', ''SHRIMATI'']"

definition INITIAL_MATCH_SCORE :: int where
  "INITIAL_MATCH_SCORE = 88"

definition name_char :: "char \<Rightarrow> char" where
  "name_char c = (if is_upper c \<or> is_space c then c else CHR '' '')"

definition normalize_name :: "string \<Rightarrow> string list" where
  "normalize_name name =
     (let cleaned = trim_str (squash_spaces (CHR '' '') False (map name_char (to_upper name)))
      in filter (\<lambda>token. token \<noteq> [] \<and> token \<notin> set HONORIFICS) (split_on (CHR '' '') cleaned))"

text \<open>
  One cell, one row and the whole table of \<open>levenshtein\<close>; the rows are lists that grow at the end.
\<close>

definition lev_cell :: "string \<Rightarrow> string \<Rightarrow> nat list \<Rightarrow> nat \<Rightarrow> nat list \<Rightarrow> nat \<Rightarrow> nat list" where
  "lev_cell a b previousRow i currentRow j =
     (let cost = (if a ! (i - 1) = b ! (j - 1) then 0 else 1)
      in currentRow @ [min (min (currentRow ! (j - 1) + 1) (previousRow ! j + 1)) (previousRow ! (j - 1) + cost)])"

definition lev_row :: "string \<Rightarrow> string \<Rightarrow> nat list \<Rightarrow> nat \<Rightarrow> nat list" where
  "lev_row a b previousRow i = foldl (lev_cell a b previousRow i) [i] [1..<length b + 1]"

definition levenshtein :: "string \<Rightarrow> string \<Rightarrow> nat" where
  "levenshtein a b =
     (let m = length a; n = length b in
      if m = 0 then n else if n = 0 then m
      else foldl (lev_row a b) [0..<n + 1] [1..<m + 1] ! n)"

definition tokenSimilarity :: "string \<Rightarrow> string \<Rightarrow> int" where
  "tokenSimilarity a b =
     (if a = b then 100
      else if length a = 1 \<and> take 1 b = a then INITIAL_MATCH_SCORE
      else if length b = 1 \<and> take 1 a = b then INITIAL_MATCH_SCORE
      else
        let maxLen = max (length a) (length b) in
        if maxLen = 0 then 100
        else js_round (dbl (dbl (of_int (int maxLen - int (levenshtein a b)) / of_nat maxLen) * 100)))"

definition name_pairs :: "string list \<Rightarrow> string list \<Rightarrow> (nat \<times> nat \<times> int) list" where
  "name_pairs as bs =
     concat (map (\<lambda>i. map (\<lambda>j. (i, j, tokenSimilarity (as ! i) (bs ! j))) [0..<length bs]) [0..<length as])"

definition take_pair :: "nat set \<times> nat set \<times> int \<Rightarrow> nat \<times> nat \<times> int \<Rightarrow> nat set \<times> nat set \<times> int" where
  "take_pair st p =
     (case st of (usedA, usedB, totalScore) \<Rightarrow> case p of (i, j, score) \<Rightarrow>
        if i \<in> usedA \<or> j \<in> usedB then st else (insert i usedA, insert j usedB, totalScore + score))"

definition matchNames :: "string \<Rightarrow> string \<Rightarrow> int" where
  "matchNames nameA nameB =
     (let tokensA = normalize_name nameA; tokensB = normalize_name nameB in
      if tokensA = [] \<or> tokensB = [] then 0
      else
        let pairs = sort_key (\<lambda>(i, j, s). - s) (name_pairs tokensA tokensB);
            (usedA, usedB, totalScore) = foldl take_pair ({}, {}, 0) pairs;
            longerLength = max (length tokensA) (length tokensB)
        in js_round (dbl (of_int totalScore / of_nat longerLength)))"

definition namesLikelyMatch :: "string \<Rightarrow> string \<Rightarrow> int \<Rightarrow> int \<times> bool" where
  "namesLikelyMatch nameA nameB threshold = (let score = matchNames nameA nameB in (score, threshold \<le> score))"

definition calculateBankNameMatchScore :: "string \<Rightarrow> string \<Rightarrow> int \<Rightarrow> bool \<times> int \<times> string" where
  "calculateBankNameMatchScore customerName beneficiaryNameWithBank threshold =
     (let nameA = trim_str customerName; nameB = trim_str beneficiaryNameWithBank in
      if nameA = [] \<or> nameB = [] then (False, 0, ''NO_MATCH'')
      else
        let score = matchNames nameA nameB in
        if score \<le> 0 then (False, 0, ''NO_MATCH'')
        else
          let isMatched = threshold \<le> score
          in (isMatched, score,
              if score = 100 then ''EXACT_MATCH'' else if isMatched then ''SEQUENCE_MATCH'' else ''PARTIAL_MATCH''))"

section \<open>The edit distance\<close>

text \<open>One edit: a character put in, taken out or replaced.\<close>

inductive edit1 :: "'a list \<Rightarrow> 'a list \<Rightarrow> bool" where
  puts: "edit1 xs (y # xs)"
| drops: "edit1 (x # xs) xs"
| changes: "x \<noteq> y \<Longrightarrow> edit1 (x # xs) (y # xs)"
| later: "edit1 xs ys \<Longrightarrow> edit1 (z # xs) (z # ys)"

inductive_cases edit1_NilE: "edit1 [] ys"
inductive_cases edit1_ConsE: "edit1 (x # xs) ys"

text \<open>Two lists aligned from the left, with the number of edits.\<close>

inductive align :: "nat \<Rightarrow> 'a list \<Rightarrow> 'a list \<Rightarrow> bool" where
  nil: "align 0 [] []"
| same: "align n xs ys \<Longrightarrow> align n (x # xs) (x # ys)"
| sub: "align n xs ys \<Longrightarrow> x \<noteq> y \<Longrightarrow> align (Suc n) (x # xs) (y # ys)"
| del: "align n xs ys \<Longrightarrow> align (Suc n) (x # xs) ys"
| ins: "align n xs ys \<Longrightarrow> align (Suc n) xs (y # ys)"

inductive_cases align_ConsE: "align n xs (y # ys)"
inductive_cases align_Cons1E: "align n (x # xs) ys"
inductive_cases align_NilE: "align n xs []"

fun edit_distance :: "'a list \<Rightarrow> 'a list \<Rightarrow> nat" where
  "edit_distance [] ys = length ys"
| "edit_distance (x # xs) [] = Suc (length xs)"
| "edit_distance (x # xs) (y # ys) =
     min (min (edit_distance (x # xs) ys + 1) (edit_distance xs (y # ys) + 1))
       (edit_distance xs ys + (if x = y then 0 else 1))"

lemma edit_distance_Nil2 [simp]: "edit_distance xs [] = length xs"
  by (cases xs) simp_all

lemma edit_distance_le_max: "edit_distance xs ys \<le> max (length xs) (length ys)"
  by (induction xs ys rule: edit_distance.induct) auto

lemma edit_distance_del: "edit_distance (x # xs) ys \<le> Suc (edit_distance xs ys)"
  by (cases ys) auto

lemma edit_distance_ins: "edit_distance xs (y # ys) \<le> Suc (edit_distance xs ys)"
  by (cases xs) auto

lemma edit_distance_least: "align n xs ys \<Longrightarrow> edit_distance xs ys \<le> n"
proof (induction rule: align.induct)
  case (del n xs ys x)
  then show ?case using edit_distance_del [of x xs ys] by simp
next
  case (ins n xs ys y)
  then show ?case using edit_distance_ins [of xs y ys] by simp
qed (auto simp: min_def)

lemma align_Nil1: "align (length ys) [] ys"
  by (induction ys) (auto intro: align.intros)

lemma align_Nil2: "align (length xs) xs []"
  by (induction xs) (auto intro: align.intros)

lemma align_edit_distance: "align (edit_distance xs ys) xs ys"
proof (induction xs ys rule: edit_distance.induct)
  case (3 x xs y ys)
  let ?m = "edit_distance (x # xs) (y # ys)"
  have "?m = Suc (edit_distance (x # xs) ys) \<or> ?m = Suc (edit_distance xs (y # ys))
    \<or> ?m = edit_distance xs ys + (if x = y then 0 else 1)" unfolding edit_distance.simps(3) by linarith
  then consider "?m = Suc (edit_distance (x # xs) ys)" | "?m = Suc (edit_distance xs (y # ys))"
    | "?m = edit_distance xs ys + (if x = y then 0 else 1)" by blast
  then show ?case
  proof cases
    case 3
    then show ?thesis using "3.IH"(3) by (cases "x = y") (auto intro: align.same align.sub simp del: edit_distance.simps)
  qed (use 3 in \<open>simp_all only: align.ins align.del\<close>)
qed (use align_Nil1 align_Nil2 [of "_ # _"] in auto)

lemma align_append: "align n a b \<Longrightarrow> align m c d \<Longrightarrow> align (n + m) (a @ c) (b @ d)"
  by (induction rule: align.induct) (auto intro: align.intros)

lemma align_rev: "align n a b \<Longrightarrow> align n (rev a) (rev b)"
proof (induction rule: align.induct)
  case (same n xs ys x)
  from align_append [OF this(2) align.same [OF align.nil]] show ?case by simp
next
  case (sub n xs ys x y)
  from align_append [OF sub(3) align.sub [OF align.nil sub(2)]] show ?case by simp
next
  case (del n xs ys x)
  from align_append [OF this(2) align.del [OF align.nil, of x]] show ?case by simp
next
  case (ins n xs ys y)
  from align_append [OF this(2) align.ins [OF align.nil, of y]] show ?case by simp
qed (simp add: align.nil)

lemma edit_distance_rev: "edit_distance (rev a) (rev b) = edit_distance a b"
proof -
  have le: "edit_distance (rev xs) (rev ys) \<le> edit_distance xs ys" for xs ys :: "'a list"
    by (rule edit_distance_least [OF align_rev [OF align_edit_distance]])
  from le [of a b] le [of "rev a" "rev b"] show ?thesis by simp
qed

lemma edit1_later_power: "(edit1 ^^ n) xs ys \<Longrightarrow> (edit1 ^^ n) (z # xs) (z # ys)"
  by (induction n arbitrary: ys) (auto intro: edit1.later)

lemma align_edits: "align n xs ys \<Longrightarrow> (edit1 ^^ n) xs ys"
proof (induction rule: align.induct)
  case (same n xs ys x)
  from edit1_later_power [OF same(2)] show ?case .
next
  case (sub n xs ys x y)
  from relpowp_Suc_I [OF edit1_later_power [OF sub(3)] edit1.changes [OF sub(2)]] show ?case .
next
  case (del n xs ys x)
  from relpowp_Suc_I2 [OF edit1.drops del(2)] show ?case .
next
  case (ins n xs ys y)
  from relpowp_Suc_I [OF ins(2) edit1.puts] show ?case .
qed simp

lemma align_edit1: "align n xs ys \<Longrightarrow> edit1 ys zs \<Longrightarrow> \<exists>m. m \<le> Suc n \<and> align m xs zs"
proof (induction arbitrary: zs rule: align.induct)
  case nil
  then show ?case by (auto elim!: edit1_NilE intro!: exI [of _ 1] align.ins align.nil simp: One_nat_def)
next
  case (same n xs ys x)
  from same(3) show ?case
  proof (rule edit1_ConsE)
    fix y assume "zs = y # x # ys"
    then show ?thesis using align.ins [OF align.same [OF same(1)]] by blast
  next
    assume "zs = ys"
    then show ?thesis using align.del [OF same(1)] by blast
  next
    fix y assume "zs = y # ys" "x \<noteq> y"
    then show ?thesis using align.sub [OF same(1)] by blast
  next
    fix ws assume ws: "zs = x # ws" "edit1 ys ws"
    from same(2) [OF ws(2)] ws(1) show ?thesis by (auto intro: align.same)
  qed
next
  case (sub n xs ys x y)
  from sub(4) show ?case
  proof (rule edit1_ConsE)
    fix z assume "zs = z # y # ys"
    then show ?thesis using align.ins [OF align.sub [OF sub(1,2)]] by blast
  next
    assume "zs = ys"
    then show ?thesis using align.del [OF sub(1), of x] by (metis le_Suc_eq order_refl)
  next
    fix z assume "zs = z # ys"
    then show ?thesis using align.same [OF sub(1)] align.sub [OF sub(1)] by (metis le_Suc_eq order_refl)
  next
    fix ws assume ws: "zs = y # ws" "edit1 ys ws"
    from sub(3) [OF ws(2)] ws(1) sub(2) show ?thesis by (meson Suc_le_mono align.sub)
  qed
next
  case (del n xs ys x)
  from del(2) [OF del(3)] show ?case by (meson Suc_le_mono align.del)
next
  case (ins n xs ys y)
  from ins(3) show ?case
  proof (rule edit1_ConsE)
    fix z assume "zs = z # y # ys"
    then show ?thesis using align.ins [OF align.ins [OF ins(1)]] by blast
  next
    assume "zs = ys"
    then show ?thesis using ins(1) by (metis le_Suc_eq order_refl)
  next
    fix z assume "zs = z # ys"
    then show ?thesis using align.ins [OF ins(1)] by (metis le_Suc_eq order_refl)
  next
    fix ws assume ws: "zs = y # ws" "edit1 ys ws"
    from ins(2) [OF ws(2)] ws(1) show ?thesis by (meson Suc_le_mono align.ins)
  qed
qed

lemma edits_align: "(edit1 ^^ n) xs ys \<Longrightarrow> \<exists>m. m \<le> n \<and> align m xs ys"
proof (induction n arbitrary: ys)
  case 0
  have "align 0 xs xs" by (induction xs) (auto intro: align.intros)
  with 0 show ?case by auto
next
  case (Suc n)
  then obtain zs where zs: "(edit1 ^^ n) xs zs" "edit1 zs ys" by auto
  from Suc.IH [OF zs(1)] obtain m where "m \<le> n" "align m xs zs" by blast
  with align_edit1 [OF _ zs(2)] show ?case by (meson Suc_le_mono le_trans)
qed

section \<open>The table\<close>

definition lev_entry :: "string \<Rightarrow> string \<Rightarrow> nat \<Rightarrow> nat \<Rightarrow> nat" where
  "lev_entry a b i j = edit_distance (rev (take i a)) (rev (take j b))"

lemma lev_entry_step:
  assumes "i < length a" and "j < length b"
  shows "lev_entry a b (Suc i) (Suc j) =
    min (min (lev_entry a b (Suc i) j + 1) (lev_entry a b i (Suc j) + 1))
      (lev_entry a b i j + (if a ! i = b ! j then 0 else 1))"
  using assms by (simp add: lev_entry_def take_Suc_conv_app_nth)

lemma lev_row_entries:
  assumes "prev = map (lev_entry a b i) [0..<length b + 1]" and "i < length a" and "k \<le> length b"
  shows "foldl (lev_cell a b prev (Suc i)) [Suc i] [1..<k + 1] = map (lev_entry a b (Suc i)) [0..<k + 1]"
  using assms(3)
proof (induction k)
  case 0
  then show ?case using assms(2) by (simp add: lev_entry_def)
next
  case (Suc k)
  let ?row = "map (lev_entry a b (Suc i)) [0..<k + 1]"
  have row: "[1..<Suc k + 1] = [1..<k + 1] @ [Suc k]" by simp
  have prev: "prev ! Suc k = lev_entry a b i (Suc k)" "prev ! k = lev_entry a b i k" "?row ! k = lev_entry a b (Suc i) k"
    using Suc.prems unfolding assms(1) by (simp_all add: nth_append del: upt_Suc)
  have "foldl (lev_cell a b prev (Suc i)) [Suc i] [1..<Suc k + 1] = lev_cell a b prev (Suc i) ?row (Suc k)"
    using Suc unfolding row foldl_append by simp
  also have "\<dots> = ?row @ [lev_entry a b (Suc i) (Suc k)]"
    using Suc.prems prev lev_entry_step [OF assms(2), of k b] by (simp add: lev_cell_def Let_def del: upt_Suc)
  finally show ?case by simp
qed

lemma levenshtein_rows:
  "i \<le> length a \<Longrightarrow>
   foldl (lev_row a b) [0..<length b + 1] [1..<i + 1] = map (lev_entry a b i) [0..<length b + 1]"
proof (induction i)
  case 0
  have "[0..<length b + 1] = map (lev_entry a b 0) [0..<length b + 1]"
    by (rule nth_equalityI) (simp_all add: lev_entry_def del: upt_Suc)
  then show ?case by simp
next
  case (Suc i)
  have row: "[1..<Suc i + 1] = [1..<i + 1] @ [Suc i]" by simp
  have "foldl (lev_row a b) [0..<length b + 1] [1..<Suc i + 1] = lev_row a b (map (lev_entry a b i) [0..<length b + 1]) (Suc i)"
    using Suc unfolding row foldl_append by (simp del: upt_Suc)
  also have "\<dots> = map (lev_entry a b (Suc i)) [0..<length b + 1]"
    using Suc.prems unfolding lev_row_def by (intro lev_row_entries) simp_all
  finally show ?case .
qed

lemma levenshtein_edit_distance: "levenshtein a b = edit_distance a b"
proof -
  have "lev_entry a b (length a) (length b) = edit_distance a b"
    by (simp add: lev_entry_def edit_distance_rev)
  moreover have "foldl (lev_row a b) [0..<length b + 1] [1..<length a + 1] ! length b
      = lev_entry a b (length a) (length b)"
    by (subst levenshtein_rows) (simp_all del: upt_Suc)
  ultimately show ?thesis by (simp add: levenshtein_def Let_def del: upt_Suc)
qed

text \<open>
  C26. The two-row \<open>levenshtein\<close> is the edit distance: its result is a number of single-character
  edits that turn the one word into the other, and no smaller number of edits does.
\<close>

theorem levenshtein_least_edits:
  "(edit1 ^^ levenshtein a b) a b \<and> (LEAST n. (edit1 ^^ n) a b) = levenshtein a b"
proof -
  have "(edit1 ^^ levenshtein a b) a b"
    unfolding levenshtein_edit_distance by (rule align_edits [OF align_edit_distance])
  moreover have "levenshtein a b \<le> n" if "(edit1 ^^ n) a b" for n
    using edits_align [OF that] edit_distance_least [of _ a b] unfolding levenshtein_edit_distance by (meson le_trans)
  ultimately show ?thesis by (metis (mono_tags, lifting) Least_equality)
qed

section \<open>Similarity and pairing\<close>

lemma align_0: "align n xs ys \<Longrightarrow> n = 0 \<Longrightarrow> xs = ys"
  by (induction rule: align.induct) auto

lemma levenshtein_pos: "a \<noteq> b \<Longrightarrow> 0 < levenshtein a b"
  using align_0 [OF align_edit_distance [of a b]] by (auto simp: levenshtein_edit_distance)

text \<open>The two roundings of a share of a hundred stay within a half of it.\<close>

lemma percent_bounds:
  assumes "0 \<le> x" and "x \<le> (1 :: rat)"
  shows "0 \<le> js_round (dbl (dbl x * 100))" "js_round (dbl (dbl x * 100)) \<le> 100"
    "x \<le> 1 - 1 / 199 \<Longrightarrow> js_round (dbl (dbl x * 100)) < 100"
proof -
  let ?e = "1 + 1 / 2 ^ 53 :: rat"
  have nn: "0 \<le> dbl x" "0 \<le> dbl (dbl x * 100)" using assms(1) by (simp_all add: dbl_nonneg)
  have "dbl (dbl x * 100) \<le> dbl x * 100 * ?e" using nn(1) by (intro dbl_le) simp
  also have "\<dots> \<le> x * ?e * 100 * ?e" using dbl_le [OF assms(1)] by (intro mult_right_mono) simp_all
  finally have le: "dbl (dbl x * 100) \<le> x * (100 * ?e * ?e)" by (simp add: ac_simps)
  show "0 \<le> js_round (dbl (dbl x * 100))" using nn(2) by (simp add: js_round_def)
  have "x * (100 * ?e * ?e) \<le> 1 * (100 * ?e * ?e)" using assms(2) by (intro mult_right_mono) simp_all
  with le have "dbl (dbl x * 100) + 1/2 < 101" by simp
  then show "js_round (dbl (dbl x * 100)) \<le> 100" unfolding js_round_def by linarith
  assume "x \<le> 1 - 1 / 199"
  then have "x * (100 * ?e * ?e) \<le> (1 - 1 / 199) * (100 * ?e * ?e)" by (intro mult_right_mono) simp_all
  with le have "dbl (dbl x * 100) + 1/2 < 100" by simp
  then show "js_round (dbl (dbl x * 100)) < 100" unfolding js_round_def by linarith
qed

lemma tokenSimilarity_bounds: "0 \<le> tokenSimilarity a b \<and> tokenSimilarity a b \<le> 100"
proof -
  let ?m = "max (length a) (length b)" and ?x = "of_int (int (max (length a) (length b)) - int (levenshtein a b)) / of_nat (max (length a) (length b)) :: rat"
  have "levenshtein a b \<le> ?m" by (simp only: levenshtein_edit_distance edit_distance_le_max)
  then have "0 \<le> ?x" "?x \<le> 1" by (auto simp: divide_le_eq_1 less_max_iff_disj simp flip: of_nat_diff)
  from percent_bounds(1,2) [OF this] show ?thesis
    by (simp add: tokenSimilarity_def Let_def INITIAL_MATCH_SCORE_def)
qed

lemma share_margin:
  assumes "0 < m" and "m \<le> 199" and "1 \<le> d"
  shows "of_int (int m - int d) / of_nat m \<le> (1 - 1 / 199 :: rat)"
proof -
  have "(of_nat m :: rat) \<le> of_nat (199 * d)" using assms(2,3) by (simp only: of_nat_le_iff)
  then have "1 / 199 \<le> of_nat d / (of_nat m :: rat)" using assms(1) by (simp add: field_simps)
  moreover have "of_int (int m - int d) / of_nat m = 1 - of_nat d / (of_nat m :: rat)"
    using assms(1) by (simp add: diff_divide_distrib)
  ultimately show ?thesis by simp
qed

lemma tokenSimilarity_100:
  assumes "length a < 200" and "length b < 200"
  shows "tokenSimilarity a b = 100 \<longleftrightarrow> a = b"
proof
  assume s: "tokenSimilarity a b = 100"
  show "a = b"
  proof (rule ccontr)
    assume ne: "a \<noteq> b"
    let ?m = "max (length a) (length b)" and ?d = "levenshtein a b"
    let ?x = "of_int (int ?m - int ?d) / of_nat ?m :: rat"
    have d: "1 \<le> ?d" "?d \<le> ?m" using levenshtein_pos [OF ne] edit_distance_le_max [of a b]
      by (simp_all add: levenshtein_edit_distance)
    have m: "0 < ?m" "?m \<le> 199" using d assms by auto
    have x: "?x \<le> 1 - 1 / 199" by (rule share_margin [OF m d(1)])
    have "0 \<le> ?x" "?x \<le> 1" using d by (simp_all add: divide_le_eq_1 flip: of_nat_diff)
    from percent_bounds(3) [OF this x] s ne m(1) show False
      by (simp add: tokenSimilarity_def Let_def INITIAL_MATCH_SCORE_def split: if_splits)
  qed
qed (simp add: tokenSimilarity_def)

text \<open>What the greedy pairing takes is a matching that cannot be extended.\<close>

lemma take_pairs:
  "\<exists>M. finite M \<and> M \<subseteq> set Q \<and> inj_on fst M \<and> inj_on (\<lambda>p. fst (snd p)) M
     \<and> foldl take_pair ({}, {}, 0) Q = (fst ` M, (\<lambda>p. fst (snd p)) ` M, \<Sum>p\<in>M. snd (snd p))
     \<and> (\<forall>p\<in>set Q. fst p \<in> fst ` M \<or> fst (snd p) \<in> (\<lambda>p. fst (snd p)) ` M)"
proof (induction Q rule: rev_induct)
  case Nil
  show ?case by (rule exI [of _ "{}"]) simp
next
  case (snoc q Q)
  then obtain M where M: "finite M" "M \<subseteq> set Q" "inj_on fst M" "inj_on (\<lambda>p. fst (snd p)) M"
    "foldl take_pair ({}, {}, 0) Q = (fst ` M, (\<lambda>p. fst (snd p)) ` M, \<Sum>p\<in>M. snd (snd p))"
    "\<forall>p\<in>set Q. fst p \<in> fst ` M \<or> fst (snd p) \<in> (\<lambda>p. fst (snd p)) ` M" by blast
  obtain i j s where q: "q = (i, j, s)" by (cases q)
  show ?case
  proof (cases "i \<in> fst ` M \<or> j \<in> (\<lambda>p. fst (snd p)) ` M")
    case True
    then have "take_pair (fst ` M, (\<lambda>p. fst (snd p)) ` M, \<Sum>p\<in>M. snd (snd p)) q
        = (fst ` M, (\<lambda>p. fst (snd p)) ` M, \<Sum>p\<in>M. snd (snd p))" by (simp add: take_pair_def q)
    then have "foldl take_pair ({}, {}, 0) (Q @ [q]) = (fst ` M, (\<lambda>p. fst (snd p)) ` M, \<Sum>p\<in>M. snd (snd p))"
      by (simp only: foldl_append M(5) foldl_Cons foldl_Nil)
    moreover have "\<forall>p\<in>set (Q @ [q]). fst p \<in> fst ` M \<or> fst (snd p) \<in> (\<lambda>p. fst (snd p)) ` M"
      using M(6) True by (simp add: q)
    ultimately show ?thesis using M(1-4) by (intro exI [of _ M]) auto
  next
    case False
    then have "q \<notin> M" unfolding q by (metis fst_conv snd_conv image_eqI)
    with M(1) False have "take_pair (fst ` M, (\<lambda>p. fst (snd p)) ` M, \<Sum>p\<in>M. snd (snd p)) q
        = (fst ` insert q M, (\<lambda>p. fst (snd p)) ` insert q M, \<Sum>p\<in>insert q M. snd (snd p))"
      by (simp add: take_pair_def q add.commute)
    moreover have "inj_on fst (insert q M)" "inj_on (\<lambda>p. fst (snd p)) (insert q M)"
      using M(3,4) False by (auto simp: q)
    moreover have "foldl take_pair ({}, {}, 0) (Q @ [q])
        = take_pair (fst ` M, (\<lambda>p. fst (snd p)) ` M, \<Sum>p\<in>M. snd (snd p)) q"
      by (simp only: foldl_append M(5) foldl_Cons foldl_Nil)
    moreover have "\<forall>p\<in>set (Q @ [q]). fst p \<in> fst ` insert q M \<or> fst (snd p) \<in> (\<lambda>p. fst (snd p)) ` insert q M"
      using M(6) by auto
    moreover have "finite (insert q M)" "insert q M \<subseteq> set (Q @ [q])" using M(1,2) by auto
    ultimately show ?thesis by (intro exI [of _ "insert q M"] conjI) (simp_all only:)
  qed
qed

lemma set_name_pairs:
  "(i, j, s) \<in> set (name_pairs as bs) \<longleftrightarrow> i < length as \<and> j < length bs \<and> s = tokenSimilarity (as ! i) (bs ! j)"
  by (force simp: name_pairs_def image_iff)

lemma matching_total_bounds:
  assumes "finite M" and "M \<subseteq> set (name_pairs as bs)" and "inj_on fst M" and "inj_on (\<lambda>p. fst (snd p)) M"
  shows "0 \<le> (\<Sum>p\<in>M. snd (snd p))" "(\<Sum>p\<in>M. snd (snd p)) \<le> 100 * int (min (length as) (length bs))"
proof -
  have s: "0 \<le> snd (snd p) \<and> snd (snd p) \<le> 100" if "p \<in> M" for p
    using that assms(2) tokenSimilarity_bounds by (cases p) (auto simp: set_name_pairs)
  then show "0 \<le> (\<Sum>p\<in>M. snd (snd p))" by (simp add: sum_nonneg)
  have sub: "fst p < length as \<and> fst (snd p) < length bs" if "p \<in> M" for p
    using that assms(2) by (cases p) (auto simp: set_name_pairs)
  have "fst ` M \<subseteq> {..<length as}" "(\<lambda>p. fst (snd p)) ` M \<subseteq> {..<length bs}"
    by (auto simp only: image_iff lessThan_iff subset_iff dest!: sub)
  from card_inj_on_le [OF assms(3) this(1)] card_inj_on_le [OF assms(4) this(2)]
  have "card M \<le> length as" "card M \<le> length bs" by simp_all
  moreover have "(\<Sum>p\<in>M. snd (snd p)) \<le> of_nat (card M) * 100" by (rule sum_bounded_above) (use s in blast)
  ultimately show "(\<Sum>p\<in>M. snd (snd p)) \<le> 100 * int (min (length as) (length bs))" by simp
qed

text \<open>
  The score of two names is a percentage: whatever the names, it lies between 0 and 100.
\<close>

theorem name_score_bounds: "0 \<le> matchNames a b \<and> matchNames a b \<le> 100"
proof (cases "normalize_name a = [] \<or> normalize_name b = []")
  case True
  then show ?thesis by (auto simp: matchNames_def Let_def)
next
  case False
  let ?A = "normalize_name a" and ?B = "normalize_name b"
  let ?P = "sort_key (\<lambda>(i, j, s). - s) (name_pairs ?A ?B)" and ?l = "max (length ?A) (length ?B)"
  obtain M where M: "finite M" "M \<subseteq> set ?P" "inj_on fst M" "inj_on (\<lambda>p. fst (snd p)) M"
    "foldl take_pair ({}, {}, 0) ?P = (fst ` M, (\<lambda>p. fst (snd p)) ` M, \<Sum>p\<in>M. snd (snd p))"
    using take_pairs [of ?P] by blast
  let ?t = "\<Sum>p\<in>M. snd (snd p)" and ?x = "of_int (\<Sum>p\<in>M. snd (snd p)) / of_nat (max (length ?A) (length ?B)) :: rat"
  have t: "0 \<le> ?t" "?t \<le> 100 * int (min (length ?A) (length ?B))"
    by (rule matching_total_bounds [OF M(1) _ M(3,4)]; use M(2) in simp)+
  have l: "0 < ?l" using False by (simp add: less_max_iff_disj)
  have "?t \<le> 100 * int ?l" using t(2) by linarith
  then have "(of_int ?t :: rat) \<le> of_int (100 * int ?l)" by (simp only: of_int_le_iff)
  then have "?x \<le> 100" using l by (simp add: divide_le_eq)
  then have "?x * (1 + 1 / 2 ^ 53) \<le> 100 * (1 + 1 / 2 ^ 53)" by (rule mult_right_mono) simp
  moreover have x0: "0 \<le> ?x" using t(1) by (intro divide_nonneg_nonneg) (simp_all only: of_int_0_le_iff of_nat_0_le_iff)
  ultimately have "dbl ?x + 1/2 < 101" using dbl_le [OF x0] by simp
  then have "js_round (dbl ?x) \<le> 100" unfolding js_round_def by linarith
  moreover have "0 \<le> js_round (dbl ?x)" using dbl_nonneg [OF x0] by (simp add: js_round_def)
  moreover have "matchNames a b = js_round (dbl ?x)" using False by (simp add: matchNames_def Let_def M(5))
  ultimately show ?thesis by simp
qed

section \<open>The same words\<close>

lemma count_positions: "count (mset xs) t = card {i. i < length xs \<and> xs ! i = t}"
  by (induction xs rule: rev_induct) (simp_all add: nth_append less_Suc_eq conj_disj_distribR Collect_disj_eq cong: conj_cong)

lemma sorted_takeWhile_le:
  "sorted (map f xs) \<Longrightarrow> x \<in> set xs \<Longrightarrow> f x \<le> c \<Longrightarrow> x \<in> set (takeWhile (\<lambda>y. f y \<le> c) xs)"
  by (induction xs) auto

text \<open>Once every word of the one name is paired, nothing more is taken.\<close>

lemma take_pair_full:
  "\<forall>p\<in>set Q. fst p \<in> A \<Longrightarrow> foldl take_pair (A, B, t) Q = (A, B, t)"
  by (induction Q) (auto simp: take_pair_def)

text \<open>A matching of equal words that cannot be extended covers every word.\<close>

lemma equal_words_covered:
  assumes perm: "mset as = mset bs" and "finite M"
    and M: "\<And>i j s. (i, j, s) \<in> M \<Longrightarrow> i < length as \<and> j < length bs \<and> as ! i = bs ! j"
    and inj: "inj_on fst M" and max: "\<And>i j. i < length as \<Longrightarrow> j < length bs \<Longrightarrow> as ! i = bs ! j \<Longrightarrow>
      i \<in> fst ` M \<or> j \<in> (\<lambda>p. fst (snd p)) ` M"
    and i: "i < length as"
  shows "i \<in> fst ` M"
proof (rule ccontr)
  assume out: "i \<notin> fst ` M"
  let ?I = "{k. k < length as \<and> as ! k = as ! i}" and ?J = "{k. k < length bs \<and> bs ! k = as ! i}"
  let ?N = "{p \<in> M. fst (snd p) \<in> ?J}"
  have "?J \<subseteq> (\<lambda>p. fst (snd p)) ` ?N"
  proof
    fix j assume j: "j \<in> ?J"
    with max [OF i, of j] out have "j \<in> (\<lambda>p. fst (snd p)) ` M" by simp
    with j show "j \<in> (\<lambda>p. fst (snd p)) ` ?N" by auto
  qed
  then have "card ?J \<le> card ?N" using assms(2) by (intro surj_card_le) simp_all
  also have "\<dots> = card (fst ` ?N)" using inj by (metis (no_types, lifting) card_image inj_on_subset mem_Collect_eq subsetI)
  also have "\<dots> \<le> card (?I - {i})"
  proof (rule card_mono)
    show "fst ` ?N \<subseteq> ?I - {i}"
    proof
      fix k assume "k \<in> fst ` ?N"
      then obtain j s where p: "(k, j, s) \<in> M" "bs ! j = as ! i" by auto
      with M [OF p(1)] out show "k \<in> ?I - {i}" by (auto simp: image_iff)
    qed
  qed simp
  also have "\<dots> < card ?I" using i by (intro card_Diff1_less) auto
  also have "card ?I = card ?J" using count_positions [of as "as ! i"] count_positions [of bs "as ! i"] perm by simp
  finally show False by simp
qed

text \<open>
  The order of the words does not matter when they are the same: two names with the same words
  (of less than 200 letters), titles and punctuation aside, score 100.
\<close>

theorem same_words_match:
  assumes "mset (normalize_name a) = mset (normalize_name b)" and "normalize_name a \<noteq> []"
    and "list_all (\<lambda>t. length t < 200) (normalize_name a)"
  shows "matchNames a b = 100"
proof -
  let ?A = "normalize_name a" and ?B = "normalize_name b"
  let ?key = "\<lambda>(i, j, s). - s" and ?P = "sort_key (\<lambda>(i, j, s). - s) (name_pairs ?A ?B) :: (nat \<times> nat \<times> int) list"
  let ?Q = "takeWhile (\<lambda>p. ?key p \<le> -100) ?P" and ?R = "dropWhile (\<lambda>p. ?key p \<le> -100) ?P"
  have len: "length ?A = length ?B" using assms(1) by (metis size_mset)
  have short: "length (?A ! i) < 200" if "i < length ?A" for i using assms(3) that by (simp add: list_all_length)
  have "set ?A = set ?B" using assms(1) by (metis set_mset_mset)
  then have short': "length (?B ! j) < 200" if "j < length ?B" for j
    using assms(3) nth_mem [OF that] by (simp add: list_all_iff)
  have pairs: "i < length ?A \<and> j < length ?B \<and> s = tokenSimilarity (?A ! i) (?B ! j)" if "(i, j, s) \<in> set ?P" for i j s
    using that by (simp add: set_name_pairs)
  have full: "?A ! i = ?B ! j \<and> s = 100" if "(i, j, s) \<in> set ?Q" for i j s
  proof -
    from set_takeWhileD [OF that] have p: "(i, j, s) \<in> set ?P" "100 \<le> s" by auto
    from pairs [OF p(1)] p(2) tokenSimilarity_bounds [of "?A ! i" "?B ! j"]
      tokenSimilarity_100 [of "?A ! i" "?B ! j"] short short' show ?thesis by auto
  qed
  obtain M where M: "finite M" "M \<subseteq> set ?Q" "inj_on fst M" "inj_on (\<lambda>p. fst (snd p)) M"
    "foldl take_pair ({}, {}, 0) ?Q = (fst ` M, (\<lambda>p. fst (snd p)) ` M, \<Sum>p\<in>M. snd (snd p))"
    "\<forall>p\<in>set ?Q. fst p \<in> fst ` M \<or> fst (snd p) \<in> (\<lambda>p. fst (snd p)) ` M" using take_pairs [of ?Q] by blast
  have cover: "i \<in> fst ` M" if "i < length ?A" for i
  proof (rule equal_words_covered [OF assms(1) M(1) _ M(3) _ that])
    show "i < length ?A \<and> j < length ?B \<and> ?A ! i = ?B ! j" if "(i, j, s) \<in> M" for i j s
    proof -
      from that M(2) have q: "(i, j, s) \<in> set ?Q" by blast
      from full [OF q] pairs [OF conjunct1 [OF set_takeWhileD [OF q]]] show ?thesis by blast
    qed
  next
    fix i j assume ij: "i < length ?A" "j < length ?B" "?A ! i = ?B ! j"
    then have "(i, j, 100) \<in> set ?P" by (simp add: set_name_pairs tokenSimilarity_def)
    then have "(i, j, 100) \<in> set ?Q" by (intro sorted_takeWhile_le) simp_all
    with M(6) show "i \<in> fst ` M \<or> j \<in> (\<lambda>p. fst (snd p)) ` M" by (metis fst_conv snd_conv)
  qed
  have inside: "i < length ?A \<and> s = 100" if "(i, j, s) \<in> M" for i j s
  proof -
    from that M(2) have q: "(i, j, s) \<in> set ?Q" by blast
    from full [OF q] pairs [OF conjunct1 [OF set_takeWhileD [OF q]]] show ?thesis by blast
  qed
  have fst_M: "fst ` M = {..<length ?A}" using cover inside by auto
  have "(\<Sum>p\<in>M. snd (snd p)) = (\<Sum>p\<in>M. 100)" using inside by (intro sum.cong refl) auto
  also have "\<dots> = 100 * int (length ?A)" using card_image [OF M(3)] by (simp add: fst_M)
  finally have total: "(\<Sum>p\<in>M. snd (snd p)) = 100 * int (length ?A)" .
  have "foldl take_pair ({}, {}, 0) (?Q @ ?R) = foldl take_pair (fst ` M, (\<lambda>p. fst (snd p)) ` M, 100 * int (length ?A)) ?R"
    by (simp only: foldl_append M(5) total)
  also have "\<dots> = (fst ` M, (\<lambda>p. fst (snd p)) ` M, 100 * int (length ?A))"
    using pairs set_dropWhileD by (intro take_pair_full) (fastforce simp: fst_M)
  finally have run: "foldl take_pair ({}, {}, 0) ?P = (fst ` M, (\<lambda>p. fst (snd p)) ` M, 100 * int (length ?A))"
    by (simp only: takeWhile_dropWhile_id)
  have ne: "?B \<noteq> []" using assms(2) len by (metis length_0_conv)
  have "of_int (100 * int (length ?A)) / of_nat (max (length ?A) (length ?B)) = (of_int 100 :: rat)"
    using ne len by simp
  then show ?thesis using assms(2) ne len dbl_of_int [of 100] js_round_of_int [of 100]
    by (auto simp: matchNames_def Let_def run)
qed

theorem same_words_match_witness: "matchNames ''Shah, Lalit'' ''Mr. lalit shah'' = 100"
proof -
  have n: "normalize_name ''Shah, Lalit'' = [''SHAH'', ''LALIT'']" "normalize_name ''Mr. lalit shah'' = [''LALIT'', ''SHAH'']"
    by code_simp+
  show ?thesis by (rule same_words_match) (simp_all add: n)
qed

text \<open>
  The order of the words can decide when they differ: the pairing is greedy and breaks ties by
  position, so RAJA R matches RAM RAJ but not RAJ RAM, although R - RAM and RAJA - RAJ pair well.
\<close>

theorem word_order_decides:
  "namesLikelyMatch ''RAJA R'' ''RAM RAJ'' 70 = (82, True) \<and> namesLikelyMatch ''RAJA R'' ''RAJ RAM'' 70 = (69, False)"
  by code_simp

end
