(* ===== verification/UrlSigner.thy ===== *)
theory UrlSigner
  imports JsText Doubles "HOL-Library.Sublist"
begin

text \<open>
  The signed links to documents (common/utils/document-url-signer.helper.ts, and the handler of
  main.ts that lets a request through). The HMAC is the parameter \<open>hmac\<close>; how texts other than
  decimal digits are read as numbers is the parameter \<open>num\<close>, and how numbers other than whole
  ones below 2^53 are printed is the parameter \<open>print\<close>.
\<close>

section \<open>Numbers in decimal\<close>

definition js_number :: "(string \<Rightarrow> rat option) \<Rightarrow> string \<Rightarrow> rat option" where
  "js_number num s = (if s \<noteq> [] \<and> list_all is_digit s then Some (dbl (of_int (digits_value s))) else num s)"

definition js_print :: "(rat \<Rightarrow> string) \<Rightarrow> rat \<Rightarrow> string" where
  "js_print print x = (if x = of_int \<lfloor>x\<rfloor> \<and> \<bar>x\<bar> < 2 ^ 53 then show_int \<lfloor>x\<rfloor> else print x)"

lemma js_number_show: "0 \<le> n \<Longrightarrow> n < 2 ^ 53 \<Longrightarrow> js_number num (show_int n) = Some (of_int n)"
  by (simp add: js_number_def show_int_nonneg show_nat_digits digits_value_show_nat dbl_of_int)

lemma js_print_int: "0 \<le> n \<Longrightarrow> n < 2 ^ 53 \<Longrightarrow> js_print print (of_int n) = show_int n"
  by (simp add: js_print_def flip: of_int_abs)

section \<open>The code\<close>

definition getSigningKey :: "string option \<Rightarrow> string + string" where
  "getSigningKey env = (case truthy_str env of Some k \<Rightarrow> Inr k | None \<Rightarrow> Inl ''DOCUMENT_URL_SIGNING_KEY is not configured.'')"

definition computeSignature ::
  "(string \<Rightarrow> string \<Rightarrow> string) \<Rightarrow> (rat \<Rightarrow> string) \<Rightarrow> string \<Rightarrow> rat \<Rightarrow> string \<Rightarrow> string" where
  "computeSignature hmac print pathname expiry key = hmac key (pathname @ '':'' @ js_print print expiry)"

definition our_upload :: "string \<Rightarrow> bool" where
  "our_upload p \<longleftrightarrow> prefix ''/uploads/'' p \<or> prefix ''uploads/'' p"

definition signed_pathname :: "string option \<Rightarrow> string \<Rightarrow> string" where
  "signed_pathname prefixEnv p =
     (let apiPrefix = (case truthy_str prefixEnv of Some a \<Rightarrow> a | None \<Rightarrow> ''api'');
          bare = (if prefix ''/'' p then p else CHR ''/'' # p)
      in ''/'' @ apiPrefix @ bare)"

definition signDocumentUrl ::
  "(string \<Rightarrow> string \<Rightarrow> string) \<Rightarrow> (rat \<Rightarrow> string) \<Rightarrow> string option \<Rightarrow> string option \<Rightarrow> time \<Rightarrow> string option \<Rightarrow> int \<Rightarrow>
   string + string option" where
  "signDocumentUrl hmac print keyEnv prefixEnv now pathOrUrl ttlSeconds =
     (case truthy_str pathOrUrl of
        None \<Rightarrow> Inr pathOrUrl
      | Some p \<Rightarrow>
          if \<not> our_upload p then Inr (Some p)
          else
            let pathname = signed_pathname prefixEnv p in
            case getSigningKey keyEnv of
              Inl e \<Rightarrow> Inl e
            | Inr key \<Rightarrow>
                let expiry = now div 1000 + ttlSeconds;
                    sig = computeSignature hmac print pathname (of_int expiry) key
                in Inr (Some (pathname @ ''?exp='' @ js_print print (of_int expiry) @ ''&sig='' @ sig)))"

definition verifyDocumentUrlSignature ::
  "(string \<Rightarrow> string \<Rightarrow> string) \<Rightarrow> (rat \<Rightarrow> string) \<Rightarrow> (string \<Rightarrow> rat option) \<Rightarrow> string option \<Rightarrow> time \<Rightarrow>
   string \<Rightarrow> string option \<Rightarrow> string option \<Rightarrow> string + bool" where
  "verifyDocumentUrlSignature hmac print num keyEnv now pathname expiry sig =
     (case (truthy_str expiry, truthy_str sig) of
        (Some e, Some s) \<Rightarrow>
          (case js_number num e of
             None \<Rightarrow> Inr False
           | Some expNum \<Rightarrow>
               if expNum < of_int (now div 1000) then Inr False
               else
                 case getSigningKey keyEnv of
                   Inl err \<Rightarrow> Inl err
                 | Inr key \<Rightarrow> Inr (computeSignature hmac print pathname expNum key = s))
      | _ \<Rightarrow> Inr False)"

text \<open>The handler in front of the files: the path is what comes before the first question mark.\<close>

definition uploads_allowed ::
  "(string \<Rightarrow> string \<Rightarrow> string) \<Rightarrow> (rat \<Rightarrow> string) \<Rightarrow> (string \<Rightarrow> rat option) \<Rightarrow> string option \<Rightarrow> time \<Rightarrow>
   string \<Rightarrow> string option \<Rightarrow> string option \<Rightarrow> bool" where
  "uploads_allowed hmac print num keyEnv now originalUrl expiry sig =
     (verifyDocumentUrlSignature hmac print num keyEnv now (takeWhile (\<lambda>c. c \<noteq> CHR ''?'') originalUrl) expiry sig = Inr True)"

section \<open>Properties\<close>

text \<open>
  C27. Signing and verifying fit together: a link signed for one of our files is let through until
  it expires and refused from then on, with the query the link itself carries.
\<close>

theorem signed_url_roundtrip:
  assumes "getSigningKey keyEnv = Inr key" and "our_upload p" and "CHR ''?'' \<notin> set (signed_pathname prefixEnv p)"
    and "e = now div 1000 + ttl" and "0 \<le> e" and "e < 2 ^ 53" and "\<And>m. hmac key m \<noteq> []"
  shows "\<exists>sig. signDocumentUrl hmac print keyEnv prefixEnv now (Some p) ttl
      = Inr (Some (signed_pathname prefixEnv p @ ''?exp='' @ show_int e @ ''&sig='' @ sig))
    \<and> uploads_allowed hmac print num keyEnv later
        (signed_pathname prefixEnv p @ ''?exp='' @ show_int e @ ''&sig='' @ sig) (Some (show_int e)) (Some sig)
      = (later div 1000 \<le> e)"
proof -
  let ?path = "signed_pathname prefixEnv p"
  have p: "truthy_str (Some p) = Some p" using assms(2) by (auto simp: truthy_str_Some our_upload_def)
  have q: "takeWhile (\<lambda>c. c \<noteq> CHR ''?'') (?path @ ''?exp='' @ rest) = ?path" for rest
    using assms(3) by (subst takeWhile_append2) auto
  have e: "truthy_str (Some (show_int e)) = Some (show_int e)"
    using show_nat_digits assms(5) by (simp add: truthy_str_Some show_int_nonneg)
  have s: "truthy_str (Some (hmac key m)) = Some (hmac key m)" for m using assms(7) by (simp add: truthy_str_Some)
  have sign: "signDocumentUrl hmac print keyEnv prefixEnv now (Some p) ttl
      = Inr (Some (?path @ ''?exp='' @ show_int e @ ''&sig='' @ hmac key (?path @ '':'' @ show_int e)))"
    using js_print_int [OF assms(5,6)] by (simp add: signDocumentUrl_def p assms(1,2) Let_def computeSignature_def flip: assms(4))
  have "uploads_allowed hmac print num keyEnv later (?path @ ''?exp='' @ rest) (Some (show_int e))
      (Some (hmac key (?path @ '':'' @ show_int e))) = (later div 1000 \<le> e)" for rest
    unfolding uploads_allowed_def q
    by (simp add: verifyDocumentUrlSignature_def e s js_number_show [OF assms(5,6)] assms(1) computeSignature_def
        js_print_int [OF assms(5,6)] not_less)
  with sign show ?thesis by blast
qed

theorem signed_url_roundtrip_witness:
  "\<exists>sig. signDocumentUrl (\<lambda>k m. CHR ''#'' # k @ m) (\<lambda>_. []) (Some ''k'') None 1000 (Some ''uploads/pan.jpg'') 600
      = Inr (Some (''/api/uploads/pan.jpg?exp='' @ show_int 601 @ ''&sig='' @ sig))
    \<and> \<not> uploads_allowed (\<lambda>k m. CHR ''#'' # k @ m) (\<lambda>_. []) (\<lambda>_. None) (Some ''k'') 602000
        (''/api/uploads/pan.jpg?exp='' @ show_int 601 @ ''&sig='' @ sig) (Some (show_int 601)) (Some sig)"
proof -
  have k: "getSigningKey (Some ''k'') = Inr ''k''" by code_simp
  have u: "our_upload ''uploads/pan.jpg''" by code_simp
  have n: "signed_pathname None ''uploads/pan.jpg'' = ''/api/uploads/pan.jpg''" by code_simp
  have q: "CHR ''?'' \<notin> set (signed_pathname None ''uploads/pan.jpg'')" by (simp add: n)
  from signed_url_roundtrip [OF k u q, of 601 1000 600 "\<lambda>k m. CHR ''#'' # k @ m" "\<lambda>_. []" "\<lambda>_. None" 602000]
  show ?thesis by (auto simp: n)
qed

lemma split_last_colon:
  assumes "p @ CHR '':'' # a = q @ CHR '':'' # b" and "CHR '':'' \<notin> set a" and "CHR '':'' \<notin> set b"
  shows "p = q"
proof -
  have "rev a @ CHR '':'' # rev p = rev b @ CHR '':'' # rev q" using arg_cong [OF assms(1), of rev] by simp
  then have "takeWhile (\<lambda>c. c \<noteq> CHR '':'') (rev a @ CHR '':'' # rev p) = takeWhile (\<lambda>c. c \<noteq> CHR '':'') (rev b @ CHR '':'' # rev q)"
    by (rule arg_cong)
  moreover have "takeWhile (\<lambda>c. c \<noteq> CHR '':'') (rev s) = rev s" if "CHR '':'' \<notin> set s" for s
    using that by (auto simp: takeWhile_eq_all_conv)
  ultimately have "rev a = rev b" using assms(2,3) by (simp add: takeWhile_tail)
  with assms(1) show ?thesis by simp
qed

text \<open>
  A signature opens one document only: where the HMAC of different texts differs (and printed
  numbers hold no colon), what was signed for one path is refused for every other, whatever
  expiry is put beside it.
\<close>

theorem signature_binds_path:
  assumes "\<And>m m'. hmac key m = hmac key m' \<Longrightarrow> m = m'" and "getSigningKey keyEnv = Inr key"
    and "\<And>x. CHR '':'' \<notin> set (print x)"
    and "verifyDocumentUrlSignature hmac print num keyEnv now other e (Some (computeSignature hmac print path x key)) = Inr True"
  shows "other = path"
proof -
  have colon: "CHR '':'' \<notin> set (js_print print y)" for y
  proof -
    have "CHR '':'' \<notin> set (show_nat n)" for n
      using show_nat_digits [of n] by (auto simp: list_all_iff is_digit_def)
    then show ?thesis using assms(3) by (simp add: js_print_def show_int_def)
  qed
  from assms(2,4) obtain y where "computeSignature hmac print other y key = computeSignature hmac print path x key"
    by (auto simp: verifyDocumentUrlSignature_def truthy_str_Some split: option.splits if_splits)
  from assms(1) [OF this [unfolded computeSignature_def]]
  have "other @ CHR '':'' # js_print print y = path @ CHR '':'' # js_print print x" by simp
  from split_last_colon [OF this colon colon] show ?thesis .
qed

theorem signature_binds_path_witness:
  "verifyDocumentUrlSignature (\<lambda>k m. k @ m) (\<lambda>_. []) (\<lambda>_. None) (Some ''k'') 0 ''/a'' (Some ''9'')
     (Some (computeSignature (\<lambda>k m. k @ m) (\<lambda>_. []) ''/a'' 9 ''k'')) = Inr True
   \<and> verifyDocumentUrlSignature (\<lambda>k m. k @ m) (\<lambda>_. []) (\<lambda>_. None) (Some ''k'') 0 ''/b'' (Some ''9'')
     (Some (computeSignature (\<lambda>k m. k @ m) (\<lambda>_. []) ''/a'' 9 ''k'')) \<noteq> Inr True"
proof -
  have k: "getSigningKey (Some ''k'') = Inr ''k''" by code_simp
  have "verifyDocumentUrlSignature (\<lambda>k m. k @ m) (\<lambda>_. []) (\<lambda>_. None) (Some ''k'') 0 ''/a'' (Some ''9'')
     (Some (computeSignature (\<lambda>k m. k @ m) (\<lambda>_. []) ''/a'' 9 ''k'')) = Inr True" by code_simp
  moreover have "''/b'' = ''/a''"
    if "verifyDocumentUrlSignature (\<lambda>k m. k @ m) (\<lambda>_. []) (\<lambda>_. None) (Some ''k'') 0 ''/b'' (Some ''9'')
     (Some (computeSignature (\<lambda>k m. k @ m) (\<lambda>_. []) ''/a'' 9 ''k'')) = Inr True"
    by (rule signature_binds_path [OF _ k _ that]) simp_all
  ultimately show ?thesis by auto
qed

end
