(* ===== verification/LenderConsents.thy ===== *)
theory LenderConsents
  imports LenderOutbox "HOL-Library.Sublist"
begin

text \<open>
  The consents of the journey and what they gate
  (modules/lender-integrations/consent-catalogue.ts, lender-integration-outbox.service.ts,
  lender-adapter.registry.ts). The hash of a text is the parameter \<open>hash\<close>; environment variables
  are arguments. Ids of new events come as a function of the kind of consent.
\<close>

section \<open>The catalogue\<close>

datatype consent_type =
    LIVE_PHOTO_CAPTURE | AADHAAR_KYC | DATA_SHARING | ACCOUNT_AGGREGATOR
  | BUREAU_ENQUIRY | LENDER_CREDIT_ASSESSMENT | LENDER_DECISION_REQUEST

fun consent_name :: "consent_type \<Rightarrow> string" where
  "consent_name LIVE_PHOTO_CAPTURE = ''LIVE_PHOTO_CAPTURE''"
| "consent_name AADHAAR_KYC = ''AADHAAR_KYC''"
| "consent_name DATA_SHARING = ''DATA_SHARING''"
| "consent_name ACCOUNT_AGGREGATOR = ''ACCOUNT_AGGREGATOR''"
| "consent_name BUREAU_ENQUIRY = ''BUREAU_ENQUIRY''"
| "consent_name LENDER_CREDIT_ASSESSMENT = ''LENDER_CREDIT_ASSESSMENT''"
| "consent_name LENDER_DECISION_REQUEST = ''LENDER_DECISION_REQUEST''"

record consent_definition =
  cd_templateId :: string
  cd_version :: string
  cd_stage :: string
  cd_submitToLender :: bool
  cd_text :: "string \<Rightarrow> string"  \<comment> \<open>of the lender's display name\<close>

fun CONSENT_CATALOGUE :: "consent_type \<Rightarrow> consent_definition" where
  "CONSENT_CATALOGUE LIVE_PHOTO_CAPTURE =
     \<lparr>cd_templateId = ''LIVE_PHOTO_CAPTURE_V1'', cd_version = ''1.0'', cd_stage = ''PROFILE_DETAILS'',
      cd_submitToLender = True,
      cd_text = (\<lambda>_. ''I consent to the capture and processing of my live photograph and current location for identity verification, fraud prevention and loan application processing.'')\<rparr>"
| "CONSENT_CATALOGUE AADHAAR_KYC =
     \<lparr>cd_templateId = ''AADHAAR_KYC_V1'', cd_version = ''1.0'', cd_stage = ''AADHAAR_KYC'', cd_submitToLender = True,
      cd_text = (\<lambda>lender. ''I consent to '' @ lender @ '' securely initiating DigiLocker-based Aadhaar KYC using my verified account information. I authorize the retrieval and processing of permitted identity information for loan onboarding, verification and lender submission.'')\<rparr>"
| "CONSENT_CATALOGUE DATA_SHARING =
     \<lparr>cd_templateId = ''LENDER_DATA_SHARING_V1'', cd_version = ''1.0'', cd_stage = ''ASSESSMENT_FEE'', cd_submitToLender = True,
      cd_text = (\<lambda>lender. ''I consent to share my application data with '' @ lender @ '' for eligibility assessment and final decision.'')\<rparr>"
| "CONSENT_CATALOGUE ACCOUNT_AGGREGATOR =
     \<lparr>cd_templateId = ''ACCOUNT_AGGREGATOR_V1'', cd_version = ''1.0'', cd_stage = ''ACCOUNT_AGGREGATOR'', cd_submitToLender = True,
      cd_text = (\<lambda>lender. ''I consent to share my bank account statement information through the RBI-regulated Account Aggregator network with '' @ lender @ '' for income assessment and loan underwriting.'')\<rparr>"
| "CONSENT_CATALOGUE BUREAU_ENQUIRY =
     \<lparr>cd_templateId = ''BUREAU_ENQUIRY_V1'', cd_version = ''1.0'', cd_stage = ''SUBMIT_APPLICATION'', cd_submitToLender = True,
      cd_text = (\<lambda>_. ''I authorize a bureau enquiry for this loan application.'')\<rparr>"
| "CONSENT_CATALOGUE LENDER_CREDIT_ASSESSMENT =
     \<lparr>cd_templateId = ''LENDER_CREDIT_ASSESSMENT_V1'', cd_version = ''1.0'', cd_stage = ''SUBMIT_APPLICATION'', cd_submitToLender = True,
      cd_text = (\<lambda>_. ''I authorize the allocated lender to assess my eligibility and credit profile.'')\<rparr>"
| "CONSENT_CATALOGUE LENDER_DECISION_REQUEST =
     \<lparr>cd_templateId = ''LENDER_DECISION_REQUEST_V1'', cd_version = ''1.0'', cd_stage = ''SUBMIT_APPLICATION'', cd_submitToLender = True,
      cd_text = (\<lambda>_. ''I authorize submission of my completed application to the allocated lender for a lending decision.'')\<rparr>"

definition isPerTypeConsentSubmissionEnabled :: "string option \<Rightarrow> bool" where
  "isPerTypeConsentSubmissionEnabled env = (to_lower (case env of Some s \<Rightarrow> s | None \<Rightarrow> []) = ''true'')"

definition canSubmitConsentToLender :: "string option \<Rightarrow> consent_type \<Rightarrow> bool" where
  "canSubmitConsentToLender env ty =
     (if \<not> cd_submitToLender (CONSENT_CATALOGUE ty) then False
      else if \<not> isPerTypeConsentSubmissionEnabled env then ty = DATA_SHARING
      else True)"

fun CONSENT_TYPE_SUFFIX :: "consent_type \<Rightarrow> string option" where
  "CONSENT_TYPE_SUFFIX AADHAAR_KYC = Some '':CONSENT:KYC:V1''"
| "CONSENT_TYPE_SUFFIX ACCOUNT_AGGREGATOR = Some '':CONSENT:AA:V1''"
| "CONSENT_TYPE_SUFFIX LIVE_PHOTO_CAPTURE = Some '':CONSENT:LPC:V1''"
| "CONSENT_TYPE_SUFFIX _ = None"

definition DEFAULT_CONSENT_SUFFIX :: string where
  "DEFAULT_CONSENT_SUFFIX = '':LENDER_SUBMIT_CONSENT:V1''"

definition consentIdempotencyKey :: "string \<Rightarrow> consent_type \<Rightarrow> string" where
  "consentIdempotencyKey reference ty =
     (case CONSENT_TYPE_SUFFIX ty of
        Some mappedSuffix \<Rightarrow> reference @ mappedSuffix
      | None \<Rightarrow>
          if ty = DATA_SHARING then reference @ DEFAULT_CONSENT_SUFFIX
          else reference @ '':'' @ consent_name ty @ DEFAULT_CONSENT_SUFFIX)"

definition consentTextFor :: "consent_type \<Rightarrow> string \<Rightarrow> string" where
  "consentTextFor ty lenderDisplayName = cd_text (CONSENT_CATALOGUE ty) lenderDisplayName"

section \<open>Evidence\<close>

record stage_consent =
  sc_applicationId :: int
  sc_lenderId :: ident
  sc_consentType :: consent_type
  sc_templateId :: string
  sc_version :: string
  sc_text :: string
  sc_textHash :: string
  sc_acceptedAt :: time
  sc_ipAddress :: "string option"
  sc_userAgent :: "string option"
  sc_revokedAt :: "time option"

record data_consent =
  dc_applicationId :: int
  dc_customerId :: int
  dc_lenderId :: ident
  dc_templateId :: string
  dc_version :: string
  dc_text :: string
  dc_textHash :: string
  dc_reference :: string
  dc_acceptedAt :: time
  dc_ipAddress :: "string option"
  dc_userAgent :: "string option"
  dc_revokedAt :: "time option"

text \<open>An allocation decision, a payment and a lender's configuration as far as they are read here.\<close>

record allocation_row =
  al_id :: ident
  al_assigned :: bool
  al_lenderId :: ident
  al_productId :: ident
  al_productVersionId :: ident

record adapter =
  ad_key :: string
  ad_version :: string
  ad_decisionRequest :: bool
  ad_statusPolling :: bool

text \<open>What the readiness of an update looks at, besides the application, its link and its consents.\<close>

record employment =
  em_completedAt :: "time option"
  em_monthlyIncome :: "rat option"
  em_type :: "string option"
  em_companyName :: "string option"
  em_designation :: "string option"
  em_businessName :: "string option"
  em_businessConstitution :: "string option"

record verification =
  vf_verified :: bool
  vf_verifiedAt :: "time option"
  vf_name :: "string option"  \<comment> \<open>the verified name of the KYC snapshot\<close>
  vf_photo :: bool  \<comment> \<open>the photo document of the liveness check\<close>

record address_row =
  aa_permanent :: bool
  aa_sameAsPermanent :: "bool option"

record consent_db =
  cs_out :: outbox_db
  cs_stage :: "stage_consent list"
  cs_data :: "data_consent list"
  cs_lenders :: "(ident \<times> string) list"  \<comment> \<open>id, display name\<close>
  cs_allocations :: "allocation_row list"
  cs_feePaid :: "int list"  \<comment> \<open>applications with a successful assessment-fee payment\<close>
  cs_links :: "(int \<times> ident \<times> ident option \<times> ident option) list"  \<comment> \<open>of a link: application, lender, product, version\<close>
  cs_employment :: "(int \<times> employment) list"
  cs_kyc :: "(int \<times> verification) list"
  cs_liveness :: "(int \<times> verification) list"
  cs_addresses :: "(int \<times> address_row) list"
  cs_configs :: "(ident \<times> string \<times> string) list"  \<comment> \<open>lender, adapter key, adapter version\<close>

definition isConsentEvidenceIntact :: "(string \<Rightarrow> string) \<Rightarrow> stage_consent \<Rightarrow> bool" where
  "isConsentEvidenceIntact hash c \<longleftrightarrow> hash (sc_text c) = sc_textHash c"

type_synonym consent_key = "int \<times> ident \<times> consent_type \<times> string"

definition sc_key :: "stage_consent \<Rightarrow> consent_key" where
  "sc_key c = (sc_applicationId c, sc_lenderId c, sc_consentType c, sc_version c)"

definition dc_key :: "data_consent \<Rightarrow> int \<times> ident \<times> string" where
  "dc_key c = (dc_applicationId c, dc_lenderId c, dc_version c)"


section \<open>Recording\<close>

definition new_stage_consent ::
  "(string \<Rightarrow> string) \<Rightarrow> int \<Rightarrow> ident \<Rightarrow> consent_type \<Rightarrow> string \<Rightarrow> string \<Rightarrow> string \<Rightarrow> string option \<Rightarrow> string option \<Rightarrow>
   time \<Rightarrow> stage_consent" where
  "new_stage_consent hash a l ty template version text ip agent now =
     \<lparr>sc_applicationId = a, sc_lenderId = l, sc_consentType = ty, sc_templateId = template, sc_version = version,
      sc_text = text, sc_textHash = hash text, sc_acceptedAt = now, sc_ipAddress = map_option (take 64) ip,
      sc_userAgent = map_option (take 512) agent, sc_revokedAt = None\<rparr>"

definition upsert_stage :: "stage_consent \<Rightarrow> stage_consent list \<Rightarrow> stage_consent \<times> stage_consent list" where
  "upsert_stage c t = (case find_unique sc_key (sc_key c) t of Some x \<Rightarrow> (x, t) | None \<Rightarrow> (c, t @ [c]))"

definition consent_event :: "ident \<Rightarrow> pl_application \<Rightarrow> ident \<Rightarrow> consent_type \<Rightarrow> time \<Rightarrow> lender_event" where
  "consent_event i a l ty now =
     (new_event i ''LENDER_SUBMIT_CONSENT'' a l ST_CONSENT 1 (consentIdempotencyKey (pa_number a) ty) None now)
       \<lparr>le_consentType := Some (consent_name ty)\<rparr>"

text \<open>One turn of the loop over the recorded consents.\<close>

definition submit_consent ::
  "(string \<Rightarrow> string) \<Rightarrow> string option \<Rightarrow> (consent_type \<Rightarrow> ident) \<Rightarrow> pl_application \<Rightarrow> ident \<Rightarrow> time \<Rightarrow>
   lender_event list \<times> outbox_db \<Rightarrow> stage_consent \<Rightarrow> lender_event list \<times> outbox_db" where
  "submit_consent hash env newId a l now st c =
     (case st of (events, db) \<Rightarrow>
        if \<not> canSubmitConsentToLender env (sc_consentType c) then st
        else if \<not> isConsentEvidenceIntact hash c then st
        else case put_event (consent_event (newId (sc_consentType c)) a l (sc_consentType c) now) db of
               (e, db') \<Rightarrow> (events @ [e], db'))"

definition enqueueConsentSubmissions ::
  "(string \<Rightarrow> string) \<Rightarrow> string option \<Rightarrow> (consent_type \<Rightarrow> ident) \<Rightarrow> int \<Rightarrow> time \<Rightarrow> consent_db \<Rightarrow>
   lender_event list \<times> consent_db" where
  "enqueueConsentSubmissions hash env newId applicationId now db =
     (case find_unique pa_id applicationId (ob_apps (cs_out db)) of
        None \<Rightarrow> ([], db)
      | Some a \<Rightarrow>
          case (truthy_str (pa_lenderId a), find_unique lk_applicationId applicationId (ob_links (cs_out db))) of
            (Some l, Some k) \<Rightarrow>
              if truthy_str (lk_partnerApplicationId k) = None \<or> \<not> acknowledged (lk_createStatus k) then ([], db)
              else
                let consents = filter (\<lambda>c. sc_applicationId c = applicationId \<and> sc_lenderId c = l \<and> sc_revokedAt c = None)
                      (cs_stage db);
                    (events, out) = foldl (submit_consent hash env newId a l now) ([], cs_out db) consents
                in (events, db\<lparr>cs_out := out\<rparr>)
          | _ \<Rightarrow> ([], db))"

definition recordJourneyConsent ::
  "(string \<Rightarrow> string) \<Rightarrow> string option \<Rightarrow> (consent_type \<Rightarrow> ident) \<Rightarrow> int \<Rightarrow> consent_type \<Rightarrow> string option \<Rightarrow> string option \<Rightarrow>
   bool \<Rightarrow> time \<Rightarrow> consent_db \<Rightarrow> stage_consent option \<times> consent_db" where
  "recordJourneyConsent hash env newId applicationId ty ip agent deferSubmission now db =
     (case find_unique pa_id applicationId (ob_apps (cs_out db)) of
        None \<Rightarrow> (None, db)
      | Some a \<Rightarrow>
          case truthy_str (pa_lenderId a) of
            None \<Rightarrow> (None, db)
          | Some l \<Rightarrow>
              case map_of (cs_lenders db) l of
                None \<Rightarrow> (None, db)
              | Some displayName \<Rightarrow>
                  let d = CONSENT_CATALOGUE ty;
                      (c, t) = upsert_stage (new_stage_consent hash applicationId l ty (cd_templateId d) (cd_version d)
                                 (consentTextFor ty displayName) ip agent now) (cs_stage db);
                      db1 = db\<lparr>cs_stage := t\<rparr>
                  in (Some c, if deferSubmission then db1
                              else snd (enqueueConsentSubmissions hash env newId applicationId now db1)))"

text \<open>The consent before the assessment fee, with its transaction; \<open>envs\<close> holds the three overrides.\<close>

definition data_sharing_write ::
  "(string \<Rightarrow> string) \<Rightarrow> pl_application \<Rightarrow> ident \<Rightarrow> string \<Rightarrow> string \<Rightarrow> string \<Rightarrow> string \<Rightarrow> string option \<Rightarrow> string option \<Rightarrow>
   time \<Rightarrow> consent_db \<Rightarrow> (http_error + data_consent) \<times> consent_db" where
  "data_sharing_write hash a l template version reference text ip agent now db =
     (let new = \<lparr>dc_applicationId = pa_id a, dc_customerId = pa_customerId a, dc_lenderId = l,
            dc_templateId = template, dc_version = version, dc_text = text, dc_textHash = hash text,
            dc_reference = reference, dc_acceptedAt = now, dc_ipAddress = map_option (take 64) ip,
            dc_userAgent = map_option (take 512) agent, dc_revokedAt = None\<rparr>;
          (consent, t) = (case find_unique dc_key (dc_key new) (cs_data db) of
             Some x \<Rightarrow> (x, cs_data db) | None \<Rightarrow> (new, cs_data db @ [new]));
          (stage, u) = upsert_stage (new_stage_consent hash (pa_id a) l DATA_SHARING template version
             text ip agent now) (cs_stage db)
      in if dc_revokedAt consent \<noteq> None
         then (Inl (BadRequest ''Consent was revoked and cannot be overwritten.''), db)
         else if sc_revokedAt stage \<noteq> None
         then (Inl (BadRequest ''Stage consent was revoked and cannot be overwritten.''), db)
         else (Inr consent, db\<lparr>cs_data := t, cs_stage := u\<rparr>))"

definition recordDataSharingConsent ::
  "(string \<Rightarrow> string) \<Rightarrow> string option \<times> string option \<times> string option \<Rightarrow> int \<Rightarrow> int \<Rightarrow>
   string option \<Rightarrow> string option \<Rightarrow> string option \<Rightarrow> string option \<Rightarrow> string option \<Rightarrow> time \<Rightarrow> consent_db \<Rightarrow>
   (http_error + data_consent) \<times> consent_db" where
  "recordDataSharingConsent hash envs customerId applicationId inTemplate inVersion inText ip agent now db =
     (case find_unique pa_id applicationId (filter (\<lambda>a. pa_customerId a = customerId) (ob_apps (cs_out db))) of
        None \<Rightarrow> (Inl (BadRequest ''A completed lender allocation is required before consent.''), db)
      | Some a \<Rightarrow>
          case (truthy_str (pa_lenderId a), truthy_str (pa_allocationId a)) of
            (Some l, Some _) \<Rightarrow>
              (case map_of (cs_lenders db) l of
                 None \<Rightarrow> (Inl (BadRequest ''Allocated lender was not found.''), db)
               | Some displayName \<Rightarrow>
                   let (envTemplate, envVersion, envReference) = envs;
                       d = CONSENT_CATALOGUE DATA_SHARING;
                       template = (case truthy_str envTemplate of Some x \<Rightarrow> x | None \<Rightarrow> cd_templateId d);
                       version = (case truthy_str envVersion of Some x \<Rightarrow> x | None \<Rightarrow> cd_version d);
                       reference = (case truthy_str envReference of Some x \<Rightarrow> x | None \<Rightarrow> ''CUSTOMER_LENDER_DATA_SHARING'');
                       text = consentTextFor DATA_SHARING displayName
                   in if inTemplate \<noteq> Some template \<or> inVersion \<noteq> Some version \<or> inText \<noteq> Some text
                      then (Inl (BadRequest ''The lender data-sharing consent text or version is invalid.''), db)
                      else data_sharing_write hash a l template version reference text ip agent now db)
          | _ \<Rightarrow> (Inl (BadRequest ''A completed lender allocation is required before consent.''), db))"

definition latest_data_consent :: "(data_consent \<Rightarrow> bool) \<Rightarrow> data_consent list \<Rightarrow> data_consent option" where
  "latest_data_consent P t =
     (case sort_key (\<lambda>c. - dc_acceptedAt c) (filter (\<lambda>c. P c \<and> dc_revokedAt c = None) t) of [] \<Rightarrow> None | c # _ \<Rightarrow> Some c)"

definition assertValidDataSharingConsent ::
  "(string \<Rightarrow> string) \<Rightarrow> int \<Rightarrow> consent_db \<Rightarrow> http_error + data_consent" where
  "assertValidDataSharingConsent hash applicationId db =
     (case latest_data_consent (\<lambda>c. dc_applicationId c = applicationId) (cs_data db) of
        None \<Rightarrow> Inl (BadRequest ''Valid lender data-sharing consent evidence is required.'')
      | Some c \<Rightarrow>
          if hash (dc_text c) \<noteq> dc_textHash c then Inl (BadRequest ''Valid lender data-sharing consent evidence is required.'')
          else Inr c)"


section \<open>The CREATE event\<close>

definition pad_start :: "nat \<Rightarrow> char \<Rightarrow> string \<Rightarrow> string" where
  "pad_start n c s = replicate (n - length s) c @ s"

definition generated_lan :: "int \<Rightarrow> string" where
  "generated_lan i = ''FTPL'' @ pad_start 8 (CHR ''0'') (show_int i)"

definition allocation_matches :: "pl_application \<Rightarrow> allocation_row \<Rightarrow> bool" where
  "allocation_matches a al \<longleftrightarrow> al_assigned al \<and> Some (al_lenderId al) = pa_lenderId a
     \<and> Some (al_productId al) = pa_lenderProductId a \<and> Some (al_productVersionId al) = pa_productVersionId a"

definition create_checks ::
  "(string \<Rightarrow> string) \<Rightarrow> int \<Rightarrow> consent_db \<Rightarrow> http_error + pl_application \<times> ident" where
  "create_checks hash applicationId db =
     (case find_unique pa_id applicationId (ob_apps (cs_out db)) of
        None \<Rightarrow> Inl (BadRequest ''Canonical application was not found.'')
      | Some a \<Rightarrow>
          if pa_status a \<noteq> A_ASSESSMENT_FEE_PAID
          then Inl (BadRequest ''Assessment fee must be paid before lender submission.'')
          else case (truthy_str (pa_allocationId a), truthy_str (pa_lenderId a), truthy_str (pa_lenderProductId a),
                     truthy_str (pa_productVersionId a)) of
            (Some allocationId, Some l, Some _, Some _) \<Rightarrow>
              (case find_unique al_id allocationId (cs_allocations db) of
                 None \<Rightarrow> Inl (BadRequest ''Persisted lender allocation does not match the canonical application.'')
               | Some al \<Rightarrow>
                   if \<not> allocation_matches a al
                   then Inl (BadRequest ''Persisted lender allocation does not match the canonical application.'')
                   else if applicationId \<notin> set (cs_feePaid db)
                   then Inl (BadRequest ''Verified assessment-fee payment evidence is missing.'')
                   else
                     case latest_data_consent (\<lambda>c. dc_applicationId c = applicationId \<and> dc_lenderId c = l) (cs_data db) of
                       None \<Rightarrow> Inl (BadRequest ''Lender data-sharing consent evidence is missing or invalid.'')
                     | Some c \<Rightarrow>
                         if hash (dc_text c) \<noteq> dc_textHash c
                         then Inl (BadRequest ''Lender data-sharing consent evidence is missing or invalid.'')
                         else
                           case map_of (cs_links db) applicationId of
                             Some (ll, lp, lv) \<Rightarrow>
                               if Some ll \<noteq> pa_lenderId a \<or> lp \<noteq> pa_lenderProductId a \<or> lv \<noteq> pa_productVersionId a
                               then Inl (BadRequest ''Existing lender application link conflicts with the immutable MLM allocation.'')
                               else Inr (a, l)
                           | None \<Rightarrow> Inr (a, l))
          | _ \<Rightarrow> Inl (BadRequest ''Completed MLM allocation evidence is required before lender submission.''))"

definition enqueueCreateAfterVerifiedPayment ::
  "(string \<Rightarrow> string) \<Rightarrow> ident \<Rightarrow> int \<Rightarrow> time \<Rightarrow> consent_db \<Rightarrow> (http_error + lender_event) \<times> consent_db" where
  "enqueueCreateAfterVerifiedPayment hash i applicationId now db =
     (case create_checks hash applicationId db of
        Inl e \<Rightarrow> (Inl e, db)
      | Inr (a, l) \<Rightarrow>
          let out = cs_out db;
              out1 = (if truthy_str (pa_platformLan a) = None
                      then out\<lparr>ob_apps := update_many (\<lambda>x. pa_id x = applicationId \<and> pa_platformLan x = None)
                             (\<lambda>x. x\<lparr>pa_platformLan := Some (generated_lan applicationId), pa_updatedAt := now\<rparr>) (ob_apps out)\<rparr>
                      else out);
              lan = (case find_unique pa_id applicationId (ob_apps out1) of
                       None \<Rightarrow> None | Some x \<Rightarrow> truthy_str (pa_platformLan x))
          in case lan of
               None \<Rightarrow> (Inl (BadRequest ''Platform LAN could not be generated.''), db)
             | Some _ \<Rightarrow>
                 case put_event (new_event i ''LENDER_CREATE_APPLICATION'' a l ST_CREATE 1
                        (versioned_key (pa_number a) ''LENDER_CREATE_APPLICATION'' 1) None now) out1 of
                   (e, out2) \<Rightarrow> (Inr e, db\<lparr>cs_out := out2\<rparr>))"

section \<open>Readiness of the update\<close>

definition unless :: "bool \<Rightarrow> string \<Rightarrow> string list" where
  "unless ok reason = (if ok then [] else [reason])"

definition text_given :: "string option \<Rightarrow> bool" where
  "text_given s \<longleftrightarrow> truthy_str s \<noteq> None"

definition active_consent :: "consent_type \<Rightarrow> int \<Rightarrow> consent_db \<Rightarrow> stage_consent option" where
  "active_consent ty applicationId db =
     List.find (\<lambda>c. sc_applicationId c = applicationId \<and> sc_consentType c = ty \<and> sc_revokedAt c = None) (cs_stage db)"

definition active_evidence :: "(string \<Rightarrow> string) \<Rightarrow> consent_type \<Rightarrow> int \<Rightarrow> consent_db \<Rightarrow> bool" where
  "active_evidence hash ty applicationId db =
     (case active_consent ty applicationId db of None \<Rightarrow> False | Some c \<Rightarrow> isConsentEvidenceIntact hash c)"

definition employment_reasons :: "employment option \<Rightarrow> string list" where
  "employment_reasons employment =
     unless (case employment of Some e \<Rightarrow> em_completedAt e \<noteq> None | None \<Rightarrow> False) ''EMPLOYMENT_SNAPSHOT_MISSING''
     @ unless (case employment of Some e \<Rightarrow> (case em_monthlyIncome e of Some x \<Rightarrow> 0 < x | None \<Rightarrow> False) | None \<Rightarrow> False)
         ''MONTHLY_INCOME_MISSING''
     @ unless (case employment of
           Some e \<Rightarrow> em_type e = Some ''SALARIED'' \<longrightarrow> text_given (em_companyName e) \<and> text_given (em_designation e)
         | None \<Rightarrow> True) ''SALARIED_DETAILS_INCOMPLETE''
     @ unless (case employment of
           Some e \<Rightarrow> em_type e = Some ''SELF_EMPLOYED'' \<longrightarrow> text_given (em_businessName e) \<and> text_given (em_businessConstitution e)
         | None \<Rightarrow> True) ''BUSINESS_DETAILS_INCOMPLETE''"

definition verified :: "verification option \<Rightarrow> bool" where
  "verified v = (case v of Some x \<Rightarrow> vf_verified x \<and> vf_verifiedAt x \<noteq> None | None \<Rightarrow> False)"

definition evaluateUpdateReadiness :: "(string \<Rightarrow> string) \<Rightarrow> pl_application \<Rightarrow> consent_db \<Rightarrow> string list" where
  "evaluateUpdateReadiness hash a db =
     (let i = pa_id a;
          link = find_unique lk_applicationId i (ob_links (cs_out db));
          liveness = map_of (cs_liveness db) i; kyc = map_of (cs_kyc db) i;
          addresses = map snd (filter (\<lambda>x. fst x = i) (cs_addresses db));
          permanent = List.find aa_permanent addresses; current = List.find (\<lambda>x. \<not> aa_permanent x) addresses
      in unless (text_given (pa_platformLan a)) ''PLATFORM_LAN_MISSING''
       @ unless (case link of Some k \<Rightarrow> acknowledged (lk_createStatus k) | None \<Rightarrow> False) ''CREATE_NOT_COMPLETED''
       @ unless (case link of Some k \<Rightarrow> text_given (lk_partnerApplicationId k) | None \<Rightarrow> False) ''PARTNER_APPLICATION_ID_MISSING''
       @ unless (case link of Some k \<Rightarrow> acknowledged (lk_consentStatus k) | None \<Rightarrow> False) ''CONSENT_NOT_COMPLETED''
       @ employment_reasons (map_of (cs_employment db) i)
       @ unless (verified liveness \<and> (case liveness of Some x \<Rightarrow> vf_photo x | None \<Rightarrow> False)) ''LIVENESS_NOT_VERIFIED''
       @ unless (verified kyc) ''DIGILOCKER_KYC_NOT_VERIFIED''
       @ unless (case kyc of Some x \<Rightarrow> text_given (vf_name x) | None \<Rightarrow> False) ''AADHAAR_VERIFIED_NAME_MISSING''
       @ unless (permanent \<noteq> None) ''PERMANENT_ADDRESS_MISSING''
       @ unless (current \<noteq> None) ''CURRENT_ADDRESS_MISSING''
       @ unless (case current of Some x \<Rightarrow> aa_sameAsPermanent x \<noteq> None | None \<Rightarrow> True) ''SAME_ADDRESS_DECISION_MISSING''
       @ unless (active_evidence hash DATA_SHARING i db) ''UPDATE_CONSENT_MISSING'')"

definition enqueueUpdateWhenReady ::
  "(string \<Rightarrow> string) \<Rightarrow> ident \<Rightarrow> int \<Rightarrow> int \<Rightarrow> time \<Rightarrow> consent_db \<Rightarrow>
   (http_error + lender_event option \<times> string list) \<times> consent_db" where
  "enqueueUpdateWhenReady hash i applicationId version now db =
     (case find_unique pa_id applicationId (ob_apps (cs_out db)) of
        None \<Rightarrow> (Inl (BadRequest ''Canonical application was not found.''), db)
      | Some a \<Rightarrow>
          let reasons = evaluateUpdateReadiness hash a db in
          if reasons \<noteq> [] then (Inr (None, reasons), db)
          else case pa_lenderId a of
                 None \<Rightarrow> (Inl (ServerError ''PrismaClientValidationError''), db)
               | Some l \<Rightarrow>
                   (case enqueueUpdate_ready i a l version now (cs_out db) of
                      (e, out) \<Rightarrow> (Inr (Some e, []), db\<lparr>cs_out := out\<rparr>)))"

section \<open>The decision\<close>

definition adapter_id :: "string \<Rightarrow> string \<Rightarrow> string" where
  "adapter_id key version = to_upper (trim_str key) @ '':'' @ to_upper (trim_str version)"

definition resolve_adapter :: "adapter list \<Rightarrow> string \<Rightarrow> string \<Rightarrow> lender_error + adapter" where
  "resolve_adapter adapters key version =
     (let err = (\<lambda>m. \<lparr>er_code = ''LENDER_ADAPTER_NOT_CONFIGURED'', er_message = m,
                 er_class = EC_AUTHENTICATION_CONFIGURATION, er_retryable = False\<rparr>) in
      if version = [] then Inl (err ''Adapter version is required.'')
      else case find_unique (\<lambda>d. adapter_id (ad_key d) (ad_version d)) (adapter_id key version) adapters of
             None \<Rightarrow> Inl (err (''No adapter is configured for '' @ key @ '':'' @ version @ ''.''))
           | Some d \<Rightarrow> Inr d)"

text \<open>What is thrown: an HTTP error or, by the registry, an error of the integration.\<close>

type_synonym failure = "http_error + lender_error"

definition decision_checks ::
  "(string \<Rightarrow> string) \<Rightarrow> adapter list \<Rightarrow> int \<Rightarrow> int \<Rightarrow> consent_db \<Rightarrow> failure + pl_application \<times> ident \<times> lender_link" where
  "decision_checks hash adapters applicationId version db =
     (let bad = (\<lambda>m. Inl (Inl (BadRequest m))) in
      case find_unique pa_id applicationId (ob_apps (cs_out db)) of
        None \<Rightarrow> bad ''Lender application link is missing.''
      | Some a \<Rightarrow>
          case (truthy_str (pa_lenderId a), find_unique lk_applicationId applicationId (ob_links (cs_out db))) of
            (Some l, Some k) \<Rightarrow>
              if \<not> acknowledged (lk_updateStatus k)
              then bad ''Lender UPDATE must be acknowledged before requesting a decision.''
              else if lk_updatePayloadVersion k < version
              then bad ''Lender UPDATE for this stage must be acknowledged before requesting a decision.''
              else
                (case map_of (cs_configs db) l of
                   None \<Rightarrow> bad ''Lender integration config not found.''
                 | Some (key, ver) \<Rightarrow>
                     (case resolve_adapter adapters key ver of
                        Inl e \<Rightarrow> Inl (Inr e)
                      | Inr d \<Rightarrow>
                          if \<not> ad_decisionRequest d \<and> \<not> ad_statusPolling d
                          then bad ''The selected lender adapter does not support decision request or status polling.''
                          else
                            (case List.find (\<lambda>ty. \<not> active_evidence hash ty applicationId db)
                                    [BUREAU_ENQUIRY, LENDER_CREDIT_ASSESSMENT, LENDER_DECISION_REQUEST] of
                               Some ty \<Rightarrow> bad (consent_name ty @ '' consent evidence is missing or invalid.'')
                             | None \<Rightarrow> Inr (a, l, k))))
          | _ \<Rightarrow> bad ''Lender application link is missing.'')"

definition decision_write ::
  "ident \<Rightarrow> pl_application \<Rightarrow> ident \<Rightarrow> lender_link \<Rightarrow> int \<Rightarrow> time \<Rightarrow> outbox_db \<Rightarrow> lender_event \<times> outbox_db" where
  "decision_write i a l k version now db =
     (let key = versioned_key (pa_number a) ''LENDER_REQUEST_DECISION'' version;
          (e, db1) = put_event (new_event i ''LENDER_REQUEST_DECISION'' a l ST_DECISION version key None now) db
      in (e, if lk_decisionPayloadVersion k \<le> version
             then db1\<lparr>ob_links := update_many (\<lambda>x. lk_applicationId x = pa_id a)
                    (\<lambda>x. x\<lparr>lk_decisionStatus := OP_PENDING, lk_decisionKey := Some key, lk_decisionPayloadVersion := version\<rparr>)
                    (ob_links db1)\<rparr>
             else db1))"

definition enqueueDecisionWhenReady ::
  "(string \<Rightarrow> string) \<Rightarrow> adapter list \<Rightarrow> ident \<Rightarrow> int \<Rightarrow> int \<Rightarrow> time \<Rightarrow> consent_db \<Rightarrow> (failure + lender_event) \<times> consent_db" where
  "enqueueDecisionWhenReady hash adapters i applicationId version now db =
     (case decision_checks hash adapters applicationId version db of
        Inl e \<Rightarrow> (Inl e, db)
      | Inr (a, l, k) \<Rightarrow>
          case decision_write i a l k version now (cs_out db) of (e, out) \<Rightarrow> (Inr e, db\<lparr>cs_out := out\<rparr>))"

text \<open>A submitted consent: its kind as the catalogue has it, template, version and text.\<close>

type_synonym submitted = "consent_type option \<times> string \<times> string \<times> string"

definition record_decision_consent ::
  "(string \<Rightarrow> string) \<Rightarrow> int \<Rightarrow> ident \<Rightarrow> string \<Rightarrow> string option \<Rightarrow> string option \<Rightarrow> time \<Rightarrow>
   http_error + stage_consent list \<Rightarrow> submitted \<Rightarrow> http_error + stage_consent list" where
  "record_decision_consent hash a l displayName ip agent now r s =
     (case r of
        Inl e \<Rightarrow> Inl e
      | Inr t \<Rightarrow>
          case s of (tyOpt, template, version, text) \<Rightarrow>
            case tyOpt of
              None \<Rightarrow> Inl (BadRequest ''Invalid consent evidence.'')
            | Some ty \<Rightarrow>
                if ty \<notin> {BUREAU_ENQUIRY, LENDER_CREDIT_ASSESSMENT, LENDER_DECISION_REQUEST}
                   \<or> template \<noteq> cd_templateId (CONSENT_CATALOGUE ty) \<or> version \<noteq> cd_version (CONSENT_CATALOGUE ty)
                   \<or> text \<noteq> consentTextFor ty displayName
                then Inl (BadRequest (''Invalid '' @ consent_name ty @ '' consent evidence.''))
                else
                  case upsert_stage (new_stage_consent hash a l ty template version text ip agent now) t of
                    (c, t') \<Rightarrow>
                      if sc_revokedAt c \<noteq> None
                      then Inl (BadRequest (consent_name ty @ '' consent was revoked and cannot be overwritten.''))
                      else Inr t')"

text \<open>An update that is not acknowledged yet is no error here.\<close>

definition decision_answer ::
  "(failure + lender_event) \<times> consent_db \<Rightarrow> (failure + lender_event option) \<times> consent_db" where
  "decision_answer r =
     (case r of (answer, db) \<Rightarrow>
        (case answer of
           Inr e \<Rightarrow> (Inr (Some e), db)
         | Inl (Inl (BadRequest m)) \<Rightarrow>
             if contains ''UPDATE must be acknowledged'' m then (Inr None, db) else (Inl (Inl (BadRequest m)), db)
         | Inl e \<Rightarrow> (Inl e, db)))"

definition recordDecisionConsents ::
  "(string \<Rightarrow> string) \<Rightarrow> string option \<Rightarrow> adapter list \<Rightarrow> (consent_type \<Rightarrow> ident) \<Rightarrow> ident \<Rightarrow> int \<Rightarrow> int \<Rightarrow> submitted list \<Rightarrow>
   string option \<Rightarrow> string option \<Rightarrow> time \<Rightarrow> consent_db \<Rightarrow> (failure + lender_event option) \<times> consent_db" where
  "recordDecisionConsents hash env adapters newId i customerId applicationId consents ip agent now db =
     (let bad = (\<lambda>m. (Inl (Inl (BadRequest m)), db)) in
      case find_unique pa_id applicationId (filter (\<lambda>a. pa_customerId a = customerId) (ob_apps (cs_out db))) of
        None \<Rightarrow> bad ''Allocated canonical application was not found.''
      | Some a \<Rightarrow>
          case truthy_str (pa_lenderId a) of
            None \<Rightarrow> bad ''Allocated canonical application was not found.''
          | Some l \<Rightarrow>
              case map_of (cs_lenders db) l of
                None \<Rightarrow> bad ''Allocated lender was not found.''
              | Some displayName \<Rightarrow>
                  if length consents \<noteq> 3 then bad ''All lender-decision consents are required.''
                  else
                    case foldl (record_decision_consent hash applicationId l displayName ip agent now) (Inr (cs_stage db)) consents of
                      Inl e \<Rightarrow> (Inl (Inl e), db)
                    | Inr t \<Rightarrow>
                        let db1 = snd (enqueueConsentSubmissions hash env newId applicationId now (db\<lparr>cs_stage := t\<rparr>))
                        in decision_answer (enqueueDecisionWhenReady hash adapters i applicationId 1 now db1))"

section \<open>Evidence is kept\<close>

text \<open>
  What the operations leave of the recorded consents: the old rows, in place, and new ones that
  are intact and not revoked.
\<close>

definition evidence_grows :: "(string \<Rightarrow> string) \<Rightarrow> stage_consent list \<Rightarrow> stage_consent list \<Rightarrow> bool" where
  "evidence_grows hash t t' \<longleftrightarrow>
     (\<exists>new. t' = t @ new \<and> (\<forall>c\<in>set new. isConsentEvidenceIntact hash c \<and> sc_revokedAt c = None))
     \<and> (unique_keys sc_key t \<longrightarrow> unique_keys sc_key t')"

lemma evidence_grows_refl [simp]: "evidence_grows hash t t"
  by (simp add: evidence_grows_def)

lemma evidence_grows_trans: "evidence_grows hash t u \<Longrightarrow> evidence_grows hash u v \<Longrightarrow> evidence_grows hash t v"
  unfolding evidence_grows_def by (elim conjE exE, intro conjI impI exI, simp only: append.assoc) auto

lemma new_stage_consent_intact:
  "isConsentEvidenceIntact hash (new_stage_consent hash a l ty template version text ip agent now)"
  "sc_revokedAt (new_stage_consent hash a l ty template version text ip agent now) = None"
  by (simp_all add: isConsentEvidenceIntact_def new_stage_consent_def)

lemma upsert_stage_grows:
  assumes "upsert_stage (new_stage_consent hash a l ty template version text ip agent now) t = (c, t')"
  shows "evidence_grows hash t t'"
proof (cases "find_unique sc_key (sc_key (new_stage_consent hash a l ty template version text ip agent now)) t")
  case None
  then have "sc_key (new_stage_consent hash a l ty template version text ip agent now) \<notin> sc_key ` set t"
    by (simp only: find_unique_None_iff simp_thms)
  with None assms show ?thesis
    by (auto simp: upsert_stage_def evidence_grows_def new_stage_consent_intact)
qed (use assms in \<open>simp add: upsert_stage_def\<close>)

lemma enqueueConsentSubmissions_stage [simp]:
  "cs_stage (snd (enqueueConsentSubmissions hash env newId i now db)) = cs_stage db"
  by (simp add: enqueueConsentSubmissions_def Let_def split: option.split prod.split)

lemma recordJourneyConsent_grows:
  "evidence_grows hash (cs_stage db) (cs_stage (snd (recordJourneyConsent hash env newId i ty ip agent defer now db)))"
  by (auto simp: recordJourneyConsent_def Let_def split: option.split prod.split dest: upsert_stage_grows)

lemma data_sharing_write_grows:
  "evidence_grows hash (cs_stage db) (cs_stage (snd (data_sharing_write hash a l t v r x ip agent now db)))"
  by (auto simp: data_sharing_write_def Let_def split: prod.split dest: upsert_stage_grows)

lemma recordDataSharingConsent_grows:
  "evidence_grows hash (cs_stage db)
     (cs_stage (snd (recordDataSharingConsent hash envs customer i t v x ip agent now db)))"
  by (simp add: recordDataSharingConsent_def Let_def data_sharing_write_grows split: option.split prod.split)

lemma record_decision_consent_grows:
  "record_decision_consent hash a l name ip agent now (Inr t) s = Inr t' \<Longrightarrow> evidence_grows hash t t'"
  by (auto simp: record_decision_consent_def split: prod.splits option.splits if_splits dest: upsert_stage_grows)

lemma record_decision_consents_grow:
  "foldl (record_decision_consent hash a l name ip agent now) (Inr t) cs = Inr t' \<Longrightarrow> evidence_grows hash t t'"
proof (induction cs arbitrary: t)
  case (Cons c cs)
  have err: "foldl (record_decision_consent hash a l name ip agent now) (Inl e) cs = Inl e" for e
    by (induction cs) (simp_all add: record_decision_consent_def)
  obtain u where u: "record_decision_consent hash a l name ip agent now (Inr t) c = Inr u"
    using Cons.prems err by (cases "record_decision_consent hash a l name ip agent now (Inr t) c") simp_all
  with Cons.prems have "foldl (record_decision_consent hash a l name ip agent now) (Inr u) cs = Inr t'" by simp
  from evidence_grows_trans [OF record_decision_consent_grows [OF u] Cons.IH [OF this]] show ?case .
qed simp

lemma enqueueDecisionWhenReady_stage [simp]:
  "cs_stage (snd (enqueueDecisionWhenReady hash adapters i a v now db)) = cs_stage db"
  by (simp add: enqueueDecisionWhenReady_def split: sum.split prod.split)

lemma snd_decision_answer [simp]: "snd (decision_answer r) = snd r"
  by (auto simp: decision_answer_def split: prod.split sum.split http_error.split)

lemma recordDecisionConsents_grows:
  "evidence_grows hash (cs_stage db)
     (cs_stage (snd (recordDecisionConsents hash env adapters newId i customer a cs ip agent now db)))"
  by (auto simp: recordDecisionConsents_def Let_def split: option.split sum.split dest: record_decision_consents_grow)

text \<open>Any of the operations, by any customer, at any time.\<close>

inductive consent_step :: "(string \<Rightarrow> string) \<Rightarrow> consent_db \<Rightarrow> consent_db \<Rightarrow> bool" for hash where
  journey: "consent_step hash db (snd (recordJourneyConsent hash env newId i ty ip agent defer now db))"
| sharing: "consent_step hash db (snd (recordDataSharingConsent hash envs customer i t v x ip agent now db))"
| decision: "consent_step hash db (snd (recordDecisionConsents hash env adapters newId i customer a cs ip agent now db))"
| submissions: "consent_step hash db (snd (enqueueConsentSubmissions hash env newId i now db))"
| others: "cs_stage db' = cs_stage db \<Longrightarrow> consent_step hash db db'"

lemma consent_step_grows: "consent_step hash db db' \<Longrightarrow> evidence_grows hash (cs_stage db) (cs_stage db')"
  by (induction rule: consent_step.induct)
    (simp_all add: recordJourneyConsent_grows recordDataSharingConsent_grows recordDecisionConsents_grows)

text \<open>
  C28. Consents are evidence: whatever is recorded later, by whomever, every consent stays as it was
  first given; there is one per application, lender, kind and version, and its text matches its hash.
\<close>

theorem consent_evidence_kept:
  assumes "(consent_step hash)\<^sup>*\<^sup>* db db'" and "unique_keys sc_key (cs_stage db)"
    and "\<forall>c\<in>set (cs_stage db). isConsentEvidenceIntact hash c"
  shows "take (length (cs_stage db)) (cs_stage db') = cs_stage db \<and> unique_keys sc_key (cs_stage db')
    \<and> (\<forall>c\<in>set (cs_stage db'). isConsentEvidenceIntact hash c)"
proof -
  have "evidence_grows hash (cs_stage db) (cs_stage db')"
    using assms(1) by induction (auto intro: evidence_grows_trans consent_step_grows)
  with assms(2,3) show ?thesis by (auto simp: evidence_grows_def)
qed


section \<open>An example\<close>

definition demo_application :: pl_application where
  "demo_application = (new_application 7 1 ''APP-7'' (Some ''PL'') (Some ''S'') 0)
     \<lparr>pa_status := A_ASSESSMENT_FEE_PAID, pa_lenderId := Some ''L'', pa_allocationId := Some ''al'',
      pa_lenderProductId := Some ''p'', pa_productVersionId := Some ''v''\<rparr>"

definition demo_lender_link :: lender_link where
  "demo_lender_link =
     \<lparr>lk_applicationId = 7, lk_partnerApplicationId = Some ''P'', lk_createStatus = OP_COMPLETED,
      lk_consentStatus = OP_COMPLETED, lk_updateStatus = OP_COMPLETED, lk_decisionStatus = OP_COMPLETED,
      lk_updateKey = None, lk_decisionKey = None, lk_updatePayloadVersion = 1, lk_decisionPayloadVersion = 1,
      lk_normalizedDecision = Some ''PENDING'', lk_rejectionReasonCode = None, lk_lastAttemptAt = None,
      lk_lastSuccessAt = None, lk_errorCode = None, lk_errorMessage = None\<rparr>"

definition demo_consents :: consent_db where
  "demo_consents =
     \<lparr>cs_out = \<lparr>ob_events = [], ob_links = [demo_lender_link], ob_apps = [demo_application], ob_loans = [],
                ob_transfers = [], ob_onboarding = []\<rparr>,
      cs_stage = [], cs_data = [], cs_lenders = [(''L'', ''Lender'')],
      cs_allocations = [\<lparr>al_id = ''al'', al_assigned = True, al_lenderId = ''L'', al_productId = ''p'', al_productVersionId = ''v''\<rparr>],
      cs_feePaid = [7], cs_links = [], cs_employment = [], cs_kyc = [], cs_liveness = [], cs_addresses = [],
      cs_configs = [(''L'', ''fintree'', ''v1'')]\<rparr>"

definition demo_adapters :: "adapter list" where
  "demo_adapters = [\<lparr>ad_key = ''FINTREE'', ad_version = ''V1'', ad_decisionRequest = True, ad_statusPolling = False\<rparr>]"

definition demo_submitted :: "submitted list" where
  "demo_submitted = map (\<lambda>ty. (Some ty, cd_templateId (CONSENT_CATALOGUE ty), cd_version (CONSENT_CATALOGUE ty), consentTextFor ty ''Lender''))
     [BUREAU_ENQUIRY, LENDER_CREDIT_ASSESSMENT, LENDER_DECISION_REQUEST]"

definition demo_after :: consent_db where
  "demo_after = snd (recordDecisionConsents id None demo_adapters consent_name ''e1'' 1 7 demo_submitted None None 5 demo_consents)"

definition demo_shared :: consent_db where
  "demo_shared = snd (recordDataSharingConsent id (None, None, None) 1 7 (Some ''LENDER_DATA_SHARING_V1'') (Some ''1.0'')
     (Some (consentTextFor DATA_SHARING ''Lender'')) None None 3 demo_consents)"

theorem consent_evidence_kept_witness:
  "length (cs_stage demo_after) = 3
   \<and> take 3 (cs_stage (snd (recordJourneyConsent id None consent_name 7 BUREAU_ENQUIRY None None False 99 demo_after)))
       = cs_stage demo_after"
proof -
  have s: "(consent_step id)\<^sup>*\<^sup>* demo_after (snd (recordJourneyConsent id None consent_name 7 BUREAU_ENQUIRY None None False 99 demo_after))"
    by (rule r_into_rtranclp) (rule consent_step.journey)
  have l: "length (cs_stage demo_after) = 3" by code_simp
  have u: "unique_keys sc_key (cs_stage demo_after)" unfolding unique_keys_def by code_simp
  have i: "list_all (isConsentEvidenceIntact id) (cs_stage demo_after)" by code_simp
  from consent_evidence_kept [OF s u] i l show ?thesis by (simp add: list_all_iff)
qed

section \<open>Keys, gates and regressions\<close>

text \<open>
  The key of a consent's submission tells its kind, and it ends as the lender's own check wants:
  with the suffix of the kind, or the default one.
\<close>

theorem consent_keys:
  "(consentIdempotencyKey reference s = consentIdempotencyKey reference t) = (s = t)
   \<and> suffix (case CONSENT_TYPE_SUFFIX t of Some x \<Rightarrow> x | None \<Rightarrow> DEFAULT_CONSENT_SUFFIX) (consentIdempotencyKey reference t)"
proof
  show "(consentIdempotencyKey reference s = consentIdempotencyKey reference t) = (s = t)"
    by (cases s; cases t) (simp_all add: consentIdempotencyKey_def DEFAULT_CONSENT_SUFFIX_def)
  show "suffix (case CONSENT_TYPE_SUFFIX t of Some x \<Rightarrow> x | None \<Rightarrow> DEFAULT_CONSENT_SUFFIX) (consentIdempotencyKey reference t)"
    by (cases t) (auto simp: consentIdempotencyKey_def suffix_def)
qed

text \<open>
  C29. No decision is asked of a lender without the customer's leave: a decision is queued only after
  an acknowledged update of at least that version, and with all three consents given, not revoked
  and intact.
\<close>

theorem decision_needs_consents:
  assumes "enqueueDecisionWhenReady hash adapters i applicationId version now db = (Inr e, db')"
  shows "active_evidence hash BUREAU_ENQUIRY applicationId db \<and> active_evidence hash LENDER_CREDIT_ASSESSMENT applicationId db
    \<and> active_evidence hash LENDER_DECISION_REQUEST applicationId db
    \<and> (\<exists>k. find_unique lk_applicationId applicationId (ob_links (cs_out db)) = Some k
         \<and> acknowledged (lk_updateStatus k) \<and> version \<le> lk_updatePayloadVersion k)"
proof -
  from assms obtain r where "decision_checks hash adapters applicationId version db = Inr r"
    by (auto simp: enqueueDecisionWhenReady_def split: sum.splits)
  then show ?thesis
    by (auto simp: decision_checks_def Let_def split: option.splits if_splits sum.splits prod.splits)
qed

theorem decision_needs_consents_witness:
  "fst (enqueueDecisionWhenReady id demo_adapters ''e2'' 7 1 9 demo_after) = Inr (ob_events (cs_out demo_after) ! 0)
   \<and> active_evidence id LENDER_DECISION_REQUEST 7 demo_after"
proof -
  have r: "fst (enqueueDecisionWhenReady id demo_adapters ''e2'' 7 1 9 demo_after) = Inr (ob_events (cs_out demo_after) ! 0)"
    by code_simp
  then have "enqueueDecisionWhenReady id demo_adapters ''e2'' 7 1 9 demo_after
      = (Inr (ob_events (cs_out demo_after) ! 0), snd (enqueueDecisionWhenReady id demo_adapters ''e2'' 7 1 9 demo_after))"
    by (metis prod.collapse)
  from decision_needs_consents [OF this] r show ?thesis by simp
qed

text \<open>What the checks before the CREATE event establish.\<close>

lemma latest_data_consent_Some:
  assumes "latest_data_consent P t = Some c"
  shows "c \<in> set t \<and> P c \<and> dc_revokedAt c = None"
proof -
  from assms obtain r where "sort_key (\<lambda>c. - dc_acceptedAt c) (filter (\<lambda>c. P c \<and> dc_revokedAt c = None) t) = c # r"
    by (auto simp: latest_data_consent_def split: list.splits)
  then have "c \<in> set (sort_key (\<lambda>c. - dc_acceptedAt c) (filter (\<lambda>c. P c \<and> dc_revokedAt c = None) t))" by simp
  then show ?thesis by simp
qed

definition create_ready :: "(string \<Rightarrow> string) \<Rightarrow> int \<Rightarrow> consent_db \<Rightarrow> pl_application \<Rightarrow> allocation_row \<Rightarrow> data_consent \<Rightarrow> bool" where
  "create_ready hash i db a al c \<longleftrightarrow>
     find_unique pa_id i (ob_apps (cs_out db)) = Some a \<and> pa_status a = A_ASSESSMENT_FEE_PAID \<and> i \<in> set (cs_feePaid db)
     \<and> al \<in> set (cs_allocations db) \<and> pa_allocationId a = Some (al_id al) \<and> allocation_matches a al
     \<and> c \<in> set (cs_data db) \<and> dc_applicationId c = i \<and> Some (dc_lenderId c) = pa_lenderId a
     \<and> dc_revokedAt c = None \<and> hash (dc_text c) = dc_textHash c"

lemma create_checks_Inr:
  assumes "create_checks hash i db = Inr (a, l)"
  shows "\<exists>al c. create_ready hash i db a al c"
proof -
  from assms obtain al c where
    "find_unique pa_id i (ob_apps (cs_out db)) = Some a" "pa_status a = A_ASSESSMENT_FEE_PAID" "i \<in> set (cs_feePaid db)"
    "\<exists>x. truthy_str (pa_allocationId a) = Some x \<and> find_unique al_id x (cs_allocations db) = Some al"
    "allocation_matches a al" "truthy_str (pa_lenderId a) = Some l"
    "latest_data_consent (\<lambda>c. dc_applicationId c = i \<and> dc_lenderId c = l) (cs_data db) = Some c"
    "hash (dc_text c) = dc_textHash c"
    by (auto simp: create_checks_def split: option.splits if_splits prod.splits)
  then show ?thesis
    unfolding create_ready_def by (auto simp: truthy_str_Some dest!: latest_data_consent_Some find_unique_Some_D)
qed

lemma put_event_apps [simp]: "ob_apps (snd (put_event e db)) = ob_apps db"
  by (simp add: put_event_def split: prod.split)

text \<open>
  The application goes to the lender only when paid and consented: the CREATE event is queued
  only for an application whose fee is paid, whose allocation is an assigned one of the same lender,
  product and version, and whose data-sharing consent is in force and intact; then it has its LAN.
\<close>

theorem create_event_checked:
  assumes "enqueueCreateAfterVerifiedPayment hash i applicationId now db = (Inr e, db')"
  shows "(\<exists>a al c. create_ready hash applicationId db a al c)
    \<and> (\<exists>a'. find_unique pa_id applicationId (ob_apps (cs_out db')) = Some a' \<and> text_given (pa_platformLan a'))"
proof -
  from assms obtain a l where c: "create_checks hash applicationId db = Inr (a, l)"
    by (auto simp: enqueueCreateAfterVerifiedPayment_def split: sum.splits)
  let ?out = "if truthy_str (pa_platformLan a) = None
      then (cs_out db)\<lparr>ob_apps := update_many (\<lambda>x. pa_id x = applicationId \<and> pa_platformLan x = None)
             (\<lambda>x. x\<lparr>pa_platformLan := Some (generated_lan applicationId), pa_updatedAt := now\<rparr>) (ob_apps (cs_out db))\<rparr>
      else cs_out db"
  let ?e = "new_event i ''LENDER_CREATE_APPLICATION'' a l ST_CREATE 1 (versioned_key (pa_number a) ''LENDER_CREATE_APPLICATION'' 1) None now"
  from assms c obtain a' lan where a': "find_unique pa_id applicationId (ob_apps ?out) = Some a'"
    "truthy_str (pa_platformLan a') = Some lan" and db': "db' = db\<lparr>cs_out := snd (put_event ?e ?out)\<rparr>"
    by (simp add: enqueueCreateAfterVerifiedPayment_def Let_def split: option.splits prod.splits del: put_event_apps)
  have "ob_apps (cs_out db') = ob_apps ?out" by (simp add: db')
  with a' create_checks_Inr [OF c] show ?thesis by (metis text_given_def option.discI)
qed

theorem create_event_checked_witness:
  "map le_key (ob_events (cs_out (snd (enqueueCreateAfterVerifiedPayment id ''e'' 7 9 demo_shared))))
     = [''APP-7:LENDER_CREATE_APPLICATION:V1'']
   \<and> (\<exists>a al c. create_ready id 7 demo_shared a al c)"
proof -
  let ?r = "enqueueCreateAfterVerifiedPayment id ''e'' 7 9 demo_shared"
  have k: "map le_key (ob_events (cs_out (snd ?r))) = [''APP-7:LENDER_CREATE_APPLICATION:V1'']" by code_simp
  have "isl (fst ?r) = False" by code_simp
  then have "?r = (Inr (projr (fst ?r)), snd ?r)" by (metis prod.collapse sum.collapse(2))
  from create_event_checked [OF this] k show ?thesis by blast
qed

text \<open>
  A decision that is done looks undone again: asking for a decision that was already delivered
  queues nothing, but sets the decision's status on the link back to PENDING.
\<close>

theorem decision_status_regresses:
  assumes "decision_checks hash adapters applicationId version db = Inr (a, l, k)" and "lk_decisionPayloadVersion k \<le> version"
    and "unique_keys le_key (ob_events (cs_out db))" and "e \<in> set (ob_events (cs_out db))"
    and "le_key e = versioned_key (pa_number a) ''LENDER_REQUEST_DECISION'' version"
    and "enqueueDecisionWhenReady hash adapters i applicationId version now db = (r, db')"
    and "k' \<in> set (ob_links (cs_out db'))" and "lk_applicationId k' = pa_id a"
  shows "r = Inr e \<and> ob_events (cs_out db') = ob_events (cs_out db) \<and> lk_decisionStatus k' = OP_PENDING"
proof -
  have put: "put_event (new_event i ''LENDER_REQUEST_DECISION'' a l ST_DECISION version (le_key e) None now) (cs_out db)
      = (e, cs_out db)"
    using find_unique_in_set [OF assms(3,4)] by (simp add: put_event_def upsert_event_def new_event_def)
  have w: "decision_write i a l k version now (cs_out db)
      = (e, (cs_out db)\<lparr>ob_links := update_many (\<lambda>x. lk_applicationId x = pa_id a)
           (\<lambda>x. x\<lparr>lk_decisionStatus := OP_PENDING, lk_decisionKey := Some (le_key e), lk_decisionPayloadVersion := version\<rparr>)
           (ob_links (cs_out db))\<rparr>)"
    using put assms(2) by (simp add: decision_write_def Let_def flip: assms(5))
  have r: "r = Inr e" and db': "db' = db\<lparr>cs_out := (cs_out db)\<lparr>ob_links := update_many (\<lambda>x. lk_applicationId x = pa_id a)
           (\<lambda>x. x\<lparr>lk_decisionStatus := OP_PENDING, lk_decisionKey := Some (le_key e), lk_decisionPayloadVersion := version\<rparr>)
           (ob_links (cs_out db))\<rparr>\<rparr>"
    using assms(1,6) by (simp_all add: enqueueDecisionWhenReady_def w)
  from assms(7,8) have "lk_decisionStatus k' = OP_PENDING" unfolding db' by (auto elim!: update_many_obtain)
  then show ?thesis by (simp add: r db')
qed

theorem decision_status_regresses_witness:
  "map lk_decisionStatus (ob_links (cs_out (snd (enqueueDecisionWhenReady id demo_adapters ''e2'' 7 1 99 demo_after)))) = [OP_PENDING]"
proof -
  let ?r = "enqueueDecisionWhenReady id demo_adapters ''e2'' 7 1 99 demo_after"
  have c: "decision_checks id demo_adapters 7 1 demo_after = Inr (demo_application, ''L'', ob_links (cs_out demo_after) ! 0)" by code_simp
  have v: "lk_decisionPayloadVersion (ob_links (cs_out demo_after) ! 0) \<le> 1" by code_simp
  have u: "unique_keys le_key (ob_events (cs_out demo_after))" unfolding unique_keys_def by code_simp
  have m: "ob_events (cs_out demo_after) ! 0 \<in> set (ob_events (cs_out demo_after))" by code_simp
  have k: "le_key (ob_events (cs_out demo_after) ! 0) = versioned_key (pa_number demo_application) ''LENDER_REQUEST_DECISION'' 1" by code_simp
  have l: "length (ob_links (cs_out (snd ?r))) = 1" "lk_applicationId (ob_links (cs_out (snd ?r)) ! 0) = pa_id demo_application" by code_simp+
  then have "ob_links (cs_out (snd ?r)) ! 0 \<in> set (ob_links (cs_out (snd ?r)))" by simp
  from decision_status_regresses [OF c v u m k surjective_pairing [of "?r"] this l(2)] l(1) show ?thesis
    by (cases "ob_links (cs_out (snd ?r))") auto
qed

text \<open>
  The number of a loan is its application's: the LAN made for an application reads back as the
  application's id, so no two applications get the same.
\<close>

theorem lan_roundtrip:
  assumes "0 \<le> i"
  shows "digits_value (drop 4 (generated_lan i)) = i"
proof -
  have "foldl (\<lambda>n c. 10 * n + (of_char c - 48)) 0 (replicate k (CHR ''0'')) = (0 :: int)" for k
    by (induction k) simp_all
  then have "digits_value (pad_start n (CHR ''0'') s) = digits_value s" for n s
    by (simp add: pad_start_def digits_value_def)
  then show ?thesis using assms by (simp add: generated_lan_def show_int_def digits_value_show_nat)
qed

theorem lan_roundtrip_witness: "generated_lan 42 = ''FTPL00000042'' \<and> digits_value (drop 4 (generated_lan 42)) = 42"
proof -
  have "generated_lan 42 = ''FTPL00000042''" by code_simp
  with lan_roundtrip [of 42] show ?thesis by simp
qed

end
