(* ===== verification/LenderDecisions.thy ===== *)
theory LenderDecisions
  imports LenderConsents Repayments
begin

text \<open>
  What a lender's decision does to the application
  (modules/lender-integrations/lender-decision-processor.service.ts), and the internal review
  that approves or rejects what the lender approved finally (modules/credit-review/credit-review.service.ts).

  Two more ways to reject are here because they end what the decisions began: the lender's
  rejection webhook (modules/loan/loan.service.ts) and a bank account in another name
  (modules/external-api/external-api.service.ts).

  Each operation is one transaction, but its reads take no lock and its writes go by id alone, so
  the operations below are those of requests served one after another; what an overlap does is
  shown by \<open>stale_approval_overrides\<close>. How a text is read as an amount or a date is the parameter
  \<open>dec\<close> or \<open>date\<close>. Columns that only echo the lender's answer, and the KYC and address columns
  copied onto a new loan, are left out, and so are the messages sent after the transaction.
\<close>

section \<open>Data\<close>

datatype decision = D_APPROVED | D_REJECTED | D_PENDING | D_OTHER

record decision_result =
  dr_decision :: decision
  dr_reference :: string
  dr_approvedAmount :: "string option"
  dr_approvedRoi :: "string option"
  dr_rejectionReasonCode :: "string option"
  dr_coolingOffDays :: "int option"
  dr_nextStatusCheckAt :: "string option"

record new_loan =
  nl_lan :: string
  nl_customerId :: int
  nl_applicationId :: int
  nl_approvedAmount :: rat
  nl_tenureDays :: int
  nl_interestRate :: rat
  nl_processingFee :: int
  nl_totalRepayment :: rat
  nl_lenderApprovedAt :: time

record product_pricing =
  pp_id :: ident
  pp_annualRoiPercent :: rat
  pp_processingFeePercent :: rat

record review_db =
  rv_out :: outbox_db
  rv_loans :: "new_loan list"
  rv_versions :: "product_pricing list"

section \<open>A decision of the lender\<close>

definition is_final :: "lender_link \<Rightarrow> bool" where
  "is_final k \<longleftrightarrow> 2 \<le> lk_decisionPayloadVersion k"

definition already_resolved :: "bool \<Rightarrow> app_status \<Rightarrow> bool" where
  "already_resolved final s \<longleftrightarrow>
     (if final then s \<in> {A_PENDING_CREDIT_REVIEW, A_LENDER_APPROVED, A_LENDER_REJECTED, A_LOAN_CLOSED}
      else s \<in> {A_LENDER_PRE_APPROVED, A_LENDER_REJECTED})"

definition lender_failure :: "string \<Rightarrow> string \<Rightarrow> error_class \<Rightarrow> bool \<Rightarrow> thrown" where
  "lender_failure code message cls retryable =
     T_Lender \<lparr>er_code = code, er_message = message, er_class = cls, er_retryable = retryable\<rparr>"

definition set_application :: "int \<Rightarrow> (pl_application \<Rightarrow> pl_application) \<Rightarrow> time \<Rightarrow> outbox_db \<Rightarrow> outbox_db" where
  "set_application i f now db =
     db\<lparr>ob_apps := update_many (\<lambda>a. pa_id a = i) (\<lambda>a. (f a)\<lparr>pa_updatedAt := now\<rparr>) (ob_apps db)\<rparr>"

definition set_link :: "int \<Rightarrow> (lender_link \<Rightarrow> lender_link) \<Rightarrow> outbox_db \<Rightarrow> outbox_db" where
  "set_link i f db = db\<lparr>ob_links := update_many (\<lambda>k. lk_applicationId k = i) f (ob_links db)\<rparr>"

definition set_onboarding :: "int \<Rightarrow> string \<Rightarrow> outbox_db \<Rightarrow> outbox_db" where
  "set_onboarding customer status db =
     db\<lparr>ob_onboarding := update_many (\<lambda>c. fst c = customer) (\<lambda>c. (fst c, status)) (ob_onboarding db)\<rparr>"

definition link_decided :: "string \<Rightarrow> string option \<Rightarrow> time \<Rightarrow> lender_link \<Rightarrow> lender_link" where
  "link_decided outcome reason now k =
     k\<lparr>lk_normalizedDecision := Some outcome, lk_decisionStatus := OP_COMPLETED, lk_lastSuccessAt := Some now,
       lk_errorCode := None, lk_errorMessage := None, lk_rejectionReasonCode := reason\<rparr>"

definition apply_preapproval :: "pl_application \<Rightarrow> decision_result \<Rightarrow> rat \<Rightarrow> time \<Rightarrow> outbox_db \<Rightarrow> outbox_db" where
  "apply_preapproval a r amount now db =
     set_onboarding (pa_customerId a) ''LENDER_PRE_APPROVED''
       (set_application (pa_id a)
         (\<lambda>x. x\<lparr>pa_status := A_LENDER_PRE_APPROVED, pa_lenderDecisionReference := Some (dr_reference r),
            pa_lenderDecisionAt := Some now, pa_lenderApprovedAmount := Some amount, pa_lenderDecisionReason := None,
            pa_lenderCoolingOffDays := None, pa_lenderCoolingOffUntil := None, pa_lenderNextStatusCheckAt := None\<rparr>) now
         (set_link (pa_id a) (link_decided ''APPROVED'' None now) db))"

definition apply_final_approval ::
  "pl_application \<Rightarrow> decision_result \<Rightarrow> rat option \<Rightarrow> rat option \<Rightarrow> time \<Rightarrow> outbox_db \<Rightarrow> outbox_db" where
  "apply_final_approval a r roi amount now db =
     set_onboarding (pa_customerId a) ''PENDING_CREDIT_REVIEW''
       (set_application (pa_id a)
         (\<lambda>x. x\<lparr>pa_status := A_PENDING_CREDIT_REVIEW, pa_lenderDecisionReference := Some (dr_reference r),
            pa_lenderDecisionAt := Some now,
            pa_lenderApprovedRoi := (case roi of Some v \<Rightarrow> Some v | None \<Rightarrow> pa_lenderApprovedRoi x),
            pa_approvedAmount := (case amount of Some v \<Rightarrow> Some v | None \<Rightarrow> pa_approvedAmount x),
            pa_lenderDecisionReason := None\<rparr>) now
         (set_link (pa_id a) (link_decided ''APPROVED'' None now) db))"

definition reject_reason :: "decision_result \<Rightarrow> string" where
  "reject_reason r =
     (case truthy_str (map_option (take 100) (dr_rejectionReasonCode r)) of
        Some s \<Rightarrow> s | None \<Rightarrow> ''Application did not meet lender criteria.'')"

definition apply_rejection :: "pl_application \<Rightarrow> decision_result \<Rightarrow> time \<Rightarrow> outbox_db \<Rightarrow> outbox_db" where
  "apply_rejection a r now db =
     (let days = max 0 (case dr_coolingOffDays r of Some d \<Rightarrow> d | None \<Rightarrow> 0);
          until = (if days \<noteq> 0 then Some (now + days * DAY_MS) else None)
      in set_onboarding (pa_customerId a) ''LENDER_REJECTED''
           (set_application (pa_id a)
             (\<lambda>x. x\<lparr>pa_status := A_LENDER_REJECTED, pa_lenderDecisionReference := Some (dr_reference r),
                pa_lenderDecisionAt := Some now, pa_lenderDecisionReason := Some ''Application did not meet lender criteria.'',
                pa_lenderCoolingOffDays := Some days, pa_lenderCoolingOffUntil := until,
                pa_lenderNextStatusCheckAt := None\<rparr>) now
             (set_link (pa_id a) (link_decided ''REJECTED'' (Some (reject_reason r)) now) db)))"

text \<open>A pending decision: the next poll gets the next version of the poll, at most five of them.\<close>

definition poll_version :: "lender_event \<Rightarrow> int" where
  "poll_version e = (if le_stage e = ST_STATUS then le_payloadVersion e + 1 else 1)"

definition poll_event :: "ident \<Rightarrow> pl_application \<Rightarrow> lender_event \<Rightarrow> time \<Rightarrow> time \<Rightarrow> lender_event" where
  "poll_event newId a e next' now =
     (new_event newId ''LENDER_STATUS_CHECK'' a (case pa_lenderId a of Some l \<Rightarrow> l | None \<Rightarrow> []) ST_STATUS (poll_version e)
       (versioned_key (pa_number a) ''LENDER_STATUS_CHECK'' (poll_version e)) None now)\<lparr>le_availableAt := next'\<rparr>"

definition apply_pending ::
  "ident \<Rightarrow> bool \<Rightarrow> bool \<Rightarrow> lender_event \<Rightarrow> pl_application \<Rightarrow> decision_result \<Rightarrow> time \<Rightarrow> time \<Rightarrow> outbox_db \<Rightarrow> outbox_db" where
  "apply_pending newId canPoll final e a r next' now db =
     (let db1 = set_link (pa_id a) (\<lambda>k. k\<lparr>lk_normalizedDecision := Some ''PENDING'', lk_decisionStatus := OP_ACKNOWLEDGED,
              lk_lastSuccessAt := Some now, lk_errorCode := None, lk_errorMessage := None\<rparr>) db;
          db2 = set_application (pa_id a)
            (\<lambda>x. x\<lparr>pa_status := (if final then pa_status x else A_LENDER_REVIEW),
               pa_lenderDecisionReference := Some (dr_reference r), pa_lenderDecisionAt := Some now,
               pa_lenderNextStatusCheckAt := Some next'\<rparr>) now db1
      in if canPoll \<and> poll_version e \<le> 5 then snd (put_event (poll_event newId a e next' now) db2) else db2)"

text \<open>\<open>process\<close> up to the completion of the event: what the decision does, or the error it throws.\<close>

definition apply_decision ::
  "(string \<Rightarrow> rat option) \<Rightarrow> (string \<Rightarrow> time option) \<Rightarrow> product_pricing list \<Rightarrow> ident \<Rightarrow> bool \<Rightarrow> lender_event \<Rightarrow>
   pl_application \<Rightarrow> lender_link \<Rightarrow> decision_result \<Rightarrow> time \<Rightarrow> outbox_db \<Rightarrow> thrown + outbox_db" where
  "apply_decision dec date versions newId canPoll e a k r now db =
     (let permanent = (\<lambda>c m. Inl (lender_failure c m EC_PERMANENT_VALIDATION False));
          bad_decimal = Inl (T_Other None None ''DecimalError'') in
      case dr_decision r of
        D_APPROVED \<Rightarrow>
          if \<not> is_final k then
            (case truthy_str (dr_approvedAmount r) of
               None \<Rightarrow> permanent ''LENDER_APPROVAL_TERMS_MISSING'' ''An approved credit limit is required for a pre-approval decision.''
             | Some s \<Rightarrow> (case dec s of None \<Rightarrow> bad_decimal | Some x \<Rightarrow> Inr (apply_preapproval a r x now db)))
          else
            if pa_selectedAmount a = None \<or> pa_selectedTenure a \<in> {None, Some 0}
            then permanent ''LENDER_APPROVAL_TERMS_MISSING'' ''A customer-selected amount and tenure are required before finalizing approval.''
            else
              let roi = (case truthy_str (dr_approvedRoi r) of
                    Some s \<Rightarrow> Some (dec s)
                  | None \<Rightarrow>
                      (case truthy_str (pa_productVersionId a) of
                         None \<Rightarrow> None
                       | Some v \<Rightarrow> map_option (\<lambda>p. Some (pp_annualRoiPercent p)) (find_unique pp_id v versions)));
                  amount = map_option dec (truthy_str (dr_approvedAmount r))
              in if roi = Some None \<or> amount = Some None then bad_decimal
                 else Inr (apply_final_approval a r (Option.bind roi id) (Option.bind amount id) now db)
      | D_REJECTED \<Rightarrow> Inr (apply_rejection a r now db)
      | D_PENDING \<Rightarrow>
          (case (case truthy_str (dr_nextStatusCheckAt r) of Some s \<Rightarrow> date s | None \<Rightarrow> Some (now + 5 * 60 * 1000)) of
             None \<Rightarrow> permanent ''LENDER_PENDING_DATE_INVALID'' ''Lender pending response contained an invalid next status time.''
           | Some next' \<Rightarrow> Inr (apply_pending newId canPoll (is_final k) e a r next' now db))
      | D_OTHER \<Rightarrow> permanent ''LENDER_DECISION_UNSUPPORTED'' ''Lender decision was not APPROVED, REJECTED or PENDING.'')"


text \<open>A rejection to report to the loan system.\<close>

record rejection_notice =
  rn_lan :: string
  rn_reason :: string
  rn_lenderId :: "ident option"
  rn_applicationId :: int

definition rejection_of :: "pl_application \<Rightarrow> decision_result \<Rightarrow> rejection_notice option" where
  "rejection_of a r =
     (if dr_decision r = D_REJECTED
      then Some \<lparr>rn_lan = (case truthy_str (pa_platformLan a) of Some l \<Rightarrow> l | None \<Rightarrow> pa_number a),
                 rn_reason = reject_reason r, rn_lenderId = truthy_str (pa_lenderId a), rn_applicationId = pa_id a\<rparr>
      else None)"

definition completeEvent :: "ident \<Rightarrow> string \<Rightarrow> time \<Rightarrow> outbox_db \<Rightarrow> thrown + outbox_db" where
  "completeEvent i lockToken now db =
     (case complete_event i (Some lockToken) now (ob_events db) of
        (n, t) \<Rightarrow>
          if n \<noteq> 1 then Inl (lender_failure ''LENDER_EVENT_LEASE_LOST'' ''Lender event lease was lost before decision completion.'' EC_TEMPORARY True)
          else Inr (db\<lparr>ob_events := t\<rparr>))"

definition process_decision ::
  "(string \<Rightarrow> rat option) \<Rightarrow> (string \<Rightarrow> time option) \<Rightarrow> product_pricing list \<Rightarrow> ident \<Rightarrow> ident \<Rightarrow> string \<Rightarrow> string \<Rightarrow>
   decision_result \<Rightarrow> bool \<Rightarrow> time \<Rightarrow> outbox_db \<Rightarrow> (thrown + rejection_notice option) \<times> outbox_db" where
  "process_decision dec date versions newId eventId lockToken partnerApplicationId r canPoll now db =
     (case List.find (owned eventId (Some lockToken)) (ob_events db) of
        None \<Rightarrow> (Inl (lender_failure ''LENDER_EVENT_LEASE_LOST'' ''Lender event lease is no longer owned by this worker.'' EC_TEMPORARY True), db)
      | Some e \<Rightarrow>
          case (find_unique pa_id (le_applicationId e) (ob_apps db), find_unique lk_applicationId (le_applicationId e) (ob_links db)) of
            (Some a, Some k) \<Rightarrow>
              if lk_partnerApplicationId k \<noteq> Some partnerApplicationId
              then (Inl (lender_failure ''LENDER_DECISION_REFERENCE_MISMATCH'' ''Lender decision does not match the persisted partner application.'' EC_PERMANENT_VALIDATION False), db)
              else
                let (decided, notice) =
                      (if already_resolved (is_final k) (pa_status a) then (Inr db, None)
                       else (apply_decision dec date versions newId canPoll e a k r now db, rejection_of a r))
                in (case decided of
                      Inl err \<Rightarrow> (Inl err, db)
                    | Inr d \<Rightarrow>
                        (case completeEvent eventId lockToken now d of
                           Inl err \<Rightarrow> (Inl err, db)
                         | Inr d' \<Rightarrow> (Inr notice, d')))
          | _ \<Rightarrow> (Inl (lender_failure ''LENDER_DECISION_REFERENCE_MISMATCH'' ''Lender decision does not match the persisted partner application.'' EC_PERMANENT_VALIDATION False), db))"

section \<open>The internal review\<close>

text \<open>
  The loan that an approval creates: the fee is a percentage of the principalAmount, the interest that of
  \<open>accepted_interest\<close>, both in whole rupees.
\<close>

definition review_loan :: "pl_application \<Rightarrow> rat \<Rightarrow> int \<Rightarrow> string \<Rightarrow> rat \<Rightarrow> rat \<Rightarrow> time \<Rightarrow> new_loan" where
  "review_loan a principalAmount tenureDays lan roi feePercent now =
     \<lparr>nl_lan = lan, nl_customerId = pa_customerId a, nl_applicationId = pa_id a, nl_approvedAmount = principalAmount,
      nl_tenureDays = tenureDays, nl_interestRate = roi,
      nl_processingFee = js_round (dbl (principalAmount * dbl (feePercent / 100))),
      nl_totalRepayment = dbl (principalAmount + of_int (accepted_interest principalAmount roi (of_int tenureDays))),
      nl_lenderApprovedAt = now\<rparr>"

text \<open>
  What \<open>approve\<close> reads: the application, the chosen amount and tenure, the loan number, the
  interest rate and the fee; then its write.
\<close>

record approval_terms =
  at_application :: pl_application
  at_amount :: rat
  at_tenure :: int
  at_lan :: string
  at_roi :: rat
  at_feePercent :: rat

definition credit_approve_read :: "int \<Rightarrow> review_db \<Rightarrow> http_error + approval_terms" where
  "credit_approve_read applicationId db =
     (case find_unique pa_id applicationId (ob_apps (rv_out db)) of
        None \<Rightarrow> Inl (NotFound ''Application not found.'')
      | Some a \<Rightarrow>
          if pa_status a \<noteq> A_PENDING_CREDIT_REVIEW
          then Inl (BadRequest ''Application is not pending final lender approval.'')
          else case (pa_selectedAmount a, pa_selectedTenure a, truthy_str (pa_platformLan a)) of
            (Some principalAmount, Some tenureDays, Some lan) \<Rightarrow>
              if tenureDays = 0
              then Inl (BadRequest ''Application is missing the customer-selected offer required to finalize approval.'')
              else
                let version = (case truthy_str (pa_productVersionId a) of
                      Some v \<Rightarrow> find_unique pp_id v (rv_versions db) | None \<Rightarrow> None)
                in (case (case pa_lenderApprovedRoi a of Some x \<Rightarrow> Some x | None \<Rightarrow> map_option pp_annualRoiPercent version) of
                      None \<Rightarrow> Inl (BadRequest ''Unable to determine the applicable interest rate for this product.'')
                    | Some roi \<Rightarrow>
                        (case version of
                           None \<Rightarrow> Inl (BadRequest ''Unable to determine the applicable processing fee for this product.'')
                         | Some p \<Rightarrow>
                             Inr \<lparr>at_application = a, at_amount = principalAmount, at_tenure = tenureDays,
                                  at_lan = lan, at_roi = roi, at_feePercent = pp_processingFeePercent p\<rparr>))
          | _ \<Rightarrow> Inl (BadRequest ''Application is missing the customer-selected offer required to finalize approval.''))"

definition credit_approve_write :: "approval_terms \<Rightarrow> time \<Rightarrow> review_db \<Rightarrow> new_loan \<times> review_db" where
  "credit_approve_write t now db =
     (let a = at_application t;
          out = set_onboarding (pa_customerId a) ''LENDER_APPROVED''
            (set_application (pa_id a) (\<lambda>x. x\<lparr>pa_status := A_LENDER_APPROVED,
               pa_lenderApprovedRoi := Some (at_roi t), pa_lenderDecisionAt := Some now\<rparr>) now (rv_out db));
          new = review_loan a (at_amount t) (at_tenure t) (at_lan t) (at_roi t) (at_feePercent t) now;
          (loan, loans) = (case find_unique nl_applicationId (pa_id a) (rv_loans db) of
            Some l \<Rightarrow> (l, rv_loans db) | None \<Rightarrow> (new, rv_loans db @ [new]))
      in (loan, db\<lparr>rv_out := out, rv_loans := loans\<rparr>))"

definition credit_approve :: "int \<Rightarrow> time \<Rightarrow> review_db \<Rightarrow> (http_error + new_loan) \<times> review_db" where
  "credit_approve applicationId now db =
     (case credit_approve_read applicationId db of
        Inl e \<Rightarrow> (Inl e, db)
      | Inr t \<Rightarrow> (case credit_approve_write t now db of (loan, db') \<Rightarrow> (Inr loan, db')))"

definition credit_reject :: "int \<Rightarrow> string option \<Rightarrow> time \<Rightarrow> review_db \<Rightarrow> (http_error + pl_application) \<times> review_db" where
  "credit_reject applicationId reason now db =
     (case find_unique pa_id applicationId (ob_apps (rv_out db)) of
        None \<Rightarrow> (Inl (NotFound ''Application not found.''), db)
      | Some a \<Rightarrow>
          if pa_status a \<noteq> A_PENDING_CREDIT_REVIEW then (Inl (BadRequest ''Application is not pending credit review.''), db)
          else
            let message = (case truthy_str (map_option trim_str reason) of
                  Some s \<Rightarrow> ''Credit review rejected: '' @ s | None \<Rightarrow> ''Rejected by internal credit review.'');
                out = set_onboarding (pa_customerId a) ''LENDER_REJECTED''
                  (set_application (pa_id a) (\<lambda>x. x\<lparr>pa_status := A_LENDER_REJECTED, pa_lenderDecisionReason := Some message\<rparr>)
                    now (rv_out db))
            in (Inr (a\<lparr>pa_status := A_LENDER_REJECTED, pa_lenderDecisionReason := Some message, pa_updatedAt := now\<rparr>),
                db\<lparr>rv_out := out\<rparr>))"


section \<open>Rejections after the decision\<close>

text \<open>
  \<open>processLenderRejectionWebhook\<close>, on the texts it takes from the payload: the application of the
  loan with the number, else the one with that loan or application number, is rejected whatever
  its status, unless it is rejected already or the loan is done with (\<open>loanDone\<close>: CANCELLED or
  FAILED; the status of the loan, which becomes CANCELLED, is not part of these tables). The answer tells whether
  anything was written.
\<close>

definition rejected_application :: "string \<Rightarrow> review_db \<Rightarrow> pl_application option" where
  "rejected_application lan db =
     (let by_number = List.find (\<lambda>a. pa_platformLan a = Some lan \<or> pa_number a = lan) (ob_apps (rv_out db)) in
      case find_unique nl_lan lan (rv_loans db) of
        None \<Rightarrow> by_number
      | Some l \<Rightarrow>
          (case find_unique pa_id (nl_applicationId l) (ob_apps (rv_out db)) of
             Some a \<Rightarrow> Some a | None \<Rightarrow> by_number))"

definition lender_rejection_webhook ::
  "string \<Rightarrow> string \<Rightarrow> string \<Rightarrow> time \<Rightarrow> bool \<Rightarrow> time \<Rightarrow> review_db \<Rightarrow> (http_error + bool) \<times> review_db" where
  "lender_rejection_webhook lan rawStatus rejectReason decidedAt loanDone now db =
     (if lan = [] then (Inl (BadRequest ''lan is required in rejection webhook payload''), db)
      else if rawStatus \<noteq> ''REJECTED''
      then (Inl (BadRequest (''Unsupported status: '' @ rawStatus @ ''. Expected REJECTED.'')), db)
      else
        let hasLoan = (find_unique nl_lan lan (rv_loans db) \<noteq> None);
            application = rejected_application lan db
        in if \<not> hasLoan \<and> application = None
           then (Inl (NotFound (''No loan or application found for LAN / reference: '' @ lan)), db)
           else if hasLoan \<and> loanDone \<or> map_option pa_status application = Some A_LENDER_REJECTED
           then (Inr False, db)
           else
             (Inr True,
              (case application of
                 None \<Rightarrow> db
               | Some a \<Rightarrow>
                   db\<lparr>rv_out :=
                     set_onboarding (pa_customerId a) ''LENDER_REJECTED''
                       (set_application (pa_id a) (\<lambda>x. x\<lparr>pa_status := A_LENDER_REJECTED,
                          pa_lenderDecisionReason := Some rejectReason, pa_lenderDecisionAt := Some decidedAt,
                          pa_lenderNextStatusCheckAt := None\<rparr>) now
                         (set_link (pa_id a) (\<lambda>k. k\<lparr>lk_normalizedDecision := Some ''REJECTED'',
                            lk_decisionStatus := OP_COMPLETED, lk_rejectionReasonCode := Some (take 100 rejectReason),
                            lk_lastSuccessAt := Some decidedAt\<rparr>) (rv_out db)))\<rparr>)))"

text \<open>
  The write of a bank verification whose account holder has another name: it goes by the
  application of the loan, whatever its status.
\<close>

definition name_mismatch_reject :: "int \<Rightarrow> int \<Rightarrow> string \<Rightarrow> time \<Rightarrow> time \<Rightarrow> review_db \<Rightarrow> review_db" where
  "name_mismatch_reject applicationId customerId reason decidedAt now db =
     db\<lparr>rv_out := set_onboarding customerId ''LENDER_REJECTED''
       (set_application applicationId (\<lambda>x. x\<lparr>pa_status := A_LENDER_REJECTED,
          pa_lenderDecisionReason := Some reason, pa_lenderDecisionAt := Some decidedAt\<rparr>) now (rv_out db))\<rparr>"

section \<open>The states of an application\<close>

text \<open>
  How the status may move, with whether the final decision has been asked for and whether
  rejections after the decision are counted in. What the theorem below says of the operations
  refers to this table.
\<close>

definition status_move :: "bool \<Rightarrow> bool \<Rightarrow> app_status \<Rightarrow> app_status \<Rightarrow> bool" where
  "status_move late final s s' \<longleftrightarrow>
     s' = s
     \<or> late \<and> s' = A_LENDER_REJECTED
     \<or> \<not> final \<and> s \<notin> {A_LENDER_PRE_APPROVED, A_LENDER_REJECTED}
         \<and> s' \<in> {A_LENDER_PRE_APPROVED, A_LENDER_REJECTED, A_LENDER_REVIEW}
     \<or> final \<and> s \<notin> {A_PENDING_CREDIT_REVIEW, A_LENDER_APPROVED, A_LENDER_REJECTED, A_LOAN_CLOSED}
         \<and> s' \<in> {A_PENDING_CREDIT_REVIEW, A_LENDER_REJECTED}
     \<or> s = A_PENDING_CREDIT_REVIEW \<and> s' \<in> {A_LENDER_APPROVED, A_LENDER_REJECTED}
     \<or> s = A_LENDER_APPROVED \<and> s' = A_LOAN_CLOSED"

definition final_of :: "outbox_db \<Rightarrow> int \<Rightarrow> bool" where
  "final_of db i = list_ex (\<lambda>k. lk_applicationId k = i \<and> is_final k) (ob_links db)"

definition phase_ok :: "outbox_db \<Rightarrow> bool" where
  "phase_ok db \<longleftrightarrow> unique_keys pa_id (ob_apps db) \<and> unique_keys lk_applicationId (ob_links db)
     \<and> (\<forall>a\<in>set (ob_apps db). pa_status a \<in> {A_PENDING_CREDIT_REVIEW, A_LENDER_APPROVED, A_LOAN_CLOSED} \<longrightarrow> final_of db (pa_id a))"

text \<open>
  The operations that decide, one after another; the request for a decision is the write of
  \<open>enqueueDecisionWhenReady\<close> with the link as it is, and a loan's full repayment closes an approved
  application. With \<open>late\<close> the rejection webhook and the bank verification are among them.
\<close>

inductive decision_step :: "bool \<Rightarrow> review_db \<Rightarrow> review_db \<Rightarrow> bool" for late where
  processes: "decision_step late db (db\<lparr>rv_out := snd (process_decision dec date (rv_versions db) newId i token partner r canPoll now (rv_out db))\<rparr>)"
| approves: "decision_step late db (snd (credit_approve i now db))"
| rejects: "decision_step late db (snd (credit_reject i reason now db))"
| asks: "a \<in> set (ob_apps (rv_out db)) \<Longrightarrow> k \<in> set (ob_links (rv_out db)) \<Longrightarrow> lk_applicationId k = pa_id a \<Longrightarrow>
    decision_step late db (db\<lparr>rv_out := snd (decision_write newId a l k version now (rv_out db))\<rparr>)"
| closes: "find_unique pa_id i (ob_apps (rv_out db)) = Some a \<Longrightarrow> pa_status a = A_LENDER_APPROVED \<Longrightarrow>
    decision_step late db (db\<lparr>rv_out := set_application i (\<lambda>x. x\<lparr>pa_status := A_LOAN_CLOSED\<rparr>) now (rv_out db)\<rparr>)"
| webhook: "late \<Longrightarrow>
    decision_step late db (snd (lender_rejection_webhook lan rawStatus reason decidedAt loanDone now db))"
| mismatch: "late \<Longrightarrow> decision_step late db (name_mismatch_reject i c reason decidedAt now db)"

text \<open>One application moves, the others and the phases stay.\<close>

definition link_phase :: "lender_link \<Rightarrow> int \<times> int" where
  "link_phase k = (lk_applicationId k, lk_decisionPayloadVersion k)"

lemma phase_of_links: "final_of db i \<longleftrightarrow> list_ex (\<lambda>p. fst p = i \<and> 2 \<le> snd p) (map link_phase (ob_links db))"
  "unique_keys lk_applicationId (ob_links db) \<longleftrightarrow> distinct (map fst (map link_phase (ob_links db)))"
  by (simp_all add: final_of_def is_final_def link_phase_def unique_keys_def list_ex_iff comp_def)

definition moves :: "bool \<Rightarrow> outbox_db \<Rightarrow> outbox_db \<Rightarrow> bool" where
  "moves late db db' \<longleftrightarrow>
     map link_phase (ob_links db') = map link_phase (ob_links db)
     \<and> (\<exists>i f. (\<forall>x. pa_id (f x) = pa_id x) \<and> ob_apps db' = update_many (\<lambda>a. pa_id a = i) f (ob_apps db)
          \<and> (\<forall>a\<in>set (ob_apps db). pa_id a = i \<longrightarrow> status_move late (final_of db i) (pa_status a) (pa_status (f a))))"

lemma moves_refl: "moves late db db"
  unfolding moves_def by (auto intro!: exI [of _ id] simp: status_move_def update_many_def cong: if_cong)

lemma set_fields [simp]:
  "ob_apps (set_link i f db) = ob_apps db" "ob_apps (set_onboarding c s db) = ob_apps db"
  "ob_links (set_application i g now db) = ob_links db" "ob_links (set_onboarding c s db) = ob_links db"
  "ob_events (set_link i f db) = ob_events db" "ob_events (set_onboarding c s db) = ob_events db"
  "ob_events (set_application i g now db) = ob_events db"
  "ob_apps (set_application i g now db) = update_many (\<lambda>a. pa_id a = i) (\<lambda>a. (g a)\<lparr>pa_updatedAt := now\<rparr>) (ob_apps db)"
  "ob_links (set_link i f db) = update_many (\<lambda>k. lk_applicationId k = i) f (ob_links db)"
  by (simp_all add: set_link_def set_application_def set_onboarding_def)

lemma put_event_links [simp]: "ob_links (snd (put_event e db)) = ob_links db"
  by (simp add: put_event_def split: prod.split)

lemma map_update_many_same: "(\<And>x. g (f x) = g x) \<Longrightarrow> map g (update_many P f t) = map g t"
  by (simp add: update_many_def)

lemma movesI:
  assumes "ob_apps db' = update_many (\<lambda>a. pa_id a = i) f (ob_apps db)" and "\<And>x. pa_id (f x) = pa_id x"
    and "map link_phase (ob_links db') = map link_phase (ob_links db)"
    and "unique_keys pa_id (ob_apps db)" and "find_unique pa_id i (ob_apps db) = Some a"
    and "status_move late (final_of db i) (pa_status a) (pa_status (f a))"
  shows "moves late db db'"
proof -
  have "x = a" if "x \<in> set (ob_apps db)" "pa_id x = i" for x
    using unique_keys_eq [OF assms(4) that(1)] find_unique_Some_D [OF assms(5)] that(2) by auto
  with assms show ?thesis unfolding moves_def by blast
qed

lemma final_of_link:
  assumes "unique_keys lk_applicationId (ob_links db)" and "find_unique lk_applicationId i (ob_links db) = Some k"
  shows "final_of db i = is_final k"
  using find_unique_Some_D [OF assms(2)] unique_keys_eq [OF assms(1)] by (auto simp: final_of_def list_ex_iff)

lemma set_all_moves:
  assumes "unique_keys pa_id (ob_apps db)" and "find_unique pa_id i (ob_apps db) = Some a"
    and "ob_apps d = ob_apps (set_application i g now (set_link i h db))"
    and "ob_links d = ob_links (set_application i g now (set_link i h db))"
    and "\<And>x. pa_id (g x) = pa_id x" and "\<And>k. lk_applicationId (h k) = lk_applicationId k"
    and "\<And>k. lk_decisionPayloadVersion (h k) = lk_decisionPayloadVersion k"
    and "status_move late (final_of db i) (pa_status a) (pa_status (g a))"
  shows "moves late db d"
  by (rule movesI [of _ i "\<lambda>x. (g x)\<lparr>pa_updatedAt := now\<rparr>", OF _ _ _ assms(1,2)])
    (simp_all add: assms(3-8) map_update_many_same link_phase_def)

lemma apply_decision_moves:
  assumes "apply_decision dec date versions newId canPoll e a k r now db = Inr d"
    and "unique_keys pa_id (ob_apps db)" and "find_unique pa_id (pa_id a) (ob_apps db) = Some a"
    and "final_of db (pa_id a) = is_final k" and "\<not> already_resolved (is_final k) (pa_status a)"
  shows "moves late db d"
proof -
  note M = set_all_moves [OF assms(2,3), unfolded assms(4)]
  note S = status_move_def already_resolved_def link_decided_def
  consider x where "\<not> is_final k" "d = apply_preapproval a r x now db"
    | x y where "is_final k" "d = apply_final_approval a r x y now db"
    | "d = apply_rejection a r now db"
    | next' where "d = apply_pending newId canPoll (is_final k) e a r next' now db"
    using assms(1) by (auto simp: apply_decision_def Let_def split: decision.splits if_splits option.splits)
  then show ?thesis
  proof cases
    case 1
    show ?thesis by (rule M, unfold 1(2) apply_preapproval_def set_fields, rule refl, rule refl)
      (use assms(5) 1(1) in \<open>auto simp: S\<close>)
  next
    case 2
    show ?thesis by (rule M, unfold 2(2) apply_final_approval_def set_fields, rule refl, rule refl)
      (use assms(5) 2(1) in \<open>auto simp: S\<close>)
  next
    case 3
    show ?thesis by (rule M, unfold 3 apply_rejection_def Let_def set_fields, rule refl, rule refl)
      (use assms(5) in \<open>auto simp: S split: if_splits\<close>)
  next
    case 4
    let ?g = "\<lambda>x. x\<lparr>pa_status := (if is_final k then pa_status x else A_LENDER_REVIEW),
         pa_lenderDecisionReference := Some (dr_reference r), pa_lenderDecisionAt := Some now,
         pa_lenderNextStatusCheckAt := Some next'\<rparr>"
    let ?h = "\<lambda>k. k\<lparr>lk_normalizedDecision := Some ''PENDING'', lk_decisionStatus := OP_ACKNOWLEDGED,
         lk_lastSuccessAt := Some now, lk_errorCode := None, lk_errorMessage := None\<rparr>"
    show ?thesis by (rule M [of _ ?g now ?h]) (use assms(5) in \<open>auto simp: 4 apply_pending_def Let_def S\<close>)
  qed
qed

lemma process_moves:
  assumes "unique_keys pa_id (ob_apps db)" and "unique_keys lk_applicationId (ob_links db)"
  shows "moves late db (snd (process_decision dec date versions newId i token partner r canPoll now db))"
proof -
  have completed: "moves late db d'" if "moves late db d" "completeEvent j t now d = Inr d'" for d d' j t
  proof -
    from that(2) have "ob_apps d' = ob_apps d" "ob_links d' = ob_links d"
      by (auto simp: completeEvent_def split: prod.splits if_splits)
    with that(1) show ?thesis by (simp add: moves_def)
  qed
  have main: "moves late db d"
    if "find_unique pa_id (le_applicationId e) (ob_apps db) = Some a"
      "find_unique lk_applicationId (le_applicationId e) (ob_links db) = Some k"
      "\<not> already_resolved (is_final k) (pa_status a)"
      "apply_decision dec date versions newId canPoll e a k r now db = Inr d" for e a k d
  proof -
    have "pa_id a = le_applicationId e" using find_unique_Some_D [OF that(1)] by simp
    then show ?thesis
      using apply_decision_moves [OF that(4) assms(1) _ _ that(3)] that(1) final_of_link [OF assms(2) that(2)] by simp
  qed
  show ?thesis
    by (auto simp: process_decision_def Let_def moves_refl split: option.splits sum.splits prod.splits
        intro: completed main completed [OF moves_refl])
qed

lemma moves_phase:
  assumes "moves late db db'" and "phase_ok db"
  shows "phase_ok db' \<and> (\<forall>a\<in>set (ob_apps db). \<exists>a'\<in>set (ob_apps db'). pa_id a' = pa_id a
      \<and> status_move late (final_of db (pa_id a)) (pa_status a) (pa_status a'))"
proof -
  from assms(1) obtain i f where f: "\<And>x. pa_id (f x) = pa_id x"
    "ob_apps db' = update_many (\<lambda>a. pa_id a = i) f (ob_apps db)"
    "\<And>a. a \<in> set (ob_apps db) \<Longrightarrow> pa_id a = i \<Longrightarrow> status_move late (final_of db i) (pa_status a) (pa_status (f a))"
    and l: "map link_phase (ob_links db') = map link_phase (ob_links db)"
    unfolding moves_def by blast
  have fin: "final_of db' = final_of db" by (rule ext) (simp only: phase_of_links l)
  have u: "unique_keys pa_id (ob_apps db')" "unique_keys lk_applicationId (ob_links db')"
    using assms(2) f(1) unfolding phase_ok_def f(2) phase_of_links l by (simp_all add: unique_keys_update_many)
  have move: "\<exists>a'\<in>set (ob_apps db'). pa_id a' = pa_id a \<and> status_move late (final_of db (pa_id a)) (pa_status a) (pa_status a')"
    if "a \<in> set (ob_apps db)" for a
  proof (cases "pa_id a = i")
    case True
    then show ?thesis using f that by (intro bexI [of _ "f a"]) (auto simp: set_update_many image_iff intro: bexI [of _ a])
  next
    case False
    then show ?thesis using that by (intro bexI [of _ a]) (auto simp: f(2) set_update_many image_iff status_move_def intro: bexI [of _ a])
  qed
  have old: "\<exists>a\<in>set (ob_apps db). pa_id a' = pa_id a \<and> status_move late (final_of db (pa_id a)) (pa_status a) (pa_status a')"
    if "a' \<in> set (ob_apps db')" for a'
    using that unfolding f(2) by (rule update_many_obtain) (use f in \<open>auto simp: status_move_def\<close>)
  have "final_of db (pa_id a')" if a': "a' \<in> set (ob_apps db')"
    "pa_status a' \<in> {A_PENDING_CREDIT_REVIEW, A_LENDER_APPROVED, A_LOAN_CLOSED}" for a'
  proof -
    from old [OF a'(1)] obtain a where a: "a \<in> set (ob_apps db)" "pa_id a' = pa_id a"
      "status_move late (final_of db (pa_id a)) (pa_status a) (pa_status a')" by blast
    with a'(2) assms(2) show ?thesis by (auto simp: phase_ok_def status_move_def)
  qed
  with u fin move show ?thesis by (simp add: phase_ok_def)
qed


lemma update_many_id [simp]: "update_many P id t = t"
  by (induction t) simp_all

lemma put_event_pair: "put_event e db = (x, d) \<Longrightarrow> ob_links d = ob_links db \<and> ob_apps d = ob_apps db"
  using put_event_links [of e db] put_event_apps [of e db] by simp

lemma credit_approve_moves:
  assumes "unique_keys pa_id (ob_apps (rv_out db))"
  shows "moves late (rv_out db) (rv_out (snd (credit_approve i now db)))"
proof -
  have M: "moves late (rv_out db) (set_onboarding c s (set_application (pa_id a) (\<lambda>x. x\<lparr>pa_status := A_LENDER_APPROVED,
        pa_lenderApprovedRoi := Some roi, pa_lenderDecisionAt := Some now\<rparr>) now (rv_out db)))"
    if "find_unique pa_id i (ob_apps (rv_out db)) = Some a" "pa_status a = A_PENDING_CREDIT_REVIEW" for c s a roi
  proof -
    from that have a: "find_unique pa_id (pa_id a) (ob_apps (rv_out db)) = Some a" using find_unique_Some_D by metis
    show ?thesis
      by (rule set_all_moves [OF assms a, of _ "\<lambda>x. x\<lparr>pa_status := A_LENDER_APPROVED,
        pa_lenderApprovedRoi := Some roi, pa_lenderDecisionAt := Some now\<rparr>" now id])
        (simp_all add: that(2) status_move_def)
  qed
  show ?thesis
  proof (cases "credit_approve_read i db")
    case (Inl e)
    then show ?thesis by (simp add: credit_approve_def moves_refl)
  next
    case (Inr t)
    then have "find_unique pa_id i (ob_apps (rv_out db)) = Some (at_application t)"
      "pa_status (at_application t) = A_PENDING_CREDIT_REVIEW"
      by (auto simp: credit_approve_read_def Let_def split: option.splits if_splits)
    from M [OF this] Inr show ?thesis
      by (simp add: credit_approve_def credit_approve_write_def Let_def split: option.split)
  qed
qed

lemma credit_reject_moves:
  assumes "unique_keys pa_id (ob_apps (rv_out db))"
  shows "moves late (rv_out db) (rv_out (snd (credit_reject i reason now db)))"
proof -
  have M: "moves late (rv_out db) (set_onboarding c s (set_application (pa_id a) (\<lambda>x. x\<lparr>pa_status := A_LENDER_REJECTED,
        pa_lenderDecisionReason := Some m\<rparr>) now (rv_out db)))"
    if "find_unique pa_id i (ob_apps (rv_out db)) = Some a" "pa_status a = A_PENDING_CREDIT_REVIEW" for c s a m
  proof -
    from that have a: "find_unique pa_id (pa_id a) (ob_apps (rv_out db)) = Some a" using find_unique_Some_D by metis
    show ?thesis
      by (rule set_all_moves [OF assms a, of _ "\<lambda>x. x\<lparr>pa_status := A_LENDER_REJECTED,
        pa_lenderDecisionReason := Some m\<rparr>" now id])
        (simp_all add: that(2) status_move_def)
  qed
  show ?thesis
    by (auto simp: credit_reject_def Let_def moves_refl split: option.split intro: M)
qed

lemma late_moves:
  assumes "unique_keys pa_id (ob_apps db)" and "find_unique pa_id i (ob_apps db) = Some a"
    and "ob_apps d = update_many (\<lambda>x. pa_id x = i) f (ob_apps db)"
    and "\<And>x. pa_id (f x) = pa_id x" and "\<And>x. pa_status (f x) = A_LENDER_REJECTED"
    and "map link_phase (ob_links d) = map link_phase (ob_links db)"
  shows "moves True db d"
  by (rule movesI [of _ i f, OF assms(3,4,6,1,2)]) (simp add: assms(5) status_move_def)

lemma webhook_moves:
  assumes u: "unique_keys pa_id (ob_apps (rv_out db))"
  shows "moves True (rv_out db)
    (rv_out (snd (lender_rejection_webhook lan rawStatus reason decidedAt loanDone now db)))"
proof -
  let ?d = "snd (lender_rejection_webhook lan rawStatus reason decidedAt loanDone now db)"
  have "rv_out ?d = rv_out db \<or> (\<exists>a. rejected_application lan db = Some a
      \<and> ob_apps (rv_out ?d) = update_many (\<lambda>x. pa_id x = pa_id a) (\<lambda>x. x\<lparr>pa_status := A_LENDER_REJECTED,
            pa_lenderDecisionReason := Some reason, pa_lenderDecisionAt := Some decidedAt,
            pa_lenderNextStatusCheckAt := None, pa_updatedAt := now\<rparr>) (ob_apps (rv_out db))
      \<and> map link_phase (ob_links (rv_out ?d)) = map link_phase (ob_links (rv_out db)))"
    unfolding lender_rejection_webhook_def Let_def
    by (auto simp: map_update_many_same link_phase_def split: option.split)
  then show ?thesis
  proof (elim disjE exE conjE)
    fix a assume a: "rejected_application lan db = Some a"
      and d: "ob_apps (rv_out ?d) = update_many (\<lambda>x. pa_id x = pa_id a) (\<lambda>x. x\<lparr>pa_status := A_LENDER_REJECTED,
            pa_lenderDecisionReason := Some reason, pa_lenderDecisionAt := Some decidedAt,
            pa_lenderNextStatusCheckAt := None, pa_updatedAt := now\<rparr>) (ob_apps (rv_out db))"
        "map link_phase (ob_links (rv_out ?d)) = map link_phase (ob_links (rv_out db))"
    from a have "a \<in> set (ob_apps (rv_out db))"
      by (auto simp: rejected_application_def Let_def find_Some_iff dest: find_unique_Some_D split: option.splits)
    from find_unique_in_set [OF u this] show ?thesis
      by (rule late_moves [OF u _ d(1) _ _ d(2)]) simp_all
  qed (simp add: moves_refl)
qed

lemma mismatch_moves:
  assumes u: "unique_keys pa_id (ob_apps (rv_out db))"
  shows "moves True (rv_out db) (rv_out (name_mismatch_reject i c reason decidedAt now db))"
proof (cases "find_unique pa_id i (ob_apps (rv_out db))")
  case None
  then have "count_rows (\<lambda>x. pa_id x = i) (ob_apps (rv_out db)) = 0"
    by (auto simp: find_unique_None_iff count_rows_zero_iff)
  then have "ob_apps (rv_out (name_mismatch_reject i c reason decidedAt now db)) = ob_apps (rv_out db)"
    by (simp add: name_mismatch_reject_def update_many_no_match)
  then have "moves True (rv_out db) (rv_out (name_mismatch_reject i c reason decidedAt now db))
      = moves True (rv_out db) (rv_out db)"
    by (simp add: moves_def name_mismatch_reject_def)
  then show ?thesis by (simp only: moves_refl)
next
  case (Some a)
  show ?thesis
    by (rule late_moves [OF u Some, of _ "\<lambda>x. x\<lparr>pa_status := A_LENDER_REJECTED,
          pa_lenderDecisionReason := Some reason, pa_lenderDecisionAt := Some decidedAt, pa_updatedAt := now\<rparr>"])
       (simp_all add: name_mismatch_reject_def)
qed

lemma decision_write_phase:
  assumes "phase_ok db" and "k \<in> set (ob_links db)" and "lk_applicationId k = pa_id a"
  shows "ob_apps (snd (decision_write newId a l k version now db)) = ob_apps db
    \<and> phase_ok (snd (decision_write newId a l k version now db))"
proof -
  let ?db = "snd (decision_write newId a l k version now db)"
  let ?key = "versioned_key (pa_number a) ''LENDER_REQUEST_DECISION'' version"
  obtain x d where put: "put_event (new_event newId ''LENDER_REQUEST_DECISION'' a l ST_DECISION version ?key None now) db = (x, d)"
    by fastforce
  note p = put_event_pair [OF put]
  have apps: "ob_apps ?db = ob_apps db" using p by (simp add: decision_write_def Let_def put)
  have "ob_links ?db = ob_links db \<or>
      lk_decisionPayloadVersion k \<le> version \<and> (\<exists>key. ob_links ?db = update_many (\<lambda>x. lk_applicationId x = pa_id a)
        (\<lambda>x. x\<lparr>lk_decisionStatus := OP_PENDING, lk_decisionKey := Some key, lk_decisionPayloadVersion := version\<rparr>) (ob_links db))"
    using p by (auto simp: decision_write_def Let_def put)
  then have "unique_keys lk_applicationId (ob_links ?db) \<and> (\<forall>i. final_of db i \<longrightarrow> final_of ?db i)"
  proof (elim disjE conjE exE)
    fix key assume v: "lk_decisionPayloadVersion k \<le> version" and l: "ob_links ?db = update_many (\<lambda>x. lk_applicationId x = pa_id a)
        (\<lambda>x. x\<lparr>lk_decisionStatus := OP_PENDING, lk_decisionKey := Some key, lk_decisionPayloadVersion := version\<rparr>) (ob_links db)"
    have u: "unique_keys lk_applicationId (ob_links db)" using assms(1) by (simp add: phase_ok_def)
    have same: "x = k" if "x \<in> set (ob_links db)" "lk_applicationId x = pa_id a" for x
      using unique_keys_eq [OF u that(1) assms(2)] that(2) assms(3) by simp
    let ?f = "\<lambda>x. x\<lparr>lk_decisionStatus := OP_PENDING, lk_decisionKey := Some key, lk_decisionPayloadVersion := version\<rparr>"
    have "final_of ?db i" if fin: "final_of db i" for i
    proof -
      from fin obtain x where x: "x \<in> set (ob_links db)" "lk_applicationId x = i" "is_final x"
        unfolding final_of_def list_ex_iff by blast
      let ?x = "if lk_applicationId x = pa_id a then ?f x else x"
      have "?x \<in> set (ob_links ?db)" unfolding l set_update_many by (rule imageI [OF x(1)])
      moreover have "lk_applicationId ?x = i \<and> is_final ?x" using x v same [OF x(1)] by (auto simp: is_final_def)
      ultimately show ?thesis unfolding final_of_def list_ex_iff by blast
    qed
    with u show ?thesis unfolding l by (simp add: unique_keys_update_many)
  qed (use assms(1) in \<open>simp add: phase_ok_def final_of_def\<close>)
  with apps assms(1) show ?thesis by (simp add: phase_ok_def)
qed

lemma decision_step_move:
  assumes "decision_step late db db'" and "phase_ok (rv_out db)"
  shows "phase_ok (rv_out db') \<and> (\<forall>a\<in>set (ob_apps (rv_out db)). \<exists>a'\<in>set (ob_apps (rv_out db')). pa_id a' = pa_id a
      \<and> status_move late (final_of (rv_out db) (pa_id a)) (pa_status a) (pa_status a'))"
proof -
  have u: "unique_keys pa_id (ob_apps (rv_out db))" "unique_keys lk_applicationId (ob_links (rv_out db))"
    using assms(2) by (simp_all add: phase_ok_def)
  from assms(1) show ?thesis
  proof cases
    case (asks a k newId l version now)
    from decision_write_phase [OF assms(2) asks(3,4)] show ?thesis
      unfolding asks(1) by (auto simp: status_move_def)
  next
    case (closes i a now)
    have "moves late (rv_out db) (rv_out db')" unfolding closes(1)
      by (rule set_all_moves [OF u(1) closes(2), of _ "\<lambda>x. x\<lparr>pa_status := A_LOAN_CLOSED\<rparr>" now id])
        (simp_all add: closes(3) status_move_def)
    from moves_phase [OF this assms(2)] show ?thesis .
  next
    case (webhook lan rawStatus reason decidedAt loanDone now)
    with moves_phase [OF webhook_moves [OF u(1)] assms(2)] show ?thesis by simp
  next
    case (mismatch i c reason decidedAt now)
    with moves_phase [OF mismatch_moves [OF u(1)] assms(2)] show ?thesis by simp
  qed (use u assms(2) in \<open>auto intro!: moves_phase process_moves credit_approve_moves credit_reject_moves\<close>)
qed


text \<open>
  Requests that overlap: an approval that read the application while it was under review approves
  it whatever happened since, a rejection included, and creates its loan.
\<close>

theorem stale_approval_overrides:
  assumes "credit_approve_read i db = Inr t" and "find_unique pa_id i (ob_apps (rv_out db2)) = Some b"
  shows "map_option pa_status (find_unique pa_id i (ob_apps (rv_out (snd (credit_approve_write t now db2)))))
      = Some A_LENDER_APPROVED
    \<and> i \<in> nl_applicationId ` set (rv_loans (snd (credit_approve_write t now db2)))"
proof -
  have t: "pa_id (at_application t) = i"
    using assms(1) find_unique_Some_D
    by (fastforce simp: credit_approve_read_def Let_def split: option.splits if_splits)
  have "pa_id b = i" using find_unique_Some_D [OF assms(2)] by simp
  with assms(2) t have "find_unique pa_id i (ob_apps (rv_out (snd (credit_approve_write t now db2)))) =
      Some (b\<lparr>pa_status := A_LENDER_APPROVED, pa_lenderApprovedRoi := Some (at_roi t),
        pa_lenderDecisionAt := Some now, pa_updatedAt := now\<rparr>)"
    by (simp add: credit_approve_write_def Let_def find_unique_update_many split: option.split)
  moreover have "i \<in> nl_applicationId ` set (rv_loans (snd (credit_approve_write t now db2)))"
  proof (cases "find_unique nl_applicationId i (rv_loans db2)")
    case None
    then show ?thesis by (simp add: credit_approve_write_def Let_def t review_loan_def)
  next
    case (Some l)
    from find_unique_Some_D [OF this] Some show ?thesis
      by (auto simp: credit_approve_write_def Let_def t)
  qed
  ultimately show ?thesis by simp
qed

text \<open>
  A decision is applied together with its event's completion, or not at all: an error leaves
  everything as it was, and success leaves the event completed and unlocked.
\<close>

theorem decision_all_or_nothing:
  assumes "process_decision dec date versions newId eventId token partner r canPoll now db = (res, db')"
    and "unique_keys le_id (ob_events db)" and "newId \<notin> le_id ` set (ob_events db)"
  shows "case res of
      Inl err \<Rightarrow> db' = db
    | Inr notice \<Rightarrow> \<exists>e. find_unique le_id eventId (ob_events db') = Some e \<and> le_status e = EV_COMPLETED \<and> le_lockToken e = None"
proof (cases res)
  case (Inl err)
  with assms(1) show ?thesis
    by (auto simp: process_decision_def Let_def split: option.splits sum.splits prod.splits if_splits)
next
  case (Inr notice)
  with assms(1) obtain e a k d where e: "List.find (owned eventId (Some token)) (ob_events db) = Some e"
    and d: "d = db \<or> apply_decision dec date versions newId canPoll e a k r now db = Inr d"
    and c: "completeEvent eventId token now d = Inr db'"
    by (auto simp: process_decision_def Let_def split: option.splits sum.splits prod.splits if_splits)
  from e have own: "e \<in> set (ob_events db)" "owned eventId (Some token) e"
    by (auto simp: find_Some_iff)
  have ev: "ob_events d = ob_events db \<or> (\<exists>p. le_id p = newId \<and> ob_events d = ob_events db @ [p])"
    using d by (auto simp: apply_decision_def apply_preapproval_def apply_final_approval_def apply_rejection_def apply_pending_def
        put_event_def upsert_event_def poll_event_def new_event_def Let_def
        split: decision.splits if_splits option.splits)
  have ne: "newId \<noteq> eventId" using own assms(3) by (auto simp: owned_def)
  have "find_unique le_id eventId (ob_events db) = Some e"
    using find_unique_in_set [OF assms(2) own(1)] own(2) by (simp add: owned_def)
  with ev ne have "find_unique le_id eventId (ob_events d) = Some e"
    by (auto simp: find_unique_append)
  moreover have "ob_events db' = update_many (owned eventId (Some token)) (complete_data now) (ob_events d)"
    using c by (auto simp: completeEvent_def complete_event_def split: if_splits)
  ultimately have "find_unique le_id eventId (ob_events db') = Some (complete_data now e)"
    using own(2) by (simp add: find_unique_update_many complete_data_def unlock_def)
  then show ?thesis by (simp add: Inr complete_data_def unlock_def)
qed

section \<open>Runs\<close>

definition demo_poll :: "string \<Rightarrow> lender_stage \<Rightarrow> int \<Rightarrow> ev_status \<Rightarrow> string option \<Rightarrow> lender_event" where
  "demo_poll i stage version status token =
     (new_event i ''T'' demo_application ''L'' stage version
        (versioned_key ''APP-7'' (if stage = ST_STATUS then ''LENDER_STATUS_CHECK'' else ''LENDER_REQUEST_DECISION'') version) None 0)
       \<lparr>le_status := status, le_lockToken := token\<rparr>"

definition demo_answer :: "decision \<Rightarrow> decision_result" where
  "demo_answer d =
     \<lparr>dr_decision = d, dr_reference = ''R'', dr_approvedAmount = Some ''50000'', dr_approvedRoi = None,
      dr_rejectionReasonCode = None, dr_coolingOffDays = Some 30, dr_nextStatusCheckAt = None\<rparr>"

text \<open>The customer was pre-approved, has chosen an offer, and the final decision has been asked for.\<close>

definition demo_final :: "lender_event list \<Rightarrow> outbox_db" where
  "demo_final es =
     \<lparr>ob_events = es, ob_links = [demo_lender_link\<lparr>lk_decisionPayloadVersion := 2\<rparr>],
      ob_apps = [demo_application\<lparr>pa_status := A_LENDER_PRE_APPROVED, pa_selectedAmount := Some 40000, pa_selectedTenure := Some 30\<rparr>],
      ob_loans = [], ob_transfers = [], ob_onboarding = [(1, ''LENDER_PRE_APPROVED'')]\<rparr>"

definition demo_process :: "string \<Rightarrow> decision \<Rightarrow> outbox_db \<Rightarrow> (thrown + rejection_notice option) \<times> outbox_db" where
  "demo_process i d db = process_decision (\<lambda>_. Some 50000) (\<lambda>_. None) [] ''new'' i ''t'' ''P'' (demo_answer d) True 1000 db"

definition demo_review :: review_db where
  "demo_review = \<lparr>rv_out = (demo_final [])\<lparr>ob_apps := [demo_application\<lparr>pa_status := A_LENDER_REJECTED\<rparr>],
     ob_events := [demo_poll ''e1'' ST_STATUS 1 EV_PROCESSING (Some ''t'')]\<rparr>, rv_loans = [], rv_versions = []\<rparr>"


definition demo_under_review :: review_db where
  "demo_under_review = \<lparr>rv_out = (demo_final [])\<lparr>ob_apps := [demo_application\<lparr>pa_status := A_PENDING_CREDIT_REVIEW,
       pa_selectedAmount := Some 40000, pa_selectedTenure := Some 30, pa_platformLan := Some ''PL7'',
       pa_productVersionId := Some ''V1''\<rparr>]\<rparr>,
     rv_loans = [], rv_versions = [\<lparr>pp_id = ''V1'', pp_annualRoiPercent = 24, pp_processingFeePercent = 2\<rparr>]\<rparr>"

theorem stale_approval_overrides_witness:
  "let rejected = snd (credit_reject 7 None 900 demo_under_review)
   in map pa_status (ob_apps (rv_out rejected)) = [A_LENDER_REJECTED]
     \<and> map_option pa_status (find_unique pa_id 7 (ob_apps (rv_out (snd (credit_approve_write
          (projr (credit_approve_read 7 demo_under_review)) 950 rejected))))) = Some A_LENDER_APPROVED"
proof -
  let ?d = "snd (credit_reject 7 None 900 demo_under_review)"
  have rd: "credit_approve_read 7 demo_under_review = Inr (projr (credit_approve_read 7 demo_under_review))"
    by (simp add: credit_approve_read_def demo_under_review_def demo_application_def new_application_def
        truthy_str_def Let_def)
  have st: "map pa_status (ob_apps (rv_out ?d)) = [A_LENDER_REJECTED]"
    by (simp add: credit_reject_def demo_under_review_def demo_application_def new_application_def Let_def)
  have "find_unique pa_id 7 (ob_apps (rv_out ?d)) \<noteq> None"
    by (simp add: credit_reject_def demo_under_review_def demo_application_def new_application_def Let_def)
  then obtain b where "find_unique pa_id 7 (ob_apps (rv_out ?d)) = Some b" by blast
  from stale_approval_overrides [OF rd this, of 950] st show ?thesis by (simp only: Let_def simp_thms)
qed

theorem decision_all_or_nothing_witness:
  "map le_status (ob_events (snd (demo_process ''e1'' D_REJECTED (demo_final [demo_poll ''e1'' ST_DECISION 2 EV_PROCESSING (Some ''t'')]))))
     = [EV_COMPLETED]"
proof -
  let ?db = "demo_final [demo_poll ''e1'' ST_DECISION 2 EV_PROCESSING (Some ''t'')]"
  have u: "unique_keys le_id (ob_events ?db)" "''new'' \<notin> le_id ` set (ob_events ?db)"
    by (simp_all add: demo_final_def demo_poll_def new_event_def)
  have r: "isl (fst (demo_process ''e1'' D_REJECTED ?db)) = False" by code_simp
  have l: "map le_id (ob_events (snd (demo_process ''e1'' D_REJECTED ?db))) = [''e1'']" by code_simp
  from decision_all_or_nothing [OF surjective_pairing u, of "\<lambda>_. Some 50000" "\<lambda>_. None" "[]" "''e1''" "''t''" "''P''" "demo_answer D_REJECTED" True 1000]
  have "\<exists>e. find_unique le_id ''e1'' (ob_events (snd (demo_process ''e1'' D_REJECTED ?db))) = Some e \<and> le_status e = EV_COMPLETED"
    using r by (auto simp: demo_process_def split: sum.splits)
  with l show ?thesis by (cases "ob_events (snd (demo_process ''e1'' D_REJECTED ?db))") auto
qed

text \<open>
  A final decision that is pending is never asked after: the poll it schedules has the key of the
  poll of the first decision, which is done; nothing is queued and the application waits.
\<close>

theorem final_pending_not_polled:
  "let db = demo_final [demo_poll ''e0'' ST_STATUS 1 EV_COMPLETED None, demo_poll ''e1'' ST_DECISION 2 EV_PROCESSING (Some ''t'')]
   in fst (demo_process ''e1'' D_PENDING db) = Inr None
     \<and> map le_status (ob_events (snd (demo_process ''e1'' D_PENDING db))) = [EV_COMPLETED, EV_COMPLETED]
     \<and> map pa_status (ob_apps (snd (demo_process ''e1'' D_PENDING db))) = [A_LENDER_PRE_APPROVED]"
  by code_simp

text \<open>
  A late answer to the first decision counts as the final one: which decision an answer belongs
  to is read from the link, so a replayed poll of the first decision, answered APPROVED once the final
  one is asked for, approves the application finally while the final request is still to be sent.
\<close>

theorem late_poll_approves_finally:
  "let db = demo_final [demo_poll ''e0'' ST_STATUS 1 EV_PROCESSING (Some ''t''), demo_poll ''e1'' ST_DECISION 2 EV_PENDING None]
   in fst (demo_process ''e0'' D_APPROVED db) = Inr None
     \<and> map le_status (ob_events (snd (demo_process ''e0'' D_APPROVED db))) = [EV_COMPLETED, EV_PENDING]
     \<and> map pa_status (ob_apps (snd (demo_process ''e0'' D_APPROVED db))) = [A_PENDING_CREDIT_REVIEW]"
  by code_simp

text \<open>
  A rejection by the internal review does not start the wait of its own: the wait before the next
  application counts from the lender's earlier decision.
\<close>

theorem review_rejection_backdated:
  assumes "credit_reject i reason now db = (Inr a', db')"
    and "find_unique pa_id i (ob_apps (rv_out db)) = Some a" and "pa_lenderDecisionAt a = Some t"
  shows "pa_status a' = A_LENDER_REJECTED \<and> rejected_at a' = t"
  using assms by (auto simp: credit_reject_def rejected_at_def Let_def split: if_splits)

theorem review_rejection_backdated_witness:
  "\<exists>a'. fst (credit_reject 7 None 900 \<lparr>rv_out = (demo_final [])\<lparr>ob_apps := [demo_application\<lparr>pa_status := A_PENDING_CREDIT_REVIEW,
       pa_lenderDecisionAt := Some 100\<rparr>]\<rparr>, rv_loans = [], rv_versions = []\<rparr>) = Inr a' \<and> rejected_at a' = 100"
proof -
  let ?db = "\<lparr>rv_out = (demo_final [])\<lparr>ob_apps := [demo_application\<lparr>pa_status := A_PENDING_CREDIT_REVIEW,
       pa_lenderDecisionAt := Some 100\<rparr>]\<rparr>, rv_loans = [], rv_versions = []\<rparr>"
  have f: "find_unique pa_id 7 (ob_apps (rv_out ?db)) = Some (demo_application\<lparr>pa_status := A_PENDING_CREDIT_REVIEW, pa_lenderDecisionAt := Some 100\<rparr>)"
    by (simp add: demo_application_def new_application_def)
  obtain a' where a': "fst (credit_reject 7 None 900 ?db) = Inr a'"
    by (simp add: credit_reject_def f [simplified] demo_application_def new_application_def Let_def)
  then have "credit_reject 7 None 900 ?db = (Inr a', snd (credit_reject 7 None 900 ?db))" by (metis prod.collapse)
  from review_rejection_backdated [OF this f] a' show ?thesis by simp
qed

end
