(* ===== verification/Referrals.thy ===== *)
theory Referrals
  imports JsText Doubles
begin

text \<open>
  Refer and earn (modules/referral/referral.service.ts and referral-customer.controller.ts): a
  customer's code, the tie between the referrer and the referred, the benefit created when the
  loan of the referred is paid out, the discount it gives on the processing fee, and its use.
  Amounts are JavaScript numbers (theory \<open>Doubles\<close>); a fee is a finite number. Reports and the
  CSV export are queries and are not modelled.
\<close>

section \<open>Data\<close>

text \<open>The columns of a customer that referrals and sign-in use.\<close>

datatype account_status = CA_ACTIVE | CA_BLOCKED | CA_INACTIVE

datatype onboarding_status =
    ON_MOBILE_VERIFIED | ON_BASIC_DETAILS_PENDING | ON_PAN_VERIFIED | ON_EMAIL_VERIFIED
  | ON_PLATFORM_BRE_PENDING | ON_PLATFORM_ELIGIBLE | ON_PLATFORM_INELIGIBLE
  | ON_APPLICATION_IN_PROGRESS | ON_APPLICATION_SUBMITTED | ON_LENDER_PRE_APPROVED
  | ON_PENDING_CREDIT_REVIEW | ON_LENDER_APPROVED | ON_LENDER_REJECTED | ON_DISBURSED

record customer =
  cm_id :: int
  cm_code :: string
  cm_mobile :: string
  cm_mobileVerifiedAt :: "time option"
  cm_accountStatus :: account_status
  cm_fullName :: "string option"
  cm_email :: "string option"
  cm_emailVerified :: bool
  cm_emailVerifiedAt :: "time option"
  cm_onboarding :: onboarding_status
  cm_lastLoginAt :: "time option"
  cm_lastActivityAt :: "time option"

datatype discount_type = PERCENTAGE | FIXED_AMOUNT

datatype referral_status = RF_PENDING | RF_QUALIFIED | RF_EXPIRED | RF_CANCELLED

datatype benefit_status = B_AVAILABLE | B_APPLIED | B_USED | B_EXPIRED | B_CANCELLED

record campaign =
  cp_id :: int
  cp_name :: string
  cp_discountType :: discount_type
  cp_discountValue :: rat
  cp_maxDiscountLimit :: rat
  cp_minReferralRequirement :: int
  cp_applicableLoanNumber :: int
  cp_validityDays :: int
  cp_active :: bool
  cp_createdAt :: time

record referral_mapping =
  rf_id :: int
  rf_referrer :: int
  rf_referred :: int
  rf_code :: string
  rf_status :: referral_status
  rf_disbursedAt :: "time option"

record benefit =
  bn_id :: int
  bn_customerId :: int
  bn_campaignId :: "int option"
  bn_sourceReferralId :: int
  bn_discountType :: discount_type
  bn_discountValue :: rat
  bn_maxDiscountLimit :: rat
  bn_status :: benefit_status
  bn_expiryDate :: time

record benefit_usage =
  bu_benefitId :: int
  bu_customerId :: int
  bu_applicationId :: "int option"
  bu_loanId :: "int option"
  bu_original :: rat
  bu_discount :: rat
  bu_final :: rat

record referral_db =
  rd_customers :: "customer list"
  rd_loans :: "(int \<times> int) list"  \<comment> \<open>loan, customer\<close>
  rd_applications :: "int list"
  rd_campaigns :: "campaign list"
  rd_mappings :: "referral_mapping list"
  rd_benefits :: "benefit list"
  rd_usages :: "benefit_usage list"

section \<open>Codes\<close>

definition getReferralCode :: "int \<Rightarrow> string" where
  "getReferralCode customerId = ''FIN'' @ show_int customerId"

text \<open>The columns of codes compare exactly here; both sides are in upper case.\<close>

definition code_id :: "string \<Rightarrow> int option" where
  "code_id cleanCode =
     (if take 3 cleanCode = ''FIN''
      then let rawId = drop 3 cleanCode in
           if rawId \<noteq> [] \<and> list_all is_digit rawId then Some (digits_value rawId) else None
      else None)"

definition findCustomerByReferralCode :: "string \<Rightarrow> customer list \<Rightarrow> customer option" where
  "findCustomerByReferralCode code t =
     (if code = [] then None
      else let cleanCode = to_upper (trim_str code);
               byId = (case code_id cleanCode of None \<Rightarrow> None | Some i \<Rightarrow> find_unique cm_id i t)
           in case byId of Some c \<Rightarrow> Some c | None \<Rightarrow> List.find (\<lambda>c. cm_code c = cleanCode) t)"

text \<open>\<open>replace(/(?<=.{2}).(?=.*@|.*)/g, '*')\<close>: a character two others stand before is hidden; a
  line break is no character for the dot.\<close>

definition dot_char :: "char \<Rightarrow> bool" where
  "dot_char c \<longleftrightarrow> of_char c \<noteq> (10::nat) \<and> of_char c \<noteq> (13::nat)"

definition maskName :: "string \<Rightarrow> string" where
  "maskName s =
     map (\<lambda>i. if 2 \<le> i \<and> dot_char (s ! i) \<and> dot_char (s ! (i - 1)) \<and> dot_char (s ! (i - 2))
              then CHR ''*'' else s ! i) [0..<length s]"

record code_answer =
  an_valid :: bool
  an_code :: string
  an_name :: string

definition validateReferralCode :: "string \<Rightarrow> customer list \<Rightarrow> http_error + code_answer" where
  "validateReferralCode code t =
     (if code = [] then Inl (BadRequest ''Referral code is required.'')
      else case findCustomerByReferralCode code t of
        None \<Rightarrow> Inr \<lparr>an_valid = False, an_code = [], an_name = []\<rparr>
      | Some c \<Rightarrow>
          Inr \<lparr>an_valid = True, an_code = to_upper code,
               an_name = (case truthy_str (cm_fullName c) of Some n \<Rightarrow> maskName n
                          | None \<Rightarrow> ''Existing Customer'')\<rparr>)"

section \<open>Registration\<close>

text \<open>
  The row refers to both customers, holds at most 30 characters of the code, and is unique for
  the referred customer. \<open>visible\<close> is what the reading connection sees of the customers.
\<close>

definition insert_mapping ::
  "customer list \<Rightarrow> referral_mapping \<Rightarrow> referral_mapping list \<Rightarrow> http_error + referral_mapping list" where
  "insert_mapping visible m t =
     (if 30 < length (rf_code m) then Inl (DbError ''P2000'')
      else if rf_referred m \<in> set (map rf_referred t) then Inl (DbError ''P2002'')
      else if \<not> {rf_referrer m, rf_referred m} \<subseteq> cm_id ` set visible then Inl (DbError ''P2003'')
      else Inr (t @ [m]))"

definition recordReferralRegistration ::
  "int \<Rightarrow> string \<Rightarrow> int \<Rightarrow> customer list \<Rightarrow> referral_mapping list \<Rightarrow>
   (http_error + referral_mapping option) \<times> referral_mapping list" where
  "recordReferralRegistration referredCustomerId referralCode newId visible t =
     (if referralCode = [] \<or> referredCustomerId = 0 then (Inr None, t)
      else let cleanCode = to_upper (trim_str referralCode) in
           case findCustomerByReferralCode cleanCode visible of
             None \<Rightarrow> (Inr None, t)
           | Some referrer \<Rightarrow>
               if cm_id referrer = referredCustomerId then (Inr None, t)
               else case find_unique rf_referred referredCustomerId t of
                 Some e \<Rightarrow> (Inr (Some e), t)
               | None \<Rightarrow>
                   let m = \<lparr>rf_id = newId, rf_referrer = cm_id referrer, rf_referred = referredCustomerId,
                            rf_code = cleanCode, rf_status = RF_PENDING, rf_disbursedAt = None\<rparr>
                   in case insert_mapping visible m t of
                        Inl e \<Rightarrow> (Inl e, t)
                      | Inr t' \<Rightarrow> (Inr (Some m), t'))"

section \<open>The benefit\<close>

definition activeCampaign :: "campaign list \<Rightarrow> campaign option" where
  "activeCampaign t =
     (case sort_key (\<lambda>c. - cp_createdAt c) (filter cp_active t) of [] \<Rightarrow> None | c # _ \<Rightarrow> Some c)"

definition or_default :: "int \<Rightarrow> int \<Rightarrow> int" where
  "or_default n d = (if n = 0 then d else n)"

text \<open>A \<open>DateTime\<close> column holds years up to 9999.\<close>

definition MAX_DATETIME :: time where
  "MAX_DATETIME = 253402300800000"

definition new_benefit :: "int \<Rightarrow> referral_mapping \<Rightarrow> campaign option \<Rightarrow> time \<Rightarrow> benefit" where
  "new_benefit newId m ac now =
     \<lparr>bn_id = newId, bn_customerId = rf_referrer m, bn_campaignId = map_option cp_id ac,
      bn_sourceReferralId = rf_id m,
      bn_discountType = (case ac of Some c \<Rightarrow> cp_discountType c | None \<Rightarrow> PERCENTAGE),
      bn_discountValue = (case ac of Some c \<Rightarrow> cp_discountValue c | None \<Rightarrow> 50),
      bn_maxDiscountLimit = (case ac of Some c \<Rightarrow> cp_maxDiscountLimit c | None \<Rightarrow> 1000),
      bn_status = B_AVAILABLE,
      bn_expiryDate = now + (case ac of Some c \<Rightarrow> or_default (cp_validityDays c) 90 | None \<Rightarrow> 90) * DAY_MS\<rparr>"

text \<open>The read of \<open>onLoanDisbursed\<close> and the writes after it, each a statement of its own. An
  exception is caught and what was written before it stays.\<close>

definition disbursed_read :: "int \<Rightarrow> referral_db \<Rightarrow> referral_mapping option" where
  "disbursed_read customerId db =
     (case find_unique rf_referred customerId (rd_mappings db) of
        None \<Rightarrow> None
      | Some m \<Rightarrow> if rf_status m = RF_QUALIFIED then None else Some m)"

definition disbursed_write :: "int \<Rightarrow> referral_mapping \<Rightarrow> time \<Rightarrow> referral_db \<Rightarrow> referral_db" where
  "disbursed_write newId m now db =
     (let db1 = db\<lparr>rd_mappings := update_many (\<lambda>r. rf_id r = rf_id m)
                     (\<lambda>r. r\<lparr>rf_status := RF_QUALIFIED, rf_disbursedAt := Some now\<rparr>) (rd_mappings db)\<rparr>;
          b = new_benefit newId m (activeCampaign (rd_campaigns db)) now
      in if bn_expiryDate b < MAX_DATETIME then db1\<lparr>rd_benefits := rd_benefits db @ [b]\<rparr> else db1)"

definition onLoanDisbursed :: "int \<Rightarrow> int \<Rightarrow> time \<Rightarrow> referral_db \<Rightarrow> referral_db" where
  "onLoanDisbursed newId customerId now db =
     (case disbursed_read customerId db of None \<Rightarrow> db | Some m \<Rightarrow> disbursed_write newId m now db)"

section \<open>The discount\<close>

definition available_benefits :: "int \<Rightarrow> time \<Rightarrow> referral_db \<Rightarrow> benefit list" where
  "available_benefits customerId now db =
     sort_key bn_expiryDate
       (filter (\<lambda>b. bn_customerId b = customerId \<and> bn_status b = B_AVAILABLE \<and> now < bn_expiryDate b) (rd_benefits db))"

definition minLoanNum :: "referral_db \<Rightarrow> benefit \<Rightarrow> int" where
  "minLoanNum db b =
     (case bn_campaignId b of
        None \<Rightarrow> 2
      | Some i \<Rightarrow> (case find_unique cp_id i (rd_campaigns db) of
                     None \<Rightarrow> 2 | Some c \<Rightarrow> or_default (cp_applicableLoanNumber c) 2))"

definition getAvailableBenefitForCustomer :: "int \<Rightarrow> rat \<Rightarrow> time \<Rightarrow> referral_db \<Rightarrow> benefit option" where
  "getAvailableBenefitForCustomer customerId loanNumber now db =
     (case available_benefits customerId now db of
        [] \<Rightarrow> None
      | b # bs \<Rightarrow>
          (case List.find (\<lambda>b. of_int (minLoanNum db b) \<le> loanNumber) (b # bs) of
             Some e \<Rightarrow> Some e
           | None \<Rightarrow> Some b))"

record fee_calculation =
  fc_original :: rat
  fc_discount :: rat
  fc_final :: rat
  fc_benefit :: "int option"

definition benefit_discount :: "benefit \<Rightarrow> rat \<Rightarrow> rat" where
  "benefit_discount b baseFee =
     (let calculated = (case bn_discountType b of
                          PERCENTAGE \<Rightarrow> of_int (js_round (dbl (dbl (baseFee * bn_discountValue b) / 100)))
                        | FIXED_AMOUNT \<Rightarrow> bn_discountValue b)
      in min (min calculated (bn_maxDiscountLimit b)) baseFee)"

definition calculateDiscountedProcessingFee :: "int \<Rightarrow> rat \<Rightarrow> rat \<Rightarrow> time \<Rightarrow> referral_db \<Rightarrow> fee_calculation" where
  "calculateDiscountedProcessingFee customerId baseFee loanNumber now db =
     (case getAvailableBenefitForCustomer customerId loanNumber now db of
        None \<Rightarrow> \<lparr>fc_original = baseFee, fc_discount = 0, fc_final = baseFee, fc_benefit = None\<rparr>
      | Some b \<Rightarrow>
          let d = benefit_discount b baseFee in
          \<lparr>fc_original = baseFee, fc_discount = d, fc_final = max 0 (dbl (baseFee - d)), fc_benefit = Some (bn_id b)\<rparr>)"

section \<open>Use\<close>

text \<open>The read of \<open>applyBenefitToLoan\<close>, and the two writes after it.\<close>

definition apply_read :: "int \<Rightarrow> referral_db \<Rightarrow> http_error option" where
  "apply_read benefitId db =
     (case find_unique bn_id benefitId (rd_benefits db) of
        Some b \<Rightarrow> if bn_status b = B_AVAILABLE then None
                  else Some (BadRequest ''Benefit is not available or already used.'')
      | None \<Rightarrow> Some (BadRequest ''Benefit is not available or already used.''))"

definition apply_write :: "int \<Rightarrow> int option \<Rightarrow> int option \<Rightarrow> fee_calculation \<Rightarrow> int \<Rightarrow> referral_db \<Rightarrow>
  (http_error + benefit_usage) \<times> referral_db" where
  "apply_write customerId loanId applicationId calc benefitId db =
     (if (case loanId of Some l \<Rightarrow> l \<notin> fst ` set (rd_loans db) | None \<Rightarrow> False)
        \<or> (case applicationId of Some a \<Rightarrow> a \<notin> set (rd_applications db) | None \<Rightarrow> False)
      then (Inl (DbError ''P2003''), db)
      else
        let u = \<lparr>bu_benefitId = benefitId, bu_customerId = customerId, bu_applicationId = applicationId,
                 bu_loanId = loanId, bu_original = fc_original calc, bu_discount = fc_discount calc,
                 bu_final = fc_final calc\<rparr>
        in (Inr u,
            db\<lparr>rd_usages := rd_usages db @ [u],
               rd_benefits := update_many (\<lambda>b. bn_id b = benefitId) (\<lambda>b. b\<lparr>bn_status := B_USED\<rparr>) (rd_benefits db)\<rparr>))"

definition applyBenefitToLoan :: "int \<Rightarrow> int option \<Rightarrow> int option \<Rightarrow> fee_calculation \<Rightarrow> int \<Rightarrow> referral_db \<Rightarrow>
  (http_error + benefit_usage) \<times> referral_db" where
  "applyBenefitToLoan customerId loanId applicationId calc benefitId db =
     (case apply_read benefitId db of
        Some e \<Rightarrow> (Inl e, db)
      | None \<Rightarrow> apply_write customerId loanId applicationId calc benefitId db)"

text \<open>The handler a customer calls. The fee, the number of the loan and the loan are of the body.\<close>

definition applyBenefit :: "int \<Rightarrow> rat \<Rightarrow> rat \<Rightarrow> int option \<Rightarrow> int option \<Rightarrow> time \<Rightarrow> referral_db \<Rightarrow>
  (http_error + fee_calculation) \<times> referral_db" where
  "applyBenefit customerId baseFee loanNumber loanId applicationId now db =
     (let calc = calculateDiscountedProcessingFee customerId baseFee (if loanNumber = 0 then 2 else loanNumber) now db in
      case (fc_benefit calc, loanId) of
        (Some b, Some l) \<Rightarrow>
          (case applyBenefitToLoan customerId (Some l) applicationId calc b db of
             (Inl e, db') \<Rightarrow> (Inl e, db')
           | (Inr u, db') \<Rightarrow> (Inr calc, db'))
      | _ \<Rightarrow> (Inr calc, db))"

section \<open>Administration\<close>

record campaign_dto =
  cd_campaignName :: "string option"
  cd_discountType :: "discount_type option"
  cd_discountValue :: "rat option"
  cd_maxDiscountLimit :: "rat option"
  cd_minReferralRequirement :: "int option"
  cd_applicableLoanNumber :: "int option"
  cd_validityDays :: "int option"
  cd_active :: "bool option"

text \<open>\<open>createCampaign\<close>: the type of the body declares the name and the two amounts as present;
  without them the row cannot be written.\<close>

definition opt_or :: "'a option \<Rightarrow> 'a \<Rightarrow> 'a" where
  "opt_or x d = (case x of None \<Rightarrow> d | Some v \<Rightarrow> v)"

definition createCampaign :: "campaign_dto \<Rightarrow> int \<Rightarrow> time \<Rightarrow> referral_db \<Rightarrow> (http_error + campaign) \<times> referral_db" where
  "createCampaign dto newId now db =
     (case (cd_campaignName dto, cd_discountValue dto, cd_maxDiscountLimit dto) of
        (Some n, Some v, Some l) \<Rightarrow>
          let c = \<lparr>cp_id = newId, cp_name = n, cp_discountType = opt_or (cd_discountType dto) PERCENTAGE,
                   cp_discountValue = v, cp_maxDiscountLimit = l,
                   cp_minReferralRequirement = opt_or (cd_minReferralRequirement dto) 1,
                   cp_applicableLoanNumber = opt_or (cd_applicableLoanNumber dto) 2,
                   cp_validityDays = opt_or (cd_validityDays dto) 90,
                   cp_active = opt_or (cd_active dto) True, cp_createdAt = now\<rparr>
          in (Inr c, db\<lparr>rd_campaigns := rd_campaigns db @ [c]\<rparr>)
      | _ \<Rightarrow> (Inl (ServerError ''Invalid campaign''), db))"

definition campaign_data :: "campaign_dto \<Rightarrow> campaign \<Rightarrow> campaign" where
  "campaign_data dto c =
     c\<lparr>cp_name := opt_or (cd_campaignName dto) (cp_name c),
       cp_discountType := opt_or (cd_discountType dto) (cp_discountType c),
       cp_discountValue := opt_or (cd_discountValue dto) (cp_discountValue c),
       cp_maxDiscountLimit := opt_or (cd_maxDiscountLimit dto) (cp_maxDiscountLimit c),
       cp_minReferralRequirement := opt_or (cd_minReferralRequirement dto) (cp_minReferralRequirement c),
       cp_applicableLoanNumber := opt_or (cd_applicableLoanNumber dto) (cp_applicableLoanNumber c),
       cp_validityDays := opt_or (cd_validityDays dto) (cp_validityDays c),
       cp_active := opt_or (cd_active dto) (cp_active c)\<rparr>"

definition updateCampaign :: "int \<Rightarrow> campaign_dto \<Rightarrow> referral_db \<Rightarrow> (http_error + campaign) \<times> referral_db" where
  "updateCampaign campaignId dto db =
     (case find_unique cp_id campaignId (rd_campaigns db) of
        None \<Rightarrow> (Inl (DbError ''P2025''), db)
      | Some c \<Rightarrow> (Inr (campaign_data dto c),
          db\<lparr>rd_campaigns := update_many (\<lambda>c. cp_id c = campaignId) (campaign_data dto) (rd_campaigns db)\<rparr>))"

definition benefit_data :: "benefit_status option \<Rightarrow> rat option \<Rightarrow> time option \<Rightarrow> benefit \<Rightarrow> benefit" where
  "benefit_data st cap expiry b =
     b\<lparr>bn_status := opt_or st (bn_status b), bn_maxDiscountLimit := opt_or cap (bn_maxDiscountLimit b),
       bn_expiryDate := opt_or expiry (bn_expiryDate b)\<rparr>"

definition adjustAdminBenefit :: "int \<Rightarrow> benefit_status option \<Rightarrow> rat option \<Rightarrow> time option \<Rightarrow> referral_db \<Rightarrow>
  (http_error + benefit) \<times> referral_db" where
  "adjustAdminBenefit benefitId st cap expiry db =
     (case find_unique bn_id benefitId (rd_benefits db) of
        None \<Rightarrow> (Inl (DbError ''P2025''), db)
      | Some b \<Rightarrow> (Inr (benefit_data st cap expiry b),
          db\<lparr>rd_benefits := update_many (\<lambda>b. bn_id b = benefitId) (benefit_data st cap expiry) (rd_benefits db)\<rparr>))"

section \<open>What a customer sees\<close>

record dashboard =
  db_referralCode :: string
  db_totalReferrals :: nat
  db_successfulReferrals :: nat
  db_availableDiscount :: rat
  db_usedDiscount :: rat
  db_expiryDate :: "time option"
  db_benefits :: nat

definition getReferralDashboard :: "int \<Rightarrow> time \<Rightarrow> referral_db \<Rightarrow> dashboard" where
  "getReferralDashboard customerId now db =
     (let ms = filter (\<lambda>m. rf_referrer m = customerId) (rd_mappings db);
          av = available_benefits customerId now db
      in \<lparr>db_referralCode = getReferralCode customerId,
          db_totalReferrals = length ms,
          db_successfulReferrals = count_rows (\<lambda>m. rf_status m = RF_QUALIFIED) ms,
          db_availableDiscount = foldl (\<lambda>acc b. max acc (bn_maxDiscountLimit b)) 0 av,
          db_usedDiscount = foldl (\<lambda>s u. dbl (s + bu_discount u)) 0
                              (filter (\<lambda>u. bu_customerId u = customerId) (rd_usages db)),
          db_expiryDate = (case av of [] \<Rightarrow> None | b # _ \<Rightarrow> Some (bn_expiryDate b)),
          db_benefits = length av\<rparr>)"

section \<open>Requests one after the other\<close>

text \<open>An autoincremented key is above all keys before it.\<close>

definition next_id :: "int list \<Rightarrow> int" where
  "next_id ids = foldr max ids 0 + 1"

datatype referral_op =
    Register int string
  | Disbursed int
  | ApplyBenefit int rat rat "int option" "int option"
  | CreateCampaign campaign_dto
  | UpdateCampaign int campaign_dto
  | AdjustBenefit int "benefit_status option" "rat option" "time option"

fun referral_serve :: "referral_op \<Rightarrow> time \<Rightarrow> referral_db \<Rightarrow> referral_db" where
  "referral_serve (Register c code) now db =
     db\<lparr>rd_mappings := snd (recordReferralRegistration c code (next_id (map rf_id (rd_mappings db)))
                              (rd_customers db) (rd_mappings db))\<rparr>"
| "referral_serve (Disbursed c) now db = onLoanDisbursed (next_id (map bn_id (rd_benefits db))) c now db"
| "referral_serve (ApplyBenefit c fee n l a) now db = snd (applyBenefit c fee n l a now db)"
| "referral_serve (CreateCampaign dto) now db = snd (createCampaign dto (next_id (map cp_id (rd_campaigns db))) now db)"
| "referral_serve (UpdateCampaign i dto) now db = snd (updateCampaign i dto db)"
| "referral_serve (AdjustBenefit i st cap e) now db = snd (adjustAdminBenefit i st cap e db)"

fun referral_run :: "(referral_op \<times> time) list \<Rightarrow> referral_db \<Rightarrow> referral_db" where
  "referral_run [] db = db"
| "referral_run ((r, now) # rs) db = referral_run rs (referral_serve r now db)"

fun makes_available :: "referral_op \<Rightarrow> bool" where
  "makes_available (AdjustBenefit i st cap e) = (st = Some B_AVAILABLE)"
| "makes_available r = False"

section \<open>Lemmas\<close>

lemma next_id_fresh: "i \<in> set ids \<Longrightarrow> i < next_id ids"
  by (induction ids) (auto simp: next_id_def)

lemma next_id_not_in: "next_id ids \<notin> set ids"
  using next_id_fresh by fastforce

text \<open>A mapping ties two different customers, a customer is referred once.\<close>

definition mappings_ok :: "referral_mapping list \<Rightarrow> bool" where
  "mappings_ok t \<longleftrightarrow> unique_keys rf_id t \<and> unique_keys rf_referred t
     \<and> list_all (\<lambda>m. rf_referrer m \<noteq> rf_referred m) t"

text \<open>A benefit comes from a qualified referral and is the only one of it.\<close>

definition benefits_ok :: "referral_mapping list \<Rightarrow> benefit list \<Rightarrow> bool" where
  "benefits_ok ms bs \<longleftrightarrow> unique_keys bn_id bs \<and> unique_keys bn_sourceReferralId bs
     \<and> list_all (\<lambda>b. \<exists>m\<in>set ms. rf_id m = bn_sourceReferralId b \<and> rf_status m = RF_QUALIFIED
                              \<and> rf_referrer m = bn_customerId b) bs"

text \<open>A benefit is used once, by its owner, and is available no more.\<close>

definition usages_ok :: "benefit list \<Rightarrow> benefit_usage list \<Rightarrow> bool" where
  "usages_ok bs us \<longleftrightarrow> unique_keys bu_benefitId us
     \<and> list_all (\<lambda>u. \<exists>b\<in>set bs. bn_id b = bu_benefitId u \<and> bn_customerId b = bu_customerId u
                              \<and> bn_status b \<noteq> B_AVAILABLE) us"

definition referrals_inv :: "referral_db \<Rightarrow> bool" where
  "referrals_inv db \<longleftrightarrow> mappings_ok (rd_mappings db) \<and> benefits_ok (rd_mappings db) (rd_benefits db)
     \<and> usages_ok (rd_benefits db) (rd_usages db)"

lemma recordReferralRegistration_cases:
  "snd (recordReferralRegistration c code newId vis t) = t
   \<or> (\<exists>m. snd (recordReferralRegistration c code newId vis t) = t @ [m] \<and> rf_id m = newId \<and> rf_referred m = c
        \<and> rf_referrer m \<noteq> c \<and> rf_status m = RF_PENDING \<and> c \<notin> rf_referred ` set t
        \<and> {rf_referrer m, c} \<subseteq> cm_id ` set vis)"
  by (auto simp: recordReferralRegistration_def insert_mapping_def Let_def split: option.split)

lemma mappings_ok_snoc:
  "mappings_ok (t @ [m]) \<longleftrightarrow> mappings_ok t \<and> rf_id m \<notin> rf_id ` set t \<and> rf_referred m \<notin> rf_referred ` set t
     \<and> rf_referrer m \<noteq> rf_referred m"
  by (auto simp: mappings_ok_def)

lemma benefits_ok_mono:
  assumes "benefits_ok ms bs"
    and "\<And>m. m \<in> set ms \<Longrightarrow> rf_status m = RF_QUALIFIED \<Longrightarrow>
      \<exists>m'\<in>set ms'. rf_id m' = rf_id m \<and> rf_status m' = RF_QUALIFIED \<and> rf_referrer m' = rf_referrer m"
  shows "benefits_ok ms' bs"
  using assms unfolding benefits_ok_def list_all_iff by (metis (no_types, lifting))

lemma usages_ok_mono:
  assumes "usages_ok bs us"
    and "\<And>b. b \<in> set bs \<Longrightarrow> bn_status b \<noteq> B_AVAILABLE \<Longrightarrow>
      \<exists>b'\<in>set bs'. bn_id b' = bn_id b \<and> bn_customerId b' = bn_customerId b \<and> bn_status b' \<noteq> B_AVAILABLE"
  shows "usages_ok bs' us"
  using assms unfolding usages_ok_def list_all_iff by (metis (no_types, lifting))

lemma register_inv:
  assumes "referrals_inv db"
  shows "referrals_inv (referral_serve (Register c code) now db)"
proof -
  let ?r = "snd (recordReferralRegistration c code (next_id (map rf_id (rd_mappings db))) (rd_customers db) (rd_mappings db))"
  consider "?r = rd_mappings db"
    | m where "?r = rd_mappings db @ [m]" "rf_id m = next_id (map rf_id (rd_mappings db))" "rf_referred m = c"
        "rf_referrer m \<noteq> c" "c \<notin> rf_referred ` set (rd_mappings db)"
    using recordReferralRegistration_cases by (metis (no_types, lifting))
  then show ?thesis
  proof cases
    case 1
    then show ?thesis using assms by (simp add: referrals_inv_def)
  next
    case 2
    have "benefits_ok (rd_mappings db @ [m]) (rd_benefits db)"
      by (rule benefits_ok_mono [of "rd_mappings db"]) (use assms in \<open>auto simp: referrals_inv_def\<close>)
    moreover have "rf_id m \<notin> rf_id ` set (rd_mappings db)"
      using next_id_not_in [of "map rf_id (rd_mappings db)"] 2(2) by simp
    ultimately show ?thesis using assms 2 by (simp add: referrals_inv_def mappings_ok_snoc)
  qed
qed

lemma update_many_ex:
  "r \<in> set t \<Longrightarrow> Q (if P r then f r else r) \<Longrightarrow> \<exists>r'\<in>set (update_many P f t). Q r'"
  unfolding set_update_many by (rule bexI, assumption) (rule imageI)

lemma disbursed_read_Some:
  "disbursed_read c db = Some m \<Longrightarrow> m \<in> set (rd_mappings db) \<and> rf_referred m = c \<and> rf_status m \<noteq> RF_QUALIFIED"
  by (auto simp: disbursed_read_def dest: find_unique_Some_D split: option.splits if_splits)

lemma disbursed_inv:
  assumes "referrals_inv db"
  shows "referrals_inv (referral_serve (Disbursed c) now db)"
proof (cases "disbursed_read c db")
  case None
  then show ?thesis using assms by (simp add: onLoanDisbursed_def)
next
  case (Some m)
  let ?i = "next_id (map bn_id (rd_benefits db))"
  let ?q = "\<lambda>r. r\<lparr>rf_status := RF_QUALIFIED, rf_disbursedAt := Some now\<rparr>"
  let ?ms = "update_many (\<lambda>r. rf_id r = rf_id m) ?q (rd_mappings db)"
  let ?b = "new_benefit ?i m (activeCampaign (rd_campaigns db)) now"
  note m = disbursed_read_Some [OF Some]
  have ok: "mappings_ok (rd_mappings db)" "benefits_ok (rd_mappings db) (rd_benefits db)"
    "usages_ok (rd_benefits db) (rd_usages db)"
    using assms by (simp_all add: referrals_inv_def)
  have q: "?q m \<in> set ?ms" using m by (auto simp: set_update_many)
  have ms: "mappings_ok ?ms"
    using ok(1) by (auto simp: mappings_ok_def list_all_iff set_update_many intro!: unique_keys_update_many)
  have old: "benefits_ok ?ms (rd_benefits db)"
    by (rule benefits_ok_mono [OF ok(2)]) (rule update_many_ex, auto)
  have "rf_id m \<notin> bn_sourceReferralId ` set (rd_benefits db)"
  proof
    assume "rf_id m \<in> bn_sourceReferralId ` set (rd_benefits db)"
    then obtain b where "b \<in> set (rd_benefits db)" "bn_sourceReferralId b = rf_id m" by force
    then obtain m' where "m' \<in> set (rd_mappings db)" "rf_id m' = rf_id m" "rf_status m' = RF_QUALIFIED"
      using ok(2) unfolding benefits_ok_def list_all_iff by fastforce
    then show False using m ok(1) unique_keys_eq [of rf_id "rd_mappings db" m m'] by (auto simp: mappings_ok_def)
  qed
  moreover have "?i \<notin> bn_id ` set (rd_benefits db)" using next_id_not_in [of "map bn_id (rd_benefits db)"] by simp
  ultimately have new: "benefits_ok ?ms (rd_benefits db @ [?b])"
    using old q by (auto simp: benefits_ok_def new_benefit_def intro: bexI [of _ "?q m"])
  have us: "usages_ok (rd_benefits db @ [?b]) (rd_usages db)"
    by (rule usages_ok_mono [OF ok(3)]) auto
  show ?thesis using ms old new us ok Some
    by (simp add: onLoanDisbursed_def disbursed_write_def Let_def referrals_inv_def)
qed

lemma getAvailableBenefit_Some:
  assumes "getAvailableBenefitForCustomer c n now db = Some b"
  shows "b \<in> set (rd_benefits db) \<and> bn_customerId b = c \<and> bn_status b = B_AVAILABLE \<and> now < bn_expiryDate b"
proof -
  have "b \<in> set (available_benefits c now db)"
    using assms by (auto simp: getAvailableBenefitForCustomer_def find_Some_iff in_set_conv_nth
        split: list.splits option.splits if_splits)
  then show ?thesis by (simp add: available_benefits_def)
qed

lemma benefit_update_ok:
  assumes "benefits_ok ms bs" and "\<And>b. bn_id (f b) = bn_id b \<and> bn_sourceReferralId (f b) = bn_sourceReferralId b
     \<and> bn_customerId (f b) = bn_customerId b"
  shows "benefits_ok ms (update_many P f bs)"
  using assms by (auto simp: benefits_ok_def list_all_iff set_update_many intro!: unique_keys_update_many)

lemma use_inv:
  assumes "referrals_inv db" and "getAvailableBenefitForCustomer c n now db = Some b"
  shows "referrals_inv (snd (apply_write c l a calc (bn_id b) db))"
proof -
  let ?bs = "update_many (\<lambda>r. bn_id r = bn_id b) (\<lambda>r. r\<lparr>bn_status := B_USED\<rparr>) (rd_benefits db)"
  note b = getAvailableBenefit_Some [OF assms(2)]
  have ok: "mappings_ok (rd_mappings db)" "benefits_ok (rd_mappings db) (rd_benefits db)"
    "usages_ok (rd_benefits db) (rd_usages db)"
    using assms(1) by (simp_all add: referrals_inv_def)
  have bs: "benefits_ok (rd_mappings db) ?bs" by (rule benefit_update_ok [OF ok(2)]) simp
  have us: "usages_ok ?bs (rd_usages db)"
    by (rule usages_ok_mono [OF ok(3)]) (rule update_many_ex, auto)
  have fresh: "bn_id b \<notin> bu_benefitId ` set (rd_usages db)"
  proof
    assume "bn_id b \<in> bu_benefitId ` set (rd_usages db)"
    then obtain u where "u \<in> set (rd_usages db)" "bu_benefitId u = bn_id b" by force
    then obtain b' where "b' \<in> set (rd_benefits db)" "bn_id b' = bn_id b" "bn_status b' \<noteq> B_AVAILABLE"
      using ok(3) unfolding usages_ok_def list_all_iff by fastforce
    then show False using b ok(2) unique_keys_eq [of bn_id "rd_benefits db" b b'] by (auto simp: benefits_ok_def)
  qed
  have "\<exists>b'\<in>set ?bs. bn_id b' = bn_id b \<and> bn_customerId b' = c \<and> bn_status b' \<noteq> B_AVAILABLE"
    using b by (intro update_many_ex [of b]) auto
  then show ?thesis using ok bs us fresh
    by (auto simp: apply_write_def Let_def referrals_inv_def usages_ok_def)
qed

lemma apply_inv:
  assumes "referrals_inv db"
  shows "referrals_inv (snd (applyBenefit c fee n l a now db))"
proof (cases "getAvailableBenefitForCustomer c (if n = 0 then 2 else n) now db")
  case None
  then show ?thesis using assms by (simp add: applyBenefit_def calculateDiscountedProcessingFee_def Let_def)
next
  case (Some b)
  let ?calc = "calculateDiscountedProcessingFee c fee (if n = 0 then 2 else n) now db"
  have calc: "fc_benefit ?calc = Some (bn_id b)"
    by (simp add: calculateDiscountedProcessingFee_def Some Let_def)
  have use: "referrals_inv (snd (applyBenefitToLoan c l a ?calc (bn_id b) db))" for l
    using assms use_inv [OF assms Some] by (simp add: applyBenefitToLoan_def split: option.split)
  show ?thesis
    using assms use by (auto simp: applyBenefit_def calc Let_def split: option.split prod.splits sum.splits)
      (metis snd_conv)+
qed

lemma adjust_inv:
  assumes "referrals_inv db" and "st \<noteq> Some B_AVAILABLE"
  shows "referrals_inv (snd (adjustAdminBenefit i st cap e db))"
proof -
  let ?bs = "update_many (\<lambda>b. bn_id b = i) (benefit_data st cap e) (rd_benefits db)"
  have "benefits_ok (rd_mappings db) ?bs"
    by (rule benefit_update_ok) (use assms(1) in \<open>auto simp: referrals_inv_def benefit_data_def\<close>)
  moreover have "usages_ok ?bs (rd_usages db)"
    by (rule usages_ok_mono [of "rd_benefits db"])
      (use assms in \<open>auto simp: referrals_inv_def\<close>, rule update_many_ex,
       use assms(2) in \<open>auto simp: benefit_data_def opt_or_def split: option.splits\<close>)
  ultimately show ?thesis using assms(1)
    by (auto simp: adjustAdminBenefit_def referrals_inv_def split: option.split)
qed

lemma campaigns_inv: "referrals_inv (db\<lparr>rd_campaigns := cs\<rparr>) = referrals_inv db"
  by (simp add: referrals_inv_def)

lemma serve_inv:
  assumes "referrals_inv db" and "\<not> makes_available r"
  shows "referrals_inv (referral_serve r now db)"
proof (cases r)
  case (CreateCampaign dto)
  then show ?thesis using assms
    by (simp add: createCampaign_def Let_def campaigns_inv split: option.split)
next
  case (UpdateCampaign i dto)
  then show ?thesis using assms by (simp add: updateCampaign_def campaigns_inv split: option.split)
qed (use assms register_inv disbursed_inv apply_inv adjust_inv in simp_all)

section \<open>Properties\<close>

text \<open>C40. One referrer, one benefit, one use: whatever customers and administrators request one
  after the other, a customer is referred at most once and never by themself, a referral gives at
  most one benefit, to the referrer and only once it is qualified, and a benefit is used at most
  once, by its owner, as long as no administrator's request sets the status of a benefit to
  available, whatever status the benefit has; an administrator's requests with any other status are
  included.\<close>

theorem referrals_serial:
  assumes "referrals_inv db" and "list_all (\<lambda>(r, now). \<not> makes_available r) rs"
  shows "referrals_inv (referral_run rs db)"
  using assms
proof (induction rs arbitrary: db)
  case (Cons x rs)
  obtain r now where "x = (r, now)" by fastforce
  with Cons show ?case by (simp add: serve_inv)
qed simp

lemma digit_keeps: "is_digit c \<Longrightarrow> upper_char c = c \<and> \<not> is_space c"
  by (auto simp: is_digit_def upper_char_def is_lower_def is_space_def)

lemma code_id_getReferralCode: "0 \<le> i \<Longrightarrow> code_id (getReferralCode i) = Some i"
  using show_nat_digits [of "nat i"]
  by (simp add: code_id_def getReferralCode_def show_int_nonneg digits_value_show_nat)

lemma upper_char_space: "is_space (upper_char c) = is_space c"
proof (cases "is_lower c")
  case True
  then have r: "(of_char c :: nat) \<in> {97..122}" by (simp add: is_lower_def)
  then have "((of_char c :: nat) - 32) mod 256 = of_char c - 32" by (intro mod_less) auto
  with r have "(of_char (upper_char c) :: nat) = of_char c - 32"
    using True by (simp add: upper_char_def of_char_of)
  with r show ?thesis by (auto simp: is_space_def)
qed (simp add: upper_char_def)

lemma trim_padded:
  assumes "list_all is_space u" and "list_all is_space v" and "list_all (\<lambda>c. \<not> is_space c) w"
  shows "trim_str (u @ w @ v) = w"
proof (cases "w = []")
  case True
  then show ?thesis using assms by (simp add: trim_str_def list_all_iff dropWhile_eq_Nil_conv [THEN iffD2])
next
  case False
  then obtain a b where "w = a # b" by (cases w) auto
  then have 1: "dropWhile is_space (u @ w @ v) = w @ v"
    using assms by (simp add: list_all_iff)
  obtain c d where "rev w = c # d" "\<not> is_space c"
    using False assms(3) by (cases "rev w") (auto simp: list_all_iff dest: arg_cong [where f = set])
  moreover have "dropWhile is_space (rev v @ rev w) = dropWhile is_space (rev w)"
    using assms(2) by (intro dropWhile_append2) (simp add: list_all_iff)
  ultimately have "dropWhile is_space (rev (w @ v)) = rev w" by simp
  with 1 show ?thesis by (simp add: trim_str_def)
qed

text \<open>A referral code names its customer: the code made of a customer's number, in letters of
  either case and with spaces around it, finds that customer again.\<close>

theorem referral_code_roundtrip:
  assumes "unique_keys cm_id t" and "c \<in> set t" and "0 \<le> cm_id c"
    and "to_upper w = getReferralCode (cm_id c)"
    and "list_all is_space u" and "list_all is_space v"
  shows "findCustomerByReferralCode (u @ w @ v) t = Some c"
proof -
  have "list_all (\<lambda>x. \<not> is_space x) (getReferralCode (cm_id c))"
    using show_nat_digits [of "nat (cm_id c)"] assms(3)
    by (auto simp: getReferralCode_def show_int_nonneg list_all_iff is_space_def is_digit_def)
  then have "list_all (\<lambda>x. \<not> is_space x) w"
    using assms(4) by (auto simp: to_upper_def list_all_iff upper_char_space simp flip: assms(4))
  then have "to_upper (trim_str (u @ w @ v)) = getReferralCode (cm_id c)"
    using assms by (simp add: trim_padded)
  moreover have "w \<noteq> []" using assms(4) by (auto simp: getReferralCode_def to_upper_def)
  ultimately show ?thesis
    using assms by (simp add: findCustomerByReferralCode_def code_id_getReferralCode find_unique_in_set)
qed

text \<open>The discount stays in its limits: with amounts that are not negative the discount on a
  processing fee is neither negative, nor above the limit of the benefit, nor above the fee, and
  what is left to pay is the difference up to the rounding of the last subtraction.\<close>

theorem fee_discount_bounds:
  assumes "getAvailableBenefitForCustomer c n now db = Some b"
    and "0 \<le> bn_discountValue b" and "0 \<le> bn_maxDiscountLimit b" and "0 \<le> fee"
    and "calculateDiscountedProcessingFee c fee n now db = r"
  shows "0 \<le> fc_discount r \<and> fc_discount r \<le> bn_maxDiscountLimit b \<and> fc_discount r \<le> fee
      \<and> 0 \<le> fc_final r \<and> \<bar>fc_final r - (fee - fc_discount r)\<bar> \<le> (fee - fc_discount r) / 2 ^ 53"
proof -
  let ?d = "benefit_discount b fee"
  have "0 \<le> js_round (dbl (dbl (fee * bn_discountValue b) / 100))"
    using dbl_nonneg [of "dbl (fee * bn_discountValue b) / 100"] dbl_nonneg [of "fee * bn_discountValue b"] assms
    by (simp add: js_round_def)
  then have d: "0 \<le> ?d" "?d \<le> bn_maxDiscountLimit b" "?d \<le> fee"
    using assms by (simp_all add: benefit_discount_def Let_def split: discount_type.split)
  then have "max 0 (dbl (fee - ?d)) = dbl (fee - ?d)" using dbl_nonneg [of "fee - ?d"] by simp
  with d dbl_error [of "fee - ?d"] assms(1,5) dbl_nonneg [of "fee - ?d"] show ?thesis
    by (auto simp: calculateDiscountedProcessingFee_def Let_def)
qed

text \<open>The number of the loan a campaign asks for never keeps a benefit back: where it excludes
  every available benefit, the one that expires first is given all the same.\<close>

theorem loan_number_ignored:
  "getAvailableBenefitForCustomer c n now db = None \<longleftrightarrow> available_benefits c now db = []"
  by (auto simp: getAvailableBenefitForCustomer_def split: list.split option.split)

text \<open>The number of referrals a campaign asks for is never looked at: the benefits created are
  the same whatever it is.\<close>

theorem referral_requirement_ignored:
  "rd_benefits (onLoanDisbursed i c now (db\<lparr>rd_campaigns := map (\<lambda>c. c\<lparr>cp_minReferralRequirement := k\<rparr>) (rd_campaigns db)\<rparr>))
   = rd_benefits (onLoanDisbursed i c now db)"
proof -
  let ?f = "\<lambda>c. c\<lparr>cp_minReferralRequirement := k\<rparr>"
  have ins: "insort_key (\<lambda>c. - cp_createdAt c) (?f x) (map ?f xs) = map ?f (insort_key (\<lambda>c. - cp_createdAt c) x xs)" for x xs
    by (induction xs) auto
  have srt: "sort_key (\<lambda>c. - cp_createdAt c) (map ?f xs) = map ?f (sort_key (\<lambda>c. - cp_createdAt c) xs)" for xs
    by (induction xs) (simp_all add: ins)
  have flt: "filter cp_active (map ?f xs) = map ?f (filter cp_active xs)" for xs
    by (induction xs) auto
  have "activeCampaign (map ?f xs) = map_option ?f (activeCampaign xs)" for xs
    unfolding activeCampaign_def flt srt
    by (cases "sort_key (\<lambda>c. - cp_createdAt c) (filter cp_active xs)") simp_all
  moreover have "new_benefit i m (map_option ?f ac) now = new_benefit i m ac now" for m ac
    by (cases ac) (simp_all add: new_benefit_def)
  ultimately show ?thesis
    by (simp add: onLoanDisbursed_def disbursed_read_def disbursed_write_def Let_def split: option.split)
qed

text \<open>Two loans of a referred customer paid out at the same moment give the referrer two
  benefits: both calls read the referral before either has marked it as qualified.\<close>

theorem two_disbursals_two_benefits:
  assumes "disbursed_read c db = Some m"
    and "bn_expiryDate (new_benefit i m (activeCampaign (rd_campaigns db)) now) < MAX_DATETIME"
  shows "rd_benefits (disbursed_write j m now (disbursed_write i m now db)) =
    rd_benefits db @ [new_benefit i m (activeCampaign (rd_campaigns db)) now,
                      new_benefit j m (activeCampaign (rd_campaigns db)) now]"
proof -
  have "bn_expiryDate (new_benefit j m ac now) = bn_expiryDate (new_benefit i m ac now)" for ac
    by (simp add: new_benefit_def)
  with assms(2) show ?thesis by (simp add: disbursed_write_def Let_def)
qed

text \<open>A discount that could not be written is lost: where the campaign lasts beyond the dates a
  column can hold, the referral is qualified, no benefit is created, and no later payout creates one.\<close>

theorem qualified_without_benefit:
  assumes "disbursed_read c db = Some m" and "unique_keys rf_referred (rd_mappings db)"
    and "MAX_DATETIME \<le> bn_expiryDate (new_benefit i m (activeCampaign (rd_campaigns db)) now)"
  shows "rd_benefits (onLoanDisbursed i c now db) = rd_benefits db
    \<and> onLoanDisbursed j c later (onLoanDisbursed i c now db) = onLoanDisbursed i c now db"
proof -
  let ?q = "\<lambda>r. r\<lparr>rf_status := RF_QUALIFIED, rf_disbursedAt := Some now\<rparr>"
  let ?ms = "update_many (\<lambda>r. rf_id r = rf_id m) ?q (rd_mappings db)"
  have w: "onLoanDisbursed i c now db = db\<lparr>rd_mappings := ?ms\<rparr>"
    using assms(1,3) by (simp add: onLoanDisbursed_def disbursed_write_def Let_def)
  have "?q m \<in> set ?ms" using disbursed_read_Some [OF assms(1)] by (auto simp: set_update_many)
  moreover have "unique_keys rf_referred ?ms" using assms(2) by (intro unique_keys_update_many) simp_all
  moreover have "rf_referred (?q m) = c" using disbursed_read_Some [OF assms(1)] by simp
  ultimately have "find_unique rf_referred c ?ms = Some (?q m)" by (metis find_unique_in_set)
  then have "disbursed_read c (db\<lparr>rd_mappings := ?ms\<rparr>) = None" by (simp add: disbursed_read_def)
  then have "onLoanDisbursed j c later (db\<lparr>rd_mappings := ?ms\<rparr>) = db\<lparr>rd_mappings := ?ms\<rparr>"
    by (simp add: onLoanDisbursed_def)
  then show ?thesis by (simp add: w)
qed

text \<open>A campaign with a negative fixed discount is accepted and raises the fee: no value of a
  campaign is checked, and the discount has no lower limit.\<close>

theorem negative_discount_raises_fee:
  assumes "getAvailableBenefitForCustomer c n now db = Some b" and "bn_discountType b = FIXED_AMOUNT"
    and "bn_discountValue b = - v" and "0 < v" and "0 \<le> bn_maxDiscountLimit b"
    and "whole v" and "whole fee" and "calculateDiscountedProcessingFee c fee n now db = r"
  shows "fc_final r = fee + v"
proof -
  have "benefit_discount b fee = - v" using assms(2-7)
    by (simp add: benefit_discount_def Let_def whole_def min_def)
  moreover have "0 \<le> fee + v" using assms(6,7) by (simp add: whole_def)
  ultimately show ?thesis using assms(1,8) dbl_add [OF assms(7) assms(6)]
    by (auto simp: calculateDiscountedProcessingFee_def Let_def)
qed

text \<open>A customer uses up a benefit on any loan and any fee: the loan may be another customer's,
  and the fee and the discount recorded are those of the request.\<close>

theorem benefit_on_any_loan:
  assumes "getAvailableBenefitForCustomer c 2 now db = Some b" and "unique_keys bn_id (rd_benefits db)"
    and "(l, owner) \<in> set (rd_loans db)" and "owner \<noteq> c"
  shows "\<exists>u. rd_usages (snd (applyBenefit c fee 2 (Some l) None now db)) = rd_usages db @ [u]
    \<and> bu_loanId u = Some l \<and> bu_customerId u = c \<and> bu_original u = fee"
proof -
  note b = getAvailableBenefit_Some [OF assms(1)]
  have "find_unique bn_id (bn_id b) (rd_benefits db) = Some b" using b assms(2) by (simp add: find_unique_in_set)
  moreover have "l \<in> fst ` set (rd_loans db)" using assms(3) by force
  ultimately show ?thesis using assms(1) b
    by (simp add: applyBenefit_def calculateDiscountedProcessingFee_def Let_def applyBenefitToLoan_def
        apply_read_def apply_write_def)
qed

text \<open>Two requests at the same moment use one benefit twice: both find it available before
  either has marked it as used.\<close>

theorem benefit_used_twice:
  assumes "apply_read i db = None" and "l \<in> fst ` set (rd_loans db)" and "l' \<in> fst ` set (rd_loans db)"
  shows "length (filter (\<lambda>u. bu_benefitId u = i)
      (rd_usages (snd (apply_write c (Some l') None calc i (snd (apply_write c (Some l) None calc i db))))))
    = length (filter (\<lambda>u. bu_benefitId u = i) (rd_usages db)) + 2"
  using assms(2,3) by (simp add: apply_write_def Let_def)

section \<open>Witnesses\<close>

definition demo_customer :: "int \<Rightarrow> string \<Rightarrow> string \<Rightarrow> customer" where
  "demo_customer i code mobile =
     \<lparr>cm_id = i, cm_code = code, cm_mobile = mobile, cm_mobileVerifiedAt = None, cm_accountStatus = CA_ACTIVE,
      cm_fullName = Some ''Asha Rao'', cm_email = None, cm_emailVerified = False, cm_emailVerifiedAt = None,
      cm_onboarding = ON_MOBILE_VERIFIED, cm_lastLoginAt = None, cm_lastActivityAt = None\<rparr>"

definition demo_campaign :: campaign where
  "demo_campaign = \<lparr>cp_id = 1, cp_name = ''Launch'', cp_discountType = PERCENTAGE, cp_discountValue = 50,
     cp_maxDiscountLimit = 1000, cp_minReferralRequirement = 3, cp_applicableLoanNumber = 2,
     cp_validityDays = 90, cp_active = True, cp_createdAt = 0\<rparr>"

definition demo_referrals :: "campaign \<Rightarrow> referral_db" where
  "demo_referrals c = \<lparr>rd_customers = [demo_customer 1 ''CUS-A'' ''9000000001'', demo_customer 2 ''CUS-B'' ''9000000002''],
     rd_loans = [(7, 1), (8, 2)], rd_applications = [], rd_campaigns = [c],
     rd_mappings = [], rd_benefits = [], rd_usages = []\<rparr>"

definition demo_requests :: "(referral_op \<times> time) list" where
  "demo_requests = [(Register 2 ''fin1'', 10), (Register 2 ''FIN1'', 20), (Disbursed 2, 30), (Disbursed 2, 40)]"

definition demo_rewarded :: "campaign \<Rightarrow> referral_db" where
  "demo_rewarded c = referral_run demo_requests (demo_referrals c)"

theorem referrals_serial_witness:
  "referrals_inv (referral_run (demo_requests @ [(ApplyBenefit 1 500 2 (Some 7) None, 50)]) (demo_referrals demo_campaign))
   \<and> length (rd_benefits (demo_rewarded demo_campaign)) = 1
   \<and> map bu_final (rd_usages (referral_run (demo_requests @ [(ApplyBenefit 1 500 2 (Some 7) None, 50)]) (demo_referrals demo_campaign))) = [250]"
proof -
  have 1: "referrals_inv (demo_referrals demo_campaign)"
    by (simp add: referrals_inv_def demo_referrals_def mappings_ok_def benefits_ok_def usages_ok_def)
  have 2: "list_all (\<lambda>(r, now). \<not> makes_available r) (demo_requests @ [(ApplyBenefit 1 500 2 (Some 7) None, 50)])"
    by (simp add: demo_requests_def)
  show ?thesis by (intro conjI referrals_serial [OF 1 2]) code_simp+
qed

theorem referral_code_roundtrip_witness:
  "findCustomerByReferralCode '' fIn2 '' (rd_customers (demo_referrals demo_campaign)) = Some (demo_customer 2 ''CUS-B'' ''9000000002'')"
  using referral_code_roundtrip [of "rd_customers (demo_referrals demo_campaign)" "demo_customer 2 ''CUS-B'' ''9000000002''"
      "''fIn2''" "'' ''" "'' ''"]
  by (simp add: demo_referrals_def demo_customer_def) code_simp

definition demo_benefit :: benefit where
  "demo_benefit = hd (rd_benefits (demo_rewarded demo_campaign))"

theorem fee_discount_bounds_witness:
  "fc_discount (calculateDiscountedProcessingFee 1 5000 2 50 (demo_rewarded demo_campaign)) = 1000
   \<and> fc_discount (calculateDiscountedProcessingFee 1 5000 2 50 (demo_rewarded demo_campaign)) \<le> bn_maxDiscountLimit demo_benefit"
proof -
  have "getAvailableBenefitForCustomer 1 2 50 (demo_rewarded demo_campaign) = Some demo_benefit" by code_simp
  moreover have "0 \<le> bn_discountValue demo_benefit" "0 \<le> bn_maxDiscountLimit demo_benefit" by code_simp+
  moreover have "fc_discount (calculateDiscountedProcessingFee 1 5000 2 50 (demo_rewarded demo_campaign)) = 1000" by code_simp
  ultimately show ?thesis
    using fee_discount_bounds [of 1 2 50 "demo_rewarded demo_campaign" demo_benefit 5000] by simp
qed

definition demo_registered :: "campaign \<Rightarrow> referral_db" where
  "demo_registered c = referral_serve (Register 2 ''FIN1'') 10 (demo_referrals c)"

definition demo_mapping :: referral_mapping where
  "demo_mapping = \<lparr>rf_id = 1, rf_referrer = 1, rf_referred = 2, rf_code = ''FIN1'', rf_status = RF_PENDING, rf_disbursedAt = None\<rparr>"

theorem two_disbursals_two_benefits_witness:
  "map bn_id (rd_benefits (disbursed_write 2 demo_mapping 30
     (disbursed_write 1 demo_mapping 30 (demo_registered demo_campaign)))) = [1, 2]"
proof -
  have "disbursed_read 2 (demo_registered demo_campaign) = Some demo_mapping" by code_simp
  moreover have "bn_expiryDate (new_benefit 1 demo_mapping (activeCampaign (rd_campaigns (demo_registered demo_campaign))) 30) < MAX_DATETIME"
    by code_simp
  moreover have "rd_benefits (demo_registered demo_campaign) = []" by code_simp
  ultimately show ?thesis
    using two_disbursals_two_benefits [of 2 "demo_registered demo_campaign" demo_mapping 1 30 2]
    by (simp add: new_benefit_def)
qed

definition long_campaign :: campaign where
  "long_campaign = demo_campaign\<lparr>cp_validityDays := 3000000\<rparr>"

theorem qualified_without_benefit_witness:
  "rd_benefits (onLoanDisbursed 1 2 30 (demo_registered long_campaign)) = []
   \<and> onLoanDisbursed 1 2 99 (onLoanDisbursed 1 2 30 (demo_registered long_campaign))
     = onLoanDisbursed 1 2 30 (demo_registered long_campaign)"
proof -
  have "disbursed_read 2 (demo_registered long_campaign) = Some demo_mapping" by code_simp
  moreover have "unique_keys rf_referred (rd_mappings (demo_registered long_campaign))" by code_simp
  moreover have "MAX_DATETIME \<le> bn_expiryDate (new_benefit 1 demo_mapping (activeCampaign (rd_campaigns (demo_registered long_campaign))) 30)"
    by code_simp
  moreover have "rd_benefits (demo_registered long_campaign) = []" by code_simp
  ultimately show ?thesis
    using qualified_without_benefit [of 2 "demo_registered long_campaign" demo_mapping 1 30 1 99] by simp
qed

definition surcharge_campaign :: campaign where
  "surcharge_campaign = demo_campaign\<lparr>cp_discountType := FIXED_AMOUNT, cp_discountValue := -100\<rparr>"

theorem negative_discount_raises_fee_witness:
  "fc_final (calculateDiscountedProcessingFee 1 500 2 50 (demo_rewarded surcharge_campaign)) = 600"
proof -
  let ?b = "hd (rd_benefits (demo_rewarded surcharge_campaign))"
  have "getAvailableBenefitForCustomer 1 2 50 (demo_rewarded surcharge_campaign) = Some ?b" by code_simp
  moreover have "bn_discountType ?b = FIXED_AMOUNT" "bn_discountValue ?b = - 100" "0 \<le> bn_maxDiscountLimit ?b" by code_simp+
  ultimately show ?thesis
    using negative_discount_raises_fee [of 1 2 50 "demo_rewarded surcharge_campaign" ?b 100 500] by (simp add: whole_def)
qed

theorem benefit_on_any_loan_witness:
  "\<exists>u. rd_usages (snd (applyBenefit 1 1 2 (Some 8) None 50 (demo_rewarded demo_campaign)))
         = rd_usages (demo_rewarded demo_campaign) @ [u]
     \<and> bu_loanId u = Some 8 \<and> bu_customerId u = 1 \<and> bu_original u = 1"
proof (rule benefit_on_any_loan [of 1 50 "demo_rewarded demo_campaign" demo_benefit 8 2])
  show "getAvailableBenefitForCustomer 1 2 50 (demo_rewarded demo_campaign) = Some demo_benefit" by code_simp
  show "unique_keys bn_id (rd_benefits (demo_rewarded demo_campaign))" by code_simp
  show "(8, 2) \<in> set (rd_loans (demo_rewarded demo_campaign))" by code_simp
  show "(2::int) \<noteq> 1" by simp
qed

theorem benefit_used_twice_witness:
  "length (filter (\<lambda>u. bu_benefitId u = 1) (rd_usages (snd (apply_write 1 (Some 7) None
     \<lparr>fc_original = 500, fc_discount = 250, fc_final = 250, fc_benefit = Some 1\<rparr> 1
     (snd (apply_write 1 (Some 7) None
     \<lparr>fc_original = 500, fc_discount = 250, fc_final = 250, fc_benefit = Some 1\<rparr> 1 (demo_rewarded demo_campaign))))))) = 2"
proof -
  have "apply_read 1 (demo_rewarded demo_campaign) = None" by code_simp
  moreover have "7 \<in> fst ` set (rd_loans (demo_rewarded demo_campaign))" by code_simp
  moreover have "rd_usages (demo_rewarded demo_campaign) = []" by code_simp
  ultimately show ?thesis using benefit_used_twice [of 1 "demo_rewarded demo_campaign" 7 7] by simp
qed

end
