(* ===== verification/CustomerSessions.thy ===== *)
theory CustomerSessions
  imports Referrals
begin

text \<open>
  The sessions of customers: the rotation of refresh tokens and logout (refreshCustomerSession and
  revokeCustomerSessionByToken of modules/otp/otp.service.ts) and the check of access tokens
  (modules/auth/strategies/customer-jwt.strategy.ts), with reads and writes that interleave. A
  session is opened by the sign-in of theory \<open>CustomerOtp\<close>.
\<close>

section \<open>Rows\<close>

record customer_session =
  xs_id :: ident
  xs_customerId :: int
  xs_lastSeenAt :: time
  xs_absoluteExpiresAt :: time
  xs_idleExpiresAt :: time
  xs_revokedAt :: "time option"
  xs_revokedReason :: "string option"
  xs_ipAddress :: "string option"
  xs_userAgent :: "string option"
  xs_deviceLabel :: string
  xs_requestId :: string

record customer_token =
  xt_id :: ident
  xt_sessionId :: ident
  xt_tokenHash :: string
  xt_parentTokenId :: "ident option"
  xt_expiresAt :: time
  xt_usedAt :: "time option"
  xt_revokedAt :: "time option"

record session_db =
  xd_customers :: "customer list"
  xd_sessions :: "customer_session list"
  xd_tokens :: "customer_token list"

record customer_claims =
  cc_sub :: int
  cc_sid :: ident
  cc_type :: string

record customer_tokens =
  ct_access :: customer_claims
  ct_refresh :: string

definition invalidRefresh :: http_error where
  "invalidRefresh = Unauthorized ''AUTH_REFRESH_INVALID''"

section \<open>Refresh\<close>

text \<open>The token with its session and customer; the foreign keys guarantee both.\<close>

record session_snapshot =
  ss_token :: customer_token
  ss_session :: customer_session
  ss_customer :: customer

definition customer_refresh_read :: "(string \<Rightarrow> string) \<Rightarrow> string \<Rightarrow> session_db \<Rightarrow> session_snapshot option" where
  "customer_refresh_read sha raw db =
     (case find_unique xt_tokenHash (sha raw) (xd_tokens db) of
        None \<Rightarrow> None
      | Some t \<Rightarrow>
          (case find_unique xs_id (xt_sessionId t) (xd_sessions db) of
             None \<Rightarrow> None
           | Some s \<Rightarrow>
               (case find_unique cm_id (xs_customerId s) (xd_customers db) of
                  None \<Rightarrow> None
                | Some c \<Rightarrow> Some \<lparr>ss_token = t, ss_session = s, ss_customer = c\<rparr>)))"

datatype customer_decision = C_Race | C_Reuse | C_Invalid | C_Rotate

definition REUSE_GRACE_MS :: int where
  "REUSE_GRACE_MS = 15000"

definition customer_decide :: "session_snapshot \<Rightarrow> time \<Rightarrow> customer_decision" where
  "customer_decide snap now =
     (let t = ss_token snap; s = ss_session snap in
      case xt_usedAt t of
        Some u \<Rightarrow> if now - u \<le> REUSE_GRACE_MS then C_Race else C_Reuse
      | None \<Rightarrow>
          if xt_revokedAt t \<noteq> None \<or> xt_expiresAt t < now then C_Invalid
          else if xs_revokedAt s \<noteq> None \<or> xs_absoluteExpiresAt s < now \<or> xs_idleExpiresAt s < now then C_Invalid
          else if cm_accountStatus (ss_customer snap) \<noteq> CA_ACTIVE then C_Invalid
          else C_Rotate)"

definition live_token :: "customer_token \<Rightarrow> bool" where
  "live_token t \<longleftrightarrow> xt_usedAt t = None \<and> xt_revokedAt t = None"

definition mark_used :: "time \<Rightarrow> customer_token \<Rightarrow> customer_token" where
  "mark_used now t = t\<lparr>xt_usedAt := Some now\<rparr>"

definition revoke_customer_session :: "ident \<Rightarrow> string \<Rightarrow> time \<Rightarrow> session_db \<Rightarrow> session_db" where
  "revoke_customer_session sid reason now db =
     db\<lparr>xd_sessions := update_many (\<lambda>s. xs_id s = sid)
          (\<lambda>s. s\<lparr>xs_revokedAt := Some now, xs_revokedReason := Some reason\<rparr>) (xd_sessions db)\<rparr>"

definition revoke_customer_tokens :: "ident \<Rightarrow> time \<Rightarrow> session_db \<Rightarrow> session_db" where
  "revoke_customer_tokens sid now db =
     db\<lparr>xd_tokens := update_many (\<lambda>t. xt_sessionId t = sid \<and> xt_revokedAt t = None)
          (\<lambda>t. t\<lparr>xt_revokedAt := Some now\<rparr>) (xd_tokens db)\<rparr>"

definition child_token :: "ident \<Rightarrow> ident \<Rightarrow> string \<Rightarrow> ident option \<Rightarrow> time \<Rightarrow> customer_token" where
  "child_token tid sid hash parent expires =
     \<lparr>xt_id = tid, xt_sessionId = sid, xt_tokenHash = hash, xt_parentTokenId = parent,
      xt_expiresAt = expires, xt_usedAt = None, xt_revokedAt = None\<rparr>"

text \<open>A column given as undefined keeps its value.\<close>

definition sliced :: "nat \<Rightarrow> string option \<Rightarrow> string option \<Rightarrow> string option" where
  "sliced n new old = (case new of Some v \<Rightarrow> Some (take n v) | None \<Rightarrow> old)"

definition seen_session :: "string option \<Rightarrow> string option \<Rightarrow> time \<Rightarrow> time \<Rightarrow> customer_session \<Rightarrow> customer_session" where
  "seen_session ip agent idle now s =
     s\<lparr>xs_idleExpiresAt := idle, xs_lastSeenAt := now, xs_ipAddress := sliced 64 ip (xs_ipAddress s),
       xs_userAgent := sliced 512 agent (xs_userAgent s)\<rparr>"

text \<open>The rotation transaction: None when the token could not be claimed. A clash of the new
  token's id or hash is a unique violation.\<close>

definition customer_rotate ::
  "(string \<Rightarrow> string) \<Rightarrow> ident \<Rightarrow> string \<Rightarrow> session_snapshot \<Rightarrow> string option \<Rightarrow> string option \<Rightarrow> time \<Rightarrow>
   session_db \<Rightarrow> (http_error + session_db) option" where
  "customer_rotate sha tid replacement snap agent ip now db =
     (let i = xt_id (ss_token snap); sid = xs_id (ss_session snap);
          absolute = xs_absoluteExpiresAt (ss_session snap)
      in if count_rows (\<lambda>t. xt_id t = i \<and> live_token t) (xd_tokens db) \<noteq> 1 then None
         else if tid \<in> xt_id ` set (xd_tokens db) \<or> sha replacement \<in> xt_tokenHash ` set (xd_tokens db)
         then Some (Inl (DbError ''P2002''))
         else Some (Inr (db\<lparr>xd_tokens :=
                update_many (\<lambda>t. xt_id t = i \<and> live_token t) (mark_used now) (xd_tokens db)
                @ [child_token tid sid (sha replacement) (Some i) absolute],
              xd_sessions := update_many (\<lambda>s. xs_id s = sid) (seen_session ip agent absolute now) (xd_sessions db)\<rparr>)))"

definition customer_access :: "int \<Rightarrow> ident \<Rightarrow> customer_claims" where
  "customer_access c sid = \<lparr>cc_sub = c, cc_sid = sid, cc_type = ''customer-access''\<rparr>"

definition customer_refresh_finish ::
  "(string \<Rightarrow> string) \<Rightarrow> ident \<Rightarrow> string \<Rightarrow> session_snapshot option \<Rightarrow> string option \<Rightarrow> string option \<Rightarrow> time \<Rightarrow>
   session_db \<Rightarrow> (http_error + customer_tokens) \<times> session_db" where
  "customer_refresh_finish sha tid replacement snap agent ip now db =
     (case snap of
        None \<Rightarrow> (Inl invalidRefresh, db)
      | Some s \<Rightarrow>
          (case customer_decide s now of
             C_Race \<Rightarrow> (Inl invalidRefresh, db)
           | C_Reuse \<Rightarrow>
               (Inl invalidRefresh,
                revoke_customer_tokens (xs_id (ss_session s)) now
                  (revoke_customer_session (xs_id (ss_session s)) ''REFRESH_TOKEN_REUSE'' now db))
           | C_Invalid \<Rightarrow> (Inl invalidRefresh, db)
           | C_Rotate \<Rightarrow>
               (case customer_rotate sha tid replacement s agent ip now db of
                  None \<Rightarrow> (Inl invalidRefresh, db)
                | Some (Inl e) \<Rightarrow> (Inl e, db)
                | Some (Inr db1) \<Rightarrow>
                    (Inr \<lparr>ct_access = customer_access (cm_id (ss_customer s)) (xs_id (ss_session s)),
                          ct_refresh = replacement\<rparr>, db1))))"

definition refreshCustomerSession ::
  "(string \<Rightarrow> string) \<Rightarrow> ident \<Rightarrow> string \<Rightarrow> string \<Rightarrow> string option \<Rightarrow> string option \<Rightarrow> time \<Rightarrow> session_db \<Rightarrow>
   (http_error + customer_tokens) \<times> session_db" where
  "refreshCustomerSession sha tid replacement raw agent ip now db =
     customer_refresh_finish sha tid replacement (customer_refresh_read sha raw db) agent ip now db"

section \<open>Logout and access\<close>

definition logout_read :: "(string \<Rightarrow> string) \<Rightarrow> string \<Rightarrow> session_db \<Rightarrow> ident option" where
  "logout_read sha raw db = map_option xt_sessionId (find_unique xt_tokenHash (sha raw) (xd_tokens db))"

definition logout_write :: "ident option \<Rightarrow> time \<Rightarrow> session_db \<Rightarrow> session_db" where
  "logout_write sid now db =
     (case sid of None \<Rightarrow> db | Some i \<Rightarrow> revoke_customer_session i ''LOGOUT'' now db)"

definition revokeCustomerSessionByToken :: "(string \<Rightarrow> string) \<Rightarrow> string \<Rightarrow> time \<Rightarrow> session_db \<Rightarrow> session_db" where
  "revokeCustomerSessionByToken sha raw now db = logout_write (logout_read sha raw db) now db"

record customer_principal =
  cq_customerId :: int
  cq_customerCode :: string
  cq_sessionId :: ident

text \<open>\<open>CustomerJwtStrategy.validate\<close> on the claims of a token whose signature, issuer, audience
  and expiry the library accepted.\<close>

definition customer_jwt_validate :: "customer_claims \<Rightarrow> time \<Rightarrow> session_db \<Rightarrow> http_error + customer_principal" where
  "customer_jwt_validate c now db =
     (if cc_type c \<noteq> ''customer-access'' \<or> cc_sid c = []
      then Inl (Unauthorized ''Invalid customer token format'')
      else
        case List.find (\<lambda>s. xs_id s = cc_sid c \<and> xs_customerId s = cc_sub c \<and> xs_revokedAt s = None
               \<and> now < xs_absoluteExpiresAt s \<and> now < xs_idleExpiresAt s) (xd_sessions db) of
          None \<Rightarrow> Inl (Unauthorized ''Customer session invalid or account inactive'')
        | Some s \<Rightarrow>
            (case find_unique cm_id (xs_customerId s) (xd_customers db) of
               None \<Rightarrow> Inl (Unauthorized ''Customer session invalid or account inactive'')
             | Some u \<Rightarrow>
                 if cm_accountStatus u \<noteq> CA_ACTIVE
                 then Inl (Unauthorized ''Customer session invalid or account inactive'')
                 else Inr \<lparr>cq_customerId = cm_id u, cq_customerCode = cm_code u, cq_sessionId = xs_id s\<rparr>))"

section \<open>Opening a session\<close>

record opened =
  op_tokenId :: ident
  op_raw :: string

definition new_customer_session ::
  "ident \<Rightarrow> int \<Rightarrow> int \<Rightarrow> string option \<Rightarrow> string option \<Rightarrow> string \<Rightarrow> string \<Rightarrow> time \<Rightarrow> customer_session" where
  "new_customer_session sid customerId days ip agent label requestId now =
     \<lparr>xs_id = sid, xs_customerId = customerId, xs_lastSeenAt = now,
      xs_absoluteExpiresAt = now + days * DAY_MS, xs_idleExpiresAt = now + days * DAY_MS,
      xs_revokedAt = None, xs_revokedReason = None, xs_ipAddress = map_option (take 64) ip,
      xs_userAgent = map_option (take 512) agent, xs_deviceLabel = label, xs_requestId = requestId\<rparr>"

definition open_customer_session ::
  "(string \<Rightarrow> string) \<Rightarrow> opened \<Rightarrow> customer_session \<Rightarrow> session_db \<Rightarrow> http_error + session_db" where
  "open_customer_session sha o' s db =
     (if xs_id s \<in> xs_id ` set (xd_sessions db) \<or> op_tokenId o' \<in> xt_id ` set (xd_tokens db)
        \<or> sha (op_raw o') \<in> xt_tokenHash ` set (xd_tokens db)
      then Inl (DbError ''P2002'')
      else Inr (db\<lparr>xd_sessions := xd_sessions db @ [s],
                   xd_tokens := xd_tokens db @ [child_token (op_tokenId o') (xs_id s) (sha (op_raw o')) None
                                                  (xs_absoluteExpiresAt s)]\<rparr>))"

section \<open>Interleaved handlers\<close>

text \<open>
  What a handler holds between two of its statements: what a refresh read, the session whose
  tokens are still to be revoked, the session to log out.
\<close>

datatype cust_pending =
    CP_Refresh "session_snapshot option"
  | CP_Tokens ident
  | CP_Logout "ident option"

type_synonym cust_state = "session_db \<times> cust_pending list"

inductive cust_step :: "(string \<Rightarrow> string) \<Rightarrow> cust_state \<Rightarrow> cust_state \<Rightarrow> bool" for sha :: "string \<Rightarrow> string" where
  open_session: "open_customer_session sha o' (new_customer_session sid c days ip agent label req now) db = Inr db' \<Longrightarrow>
    cust_step sha (db, ps) (db', ps)"
| refresh_begin: "cust_step sha (db, ps) (db, CP_Refresh (customer_refresh_read sha raw db) # ps)"
| refresh_end: "cust_step sha (db, ps @ CP_Refresh snap # qs)
    (snd (customer_refresh_finish sha tid replacement snap agent ip now db), ps @ qs)"
| reuse_begin: "customer_decide s now = C_Reuse \<Longrightarrow> cust_step sha (db, ps @ CP_Refresh (Some s) # qs)
    (revoke_customer_session (xs_id (ss_session s)) ''REFRESH_TOKEN_REUSE'' now db,
     ps @ CP_Tokens (xs_id (ss_session s)) # qs)"
| reuse_end: "cust_step sha (db, ps @ CP_Tokens sid # qs) (revoke_customer_tokens sid now db, ps @ qs)"
| logout_begin: "cust_step sha (db, ps) (db, CP_Logout (logout_read sha raw db) # ps)"
| logout_end: "cust_step sha (db, ps @ CP_Logout sid # qs) (logout_write sid now db, ps @ qs)"
| customers_change: "cust_step sha (db, ps) (db\<lparr>xd_customers := cs\<rparr>, ps)"

abbreviation cust_steps :: "(string \<Rightarrow> string) \<Rightarrow> cust_state \<Rightarrow> cust_state \<Rightarrow> bool" where
  "cust_steps sha \<equiv> (cust_step sha)\<^sup>*\<^sup>*"

section \<open>The tables\<close>

interpretation links: exclusive_rows xt_id xt_sessionId live_token mark_used
  by unfold_locales (simp_all add: mark_used_def live_token_def)

text \<open>A token expires with its session. A session has no idle clock of its own.\<close>

definition in_session :: "session_db \<Rightarrow> customer_token \<Rightarrow> bool" where
  "in_session db t \<longleftrightarrow>
     (\<exists>s\<in>set (xd_sessions db). xs_id s = xt_sessionId t \<and> xt_expiresAt t = xs_absoluteExpiresAt s)"

definition customer_inv :: "session_db \<Rightarrow> bool" where
  "customer_inv db \<longleftrightarrow>
     unique_keys xs_id (xd_sessions db) \<and> unique_keys xt_id (xd_tokens db) \<and> unique_keys xt_tokenHash (xd_tokens db)
     \<and> links.exclusive (xd_tokens db) \<and> list_all (in_session db) (xd_tokens db)
     \<and> list_all (\<lambda>s. xs_idleExpiresAt s = xs_absoluteExpiresAt s) (xd_sessions db)"

lemma customer_invD:
  assumes "customer_inv db"
  shows "unique_keys xs_id (xd_sessions db)" "unique_keys xt_id (xd_tokens db)" "unique_keys xt_tokenHash (xd_tokens db)"
    "links.exclusive (xd_tokens db)" "\<And>t. t \<in> set (xd_tokens db) \<Longrightarrow> in_session db t"
    "\<And>s. s \<in> set (xd_sessions db) \<Longrightarrow> xs_idleExpiresAt s = xs_absoluteExpiresAt s"
  using assms by (auto simp: customer_inv_def list_all_iff)

text \<open>What later states keep: the owner and the end of a session, that it is revoked; the session
  of a token, its hash, its expiry, that it is used or revoked.\<close>

definition sess_le :: "customer_session \<Rightarrow> customer_session \<Rightarrow> bool" where
  "sess_le s s' \<longleftrightarrow> xs_id s' = xs_id s \<and> xs_customerId s' = xs_customerId s
     \<and> xs_absoluteExpiresAt s' = xs_absoluteExpiresAt s \<and> (xs_revokedAt s \<noteq> None \<longrightarrow> xs_revokedAt s' \<noteq> None)"

definition tok_le :: "customer_token \<Rightarrow> customer_token \<Rightarrow> bool" where
  "tok_le t t' \<longleftrightarrow> xt_id t' = xt_id t \<and> xt_sessionId t' = xt_sessionId t \<and> xt_tokenHash t' = xt_tokenHash t
     \<and> xt_expiresAt t' = xt_expiresAt t \<and> (xt_usedAt t \<noteq> None \<longrightarrow> xt_usedAt t' \<noteq> None)
     \<and> (xt_revokedAt t \<noteq> None \<longrightarrow> xt_revokedAt t' \<noteq> None)"

definition kept :: "session_db \<Rightarrow> session_db \<Rightarrow> bool" where
  "kept db db' \<longleftrightarrow> covers sess_le (xd_sessions db) (xd_sessions db') \<and> covers tok_le (xd_tokens db) (xd_tokens db')"

lemma le_order [simp]:
  "sess_le s s" "tok_le t t"
  "sess_le s s' \<Longrightarrow> sess_le s' s'' \<Longrightarrow> sess_le s s''"
  "tok_le t t' \<Longrightarrow> tok_le t' t'' \<Longrightarrow> tok_le t t''"
  by (auto simp: sess_le_def tok_le_def)

lemma kept_refl [simp]: "kept db db"
  by (simp add: kept_def covers_refl)

lemma kept_trans: "kept db db' \<Longrightarrow> kept db' db'' \<Longrightarrow> kept db db''"
  unfolding kept_def by (blast intro: covers_trans le_order)

lemma in_session_kept:
  assumes "in_session db t" and "tok_le t t'" and "covers sess_le (xd_sessions db) (xd_sessions db')"
  shows "in_session db' t'"
  using assms unfolding in_session_def covers_def sess_le_def tok_le_def by metis

text \<open>What a pending handler knows of the tables stays true.\<close>

definition snap_ok :: "session_db \<Rightarrow> session_snapshot \<Rightarrow> bool" where
  "snap_ok db s \<longleftrightarrow> xs_id (ss_session s) = xt_sessionId (ss_token s)
     \<and> (\<exists>t\<in>set (xd_tokens db). tok_le (ss_token s) t) \<and> (\<exists>x\<in>set (xd_sessions db). sess_le (ss_session s) x)"

fun cust_pend_ok :: "session_db \<Rightarrow> cust_pending \<Rightarrow> bool" where
  "cust_pend_ok db (CP_Refresh (Some s)) = snap_ok db s"
| "cust_pend_ok db p = True"

lemma snap_ok_kept: "snap_ok db s \<Longrightarrow> kept db db' \<Longrightarrow> snap_ok db' s"
  unfolding snap_ok_def kept_def covers_def by (metis le_order(3,4))

lemma pend_ok_kept: "cust_pend_ok db p \<Longrightarrow> kept db db' \<Longrightarrow> cust_pend_ok db' p"
  by (cases "(db, p)" rule: cust_pend_ok.cases) (auto intro: snap_ok_kept)

lemma customer_refresh_read_ok: "cust_pend_ok db (CP_Refresh (customer_refresh_read sha raw db))"
  by (auto simp: customer_refresh_read_def snap_ok_def dest!: find_unique_Some_D intro: bexI le_order split: option.split)

section \<open>Every step keeps them\<close>

text \<open>Four kinds of change: nothing, revocation of sessions or of tokens, a new session, a rotation.\<close>

lemma revoke_session_inv:
  "customer_inv db \<Longrightarrow> customer_inv (revoke_customer_session sid reason now db)"
  "kept db (revoke_customer_session sid reason now db)"
proof -
  show k: "kept db (revoke_customer_session sid reason now db)"
    by (auto simp: kept_def revoke_customer_session_def sess_le_def intro!: covers_update covers_refl)
  show "customer_inv db \<Longrightarrow> customer_inv (revoke_customer_session sid reason now db)"
    using k by (auto simp: customer_inv_def kept_def list_all_iff revoke_customer_session_def set_update_many
        intro!: unique_keys_update_many intro: in_session_kept)
qed

lemma revoke_tokens_inv:
  "customer_inv db \<Longrightarrow> customer_inv (revoke_customer_tokens sid now db)"
  "kept db (revoke_customer_tokens sid now db)"
proof -
  let ?f = "\<lambda>t. t\<lparr>xt_revokedAt := Some now\<rparr>"
  show k: "kept db (revoke_customer_tokens sid now db)"
    by (auto simp: kept_def revoke_customer_tokens_def tok_le_def intro!: covers_update covers_refl)
  assume inv: "customer_inv db"
  have "links.exclusive (xd_tokens (revoke_customer_tokens sid now db))"
    unfolding revoke_customer_tokens_def
    using links.exclusive_update [OF customer_invD(4) [OF inv], of _ ?f] by (simp add: live_token_def)
  then show "customer_inv (revoke_customer_tokens sid now db)"
    using inv by (auto simp: customer_inv_def list_all_iff revoke_customer_tokens_def set_update_many in_session_def
        intro!: unique_keys_update_many)
qed

lemma child_token_fields [simp]:
  "xt_id (child_token tid sid h p e) = tid" "xt_sessionId (child_token tid sid h p e) = sid"
  "xt_tokenHash (child_token tid sid h p e) = h" "xt_expiresAt (child_token tid sid h p e) = e"
  "live_token (child_token tid sid h p e)"
  by (simp_all add: child_token_def live_token_def)

lemma new_customer_session_fields [simp]:
  "xs_id (new_customer_session sid c days ip agent label req now) = sid"
  "xs_idleExpiresAt (new_customer_session sid c days ip agent label req now)
   = xs_absoluteExpiresAt (new_customer_session sid c days ip agent label req now)"
  by (simp_all add: new_customer_session_def)

lemma open_customer_inv:
  assumes "open_customer_session sha o' s db = Inr db'" and "xs_idleExpiresAt s = xs_absoluteExpiresAt s"
  shows "customer_inv db \<Longrightarrow> customer_inv db'" "kept db db'"
proof -
  let ?t = "child_token (op_tokenId o') (xs_id s) (sha (op_raw o')) None (xs_absoluteExpiresAt s)"
  have new: "xs_id s \<notin> xs_id ` set (xd_sessions db)" "op_tokenId o' \<notin> xt_id ` set (xd_tokens db)"
    "sha (op_raw o') \<notin> xt_tokenHash ` set (xd_tokens db)"
    and db': "db' = db\<lparr>xd_sessions := xd_sessions db @ [s], xd_tokens := xd_tokens db @ [?t]\<rparr>"
    using assms(1) by (auto simp: open_customer_session_def split: if_splits)
  show k: "kept db db'" by (simp add: kept_def db' covers_append covers_refl)
  assume inv: "customer_inv db"
  note I = customer_invD [OF inv]
  have "in_session db' t" if "t \<in> set (xd_tokens db)" for t
    using in_session_kept [OF I(5) [OF that]] k by (simp add: kept_def)
  moreover have "xt_sessionId t \<noteq> xs_id s" if "t \<in> set (xd_tokens db)" for t
    using I(5) [OF that] new(1) unfolding in_session_def by (metis imageI)
  then have "links.exclusive (xd_tokens db @ [?t])" by (intro links.exclusive_snoc_active [OF I(4)]) auto
  ultimately show "customer_inv db'"
    using I new assms(2) by (auto simp: customer_inv_def list_all_iff db' in_session_def)
qed

text \<open>The claim of a rotation hits the row the snapshot shows, and that row is live.\<close>

lemma customer_rotate_Inr:
  assumes inv: "customer_inv db" and snap: "snap_ok db s"
    and rot: "customer_rotate sha tid replacement s agent ip now db = Some (Inr db')"
  shows "customer_inv db'" "kept db db'"
proof -
  note I = customer_invD [OF inv]
  let ?i = "xt_id (ss_token s)" and ?x = "ss_session s"
  let ?U = "update_many (\<lambda>t. xt_id t = ?i \<and> live_token t) (mark_used now) (xd_tokens db)"
  let ?n = "child_token tid (xs_id ?x) (sha replacement) (Some ?i) (xs_absoluteExpiresAt ?x)"
  let ?S = "update_many (\<lambda>y. xs_id y = xs_id ?x) (seen_session ip agent (xs_absoluteExpiresAt ?x) now) (xd_sessions db)"
  have one: "count_rows (\<lambda>t. xt_id t = ?i \<and> live_token t) (xd_tokens db) = 1"
    and new: "tid \<notin> xt_id ` set (xd_tokens db)" "sha replacement \<notin> xt_tokenHash ` set (xd_tokens db)"
    and db': "db' = db\<lparr>xd_tokens := ?U @ [?n], xd_sessions := ?S\<rparr>"
    using rot by (auto simp: customer_rotate_def Let_def split: if_splits)
  obtain t where t: "t \<in> set (xd_tokens db)" "xt_id t = ?i" "live_token t"
    using one count_rows_zero_iff [of "\<lambda>t. xt_id t = ?i \<and> live_token t" "xd_tokens db"] by fastforce
  obtain u where u: "u \<in> set (xd_tokens db)" "tok_le (ss_token s) u" and
    x: "xs_id ?x = xt_sessionId (ss_token s)" "\<exists>y\<in>set (xd_sessions db). sess_le ?x y"
    using snap by (auto simp: snap_ok_def)
  have "t = u" using unique_keys_eq [OF I(2) t(1) u(1)] t(2) u(2) by (simp add: tok_le_def)
  with u x have sid: "xt_sessionId t = xs_id ?x" by (simp add: tok_le_def)
  have cs: "covers sess_le (xd_sessions db) ?S"
    by (rule covers_update) (simp_all add: sess_le_def seen_session_def)
  show "kept db db'"
    unfolding kept_def db' using cs
    by (auto simp: tok_le_def mark_used_def intro!: covers_append covers_update)
  have "links.exclusive (?U @ [?n])"
    using links.exclusive_succeed [OF I(4) t(1,3), of ?n now] t(2) sid by simp
  moreover have ids: "xt_id ` set ?U = xt_id ` set (xd_tokens db)" "xt_tokenHash ` set ?U = xt_tokenHash ` set (xd_tokens db)"
    by (simp_all add: mark_used_def map_key_update_many flip: set_map)
  moreover have "unique_keys xt_id ?U" "unique_keys xt_tokenHash ?U" "unique_keys xs_id ?S"
    using I(1-3) by (auto simp: mark_used_def seen_session_def intro!: unique_keys_update_many)
  moreover have "in_session db' y" if y: "y \<in> set ?U" for y
  proof -
    from y obtain z where z: "z \<in> set (xd_tokens db)" "tok_le z y"
      by (rule update_many_obtain) (auto simp: tok_le_def mark_used_def)
    show ?thesis by (rule in_session_kept [OF I(5) [OF z(1)] z(2)]) (simp add: db' cs)
  qed
  moreover have "in_session db' ?n"
    using x(2) cs unfolding in_session_def covers_def sess_le_def db' by simp metis
  moreover have "xs_idleExpiresAt y = xs_absoluteExpiresAt y" if "y \<in> set ?S" for y
    using that
  proof (rule update_many_obtain)
    fix z assume z: "z \<in> set (xd_sessions db)" "xs_id z = xs_id ?x"
      "y = seen_session ip agent (xs_absoluteExpiresAt ?x) now z"
    from x(2) obtain w where "w \<in> set (xd_sessions db)" "sess_le ?x w" by blast
    with unique_keys_eq [OF I(1) z(1), of w] z show ?thesis by (simp add: sess_le_def seen_session_def)
  qed (use I(6) in simp)
  ultimately show "customer_inv db'"
    using I new by (auto simp: customer_inv_def list_all_iff db')
qed

lemma customer_refresh_finish_inv:
  assumes "customer_inv db" and "cust_pend_ok db (CP_Refresh snap)"
  shows "customer_inv (snd (customer_refresh_finish sha tid replacement snap agent ip now db))
    \<and> kept db (snd (customer_refresh_finish sha tid replacement snap agent ip now db))"
proof (cases snap)
  case None
  then show ?thesis using assms by (simp add: customer_refresh_finish_def)
next
  case (Some s)
  have "kept db (revoke_customer_tokens i now (revoke_customer_session i r now db))" for i r
    by (rule kept_trans [OF revoke_session_inv(2) revoke_tokens_inv(2)])
  with Some assms show ?thesis
    using customer_rotate_Inr [of db s sha tid replacement agent ip now]
    by (auto simp: customer_refresh_finish_def revoke_session_inv revoke_tokens_inv
        split: customer_decision.split option.split sum.split)
qed

definition cust_ok :: "cust_state \<Rightarrow> bool" where
  "cust_ok st \<longleftrightarrow> customer_inv (fst st) \<and> list_all (cust_pend_ok (fst st)) (snd st)"

lemma cust_step_keeps: "cust_step sha st st' \<Longrightarrow> cust_ok st \<Longrightarrow> customer_inv (fst st') \<and> kept (fst st) (fst st')"
proof (induction rule: cust_step.induct)
  case (open_session o' sid c days ip agent label req now db db' ps)
  then show ?case by (auto simp: cust_ok_def dest: open_customer_inv [OF _ new_customer_session_fields(2)])
next
  case (refresh_end db ps snap qs tid replacement agent ip now)
  then show ?case by (simp add: cust_ok_def customer_refresh_finish_inv)
next
  case (logout_end db ps sid qs now)
  then show ?case by (simp add: cust_ok_def logout_write_def revoke_session_inv split: option.split)
next
  case (customers_change db ps cs)
  have "in_session (db\<lparr>xd_customers := cs\<rparr>) = in_session db" by (simp add: fun_eq_iff in_session_def)
  with customers_change show ?case by (simp add: cust_ok_def customer_inv_def kept_def covers_refl)
qed (simp_all add: cust_ok_def revoke_session_inv revoke_tokens_inv)

lemma cust_step_ok: "cust_step sha st st' \<Longrightarrow> cust_ok st \<Longrightarrow> cust_ok st'"
proof -
  assume s: "cust_step sha st st'" and ok: "cust_ok st"
  have k: "customer_inv (fst st')" "kept (fst st) (fst st')" using cust_step_keeps [OF s ok] by auto
  have old: "cust_pend_ok (fst st') p" if "p \<in> set (snd st)" for p
    using ok k(2) that by (auto simp: cust_ok_def list_all_iff intro: pend_ok_kept)
  from s have "p \<in> set (snd st) \<or> cust_pend_ok (fst st') p" if "p \<in> set (snd st')" for p
    using that by (cases rule: cust_step.cases) (auto simp: customer_refresh_read_ok)
  with old k(1) show "cust_ok st'" by (auto simp: cust_ok_def list_all_iff)
qed

lemma cust_steps_ok: "cust_steps sha st st' \<Longrightarrow> cust_ok st \<Longrightarrow> cust_ok st' \<and> kept (fst st) (fst st')"
proof (induction rule: rtranclp_induct)
  case (step st1 st2)
  then show ?case using cust_step_ok [OF step(2)] cust_step_keeps [OF step(2)] kept_trans by blast
qed simp

section \<open>Properties\<close>

text \<open>The tables of customer sessions stay in order however sign-ins, refreshes, logouts and
  the handling of reuse interleave: a session has at most one live refresh token, a token expires
  with its session, and no session has an idle limit other than its end.\<close>

theorem customer_sessions_safe:
  assumes "cust_steps sha (db, []) (db', ps)" and "customer_inv db"
  shows "customer_inv db' \<and> count_rows (\<lambda>t. xt_sessionId t = sid \<and> live_token t) (xd_tokens db') \<le> 1"
proof -
  have "customer_inv db'" using cust_steps_ok [OF assms(1)] assms(2) by (simp add: cust_ok_def)
  then show ?thesis
    using links.exclusive_count [of "xd_tokens db'" sid] customer_invD(2,4) by auto
qed

lemma dead_session_refused:
  assumes inv: "customer_inv db" and s: "s \<in> set (xd_sessions db)"
    and dead: "xs_revokedAt s \<noteq> None \<or> xs_absoluteExpiresAt s < now"
  shows "\<exists>e. customer_jwt_validate (customer_access c (xs_id s)) now db = Inl e"
    and "\<lbrakk>t \<in> set (xd_tokens db); xt_sessionId t = xs_id s; xt_tokenHash t = sha raw\<rbrakk> \<Longrightarrow>
      fst (refreshCustomerSession sha tid replacement raw agent ip now db) = Inl invalidRefresh"
proof -
  note I = customer_invD [OF inv]
  let ?P = "\<lambda>r. xs_id r = xs_id s \<and> xs_customerId r = c \<and> xs_revokedAt r = None
               \<and> now < xs_absoluteExpiresAt r \<and> now < xs_idleExpiresAt r"
  have "\<not> ?P r" if "r \<in> set (xd_sessions db)" for r
    using unique_keys_eq [OF I(1) that s] dead by auto
  then have "List.find ?P (xd_sessions db) = None" by (auto simp: find_None_iff)
  then show "\<exists>e. customer_jwt_validate (customer_access c (xs_id s)) now db = Inl e"
    by (simp add: customer_jwt_validate_def customer_access_def)
  assume t: "t \<in> set (xd_tokens db)" "xt_sessionId t = xs_id s" "xt_tokenHash t = sha raw"
  have ft: "find_unique xt_tokenHash (sha raw) (xd_tokens db) = Some t"
    using find_unique_in_set [OF I(3) t(1)] t(3) by simp
  have fs: "find_unique xs_id (xs_id s) (xd_sessions db) = Some s" by (rule find_unique_in_set [OF I(1) s])
  have "customer_decide x now \<noteq> C_Rotate" if "ss_session x = s" for x
    using dead that by (auto simp: customer_decide_def Let_def split: option.split)
  then show "fst (refreshCustomerSession sha tid replacement raw agent ip now db) = Inl invalidRefresh"
    by (auto simp: refreshCustomerSession_def customer_refresh_finish_def customer_refresh_read_def ft t(2) fs
        split: option.split customer_decision.split)
qed

text \<open>C39. The end of a customer session is final: from the moment a session is revoked, or its
  thirty days are over, no access token of it is accepted, and no refresh that begins after that
  moment exchanges a refresh token of it, whatever requests were under way at the end and whatever
  runs in between. A refresh that had read the session before the end may still answer with new
  tokens; this covers them too: the access token is refused, and so is a refresh with the new
  refresh token.\<close>

theorem customer_session_end_final:
  assumes "cust_steps sha st (db, ps)" and "cust_ok st"
    and "s \<in> set (xd_sessions (fst st))" and "xs_revokedAt s \<noteq> None \<or> xs_absoluteExpiresAt s < now"
  shows "(\<exists>e. customer_jwt_validate (customer_access c (xs_id s)) now db = Inl e)
    \<and> (t \<in> set (xd_tokens db) \<and> xt_sessionId t = xs_id s \<and> xt_tokenHash t = sha raw \<longrightarrow>
       fst (refreshCustomerSession sha tid replacement raw agent ip now db) = Inl invalidRefresh)"
proof -
  have "customer_inv db" and k: "kept (fst st) db"
    using cust_steps_ok [OF assms(1,2)] by (simp_all add: cust_ok_def)
  moreover obtain s' where "s' \<in> set (xd_sessions db)" "sess_le s s'"
    using k assms(3) unfolding kept_def covers_def by blast
  moreover from this(2) assms(4) have "xs_id s' = xs_id s" "xs_revokedAt s' \<noteq> None \<or> xs_absoluteExpiresAt s' < now"
    by (auto simp: sess_le_def)
  ultimately show ?thesis
    using dead_session_refused(1) [of db s' now c] dead_session_refused(2) [of db s' now t sha raw tid replacement agent ip]
    by auto
qed

text \<open>A refresh token presented again more than fifteen seconds after its use ends the session:
  the request is refused, and every session row and token row of it is revoked. Within the fifteen
  seconds the request is refused and nothing changes.\<close>

theorem replayed_token_ends_session:
  assumes "customer_inv db" and "t \<in> set (xd_tokens db)" and "xt_tokenHash t = sha raw" and "xt_usedAt t = Some u"
    and "s \<in> set (xd_sessions db)" and "xs_id s = xt_sessionId t"
    and "c \<in> set (xd_customers db)" and "cm_id c = xs_customerId s" and "unique_keys cm_id (xd_customers db)"
    and "refreshCustomerSession sha tid replacement raw agent ip now db = (r, db')"
  shows "r = Inl invalidRefresh
    \<and> (if now - u \<le> REUSE_GRACE_MS then db' = db
       else list_all (\<lambda>x. xs_id x = xs_id s \<longrightarrow> xs_revokedAt x \<noteq> None) (xd_sessions db')
          \<and> list_all (\<lambda>x. xt_sessionId x = xs_id s \<longrightarrow> xt_revokedAt x \<noteq> None) (xd_tokens db'))"
proof -
  note I = customer_invD [OF assms(1)]
  let ?snap = "\<lparr>ss_token = t, ss_session = s, ss_customer = c\<rparr>"
  have "find_unique xt_tokenHash (sha raw) (xd_tokens db) = Some t"
    using find_unique_in_set [OF I(3) assms(2)] assms(3) by simp
  moreover have "find_unique xs_id (xt_sessionId t) (xd_sessions db) = Some s"
    using find_unique_in_set [OF I(1) assms(5)] assms(6) by simp
  moreover have "find_unique cm_id (xs_customerId s) (xd_customers db) = Some c"
    using find_unique_in_set [OF assms(9,7)] assms(8) by simp
  ultimately have "customer_refresh_read sha raw db = Some ?snap" by (simp add: customer_refresh_read_def)
  moreover have "customer_decide ?snap now = (if now - u \<le> REUSE_GRACE_MS then C_Race else C_Reuse)"
    using assms(4) by (simp add: customer_decide_def)
  ultimately show ?thesis using assms(10)
    by (auto simp: refreshCustomerSession_def customer_refresh_finish_def list_all_iff set_update_many
        revoke_customer_tokens_def revoke_customer_session_def split: if_splits)
qed

text \<open>A refresh that began before a logout still answers with new tokens after it, and they are
  dead: the access token of the answer is refused.\<close>

theorem refresh_across_logout:
  assumes "customer_inv db" and "customer_refresh_read sha raw db = Some s" and "customer_decide s now = C_Rotate"
    and "tid \<notin> xt_id ` set (xd_tokens db)" and "sha replacement \<notin> xt_tokenHash ` set (xd_tokens db)"
    and "customer_refresh_finish sha tid replacement (Some s) agent ip now
      (revokeCustomerSessionByToken sha raw now db) = (r, db')"
  shows "\<exists>toks e. r = Inr toks \<and> customer_jwt_validate (ct_access toks) now db' = Inl e"
proof -
  note I = customer_invD [OF assms(1)]
  let ?d = "revokeCustomerSessionByToken sha raw now db"
  have t: "ss_token s \<in> set (xd_tokens db)" "xt_tokenHash (ss_token s) = sha raw"
    and x: "ss_session s \<in> set (xd_sessions db)" "xs_id (ss_session s) = xt_sessionId (ss_token s)"
    using assms(2) by (auto simp: customer_refresh_read_def dest!: find_unique_Some_D split: option.splits)
  have live: "live_token (ss_token s)"
    using assms(3) by (auto simp: customer_decide_def live_token_def Let_def split: option.splits if_splits)
  have "find_unique xt_tokenHash (sha raw) (xd_tokens db) = Some (ss_token s)"
    using find_unique_in_set [OF I(3) t(1)] t(2) by simp
  then have d: "?d = revoke_customer_session (xs_id (ss_session s)) ''LOGOUT'' now db"
    by (simp add: revokeCustomerSessionByToken_def logout_read_def logout_write_def x(2))
  have inv: "customer_inv ?d" unfolding d by (rule revoke_session_inv(1) [OF assms(1)])
  have ok: "snap_ok ?d s"
    by (rule snap_ok_kept [of db]) (use t x in \<open>auto simp: snap_ok_def d revoke_session_inv intro: bexI le_order\<close>)
  have toks: "xd_tokens ?d = xd_tokens db" by (simp add: d revoke_customer_session_def)
  have "count_rows (\<lambda>y. xt_id y = xt_id (ss_token s) \<and> live_token y) (xd_tokens ?d) = 1"
    unfolding toks by (subst count_rows_key [OF I(2)]) (use find_unique_in_set [OF I(2) t(1)] live in auto)
  then obtain db1 where rot: "customer_rotate sha tid replacement s agent ip now ?d = Some (Inr db1)"
    using assms(4,5) by (auto simp: customer_rotate_def Let_def toks)
  then have r: "r = Inr \<lparr>ct_access = customer_access (cm_id (ss_customer s)) (xs_id (ss_session s)), ct_refresh = replacement\<rparr>"
    "db' = db1"
    using assms(3,6) by (simp_all add: customer_refresh_finish_def)
  have inv1: "customer_inv db1" and k: "kept ?d db1" using customer_rotate_Inr [OF inv ok rot] by auto
  have "(ss_session s)\<lparr>xs_revokedAt := Some now, xs_revokedReason := Some ''LOGOUT''\<rparr> \<in> set (xd_sessions ?d)"
    using x(1) by (auto simp: d revoke_customer_session_def set_update_many)
  then obtain y where "y \<in> set (xd_sessions db1)"
    "sess_le ((ss_session s)\<lparr>xs_revokedAt := Some now, xs_revokedReason := Some ''LOGOUT''\<rparr>) y"
    using k unfolding kept_def covers_def by blast
  then have "y \<in> set (xd_sessions db1)" "xs_id y = xs_id (ss_session s)" "xs_revokedAt y \<noteq> None"
    by (simp_all add: sess_le_def)
  with dead_session_refused(1) [OF inv1, of y now] r show ?thesis by auto
qed

section \<open>Witnesses\<close>

definition demo_sha :: "string \<Rightarrow> string" where
  "demo_sha s = CHR ''h'' # s"

definition demo_no_sessions :: session_db where
  "demo_no_sessions = \<lparr>xd_customers = [demo_customer 1 ''CUS-A'' ''9000000001''], xd_sessions = [], xd_tokens = []\<rparr>"

definition demo_session :: customer_session where
  "demo_session = new_customer_session ''s1'' 1 30 None None ''Unknown device'' ''r1'' 1000"

definition demo_token :: customer_token where
  "demo_token = child_token ''t1'' ''s1'' (demo_sha ''raw1'') None (1000 + 30 * DAY_MS)"

definition demo_open :: session_db where
  "demo_open = \<lparr>xd_customers = [demo_customer 1 ''CUS-A'' ''9000000001''], xd_sessions = [demo_session], xd_tokens = [demo_token]\<rparr>"

definition demo_refreshed :: session_db where
  "demo_refreshed = snd (refreshCustomerSession demo_sha ''t2'' ''raw2'' ''raw1'' None None 2000 demo_open)"

lemma demo_opens:
  "open_customer_session demo_sha \<lparr>op_tokenId = ''t1'', op_raw = ''raw1''\<rparr> demo_session demo_no_sessions = Inr demo_open"
  by code_simp

lemma demo_sessions_inv: "customer_inv demo_no_sessions" "customer_inv demo_open"
proof -
  show i: "customer_inv demo_no_sessions"
    by (simp add: customer_inv_def demo_no_sessions_def links.exclusive_Nil)
  show "customer_inv demo_open"
    by (rule open_customer_inv(1) [OF demo_opens _ i]) (simp add: demo_session_def)
qed

lemma demo_first_steps: "cust_steps demo_sha (demo_no_sessions, []) (demo_refreshed, [])"
proof -
  have "cust_step demo_sha (demo_no_sessions, []) (demo_open, [])"
    by (rule open_session) (use demo_opens in \<open>simp add: demo_session_def\<close>)
  moreover have "cust_step demo_sha (demo_open, []) (demo_open, [CP_Refresh (customer_refresh_read demo_sha ''raw1'' demo_open)])"
    by (rule refresh_begin)
  moreover have "cust_step demo_sha (demo_open, [] @ CP_Refresh (customer_refresh_read demo_sha ''raw1'' demo_open) # [])
    (demo_refreshed, [] @ [])"
    unfolding demo_refreshed_def refreshCustomerSession_def by (rule refresh_end)
  ultimately show ?thesis by auto
qed

theorem customer_sessions_safe_witness:
  "count_rows (\<lambda>t. xt_sessionId t = ''s1'' \<and> live_token t) (xd_tokens demo_refreshed) \<le> 1
   \<and> length (xd_tokens demo_refreshed) = 2"
proof
  show "count_rows (\<lambda>t. xt_sessionId t = ''s1'' \<and> live_token t) (xd_tokens demo_refreshed) \<le> 1"
    using customer_sessions_safe [OF demo_first_steps demo_sessions_inv(1), of "''s1''"] by simp
  show "length (xd_tokens demo_refreshed) = 2" by code_simp
qed

definition demo_logged_out :: session_db where
  "demo_logged_out = revokeCustomerSessionByToken demo_sha ''raw2'' 3000 demo_refreshed"

theorem customer_session_end_final_witness:
  "(\<exists>e. customer_jwt_validate (customer_access 1 ''s1'') 4000 demo_logged_out = Inl e)
   \<and> fst (refreshCustomerSession demo_sha ''t3'' ''raw3'' ''raw2'' None None 4000 demo_logged_out) = Inl invalidRefresh"
proof -
  let ?s = "hd (xd_sessions demo_logged_out)" and ?t = "last (xd_tokens demo_logged_out)"
  have "customer_inv demo_logged_out"
    using customer_sessions_safe [OF demo_first_steps demo_sessions_inv(1)]
    by (simp add: demo_logged_out_def revokeCustomerSessionByToken_def logout_write_def revoke_session_inv split: option.split)
  then have "cust_ok (demo_logged_out, [])" by (simp add: cust_ok_def)
  moreover have "?s \<in> set (xd_sessions demo_logged_out)" "xs_revokedAt ?s \<noteq> None" "xs_id ?s = ''s1''" by code_simp+
  moreover have "?t \<in> set (xd_tokens demo_logged_out)" "xt_sessionId ?t = ''s1''" "xt_tokenHash ?t = demo_sha ''raw2''" by code_simp+
  ultimately show ?thesis
    using customer_session_end_final [of demo_sha "(demo_logged_out, [])" demo_logged_out "[]" ?s 4000 1 ?t "''raw2''" "''t3''" "''raw3''" None None]
    by simp
qed

theorem replayed_token_ends_session_witness:
  "list_all (\<lambda>x. xs_id x = ''s1'' \<longrightarrow> xs_revokedAt x \<noteq> None)
     (xd_sessions (snd (refreshCustomerSession demo_sha ''t3'' ''raw3'' ''raw1'' None None 20000 demo_refreshed)))
   \<and> snd (refreshCustomerSession demo_sha ''t3'' ''raw3'' ''raw1'' None None 3000 demo_refreshed) = demo_refreshed"
proof -
  let ?s = "hd (xd_sessions demo_refreshed)" and ?t = "hd (xd_tokens demo_refreshed)"
    and ?c = "hd (xd_customers demo_refreshed)"
  have i: "customer_inv demo_refreshed" using customer_sessions_safe [OF demo_first_steps demo_sessions_inv(1)] by simp
  have t: "?t \<in> set (xd_tokens demo_refreshed)" "xt_tokenHash ?t = demo_sha ''raw1''" "xt_usedAt ?t = Some 2000" by code_simp+
  have s: "?s \<in> set (xd_sessions demo_refreshed)" "xs_id ?s = xt_sessionId ?t" "xs_id ?s = ''s1''" by code_simp+
  have c: "?c \<in> set (xd_customers demo_refreshed)" "cm_id ?c = xs_customerId ?s" "unique_keys cm_id (xd_customers demo_refreshed)"
    by code_simp+
  have "\<not> 20000 - 2000 \<le> REUSE_GRACE_MS" "3000 - 2000 \<le> REUSE_GRACE_MS" by (simp_all add: REUSE_GRACE_MS_def)
  then show ?thesis
    using replayed_token_ends_session [where sha = demo_sha and raw = "''raw1''" and now = 20000 and tid = "''t3''"
        and replacement = "''raw3''" and agent = None and ip = None, OF i t s(1,2) c surjective_pairing]
      replayed_token_ends_session [where sha = demo_sha and raw = "''raw1''" and now = 3000 and tid = "''t3''"
        and replacement = "''raw3''" and agent = None and ip = None, OF i t s(1,2) c surjective_pairing]
    by (simp add: s(3))
qed

theorem refresh_across_logout_witness:
  "\<exists>toks e. fst (customer_refresh_finish demo_sha ''t2'' ''raw2'' (customer_refresh_read demo_sha ''raw1'' demo_open) None None 2000
      (revokeCustomerSessionByToken demo_sha ''raw1'' 2000 demo_open)) = Inr toks
    \<and> customer_jwt_validate (ct_access toks) 2000 (snd (customer_refresh_finish demo_sha ''t2'' ''raw2''
        (customer_refresh_read demo_sha ''raw1'' demo_open) None None 2000
        (revokeCustomerSessionByToken demo_sha ''raw1'' 2000 demo_open))) = Inl e"
proof -
  let ?s = "the (customer_refresh_read demo_sha ''raw1'' demo_open)"
  have r: "customer_refresh_read demo_sha ''raw1'' demo_open = Some ?s" by code_simp
  have d: "customer_decide ?s 2000 = C_Rotate" by code_simp
  have "''t2'' \<notin> xt_id ` set (xd_tokens demo_open)" "demo_sha ''raw2'' \<notin> xt_tokenHash ` set (xd_tokens demo_open)" by code_simp+
  from refresh_across_logout [where sha = demo_sha and replacement = "''raw2''", OF demo_sessions_inv(2) r d this surjective_pairing]
  show ?thesis using r by simp
qed

end
