(* ===== verification/CustomerOtp.thy ===== *)
theory CustomerOtp
  imports CustomerSessions Attribution
begin

text \<open>
  One-time passwords (modules/otp/otp.service.ts): sending a code to a mobile number or an email
  address, checking it, and the sign-in of a customer. A check reads an OTP session, verifies the
  hash, and writes afterwards, so these are separate steps. Random values, hashes and the answer
  of the message provider are arguments: \<open>vfy\<close> is \<open>argon2.verify\<close>, \<open>sha\<close> the SHA-256 of refresh
  tokens. What the service logs is kept, as the log shows the codes.
\<close>

section \<open>Data\<close>

datatype otp_purpose = MOBILE_VERIFICATION | EMAIL_VERIFICATION | LOGIN | PASSWORD_RESET | PAYMENT_VERIFICATION

datatype otp_channel = CH_SMS | CH_EMAIL

record otp_session =
  os_id :: int
  os_customerId :: "int option"
  os_mobileNumber :: "string option"
  os_emailId :: "string option"
  os_purpose :: otp_purpose
  os_channel :: otp_channel
  os_otpHash :: string
  os_verified :: bool
  os_verifiedAt :: "time option"
  os_attempts :: int
  os_maxAttempts :: int
  os_expiresAt :: time
  os_lastSentAt :: time
  os_consentGiven :: bool
  os_consentText :: "string option"
  os_consentAt :: "time option"
  os_invalidatedAt :: "time option"
  os_ipAddress :: "string option"
  os_userAgent :: "string option"
  os_createdAt :: time

record login_row =
  lg_customerId :: int
  lg_mobile :: string
  lg_ipAddress :: "string option"
  lg_first :: bool
  lg_createdAt :: time

record otp_db =
  og_sess :: session_db
  og_otps :: "otp_session list"
  og_logins :: "login_row list"
  og_attributions :: "customer_attribution list"
  og_mappings :: "referral_mapping list"
  og_kycEmail :: "(int \<times> string \<times> time) list"  \<comment> \<open>customer, verified address, when\<close>
  og_log :: "string list"

datatype otp_error = OtpError http_error | TooManyRequests string

text \<open>The configuration. A setting that is absent takes its default.\<close>

record otp_env =
  ov_expiryMinutes :: rat
  ov_maxAttempts :: int
  ov_cooldownSeconds :: rat
  ov_reviewMobile :: "string option"
  ov_reviewOtp :: "string option"
  ov_expose :: bool
  ov_sessionDays :: int

definition readPositiveNumber :: "(string \<Rightarrow> rat option) \<Rightarrow> string option \<Rightarrow> rat \<Rightarrow> rat" where
  "readPositiveNumber num setting defaultValue =
     (case setting of
        None \<Rightarrow> defaultValue
      | Some s \<Rightarrow> (case num s of Some v \<Rightarrow> if v \<le> 0 then defaultValue else v | None \<Rightarrow> defaultValue))"

section \<open>Numbers and addresses\<close>

definition digits_of :: "string \<Rightarrow> string" where
  "digits_of = filter is_digit"

text \<open>\<open>replace(/^91(?=\d{10}$)/, '')\<close> on a string of digits.\<close>

definition without_country :: "string \<Rightarrow> string" where
  "without_country d = (if length d = 12 \<and> take 2 d = ''91'' then drop 2 d else d)"

definition review_mobile :: "otp_env \<Rightarrow> string" where
  "review_mobile env = without_country (digits_of (opt_or (ov_reviewMobile env) ''9999999999''))"

definition isAppleReviewMobile :: "otp_env \<Rightarrow> string \<Rightarrow> bool" where
  "isAppleReviewMobile env mobileNumber \<longleftrightarrow>
     (let clean = without_country (digits_of mobileNumber) in
      review_mobile env \<noteq> [] \<and> clean \<noteq> [] \<and> clean = review_mobile env)"

definition getAppleReviewOtp :: "otp_env \<Rightarrow> string" where
  "getAppleReviewOtp env =
     (let o' = trim_str (opt_or (ov_reviewOtp env) ''123456'') in if o' = [] then ''123456'' else o')"

definition indian_mobile :: "string \<Rightarrow> bool" where
  "indian_mobile s \<longleftrightarrow> length s = 10 \<and> list_all is_digit s \<and> hd s \<in> set ''6789''"

definition normalizeMobile :: "otp_env \<Rightarrow> string \<Rightarrow> http_error + string" where
  "normalizeMobile env mobileNumber =
     (let normalized = without_country (digits_of mobileNumber) in
      if isAppleReviewMobile env normalized then Inr normalized
      else if \<not> indian_mobile normalized then Inl (BadRequest ''Enter a valid Indian mobile number.'')
      else Inr normalized)"

text \<open>\<open>/^[^\s@]+@[^\s@]+\.[^\s@]+$/\<close>\<close>

definition email_form :: "string \<Rightarrow> bool" where
  "email_form s \<longleftrightarrow>
     (case split_on (CHR ''@'') s of
        [a, d] \<Rightarrow> a \<noteq> [] \<and> list_all (\<lambda>c. \<not> is_space c) (a @ d)
          \<and> list_ex (\<lambda>i. d ! i = CHR ''.'') [1..<length d - 1]
      | _ \<Rightarrow> False)"

definition normalizeCustomerEmail :: "string \<Rightarrow> http_error + string" where
  "normalizeCustomerEmail email =
     (let e = to_lower (trim_str email) in
      if email_form e then Inr e else Inl (BadRequest ''Enter a valid email address.''))"

definition parseCustomerId :: "string \<Rightarrow> http_error + int" where
  "parseCustomerId s =
     (if s \<noteq> [] \<and> list_all is_digit s \<and> hd s \<noteq> CHR ''0'' then Inr (digits_value s)
      else Inl (BadRequest ''Invalid customer ID.''))"

definition parse_otp :: "string \<Rightarrow> http_error + string" where
  "parse_otp raw =
     (let o' = digits_of raw in
      if length o' = 6 then Inr o' else Inl (BadRequest ''OTP must contain exactly 6 digits.''))"

text \<open>\<open>new Date(x)\<close> drops the fraction of a number of milliseconds.\<close>

definition getOtpExpiry :: "otp_env \<Rightarrow> time \<Rightarrow> time" where
  "getOtpExpiry env now = \<lfloor>dbl (of_int now + dbl (dbl (ov_expiryMinutes env * 60) * 1000))\<rfloor>"

section \<open>OTP sessions\<close>

text \<open>A condition that is undefined is left out of a query.\<close>

definition same_or_any :: "'a option \<Rightarrow> 'a option \<Rightarrow> bool" where
  "same_or_any w v \<longleftrightarrow> (case w of None \<Rightarrow> True | Some x \<Rightarrow> v = Some x)"

record otp_where =
  ow_purpose :: otp_purpose
  ow_mobile :: "string option"
  ow_customerId :: "int option"
  ow_email :: "string option"

definition otp_matches :: "otp_where \<Rightarrow> otp_session \<Rightarrow> bool" where
  "otp_matches w s \<longleftrightarrow> os_purpose s = ow_purpose w \<and> same_or_any (ow_mobile w) (os_mobileNumber s)
     \<and> same_or_any (ow_customerId w) (os_customerId s) \<and> same_or_any (ow_email w) (os_emailId s)"

definition otp_open :: "otp_session \<Rightarrow> bool" where
  "otp_open s \<longleftrightarrow> \<not> os_verified s \<and> os_invalidatedAt s = None"

definition by_mobile :: "string \<Rightarrow> otp_where" where
  "by_mobile m = \<lparr>ow_purpose = MOBILE_VERIFICATION, ow_mobile = Some m, ow_customerId = None, ow_email = None\<rparr>"

definition by_customer :: "int \<Rightarrow> string option \<Rightarrow> otp_where" where
  "by_customer c e = \<lparr>ow_purpose = EMAIL_VERIFICATION, ow_mobile = None, ow_customerId = Some c, ow_email = e\<rparr>"

definition enforceResendCooldown :: "otp_env \<Rightarrow> otp_where \<Rightarrow> time \<Rightarrow> otp_db \<Rightarrow> otp_error option" where
  "enforceResendCooldown env w now db =
     (case sort_key (\<lambda>s. - os_lastSentAt s) (filter (otp_matches w) (og_otps db)) of
        [] \<Rightarrow> None
      | s # _ \<Rightarrow>
          if of_int ((now - os_lastSentAt s) div 1000) < ov_cooldownSeconds env
          then Some (TooManyRequests ''Please wait before requesting another OTP.'') else None)"

definition invalidate_otp :: "time \<Rightarrow> otp_session \<Rightarrow> otp_session" where
  "invalidate_otp now s = s\<lparr>os_invalidatedAt := Some now\<rparr>"

definition invalidateActiveSessions :: "otp_where \<Rightarrow> time \<Rightarrow> otp_db \<Rightarrow> otp_db" where
  "invalidateActiveSessions w now db =
     db\<lparr>og_otps := update_many (\<lambda>s. otp_matches w s \<and> otp_open s) (invalidate_otp now) (og_otps db)\<rparr>"

definition open_otp :: "otp_where \<Rightarrow> otp_session list \<Rightarrow> otp_session option" where
  "open_otp w t =
     (case sort_key (\<lambda>s. - os_createdAt s) (filter (\<lambda>s. otp_matches w s \<and> otp_open s) t) of
        [] \<Rightarrow> None | s # _ \<Rightarrow> Some s)"

definition getActiveOtpSession :: "otp_where \<Rightarrow> otp_db \<Rightarrow> http_error + otp_session" where
  "getActiveOtpSession w db =
     (case open_otp w (og_otps db) of
        None \<Rightarrow> Inl (BadRequest ''No active OTP session was found.'') | Some s \<Rightarrow> Inr s)"

definition invalidate_id :: "int \<Rightarrow> time \<Rightarrow> otp_db \<Rightarrow> otp_db" where
  "invalidate_id i now db = db\<lparr>og_otps := update_many (\<lambda>s. os_id s = i) (invalidate_otp now) (og_otps db)\<rparr>"

text \<open>The decision on the row that was read, then the write by its id.\<close>

datatype otp_decision = V_Pass | V_Inactive | V_Expired | V_Exceeded | V_Wrong

definition otp_decide :: "(string \<Rightarrow> string \<Rightarrow> bool) \<Rightarrow> otp_session \<Rightarrow> string \<Rightarrow> time \<Rightarrow> otp_decision" where
  "otp_decide vfy s entered now =
     (if os_verified s \<or> os_invalidatedAt s \<noteq> None then V_Inactive
      else if os_expiresAt s \<le> now then V_Expired
      else if os_maxAttempts s \<le> os_attempts s then V_Exceeded
      else if vfy (os_otpHash s) entered then V_Pass else V_Wrong)"

definition guessed :: "otp_session \<Rightarrow> time \<Rightarrow> otp_session \<Rightarrow> otp_session" where
  "guessed s now r =
     (let n = os_attempts s + 1 in
      r\<lparr>os_attempts := n, os_invalidatedAt := (if os_maxAttempts s \<le> n then Some now else None)\<rparr>)"

definition wrong_guess :: "otp_session \<Rightarrow> time \<Rightarrow> otp_db \<Rightarrow> otp_db" where
  "wrong_guess s now db = db\<lparr>og_otps := update_many (\<lambda>r. os_id r = os_id s) (guessed s now) (og_otps db)\<rparr>"

definition validateOtpSession ::
  "(string \<Rightarrow> string \<Rightarrow> bool) \<Rightarrow> otp_session \<Rightarrow> string \<Rightarrow> time \<Rightarrow> otp_db \<Rightarrow> otp_error option \<times> otp_db" where
  "validateOtpSession vfy s entered now db =
     (case otp_decide vfy s entered now of
        V_Inactive \<Rightarrow> (Some (OtpError (BadRequest ''This OTP session is no longer active.'')), db)
      | V_Expired \<Rightarrow> (Some (OtpError (Unauthorized ''OTP has expired. Please request a new OTP.'')), invalidate_id (os_id s) now db)
      | V_Exceeded \<Rightarrow> (Some (TooManyRequests ''Maximum OTP attempts exceeded. Please request a new OTP.''), invalidate_id (os_id s) now db)
      | V_Pass \<Rightarrow> (None, db)
      | V_Wrong \<Rightarrow>
          (Some (OtpError (Unauthorized (if os_maxAttempts s \<le> os_attempts s + 1
              then ''Maximum OTP attempts exceeded. Please request a new OTP.'' else ''Invalid OTP.''))),
           wrong_guess s now db))"

section \<open>Sending a code\<close>

record send_input =
  si_mobileNumber :: string
  si_consentGiven :: bool
  si_consentText :: "string option"
  si_ipAddress :: "string option"
  si_userAgent :: "string option"

record otp_sent =
  sn_sessionId :: int
  sn_expiresAt :: time
  sn_simulated :: bool
  sn_developmentOtp :: "string option"

datatype sms_answer = Sms_Sent bool | Sms_Failed http_error

definition new_otp :: "otp_env \<Rightarrow> int \<Rightarrow> otp_purpose \<Rightarrow> otp_channel \<Rightarrow> int option \<Rightarrow> string option \<Rightarrow>
  string option \<Rightarrow> string \<Rightarrow> time \<Rightarrow> time \<Rightarrow> otp_session" where
  "new_otp env i purpose channel customerId mobile email hash expiresAt now =
     \<lparr>os_id = i, os_customerId = customerId, os_mobileNumber = mobile, os_emailId = email,
      os_purpose = purpose, os_channel = channel, os_otpHash = hash, os_verified = False, os_verifiedAt = None,
      os_attempts = 0, os_maxAttempts = ov_maxAttempts env, os_expiresAt = expiresAt, os_lastSentAt = now,
      os_consentGiven = False, os_consentText = None, os_consentAt = None, os_invalidatedAt = None,
      os_ipAddress = None, os_userAgent = None, os_createdAt = now\<rparr>"

definition put_otp :: "otp_session \<Rightarrow> otp_db \<Rightarrow> otp_db" where
  "put_otp s db = db\<lparr>og_otps := og_otps db @ [s]\<rparr>"

definition customer_of :: "string \<Rightarrow> otp_db \<Rightarrow> customer option" where
  "customer_of mobile db = find_unique cm_mobile mobile (xd_customers (og_sess db))"

text \<open>The checks of \<open>sendMobileOtp\<close> before its first write.\<close>

definition send_check :: "otp_env \<Rightarrow> send_input \<Rightarrow> time \<Rightarrow> otp_db \<Rightarrow> otp_error + string \<times> int option" where
  "send_check env i now db =
     (case normalizeMobile env (si_mobileNumber i) of
        Inl e \<Rightarrow> Inl (OtpError e)
      | Inr m \<Rightarrow>
          if \<not> si_consentGiven i then Inl (OtpError (BadRequest ''Customer consent is required.''))
          else case (if isAppleReviewMobile env m then None else enforceResendCooldown env (by_mobile m) now db) of
            Some e \<Rightarrow> Inl e
          | None \<Rightarrow>
              (case customer_of m db of
                 None \<Rightarrow> Inr (m, None)
               | Some c \<Rightarrow>
                   if cm_accountStatus c = CA_BLOCKED
                   then Inl (OtpError (Unauthorized ''This customer account is blocked.''))
                   else Inr (m, Some (cm_id c))))"

definition mobile_log :: "string \<Rightarrow> string \<Rightarrow> string" where
  "mobile_log m otp = ''[DEBUG-ONLY] Mobile OTP for '' @ m @ '': '' @ otp"

definition email_log :: "string \<Rightarrow> string \<Rightarrow> string" where
  "email_log e otp = ''[DEBUG-ONLY] Email OTP for '' @ e @ '': '' @ otp"

definition add_log :: "string \<Rightarrow> otp_db \<Rightarrow> otp_db" where
  "add_log l db = db\<lparr>og_log := og_log db @ [l]\<rparr>"

text \<open>A day, for the number of the app review.\<close>

definition send_session :: "otp_env \<Rightarrow> send_input \<Rightarrow> string \<Rightarrow> int option \<Rightarrow> string \<Rightarrow> time \<Rightarrow> otp_db \<Rightarrow> otp_session" where
  "send_session env i m customerId hash now db =
     (new_otp env (next_id (map os_id (og_otps db))) MOBILE_VERIFICATION CH_SMS customerId (Some m) None hash
        (if isAppleReviewMobile env m then now + 24 * 60 * 60 * 1000 else getOtpExpiry env now) now)
     \<lparr>os_consentGiven := True, os_consentText := map_option (\<lambda>t. take 500 (trim_str t)) (si_consentText i),
      os_consentAt := Some now, os_ipAddress := map_option (take 45) (si_ipAddress i),
      os_userAgent := map_option (take 500) (si_userAgent i)\<rparr>"

text \<open>The row is created, then the provider is called; the code \<open>otp\<close> is the generated one.\<close>

definition send_create :: "otp_env \<Rightarrow> send_input \<Rightarrow> string \<Rightarrow> int option \<Rightarrow> string \<Rightarrow> string \<Rightarrow> sms_answer \<Rightarrow>
  time \<Rightarrow> otp_db \<Rightarrow> (otp_error + otp_sent) \<times> otp_db" where
  "send_create env i m customerId otp hash sms now db =
     (let s = send_session env i m customerId hash now db;
          db1 = put_otp s (if isAppleReviewMobile env m then db else add_log (mobile_log m otp) db)
      in if isAppleReviewMobile env m
         then (Inr \<lparr>sn_sessionId = os_id s, sn_expiresAt = os_expiresAt s, sn_simulated = True, sn_developmentOtp = None\<rparr>, db1)
         else case sms of
           Sms_Sent simulated \<Rightarrow>
             (Inr \<lparr>sn_sessionId = os_id s, sn_expiresAt = os_expiresAt s, sn_simulated = simulated,
                   sn_developmentOtp = (if ov_expose env then Some otp else None)\<rparr>, db1)
         | Sms_Failed e \<Rightarrow> (Inl (OtpError e), invalidate_id (os_id s) now db1))"

text \<open>\<open>hash\<close> is the hash of the code of the session: of the fixed code for the number of the review.\<close>

definition sendMobileOtp :: "otp_env \<Rightarrow> send_input \<Rightarrow> string \<Rightarrow> string \<Rightarrow> sms_answer \<Rightarrow> time \<Rightarrow> otp_db \<Rightarrow>
  (otp_error + otp_sent) \<times> otp_db" where
  "sendMobileOtp env i otp hash sms now db =
     (case send_check env i now db of
        Inl e \<Rightarrow> (Inl e, db)
      | Inr (m, c) \<Rightarrow>
          send_create env i m c otp hash sms now (invalidateActiveSessions (by_mobile m) now db))"

section \<open>Signing in\<close>

record verify_input =
  vi_mobileNumber :: string
  vi_otp :: string
  vi_ipAddress :: "string option"
  vi_userAgent :: "string option"
  vi_requestId :: string
  vi_attribution :: "attribution_input option"
  vi_ref :: "string option"  \<comment> \<open>the field \<open>ref\<close> of the attribution\<close>

text \<open>What the database and the random generator choose.\<close>

record fresh_values =
  fv_customerCode :: string
  fv_sessionId :: ident
  fv_opened :: opened
  fv_reviewHash :: string

text \<open>The session of the number of the review is created when there is none.\<close>

definition review_session :: "otp_env \<Rightarrow> string \<Rightarrow> string \<Rightarrow> verify_input \<Rightarrow> time \<Rightarrow> otp_db \<Rightarrow> otp_session \<times> otp_db" where
  "review_session env m hash i now db =
     (case open_otp (by_mobile m) (filter (\<lambda>s. now < os_expiresAt s) (og_otps db)) of
        Some s \<Rightarrow> (s, db)
      | None \<Rightarrow>
          let s = (new_otp env (next_id (map os_id (og_otps db))) MOBILE_VERIFICATION CH_SMS None (Some m) None hash
                     (now + 24 * 60 * 60 * 1000) now)
                  \<lparr>os_consentGiven := True, os_consentText := Some ''Apple App Review test consent'',
                   os_consentAt := Some now, os_ipAddress := map_option (take 45) (truthy_str (vi_ipAddress i)),
                   os_userAgent := map_option (take 500) (truthy_str (vi_userAgent i))\<rparr>
          in (s, put_otp s db))"

definition verify_session :: "otp_env \<Rightarrow> (string \<Rightarrow> string \<Rightarrow> bool) \<Rightarrow> string \<Rightarrow> string \<Rightarrow> string \<Rightarrow> verify_input \<Rightarrow>
  time \<Rightarrow> otp_db \<Rightarrow> (otp_error + otp_session) \<times> otp_db" where
  "verify_session env vfy m otp hash i now db =
     (if isAppleReviewMobile env m
      then if otp \<noteq> getAppleReviewOtp env
           then (Inl (OtpError (Unauthorized ''Invalid OTP. Please enter the correct OTP.'')), db)
           else (let (s, db1) = review_session env m hash i now db in (Inr s, db1))
      else case getActiveOtpSession (by_mobile m) db of
        Inl e \<Rightarrow> (Inl (OtpError e), db)
      | Inr s \<Rightarrow>
          (case validateOtpSession vfy s otp now db of
             (Some e, db1) \<Rightarrow> (Inl e, db1)
           | (None, db1) \<Rightarrow> (Inr s, db1)))"

definition signed_in :: "time \<Rightarrow> customer \<Rightarrow> customer" where
  "signed_in now c = c\<lparr>cm_mobileVerifiedAt := Some (opt_or (cm_mobileVerifiedAt c) now),
     cm_lastLoginAt := Some now, cm_lastActivityAt := Some now\<rparr>"

definition new_customer :: "int \<Rightarrow> string \<Rightarrow> string \<Rightarrow> time \<Rightarrow> customer" where
  "new_customer i code m now =
     \<lparr>cm_id = i, cm_code = code, cm_mobile = m, cm_mobileVerifiedAt = Some now, cm_accountStatus = CA_ACTIVE,
      cm_fullName = None, cm_email = None, cm_emailVerified = False, cm_emailVerifiedAt = None,
      cm_onboarding = ON_MOBILE_VERIFIED, cm_lastLoginAt = Some now, cm_lastActivityAt = Some now\<rparr>"

definition upsert_customer :: "string \<Rightarrow> string \<Rightarrow> time \<Rightarrow> customer list \<Rightarrow> http_error + customer \<times> customer list" where
  "upsert_customer m code now t =
     (case find_unique cm_mobile m t of
        Some c \<Rightarrow> Inr (signed_in now c, update_many (\<lambda>r. cm_mobile r = m) (signed_in now) t)
      | None \<Rightarrow>
          if code \<in> cm_code ` set t then Inl (Conflict ''A customer with this mobile number already exists.'')
          else let c = new_customer (next_id (map cm_id t)) code m now in Inr (c, t @ [c]))"

definition referral_code_of :: "verify_input \<Rightarrow> string option" where
  "referral_code_of i =
     (case truthy_str (Option.bind (vi_attribution i) in_referralCode) of
        Some c \<Rightarrow> Some c
      | None \<Rightarrow> (case vi_attribution i of None \<Rightarrow> None | Some _ \<Rightarrow> truthy_str (vi_ref i)))"

text \<open>
  The referral is recorded on a connection of its own: it sees the customers as they were
  committed before the transaction, and what it writes stays whatever the transaction does. That
  connection waits for a lock of the transaction in some cases; waiting is not modelled.
\<close>

definition sign_in_referral :: "verify_input \<Rightarrow> int \<Rightarrow> customer list \<Rightarrow> referral_mapping list \<Rightarrow> referral_mapping list" where
  "sign_in_referral i customerId committed t =
     (case referral_code_of i of
        None \<Rightarrow> t
      | Some code \<Rightarrow> snd (recordReferralRegistration customerId code (next_id (map rf_id t)) committed t))"

definition consume_otp :: "otp_session \<Rightarrow> int option \<Rightarrow> time \<Rightarrow> otp_session list \<Rightarrow> otp_session list" where
  "consume_otp s customerId now t =
     update_many (\<lambda>r. os_id r = os_id s)
       (\<lambda>r. r\<lparr>os_customerId := (case customerId of Some c \<Rightarrow> Some c | None \<Rightarrow> os_customerId r),
              os_verified := True, os_verifiedAt := Some now, os_attempts := os_attempts s + 1\<rparr>) t"

definition close_others :: "otp_where \<Rightarrow> otp_session \<Rightarrow> time \<Rightarrow> otp_session list \<Rightarrow> otp_session list" where
  "close_others w s now t =
     update_many (\<lambda>r. otp_matches w r \<and> os_id r \<noteq> os_id s \<and> otp_open r) (invalidate_otp now) t"

definition verify_commit :: "otp_env \<Rightarrow> (string \<Rightarrow> string) \<Rightarrow> fresh_values \<Rightarrow> string \<Rightarrow> otp_session \<Rightarrow> verify_input \<Rightarrow>
  time \<Rightarrow> otp_db \<Rightarrow> (otp_error + customer_tokens \<times> customer) \<times> otp_db" where
  "verify_commit env sha fr m s i now db =
     (let committed = xd_customers (og_sess db) in
      if (case customer_of m db of Some c \<Rightarrow> cm_accountStatus c = CA_BLOCKED | None \<Rightarrow> False)
      then (Inl (OtpError (Unauthorized ''This customer account is blocked.'')), db)
      else case upsert_customer m (fv_customerCode fr) now committed of
        Inl e \<Rightarrow> (Inl (OtpError e), db)
      | Inr (c, customers) \<Rightarrow>
          let mappings = sign_in_referral i (cm_id c) committed (og_mappings db);
              x = new_customer_session (fv_sessionId fr) (cm_id c) (ov_sessionDays env) (vi_ipAddress i)
                    (vi_userAgent i) (deviceLabel (vi_userAgent i)) (vi_requestId i) now
          in case open_customer_session sha (fv_opened fr) x ((og_sess db)\<lparr>xd_customers := customers\<rparr>) of
               Inl e \<Rightarrow> (Inl (OtpError (Conflict ''A customer with this mobile number already exists.'')),
                         db\<lparr>og_mappings := mappings\<rparr>)
             | Inr sess \<Rightarrow>
                 (Inr (\<lparr>ct_access = customer_access (cm_id c) (fv_sessionId fr), ct_refresh = op_raw (fv_opened fr)\<rparr>, c),
                  db\<lparr>og_sess := sess,
                     og_otps := close_others (by_mobile m) s now (consume_otp s (Some (cm_id c)) now (og_otps db)),
                     og_logins := og_logins db @ [\<lparr>lg_customerId = cm_id c, lg_mobile = m,
                        lg_ipAddress = map_option (take 64) (truthy_str (vi_ipAddress i)),
                        lg_first = (customer_of m db = None), lg_createdAt = now\<rparr>],
                     og_attributions := recordCustomerAttribution (cm_id c) (vi_attribution i) now (og_attributions db),
                     og_mappings := mappings\<rparr>))"

definition verifyMobileOtp :: "otp_env \<Rightarrow> (string \<Rightarrow> string \<Rightarrow> bool) \<Rightarrow> (string \<Rightarrow> string) \<Rightarrow> fresh_values \<Rightarrow>
  verify_input \<Rightarrow> time \<Rightarrow> otp_db \<Rightarrow> (otp_error + customer_tokens \<times> customer) \<times> otp_db" where
  "verifyMobileOtp env vfy sha fr i now db =
     (case normalizeMobile env (vi_mobileNumber i) of
        Inl e \<Rightarrow> (Inl (OtpError e), db)
      | Inr m \<Rightarrow>
          (case parse_otp (vi_otp i) of
             Inl e \<Rightarrow> (Inl (OtpError e), db)
           | Inr otp \<Rightarrow>
               (case verify_session env vfy m otp (fv_reviewHash fr) i now db of
                  (Inl e, db1) \<Rightarrow> (Inl e, db1)
                | (Inr s, db1) \<Rightarrow> verify_commit env sha fr m s i now db1)))"

section \<open>Email addresses\<close>

datatype email_answer = Email_Sent | Email_Failed | Email_Pending  \<comment> \<open>not settled within the deadline\<close>

datatype email_result = Already_Verified string | Email_Otp otp_sent

definition sendEmailOtp :: "otp_env \<Rightarrow> string \<Rightarrow> string \<Rightarrow> string option \<Rightarrow> string option \<Rightarrow> string \<Rightarrow> string \<Rightarrow>
  email_answer \<Rightarrow> time \<Rightarrow> otp_db \<Rightarrow> (otp_error + email_result) \<times> otp_db" where
  "sendEmailOtp env customerId rawEmail ip agent otp hash sent now db =
     (case (parseCustomerId customerId, normalizeCustomerEmail rawEmail) of
        (Inl e, _) \<Rightarrow> (Inl (OtpError e), db)
      | (_, Inl e) \<Rightarrow> (Inl (OtpError e), db)
      | (Inr i, Inr email) \<Rightarrow>
          (case find_unique cm_id i (xd_customers (og_sess db)) of
             None \<Rightarrow> (Inl (OtpError (NotFound ''Customer not found.'')), db)
           | Some c \<Rightarrow>
               if cm_accountStatus c = CA_BLOCKED
               then (Inl (OtpError (Unauthorized ''This customer account is blocked.'')), db)
               else if cm_emailVerified c \<and> cm_email c = Some email then (Inr (Already_Verified email), db)
               else case enforceResendCooldown env (by_customer i (Some email)) now db of
                 Some e \<Rightarrow> (Inl e, db)
               | None \<Rightarrow>
                   let db1 = add_log (email_log email otp) (invalidateActiveSessions (by_customer i None) now db);
                       s = (new_otp env (next_id (map os_id (og_otps db1))) EMAIL_VERIFICATION CH_EMAIL (Some i) None
                              (Some email) hash (getOtpExpiry env now) now)
                           \<lparr>os_ipAddress := map_option (take 45) ip, os_userAgent := map_option (take 500) agent\<rparr>;
                       db2 = put_otp s db1
                   in if sent = Email_Failed
                      then (Inl (OtpError (ServerError ''Unable to send email OTP. Please try again.'')),
                            invalidate_id (os_id s) now db2)
                      else (Inr (Email_Otp \<lparr>sn_sessionId = os_id s, sn_expiresAt = os_expiresAt s, sn_simulated = False,
                              sn_developmentOtp = (if ov_expose env then Some otp else None)\<rparr>), db2)))"

text \<open>A send that was pending at the deadline and fails afterwards.\<close>

definition email_failed_late :: "int \<Rightarrow> time \<Rightarrow> otp_db \<Rightarrow> otp_db" where
  "email_failed_late sessionId now db = invalidate_id sessionId now db"

definition email_verified :: "string \<Rightarrow> time \<Rightarrow> customer \<Rightarrow> customer" where
  "email_verified email now c = c\<lparr>cm_email := Some email, cm_emailVerified := True, cm_emailVerifiedAt := Some now,
     cm_onboarding := ON_EMAIL_VERIFIED, cm_lastActivityAt := Some now\<rparr>"

definition email_commit :: "int \<Rightarrow> string \<Rightarrow> otp_session \<Rightarrow> time \<Rightarrow> otp_db \<Rightarrow> otp_db" where
  "email_commit i email s now db =
     db\<lparr>og_otps := close_others (by_customer i None) s now (consume_otp s None now (og_otps db)),
        og_sess := (og_sess db)\<lparr>xd_customers := update_many (\<lambda>c. cm_id c = i) (email_verified email now) (xd_customers (og_sess db))\<rparr>,
        og_kycEmail := (if i \<in> fst ` set (og_kycEmail db)
          then map (\<lambda>k. if fst k = i then (i, email, now) else k) (og_kycEmail db)
          else og_kycEmail db @ [(i, email, now)])\<rparr>"

definition verifyEmailOtp :: "(string \<Rightarrow> string \<Rightarrow> bool) \<Rightarrow> string \<Rightarrow> string \<Rightarrow> string \<Rightarrow> time \<Rightarrow> otp_db \<Rightarrow>
  (otp_error + int \<times> string) \<times> otp_db" where
  "verifyEmailOtp vfy customerId rawEmail rawOtp now db =
     (case parseCustomerId customerId of
        Inl e \<Rightarrow> (Inl (OtpError e), db)
      | Inr i \<Rightarrow>
     (case normalizeCustomerEmail rawEmail of
        Inl e \<Rightarrow> (Inl (OtpError e), db)
      | Inr email \<Rightarrow>
     (case parse_otp rawOtp of
        Inl e \<Rightarrow> (Inl (OtpError e), db)
      | Inr otp \<Rightarrow>
     (case find_unique cm_id i (xd_customers (og_sess db)) of
        None \<Rightarrow> (Inl (OtpError (NotFound ''Customer not found.'')), db)
      | Some c \<Rightarrow>
          if cm_accountStatus c = CA_BLOCKED
          then (Inl (OtpError (Unauthorized ''This customer account is blocked.'')), db)
          else case getActiveOtpSession (by_customer i (Some email)) db of
            Inl e \<Rightarrow> (Inl (OtpError e), db)
          | Inr s \<Rightarrow>
              (case validateOtpSession vfy s otp now db of
                 (Some e, db1) \<Rightarrow> (Inl e, db1)
               | (None, db1) \<Rightarrow> (Inr (i, email), email_commit i email s now db1))))))"

section \<open>Lemmas\<close>

lemma open_otp_Some:
  assumes "open_otp w t = Some s"
  shows "s \<in> set t" "otp_matches w s" "otp_open s"
proof -
  let ?xs = "sort_key (\<lambda>s. - os_createdAt s) (filter (\<lambda>s. otp_matches w s \<and> otp_open s) t)"
  from assms obtain r where r: "?xs = s # r" by (auto simp: open_otp_def split: list.splits)
  have "set ?xs = {s \<in> set t. otp_matches w s \<and> otp_open s}" by simp
  with r show "s \<in> set t" "otp_matches w s" "otp_open s" by auto
qed

lemma open_otp_None: "open_otp w t = None \<longleftrightarrow> (\<forall>s\<in>set t. otp_matches w s \<longrightarrow> \<not> otp_open s)"
proof -
  let ?f = "filter (\<lambda>s. otp_matches w s \<and> otp_open s) t" and ?k = "\<lambda>s. - os_createdAt s"
  have "sort_key ?k ?f = [] \<longleftrightarrow> ?f = []" by (metis length_0_conv length_sort)
  then have "open_otp w t = None \<longleftrightarrow> ?f = []" by (auto simp: open_otp_def split: list.split)
  then show ?thesis by (auto simp: filter_empty_conv)
qed

lemma open_otp_unique:
  assumes "unique_keys os_id t" and "s \<in> set t" "otp_matches w s" "otp_open s"
    and "\<And>r. r \<in> set t \<Longrightarrow> otp_matches w r \<Longrightarrow> otp_open r \<Longrightarrow> os_id r = os_id s"
  shows "open_otp w t = Some s"
proof (cases "open_otp w t")
  case None
  then show ?thesis using assms(2-4) by (simp add: open_otp_None)
next
  case (Some r)
  from open_otp_Some [OF this] assms(5) have "r \<in> set t" "os_id r = os_id s" by auto
  then show ?thesis using Some unique_keys_eq [OF assms(1) _ assms(2)] by simp
qed

lemma otp_decide_pass:
  "otp_decide vfy s otp now = V_Pass \<longleftrightarrow>
     otp_open s \<and> now < os_expiresAt s \<and> os_attempts s < os_maxAttempts s \<and> vfy (os_otpHash s) otp"
  by (auto simp: otp_decide_def otp_open_def)

lemma validate_None:
  "validateOtpSession vfy s otp now db = (None, db1) \<longleftrightarrow> otp_decide vfy s otp now = V_Pass \<and> db1 = db"
  by (auto simp: validateOtpSession_def split: otp_decision.split)

text \<open>What a successful sign-in read: for a number other than the review's, the newest open session
  of the number, with a code that verifies.\<close>

lemma verifyMobileOtp_Inr:
  assumes "verifyMobileOtp env vfy sha fr i now db = (Inr r, db')"
  obtains m otp s db1 where
    "normalizeMobile env (vi_mobileNumber i) = Inr m" "parse_otp (vi_otp i) = Inr otp"
    "verify_session env vfy m otp (fv_reviewHash fr) i now db = (Inr s, db1)"
    "verify_commit env sha fr m s i now db1 = (Inr r, db')"
  using assms by (auto simp: verifyMobileOtp_def split: sum.splits prod.splits)

lemma verify_session_Inr:
  assumes "verify_session env vfy m otp h i now db = (Inr s, db1)" and "\<not> isAppleReviewMobile env m"
  shows "db1 = db" "open_otp (by_mobile m) (og_otps db) = Some s" "otp_decide vfy s otp now = V_Pass"
  using assms validate_None [of vfy _ otp now db]
  by (auto simp: verify_session_def getActiveOtpSession_def split: option.splits prod.splits)

lemma verify_commit_Inr:
  assumes "verify_commit env sha fr m s i now db = (Inr r, db')"
  obtains c customers where
    "upsert_customer m (fv_customerCode fr) now (xd_customers (og_sess db)) = Inr (c, customers)"
    "open_customer_session sha (fv_opened fr)
       (new_customer_session (fv_sessionId fr) (cm_id c) (ov_sessionDays env) (vi_ipAddress i)
          (vi_userAgent i) (deviceLabel (vi_userAgent i)) (vi_requestId i) now)
       ((og_sess db)\<lparr>xd_customers := customers\<rparr>) = Inr (og_sess db')"
    "og_otps db' = close_others (by_mobile m) s now (consume_otp s (Some (cm_id c)) now (og_otps db))"
    "og_mappings db' = sign_in_referral i (cm_id c) (xd_customers (og_sess db)) (og_mappings db)"
    "r = (\<lparr>ct_access = customer_access (cm_id c) (fv_sessionId fr), ct_refresh = op_raw (fv_opened fr)\<rparr>, c)"
    "customer_of m db = None \<or> cm_accountStatus (the (customer_of m db)) \<noteq> CA_BLOCKED"
  using assms by (auto simp: verify_commit_def Let_def split: if_splits sum.splits prod.splits option.splits)

section \<open>At most one open session\<close>

definition one_open :: "otp_where \<Rightarrow> otp_session list \<Rightarrow> bool" where
  "one_open w t \<longleftrightarrow> (\<forall>r\<in>set t. \<forall>s\<in>set t. otp_matches w r \<longrightarrow> otp_open r \<longrightarrow> otp_matches w s \<longrightarrow> otp_open s \<longrightarrow> os_id r = os_id s)"

lemma one_openI:
  "(\<And>r s. r \<in> set t \<Longrightarrow> s \<in> set t \<Longrightarrow> otp_matches w r \<Longrightarrow> otp_open r \<Longrightarrow> otp_matches w s \<Longrightarrow> otp_open s \<Longrightarrow> os_id r = os_id s)
   \<Longrightarrow> one_open w t"
  unfolding one_open_def by blast

lemma one_openD:
  "one_open w t \<Longrightarrow> r \<in> set t \<Longrightarrow> s \<in> set t \<Longrightarrow> otp_matches w r \<Longrightarrow> otp_open r \<Longrightarrow> otp_matches w s \<Longrightarrow> otp_open s \<Longrightarrow> os_id r = os_id s"
  unfolding one_open_def by blast

text \<open>An update that opens nothing: a row it leaves open was open, with the same number or customer.\<close>

definition opens_nothing :: "(otp_session \<Rightarrow> bool) \<Rightarrow> (otp_session \<Rightarrow> otp_session) \<Rightarrow> otp_session list \<Rightarrow> bool" where
  "opens_nothing P f t \<longleftrightarrow> (\<forall>r\<in>set t. P r \<longrightarrow> os_id (f r) = os_id r
     \<and> (otp_open (f r) \<longrightarrow> otp_open r \<and> (\<forall>w. otp_matches w (f r) = otp_matches w r)))"

lemma one_open_update:
  assumes "one_open w t" and "opens_nothing P f t"
  shows "one_open w (update_many P f t)"
proof (rule one_openI)
  have orig: "\<exists>x\<in>set t. otp_matches w x \<and> otp_open x \<and> os_id x = os_id r"
    if "r \<in> set (update_many P f t)" "otp_matches w r" "otp_open r" for r
    using that(1)
  proof (rule update_many_obtain)
    fix x assume x: "x \<in> set t" "P x" "r = f x"
    with assms(2) that(2,3) show ?thesis unfolding opens_nothing_def by (intro bexI [of _ x]) auto
  qed (use that in blast)
  fix r s
  assume r: "r \<in> set (update_many P f t)" "otp_matches w r" "otp_open r"
    and s: "s \<in> set (update_many P f t)" "otp_matches w s" "otp_open s"
  from orig [OF r] orig [OF s] obtain x y where "x \<in> set t" "otp_matches w x" "otp_open x" "os_id x = os_id r"
    "y \<in> set t" "otp_matches w y" "otp_open y" "os_id y = os_id s" by blast
  with one_openD [OF assms(1), of x y] show "os_id r = os_id s" by simp
qed

lemma unique_ids_update:
  assumes "unique_keys os_id t" and "opens_nothing P f t"
  shows "unique_keys os_id (update_many P f t)"
proof -
  have "map os_id (update_many P f t) = map os_id t"
    using assms(2) by (simp add: update_many_def opens_nothing_def)
  with assms(1) show ?thesis by (simp only: unique_keys_def)
qed

text \<open>The number of the app review is left out: an expired session of it stays open when the next
  one is created.\<close>

definition otp_inv :: "otp_env \<Rightarrow> otp_session list \<Rightarrow> bool" where
  "otp_inv env t \<longleftrightarrow> unique_keys os_id t \<and> (\<forall>m. isAppleReviewMobile env m \<or> one_open (by_mobile m) t)
     \<and> (\<forall>c. one_open (by_customer c None) t)"

lemma otp_inv_update: "otp_inv env t \<Longrightarrow> opens_nothing P f t \<Longrightarrow> otp_inv env (update_many P f t)"
  unfolding otp_inv_def by (blast intro: one_open_update unique_ids_update)

lemma opens_nothing_close:
  "opens_nothing P (invalidate_otp now) t"
  by (simp add: opens_nothing_def invalidate_otp_def otp_open_def)

lemma consume_opens_nothing:
  "opens_nothing (\<lambda>r. os_id r = os_id s)
     (\<lambda>r. r\<lparr>os_customerId := (case c of Some c \<Rightarrow> Some c | None \<Rightarrow> os_customerId r), os_verified := True,
            os_verifiedAt := Some now, os_attempts := n\<rparr>) t"
  by (simp add: opens_nothing_def otp_open_def)

lemma wrong_guess_opens_nothing:
  assumes "unique_keys os_id t" and "s \<in> set t" and "otp_open s"
  shows "opens_nothing (\<lambda>r. os_id r = os_id s) (guessed s now) t"
  unfolding opens_nothing_def
proof (intro ballI impI)
  fix r assume "r \<in> set t" "os_id r = os_id s"
  then have "r = s" using assms by (simp add: unique_keys_eq)
  with assms(3) show "os_id (guessed s now r) = os_id r
    \<and> (otp_open (guessed s now r) \<longrightarrow> otp_open r \<and> (\<forall>w. otp_matches w (guessed s now r) = otp_matches w r))"
    by (auto simp: guessed_def Let_def otp_matches_def)
qed

lemma validate_inv:
  assumes "otp_inv env (og_otps db)" and "s \<in> set (og_otps db)" and "otp_open s"
  shows "otp_inv env (og_otps (snd (validateOtpSession vfy s otp now db)))"
proof -
  have u: "unique_keys os_id (og_otps db)" using assms(1) by (simp add: otp_inv_def)
  have "otp_inv env (og_otps (wrong_guess s now db))"
    using otp_inv_update [OF assms(1) wrong_guess_opens_nothing [OF u assms(2,3)]] by (simp add: wrong_guess_def)
  moreover have "otp_inv env (og_otps (invalidate_id i now db))" for i
    using otp_inv_update [OF assms(1) opens_nothing_close] by (simp add: invalidate_id_def)
  ultimately show ?thesis using assms(1) by (simp add: validateOtpSession_def split: otp_decision.split)
qed

text \<open>A new session once the sessions it would stand beside are closed.\<close>

lemma otp_inv_put:
  assumes "otp_inv env t" and "os_id s \<notin> os_id ` set t"
    and "\<And>m r. \<not> isAppleReviewMobile env m \<Longrightarrow> otp_matches (by_mobile m) s \<Longrightarrow> r \<in> set t \<Longrightarrow> otp_matches (by_mobile m) r \<Longrightarrow> \<not> otp_open r"
    and "\<And>c r. otp_matches (by_customer c None) s \<Longrightarrow> r \<in> set t \<Longrightarrow> otp_matches (by_customer c None) r \<Longrightarrow> \<not> otp_open r"
  shows "otp_inv env (t @ [s])"
proof -
  have "one_open w (t @ [s])"
    if "one_open w t" "otp_matches w s \<longrightarrow> (\<forall>r\<in>set t. otp_matches w r \<longrightarrow> \<not> otp_open r)" for w
  proof (rule one_openI)
    fix x y assume "x \<in> set (t @ [s])" "y \<in> set (t @ [s])" "otp_matches w x" "otp_open x" "otp_matches w y" "otp_open y"
    with that one_openD [OF that(1), of x y] show "os_id x = os_id y" by auto
  qed
  note new = this
  have "isAppleReviewMobile env m \<or> one_open (by_mobile m) (t @ [s])" for m
    using new [of "by_mobile m"] assms(1,3) by (auto simp: otp_inv_def)
  moreover have "one_open (by_customer c None) (t @ [s])" for c
    using new [of "by_customer c None"] assms(1,4) by (auto simp: otp_inv_def)
  ultimately show ?thesis using assms(1,2) by (simp add: otp_inv_def)
qed

lemma closed_after_invalidate:
  "r \<in> set (update_many (\<lambda>s. otp_matches w s \<and> otp_open s) (invalidate_otp now) t) \<Longrightarrow> otp_matches w r \<Longrightarrow> \<not> otp_open r"
  by (erule update_many_obtain) (auto simp: invalidate_otp_def otp_open_def otp_matches_def)

lemma new_otp_fields [simp]:
  "os_id (new_otp env i p ch c m e h x now) = i" "os_purpose (new_otp env i p ch c m e h x now) = p"
  "os_mobileNumber (new_otp env i p ch c m e h x now) = m" "os_customerId (new_otp env i p ch c m e h x now) = c"
  "os_emailId (new_otp env i p ch c m e h x now) = e"
  by (simp_all add: new_otp_def)

lemma next_otp_id: "next_id (map os_id t) \<notin> os_id ` set t"
  using next_id_not_in [of "map os_id t"] by simp

section \<open>Requests one after the other\<close>

datatype otp_op =
    Send_Mobile send_input string string sms_answer
  | Verify_Mobile fresh_values verify_input
  | Send_Email string string "string option" "string option" string string email_answer
  | Email_Late int
  | Verify_Email string string string

fun otp_serve :: "otp_env \<Rightarrow> (string \<Rightarrow> string \<Rightarrow> bool) \<Rightarrow> (string \<Rightarrow> string) \<Rightarrow> otp_op \<Rightarrow> time \<Rightarrow> otp_db \<Rightarrow> otp_db" where
  "otp_serve env vfy sha (Send_Mobile i otp h sms) now db = snd (sendMobileOtp env i otp h sms now db)"
| "otp_serve env vfy sha (Verify_Mobile fr i) now db = snd (verifyMobileOtp env vfy sha fr i now db)"
| "otp_serve env vfy sha (Send_Email c e ip ua otp h a) now db = snd (sendEmailOtp env c e ip ua otp h a now db)"
| "otp_serve env vfy sha (Email_Late i) now db = email_failed_late i now db"
| "otp_serve env vfy sha (Verify_Email c e otp) now db = snd (verifyEmailOtp vfy c e otp now db)"

fun otp_run :: "otp_env \<Rightarrow> (string \<Rightarrow> string \<Rightarrow> bool) \<Rightarrow> (string \<Rightarrow> string) \<Rightarrow> (otp_op \<times> time) list \<Rightarrow> otp_db \<Rightarrow> otp_db" where
  "otp_run env vfy sha [] db = db"
| "otp_run env vfy sha ((r, now) # rs) db = otp_run env vfy sha rs (otp_serve env vfy sha r now db)"

lemma invalidate_id_inv: "otp_inv env (og_otps db) \<Longrightarrow> otp_inv env (og_otps (invalidate_id i now db))"
  by (simp add: invalidate_id_def otp_inv_update opens_nothing_close)

lemma send_session_fields [simp]:
  "os_id (send_session env i m c h now db) = next_id (map os_id (og_otps db))"
  "os_purpose (send_session env i m c h now db) = MOBILE_VERIFICATION"
  "os_mobileNumber (send_session env i m c h now db) = Some m"
  "os_otpHash (send_session env i m c h now db) = h"
  "otp_open (send_session env i m c h now db)"
  by (simp_all add: send_session_def new_otp_def otp_open_def)

lemma matches_mobile: "otp_matches (by_mobile m) s \<longleftrightarrow> os_purpose s = MOBILE_VERIFICATION \<and> os_mobileNumber s = Some m"
  by (simp add: otp_matches_def by_mobile_def same_or_any_def)

lemma matches_customer:
  "otp_matches (by_customer c e) s \<longleftrightarrow> os_purpose s = EMAIL_VERIFICATION \<and> os_customerId s = Some c
     \<and> (case e of None \<Rightarrow> True | Some x \<Rightarrow> os_emailId s = Some x)"
  by (simp add: otp_matches_def by_customer_def same_or_any_def)

lemma put_otp_inv:
  assumes "otp_inv env (og_otps db)" and "os_id s = next_id (map os_id (og_otps db))"
    and "\<And>m r. \<not> isAppleReviewMobile env m \<Longrightarrow> otp_matches (by_mobile m) s \<Longrightarrow> r \<in> set (og_otps db) \<Longrightarrow> otp_matches (by_mobile m) r \<Longrightarrow> \<not> otp_open r"
    and "\<And>c r. otp_matches (by_customer c None) s \<Longrightarrow> r \<in> set (og_otps db) \<Longrightarrow> otp_matches (by_customer c None) r \<Longrightarrow> \<not> otp_open r"
  shows "otp_inv env (og_otps (put_otp s db))"
  unfolding put_otp_def using otp_inv_put [OF assms(1)] assms(2-4) by (simp add: next_otp_id)

lemma add_log_otps [simp]: "og_otps (add_log l db) = og_otps db"
  by (simp add: add_log_def)

lemma otp_inv_invalidated:
  "otp_inv env (og_otps db) \<Longrightarrow> otp_inv env (og_otps (invalidateActiveSessions w now db))"
  by (simp add: invalidateActiveSessions_def otp_inv_update opens_nothing_close)

lemma closed_invalidated:
  "r \<in> set (og_otps (invalidateActiveSessions w now db)) \<Longrightarrow> otp_matches w r \<Longrightarrow> \<not> otp_open r"
  using closed_after_invalidate by (simp add: invalidateActiveSessions_def)

lemma send_mobile_inv:
  assumes "otp_inv env (og_otps db)"
  shows "otp_inv env (og_otps (snd (sendMobileOtp env i otp h sms now db)))"
proof (cases "send_check env i now db")
  case (Inr x)
  obtain m c where x: "x = (m, c)" by fastforce
  let ?db = "invalidateActiveSessions (by_mobile m) now db"
  let ?s = "send_session env i m c h now ?db"
  have "otp_inv env (og_otps (put_otp ?s d))" if "og_otps d = og_otps ?db" for d
  proof (rule put_otp_inv)
    show "otp_inv env (og_otps d)" using that otp_inv_invalidated [OF assms] by simp
    show "\<not> otp_open r" if "otp_matches (by_mobile m') ?s" "r \<in> set (og_otps d)" "otp_matches (by_mobile m') r" for m' r
      using that closed_invalidated [of r "by_mobile m" now db] \<open>og_otps d = og_otps ?db\<close> by (simp add: matches_mobile)
  qed (simp_all add: that matches_customer)
  then show ?thesis using Inr x
    by (simp add: sendMobileOtp_def send_create_def Let_def invalidate_id_inv split: sms_answer.split)
qed (use assms in \<open>simp add: sendMobileOtp_def\<close>)

lemma review_session_inv:
  assumes "otp_inv env (og_otps db)" and "review_session env m h i now db = (s, db1)" and "isAppleReviewMobile env m"
  shows "otp_inv env (og_otps db1)"
proof (cases "open_otp (by_mobile m) (filter (\<lambda>s. now < os_expiresAt s) (og_otps db))")
  case None
  have db1: "db1 = put_otp s db" and s: "os_id s = next_id (map os_id (og_otps db))"
    "os_purpose s = MOBILE_VERIFICATION" "os_mobileNumber s = Some m"
    using assms(2) None by (auto simp: review_session_def Let_def new_otp_def)
  show ?thesis unfolding db1
    by (rule put_otp_inv [OF assms(1) s(1)]) (use assms(3) s in \<open>auto simp: matches_mobile matches_customer\<close>)
qed (use assms in \<open>auto simp: review_session_def\<close>)

lemma consumed_inv:
  "otp_inv env t \<Longrightarrow> otp_inv env (close_others w s now (consume_otp s c now t))"
  unfolding close_others_def consume_otp_def
  by (intro otp_inv_update opens_nothing_close consume_opens_nothing)

lemma verify_session_inv:
  assumes "otp_inv env (og_otps db)" and "verify_session env vfy m otp h i now db = (r, db1)"
  shows "otp_inv env (og_otps db1)"
proof (cases "isAppleReviewMobile env m")
  case True
  then show ?thesis using assms review_session_inv [OF assms(1) _ True]
    by (auto simp: verify_session_def split: if_splits prod.splits)
next
  case False
  have "otp_inv env (og_otps (snd (validateOtpSession vfy s otp now db)))"
    if "open_otp (by_mobile m) (og_otps db) = Some s" for s
    using validate_inv [OF assms(1)] open_otp_Some [OF that] by blast
  with assms False show ?thesis
    by (auto simp: verify_session_def getActiveOtpSession_def split: option.splits prod.splits)
qed

lemma verify_commit_otps:
  "og_otps (snd (verify_commit env sha fr m s i now db)) = og_otps db
   \<or> (\<exists>c. og_otps (snd (verify_commit env sha fr m s i now db)) = close_others (by_mobile m) s now (consume_otp s (Some c) now (og_otps db)))"
  by (auto simp: verify_commit_def Let_def split: if_splits sum.splits prod.splits)

lemma verify_mobile_inv:
  assumes "otp_inv env (og_otps db)"
  shows "otp_inv env (og_otps (snd (verifyMobileOtp env vfy sha fr i now db)))"
proof -
  have "otp_inv env (og_otps (snd (verify_commit env sha fr m s i now db1)))"
    if "otp_inv env (og_otps db1)" for m s db1
    using verify_commit_otps [of env sha fr m s i now db1] consumed_inv [OF that] that by auto
  with assms verify_session_inv [OF assms] show ?thesis
    by (auto simp: verifyMobileOtp_def split: sum.split prod.splits)
qed

lemma send_email_inv:
  assumes "otp_inv env (og_otps db)"
  shows "otp_inv env (og_otps (snd (sendEmailOtp env c e ip ua otp h a now db)))"
proof -
  have new: "otp_inv env (og_otps (put_otp s d))"
    if d: "og_otps d = og_otps (invalidateActiveSessions (by_customer i None) now db)"
      and s: "os_id s = next_id (map os_id (og_otps d))" "os_purpose s = EMAIL_VERIFICATION" "os_customerId s = Some i" for s d i
  proof (rule put_otp_inv [OF _ s(1)])
    show "otp_inv env (og_otps d)" unfolding d by (rule otp_inv_invalidated [OF assms])
    show "\<not> otp_open r" if "otp_matches (by_customer c' None) s" "r \<in> set (og_otps d)" "otp_matches (by_customer c' None) r" for c' r
      using that closed_invalidated [of r "by_customer i None" now db] d s(3) by (simp add: matches_customer)
  qed (simp add: matches_mobile s)
  show ?thesis using assms
    by (auto simp: sendEmailOtp_def Let_def new invalidate_id_inv split: sum.split option.split)
qed

lemma verify_email_inv:
  assumes "otp_inv env (og_otps db)"
  shows "otp_inv env (og_otps (snd (verifyEmailOtp vfy c e otp now db)))"
proof -
  have "otp_inv env (og_otps (snd (validateOtpSession vfy s o' now db)))" if "open_otp w (og_otps db) = Some s" for s o' w
    using validate_inv [OF assms] open_otp_Some [OF that] by blast
  then have val: "otp_inv env (og_otps d)"
    if "open_otp w (og_otps db) = Some s" "validateOtpSession vfy s o' now db = (r, d)" for s o' w r d
    using that by (metis snd_conv)
  show ?thesis using assms
    by (auto simp: verifyEmailOtp_def getActiveOtpSession_def email_commit_def consumed_inv validate_None
        intro: val split: sum.splits option.splits prod.splits)
qed

section \<open>Properties\<close>

text \<open>A number has at most one open code, and a customer at most one open code for an email
  address, whatever is sent, checked and guessed one after the other; only the number of the app
  review can have more.\<close>

theorem otp_sessions_serial:
  "otp_inv env (og_otps db) \<Longrightarrow> otp_inv env (og_otps (otp_run env vfy sha rs db))"
proof (induction rs arbitrary: db)
  case (Cons x rs)
  obtain r now where "x = (r, now)" by fastforce
  moreover have "otp_inv env (og_otps (otp_serve env vfy sha r now db))"
    using Cons.prems by (cases r) (simp_all add: send_mobile_inv verify_mobile_inv send_email_inv verify_email_inv
        email_failed_late_def invalidate_id_inv)
  ultimately show ?case using Cons.IH by simp
qed simp

lemma consumed_closed:
  assumes "r \<in> set (close_others w s now (consume_otp s c now t))" and "otp_matches w r"
  shows "\<not> otp_open r"
  using assms(1) unfolding close_others_def
proof (rule update_many_obtain)
  assume "r \<in> set (close_others w s now (consume_otp s c now t))"
next
  fix x assume x: "x \<in> set (consume_otp s c now t)" "\<not> (otp_matches w x \<and> os_id x \<noteq> os_id s \<and> otp_open x)" "r = x"
  show ?thesis
  proof (cases "os_id x = os_id s")
    case True
    from x(1) show ?thesis unfolding consume_otp_def x(3)
      by (rule update_many_obtain) (use True in \<open>auto simp: otp_open_def\<close>)
  qed (use x assms(2) in simp)
next
  fix x assume "r = invalidate_otp now x"
  then show ?thesis by (simp add: invalidate_otp_def otp_open_def)
qed

text \<open>A number without an open session stays so until a code is sent to it.\<close>

definition shut :: "string \<Rightarrow> otp_session list \<Rightarrow> bool" where
  "shut m t \<longleftrightarrow> unique_keys os_id t \<and> open_otp (by_mobile m) t = None"

definition sends_to :: "otp_env \<Rightarrow> string \<Rightarrow> otp_op \<times> time \<Rightarrow> bool" where
  "sends_to env m x = (case fst x of Send_Mobile i otp h sms \<Rightarrow> normalizeMobile env (si_mobileNumber i) = Inr m | _ \<Rightarrow> False)"

lemma shut_update:
  assumes "shut m t" and "opens_nothing P f t"
  shows "shut m (update_many P f t)"
  unfolding shut_def open_otp_None
proof (intro conjI ballI impI)
  show "unique_keys os_id (update_many P f t)" using assms unique_ids_update by (simp add: shut_def)
next
  fix r assume r: "r \<in> set (update_many P f t)" "otp_matches (by_mobile m) r"
  show "\<not> otp_open r" using r(1)
  proof (rule update_many_obtain)
    fix x assume "x \<in> set t" "P x" "r = f x"
    then show ?thesis using assms r(2) unfolding shut_def open_otp_None opens_nothing_def by blast
  next
    fix x assume "x \<in> set t" "r = x"
    then show ?thesis using assms(1) r(2) by (simp add: shut_def open_otp_None)
  qed
qed

lemma shut_put:
  assumes "shut m (og_otps db)" and "os_id s = next_id (map os_id (og_otps db))" and "\<not> otp_matches (by_mobile m) s"
  shows "shut m (og_otps (put_otp s db))"
  using assms next_otp_id [of "og_otps db"] by (simp add: shut_def open_otp_None put_otp_def)

lemma shut_invalidate: "shut m (og_otps db) \<Longrightarrow> shut m (og_otps (invalidate_id i now db))"
  by (simp add: invalidate_id_def shut_update opens_nothing_close)

lemma shut_validate:
  assumes "shut m (og_otps db)" and "open_otp w (og_otps db) = Some s" and "validateOtpSession vfy s otp now db = (r, db1)"
  shows "shut m (og_otps db1)"
proof -
  note o' = open_otp_Some [OF assms(2)]
  have "unique_keys os_id (og_otps db)" using assms(1) by (simp add: shut_def)
  then have "shut m (og_otps (wrong_guess s now db))"
    by (simp add: wrong_guess_def shut_update [OF assms(1) wrong_guess_opens_nothing [OF _ o'(1,3)]])
  then show ?thesis using assms(1,3) shut_invalidate [OF assms(1)]
    by (auto simp: validateOtpSession_def split: otp_decision.splits)
qed

lemma shut_consumed: "shut m t \<Longrightarrow> shut m (close_others w s now (consume_otp s c now t))"
  unfolding close_others_def consume_otp_def by (intro shut_update opens_nothing_close consume_opens_nothing)

lemma shut_commit: "shut m (og_otps db) \<Longrightarrow> shut m (og_otps (snd (verify_commit env sha fr m' s i now db)))"
  using verify_commit_otps [of env sha fr m' s i now db] shut_consumed by auto

lemma shut_session:
  assumes "shut m (og_otps db)" and "\<not> isAppleReviewMobile env m" and "verify_session env vfy m' otp h i now db = (r, db1)"
  shows "shut m (og_otps db1)"
proof (cases "isAppleReviewMobile env m'")
  case True
  have "shut m (og_otps d)" if "review_session env m' h i now db = (s, d)" for s d
  proof (cases "open_otp (by_mobile m') (filter (\<lambda>s. now < os_expiresAt s) (og_otps db))")
    case None
    then have d: "d = put_otp s db" "os_id s = next_id (map os_id (og_otps db))" "os_mobileNumber s = Some m'"
      using that by (auto simp: review_session_def Let_def new_otp_def)
    have "m' \<noteq> m" using True assms(2) by auto
    then show ?thesis unfolding d(1) by (intro shut_put [OF assms(1) d(2)]) (simp add: matches_mobile d(3))
  qed (use that assms(1) in \<open>auto simp: review_session_def\<close>)
  then show ?thesis using True assms(1,3) by (auto simp: verify_session_def split: if_splits prod.splits)
next
  case False
  then show ?thesis using assms(1,3) shut_validate [OF assms(1)]
    by (auto simp: verify_session_def getActiveOtpSession_def split: option.splits prod.splits)
qed

lemma shut_verify_mobile:
  assumes "shut m (og_otps db)" and "\<not> isAppleReviewMobile env m"
  shows "shut m (og_otps (snd (verifyMobileOtp env vfy sha fr i now db)))"
  using assms shut_session [OF assms] by (auto simp: verifyMobileOtp_def intro!: shut_commit split: sum.split prod.split)

lemma shut_send_mobile:
  assumes "shut m (og_otps db)" and "normalizeMobile env (si_mobileNumber i) \<noteq> Inr m"
  shows "shut m (og_otps (snd (sendMobileOtp env i otp h sms now db)))"
proof (cases "send_check env i now db")
  case (Inr x)
  obtain m' c where x: "x = (m', c)" by fastforce
  have m': "m' \<noteq> m" using Inr assms(2) by (auto simp: x send_check_def split: sum.splits if_splits option.splits)
  let ?db = "invalidateActiveSessions (by_mobile m') now db"
  have "shut m (og_otps ?db)" by (simp add: invalidateActiveSessions_def shut_update [OF assms(1) opens_nothing_close])
  then have "shut m (og_otps (put_otp (send_session env i m' c h now ?db) d))" if "og_otps d = og_otps ?db" for d
    using that m' by (intro shut_put) (simp_all add: matches_mobile)
  then show ?thesis using Inr x
    by (simp add: sendMobileOtp_def send_create_def Let_def shut_invalidate split: sms_answer.split)
qed (use assms in \<open>simp add: sendMobileOtp_def\<close>)

lemma shut_send_email:
  assumes "shut m (og_otps db)"
  shows "shut m (og_otps (snd (sendEmailOtp env c e ip ua otp h a now db)))"
proof -
  have "shut m (og_otps (put_otp s d))"
    if "og_otps d = og_otps (invalidateActiveSessions w now db)" "os_id s = next_id (map os_id (og_otps d))"
      "os_purpose s = EMAIL_VERIFICATION" for s d w
    using that shut_update [OF assms opens_nothing_close] by (intro shut_put) (simp_all add: invalidateActiveSessions_def matches_mobile)
  then show ?thesis using assms
    by (auto simp: sendEmailOtp_def Let_def shut_invalidate split: sum.split option.split)
qed

lemma shut_verify_email:
  assumes "shut m (og_otps db)"
  shows "shut m (og_otps (snd (verifyEmailOtp vfy c e otp now db)))"
  using assms by (auto simp: verifyEmailOtp_def getActiveOtpSession_def email_commit_def shut_consumed validate_None
      intro: shut_validate [OF assms] split: sum.splits option.splits prod.splits)

lemma shut_run:
  assumes "shut m (og_otps db)" and "\<not> isAppleReviewMobile env m" and "\<not> list_ex (sends_to env m) rs"
  shows "shut m (og_otps (otp_run env vfy sha rs db))"
  using assms(1,3)
proof (induction rs arbitrary: db)
  case (Cons x rs)
  obtain r now where x: "x = (r, now)" by fastforce
  have "shut m (og_otps (otp_serve env vfy sha r now db))"
    using Cons.prems assms(2) by (cases r) (simp_all add: x sends_to_def shut_send_mobile shut_verify_mobile
        shut_send_email shut_verify_email email_failed_late_def shut_invalidate)
  with Cons show ?case by (simp add: x)
qed simp

lemma shut_refuses:
  assumes "shut m (og_otps db)" and "\<not> isAppleReviewMobile env m" and "normalizeMobile env (vi_mobileNumber j) = Inr m"
  shows "\<exists>e. fst (verifyMobileOtp env vfy sha fr j later db) = Inl e"
  using assms by (auto simp: shut_def verifyMobileOtp_def verify_session_def getActiveOtpSession_def split: sum.split)

text \<open>C31. Signing in takes a code that was sent to the number, for requests served one after another:
  unless the number is that of the app review, a sign-in that succeeds found an open session of the
  number that has not expired, whose attempts are not used up, and whose hash verifies against the
  code entered; afterwards no session of the number is open, and after any further requests, of any
  customers, that send no code to the number, a sign-in of the number is refused whatever code it
  enters. Two sign-ins that check one code at the same moment are outside this statement: both may
  succeed (\<open>commit_ignores_sessions\<close>).\<close>

theorem sign_in_needs_code:
  assumes "verifyMobileOtp env vfy sha fr i now db = (Inr r, db')"
    and "normalizeMobile env (vi_mobileNumber i) = Inr m" and "\<not> isAppleReviewMobile env m"
    and "unique_keys os_id (og_otps db)"
    and "\<not> list_ex (sends_to env m) rs" and "normalizeMobile env (vi_mobileNumber j) = Inr m"
  shows "(\<exists>s otp. s \<in> set (og_otps db) \<and> otp_matches (by_mobile m) s \<and> otp_open s \<and> now < os_expiresAt s
      \<and> os_attempts s < os_maxAttempts s \<and> parse_otp (vi_otp i) = Inr otp \<and> vfy (os_otpHash s) otp)
    \<and> open_otp (by_mobile m) (og_otps db') = None
    \<and> (\<exists>e. fst (verifyMobileOtp env vfy sha fr' j later (otp_run env vfy sha rs db')) = Inl e)"
proof -
  obtain otp s db1 where v: "parse_otp (vi_otp i) = Inr otp"
    "verify_session env vfy m otp (fv_reviewHash fr) i now db = (Inr s, db1)"
    "verify_commit env sha fr m s i now db1 = (Inr r, db')"
    using verifyMobileOtp_Inr [OF assms(1)] assms(2) by (metis sum.inject(2))
  note s = verify_session_Inr [OF v(2) assms(3)]
  have 1: "s \<in> set (og_otps db)" "otp_matches (by_mobile m) s" using open_otp_Some [OF s(2)] by simp_all
  obtain c where t: "og_otps db' = close_others (by_mobile m) s now (consume_otp s (Some c) now (og_otps db))"
    by (rule verify_commit_Inr [OF v(3)]) (use s(1) in blast)
  then have none: "open_otp (by_mobile m) (og_otps db') = None" by (simp add: open_otp_None consumed_closed)
  moreover have "unique_keys os_id (og_otps db')"
    unfolding t close_others_def consume_otp_def
    by (intro unique_ids_update opens_nothing_close consume_opens_nothing assms(4))
  ultimately have "shut m (og_otps db')" by (simp add: shut_def)
  from shut_refuses [OF shut_run [OF this assms(3,5)] assms(3,6)] 1 none s(3) v(1) show ?thesis
    by (auto simp: otp_decide_pass)
qed

text \<open>Guessing: requests to verify, one after the other.\<close>

fun guess_run :: "otp_env \<Rightarrow> (string \<Rightarrow> string \<Rightarrow> bool) \<Rightarrow> (string \<Rightarrow> string) \<Rightarrow> fresh_values \<Rightarrow> (verify_input \<times> time) list \<Rightarrow>
  otp_db \<Rightarrow> otp_db" where
  "guess_run env vfy sha fr [] db = db"
| "guess_run env vfy sha fr ((i, now) # gs) db = guess_run env vfy sha fr gs (snd (verifyMobileOtp env vfy sha fr i now db))"

definition wrong_for :: "otp_env \<Rightarrow> (string \<Rightarrow> string \<Rightarrow> bool) \<Rightarrow> string \<Rightarrow> string \<Rightarrow> verify_input \<Rightarrow> bool" where
  "wrong_for env vfy m hash i \<longleftrightarrow> normalizeMobile env (vi_mobileNumber i) = Inr m
     \<and> (case parse_otp (vi_otp i) of Inl e \<Rightarrow> False | Inr otp \<Rightarrow> \<not> vfy hash otp)"

lemma guess_none:
  assumes "open_otp (by_mobile m) (og_otps db) = None" and "\<not> isAppleReviewMobile env m"
    and "normalizeMobile env (vi_mobileNumber i) = Inr m"
  shows "snd (verifyMobileOtp env vfy sha fr i now db) = db"
  using assms by (auto simp: verifyMobileOtp_def verify_session_def getActiveOtpSession_def split: sum.split)

text \<open>One wrong guess: the session is closed, or it has one attempt less.\<close>

lemma guess_step:
  assumes inv: "otp_inv env (og_otps db)" and rev: "\<not> isAppleReviewMobile env m"
    and s: "open_otp (by_mobile m) (og_otps db) = Some s" and i: "wrong_for env vfy m (os_otpHash s) i"
    and db': "db' = snd (verifyMobileOtp env vfy sha fr i now db)"
  shows "open_otp (by_mobile m) (og_otps db') = None
    \<or> (\<exists>s'. open_otp (by_mobile m) (og_otps db') = Some s' \<and> os_otpHash s' = os_otpHash s
         \<and> os_maxAttempts s' = os_maxAttempts s \<and> os_attempts s' = os_attempts s + 1 \<and> os_attempts s' < os_maxAttempts s')"
proof -
  note o' = open_otp_Some [OF s]
  have one: "one_open (by_mobile m) (og_otps db)" and u: "unique_keys os_id (og_otps db)"
    using inv rev by (auto simp: otp_inv_def)
  obtain otp where otp: "normalizeMobile env (vi_mobileNumber i) = Inr m" "parse_otp (vi_otp i) = Inr otp" "\<not> vfy (os_otpHash s) otp"
    using i by (auto simp: wrong_for_def split: sum.splits)
  have d: "db' = snd (validateOtpSession vfy s otp now db)"
    unfolding db' using otp s rev validate_None [of vfy s otp now db]
    by (auto simp: verifyMobileOtp_def verify_session_def getActiveOtpSession_def otp_decide_pass split: prod.splits option.splits)
  have only: "r = s" if "r \<in> set (og_otps db)" "otp_matches (by_mobile m) r" "otp_open r" for r
    using one_openD [OF one that(1) o'(1) that(2,3) o'(2,3)] unique_keys_eq [OF u that(1) o'(1)] by blast
  have closed: "open_otp (by_mobile m) (og_otps (db\<lparr>og_otps := update_many (\<lambda>r. os_id r = os_id s) f (og_otps db)\<rparr>)) = None"
    if f: "\<And>r. \<not> otp_open (f r)" for f
    using only f by (auto simp: open_otp_None set_update_many)
  consider "otp_decide vfy s otp now = V_Expired" | "otp_decide vfy s otp now = V_Exceeded"
    | "otp_decide vfy s otp now = V_Wrong" "os_maxAttempts s \<le> os_attempts s + 1"
    | "otp_decide vfy s otp now = V_Wrong" "os_attempts s + 1 < os_maxAttempts s"
    using o'(3) otp(3) by (cases "otp_decide vfy s otp now"; cases "os_maxAttempts s \<le> os_attempts s + 1")
      (auto simp: otp_decide_def otp_open_def split: if_splits)
  then show ?thesis
  proof cases
    case 4
    let ?f = "guessed s now"
    have "open_otp (by_mobile m) (og_otps db') = Some (?f s)"
    proof (rule open_otp_unique)
      have t: "og_otps db' = update_many (\<lambda>r. os_id r = os_id s) ?f (og_otps db)"
        using 4 by (simp add: d validateOtpSession_def wrong_guess_def)
      show "unique_keys os_id (og_otps db')" unfolding t by (rule unique_ids_update [OF u wrong_guess_opens_nothing [OF u o'(1,3)]])
      show "?f s \<in> set (og_otps db')" using o'(1) by (auto simp: t set_update_many)
      show "otp_matches (by_mobile m) (?f s)" using o'(2) by (simp add: guessed_def Let_def matches_mobile)
      show "otp_open (?f s)" using o'(3) 4 by (simp add: guessed_def Let_def otp_open_def)
      show "os_id r = os_id (?f s)" if "r \<in> set (og_otps db')" "otp_matches (by_mobile m) r" "otp_open r" for r
        using that(1) unfolding t
      proof (rule update_many_obtain)
        fix x assume "x \<in> set (og_otps db)" "os_id x \<noteq> os_id s" "r = x"
        with only [of r] that(2,3) show ?thesis by blast
      next
        fix x assume "os_id x = os_id s" "r = guessed s now x"
        then show ?thesis by (simp add: guessed_def Let_def)
      qed
    qed
    then show ?thesis using 4 by (simp add: guessed_def Let_def)
  qed (use closed in \<open>auto simp: d validateOtpSession_def invalidate_id_def wrong_guess_def invalidate_otp_def guessed_def otp_open_def\<close>)
qed


text \<open>Guesses sent at the same moment count as one: handlers that read the session before any of
  them has written leave it with one attempt more, however many they are, and if that is below the
  limit it is open.\<close>

theorem parallel_guesses_count_once:
  assumes "gs \<noteq> []" and "list_all (\<lambda>(otp, now). otp_decide vfy s otp now = V_Wrong) gs"
    and "r \<in> set (og_otps (foldl (\<lambda>d (otp, now). snd (validateOtpSession vfy s otp now d)) db gs))" and "os_id r = os_id s"
  shows "os_attempts r = os_attempts s + 1 \<and> (os_attempts s + 1 < os_maxAttempts s \<longrightarrow> os_invalidatedAt r = None)"
proof -
  obtain hs g where gs: "gs = hs @ [g]" using assms(1) by (cases gs rule: rev_cases) auto
  obtain otp now where g: "g = (otp, now)" by fastforce
  let ?d = "foldl (\<lambda>d (otp, now). snd (validateOtpSession vfy s otp now d)) db hs"
  have "r \<in> set (update_many (\<lambda>r. os_id r = os_id s) (guessed s now) (og_otps ?d))"
    using assms(2,3) by (simp add: gs g validateOtpSession_def wrong_guess_def)
  then show ?thesis
    by (rule update_many_obtain) (use assms(4) in \<open>auto simp: guessed_def Let_def\<close>)
qed

text \<open>C33. A late wrong guess opens a closed session again: a handler that read the session while it was
  open, with at least two attempts left, writes that it is not invalidated, so a session that was
  closed in between, by other wrong guesses or by the next send, is open again, with its old hash
  and with one attempt more than the handler had read, however many were counted meanwhile; until it
  expires the check of that session passes its old code. A sign-in checks the newest open session of
  the number, so it meets this one as long as no newer one is open.\<close>

theorem late_guess_reopens:
  assumes "r \<in> set (og_otps db)" and "os_id r = os_id s" and "os_maxAttempts r = os_maxAttempts s" and "\<not> os_verified r"
    and "otp_decide vfy s otp now = V_Wrong" and "os_attempts s + 1 < os_maxAttempts s"
  shows "\<exists>r'\<in>set (og_otps (snd (validateOtpSession vfy s otp now db))). os_id r' = os_id s \<and> otp_open r'
    \<and> os_otpHash r' = os_otpHash r \<and> os_attempts r' = os_attempts s + 1
    \<and> (\<forall>code later. later < os_expiresAt r \<longrightarrow> vfy (os_otpHash r) code \<longrightarrow> otp_decide vfy r' code later = V_Pass)"
  using assms(5,6)
  by (simp add: validateOtpSession_def wrong_guess_def)
    (rule update_many_ex [OF assms(1)], use assms in \<open>simp add: guessed_def Let_def otp_open_def otp_decide_def\<close>)

text \<open>A sign-in does not look at its session again: the transaction gives the same answer whatever
  has become of the OTP sessions since the code was checked, so two requests with one code that are
  checked at the same moment both sign in.\<close>

theorem commit_ignores_sessions:
  "fst (verify_commit env sha fr m s i now (db\<lparr>og_otps := t\<rparr>)) = fst (verify_commit env sha fr m s i now db)"
  by (simp add: verify_commit_def customer_of_def Let_def split: sum.split)

lemma open_customer_session_Inr:
  "open_customer_session sha o' s db = Inr db' \<Longrightarrow> xs_id s \<notin> xs_id ` set (xd_sessions db)
     \<and> xd_sessions db' = xd_sessions db @ [s] \<and> xd_customers db' = xd_customers db"
  by (auto simp: open_customer_session_def split: if_splits)

lemma upsert_customer_mobile: "upsert_customer m code now t = Inr (c, cs) \<Longrightarrow> cm_mobile c = m \<and> c \<in> set cs"
  by (auto simp: upsert_customer_def Let_def new_customer_def signed_in_def set_update_many
      dest!: find_unique_Some_D split: option.splits if_splits)

text \<open>The decision of the review's sign-in: the code is compared with the setting, no code is sent.\<close>

lemma review_session_checked:
  assumes "isAppleReviewMobile env m" and "getAppleReviewOtp env = otp"
  shows "\<exists>s db1. verify_session env vfy m otp h i now db = (Inr s, db1) \<and> og_sess db1 = og_sess db"
proof -
  obtain s db1 where r: "review_session env m h i now db = (s, db1)" by fastforce
  then have "og_sess db1 = og_sess db"
    by (auto simp: review_session_def Let_def put_otp_def split: option.splits)
  with r assms show ?thesis by (simp add: verify_session_def)
qed


text \<open>The referral of a new customer is never recorded at sign-in: it is written on a connection
  that does not see the customer the transaction is about to create.\<close>

theorem new_customer_referral_lost:
  assumes "verifyMobileOtp env vfy sha fr i now db = (Inr r, db')"
    and "normalizeMobile env (vi_mobileNumber i) = Inr m" and "customer_of m db = None"
  shows "og_mappings db' = og_mappings db"
proof -
  obtain otp s db1 where v: "verify_session env vfy m otp (fv_reviewHash fr) i now db = (Inr s, db1)"
    "verify_commit env sha fr m s i now db1 = (Inr r, db')"
    using verifyMobileOtp_Inr [OF assms(1)] assms(2) by (metis sum.inject(2))
  have same: "og_sess db1 = og_sess db" "og_mappings db1 = og_mappings db"
    using v(1) validate_None [of vfy _ otp now db]
    by (auto simp: verify_session_def getActiveOtpSession_def review_session_def Let_def put_otp_def
        split: if_splits option.splits prod.splits)
  show ?thesis
  proof (rule verify_commit_Inr [OF v(2)])
    fix c customers
    assume up: "upsert_customer m (fv_customerCode fr) now (xd_customers (og_sess db1)) = Inr (c, customers)"
      and mp: "og_mappings db' = sign_in_referral i (cm_id c) (xd_customers (og_sess db1)) (og_mappings db1)"
    have "cm_id c \<notin> cm_id ` set (xd_customers (og_sess db))"
      using up assms(3) next_id_not_in [of "map cm_id (xd_customers (og_sess db))"]
      by (auto simp: upsert_customer_def customer_of_def same new_customer_def Let_def split: option.splits if_splits)
    then have "snd (recordReferralRegistration (cm_id c) code n (xd_customers (og_sess db)) t) = t" for code n t
      using recordReferralRegistration_cases [of "cm_id c" code n "xd_customers (og_sess db)" t] by auto
    then show ?thesis by (simp add: mp same sign_in_referral_def split: option.split)
  qed
qed

lemma verifyEmailOtp_Inr:
  assumes "verifyEmailOtp vfy c e otp now db = (Inr r, db')"
  shows "\<exists>s. db' = email_commit (fst r) (snd r) s now db"
proof -
  obtain i where i: "parseCustomerId c = Inr i" using assms by (cases "parseCustomerId c") (simp_all add: verifyEmailOtp_def)
  obtain m where m: "normalizeCustomerEmail e = Inr m"
    using assms by (cases "normalizeCustomerEmail e") (simp_all add: verifyEmailOtp_def i)
  obtain o' where o': "parse_otp otp = Inr o'" using assms by (cases "parse_otp otp") (simp_all add: verifyEmailOtp_def i m)
  obtain x where x: "find_unique cm_id i (xd_customers (og_sess db)) = Some x" "cm_accountStatus x \<noteq> CA_BLOCKED"
    using assms by (cases "find_unique cm_id i (xd_customers (og_sess db))")
      (auto simp: verifyEmailOtp_def i m o' split: if_splits)
  obtain s where s: "getActiveOtpSession (by_customer i (Some m)) db = Inr s"
    using assms by (cases "getActiveOtpSession (by_customer i (Some m)) db") (simp_all add: verifyEmailOtp_def i m o' x)
  have "fst (validateOtpSession vfy s o' now db) = None"
    using assms by (cases "fst (validateOtpSession vfy s o' now db)")
      (auto simp: verifyEmailOtp_def i m o' x s split: prod.splits)
  then have "validateOtpSession vfy s o' now db = (None, db)" by (metis prod.collapse validate_None)
  then show ?thesis using assms by (auto simp: verifyEmailOtp_def i m o' x s)
qed

text \<open>Verifying an email address sets the onboarding status of the customer back to the
  verification of the email, however far the customer has come.\<close>

theorem email_verification_resets_status:
  assumes "verifyEmailOtp vfy c e otp now db = (Inr (i, email), db')" and "x \<in> set (xd_customers (og_sess db'))" and "cm_id x = i"
  shows "cm_onboarding x = ON_EMAIL_VERIFIED \<and> cm_email x = Some email"
proof -
  obtain s where "db' = email_commit i email s now db" using verifyEmailOtp_Inr [OF assms(1)] by auto
  then have "x \<in> set (update_many (\<lambda>c. cm_id c = i) (email_verified email now) (xd_customers (og_sess db)))"
    using assms(2) by (simp add: email_commit_def)
  then show ?thesis by (rule update_many_obtain) (use assms(3) in \<open>simp_all add: email_verified_def\<close>)
qed

text \<open>The codes sent to mobile numbers are written to the log in clear.\<close>

theorem codes_are_logged:
  assumes "sendMobileOtp env j otp hash sms now db = (r, db')" and "send_check env j now db = Inr (m, c)"
    and "\<not> isAppleReviewMobile env m"
  shows "mobile_log m otp \<in> set (og_log db')"
  using assms by (auto simp: sendMobileOtp_def send_create_def Let_def put_otp_def add_log_def invalidate_id_def
      split: sms_answer.splits)

lemma sort_key_head_least:
  assumes "sort_key f xs = y # ys" and "x \<in> set xs"
  shows "f y \<le> f x"
proof -
  have "x \<in> set (y # ys)" using assms by (metis set_sort)
  moreover have "sorted (map f (y # ys))" using sorted_sort_key [of f xs] by (simp add: assms(1))
  ultimately show ?thesis by auto
qed

text \<open>Codes are not sent to a number faster than the cooldown: where a send passes its checks, every
  earlier send to the number is at least the cooldown ago; the number of the review has no cooldown.\<close>

theorem sends_are_spaced:
  assumes "send_check env j now db = Inr (m, c)" and "\<not> isAppleReviewMobile env m"
    and "s \<in> set (og_otps db)" and "otp_matches (by_mobile m) s"
  shows "ov_cooldownSeconds env \<le> of_int ((now - os_lastSentAt s) div 1000)"
proof -
  have cool: "enforceResendCooldown env (by_mobile m) now db = None"
    using assms(1,2) by (auto simp: send_check_def split: sum.splits if_splits option.splits)
  let ?xs = "filter (otp_matches (by_mobile m)) (og_otps db)"
  have "s \<in> set ?xs" using assms(3,4) by simp
  moreover from this obtain y ys where y: "sort_key (\<lambda>s. - os_lastSentAt s) ?xs = y # ys"
    by (cases "sort_key (\<lambda>s. - os_lastSentAt s) ?xs") (metis length_0_conv length_sort empty_iff list.set(1))
  ultimately have "os_lastSentAt s \<le> os_lastSentAt y" using sort_key_head_least [OF y] by simp
  then have "(now - os_lastSentAt y) div 1000 \<le> (now - os_lastSentAt s) div 1000" by (intro zdiv_mono1) simp_all
  moreover have "ov_cooldownSeconds env \<le> of_int ((now - os_lastSentAt y) div 1000)"
    using cool y by (simp add: enforceResendCooldown_def split: if_splits)
  ultimately show ?thesis by (meson of_int_le_iff order_trans)
qed

text \<open>Two sends at the same moment.\<close>

text \<open>Two sends to a number at the same moment leave two open codes: both pass the checks, both
  close what is open, then both create a session.\<close>

theorem two_sends_two_codes:
  assumes "\<not> isAppleReviewMobile env m"
    and "send_create env i m c otp h (Sms_Sent b) now (invalidateActiveSessions (by_mobile m) now
       (invalidateActiveSessions (by_mobile m) now db)) = (r, db1)"
    and "send_create env i' m c otp' h' (Sms_Sent b') now db1 = (r', db2)"
  shows "length (filter (\<lambda>s. otp_matches (by_mobile m) s \<and> otp_open s) (og_otps db2)) = 2"
proof -
  let ?d = "invalidateActiveSessions (by_mobile m) now (invalidateActiveSessions (by_mobile m) now db)"
  let ?P = "\<lambda>s. otp_matches (by_mobile m) s \<and> otp_open s"
  have "filter ?P (og_otps ?d) = []"
    using closed_invalidated [of _ "by_mobile m" now "invalidateActiveSessions (by_mobile m) now db"] by (auto simp: filter_empty_conv)
  moreover have "og_otps db1 = og_otps ?d @ [send_session env i m c h now ?d]"
    "og_otps db2 = og_otps db1 @ [send_session env i' m c h' now db1]"
    using assms by (auto simp: send_create_def Let_def put_otp_def)
  ultimately show ?thesis by (simp add: matches_mobile)
qed

lemma find_snoc:
  "List.find P (xs @ [x]) = (case List.find P xs of Some y \<Rightarrow> Some y | None \<Rightarrow> if P x then Some x else None)"
  by (induction xs) auto

text \<open>A sign-in opens a session of its length: the access token of the answer is accepted exactly
  until the session's days are over, as long as nobody revokes it, and only for a customer whose
  account is active.\<close>

theorem sign_in_opens_session:
  assumes "verifyMobileOtp env vfy sha fr i now db = (Inr (toks, c), db')"
    and "fv_sessionId fr \<noteq> []" and "unique_keys cm_id (xd_customers (og_sess db))"
    and "unique_keys xs_id (xd_sessions (og_sess db))"
  shows "(\<exists>p. customer_jwt_validate (ct_access toks) later (og_sess db') = Inr p)
    \<longleftrightarrow> later < now + ov_sessionDays env * DAY_MS \<and> cm_accountStatus c = CA_ACTIVE"
proof -
  obtain m otp s db1 where v: "verify_session env vfy m otp (fv_reviewHash fr) i now db = (Inr s, db1)"
    "verify_commit env sha fr m s i now db1 = (Inr (toks, c), db')"
    using verifyMobileOtp_Inr [OF assms(1)] by metis
  have same: "og_sess db1 = og_sess db"
    using v(1) validate_None [of vfy _ otp now db]
    by (auto simp: verify_session_def getActiveOtpSession_def review_session_def Let_def put_otp_def
        split: if_splits option.splits prod.splits)
  let ?x = "new_customer_session (fv_sessionId fr) (cm_id c) (ov_sessionDays env) (vi_ipAddress i)
          (vi_userAgent i) (deviceLabel (vi_userAgent i)) (vi_requestId i) now"
  obtain customers where up: "upsert_customer m (fv_customerCode fr) now (xd_customers (og_sess db)) = Inr (c, customers)"
    and op: "open_customer_session sha (fv_opened fr) ?x ((og_sess db)\<lparr>xd_customers := customers\<rparr>) = Inr (og_sess db')"
    and toks: "ct_access toks = customer_access (cm_id c) (fv_sessionId fr)"
    by (rule verify_commit_Inr [OF v(2)]) (auto simp: same)
  have new: "fv_sessionId fr \<notin> xs_id ` set (xd_sessions (og_sess db))"
    and d: "xd_sessions (og_sess db') = xd_sessions (og_sess db) @ [?x]" "xd_customers (og_sess db') = customers"
    using open_customer_session_Inr [OF op] by simp_all
  have cust: "find_unique cm_id (cm_id c) customers = Some c"
  proof (cases "find_unique cm_mobile m (xd_customers (og_sess db))")
    case None
    then have cs: "customers = xd_customers (og_sess db) @ [c]" and "cm_id c = next_id (map cm_id (xd_customers (og_sess db)))"
      using up by (auto simp: upsert_customer_def Let_def new_customer_def split: if_splits)
    then have "unique_keys cm_id customers"
      using assms(3) next_id_not_in [of "map cm_id (xd_customers (og_sess db))"] by simp
    then show ?thesis by (rule find_unique_in_set) (simp add: cs)
  next
    case (Some o')
    then have cs: "customers = update_many (\<lambda>r. cm_mobile r = m) (signed_in now) (xd_customers (og_sess db))" "c = signed_in now o'"
      using up by (auto simp: upsert_customer_def)
    have "unique_keys cm_id customers" unfolding cs(1) by (rule unique_keys_update_many [OF _ assms(3)]) (simp add: signed_in_def)
    moreover have "c \<in> set customers" using find_unique_Some_D [OF Some] by (auto simp: cs set_update_many)
    ultimately show ?thesis by (rule find_unique_in_set)
  qed
  let ?P = "\<lambda>s. xs_id s = fv_sessionId fr \<and> xs_customerId s = cm_id c \<and> xs_revokedAt s = None
               \<and> later < xs_absoluteExpiresAt s \<and> later < xs_idleExpiresAt s"
  have "List.find ?P (xd_sessions (og_sess db)) = None" using new by (force simp: find_None_iff)
  then have f: "List.find ?P (xd_sessions (og_sess db')) = (if later < now + ov_sessionDays env * DAY_MS then Some ?x else None)"
    by (simp add: d find_snoc new_customer_session_def)
  show ?thesis
    using assms(2) cust by (simp add: customer_jwt_validate_def toks customer_access_def f d(2)) (simp add: new_customer_session_def)
qed

section \<open>Witnesses\<close>

definition demo_env :: otp_env where
  "demo_env = \<lparr>ov_expiryMinutes = 5, ov_maxAttempts = 5, ov_cooldownSeconds = 60, ov_reviewMobile = None,
     ov_reviewOtp = None, ov_expose = False, ov_sessionDays = 30\<rparr>"

text \<open>A hash that is the code itself after one letter.\<close>

definition demo_vfy :: "string \<Rightarrow> string \<Rightarrow> bool" where
  "demo_vfy h o' \<longleftrightarrow> h = CHR ''h'' # o'"

definition demo_signin_db :: "customer list \<Rightarrow> otp_db" where
  "demo_signin_db cs = \<lparr>og_sess = \<lparr>xd_customers = cs, xd_sessions = [], xd_tokens = []\<rparr>, og_otps = [], og_logins = [],
     og_attributions = [], og_mappings = [], og_kycEmail = [], og_log = []\<rparr>"

definition demo_send :: send_input where
  "demo_send = \<lparr>si_mobileNumber = ''9876543210'', si_consentGiven = True, si_consentText = Some ''I agree'',
     si_ipAddress = None, si_userAgent = None\<rparr>"

definition demo_input :: "string \<Rightarrow> verify_input" where
  "demo_input otp = \<lparr>vi_mobileNumber = ''9876543210'', vi_otp = otp, vi_ipAddress = None, vi_userAgent = None,
     vi_requestId = ''r1'', vi_attribution = None, vi_ref = None\<rparr>"

definition demo_fresh_values :: fresh_values where
  "demo_fresh_values = \<lparr>fv_customerCode = ''CUS-N'', fv_sessionId = ''s1'',
     fv_opened = \<lparr>op_tokenId = ''t1'', op_raw = ''raw1''\<rparr>, fv_reviewHash = ''h123456''\<rparr>"

definition demo_base :: otp_db where
  "demo_base = demo_signin_db [demo_customer 1 ''CUS-A'' ''9000000001'']"

text \<open>The session of the code 654321, and the state after it was sent.\<close>

definition demo_otp :: otp_session where
  "demo_otp = \<lparr>os_id = 1, os_customerId = None, os_mobileNumber = Some ''9876543210'', os_emailId = None,
     os_purpose = MOBILE_VERIFICATION, os_channel = CH_SMS, os_otpHash = ''h654321'', os_verified = False,
     os_verifiedAt = None, os_attempts = 0, os_maxAttempts = 5, os_expiresAt = 301000, os_lastSentAt = 1000,
     os_consentGiven = True, os_consentText = Some ''I agree'', os_consentAt = Some 1000, os_invalidatedAt = None,
     os_ipAddress = None, os_userAgent = None, os_createdAt = 1000\<rparr>"

definition demo_sent :: otp_db where
  "demo_sent = demo_base\<lparr>og_otps := [demo_otp], og_log := [mobile_log ''9876543210'' ''654321'']\<rparr>"

lemma demo_sends:
  "sendMobileOtp demo_env demo_send ''654321'' ''h654321'' (Sms_Sent False) 1000 demo_base
   = (Inr \<lparr>sn_sessionId = 1, sn_expiresAt = 301000, sn_simulated = False, sn_developmentOtp = None\<rparr>, demo_sent)"
  by code_simp

definition demo_signed :: otp_db where
  "demo_signed = snd (verifyMobileOtp demo_env demo_vfy demo_sha demo_fresh_values (demo_input ''654321'') 2000 demo_sent)"

definition demo_result :: "customer_tokens \<times> customer" where
  "demo_result = (case fst (verifyMobileOtp demo_env demo_vfy demo_sha demo_fresh_values (demo_input ''654321'') 2000 demo_sent) of
     Inr r \<Rightarrow> r | Inl e \<Rightarrow> (\<lparr>ct_access = customer_access 0 [], ct_refresh = []\<rparr>, demo_customer 0 [] []))"

lemma demo_signs_in:
  "verifyMobileOtp demo_env demo_vfy demo_sha demo_fresh_values (demo_input ''654321'') 2000 demo_sent = (Inr demo_result, demo_signed)"
  (is "?v = _")
proof -
  have "\<not> isl (fst ?v)" by code_simp
  then show ?thesis by (cases "fst ?v") (simp_all add: demo_result_def demo_signed_def prod_eq_iff)
qed

lemma demo_number:
  "normalizeMobile demo_env (vi_mobileNumber (demo_input o')) = Inr ''9876543210''" "\<not> isAppleReviewMobile demo_env ''9876543210''"
  by (simp add: demo_input_def) code_simp+

lemma demo_base_inv: "otp_inv demo_env (og_otps demo_base)"
  by (simp add: otp_inv_def one_open_def demo_base_def demo_signin_db_def)

lemma demo_sent_inv: "otp_inv demo_env (og_otps demo_sent)"
  using send_mobile_inv [OF demo_base_inv, of demo_send "''654321''" "''h654321''" "Sms_Sent False" 1000] by (simp add: demo_sends)

theorem otp_sessions_serial_witness:
  "otp_inv demo_env (og_otps (otp_run demo_env demo_vfy demo_sha
     [(Send_Mobile demo_send ''654321'' ''h654321'' (Sms_Sent False), 1000),
      (Send_Mobile demo_send ''111111'' ''h111111'' (Sms_Sent False), 90000)] demo_base))
   \<and> length (og_otps (otp_run demo_env demo_vfy demo_sha
     [(Send_Mobile demo_send ''654321'' ''h654321'' (Sms_Sent False), 1000),
      (Send_Mobile demo_send ''111111'' ''h111111'' (Sms_Sent False), 90000)] demo_base)) = 2"
  by (intro conjI otp_sessions_serial [OF demo_base_inv]) code_simp

theorem sign_in_needs_code_witness:
  "open_otp (by_mobile ''9876543210'') (og_otps demo_signed) = None
   \<and> (\<exists>e. fst (verifyMobileOtp demo_env demo_vfy demo_sha demo_fresh_values (demo_input ''654321'') 3000
        (otp_run demo_env demo_vfy demo_sha [(Verify_Mobile demo_fresh_values (demo_input ''654321''), 2500)] demo_signed)) = Inl e)"
proof -
  have "unique_keys os_id (og_otps demo_sent)" using demo_sent_inv by (simp add: otp_inv_def)
  moreover have "\<not> list_ex (sends_to demo_env ''9876543210'') [(Verify_Mobile demo_fresh_values (demo_input ''654321''), 2500)]"
    by (simp add: sends_to_def)
  ultimately show ?thesis
    using sign_in_needs_code [OF demo_signs_in demo_number _ _ demo_number(1), of _ demo_fresh_values "''654321''" 3000] by blast
qed

definition demo_guesses :: "(verify_input \<times> time) list" where
  "demo_guesses = replicate 5 (demo_input ''000000'', 1500)"


lemma demo_wrong: "otp_decide demo_vfy demo_otp ''000000'' 1500 = V_Wrong" "os_attempts demo_otp + 1 < os_maxAttempts demo_otp"
  by code_simp+

theorem parallel_guesses_count_once_witness:
  "os_attempts (hd (og_otps (foldl (\<lambda>d (otp, now). snd (validateOtpSession demo_vfy demo_otp otp now d)) demo_sent
      (replicate 3 (''000000'', 1500))))) = 1"
proof -
  let ?gs = "replicate 3 (''000000'', 1500 :: time)"
  let ?d = "foldl (\<lambda>d (otp, now). snd (validateOtpSession demo_vfy demo_otp otp now d)) demo_sent ?gs"
  have "list_all (\<lambda>(otp, now). otp_decide demo_vfy demo_otp otp now = V_Wrong) ?gs" using demo_wrong(1) by (simp add: list_all_iff)
  moreover have "og_otps ?d \<noteq> []" "os_id (hd (og_otps ?d)) = os_id demo_otp" "os_attempts demo_otp = 0"
    by code_simp+
  ultimately show ?thesis
    using parallel_guesses_count_once [of ?gs demo_vfy demo_otp "hd (og_otps ?d)" demo_sent] hd_in_set [of "og_otps ?d"] by simp
qed

definition demo_resent :: otp_db where
  "demo_resent = put_otp (demo_otp\<lparr>os_id := 2, os_otpHash := ''h111111'', os_createdAt := 90000\<rparr>)
     (invalidateActiveSessions (by_mobile ''9876543210'') 90000 demo_sent)"

theorem late_guess_reopens_witness:
  "list_ex (\<lambda>r'. os_id r' = 1 \<and> otp_open r' \<and> os_otpHash r' = ''h654321'' \<and> otp_decide demo_vfy r' ''654321'' 2000 = V_Pass)
     (og_otps (snd (validateOtpSession demo_vfy demo_otp ''000000'' 1500 demo_resent)))
   \<and> \<not> otp_open (hd (og_otps demo_resent))"
proof -
  let ?r = "hd (og_otps demo_resent)"
  have "og_otps demo_resent \<noteq> []" "os_id ?r = os_id demo_otp" "os_maxAttempts ?r = os_maxAttempts demo_otp"
    "\<not> os_verified ?r" "os_otpHash ?r = ''h654321''" "2000 < os_expiresAt ?r" "demo_vfy ''h654321'' ''654321''"
    "os_id demo_otp = 1" "\<not> otp_open ?r" by code_simp+
  with hd_in_set [of "og_otps demo_resent"] late_guess_reopens [of ?r demo_resent demo_otp demo_vfy "''000000''" 1500] demo_wrong
  show ?thesis unfolding list_ex_iff by fastforce
qed


theorem new_customer_referral_lost_witness:
  "og_mappings (snd (verifyMobileOtp demo_env demo_vfy demo_sha demo_fresh_values
     ((demo_input ''654321'')\<lparr>vi_attribution := Some \<lparr>in_source = None, in_utmSource = None, in_utmMedium = None,
        in_utmCampaign = None, in_utmTerm = None, in_utmContent = None, in_rmId = None, in_rmName = None,
        in_partnerCode = None, in_partnerName = None, in_referralCode = Some ''FIN1'', in_clickId = None,
        in_landingPage = None, in_referrer = None\<rparr>\<rparr>) 2000 demo_sent)) = []"
  (is "og_mappings (snd ?v) = _")
proof -
  have "\<not> isl (fst ?v)" by code_simp
  then obtain r where "fst ?v = Inr r" by (cases "fst ?v") simp_all
  then have v: "?v = (Inr r, snd ?v)" by (metis prod.collapse)
  have "customer_of ''9876543210'' demo_sent = None" "og_mappings demo_sent = []" by code_simp+
  then show ?thesis using new_customer_referral_lost [OF v, of "''9876543210''"] demo_number(1) [of "''654321''"] by simp
qed

definition demo_disbursed :: otp_db where
  "demo_disbursed = demo_signin_db [(demo_customer 1 ''CUS-A'' ''9000000001'')\<lparr>cm_onboarding := ON_DISBURSED\<rparr>]"

definition demo_email_sent :: otp_db where
  "demo_email_sent = snd (sendEmailOtp demo_env ''1'' ''a@b.in'' None None ''654321'' ''h654321'' Email_Sent 1000 demo_disbursed)"

definition demo_email_done :: otp_db where
  "demo_email_done = snd (verifyEmailOtp demo_vfy ''1'' ''A@b.in'' ''654321'' 2000 demo_email_sent)"

theorem email_verification_resets_status_witness:
  "cm_onboarding (hd (xd_customers (og_sess demo_email_done))) = ON_EMAIL_VERIFIED"
proof -
  let ?x = "hd (xd_customers (og_sess demo_email_done))"
  have v: "verifyEmailOtp demo_vfy ''1'' ''A@b.in'' ''654321'' 2000 demo_email_sent = (Inr (1, ''a@b.in''), demo_email_done)" by code_simp
  have "?x \<in> set (xd_customers (og_sess demo_email_done))" "cm_id ?x = 1" by code_simp+
  then show ?thesis using email_verification_resets_status [OF v] by simp
qed

theorem codes_are_logged_witness:
  "''[DEBUG-ONLY] Mobile OTP for 9876543210: 654321'' \<in> set (og_log demo_sent)"
proof -
  have "send_check demo_env demo_send 1000 demo_base = Inr (''9876543210'', None)" by code_simp
  then show ?thesis using codes_are_logged [OF demo_sends _ demo_number(2)] by (simp add: mobile_log_def)
qed

theorem sends_are_spaced_witness:
  "ov_cooldownSeconds demo_env \<le> of_int ((90000 - os_lastSentAt demo_otp) div 1000)"
proof (rule sends_are_spaced [OF _ demo_number(2)])
  show "send_check demo_env demo_send 90000 demo_sent = Inr (''9876543210'', None)" by code_simp
  show "demo_otp \<in> set (og_otps demo_sent)" "otp_matches (by_mobile ''9876543210'') demo_otp" by code_simp+
qed

theorem two_sends_two_codes_witness:
  "length (filter (\<lambda>s. otp_matches (by_mobile ''9876543210'') s \<and> otp_open s)
     (og_otps (snd (send_create demo_env demo_send ''9876543210'' None ''222222'' ''h222222'' (Sms_Sent True) 1000
       (snd (send_create demo_env demo_send ''9876543210'' None ''111111'' ''h111111'' (Sms_Sent True) 1000
         (invalidateActiveSessions (by_mobile ''9876543210'') 1000
           (invalidateActiveSessions (by_mobile ''9876543210'') 1000 demo_base)))))))) = 2"
  by (rule two_sends_two_codes [OF demo_number(2) surjective_pairing surjective_pairing])

theorem sign_in_opens_session_witness:
  "\<exists>p. customer_jwt_validate (ct_access (fst demo_result)) 3000 (og_sess demo_signed) = Inr p"
proof -
  have "fv_sessionId demo_fresh_values \<noteq> []" "unique_keys cm_id (xd_customers (og_sess demo_sent))"
    "unique_keys xs_id (xd_sessions (og_sess demo_sent))" by code_simp+
  moreover have "cm_accountStatus (snd demo_result) = CA_ACTIVE" by code_simp
  ultimately show ?thesis
    using sign_in_opens_session [of demo_env demo_vfy demo_sha demo_fresh_values "demo_input ''654321''" 2000 demo_sent
        "fst demo_result" "snd demo_result" demo_signed 3000] demo_signs_in
    by (simp add: demo_env_def DAY_MS_def)
qed

end
