(* ===== verification/PartnerAccess.thy ===== *)
theory PartnerAccess
  imports Applications UrlSigner
begin

text \<open>
  How a partner reaches its interface (modules/partner-api): the guard that checks a request's
  signature (partner-auth.guard.ts), the interceptor that makes retries safe
  (idempotency.interceptor.ts), and the administration of partners (partner-admin.service.ts).

  The hash and the HMAC are the parameters \<open>sha\<close> and \<open>hmac\<close> (both give hexadecimal text), and
  \<open>num\<close> is what \<open>Number\<close> makes of a text that is not decimal digits; \<open>None\<close> stands for no number
  and for an infinite one, which the guard answers alike. Of an error the code before the colon is kept.
\<close>

section \<open>Data\<close>

datatype partner_client_status = PC_ACTIVE | PC_INACTIVE

record partner_client =
  pc_id :: ident
  pc_code :: string
  pc_name :: string
  pc_clientId :: string
  pc_secret :: string
  pc_authType :: string
  pc_allowedIps :: "string option"
  pc_webhookUrl :: "string option"
  pc_webhookSecret :: "string option"
  pc_status :: partner_client_status

record partner_nonce =
  pn_clientId :: ident
  pn_nonce :: string
  pn_expiresAt :: time

record idem_record =
  ir_clientId :: ident
  ir_key :: string
  ir_endpoint :: string
  ir_hash :: string
  ir_status :: int
  ir_body :: string

record access_db =
  pg_clients :: "partner_client list"
  pg_nonces :: "partner_nonce list"
  pg_records :: "idem_record list"

record partner_request =
  pq_method :: string
  pq_path :: string
  pq_clientId :: "string option"
  pq_timestamp :: "string option"
  pq_nonce :: "string option"
  pq_signature :: "string option"
  pq_idempotencyKey :: "string option"
  pq_forwardedFor :: "string option"
  pq_remote :: "string option"
  pq_rawBody :: "string option"

text \<open>The four headers of the guard, when none of them is missing.\<close>

record credentials =
  cr_clientId :: string
  cr_timestamp :: string
  cr_nonce :: string
  cr_signature :: string

section \<open>The guard\<close>

definition PARTNER_HMAC_TIMESTAMP_TOLERANCE_SECONDS :: int where
  "PARTNER_HMAC_TIMESTAMP_TOLERANCE_SECONDS = 300"

definition auth_headers :: "partner_request \<Rightarrow> credentials option" where
  "auth_headers q =
     (case (truthy_str (pq_clientId q), truthy_str (pq_timestamp q), truthy_str (pq_nonce q), truthy_str (pq_signature q)) of
        (Some c, Some t, Some n, Some s) \<Rightarrow>
          Some \<lparr>cr_clientId = c, cr_timestamp = t, cr_nonce = n, cr_signature = s\<rparr>
      | _ \<Rightarrow> None)"

definition remote_ip :: "partner_request \<Rightarrow> string" where
  "remote_ip q =
     (case truthy_str (map_option (\<lambda>h. trim_str (hd (split_on (CHR '','') h))) (pq_forwardedFor q)) of
        Some ip \<Rightarrow> ip
      | None \<Rightarrow> (case truthy_str (pq_remote q) of Some ip \<Rightarrow> ip | None \<Rightarrow> []))"

definition ip_allowed :: "partner_client \<Rightarrow> partner_request \<Rightarrow> bool" where
  "ip_allowed c q =
     (case truthy_str (pc_allowedIps c) of
        None \<Rightarrow> True
      | Some l \<Rightarrow> remote_ip q \<in> set (map trim_str (split_on (CHR '','') l)))"

definition timestamp_fresh :: "(string \<Rightarrow> rat option) \<Rightarrow> time \<Rightarrow> string \<Rightarrow> bool" where
  "timestamp_fresh num now ts =
     (case js_number num ts of
        None \<Rightarrow> False
      | Some x \<Rightarrow>
          dbl (\<bar>dbl (of_int now - x)\<bar> / 1000) \<le> of_int PARTNER_HMAC_TIMESTAMP_TOLERANCE_SECONDS)"

text \<open>What is decided before the nonce is written.\<close>

definition guard_read ::
  "(string \<Rightarrow> rat option) \<Rightarrow> time \<Rightarrow> credentials \<Rightarrow> partner_request \<Rightarrow> partner_client list \<Rightarrow> http_error + partner_client" where
  "guard_read num now cr q clients =
     (case find_unique pc_clientId (cr_clientId cr) clients of
        None \<Rightarrow> Inl (Unauthorized ''PARTNER_AUTH_CLIENT_NOT_FOUND'')
      | Some c \<Rightarrow>
          if pc_status c \<noteq> PC_ACTIVE then Inl (Unauthorized ''PARTNER_AUTH_CLIENT_INACTIVE'')
          else if \<not> ip_allowed c q then Inl (Unauthorized ''PARTNER_AUTH_IP_NOT_ALLOWED'')
          else if \<not> timestamp_fresh num now (cr_timestamp cr) then Inl (Unauthorized ''PARTNER_AUTH_TIMESTAMP_EXPIRED'')
          else Inr c)"

text \<open>
  Whatever keeps the row from being written is answered as a replay: a row with the same client and
  nonce, or a nonce too long for its column.
\<close>

definition nonce_taken :: "ident \<Rightarrow> string \<Rightarrow> partner_nonce list \<Rightarrow> bool" where
  "nonce_taken client n ns \<longleftrightarrow> (\<exists>x\<in>set ns. pn_clientId x = client \<and> pn_nonce x = n)"

definition guard_nonce :: "time \<Rightarrow> partner_client \<Rightarrow> string \<Rightarrow> partner_nonce list \<Rightarrow> http_error + partner_nonce list" where
  "guard_nonce now c n ns =
     (if nonce_taken (pc_id c) n ns \<or> 100 < length n then Inl (Unauthorized ''PARTNER_AUTH_NONCE_REPLAYED'')
      else Inr (ns @ [\<lparr>pn_clientId = pc_id c, pn_nonce = n,
        pn_expiresAt = now + PARTNER_HMAC_TIMESTAMP_TOLERANCE_SECONDS * 1000 * 2\<rparr>]))"

text \<open>\<open>Buffer.from(s, 'hex')\<close> stops at the first pair that is not hexadecimal.\<close>

definition hex_digit :: "char \<Rightarrow> nat option" where
  "hex_digit c =
     (let n = of_char c :: nat in
      if is_digit c then Some (n - 48)
      else if 97 \<le> n \<and> n \<le> 102 then Some (n - 87)
      else if 65 \<le> n \<and> n \<le> 70 then Some (n - 55)
      else None)"

fun hex_bytes :: "string \<Rightarrow> nat list" where
  "hex_bytes (a # b # s) =
     (case (hex_digit a, hex_digit b) of (Some x, Some y) \<Rightarrow> (16 * x + y) # hex_bytes s | _ \<Rightarrow> [])"
| "hex_bytes _ = []"

definition signing_string :: "(string \<Rightarrow> string) \<Rightarrow> credentials \<Rightarrow> partner_request \<Rightarrow> string" where
  "signing_string sha cr q =
     cr_clientId cr @ CHR 0x0A # cr_timestamp cr @ CHR 0x0A # cr_nonce cr @ CHR 0x0A #
     sha (case pq_rawBody q of Some b \<Rightarrow> b | None \<Rightarrow> [])"

definition signature_ok ::
  "(string \<Rightarrow> string) \<Rightarrow> (string \<Rightarrow> string \<Rightarrow> string) \<Rightarrow> partner_client \<Rightarrow> credentials \<Rightarrow> partner_request \<Rightarrow> bool" where
  "signature_ok sha hmac c cr q \<longleftrightarrow>
     hex_bytes (cr_signature cr) = hex_bytes (hmac (pc_secret c) (signing_string sha cr q))"

text \<open>The rest of the guard, after the client's row was read.\<close>

definition guard_finish ::
  "(string \<Rightarrow> string) \<Rightarrow> (string \<Rightarrow> string \<Rightarrow> string) \<Rightarrow> time \<Rightarrow> partner_client \<Rightarrow> credentials \<Rightarrow> partner_request \<Rightarrow> access_db \<Rightarrow>
   (http_error + partner_client) \<times> access_db" where
  "guard_finish sha hmac now c cr q db =
     (case guard_nonce now c (cr_nonce cr) (pg_nonces db) of
        Inl e \<Rightarrow> (Inl e, db)
      | Inr ns \<Rightarrow>
          (if signature_ok sha hmac c cr q then Inr c else Inl (Unauthorized ''PARTNER_AUTH_SIGNATURE_INVALID''),
           db\<lparr>pg_nonces := ns\<rparr>))"

definition canActivate ::
  "(string \<Rightarrow> string) \<Rightarrow> (string \<Rightarrow> string \<Rightarrow> string) \<Rightarrow> (string \<Rightarrow> rat option) \<Rightarrow> time \<Rightarrow> partner_request \<Rightarrow> access_db \<Rightarrow>
   (http_error + partner_client) \<times> access_db" where
  "canActivate sha hmac num now q db =
     (case auth_headers q of
        None \<Rightarrow> (Inl (Unauthorized ''PARTNER_AUTH_MISSING_HEADER''), db)
      | Some cr \<Rightarrow>
          (case guard_read num now cr q (pg_clients db) of
             Inl e \<Rightarrow> (Inl e, db)
           | Inr c \<Rightarrow> guard_finish sha hmac now c cr q db))"

section \<open>The interceptor\<close>

datatype idem_outcome =
    Pass  \<comment> \<open>run the handler, keep nothing\<close>
  | Refused int string
  | Replayed int string
  | Run string  \<comment> \<open>run the handler and keep its answer under this hash\<close>

definition idem_lookup :: "ident \<Rightarrow> string \<Rightarrow> idem_record list \<Rightarrow> idem_record option" where
  "idem_lookup client key rs = List.find (\<lambda>r. ir_clientId r = client \<and> ir_key r = key) rs"

text \<open>The client is what the guard attached to the request.\<close>

definition intercept ::
  "(string \<Rightarrow> string) \<Rightarrow> partner_client option \<Rightarrow> partner_request \<Rightarrow> idem_record list \<Rightarrow> idem_outcome" where
  "intercept sha client q rs =
     (if to_upper (pq_method q) \<notin> {''POST'', ''PUT'', ''PATCH''} then Pass
      else case truthy_str (pq_idempotencyKey q) of
        None \<Rightarrow> Refused 422 ''PARTNER_IDEMPOTENCY_KEY_MISSING''
      | Some key \<Rightarrow>
          (case client of
             None \<Rightarrow> Pass
           | Some c \<Rightarrow>
               let h = sha (case pq_rawBody q of Some b \<Rightarrow> b | None \<Rightarrow> []) in
               case idem_lookup (pc_id c) key rs of
                 Some r \<Rightarrow> if ir_hash r \<noteq> h then Refused 409 ''PARTNER_IDEMPOTENCY_CONFLICT''
                           else Replayed (ir_status r) (ir_body r)
               | None \<Rightarrow> Run h))"

text \<open>
  After the handler has answered; a row that cannot be written (the key is there already, or a
  value is too long for its column) is only logged.
\<close>

definition idem_store ::
  "partner_client \<Rightarrow> partner_request \<Rightarrow> string \<Rightarrow> int \<Rightarrow> string \<Rightarrow> idem_record list \<Rightarrow> idem_record list" where
  "idem_store c q h status body rs =
     (case truthy_str (pq_idempotencyKey q) of
        None \<Rightarrow> rs
      | Some key \<Rightarrow>
          if idem_lookup (pc_id c) key rs \<noteq> None \<or> 100 < length key \<or> 100 < length (pq_path q) then rs
          else rs @ [\<lparr>ir_clientId = pc_id c, ir_key = key, ir_endpoint = pq_path q, ir_hash = h,
                      ir_status = status, ir_body = body\<rparr>])"

text \<open>
  A request through guard and interceptor. The handler takes the client and the request to an
  error, or to a status and the text of its answer, with the new state of the rest.
\<close>

datatype partner_response = Answer int string | Failure http_error

definition partner_serve ::
  "(string \<Rightarrow> string) \<Rightarrow> (string \<Rightarrow> string \<Rightarrow> string) \<Rightarrow> (string \<Rightarrow> rat option) \<Rightarrow>
   (partner_client \<Rightarrow> partner_request \<Rightarrow> 'db \<Rightarrow> (http_error + int \<times> string) \<times> 'db) \<Rightarrow>
   time \<Rightarrow> partner_request \<Rightarrow> access_db \<times> 'db \<Rightarrow> partner_response \<times> (access_db \<times> 'db)" where
  "partner_serve sha hmac num handle now q s =
     (case canActivate sha hmac num now q (fst s) of
        (Inl e, db) \<Rightarrow> (Failure e, (db, snd s))
      | (Inr c, db) \<Rightarrow>
          (case intercept sha (Some c) q (pg_records db) of
             Refused st code \<Rightarrow> (Answer st code, (db, snd s))
           | Replayed st body \<Rightarrow> (Answer st body, (db, snd s))
           | Pass \<Rightarrow>
               (case handle c q (snd s) of
                  (Inl e, x) \<Rightarrow> (Failure e, (db, x))
                | (Inr (st, body), x) \<Rightarrow> (Answer st body, (db, x)))
           | Run h \<Rightarrow>
               (case handle c q (snd s) of
                  (Inl e, x) \<Rightarrow> (Failure e, (db, x))
                | (Inr (st, body), x) \<Rightarrow>
                    (Answer st body, (db\<lparr>pg_records := idem_store c q h st body (pg_records db)\<rparr>, x)))))"

section \<open>The administration of partners\<close>

record create_marketing_partner =
  mp_name :: string
  mp_code :: string
  mp_authType :: "string option"
  mp_allowedIps :: "string option"
  mp_webhookUrl :: "string option"
  mp_status :: "partner_client_status option"

text \<open>In an update an absent field and null differ for the two columns that may be null.\<close>

record update_marketing_partner =
  up_name :: "string option"
  up_authType :: "string option"
  up_allowedIps :: "string option option"
  up_webhookUrl :: "string option option"
  up_status :: "partner_client_status option"

record client_fresh =
  cf_id :: ident
  cf_clientId :: string
  cf_secret :: string
  cf_webhookSecret :: string

definition code_char :: "char \<Rightarrow> char" where
  "code_char c = (if is_upper c \<or> is_digit c \<or> c = CHR ''_'' \<or> c = CHR ''-'' then c else CHR ''_'')"

definition clean_code :: "string \<Rightarrow> string" where
  "clean_code s = map code_char (to_upper (trim_str s))"

definition trimmed_or_null :: "string option \<Rightarrow> string option" where
  "trimmed_or_null s = truthy_str (map_option trim_str s)"

definition new_partner :: "client_fresh \<Rightarrow> create_marketing_partner \<Rightarrow> partner_client" where
  "new_partner fr dto =
     \<lparr>pc_id = cf_id fr, pc_code = clean_code (mp_code dto), pc_name = trim_str (mp_name dto),
      pc_clientId = cf_clientId fr, pc_secret = cf_secret fr,
      pc_authType = (case truthy_str (mp_authType dto) of Some a \<Rightarrow> a | None \<Rightarrow> ''CAMPAIGN_LINK''),
      pc_allowedIps = trimmed_or_null (mp_allowedIps dto),
      pc_webhookUrl = trimmed_or_null (mp_webhookUrl dto),
      pc_webhookSecret = (if truthy_str (mp_webhookUrl dto) \<noteq> None then Some (cf_webhookSecret fr) else None),
      pc_status = (case mp_status dto of Some s \<Rightarrow> s | None \<Rightarrow> PC_ACTIVE)\<rparr>"

definition createPartner ::
  "client_fresh \<Rightarrow> create_marketing_partner \<Rightarrow> partner_client list \<Rightarrow> http_error + partner_client \<times> partner_client list" where
  "createPartner fr dto cs =
     (if find_unique pc_code (clean_code (mp_code dto)) cs \<noteq> None
      then Inl (Conflict ''Partner code is already registered.'')
      else if find_unique pc_clientId (cf_clientId fr) cs \<noteq> None \<or> find_unique pc_id (cf_id fr) cs \<noteq> None
      then Inl (DbError ''P2002'')
      else Inr (new_partner fr dto, cs @ [new_partner fr dto]))"

definition partner_changes :: "update_marketing_partner \<Rightarrow> partner_client \<Rightarrow> partner_client" where
  "partner_changes dto c =
     c\<lparr>pc_name := (case up_name dto of Some n \<Rightarrow> trim_str n | None \<Rightarrow> pc_name c),
       pc_authType := (case up_authType dto of Some a \<Rightarrow> a | None \<Rightarrow> pc_authType c),
       pc_allowedIps := (case up_allowedIps dto of Some v \<Rightarrow> trimmed_or_null v | None \<Rightarrow> pc_allowedIps c),
       pc_webhookUrl := (case up_webhookUrl dto of Some v \<Rightarrow> trimmed_or_null v | None \<Rightarrow> pc_webhookUrl c),
       pc_status := (case up_status dto of Some s \<Rightarrow> s | None \<Rightarrow> pc_status c)\<rparr>"

definition change_partner ::
  "ident \<Rightarrow> (partner_client \<Rightarrow> partner_client) \<Rightarrow> partner_client list \<Rightarrow> http_error + partner_client \<times> partner_client list" where
  "change_partner i f cs =
     (case find_unique pc_id i cs of
        None \<Rightarrow> Inl (NotFound ''Partner not found.'')
      | Some c \<Rightarrow> update_one pc_id i (\<lambda>_. True) f cs)"

definition updatePartner ::
  "ident \<Rightarrow> update_marketing_partner \<Rightarrow> partner_client list \<Rightarrow> http_error + partner_client \<times> partner_client list" where
  "updatePartner i dto = change_partner i (partner_changes dto)"

definition toggleStatus ::
  "ident \<Rightarrow> partner_client_status \<Rightarrow> partner_client list \<Rightarrow> http_error + partner_client \<times> partner_client list" where
  "toggleStatus i st = change_partner i (\<lambda>c. c\<lparr>pc_status := st\<rparr>)"

definition rotateSecret ::
  "ident \<Rightarrow> string \<Rightarrow> partner_client list \<Rightarrow> http_error + partner_client \<times> partner_client list" where
  "rotateSecret i secret = change_partner i (\<lambda>c. c\<lparr>pc_secret := secret\<rparr>)"

section \<open>What the guard decides\<close>

lemma canActivate_Inr:
  "canActivate sha hmac num now q db = (Inr c, db') \<longleftrightarrow>
     (\<exists>cr ns. auth_headers q = Some cr \<and> guard_read num now cr q (pg_clients db) = Inr c
        \<and> guard_nonce now c (cr_nonce cr) (pg_nonces db) = Inr ns \<and> signature_ok sha hmac c cr q
        \<and> db' = db\<lparr>pg_nonces := ns\<rparr>)"
  by (auto simp: canActivate_def guard_finish_def split: option.splits sum.splits if_splits)

lemma guard_read_Inr:
  "guard_read num now cr q clients = Inr c \<longleftrightarrow>
     find_unique pc_clientId (cr_clientId cr) clients = Some c \<and> pc_status c = PC_ACTIVE
     \<and> ip_allowed c q \<and> timestamp_fresh num now (cr_timestamp cr)"
  by (auto simp: guard_read_def split: option.splits)

lemma guard_nonce_Inr:
  "guard_nonce now c n ns = Inr ns' \<longleftrightarrow>
     \<not> nonce_taken (pc_id c) n ns \<and> length n \<le> 100
     \<and> ns' = ns @ [\<lparr>pn_clientId = pc_id c, pn_nonce = n,
         pn_expiresAt = now + PARTNER_HMAC_TIMESTAMP_TOLERANCE_SECONDS * 1000 * 2\<rparr>]"
  by (auto simp: guard_nonce_def)

lemma nonce_taken_append: "nonce_taken i n ns \<Longrightarrow> nonce_taken i n (ns @ ms)"
  by (auto simp: nonce_taken_def)

lemma nonce_taken_new: "guard_nonce now c n ns = Inr ns' \<Longrightarrow> nonce_taken (pc_id c) n ns'"
  by (auto simp: guard_nonce_Inr nonce_taken_def)

lemma guard_finish_nonces: "\<exists>ms. pg_nonces (snd (guard_finish sha hmac now c cr q db)) = pg_nonces db @ ms"
  by (auto simp: guard_finish_def guard_nonce_Inr split: sum.splits)

lemma guard_finish_Inr:
  "guard_finish sha hmac now c cr q db = (Inr c', db') \<Longrightarrow>
     c' = c \<and> signature_ok sha hmac c cr q \<and> \<not> nonce_taken (pc_id c) (cr_nonce cr) (pg_nonces db)
     \<and> nonce_taken (pc_id c) (cr_nonce cr) (pg_nonces db')"
  by (auto simp: guard_finish_def guard_nonce_Inr nonce_taken_def split: sum.splits if_splits)

text \<open>A difference in whole milliseconds, in seconds as a double, against the tolerance.\<close>

lemma dbl_thousandth:
  assumes "0 \<le> d"
  shows "dbl (of_int d / 1000) \<le> 300 \<longleftrightarrow> d \<le> 300000"
proof -
  let ?x = "of_int d / 1000 :: rat"
  have x0: "0 \<le> ?x" using assms by simp
  consider "d \<le> 299999" | "d = 300000" | "300001 \<le> d" by linarith
  then show ?thesis
  proof cases
    case 1
    then have "(of_int d :: rat) \<le> of_int 299999" by (simp only: of_int_le_iff)
    then have "?x \<le> 299999 / 1000" by simp
    then have "?x * (1 + 1 / 2 ^ 53) \<le> 299999 / 1000 * (1 + 1 / 2 ^ 53)" by (rule mult_right_mono) simp
    also have "\<dots> \<le> 300" by simp
    finally have "dbl ?x \<le> 300" using dbl_le [OF x0] by linarith
    with 1 show ?thesis by simp
  next
    case 2
    have "dbl (of_int 300) = of_int 300" by (rule dbl_of_int) simp
    with 2 show ?thesis by simp
  next
    case 3
    then have "of_int 300001 \<le> (of_int d :: rat)" by (simp only: of_int_le_iff)
    then have "300001 / 1000 \<le> ?x" by simp
    then have "300001 / 1000 * (1 - 1 / 2 ^ 53) \<le> ?x * (1 - 1 / 2 ^ 53)" by (rule mult_right_mono) simp
    moreover have "?x - ?x / 2 ^ 53 \<le> dbl ?x"
      using dbl_error [of ?x] unfolding abs_of_nonneg [OF x0] by linarith
    moreover have "?x * (1 - 1 / 2 ^ 53) = ?x - ?x / 2 ^ 53" by (simp add: algebra_simps)
    moreover have "(300 :: rat) < 300001 / 1000 * (1 - 1 / 2 ^ 53)" by simp
    ultimately have "300 < dbl ?x" by linarith
    with 3 show ?thesis by simp
  qed
qed

text \<open>
  A timestamp is accepted exactly when it is at most 300 seconds before or after the server's
  clock, both ends included; the arithmetic in doubles loses nothing.
\<close>

theorem timestamp_window:
  assumes "0 \<le> t" "t < 2 ^ 53" and "0 \<le> now" "now < 2 ^ 53"
  shows "timestamp_fresh num now (show_int t) \<longleftrightarrow> \<bar>now - t\<bar> \<le> 300000"
proof -
  have "dbl (of_int now - of_int t) = of_int (now - t)"
    using assms dbl_of_int [of "now - t"] by (simp add: abs_if)
  then show ?thesis
    using js_number_show [OF assms(1,2), of num] dbl_thousandth [of "\<bar>now - t\<bar>"]
    by (simp add: timestamp_fresh_def PARTNER_HMAC_TIMESTAMP_TOLERANCE_SECONDS_def flip: of_int_diff)
qed

section \<open>Requests and administration interleaved\<close>

datatype admin_change =
    Create_partner client_fresh create_marketing_partner
  | Update_partner ident update_marketing_partner
  | Toggle_status ident partner_client_status
  | Rotate_secret ident string

fun admin_run :: "admin_change \<Rightarrow> partner_client list \<Rightarrow> http_error + partner_client \<times> partner_client list" where
  "admin_run (Create_partner fr dto) cs = createPartner fr dto cs"
| "admin_run (Update_partner i dto) cs = updatePartner i dto cs"
| "admin_run (Toggle_status i st) cs = toggleStatus i st cs"
| "admin_run (Rotate_secret i secret) cs = rotateSecret i secret cs"

type_synonym guarded = "partner_client \<times> credentials \<times> partner_request"

record guard_state =
  gs_db :: access_db
  gs_pending :: "guarded list"  \<comment> \<open>the client's row is read, the nonce not yet written\<close>
  gs_accepted :: "guarded list"

inductive guard_step ::
  "(string \<Rightarrow> string) \<Rightarrow> (string \<Rightarrow> string \<Rightarrow> string) \<Rightarrow> (string \<Rightarrow> rat option) \<Rightarrow> guard_state \<Rightarrow> guard_state \<Rightarrow> bool"
  for sha hmac num where
  enter: "auth_headers q = Some cr \<Longrightarrow> guard_read num now cr q (pg_clients (gs_db s)) = Inr c \<Longrightarrow>
     guard_step sha hmac num s (s\<lparr>gs_pending := (c, cr, q) # gs_pending s\<rparr>)"
| leave: "(c, cr, q) \<in> set (gs_pending s) \<Longrightarrow> guard_finish sha hmac now c cr q (gs_db s) = (r, db') \<Longrightarrow>
     guard_step sha hmac num s (s\<lparr>gs_db := db', gs_pending := remove1 (c, cr, q) (gs_pending s),
       gs_accepted := (if isl r then gs_accepted s else (c, cr, q) # gs_accepted s)\<rparr>)"
| admin: "admin_run a (pg_clients (gs_db s)) = Inr (c, cs) \<Longrightarrow>
     guard_step sha hmac num s (s\<lparr>gs_db := (gs_db s)\<lparr>pg_clients := cs\<rparr>\<rparr>)"

fun nonce_key :: "guarded \<Rightarrow> ident \<times> string" where
  "nonce_key (c, cr, q) = (pc_id c, cr_nonce cr)"

fun entered :: "guarded \<Rightarrow> bool" where
  "entered (c, cr, q) \<longleftrightarrow>
     auth_headers q = Some cr \<and> pc_clientId c = cr_clientId cr \<and> pc_status c = PC_ACTIVE \<and> ip_allowed c q"

fun signed :: "(string \<Rightarrow> string) \<Rightarrow> (string \<Rightarrow> string \<Rightarrow> string) \<Rightarrow> guarded \<Rightarrow> bool" where
  "signed sha hmac (c, cr, q) \<longleftrightarrow> signature_ok sha hmac c cr q"

fun spent :: "partner_nonce list \<Rightarrow> guarded \<Rightarrow> bool" where
  "spent ns (c, cr, q) \<longleftrightarrow> nonce_taken (pc_id c) (cr_nonce cr) ns"

definition guard_inv :: "(string \<Rightarrow> string) \<Rightarrow> (string \<Rightarrow> string \<Rightarrow> string) \<Rightarrow> guard_state \<Rightarrow> bool" where
  "guard_inv sha hmac s \<longleftrightarrow>
     distinct (map nonce_key (gs_accepted s))
     \<and> (\<forall>g\<in>set (gs_accepted s). entered g \<and> signed sha hmac g \<and> spent (pg_nonces (gs_db s)) g)
     \<and> (\<forall>g\<in>set (gs_pending s). entered g)"

lemma spent_append: "spent ns g \<Longrightarrow> spent (ns @ ms) g"
  by (cases g) (auto intro: nonce_taken_append)

lemma spent_key: "spent ns g \<Longrightarrow> nonce_key g = nonce_key g' \<Longrightarrow> spent ns g'"
  by (cases g; cases g') auto

lemma guard_step_inv: "guard_step sha hmac num s s' \<Longrightarrow> guard_inv sha hmac s \<Longrightarrow> guard_inv sha hmac s'"
proof (induction rule: guard_step.induct)
  case (enter q cr now s c)
  then show ?case by (auto simp: guard_inv_def guard_read_Inr dest: find_unique_Some_D)
next
  case (leave c cr q s now r db')
  let ?g = "(c, cr, q)"
  obtain ms where ms: "pg_nonces db' = pg_nonces (gs_db s) @ ms"
    using guard_finish_nonces [of sha hmac now c cr q "gs_db s"] leave.hyps(2) by auto
  have old: "\<forall>g\<in>set (gs_accepted s). entered g \<and> signed sha hmac g \<and> spent (pg_nonces db') g"
    using leave.prems by (auto simp: guard_inv_def ms spent_append)
  have pend: "\<forall>g\<in>set (remove1 ?g (gs_pending s)). entered g" and e: "entered ?g"
    using leave.prems leave.hyps(1) set_remove1_subset [of ?g "gs_pending s"] by (auto simp: guard_inv_def)
  have d: "distinct (map nonce_key (gs_accepted s))" using leave.prems by (simp add: guard_inv_def)
  show ?case
  proof (cases r)
    case (Inl err)
    with old pend d show ?thesis by (simp add: guard_inv_def)
  next
    case (Inr c')
    with guard_finish_Inr leave.hyps(2)
    have new: "signed sha hmac ?g" "\<not> spent (pg_nonces (gs_db s)) ?g" "spent (pg_nonces db') ?g" by fastforce+
    have "nonce_key ?g \<notin> nonce_key ` set (gs_accepted s)"
    proof
      assume "nonce_key ?g \<in> nonce_key ` set (gs_accepted s)"
      then obtain g where "g \<in> set (gs_accepted s)" "nonce_key ?g = nonce_key g" by (rule imageE)
      with leave.prems spent_key [of "pg_nonces (gs_db s)" g ?g] new(2) show False
        unfolding guard_inv_def by metis
    qed
    with Inr old pend d e new show ?thesis by (simp add: guard_inv_def del: nonce_key.simps)
  qed
next
  case (admin a s c cs)
  then show ?case by (simp add: guard_inv_def)
qed

text \<open>
  C35. However requests and changes of the partners interleave: the requests that got through all
  carried the four headers, named a client that was active when its row was read, gave an address
  that the row's list allows, if it has one (the address is the first entry of the header
  \<open>x-forwarded-for\<close>, which the sender writes, and that of the connection only where there is no such
  entry, so this says nothing about where a request really came from), and were signed with the
  secret of that row; and no two of them share client and nonce.
\<close>

theorem nonce_accepted_once:
  assumes "(guard_step sha hmac num)\<^sup>*\<^sup>* \<lparr>gs_db = db, gs_pending = [], gs_accepted = []\<rparr> s"
  shows "distinct (map nonce_key (gs_accepted s)) \<and> (\<forall>g\<in>set (gs_accepted s). entered g \<and> signed sha hmac g)"
proof -
  from assms have "guard_inv sha hmac s"
    by (induction rule: rtranclp_induct) (auto simp: guard_inv_def [of _ _ "\<lparr>gs_db = _, gs_pending = [], gs_accepted = []\<rparr>"] intro: guard_step_inv)
  then show ?thesis by (auto simp: guard_inv_def)
qed

text \<open>
  The nonce is written before the signature is looked at: someone who knows a client's
  public identifier and no secret, and picks the nonce of a request under way, makes that request
  be refused as a replay.
\<close>

theorem forgery_spends_nonce:
  assumes "canActivate sha hmac num now q db = (Inr c, db1)"
    and "q' = q\<lparr>pq_signature := Some bad, pq_rawBody := body\<rparr>" and "bad \<noteq> []"
    and "fst (canActivate sha hmac num now q' db) \<noteq> Inr c"
  shows "fst (canActivate sha hmac num now q' db) = Inl (Unauthorized ''PARTNER_AUTH_SIGNATURE_INVALID'')
    \<and> fst (canActivate sha hmac num now q (snd (canActivate sha hmac num now q' db)))
      = Inl (Unauthorized ''PARTNER_AUTH_NONCE_REPLAYED'')"
proof -
  from assms(1) obtain cr ns where cr: "auth_headers q = Some cr" "guard_read num now cr q (pg_clients db) = Inr c"
    "guard_nonce now c (cr_nonce cr) (pg_nonces db) = Inr ns" by (auto simp: canActivate_Inr)
  from cr(1) have h: "auth_headers q' = Some (cr\<lparr>cr_signature := bad\<rparr>)"
    using assms(3) by (auto simp: auth_headers_def assms(2) truthy_str_def split: option.splits list.splits)
  have ip: "ip_allowed c q' = ip_allowed c q" by (simp add: assms(2) ip_allowed_def remote_ip_def split: option.split)
  have g: "guard_read num now (cr\<lparr>cr_signature := bad\<rparr>) q' (pg_clients db) = Inr c"
    using cr(2) ip by (simp add: guard_read_Inr)
  have f: "canActivate sha hmac num now q' db = (Inl (Unauthorized ''PARTNER_AUTH_SIGNATURE_INVALID''), db\<lparr>pg_nonces := ns\<rparr>)"
    using assms(4) by (simp add: canActivate_def h g guard_finish_def cr(3) split: if_splits)
  from nonce_taken_new [OF cr(3)] show ?thesis
    by (simp add: f) (simp add: canActivate_def cr(1,2) guard_finish_def guard_nonce_def)
qed

text \<open>
  The list of allowed addresses guards against no one who writes the header
  \<open>x-forwarded-for\<close>: with the list itself in it a request passes from every address.
\<close>

theorem address_list_by_header:
  assumes "pc_allowedIps c = Some l" and "trim_str (hd (split_on (CHR '','') l)) \<noteq> []"
  shows "ip_allowed c (q\<lparr>pq_forwardedFor := Some l, pq_remote := r\<rparr>)"
proof -
  have "split_on (CHR '','') l \<noteq> []" by (induction l) (auto split: list.split)
  then show ?thesis
    using assms by (auto simp: ip_allowed_def remote_ip_def truthy_str_def split: option.split list.split)
qed

text \<open>The signature covers neither method nor path: the guard answers the same for every operation.\<close>

theorem signature_covers_no_path:
  "canActivate sha hmac num now (q\<lparr>pq_method := m, pq_path := p\<rparr>) db = canActivate sha hmac num now q db"
  by (simp add: canActivate_def auth_headers_def guard_read_def ip_allowed_def remote_ip_def guard_finish_def
      signature_ok_def signing_string_def split: option.split)

section \<open>What a retry gets\<close>

lemma idem_lookup_Some: "idem_lookup i k rs = Some r \<Longrightarrow> r \<in> set rs \<and> ir_clientId r = i \<and> ir_key r = k"
  by (auto simp: idem_lookup_def find_Some_iff)

lemma idem_lookup_store:
  assumes "truthy_str (pq_idempotencyKey q) = Some key" and "length key \<le> 100" and "length (pq_path q) \<le> 100"
    and "idem_lookup (pc_id c) key rs = None"
  shows "idem_lookup (pc_id c) key (idem_store c q h st body rs)
    = Some \<lparr>ir_clientId = pc_id c, ir_key = key, ir_endpoint = pq_path q, ir_hash = h, ir_status = st, ir_body = body\<rparr>"
  using assms by (simp add: idem_store_def idem_lookup_def find_append)

lemma intercept_Run:
  "intercept sha (Some c) q rs = Run h \<longleftrightarrow>
     to_upper (pq_method q) \<in> {''POST'', ''PUT'', ''PATCH''}
     \<and> (\<exists>key. truthy_str (pq_idempotencyKey q) = Some key \<and> idem_lookup (pc_id c) key rs = None)
     \<and> h = sha (case pq_rawBody q of Some b \<Rightarrow> b | None \<Rightarrow> [])"
  by (auto simp: intercept_def Let_def split: option.splits)

lemma intercept_Replayed:
  assumes "to_upper (pq_method q) \<in> {''POST'', ''PUT'', ''PATCH''}" and "truthy_str (pq_idempotencyKey q) = Some key"
    and "idem_lookup (pc_id c) key rs = Some r" and "ir_hash r = sha (case pq_rawBody q of Some b \<Rightarrow> b | None \<Rightarrow> [])"
  shows "intercept sha (Some c) q rs = Replayed (ir_status r) (ir_body r)"
  unfolding intercept_def using assms by (simp only: if_not_P not_not option.case Let_def simp_thms if_False)

lemma partner_serve_Run:
  assumes "canActivate sha hmac num now q db = (Inr c, db1)" and "intercept sha (Some c) q (pg_records db1) = Run h"
  shows "partner_serve sha hmac num handle now q (db, x) =
     (case handle c q x of
        (Inl e, x') \<Rightarrow> (Failure e, (db1, x'))
      | (Inr (st, body), x') \<Rightarrow> (Answer st body, (db1\<lparr>pg_records := idem_store c q h st body (pg_records db1)\<rparr>, x')))"
  using assms by (simp add: partner_serve_def)

text \<open>
  Once an answer is kept, a later request of the same client with the same key and body gets
  it again, and the handler does not run. Its path is not compared: the request may be meant for
  another operation or another application.
\<close>

theorem replay_returns_stored:
  assumes first: "canActivate sha hmac num now q db = (Inr c, db1)"
    "intercept sha (Some c) q (pg_records db1) = Run h" "handle c q x = (Inr (st, body), x1)"
    and fits: "truthy_str (pq_idempotencyKey q) = Some key" "length key \<le> 100" "length (pq_path q) \<le> 100"
    and s1: "partner_serve sha hmac num handle now q (db, x) = (resp, (db2, x1))"
    and second: "canActivate sha hmac num later q' db2 = (Inr c, db3)"
    "pq_idempotencyKey q' = pq_idempotencyKey q" "pq_rawBody q' = pq_rawBody q"
    "to_upper (pq_method q') \<in> {''POST'', ''PUT'', ''PATCH''}"
  shows "resp = Answer st body \<and> partner_serve sha hmac num handle later q' (db2, x1) = (Answer st body, (db3, x1))"
proof -
  from s1 first have db2: "resp = Answer st body" "pg_records db2 = idem_store c q h st body (pg_records db1)"
    by (auto simp: partner_serve_Run)
  from second(1) have db3: "pg_records db3 = pg_records db2" by (auto simp: canActivate_Inr)
  from first(2) fits(1) have none: "idem_lookup (pc_id c) key (pg_records db1) = None"
    and h: "h = sha (case pq_rawBody q of Some b \<Rightarrow> b | None \<Rightarrow> [])" by (auto simp only: intercept_Run option.inject)
  have "intercept sha (Some c) q' (pg_records db3) = Replayed st body"
    using intercept_Replayed [OF second(4), of key c "pg_records db3" _ sha] idem_lookup_store [OF fits none, of h st body]
    unfolding db3 db2(2) second(2,3) by (simp add: fits(1) h)
  with second(1) db2(1) show ?thesis by (simp add: partner_serve_def)
qed

text \<open>An answer that is an error is not kept: the records stay as they are and a retry runs the handler again.\<close>

theorem failure_not_kept:
  assumes "partner_serve sha hmac num handle now q (db, x) = (Failure e, (db2, x2))"
  shows "pg_records db2 = pg_records db"
proof -
  obtain r db1 where r: "canActivate sha hmac num now q db = (r, db1)" by (cases "canActivate sha hmac num now q db")
  have "pg_records (snd (canActivate sha hmac num now q db)) = pg_records db"
    by (simp add: canActivate_def guard_finish_def split: option.split sum.split)
  with r have "pg_records db1 = pg_records db" by simp
  with assms r show ?thesis
    by (cases r) (auto simp: partner_serve_def split: idem_outcome.splits prod.splits sum.splits)
qed

text \<open>
  A key longer than its column does not protect: the answer cannot be kept, which is only
  logged, and the next request with that key runs the handler again.
\<close>

theorem long_key_runs_again:
  assumes "truthy_str (pq_idempotencyKey q) = Some key" and "100 < length key"
    and "intercept sha (Some c) q rs = Run h"
  shows "intercept sha (Some c) q (idem_store c q h st body rs) = Run h"
  using assms by (simp add: idem_store_def)

text \<open>
  The key is looked up before the handler runs and written after it: of two requests under way
  with one key and body both run the handler, and the second answer is dropped.
\<close>

theorem parallel_requests_both_run:
  assumes "intercept sha (Some c) q rs = Run h" and "pq_idempotencyKey q' = pq_idempotencyKey q"
    and "pq_rawBody q' = pq_rawBody q" and "to_upper (pq_method q') \<in> {''POST'', ''PUT'', ''PATCH''}"
    and "pq_idempotencyKey q = Some key" and "length key \<le> 100" and "length (pq_path q) \<le> 100"
  shows "intercept sha (Some c) q' rs = Run h
    \<and> idem_store c q' h st' body' (idem_store c q h st body rs) = idem_store c q h st body rs"
proof -
  from assms(1,5) have k: "truthy_str (pq_idempotencyKey q) = Some key" "idem_lookup (pc_id c) key rs = None"
    by (auto simp: intercept_Run truthy_str_Some)
  from idem_lookup_store [OF k(1) assms(6,7) k(2), of h st body]
  have "idem_store c q' h st' body' (idem_store c q h st body rs) = idem_store c q h st body rs"
    using k(1) assms(2) by (simp add: idem_store_def [of c q'])
  with assms(1-4) k show ?thesis by (simp add: intercept_Run)
qed

section \<open>The table of partners\<close>

lemma code_char_id: "code_char (code_char c) = code_char c"
  by (simp add: code_char_def)

lemma code_char_plain:
  "upper_char (code_char c) = code_char c" "\<not> is_space (code_char c)"
  by (auto simp: code_char_def upper_char_def is_lower_def is_upper_def is_digit_def is_space_def)

lemma dropWhile_id: "\<forall>c\<in>set s. \<not> P c \<Longrightarrow> dropWhile P s = s"
  by (cases s) simp_all

lemma trim_str_id: "\<forall>c\<in>set s. \<not> is_space c \<Longrightarrow> trim_str s = s"
  by (simp add: trim_str_def dropWhile_id)

lemma clean_code_stable: "clean_code (clean_code s) = clean_code s"
  by (simp add: clean_code_def trim_str_id code_char_plain to_upper_def code_char_id o_def)

definition partners_ok :: "partner_client list \<Rightarrow> bool" where
  "partners_ok cs \<longleftrightarrow>
     unique_keys pc_id cs \<and> unique_keys pc_code cs \<and> unique_keys pc_clientId cs
     \<and> (\<forall>c\<in>set cs. clean_code (pc_code c) = pc_code c)"

text \<open>A sequence of changes, each of which succeeds.\<close>

fun list_run :: "('a \<Rightarrow> 't \<Rightarrow> http_error + 'r \<times> 't) \<Rightarrow> 'a list \<Rightarrow> 't \<Rightarrow> http_error + 't" where
  "list_run f [] t = Inr t"
| "list_run f (a # as) t = (case f a t of Inl e \<Rightarrow> Inl e | Inr (_, t') \<Rightarrow> list_run f as t')"

text \<open>Every change but the first kind updates one row and keeps its identifiers and its webhook secret.\<close>

definition keeps_identity :: "(partner_client \<Rightarrow> partner_client) \<Rightarrow> bool" where
  "keeps_identity f \<longleftrightarrow> (\<forall>c. pc_id (f c) = pc_id c \<and> pc_code (f c) = pc_code c
     \<and> pc_clientId (f c) = pc_clientId c \<and> pc_webhookSecret (f c) = pc_webhookSecret c)"

lemma change_partner_Inr:
  "change_partner i f cs = Inr (c', cs') \<longleftrightarrow>
     (\<exists>c. find_unique pc_id i cs = Some c \<and> c' = f c \<and> cs' = update_many (\<lambda>r. pc_id r = i) f cs)"
  by (auto simp: change_partner_def update_one_Inr split: option.splits)

lemma admin_run_cases:
  assumes "admin_run a cs = Inr (c, cs')"
  obtains (create) fr dto where "a = Create_partner fr dto" "createPartner fr dto cs = Inr (c, cs')"
  | (change) i f where "keeps_identity f" "change_partner i f cs = Inr (c, cs')"
proof (cases a)
  case (Create_partner fr dto)
  with assms create show ?thesis by simp
next
  case (Update_partner i dto)
  with assms show ?thesis
    by (intro change [of "partner_changes dto" i]) (simp_all add: updatePartner_def keeps_identity_def partner_changes_def)
next
  case (Toggle_status i st)
  with assms show ?thesis
    by (intro change [of "\<lambda>c. c\<lparr>pc_status := st\<rparr>" i]) (simp_all add: toggleStatus_def keeps_identity_def)
next
  case (Rotate_secret i secret)
  with assms show ?thesis
    by (intro change [of "\<lambda>c. c\<lparr>pc_secret := secret\<rparr>" i]) (simp_all add: rotateSecret_def keeps_identity_def)
qed

lemma createPartner_Inr:
  "createPartner fr dto cs = Inr (c, cs') \<longleftrightarrow>
     clean_code (mp_code dto) \<notin> pc_code ` set cs \<and> cf_clientId fr \<notin> pc_clientId ` set cs \<and> cf_id fr \<notin> pc_id ` set cs
     \<and> c = new_partner fr dto \<and> cs' = cs @ [c]"
  by (auto simp: createPartner_def find_unique_None_iff)

lemma partner_codes_kept:
  assumes "partners_ok cs" and "admin_run a cs = Inr (c, cs')"
  shows "partners_ok cs'"
  using assms(2)
proof (cases rule: admin_run_cases)
  case (create fr dto)
  with assms(1) show ?thesis
    by (simp add: partners_ok_def createPartner_Inr new_partner_def clean_code_stable)
next
  case (change i f)
  then have cs': "cs' = update_many (\<lambda>r. pc_id r = i) f cs" by (auto simp: change_partner_Inr)
  have k: "pc_id (f r) = pc_id r" "pc_code (f r) = pc_code r" "pc_clientId (f r) = pc_clientId r" for r
    using change(1) by (simp_all add: keeps_identity_def)
  with assms(1) show ?thesis
    by (auto simp: partners_ok_def cs' unique_keys_update_many set_update_many)
qed

lemma secret_kept:
  assumes "partners_ok cs" and "admin_run a cs = Inr (c, cs')"
    and "find_unique pc_id i cs = Some p" and "pc_webhookSecret p = None"
  shows "\<exists>p'. find_unique pc_id i cs' = Some p' \<and> pc_webhookSecret p' = None"
  using assms(2)
proof (cases rule: admin_run_cases)
  case (create fr dto)
  with assms(3,4) show ?thesis by (auto simp: createPartner_Inr find_unique_append)
next
  case (change j f)
  then have cs': "cs' = update_many (\<lambda>r. pc_id r = j) f cs" by (auto simp: change_partner_Inr)
  have k: "pc_id (f r) = pc_id r" "pc_webhookSecret (f r) = pc_webhookSecret r" for r
    using change(1) by (simp_all add: keeps_identity_def)
  with assms(3,4) show ?thesis by (simp add: cs' find_unique_update_many)
qed

text \<open>
  Whatever the administrators do, no two partners share an identifier, a client id or a code,
  and every code is written in upper-case letters, digits, hyphens and underscores.
\<close>

theorem partner_codes_unique:
  assumes "partners_ok cs" and "list_run admin_run as cs = Inr cs'"
  shows "partners_ok cs'"
  using assms
proof (induction as arbitrary: cs)
  case (Cons a as)
  then obtain c cs1 where "admin_run a cs = Inr (c, cs1)" "list_run admin_run as cs1 = Inr cs'"
    by (auto split: sum.splits)
  with Cons.IH partner_codes_kept [OF Cons.prems(1)] show ?case by blast
qed simp

text \<open>
  The secret for webhooks is chosen when the partner is created and never again: a partner
  created without a webhook address has none whatever is updated later, an address included.
\<close>

theorem webhook_secret_never_set:
  assumes "partners_ok cs" and "list_run admin_run as cs = Inr cs'"
    and "find_unique pc_id i cs = Some p" and "pc_webhookSecret p = None"
  shows "\<exists>p'. find_unique pc_id i cs' = Some p' \<and> pc_webhookSecret p' = None"
  using assms
proof (induction as arbitrary: cs p)
  case (Cons a as)
  then obtain c cs1 where a: "admin_run a cs = Inr (c, cs1)" "list_run admin_run as cs1 = Inr cs'"
    by (auto split: sum.splits)
  from secret_kept [OF Cons.prems(1) a(1) Cons.prems(3,4)]
  obtain p' where "find_unique pc_id i cs1 = Some p'" "pc_webhookSecret p' = None" by blast
  with Cons.IH [OF partner_codes_kept [OF Cons.prems(1) a(1)] a(2)] show ?case by blast
qed simp

text \<open>After a rotation a request of that partner is let through only if it is signed with the new secret.\<close>

theorem rotation_ends_old_secret:
  assumes "partners_ok (pg_clients db)" and "rotateSecret i secret (pg_clients db) = Inr (p, cs)"
    and "canActivate sha hmac num now q (db\<lparr>pg_clients := cs\<rparr>) = (Inr c, db')" and "pc_id c = i"
  shows "\<exists>cr. auth_headers q = Some cr \<and> hex_bytes (cr_signature cr) = hex_bytes (hmac secret (signing_string sha cr q))"
proof -
  let ?f = "\<lambda>c. c\<lparr>pc_secret := secret\<rparr>"
  from assms(2) have cs: "cs = update_many (\<lambda>r. pc_id r = i) ?f (pg_clients db)"
    by (auto simp: rotateSecret_def change_partner_Inr)
  from assms(3) obtain cr where cr: "auth_headers q = Some cr" "signature_ok sha hmac c cr q"
    and "find_unique pc_clientId (cr_clientId cr) cs = Some c" by (auto simp: canActivate_Inr guard_read_Inr)
  then have "c \<in> set cs" by (auto dest: find_unique_Some_D)
  then have "pc_secret c = secret" unfolding cs
    by (rule update_many_obtain) (use assms(4) in auto)
  with cr show ?thesis by (auto simp: signature_ok_def)
qed

section \<open>Concrete runs\<close>

definition demo_sha :: "string \<Rightarrow> string" where
  "demo_sha m = ''00''"

definition demo_hmac :: "string \<Rightarrow> string \<Rightarrow> string" where
  "demo_hmac k m = (if k = ''s3cret'' then ''ab01'' else ''cd02'')"

definition demo_num :: "string \<Rightarrow> rat option" where
  "demo_num s = None"

definition demo_agency :: partner_client where
  "demo_agency = \<lparr>pc_id = ''c1'', pc_code = ''AGENCY_1'', pc_name = ''Agency'', pc_clientId = ''ptn_1'', pc_secret = ''s3cret'',
     pc_authType = ''CAMPAIGN_LINK'', pc_allowedIps = Some ''10.0.0.1, 10.0.0.2'', pc_webhookUrl = None,
     pc_webhookSecret = None, pc_status = PC_ACTIVE\<rparr>"

definition demo_request :: partner_request where
  "demo_request = \<lparr>pq_method = ''POST'', pq_path = ''/api/partner/v1/applications'', pq_clientId = Some ''ptn_1'',
     pq_timestamp = Some ''1000'', pq_nonce = Some ''n1'', pq_signature = Some ''AB01'', pq_idempotencyKey = Some ''k1'',
     pq_forwardedFor = None, pq_remote = Some ''10.0.0.1'', pq_rawBody = Some ''{}''\<rparr>"

definition demo_credentials :: credentials where
  "demo_credentials = \<lparr>cr_clientId = ''ptn_1'', cr_timestamp = ''1000'', cr_nonce = ''n1'', cr_signature = ''AB01''\<rparr>"

definition demo_nonce :: partner_nonce where
  "demo_nonce = \<lparr>pn_clientId = ''c1'', pn_nonce = ''n1'', pn_expiresAt = 601000\<rparr>"

definition demo_access :: access_db where
  "demo_access = \<lparr>pg_clients = [demo_agency], pg_nonces = [], pg_records = []\<rparr>"

lemmas demo_access_defs =
  demo_sha_def demo_hmac_def demo_num_def demo_partner_def demo_request_def demo_credentials_def demo_nonce_def demo_access_def

lemma demo_guard:
  "auth_headers demo_request = Some demo_credentials"
  "guard_read demo_num 1000 demo_credentials demo_request (pg_clients demo_access) = Inr demo_agency"
  "guard_finish demo_sha demo_hmac 1000 demo_agency demo_credentials demo_request demo_access
   = (Inr demo_agency, demo_access\<lparr>pg_nonces := [demo_nonce]\<rparr>)"
  "guard_finish demo_sha demo_hmac 1000 demo_agency demo_credentials demo_request (demo_access\<lparr>pg_nonces := [demo_nonce]\<rparr>)
   = (Inl (Unauthorized ''PARTNER_AUTH_NONCE_REPLAYED''), demo_access\<lparr>pg_nonces := [demo_nonce]\<rparr>)"
  by code_simp+

lemma demo_activates:
  "canActivate demo_sha demo_hmac demo_num 1000 demo_request demo_access = (Inr demo_agency, demo_access\<lparr>pg_nonces := [demo_nonce]\<rparr>)"
  by (simp add: canActivate_def demo_guard)

lemma timestamp_window_witness:
  "timestamp_fresh demo_num 400000 (show_int 100000) \<and> \<not> timestamp_fresh demo_num 400001 (show_int 100000)"
  using timestamp_window [of 100000 400000 demo_num] timestamp_window [of 100000 400001 demo_num] by simp

lemma nonce_accepted_once_witness:
  "\<exists>s. (guard_step demo_sha demo_hmac demo_num)\<^sup>*\<^sup>* \<lparr>gs_db = demo_access, gs_pending = [], gs_accepted = []\<rparr> s
     \<and> length (gs_accepted s) = 1 \<and> gs_pending s = [] \<and> distinct (map nonce_key (gs_accepted s))
     \<and> (\<forall>g\<in>set (gs_accepted s). entered g \<and> signed demo_sha demo_hmac g)"
proof -
  let ?step = "guard_step demo_sha demo_hmac demo_num"
  let ?g = "(demo_agency, demo_credentials, demo_request)"
  let ?s0 = "\<lparr>gs_db = demo_access, gs_pending = [], gs_accepted = []\<rparr>"
  let ?s1 = "\<lparr>gs_db = demo_access, gs_pending = [?g], gs_accepted = []\<rparr>"
  let ?s2 = "\<lparr>gs_db = demo_access, gs_pending = [?g, ?g], gs_accepted = []\<rparr>"
  let ?s3 = "\<lparr>gs_db = demo_access\<lparr>pg_nonces := [demo_nonce]\<rparr>, gs_pending = [?g], gs_accepted = [?g]\<rparr>"
  let ?s4 = "\<lparr>gs_db = demo_access\<lparr>pg_nonces := [demo_nonce]\<rparr>, gs_pending = [], gs_accepted = [?g]\<rparr>"
  have "?step ?s0 ?s1" using enter [OF demo_guard(1), of demo_num 1000 ?s0] demo_guard(2) by simp
  moreover have "?step ?s1 ?s2" using enter [OF demo_guard(1), of demo_num 1000 ?s1] demo_guard(2) by simp
  moreover have "?step ?s2 ?s3"
    using leave [where num = demo_num and sha = demo_sha and hmac = demo_hmac and now = 1000 and c = demo_agency and cr = demo_credentials and q = demo_request
      and s = ?s2 and r = "Inr demo_agency"] demo_guard(3) by simp
  moreover have "?step ?s3 ?s4"
    using leave [where num = demo_num and sha = demo_sha and hmac = demo_hmac and now = 1000 and c = demo_agency and cr = demo_credentials and q = demo_request
      and s = ?s3 and r = "Inl (Unauthorized ''PARTNER_AUTH_NONCE_REPLAYED'')"] demo_guard(4) by simp
  ultimately have run: "?step\<^sup>*\<^sup>* ?s0 ?s4" by (meson rtranclp.rtrancl_into_rtrancl rtranclp.rtrancl_refl)
  from run nonce_accepted_once [OF run] show ?thesis by (intro exI [of _ ?s4]) simp
qed

definition demo_forged :: partner_request where
  "demo_forged = demo_request\<lparr>pq_signature := Some ''00'', pq_rawBody := None\<rparr>"

lemma demo_forgery: "isl (fst (canActivate demo_sha demo_hmac demo_num 1000 demo_forged demo_access))"
  by code_simp

lemma forgery_spends_nonce_witness:
  "fst (canActivate demo_sha demo_hmac demo_num 1000 demo_request
      (snd (canActivate demo_sha demo_hmac demo_num 1000 demo_forged demo_access)))
   = Inl (Unauthorized ''PARTNER_AUTH_NONCE_REPLAYED'')"
proof -
  have "fst (canActivate demo_sha demo_hmac demo_num 1000 demo_forged demo_access) \<noteq> Inr demo_agency"
    using demo_forgery by (cases "fst (canActivate demo_sha demo_hmac demo_num 1000 demo_forged demo_access)") auto
  from forgery_spends_nonce [OF demo_activates demo_forged_def _ this] show ?thesis by simp
qed

lemma address_list_by_header_witness:
  "ip_allowed demo_agency (demo_request\<lparr>pq_forwardedFor := Some ''10.0.0.1, 10.0.0.2'', pq_remote := Some ''203.0.113.9''\<rparr>)"
proof -
  have "pc_allowedIps demo_agency = Some ''10.0.0.1, 10.0.0.2''" by (simp add: demo_agency_def)
  moreover have "trim_str (hd (split_on (CHR '','') ''10.0.0.1, 10.0.0.2'')) \<noteq> []" by code_simp
  ultimately show ?thesis by (rule address_list_by_header)
qed

text \<open>A handler that counts its runs, and a retry of the first request with a new nonce.\<close>

definition demo_handle :: "partner_client \<Rightarrow> partner_request \<Rightarrow> nat \<Rightarrow> (http_error + int \<times> string) \<times> nat" where
  "demo_handle c q n = (Inr (202, ''{status: FINAL_APPROVAL_PENDING}''), Suc n)"

definition demo_retry :: partner_request where
  "demo_retry = demo_request\<lparr>pq_nonce := Some ''n2'', pq_path := ''/api/partner/v1/applications/other/final-approval''\<rparr>"

definition demo_served :: access_db where
  "demo_served = demo_access\<lparr>pg_nonces := [demo_nonce],
     pg_records := [\<lparr>ir_clientId = ''c1'', ir_key = ''k1'', ir_endpoint = ''/api/partner/v1/applications'', ir_hash = ''00'',
       ir_status = 202, ir_body = ''{status: FINAL_APPROVAL_PENDING}''\<rparr>]\<rparr>"

lemma demo_serves:
  "intercept demo_sha (Some demo_agency) demo_request (pg_records (demo_access\<lparr>pg_nonces := [demo_nonce]\<rparr>)) = Run ''00''"
  "partner_serve demo_sha demo_hmac demo_num demo_handle 1000 demo_request (demo_access, 0)
   = (Answer 202 ''{status: FINAL_APPROVAL_PENDING}'', (demo_served, 1))"
  "canActivate demo_sha demo_hmac demo_num 2000 demo_retry demo_served
   = (Inr demo_agency, demo_served\<lparr>pg_nonces := [demo_nonce, demo_nonce\<lparr>pn_nonce := ''n2'', pn_expiresAt := 602000\<rparr>]\<rparr>)"
  by code_simp+

lemma replay_returns_stored_witness:
  "fst (partner_serve demo_sha demo_hmac demo_num demo_handle 2000 demo_retry (demo_served, 1))
     = Answer 202 ''{status: FINAL_APPROVAL_PENDING}''
   \<and> snd (snd (partner_serve demo_sha demo_hmac demo_num demo_handle 2000 demo_retry (demo_served, 1))) = 1"
  using replay_returns_stored [OF demo_activates demo_serves(1) _ _ _ _ demo_serves(2) demo_serves(3), of _ _ "''k1''"]
  by (simp add: demo_handle_def demo_request_def demo_retry_def truthy_str_def to_upper_def upper_char_def is_lower_def)

definition demo_failing :: "partner_client \<Rightarrow> partner_request \<Rightarrow> nat \<Rightarrow> (http_error + int \<times> string) \<times> nat" where
  "demo_failing c q n = (Inl (Conflict ''PARTNER_STATE_TERMINAL''), n)"

lemma failure_not_kept_witness:
  "pg_records (fst (snd (partner_serve demo_sha demo_hmac demo_num demo_failing 1000 demo_request (demo_access, 0)))) = []"
proof -
  have f: "fst (partner_serve demo_sha demo_hmac demo_num demo_failing 1000 demo_request (demo_access, 0))
    = Failure (Conflict ''PARTNER_STATE_TERMINAL'')" by code_simp
  let ?r = "partner_serve demo_sha demo_hmac demo_num demo_failing 1000 demo_request (demo_access, 0)"
  obtain a db x where r: "?r = (a, (db, x))" by (cases ?r) auto
  with f have "?r = (Failure (Conflict ''PARTNER_STATE_TERMINAL''), (db, x))" by simp
  from failure_not_kept [OF this] r show ?thesis by (simp add: demo_access_def)
qed

lemma long_key_runs_again_witness:
  "let q = demo_request\<lparr>pq_idempotencyKey := Some (replicate 101 (CHR ''k''))\<rparr> in
   intercept demo_sha (Some demo_agency) q (idem_store demo_agency q ''00'' 201 ''{}'' []) = Run ''00''"
  using long_key_runs_again [of "demo_request\<lparr>pq_idempotencyKey := Some (replicate 101 (CHR ''k''))\<rparr>"
      "replicate 101 (CHR ''k'')" demo_sha demo_agency "[]" "''00''" 201 "''{}''"]
  by (simp add: truthy_str_def intercept_Run demo_request_def demo_sha_def idem_lookup_def to_upper_def upper_char_def is_lower_def
      split: list.split)

lemma parallel_requests_both_run_witness:
  "intercept demo_sha (Some demo_agency) demo_retry [] = Run ''00''
   \<and> length (idem_store demo_agency demo_retry ''00'' 202 ''b'' (idem_store demo_agency demo_request ''00'' 201 ''a'' [])) = 1"
proof -
  have "intercept demo_sha (Some demo_agency) demo_request [] = Run ''00''" by code_simp
  from parallel_requests_both_run [OF this, of demo_retry "''k1''" 202 "''b''" 201 "''a''"] show ?thesis
    by (simp add: demo_retry_def demo_request_def to_upper_def upper_char_def is_lower_def idem_store_def truthy_str_def
        idem_lookup_def)
qed

definition demo_create :: create_marketing_partner where
  "demo_create = \<lparr>mp_name = '' Second '', mp_code = '' second agency'', mp_authType = None, mp_allowedIps = None,
     mp_webhookUrl = None, mp_status = None\<rparr>"

definition demo_client_fresh :: client_fresh where
  "demo_client_fresh = \<lparr>cf_id = ''c2'', cf_clientId = ''ptn_2'', cf_secret = ''x'', cf_webhookSecret = ''w''\<rparr>"

definition demo_second :: partner_client where
  "demo_second = \<lparr>pc_id = ''c2'', pc_code = ''SECOND_AGENCY'', pc_name = ''Second'', pc_clientId = ''ptn_2'', pc_secret = ''x'',
     pc_authType = ''CAMPAIGN_LINK'', pc_allowedIps = None, pc_webhookUrl = None, pc_webhookSecret = None, pc_status = PC_ACTIVE\<rparr>"

lemma demo_partners_ok: "partners_ok [demo_agency]"
  by code_simp

lemma partner_codes_unique_witness: "partners_ok [demo_agency, demo_second]"
proof -
  have "list_run admin_run [Create_partner demo_client_fresh demo_create] [demo_agency] = Inr [demo_agency, demo_second]"
    by code_simp
  from partner_codes_unique [OF demo_partners_ok this] show ?thesis .
qed

definition demo_hook :: update_marketing_partner where
  "demo_hook = \<lparr>up_name = None, up_authType = None, up_allowedIps = None, up_webhookUrl = Some (Some ''https://p''), up_status = None\<rparr>"

lemma demo_agency_keys [simp]: "pc_id demo_agency = ''c1''" "pc_webhookSecret demo_agency = None"
  by (simp_all add: demo_agency_def)

lemma webhook_secret_never_set_witness:
  "\<exists>p'. find_unique pc_id ''c1'' [demo_agency\<lparr>pc_webhookUrl := Some ''https://p''\<rparr>] = Some p' \<and> pc_webhookSecret p' = None"
proof -
  have run: "list_run admin_run [Update_partner ''c1'' demo_hook] [demo_agency]
    = Inr [demo_agency\<lparr>pc_webhookUrl := Some ''https://p''\<rparr>]"
    by code_simp
  have "find_unique pc_id ''c1'' [demo_agency] = Some demo_agency" by simp
  from webhook_secret_never_set [OF demo_partners_ok run this] show ?thesis by simp
qed

lemma rotation_ends_old_secret_witness:
  "\<exists>cr. auth_headers (demo_request\<lparr>pq_signature := Some ''cd02''\<rparr>) = Some cr
     \<and> hex_bytes (cr_signature cr) = hex_bytes (demo_hmac ''new'' (signing_string demo_sha cr (demo_request\<lparr>pq_signature := Some ''cd02''\<rparr>)))"
proof -
  let ?c = "demo_agency\<lparr>pc_secret := ''new''\<rparr>"
  have r: "rotateSecret ''c1'' ''new'' (pg_clients demo_access) = Inr (?c, [?c])" by code_simp
  have o: "partners_ok (pg_clients demo_access)" by code_simp
  have "canActivate demo_sha demo_hmac demo_num 1000 (demo_request\<lparr>pq_signature := Some ''cd02''\<rparr>)
      (demo_access\<lparr>pg_clients := [?c]\<rparr>) = (Inr ?c, demo_access\<lparr>pg_clients := [?c], pg_nonces := [demo_nonce]\<rparr>)" by code_simp
  from rotation_ends_old_secret [OF o r this] show ?thesis by simp
qed

end
