(* ===== verification/PartnerFlow.thy ===== *)
theory PartnerFlow
  imports Applications
begin

text \<open>
  The journey of a partner's application (partner-application.service.ts, partner-api.constants.ts).
  Theory Applications has its creation and the row; here are the steps that follow, from the
  consents to the request for the disbursal, and the two that record a decision.

  A handler reads the application, checks, and writes in a transaction of its own, so between the
  check and the write other requests may run. The bodies of snapshots are their JSON text, dates are
  parsed, and of an onboarding only the presence of its three parts is looked at.
\<close>

section \<open>Data\<close>

datatype partner_error =
    PartnerError string int  \<comment> \<open>code, status\<close>
  | PartnerDb string  \<comment> \<open>an error of the database client, by its code or class\<close>

record partner_consent =
  co_app :: ident
  co_reference :: string
  co_type :: string
  co_template :: string
  co_version :: string
  co_textHash :: string
  co_acceptedAt :: time
  co_ip :: string
  co_userAgentHash :: string

record consent_item =
  cn_template :: string
  cn_version :: string
  cn_textHash :: string
  cn_type :: string
  cn_reference :: string
  cn_acceptedAt :: time
  cn_ip :: string
  cn_userAgentHash :: string

record partner_snapshot =
  sn_app :: ident
  sn_data :: string
  sn_completeAt :: time

record partner_decision =
  dn_app :: ident
  dn_type :: string
  dn_outcome :: string
  dn_reference :: string
  dn_at :: time
  dn_reason :: "string option"
  dn_coolingOffDays :: "int option"
  dn_nextCheckAt :: "time option"
  dn_offer :: "string option"

record partner_mandate =
  ma_app :: ident
  ma_provider :: string
  ma_reference :: string
  ma_umrn :: string
  ma_status :: string
  ma_authorizedAt :: time

record partner_disbursement =
  di_app :: ident
  di_reference :: string
  di_status :: string
  di_requestedAt :: time

text \<open>The columns of customer and application that only these steps touch.\<close>

record customer_detail =
  dt_dateOfBirth :: "time option"
  dt_gender :: "string option"
  dt_pan :: "string option"
  dt_panVerified :: bool

record flow_db =
  fl_app :: app_db
  fl_consents :: "partner_consent list"
  fl_profiles :: "partner_snapshot list"
  fl_decisions :: "partner_decision list"
  fl_onboardings :: "partner_snapshot list"
  fl_mandates :: "partner_mandate list"
  fl_disbursements :: "partner_disbursement list"
  fl_details :: "int \<Rightarrow> customer_detail"
  fl_requested :: "int \<Rightarrow> rat option \<times> int option"  \<comment> \<open>amount, months\<close>

record profile_dto =
  pr_firstName :: "string option"
  pr_lastName :: "string option"
  pr_dateOfBirth :: "time option"
  pr_gender :: "string option"
  pr_addresses :: "string list option"
  pr_verification :: "(string \<times> bool) option"  \<comment> \<open>PAN, verified\<close>
  pr_json :: string

record onboarding_dto =
  ob_bank :: bool
  ob_esign :: bool
  ob_kfs :: bool
  ob_markComplete :: bool
  ob_json :: string

record mandate_dto =
  md_provider :: string
  md_reference :: string
  md_umrn :: string
  md_status :: string
  md_authorizedAt :: time

section \<open>The state machine\<close>

definition PARTNER_ALLOWED_TRANSITIONS :: "(string \<times> string list) list" where
  "PARTNER_ALLOWED_TRANSITIONS =
     [(''CREATED'', [''CONSENT_RECORDED'']),
      (''CONSENT_RECORDED'', [''PROFILE_COMPLETE'']),
      (''PROFILE_COMPLETE'', [''PRE_APPROVAL_PENDING'']),
      (''PRE_APPROVAL_PENDING'', [''PRE_APPROVED'', ''REJECTED'']),
      (''PRE_APPROVED'', [''ONBOARDING_IN_PROGRESS'', ''ONBOARDING_COMPLETE'']),
      (''ONBOARDING_IN_PROGRESS'', [''ONBOARDING_COMPLETE'']),
      (''ONBOARDING_COMPLETE'', [''FINAL_APPROVAL_PENDING'']),
      (''FINAL_APPROVAL_PENDING'', [''FINAL_APPROVED'', ''REJECTED'']),
      (''FINAL_APPROVED'', [''MANDATE_AUTHORIZED'']),
      (''MANDATE_AUTHORIZED'', [''DISBURSEMENT_PENDING'']),
      (''DISBURSEMENT_PENDING'', [''DISBURSED'', ''DISBURSEMENT_FAILED'']),
      (''DISBURSEMENT_FAILED'', [''DISBURSEMENT_PENDING'']),
      (''DISBURSED'', []),
      (''REJECTED'', []),
      (''CANCELLED'', [])]"

definition PARTNER_TERMINAL_STATES :: "string list" where
  "PARTNER_TERMINAL_STATES = [''DISBURSED'', ''REJECTED'', ''CANCELLED'']"

definition allowed_from :: "string \<Rightarrow> string list" where
  "allowed_from st = (case map_of PARTNER_ALLOWED_TRANSITIONS st of Some l \<Rightarrow> l | None \<Rightarrow> [])"

definition assertValidTransition :: "string \<Rightarrow> string \<Rightarrow> partner_error option" where
  "assertValidTransition current target =
     (if current \<in> set PARTNER_TERMINAL_STATES then Some (PartnerError ''PARTNER_STATE_TERMINAL'' 409)
      else if target \<notin> set (allowed_from current) then Some (PartnerError ''PARTNER_STATE_INVALID_TRANSITION'' 409)
      else None)"

definition partner_not_found :: partner_error where
  "partner_not_found = PartnerError ''PARTNER_APPLICATION_NOT_FOUND'' 404"

definition resolvePartnerApplication :: "string \<Rightarrow> ident \<Rightarrow> partner_app list \<Rightarrow> partner_error + partner_app" where
  "resolvePartnerApplication pid client apps =
     (case find_unique pp_partnerApplicationId pid apps of
        None \<Rightarrow> Inl partner_not_found
      | Some a \<Rightarrow> if pp_clientId a \<noteq> client then Inl partner_not_found else Inr a)"

section \<open>The checks of each step\<close>

text \<open>A check lets the write go on, refuses, or answers at once with what is there.\<close>

datatype partner_check = Go | Refuse partner_error | Already

definition of_transition :: "string \<Rightarrow> string \<Rightarrow> partner_check \<Rightarrow> partner_check" where
  "of_transition current target k = (case assertValidTransition current target of Some e \<Rightarrow> Refuse e | None \<Rightarrow> k)"

definition missing_part :: partner_check where
  "missing_part = Refuse (PartnerError ''PARTNER_PROFILE_VALIDATION_FAILED'' 422)"

definition recordConsents_check :: "partner_app \<Rightarrow> partner_check" where
  "recordConsents_check a = of_transition (pp_status a) ''CONSENT_RECORDED'' Go"

definition updateProfile_check :: "profile_dto \<Rightarrow> partner_app \<Rightarrow> partner_check" where
  "updateProfile_check dto a = of_transition (pp_status a) ''PROFILE_COMPLETE''
     (if truthy_str (map_option fst (pr_verification dto)) = None then missing_part
      else case pr_addresses dto of None \<Rightarrow> missing_part | Some l \<Rightarrow> if length l < 1 then missing_part else Go)"

definition requestPreApproval_check :: "partner_app \<Rightarrow> partner_check" where
  "requestPreApproval_check a = of_transition (pp_status a) ''PRE_APPROVAL_PENDING'' Go"

definition updateOnboarding_check :: "onboarding_dto \<Rightarrow> partner_app \<Rightarrow> partner_check" where
  "updateOnboarding_check dto a =
     (if pp_status a \<notin> {''PRE_APPROVED'', ''ONBOARDING_IN_PROGRESS'', ''ONBOARDING_COMPLETE''}
      then Refuse (PartnerError ''PARTNER_DECISION_PRE_APPROVAL_REQUIRED'' 409)
      else if ob_markComplete dto \<and> \<not> ob_bank dto then missing_part
      else if ob_markComplete dto \<and> \<not> ob_esign dto then missing_part
      else if ob_markComplete dto \<and> \<not> ob_kfs dto then missing_part
      else Go)"

definition requestFinalApproval_check :: "partner_snapshot list \<Rightarrow> partner_app \<Rightarrow> partner_check" where
  "requestFinalApproval_check onboardings a = of_transition (pp_status a) ''FINAL_APPROVAL_PENDING''
     (case find_unique sn_app (pp_id a) onboardings of
        None \<Rightarrow> Refuse (PartnerError ''PARTNER_ONBOARDING_REQUIRED'' 409)
      | Some s \<Rightarrow> if sn_completeAt s = 0 then Refuse (PartnerError ''PARTNER_ONBOARDING_REQUIRED'' 409) else Go)"

definition authorizeMandate_check :: "partner_mandate list \<Rightarrow> partner_app \<Rightarrow> partner_check" where
  "authorizeMandate_check mandates a = of_transition (pp_status a) ''MANDATE_AUTHORIZED''
     (case find_unique ma_app (pp_id a) mandates of
        None \<Rightarrow> Go
      | Some m \<Rightarrow> if ma_status m = ''AUTHORIZED'' then Refuse (PartnerError ''PARTNER_MANDATE_ALREADY_AUTHORIZED'' 409) else Go)"

definition requestDisbursement_check ::
  "string \<Rightarrow> partner_mandate list \<Rightarrow> partner_disbursement list \<Rightarrow> partner_app \<Rightarrow> partner_check" where
  "requestDisbursement_check reference mandates disbursements a = of_transition (pp_status a) ''DISBURSEMENT_PENDING''
     (case find_unique ma_app (pp_id a) mandates of
        None \<Rightarrow> Refuse (PartnerError ''PARTNER_MANDATE_REQUIRED'' 409)
      | Some _ \<Rightarrow>
          (case find_unique di_reference reference disbursements of
             None \<Rightarrow> Go
           | Some d \<Rightarrow> if di_app d \<noteq> pp_id a then Refuse (PartnerError ''PARTNER_DISBURSEMENT_DUPLICATE'' 409) else Already))"

section \<open>The writes of each step\<close>

text \<open>The end of every transaction: the new status, the event for the partner.\<close>

definition partner_finish ::
  "ident \<Rightarrow> partner_app \<Rightarrow> string \<Rightarrow> string \<Rightarrow> flow_db \<Rightarrow> partner_error + partner_app \<times> flow_db" where
  "partner_finish client a status event db =
     (case update_one pp_id (pp_id a) (\<lambda>_. True) (\<lambda>r. r\<lparr>pp_status := status\<rparr>) (ab_partnerApps (fl_app db)) of
        Inl _ \<Rightarrow> Inl (PartnerDb ''P2025'')
      | Inr (r, apps) \<Rightarrow>
          Inr (r, db\<lparr>fl_app := (fl_app db)\<lparr>ab_partnerApps := apps,
                 ab_partnerEvents := ab_partnerEvents (fl_app db) @ [(client, pp_id a, event)]\<rparr>\<rparr>))"

definition new_consent :: "ident \<Rightarrow> consent_item \<Rightarrow> partner_consent" where
  "new_consent app i =
     \<lparr>co_app = app, co_reference = cn_reference i, co_type = cn_type i, co_template = cn_template i,
      co_version = cn_version i, co_textHash = cn_textHash i, co_acceptedAt = cn_acceptedAt i, co_ip = cn_ip i,
      co_userAgentHash = cn_userAgentHash i\<rparr>"

fun add_consents :: "ident \<Rightarrow> consent_item list \<Rightarrow> partner_consent list \<Rightarrow> partner_error + partner_consent list" where
  "add_consents app [] cs = Inr cs"
| "add_consents app (i # is) cs =
     (if \<exists>c\<in>set cs. co_app c = app \<and> co_type c = cn_type i then add_consents app is cs
      else if \<exists>c\<in>set cs. co_reference c = cn_reference i then Inl (PartnerDb ''P2002'')
      else add_consents app is (cs @ [new_consent app i]))"

definition recordConsents_write ::
  "ident \<Rightarrow> consent_item list \<Rightarrow> partner_app \<Rightarrow> flow_db \<Rightarrow> partner_error + partner_app \<times> flow_db" where
  "recordConsents_write client items a db =
     (case add_consents (pp_id a) items (fl_consents db) of
        Inl e \<Rightarrow> Inl e
      | Inr cs \<Rightarrow> partner_finish client a ''CONSENT_RECORDED'' ''CONSENT_RECORDED'' (db\<lparr>fl_consents := cs\<rparr>))"

definition upsert :: "('r \<Rightarrow> 'k) \<Rightarrow> 'r \<Rightarrow> 'r list \<Rightarrow> 'r list" where
  "upsert key r t = (if key r \<in> key ` set t then map (\<lambda>x. if key x = key r then r else x) t else t @ [r])"

definition profile_customer :: "profile_dto \<Rightarrow> customer_row \<Rightarrow> customer_row" where
  "profile_customer dto c =
     c\<lparr>cu_firstName := (case pr_firstName dto of Some n \<Rightarrow> Some n | None \<Rightarrow> cu_firstName c),
       cu_lastName := (case pr_lastName dto of Some n \<Rightarrow> Some n | None \<Rightarrow> cu_lastName c)\<rparr>"

definition profile_detail :: "profile_dto \<Rightarrow> customer_detail \<Rightarrow> customer_detail" where
  "profile_detail dto d =
     d\<lparr>dt_dateOfBirth := (case pr_dateOfBirth dto of Some t \<Rightarrow> Some t | None \<Rightarrow> dt_dateOfBirth d),
       dt_gender := (case truthy_str (pr_gender dto) of Some g \<Rightarrow> Some g | None \<Rightarrow> dt_gender d),
       dt_pan := (case truthy_str (map_option fst (pr_verification dto)) of Some p \<Rightarrow> Some p | None \<Rightarrow> dt_pan d),
       dt_panVerified := (case pr_verification dto of Some (_, v) \<Rightarrow> v | None \<Rightarrow> dt_panVerified d)\<rparr>"

text \<open>The column's type has three genders; another one is refused by the database client.\<close>

definition known_gender :: "string option \<Rightarrow> bool" where
  "known_gender g = (case truthy_str g of None \<Rightarrow> True | Some x \<Rightarrow> x \<in> {''MALE'', ''FEMALE'', ''OTHER''})"

definition updateProfile_write ::
  "time \<Rightarrow> ident \<Rightarrow> profile_dto \<Rightarrow> partner_app \<Rightarrow> flow_db \<Rightarrow> partner_error + partner_app \<times> flow_db" where
  "updateProfile_write now client dto a db =
     (if \<not> known_gender (pr_gender dto) then Inl (PartnerDb ''PrismaClientValidationError'')
      else case update_one cu_id (pp_customerId a) (\<lambda>_. True) (profile_customer dto) (ab_customers (fl_app db)) of
        Inl _ \<Rightarrow> Inl (PartnerDb ''P2025'')
      | Inr (_, customers) \<Rightarrow>
          partner_finish client a ''PROFILE_COMPLETE'' ''PROFILE_COMPLETE''
            (db\<lparr>fl_profiles := upsert sn_app \<lparr>sn_app = pp_id a, sn_data = pr_json dto, sn_completeAt = now\<rparr> (fl_profiles db),
                fl_app := (fl_app db)\<lparr>ab_customers := customers\<rparr>,
                fl_details := (fl_details db)(pp_customerId a := profile_detail dto (fl_details db (pp_customerId a)))\<rparr>))"

definition requestPreApproval_write ::
  "ident \<Rightarrow> rat option \<Rightarrow> int option \<Rightarrow> partner_app \<Rightarrow> flow_db \<Rightarrow> partner_error + partner_app \<times> flow_db" where
  "requestPreApproval_write client amount months a db =
     (if pp_plApplicationId a \<notin> pa_id ` set (ab_apps (fl_app db)) then Inl (PartnerDb ''P2025'')
      else
        let (amount0, months0) = fl_requested db (pp_plApplicationId a) in
        partner_finish client a ''PRE_APPROVAL_PENDING'' ''PRE_APPROVAL_REQUESTED''
          (db\<lparr>fl_requested := (fl_requested db)(pp_plApplicationId a :=
             (case amount of Some x \<Rightarrow> Some x | None \<Rightarrow> amount0,
              case months of Some m \<Rightarrow> if m \<noteq> 0 then Some m else months0 | None \<Rightarrow> months0))\<rparr>))"

definition updateOnboarding_write ::
  "time \<Rightarrow> ident \<Rightarrow> onboarding_dto \<Rightarrow> partner_app \<Rightarrow> flow_db \<Rightarrow> partner_error + partner_app \<times> flow_db" where
  "updateOnboarding_write now client dto a db =
     partner_finish client a (if ob_markComplete dto then ''ONBOARDING_COMPLETE'' else ''ONBOARDING_IN_PROGRESS'')
       (if ob_markComplete dto then ''ONBOARDING_COMPLETE'' else ''ONBOARDING_UPDATED'')
       (db\<lparr>fl_onboardings := upsert sn_app \<lparr>sn_app = pp_id a, sn_data = ob_json dto,
              sn_completeAt = (if ob_markComplete dto then now else 0)\<rparr> (fl_onboardings db)\<rparr>)"

definition requestFinalApproval_write ::
  "ident \<Rightarrow> partner_app \<Rightarrow> flow_db \<Rightarrow> partner_error + partner_app \<times> flow_db" where
  "requestFinalApproval_write client a db =
     partner_finish client a ''FINAL_APPROVAL_PENDING'' ''FINAL_APPROVAL_REQUESTED'' db"

definition authorizeMandate_write ::
  "ident \<Rightarrow> mandate_dto \<Rightarrow> partner_app \<Rightarrow> flow_db \<Rightarrow> partner_error + partner_app \<times> flow_db" where
  "authorizeMandate_write client dto a db =
     partner_finish client a ''MANDATE_AUTHORIZED'' ''MANDATE_AUTHORIZED''
       (db\<lparr>fl_mandates := upsert ma_app \<lparr>ma_app = pp_id a, ma_provider = md_provider dto, ma_reference = md_reference dto,
              ma_umrn = md_umrn dto, ma_status = md_status dto, ma_authorizedAt = md_authorizedAt dto\<rparr> (fl_mandates db)\<rparr>)"

definition requestDisbursement_write ::
  "time \<Rightarrow> ident \<Rightarrow> string \<Rightarrow> partner_app \<Rightarrow> flow_db \<Rightarrow> partner_error + partner_app \<times> flow_db" where
  "requestDisbursement_write now client reference a db =
     (if reference \<in> di_reference ` set (fl_disbursements db) then Inl (PartnerDb ''P2002'')
      else partner_finish client a ''DISBURSEMENT_PENDING'' ''DISBURSEMENT_REQUESTED''
        (db\<lparr>fl_disbursements := fl_disbursements db @
           [\<lparr>di_app = pp_id a, di_reference = reference, di_status = ''PENDING'', di_requestedAt = now\<rparr>]\<rparr>))"

section \<open>A request as a whole\<close>

datatype partner_op =
    Record_consents "consent_item list"
  | Update_profile profile_dto
  | Request_pre_approval "rat option" "int option"
  | Update_onboarding onboarding_dto
  | Request_final_approval
  | Authorize_mandate mandate_dto
  | Request_disbursement string

fun op_check :: "partner_op \<Rightarrow> flow_db \<Rightarrow> partner_app \<Rightarrow> partner_check" where
  "op_check (Record_consents items) db a = recordConsents_check a"
| "op_check (Update_profile dto) db a = updateProfile_check dto a"
| "op_check (Request_pre_approval amount months) db a = requestPreApproval_check a"
| "op_check (Update_onboarding dto) db a = updateOnboarding_check dto a"
| "op_check Request_final_approval db a = requestFinalApproval_check (fl_onboardings db) a"
| "op_check (Authorize_mandate dto) db a = authorizeMandate_check (fl_mandates db) a"
| "op_check (Request_disbursement reference) db a =
     requestDisbursement_check reference (fl_mandates db) (fl_disbursements db) a"

fun op_write :: "time \<Rightarrow> ident \<Rightarrow> partner_op \<Rightarrow> partner_app \<Rightarrow> flow_db \<Rightarrow> partner_error + partner_app \<times> flow_db" where
  "op_write now client (Record_consents items) a db = recordConsents_write client items a db"
| "op_write now client (Update_profile dto) a db = updateProfile_write now client dto a db"
| "op_write now client (Request_pre_approval amount months) a db = requestPreApproval_write client amount months a db"
| "op_write now client (Update_onboarding dto) a db = updateOnboarding_write now client dto a db"
| "op_write now client Request_final_approval a db = requestFinalApproval_write client a db"
| "op_write now client (Authorize_mandate dto) a db = authorizeMandate_write client dto a db"
| "op_write now client (Request_disbursement reference) a db = requestDisbursement_write now client reference a db"

text \<open>A request that runs alone; a transaction that fails leaves the tables as they were.\<close>

definition partner_request_run ::
  "time \<Rightarrow> ident \<Rightarrow> string \<Rightarrow> partner_op \<Rightarrow> flow_db \<Rightarrow> (partner_error + partner_app) \<times> flow_db" where
  "partner_request_run now client pid op db =
     (case resolvePartnerApplication pid client (ab_partnerApps (fl_app db)) of
        Inl e \<Rightarrow> (Inl e, db)
      | Inr a \<Rightarrow>
          (case op_check op db a of
             Refuse e \<Rightarrow> (Inl e, db)
           | Already \<Rightarrow> (Inr a, db)
           | Go \<Rightarrow> (case op_write now client op a db of Inl e \<Rightarrow> (Inl e, db) | Inr (r, db') \<Rightarrow> (Inr r, db'))))"

section \<open>Decisions\<close>

text \<open>In the update of a row an undefined value leaves the column as it is; an absent offer is written as null.\<close>

definition merge_decision :: "partner_decision \<Rightarrow> partner_decision \<Rightarrow> partner_decision" where
  "merge_decision d old =
     d\<lparr>dn_reason := (case dn_reason d of Some r \<Rightarrow> Some r | None \<Rightarrow> dn_reason old),
       dn_coolingOffDays := (case dn_coolingOffDays d of Some n \<Rightarrow> Some n | None \<Rightarrow> dn_coolingOffDays old),
       dn_nextCheckAt := (case dn_nextCheckAt d of Some t \<Rightarrow> Some t | None \<Rightarrow> dn_nextCheckAt old)\<rparr>"

definition decision_key :: "partner_decision \<Rightarrow> ident \<times> string" where
  "decision_key d = (dn_app d, dn_type d)"

definition upsert_decision :: "partner_decision \<Rightarrow> partner_decision list \<Rightarrow> partner_decision list" where
  "upsert_decision d t =
     (if decision_key d \<in> decision_key ` set t
      then map (\<lambda>x. if decision_key x = decision_key d then merge_decision d x else x) t else t @ [d])"

definition decide ::
  "partner_decision \<Rightarrow> string \<Rightarrow> string \<Rightarrow> flow_db \<Rightarrow> partner_error + flow_db" where
  "decide d status event db =
     (case find_unique pp_id (dn_app d) (ab_partnerApps (fl_app db)) of
        None \<Rightarrow> Inr db
      | Some a \<Rightarrow>
          (case partner_finish (pp_clientId a) a status event
             (db\<lparr>fl_decisions := upsert_decision d (fl_decisions db)\<rparr>) of
             Inl e \<Rightarrow> Inl e | Inr (_, db') \<Rightarrow> Inr db'))"

definition resolvePreApproval ::
  "time \<Rightarrow> ident \<Rightarrow> bool \<Rightarrow> string \<Rightarrow> string option \<Rightarrow> int option \<Rightarrow> string option \<Rightarrow> flow_db \<Rightarrow> partner_error + flow_db" where
  "resolvePreApproval now app approved reference reason coolingOffDays offer db =
     decide \<lparr>dn_app = app, dn_type = ''PRE_APPROVAL'', dn_outcome = (if approved then ''APPROVED'' else ''REJECTED''),
              dn_reference = reference, dn_at = now, dn_reason = reason, dn_coolingOffDays = coolingOffDays,
              dn_nextCheckAt = (case coolingOffDays of
                  Some n \<Rightarrow> if n \<noteq> 0 then Some (now + n * 86400 * 1000) else None | None \<Rightarrow> None),
              dn_offer = offer\<rparr>
       (if approved then ''PRE_APPROVED'' else ''REJECTED'')
       (if approved then ''PRE_APPROVAL_APPROVED'' else ''PRE_APPROVAL_REJECTED'') db"

definition resolveFinalApproval ::
  "time \<Rightarrow> ident \<Rightarrow> bool \<Rightarrow> string \<Rightarrow> string option \<Rightarrow> string option \<Rightarrow> flow_db \<Rightarrow> partner_error + flow_db" where
  "resolveFinalApproval now app approved reference reason offer db =
     decide \<lparr>dn_app = app, dn_type = ''FINAL_APPROVAL'', dn_outcome = (if approved then ''APPROVED'' else ''REJECTED''),
              dn_reference = reference, dn_at = now, dn_reason = reason, dn_coolingOffDays = None,
              dn_nextCheckAt = None, dn_offer = offer\<rparr>
       (if approved then ''FINAL_APPROVED'' else ''REJECTED'')
       (if approved then ''FINAL_APPROVAL_APPROVED'' else ''FINAL_APPROVAL_REJECTED'') db"

section \<open>The status for the partner\<close>

record detailed_status =
  ds_app :: partner_app
  ds_consents :: "(string \<times> time) list"
  ds_preApproval :: "partner_decision option"
  ds_finalApproval :: "partner_decision option"
  ds_mandate :: "partner_mandate option"
  ds_disbursement :: "partner_disbursement option"

definition buildDetailedStatusResponse :: "flow_db \<Rightarrow> partner_app \<Rightarrow> detailed_status" where
  "buildDetailedStatusResponse db a =
     (let i = pp_id a in
      \<lparr>ds_app = a,
       ds_consents = map (\<lambda>c. (co_type c, co_acceptedAt c)) (filter (\<lambda>c. co_app c = i) (fl_consents db)),
       ds_preApproval = find_unique decision_key (i, ''PRE_APPROVAL'') (fl_decisions db),
       ds_finalApproval = find_unique decision_key (i, ''FINAL_APPROVAL'') (fl_decisions db),
       ds_mandate = find_unique ma_app i (fl_mandates db),
       ds_disbursement = (case sort_key (\<lambda>d. - di_requestedAt d) (filter (\<lambda>d. di_app d = i) (fl_disbursements db)) of
           [] \<Rightarrow> None | d # _ \<Rightarrow> Some d)\<rparr>)"

definition getStatus :: "ident \<Rightarrow> string \<Rightarrow> flow_db \<Rightarrow> partner_error + detailed_status" where
  "getStatus client pid db =
     (case resolvePartnerApplication pid client (ab_partnerApps (fl_app db)) of
        Inl e \<Rightarrow> Inl e
      | Inr a \<Rightarrow> Inr (buildDetailedStatusResponse db a))"

section \<open>Checks and writes in general\<close>

text \<open>Where a step may start and where it leads.\<close>

fun op_from :: "partner_op \<Rightarrow> string set" where
  "op_from (Record_consents _) = {''CREATED''}"
| "op_from (Update_profile _) = {''CONSENT_RECORDED''}"
| "op_from (Request_pre_approval _ _) = {''PROFILE_COMPLETE''}"
| "op_from (Update_onboarding _) = {''PRE_APPROVED'', ''ONBOARDING_IN_PROGRESS'', ''ONBOARDING_COMPLETE''}"
| "op_from Request_final_approval = {''ONBOARDING_COMPLETE''}"
| "op_from (Authorize_mandate _) = {''FINAL_APPROVED''}"
| "op_from (Request_disbursement _) = {''MANDATE_AUTHORIZED'', ''DISBURSEMENT_FAILED''}"

fun op_to :: "partner_op \<Rightarrow> string" where
  "op_to (Record_consents _) = ''CONSENT_RECORDED''"
| "op_to (Update_profile _) = ''PROFILE_COMPLETE''"
| "op_to (Request_pre_approval _ _) = ''PRE_APPROVAL_PENDING''"
| "op_to (Update_onboarding dto) = (if ob_markComplete dto then ''ONBOARDING_COMPLETE'' else ''ONBOARDING_IN_PROGRESS'')"
| "op_to Request_final_approval = ''FINAL_APPROVAL_PENDING''"
| "op_to (Authorize_mandate _) = ''MANDATE_AUTHORIZED''"
| "op_to (Request_disbursement _) = ''DISBURSEMENT_PENDING''"

abbreviation partner_apps :: "flow_db \<Rightarrow> partner_app list" where
  "partner_apps db \<equiv> ab_partnerApps (fl_app db)"

lemma transition_None: "assertValidTransition c t = None \<longleftrightarrow> t \<in> set (allowed_from c)"
  by (auto simp: assertValidTransition_def allowed_from_def PARTNER_TERMINAL_STATES_def PARTNER_ALLOWED_TRANSITIONS_def
      split: if_splits)

lemma transition_sources:
  "''CONSENT_RECORDED'' \<in> set (allowed_from c) \<longleftrightarrow> c = ''CREATED''"
  "''PROFILE_COMPLETE'' \<in> set (allowed_from c) \<longleftrightarrow> c = ''CONSENT_RECORDED''"
  "''PRE_APPROVAL_PENDING'' \<in> set (allowed_from c) \<longleftrightarrow> c = ''PROFILE_COMPLETE''"
  "''FINAL_APPROVAL_PENDING'' \<in> set (allowed_from c) \<longleftrightarrow> c = ''ONBOARDING_COMPLETE''"
  "''MANDATE_AUTHORIZED'' \<in> set (allowed_from c) \<longleftrightarrow> c = ''FINAL_APPROVED''"
  "''DISBURSEMENT_PENDING'' \<in> set (allowed_from c) \<longleftrightarrow> c = ''MANDATE_AUTHORIZED'' \<or> c = ''DISBURSEMENT_FAILED''"
  by (simp_all add: allowed_from_def PARTNER_ALLOWED_TRANSITIONS_def)

lemma of_transition_passes: "of_transition c t k = Go \<longleftrightarrow> t \<in> set (allowed_from c) \<and> k = Go"
  by (auto simp: of_transition_def transition_None [symmetric] split: option.splits)

lemma op_check_Go: "op_check op db a = Go \<Longrightarrow> pp_status a \<in> op_from op"
  by (cases op)
     (auto simp: recordConsents_check_def updateProfile_check_def requestPreApproval_check_def updateOnboarding_check_def
       requestFinalApproval_check_def authorizeMandate_check_def requestDisbursement_check_def of_transition_passes
       transition_sources missing_part_def split: if_splits)

lemma partner_finish_Inr:
  "partner_finish client a st ev db = Inr (r, db') \<longleftrightarrow>
     (\<exists>x. find_unique pp_id (pp_id a) (partner_apps db) = Some x \<and> r = x\<lparr>pp_status := st\<rparr>
        \<and> db' = db\<lparr>fl_app := (fl_app db)\<lparr>
              ab_partnerApps := update_many (\<lambda>r. pp_id r = pp_id a) (\<lambda>r. r\<lparr>pp_status := st\<rparr>) (partner_apps db),
              ab_partnerEvents := ab_partnerEvents (fl_app db) @ [(client, pp_id a, ev)]\<rparr>\<rparr>)"
  by (auto simp: partner_finish_def update_one_Inr split: sum.splits option.splits)
     (auto simp: update_one_def split: option.splits)

lemma upsert_keys: "key ` set (upsert key r t) = insert (key r) (key ` set t)"
proof (cases "key r \<in> key ` set t")
  case True
  have "key ` set (map (\<lambda>x. if key x = key r then r else x) t) = key ` set t"
    unfolding set_map image_image by (rule image_cong) auto
  with True show ?thesis by (simp add: upsert_def insert_absorb)
qed (simp add: upsert_def)

lemma upsert_decision_keys: "decision_key ` set (upsert_decision d t) = insert (decision_key d) (decision_key ` set t)"
proof -
  have "decision_key (merge_decision d x) = decision_key d" for x by (simp add: decision_key_def merge_decision_def)
  then have "decision_key ` set (map (\<lambda>x. if decision_key x = decision_key d then merge_decision d x else x) t) = decision_key ` set t"
    unfolding set_map image_image by (intro image_cong) auto
  then show ?thesis by (auto simp: upsert_decision_def)
qed

text \<open>What is on record for an application; none of it is ever removed.\<close>

datatype evidence = Ev_profile ident | Ev_decision ident string | Ev_onboarding ident | Ev_mandate ident | Ev_disbursement ident

fun on_record :: "flow_db \<Rightarrow> evidence \<Rightarrow> bool" where
  "on_record db (Ev_profile i) \<longleftrightarrow> i \<in> sn_app ` set (fl_profiles db)"
| "on_record db (Ev_decision i t) \<longleftrightarrow> (i, t) \<in> decision_key ` set (fl_decisions db)"
| "on_record db (Ev_onboarding i) \<longleftrightarrow> i \<in> sn_app ` set (fl_onboardings db)"
| "on_record db (Ev_mandate i) \<longleftrightarrow> i \<in> ma_app ` set (fl_mandates db)"
| "on_record db (Ev_disbursement i) \<longleftrightarrow> i \<in> di_app ` set (fl_disbursements db)"

definition keeps_records :: "flow_db \<Rightarrow> flow_db \<Rightarrow> bool" where
  "keeps_records db db' \<longleftrightarrow> (\<forall>e. on_record db e \<longrightarrow> on_record db' e)"

fun op_evidence :: "partner_op \<Rightarrow> ident \<Rightarrow> evidence set" where
  "op_evidence (Update_profile _) i = {Ev_profile i}"
| "op_evidence (Update_onboarding _) i = {Ev_onboarding i}"
| "op_evidence (Authorize_mandate _) i = {Ev_mandate i}"
| "op_evidence (Request_disbursement _) i = {Ev_disbursement i}"
| "op_evidence _ i = {}"

lemma finish_record: "partner_finish client a st ev db = Inr (r, db') \<Longrightarrow> on_record db' e = on_record db e"
  by (cases e) (auto simp: partner_finish_Inr)

text \<open>Every write ends in \<open>partner_finish\<close> on tables with the step's own change.\<close>

fun op_tables :: "time \<Rightarrow> partner_op \<Rightarrow> partner_app \<Rightarrow> flow_db \<Rightarrow> flow_db \<Rightarrow> bool" where
  "op_tables now (Update_profile dto) a db db1 \<longleftrightarrow> fl_profiles db1
     = upsert sn_app \<lparr>sn_app = pp_id a, sn_data = pr_json dto, sn_completeAt = now\<rparr> (fl_profiles db)
     \<and> fl_onboardings db1 = fl_onboardings db \<and> fl_mandates db1 = fl_mandates db \<and> fl_disbursements db1 = fl_disbursements db"
| "op_tables now (Update_onboarding dto) a db db1 \<longleftrightarrow> fl_onboardings db1
     = upsert sn_app \<lparr>sn_app = pp_id a, sn_data = ob_json dto, sn_completeAt = (if ob_markComplete dto then now else 0)\<rparr> (fl_onboardings db)
     \<and> fl_profiles db1 = fl_profiles db \<and> fl_mandates db1 = fl_mandates db \<and> fl_disbursements db1 = fl_disbursements db"
| "op_tables now (Authorize_mandate dto) a db db1 \<longleftrightarrow> fl_mandates db1
     = upsert ma_app \<lparr>ma_app = pp_id a, ma_provider = md_provider dto, ma_reference = md_reference dto,
              ma_umrn = md_umrn dto, ma_status = md_status dto, ma_authorizedAt = md_authorizedAt dto\<rparr> (fl_mandates db)
     \<and> fl_profiles db1 = fl_profiles db \<and> fl_onboardings db1 = fl_onboardings db \<and> fl_disbursements db1 = fl_disbursements db"
| "op_tables now (Request_disbursement reference) a db db1 \<longleftrightarrow> fl_disbursements db1
     = fl_disbursements db @ [\<lparr>di_app = pp_id a, di_reference = reference, di_status = ''PENDING'', di_requestedAt = now\<rparr>]
     \<and> reference \<notin> di_reference ` set (fl_disbursements db)
     \<and> fl_profiles db1 = fl_profiles db \<and> fl_onboardings db1 = fl_onboardings db \<and> fl_mandates db1 = fl_mandates db"
| "op_tables now _ a db db1 \<longleftrightarrow> fl_profiles db1 = fl_profiles db \<and> fl_onboardings db1 = fl_onboardings db
     \<and> fl_mandates db1 = fl_mandates db \<and> fl_disbursements db1 = fl_disbursements db"

lemma op_write_tables:
  assumes "op_write now client op a db = Inr (r, db')"
  obtains db1 ev where "partner_finish client a (op_to op) ev db1 = Inr (r, db')" "op_tables now op a db db1"
    "fl_decisions db1 = fl_decisions db" "partner_apps db1 = partner_apps db"
  using assms
  by (cases op)
     (auto simp: recordConsents_write_def updateProfile_write_def requestPreApproval_write_def updateOnboarding_write_def
       requestFinalApproval_write_def authorizeMandate_write_def requestDisbursement_write_def Let_def
       split: sum.splits if_splits prod.splits)

lemma op_write_effect:
  assumes "op_write now client op a db = Inr (r, db')"
  shows "(\<exists>x. find_unique pp_id (pp_id a) (partner_apps db) = Some x \<and> r = x\<lparr>pp_status := op_to op\<rparr>)
    \<and> partner_apps db' = update_many (\<lambda>r. pp_id r = pp_id a) (\<lambda>r. r\<lparr>pp_status := op_to op\<rparr>) (partner_apps db)"
  using assms by (rule op_write_tables) (auto simp: partner_finish_Inr)

lemma op_write_evidence:
  assumes "op_write now client op a db = Inr (r, db')"
  shows "on_record db' e \<longleftrightarrow> on_record db e \<or> e \<in> op_evidence op (pp_id a)"
  using assms
proof (rule op_write_tables)
  fix db1 ev
  assume f: "partner_finish client a (op_to op) ev db1 = Inr (r, db')" and t: "op_tables now op a db db1"
    and d: "fl_decisions db1 = fl_decisions db"
  have "on_record db1 e \<longleftrightarrow> on_record db e \<or> e \<in> op_evidence op (pp_id a)"
    using t d by (cases e; cases op; simp add: upsert_keys; blast)
  with finish_record [OF f] show ?thesis by simp
qed

lemma op_write_records:
  "op_write now client op a db = Inr (r, db') \<Longrightarrow>
     keeps_records db db' \<and> (\<forall>e\<in>op_evidence op (pp_id a). on_record db' e)"
  by (simp add: keeps_records_def op_write_evidence)

section \<open>Requests and decisions interleaved\<close>

record flow_state =
  fs_db :: flow_db
  fs_pending :: "(ident \<times> partner_op \<times> partner_app) list"  \<comment> \<open>checked, not yet written\<close>

inductive flow_step :: "flow_state \<Rightarrow> flow_state \<Rightarrow> bool" where
  create: "partner_createApplication fr client dto now (fl_app (fs_db s)) = (r, ad) \<Longrightarrow>
     fr_partnerId fr \<notin> pp_id ` set (partner_apps (fs_db s)) \<Longrightarrow>
     flow_step s (s\<lparr>fs_db := (fs_db s)\<lparr>fl_app := ad\<rparr>\<rparr>)"
| check: "resolvePartnerApplication pid client (partner_apps (fs_db s)) = Inr a \<Longrightarrow> op_check op (fs_db s) a = Go \<Longrightarrow>
     flow_step s (s\<lparr>fs_pending := (client, op, a) # fs_pending s\<rparr>)"
| commit: "(client, op, a) \<in> set (fs_pending s) \<Longrightarrow> op_write now client op a (fs_db s) = Inr (r, db') \<Longrightarrow>
     flow_step s (s\<lparr>fs_db := db', fs_pending := remove1 (client, op, a) (fs_pending s)\<rparr>)"
| rollback: "(client, op, a) \<in> set (fs_pending s) \<Longrightarrow> op_write now client op a (fs_db s) = Inl e \<Longrightarrow>
     flow_step s (s\<lparr>fs_pending := remove1 (client, op, a) (fs_pending s)\<rparr>)"

inductive decision_step :: "flow_state \<Rightarrow> flow_state \<Rightarrow> bool" where
  pre: "resolvePreApproval now app approved reference reason days offer (fs_db s) = Inr db' \<Longrightarrow>
     decision_step s (s\<lparr>fs_db := db'\<rparr>)"
| final: "resolveFinalApproval now app approved reference reason offer (fs_db s) = Inr db' \<Longrightarrow>
     decision_step s (s\<lparr>fs_db := db'\<rparr>)"

lemma create_effect:
  assumes "partner_createApplication fr client dto now db = (r, db')"
  shows "ab_partnerApps db' = ab_partnerApps db
    \<or> (\<exists>p. ab_partnerApps db' = ab_partnerApps db @ [p] \<and> pp_status p = ''CREATED'' \<and> pp_id p = fr_partnerId fr)"
  using assms by (auto simp: partner_createApplication_def Let_def split: option.splits prod.splits)

lemma decide_effect:
  assumes "decide d st ev db = Inr db'"
  shows "db' = db \<or>
    (partner_apps db' = update_many (\<lambda>r. pp_id r = dn_app d) (\<lambda>r. r\<lparr>pp_status := st\<rparr>) (partner_apps db)
     \<and> (\<forall>e. on_record db' e \<longleftrightarrow> on_record db e \<or> e = Ev_decision (dn_app d) (dn_type d)))"
proof (cases "find_unique pp_id (dn_app d) (partner_apps db)")
  case None
  with assms show ?thesis by (simp add: decide_def)
next
  case (Some a)
  let ?db1 = "db\<lparr>fl_decisions := upsert_decision d (fl_decisions db)\<rparr>"
  from Some have i: "pp_id a = dn_app d" by (auto dest: find_unique_Some_D)
  from assms Some obtain r where f: "partner_finish (pp_clientId a) a st ev ?db1 = Inr (r, db')"
    by (auto simp: decide_def split: sum.splits)
  have "on_record ?db1 e \<longleftrightarrow> on_record db e \<or> e = Ev_decision (dn_app d) (dn_type d)" for e
    by (cases e) (simp_all add: upsert_decision_keys, auto simp: decision_key_def)
  with finish_record [OF f] f i show ?thesis by (auto simp: partner_finish_Inr)
qed

section \<open>Without decisions\<close>

text \<open>No caller of the two decision methods exists in the source, so the requests alone are what happens.\<close>

definition early :: "string set" where
  "early = {''CREATED'', ''CONSENT_RECORDED'', ''PROFILE_COMPLETE'', ''PRE_APPROVAL_PENDING''}"

definition early_inv :: "flow_db \<Rightarrow> flow_state \<Rightarrow> bool" where
  "early_inv db0 s \<longleftrightarrow>
     (\<forall>a\<in>set (partner_apps (fs_db s)). pp_status a \<in> early)
     \<and> (\<forall>(client, op, a)\<in>set (fs_pending s). op_to op \<in> early)
     \<and> fl_mandates (fs_db s) = fl_mandates db0 \<and> fl_disbursements (fs_db s) = fl_disbursements db0"

lemma early_op: "st \<in> early \<Longrightarrow> st \<in> op_from op \<Longrightarrow> op_to op \<in> early"
  by (cases op) (auto simp: early_def)

lemma early_write:
  assumes "op_write now client op a db = Inr (r, db')" and "op_to op \<in> early"
  shows "fl_mandates db' = fl_mandates db \<and> fl_disbursements db' = fl_disbursements db"
  using assms(1)
proof (rule op_write_tables)
  fix db1 ev
  assume "partner_finish client a (op_to op) ev db1 = Inr (r, db')" and "op_tables now op a db db1"
  then show ?thesis using assms(2) by (cases op) (auto simp: partner_finish_Inr early_def split: if_splits)
qed

lemma early_step: "flow_step s s' \<Longrightarrow> early_inv db0 s \<Longrightarrow> early_inv db0 s'"
proof (induction rule: flow_step.induct)
  case (create fr client dto now s r ad)
  from create_effect [OF create.hyps(1)] create.prems show ?case
    by (auto simp: early_inv_def) (auto simp: early_def)
next
  case (check pid client s a op)
  then have "a \<in> set (partner_apps (fs_db s))"
    by (auto simp: resolvePartnerApplication_def dest: find_unique_Some_D split: option.splits if_splits)
  with check op_check_Go [OF check.hyps(2)] show ?case by (auto simp: early_inv_def intro: early_op)
next
  case (commit client op a s now r db')
  then have e: "op_to op \<in> early" by (auto simp: early_inv_def)
  have "\<forall>x\<in>set (fs_pending (s\<lparr>fs_db := db', fs_pending := remove1 (client, op, a) (fs_pending s)\<rparr>)). x \<in> set (fs_pending s)"
    using set_remove1_subset [of "(client, op, a)" "fs_pending s"] by auto
  moreover have "\<forall>x\<in>set (partner_apps db'). pp_status x \<in> early"
    using op_write_effect [OF commit.hyps(2)] commit.prems e by (auto simp: early_inv_def set_update_many)
  ultimately show ?case
    using commit.prems early_write [OF commit.hyps(2) e] by (auto simp: early_inv_def)
next
  case (rollback client op a s now e)
  from rollback.prems show ?case by (fastforce simp: early_inv_def dest: in_set_remove1D)
qed

text \<open>
  C36. As nothing calls the methods that record a decision, no partner's application gets past the
  request for pre-approval: whatever requests arrive, in whatever interleaving, no status beyond
  \<open>PRE_APPROVAL_PENDING\<close> is ever reached and no mandate or disbursal is ever recorded.
\<close>

theorem pre_approval_is_a_dead_end:
  assumes "flow_step\<^sup>*\<^sup>* \<lparr>fs_db = db, fs_pending = []\<rparr> s" and "\<forall>a\<in>set (partner_apps db). pp_status a \<in> early"
  shows "(\<forall>a\<in>set (partner_apps (fs_db s)). pp_status a \<in> early)
    \<and> fl_mandates (fs_db s) = fl_mandates db \<and> fl_disbursements (fs_db s) = fl_disbursements db"
proof -
  have "early_inv db \<lparr>fs_db = db, fs_pending = []\<rparr>" using assms(2) by (simp add: early_inv_def)
  with assms(1) have "early_inv db s" by (induction rule: rtranclp_induct) (auto intro: early_step)
  then show ?thesis by (simp add: early_inv_def)
qed

section \<open>With decisions\<close>

text \<open>What must be on record for a status.\<close>

definition needs :: "string \<Rightarrow> ident \<Rightarrow> evidence set" where
  "needs st i =
     (if st \<in> {''PROFILE_COMPLETE'', ''PRE_APPROVAL_PENDING''} then {Ev_profile i}
      else if st = ''PRE_APPROVED'' then {Ev_decision i ''PRE_APPROVAL''}
      else if st \<in> {''ONBOARDING_IN_PROGRESS'', ''ONBOARDING_COMPLETE'', ''FINAL_APPROVAL_PENDING''}
      then {Ev_decision i ''PRE_APPROVAL'', Ev_onboarding i}
      else if st = ''FINAL_APPROVED'' then {Ev_decision i ''FINAL_APPROVAL''}
      else if st \<in> {''MANDATE_AUTHORIZED'', ''DISBURSEMENT_FAILED''} then {Ev_decision i ''FINAL_APPROVAL'', Ev_mandate i}
      else if st = ''DISBURSEMENT_PENDING''
      then {Ev_decision i ''FINAL_APPROVAL'', Ev_mandate i, Ev_disbursement i}
      else {})"

definition justified :: "flow_db \<Rightarrow> partner_app \<Rightarrow> bool" where
  "justified db a \<longleftrightarrow> (\<forall>e\<in>needs (pp_status a) (pp_id a). on_record db e)"

definition flow_inv :: "flow_state \<Rightarrow> bool" where
  "flow_inv s \<longleftrightarrow>
     (\<forall>a\<in>set (partner_apps (fs_db s)). justified (fs_db s) a)
     \<and> (\<forall>(client, op, a)\<in>set (fs_pending s). pp_status a \<in> op_from op \<and> justified (fs_db s) a)"

lemma needs_step: "st \<in> op_from op \<Longrightarrow> needs (op_to op) i \<subseteq> needs st i \<union> op_evidence op i"
  by (cases op) (auto simp: needs_def)

lemma justified_keeps: "keeps_records db db' \<Longrightarrow> justified db a \<Longrightarrow> justified db' a"
  by (auto simp: justified_def keeps_records_def)

lemma flow_step_inv: "flow_step s s' \<Longrightarrow> flow_inv s \<Longrightarrow> flow_inv s'"
proof (induction rule: flow_step.induct)
  case (create fr client dto now s r ad)
  let ?db' = "(fs_db s)\<lparr>fl_app := ad\<rparr>"
  have "on_record ?db' e = on_record (fs_db s) e" for e by (cases e) simp_all
  then have j: "justified ?db' a = justified (fs_db s) a" for a by (simp add: justified_def)
  from create_effect [OF create.hyps(1)] create.prems show ?case
    by (auto simp: flow_inv_def j) (auto simp: justified_def needs_def)
next
  case (check pid client s a op)
  then have "a \<in> set (partner_apps (fs_db s))"
    by (auto simp: resolvePartnerApplication_def dest: find_unique_Some_D split: option.splits if_splits)
  with check op_check_Go [OF check.hyps(2)] show ?case by (auto simp: flow_inv_def)
next
  case (commit client op a s now r db')
  from commit have a: "pp_status a \<in> op_from op" "justified (fs_db s) a" by (auto simp: flow_inv_def)
  from op_write_records [OF commit.hyps(2)]
  have k: "keeps_records (fs_db s) db'" and e: "\<forall>e\<in>op_evidence op (pp_id a). on_record db' e" by auto
  have n: "\<forall>e\<in>needs (op_to op) (pp_id a). on_record db' e"
    using needs_step [OF a(1), of "pp_id a"] justified_keeps [OF k a(2)] e by (auto simp: justified_def)
  have "justified db' x" if "x \<in> set (partner_apps db')" for x
  proof -
    from that op_write_effect [OF commit.hyps(2)]
    have "x \<in> set (update_many (\<lambda>r. pp_id r = pp_id a) (\<lambda>r. r\<lparr>pp_status := op_to op\<rparr>) (partner_apps (fs_db s)))" by simp
    then show ?thesis
    proof (rule update_many_obtain)
      fix y assume "y \<in> set (partner_apps (fs_db s))" "x = y"
      with commit.prems k show ?thesis by (auto simp: flow_inv_def intro: justified_keeps)
    next
      fix y assume "pp_id y = pp_id a" "x = y\<lparr>pp_status := op_to op\<rparr>"
      with n show ?thesis by (simp add: justified_def)
    qed
  qed
  moreover have "\<forall>x\<in>set (remove1 (client, op, a) (fs_pending s)). case x of (c, o', b) \<Rightarrow> pp_status b \<in> op_from o' \<and> justified (fs_db s) b"
    using commit.prems by (intro ball_remove1) (simp add: flow_inv_def)
  ultimately show ?case using k by (auto simp: flow_inv_def intro: justified_keeps)
next
  case (rollback client op a s now e)
  from rollback.prems show ?case by (fastforce simp: flow_inv_def dest: in_set_remove1D)
qed

lemma decide_inv:
  assumes "decide d st ev (fs_db s) = Inr db'" and "needs st (dn_app d) \<subseteq> {Ev_decision (dn_app d) (dn_type d)}"
    and "flow_inv s"
  shows "flow_inv (s\<lparr>fs_db := db'\<rparr>)"
  using decide_effect [OF assms(1)]
proof
  assume "db' = fs_db s"
  with assms(3) show ?thesis by simp
next
  assume e: "partner_apps db' = update_many (\<lambda>r. pp_id r = dn_app d) (\<lambda>r. r\<lparr>pp_status := st\<rparr>) (partner_apps (fs_db s))
     \<and> (\<forall>e. on_record db' e \<longleftrightarrow> on_record (fs_db s) e \<or> e = Ev_decision (dn_app d) (dn_type d))"
  then have k: "keeps_records (fs_db s) db'" by (simp add: keeps_records_def)
  have "justified db' x" if "x \<in> set (partner_apps db')" for x
    using that unfolding e [THEN conjunct1]
  proof (rule update_many_obtain)
    fix y assume "y \<in> set (partner_apps (fs_db s))" "x = y"
    with assms(3) k show ?thesis by (auto simp: flow_inv_def intro: justified_keeps)
  next
    fix y assume "pp_id y = dn_app d" "x = y\<lparr>pp_status := st\<rparr>"
    with assms(2) e show ?thesis by (auto simp: justified_def)
  qed
  with assms(3) k show ?thesis by (auto simp: flow_inv_def intro: justified_keeps)
qed

lemma decision_step_inv: "decision_step s s' \<Longrightarrow> flow_inv s \<Longrightarrow> flow_inv s'"
proof (induction rule: decision_step.induct)
  case (pre now app approved reference reason days offer s db')
  from pre.hyps [unfolded resolvePreApproval_def] _ pre.prems show ?case
    by (rule decide_inv) (simp add: needs_def)
next
  case (final now app approved reference reason offer s db')
  from final.hyps [unfolded resolveFinalApproval_def] _ final.prems show ?case
    by (rule decide_inv) (simp add: needs_def)
qed

text \<open>
  C34. Requests of all partners and decisions may interleave in any way, and a request may write
  long after it checked: an application whose disbursal is pending has a recorded final decision,
  a mandate and the disbursal on record. More generally every status has what it needs.
\<close>

theorem disbursal_has_evidence:
  assumes "(sup flow_step decision_step)\<^sup>*\<^sup>* \<lparr>fs_db = db, fs_pending = []\<rparr> s"
    and "\<forall>a\<in>set (partner_apps db). justified db a"
  shows "(\<forall>a\<in>set (partner_apps (fs_db s)). justified (fs_db s) a)
    \<and> (\<forall>a\<in>set (partner_apps (fs_db s)). pp_status a = ''DISBURSEMENT_PENDING'' \<longrightarrow>
         on_record (fs_db s) (Ev_decision (pp_id a) ''FINAL_APPROVAL'') \<and> on_record (fs_db s) (Ev_mandate (pp_id a))
         \<and> on_record (fs_db s) (Ev_disbursement (pp_id a)))"
proof -
  have "flow_inv \<lparr>fs_db = db, fs_pending = []\<rparr>" using assms(2) by (simp add: flow_inv_def)
  with assms(1) have "flow_inv s"
    by (induction rule: rtranclp_induct) (auto intro: flow_step_inv decision_step_inv)
  then have j: "\<forall>a\<in>set (partner_apps (fs_db s)). justified (fs_db s) a" by (simp add: flow_inv_def)
  moreover have "\<forall>a\<in>set (partner_apps (fs_db s)). pp_status a = ''DISBURSEMENT_PENDING'' \<longrightarrow>
      (\<forall>e\<in>{Ev_decision (pp_id a) ''FINAL_APPROVAL'', Ev_mandate (pp_id a), Ev_disbursement (pp_id a)}. on_record (fs_db s) e)"
    using j by (auto simp: justified_def needs_def)
  ultimately show ?thesis by simp
qed

section \<open>A request alone\<close>

lemma resolve_Inr:
  "resolvePartnerApplication pid client apps = Inr a \<longleftrightarrow>
     find_unique pp_partnerApplicationId pid apps = Some a \<and> pp_clientId a = client"
  by (auto simp: resolvePartnerApplication_def split: option.splits)

lemma request_Go:
  assumes "resolvePartnerApplication pid client (partner_apps db) = Inr a" and "op_check op db a = Go"
    and "op_write now client op a db = Inr (r, db')"
  shows "partner_request_run now client pid op db = (Inr r, db')"
  using assms by (simp add: partner_request_run_def)

text \<open>
  A partner cannot see or move another partner's application: it gets the same answer as for an
  identifier that does not exist, and the tables stay as they are.
\<close>

theorem foreign_application_hidden:
  assumes "find_unique pp_partnerApplicationId pid (partner_apps db) = Some a" and "pp_clientId a \<noteq> client"
  shows "partner_request_run now client pid op db = (Inl partner_not_found, db) \<and> getStatus client pid db = Inl partner_not_found"
  using assms by (simp add: partner_request_run_def getStatus_def resolvePartnerApplication_def)

text \<open>
  A request that runs alone and succeeds changes the status of its own application only, along
  the table of transitions; the exceptions are an onboarding that is saved again and the repeated
  disbursal, which leaves the status as it is.
\<close>

theorem step_follows_table:
  assumes "unique_keys pp_id (partner_apps db)" and "partner_request_run now client pid op db = (Inr r, db')"
  shows "\<exists>a. resolvePartnerApplication pid client (partner_apps db) = Inr a \<and> r = a\<lparr>pp_status := pp_status r\<rparr>
    \<and> (pp_status r \<in> set (allowed_from (pp_status a)) \<or> db' = db
       \<or> {pp_status a, pp_status r} \<subseteq> {''ONBOARDING_IN_PROGRESS'', ''ONBOARDING_COMPLETE''})
    \<and> (\<forall>i. i \<noteq> pp_id a \<longrightarrow> find_unique pp_id i (partner_apps db') = find_unique pp_id i (partner_apps db))"
proof -
  from assms(2) obtain a where a: "resolvePartnerApplication pid client (partner_apps db) = Inr a"
    by (auto simp: partner_request_run_def split: sum.splits)
  then have mem: "a \<in> set (partner_apps db)" by (auto simp: resolve_Inr dest: find_unique_Some_D)
  show ?thesis
  proof (cases "op_check op db a")
    case Go
    with assms(2) a have w: "op_write now client op a db = Inr (r, db')"
      by (auto simp: partner_request_run_def split: sum.splits)
    from op_write_effect [OF w] find_unique_in_set [OF assms(1) mem]
    have r: "r = a\<lparr>pp_status := op_to op\<rparr>"
      and apps: "partner_apps db' = update_many (\<lambda>r. pp_id r = pp_id a) (\<lambda>r. r\<lparr>pp_status := op_to op\<rparr>) (partner_apps db)"
      by auto
    have "find_unique pp_id i (partner_apps db') = find_unique pp_id i (partner_apps db)" if "i \<noteq> pp_id a" for i
      using that by (cases "find_unique pp_id i (partner_apps db)") (auto simp: apps find_unique_update_many dest: find_unique_Some_D)
    moreover have "op_to op \<in> set (allowed_from (pp_status a))
        \<or> {pp_status a, op_to op} \<subseteq> {''ONBOARDING_IN_PROGRESS'', ''ONBOARDING_COMPLETE''}"
      using op_check_Go [OF Go]
      by (cases op) (auto simp: allowed_from_def PARTNER_ALLOWED_TRANSITIONS_def split: if_splits)
    ultimately show ?thesis using a r by auto
  qed (use assms(2) a in \<open>auto simp: partner_request_run_def split: sum.splits\<close>)
qed

definition consents_ok :: "partner_consent list \<Rightarrow> bool" where
  "consents_ok cs \<longleftrightarrow> unique_keys (\<lambda>c. (co_app c, co_type c)) cs \<and> unique_keys co_reference cs"

lemma add_consents_spec:
  "add_consents app items cs = Inr cs' \<Longrightarrow> consents_ok cs \<Longrightarrow>
     set cs \<subseteq> set cs' \<and> consents_ok cs' \<and> (\<forall>i\<in>set items. \<exists>c\<in>set cs'. co_app c = app \<and> co_type c = cn_type i)"
proof (induction app items cs rule: add_consents.induct)
  case (2 app i "is" cs)
  show ?case
  proof (cases "\<exists>c\<in>set cs. co_app c = app \<and> co_type c = cn_type i")
    case True
    with 2 have "set cs \<subseteq> set cs'" "consents_ok cs'" "\<forall>i\<in>set is. \<exists>c\<in>set cs'. co_app c = app \<and> co_type c = cn_type i"
      by auto
    with True show ?thesis by auto
  next
    case False
    with 2 have ok: "add_consents app is (cs @ [new_consent app i]) = Inr cs'" "cn_reference i \<notin> co_reference ` set cs"
      by (auto split: if_splits)
    have "consents_ok (cs @ [new_consent app i])"
      using 2(4) False ok(2) by (auto simp: consents_ok_def new_consent_def)
    moreover from ok(2) have "\<not> (\<exists>c\<in>set cs. co_reference c = cn_reference i)" by (metis imageI)
    ultimately have "set (cs @ [new_consent app i]) \<subseteq> set cs' \<and> consents_ok cs'
      \<and> (\<forall>i\<in>set is. \<exists>c\<in>set cs'. co_app c = app \<and> co_type c = cn_type i)"
      using "2.IH"(2) [OF False _ ok(1)] by blast
    moreover have "co_app (new_consent app i) = app" "co_type (new_consent app i) = cn_type i"
      by (simp_all add: new_consent_def)
    ultimately show ?thesis by auto
  qed
qed simp

text \<open>
  What is recorded of the consents: every row there was stays, every consent of the request has
  a row of its kind for the application afterwards, and no application has a kind twice.
\<close>

theorem consents_recorded:
  assumes "partner_request_run now client pid (Record_consents items) db = (Inr r, db')" and "consents_ok (fl_consents db)"
  shows "set (fl_consents db) \<subseteq> set (fl_consents db') \<and> consents_ok (fl_consents db')
    \<and> (\<forall>i\<in>set items. \<exists>c\<in>set (fl_consents db'). co_app c = pp_id r \<and> co_type c = cn_type i)"
proof -
  from assms(1) obtain a cs where a: "add_consents (pp_id a) items (fl_consents db) = Inr cs"
    and "partner_finish client a ''CONSENT_RECORDED'' ''CONSENT_RECORDED'' (db\<lparr>fl_consents := cs\<rparr>) = Inr (r, db')"
    by (auto simp: partner_request_run_def recordConsents_check_def of_transition_def recordConsents_write_def
        split: sum.splits option.splits partner_check.splits)
  then have "fl_consents db' = cs" "pp_id r = pp_id a"
    by (auto simp: partner_finish_Inr dest: find_unique_Some_D)
  with add_consents_spec [OF a assms(2)] show ?thesis by simp
qed

section \<open>What the code lets through\<close>

lemma finish_found:
  "find_unique pp_id (pp_id a) (partner_apps db) = Some x \<Longrightarrow>
     \<exists>db'. partner_finish client a st ev db = Inr (x\<lparr>pp_status := st\<rparr>, db')
       \<and> find_unique pp_id (pp_id a) (partner_apps db') = Some (x\<lparr>pp_status := st\<rparr>)
       \<and> db' = db\<lparr>fl_app := fl_app db'\<rparr>"
  by (auto simp: partner_finish_Inr find_unique_update_many dest: find_unique_Some_D)

text \<open>An empty list of consents is enough: the application goes on to the profile with no consent on record.\<close>

theorem empty_consents_pass:
  assumes "unique_keys pp_id (partner_apps db)" and "resolvePartnerApplication pid client (partner_apps db) = Inr a"
    and "pp_status a = ''CREATED''"
  shows "\<exists>db'. partner_request_run now client pid (Record_consents []) db = (Inr (a\<lparr>pp_status := ''CONSENT_RECORDED''\<rparr>), db')
    \<and> fl_consents db' = fl_consents db"
proof -
  from assms(2) have "a \<in> set (partner_apps db)" by (auto simp: resolve_Inr dest: find_unique_Some_D)
  from finish_found [OF find_unique_in_set [OF assms(1) this], of client "''CONSENT_RECORDED''" "''CONSENT_RECORDED''"]
  obtain db' where f: "partner_finish client a ''CONSENT_RECORDED'' ''CONSENT_RECORDED'' db
      = Inr (a\<lparr>pp_status := ''CONSENT_RECORDED''\<rparr>, db')" and d: "db' = db\<lparr>fl_app := fl_app db'\<rparr>" by blast
  have "op_check (Record_consents []) db a = Go"
    by (simp add: recordConsents_check_def of_transition_passes transition_sources assms(3))
  moreover have "op_write now client (Record_consents []) a db = Inr (a\<lparr>pp_status := ''CONSENT_RECORDED''\<rparr>, db')"
    using f by (simp add: recordConsents_write_def)
  moreover have "fl_consents db' = fl_consents db" by (subst d) simp
  ultimately show ?thesis using request_Go [OF assms(2)] by blast
qed

text \<open>
  The onboarding step does not use the table of transitions: a completed onboarding is opened
  again by saving it without the mark, and what was completed is overwritten.
\<close>

theorem onboarding_reopened:
  assumes "unique_keys pp_id (partner_apps db)" and "resolvePartnerApplication pid client (partner_apps db) = Inr a"
    and "pp_status a = ''ONBOARDING_COMPLETE''" and "\<not> ob_markComplete dto"
  shows "''ONBOARDING_IN_PROGRESS'' \<notin> set (allowed_from (pp_status a))
    \<and> (\<exists>db'. partner_request_run now client pid (Update_onboarding dto) db
          = (Inr (a\<lparr>pp_status := ''ONBOARDING_IN_PROGRESS''\<rparr>), db')
        \<and> (\<forall>s\<in>set (fl_onboardings db'). sn_app s = pp_id a \<longrightarrow> sn_completeAt s = 0))"
proof -
  let ?db1 = "db\<lparr>fl_onboardings := upsert sn_app \<lparr>sn_app = pp_id a, sn_data = ob_json dto, sn_completeAt = 0\<rparr> (fl_onboardings db)\<rparr>"
  from assms(2) have "a \<in> set (partner_apps db)" by (auto simp: resolve_Inr dest: find_unique_Some_D)
  then have "find_unique pp_id (pp_id a) (partner_apps ?db1) = Some a" using find_unique_in_set [OF assms(1)] by simp
  from finish_found [OF this, of client "''ONBOARDING_IN_PROGRESS''" "''ONBOARDING_UPDATED''"]
  obtain db' where f: "partner_finish client a ''ONBOARDING_IN_PROGRESS'' ''ONBOARDING_UPDATED'' ?db1
      = Inr (a\<lparr>pp_status := ''ONBOARDING_IN_PROGRESS''\<rparr>, db')" and d: "db' = ?db1\<lparr>fl_app := fl_app db'\<rparr>" by blast
  have "op_check (Update_onboarding dto) db a = Go" using assms(3,4) by (simp add: updateOnboarding_check_def)
  moreover have "op_write now client (Update_onboarding dto) a db = Inr (a\<lparr>pp_status := ''ONBOARDING_IN_PROGRESS''\<rparr>, db')"
    using f assms(4) by (simp add: updateOnboarding_write_def)
  moreover have "\<forall>s\<in>set (fl_onboardings db'). sn_app s = pp_id a \<longrightarrow> sn_completeAt s = 0"
    by (subst d) (auto simp: upsert_def image_iff split: if_splits)
  moreover have "''ONBOARDING_IN_PROGRESS'' \<notin> set (allowed_from (pp_status a))"
    by (simp add: assms(3) allowed_from_def PARTNER_ALLOWED_TRANSITIONS_def)
  ultimately show ?thesis using request_Go [OF assms(2)] by blast
qed

text \<open>Recording a decision does not look at the status: a terminal one is overwritten like any other.\<close>

theorem decision_overwrites_terminal:
  assumes "find_unique pp_id i (partner_apps db) = Some a" and "pp_status a \<in> set PARTNER_TERMINAL_STATES"
  shows "\<exists>db'. resolvePreApproval now i True reference reason days offer db = Inr db'
    \<and> find_unique pp_id i (partner_apps db') = Some (a\<lparr>pp_status := ''PRE_APPROVED''\<rparr>)"
proof -
  from assms(1) have i: "pp_id a = i" by (auto dest: find_unique_Some_D)
  let ?d = "\<lparr>dn_app = i, dn_type = ''PRE_APPROVAL'', dn_outcome = ''APPROVED'', dn_reference = reference, dn_at = now,
    dn_reason = reason, dn_coolingOffDays = days, dn_nextCheckAt = (case days of
        Some n \<Rightarrow> if n \<noteq> 0 then Some (now + n * 86400 * 1000) else None | None \<Rightarrow> None), dn_offer = offer\<rparr>"
  let ?db1 = "db\<lparr>fl_decisions := upsert_decision ?d (fl_decisions db)\<rparr>"
  have "find_unique pp_id (pp_id a) (partner_apps ?db1) = Some a" using assms(1) i by simp
  from finish_found [OF this, of "pp_clientId a" "''PRE_APPROVED''" "''PRE_APPROVAL_APPROVED''"]
  obtain db' where f: "partner_finish (pp_clientId a) a ''PRE_APPROVED'' ''PRE_APPROVAL_APPROVED'' ?db1
      = Inr (a\<lparr>pp_status := ''PRE_APPROVED''\<rparr>, db')"
    and g: "find_unique pp_id (pp_id a) (partner_apps db') = Some (a\<lparr>pp_status := ''PRE_APPROVED''\<rparr>)" by blast
  have "resolvePreApproval now i True reference reason days offer db = Inr db'"
    using assms(1) f by (simp add: resolvePreApproval_def decide_def)
  with g i show ?thesis by blast
qed

text \<open>
  Two requests for the disbursal with different references that both checked before either
  wrote both succeed: the application has two pending disbursals.
\<close>

theorem two_disbursals:
  assumes "find_unique pp_id (pp_id a) (partner_apps db) = Some a"
    and "op_check (Request_disbursement r1) db a = Go" and "op_check (Request_disbursement r2) db a = Go" and "r1 \<noteq> r2"
  shows "\<exists>x db1 y db2. op_write t1 client (Request_disbursement r1) a db = Inr (x, db1)
    \<and> op_write t2 client (Request_disbursement r2) a db1 = Inr (y, db2)
    \<and> filter (\<lambda>d. di_reference d \<in> {r1, r2}) (fl_disbursements db2) =
        [\<lparr>di_app = pp_id a, di_reference = r1, di_status = ''PENDING'', di_requestedAt = t1\<rparr>,
         \<lparr>di_app = pp_id a, di_reference = r2, di_status = ''PENDING'', di_requestedAt = t2\<rparr>]"
proof -
  let ?row = "\<lambda>r t. \<lparr>di_app = pp_id a, di_reference = r, di_status = ''PENDING'', di_requestedAt = t\<rparr>"
  have new: "r \<notin> di_reference ` set (fl_disbursements db)" if "op_check (Request_disbursement r) db a = Go" for r
    using that by (auto simp: requestDisbursement_check_def of_transition_passes find_unique_None_iff [symmetric]
        split: option.splits if_splits)
  note n = new [OF assms(2)] new [OF assms(3)]
  have a0: "find_unique pp_id (pp_id a) (partner_apps (db\<lparr>fl_disbursements := t\<rparr>)) = Some a" for t using assms(1) by simp
  from finish_found [OF a0, of client "''DISBURSEMENT_PENDING''" "''DISBURSEMENT_REQUESTED''" "fl_disbursements db @ [?row r1 t1]"]
  obtain db1 where w1: "op_write t1 client (Request_disbursement r1) a db = Inr (a\<lparr>pp_status := ''DISBURSEMENT_PENDING''\<rparr>, db1)"
    and a1: "find_unique pp_id (pp_id a) (partner_apps db1) = Some (a\<lparr>pp_status := ''DISBURSEMENT_PENDING''\<rparr>)"
    and d1: "db1 = db\<lparr>fl_disbursements := fl_disbursements db @ [?row r1 t1], fl_app := fl_app db1\<rparr>"
    using n(1) by (auto simp: requestDisbursement_write_def)
  have t1: "fl_disbursements db1 = fl_disbursements db @ [?row r1 t1]" by (subst d1) simp
  have "find_unique pp_id (pp_id a) (partner_apps (db1\<lparr>fl_disbursements := t\<rparr>))
      = Some (a\<lparr>pp_status := ''DISBURSEMENT_PENDING''\<rparr>)" for t using a1 by simp
  from finish_found [OF this, of client "''DISBURSEMENT_PENDING''" "''DISBURSEMENT_REQUESTED''" "fl_disbursements db1 @ [?row r2 t2]"]
  obtain y db2 where w2: "op_write t2 client (Request_disbursement r2) a db1 = Inr (y, db2)"
    and d2: "db2 = db1\<lparr>fl_disbursements := fl_disbursements db1 @ [?row r2 t2], fl_app := fl_app db2\<rparr>"
    using n(2) t1 assms(4) by (auto simp: requestDisbursement_write_def)
  have "filter (\<lambda>d. di_reference d \<in> {r1, r2}) (fl_disbursements db) = []"
    using n by (auto simp: filter_empty_conv)
  moreover have "fl_disbursements db2 = fl_disbursements db @ [?row r1 t1, ?row r2 t2]" by (subst d2) (simp add: t1)
  ultimately show ?thesis using w1 w2 by auto
qed

text \<open>
  The disbursal is meant to be idempotent in its reference, but the status is checked first: the
  same request sent again is refused as an invalid transition.
\<close>

theorem disbursal_retry_refused:
  assumes "unique_keys pp_id (partner_apps db)" and "unique_keys pp_partnerApplicationId (partner_apps db)"
    and "resolvePartnerApplication pid client (partner_apps db) = Inr a" and "op_check (Request_disbursement r) db a = Go"
    and "partner_request_run now client pid (Request_disbursement r) db = (Inr x, db')"
  shows "partner_request_run later client pid (Request_disbursement r) db'
    = (Inl (PartnerError ''PARTNER_STATE_INVALID_TRANSITION'' 409), db')"
proof -
  from assms(3-5) have w: "op_write now client (Request_disbursement r) a db = Inr (x, db')"
    by (auto simp: partner_request_run_def split: sum.splits)
  from op_write_effect [OF w] have apps: "partner_apps db' =
      update_many (\<lambda>r. pp_id r = pp_id a) (\<lambda>r. r\<lparr>pp_status := ''DISBURSEMENT_PENDING''\<rparr>) (partner_apps db)" by simp
  have "resolvePartnerApplication pid client (partner_apps db') = Inr (a\<lparr>pp_status := ''DISBURSEMENT_PENDING''\<rparr>)"
    using assms(3) by (auto simp: resolve_Inr apps find_unique_update_many)
  then show ?thesis
    by (simp add: partner_request_run_def requestDisbursement_check_def of_transition_def assertValidTransition_def
        PARTNER_TERMINAL_STATES_def transition_sources)
qed

text \<open>
  A profile whose gender is the one the interface accepts beyond the three of the column passes
  every check and then fails in the database client, each time.
\<close>

theorem fourth_gender_fails:
  assumes "resolvePartnerApplication pid client (partner_apps db) = Inr a" and "op_check (Update_profile dto) db a = Go"
    and "pr_gender dto = Some ''PREFER_NOT_TO_SAY''"
  shows "partner_request_run now client pid (Update_profile dto) db = (Inl (PartnerDb ''PrismaClientValidationError''), db)"
  using assms by (simp add: partner_request_run_def updateProfile_write_def known_gender_def truthy_str_def)

text \<open>
  A request that checked before a rejection writes after it: the rejected application is
  pending again, though a rejection is terminal.
\<close>

theorem stale_request_leaves_rejection:
  assumes "pp_plApplicationId a \<in> pa_id ` set (ab_apps (fl_app db))"
    and "find_unique pp_id (pp_id a) (partner_apps db) = Some x" and "pp_status x = ''REJECTED''"
  shows "assertValidTransition (pp_status x) ''PRE_APPROVAL_PENDING'' \<noteq> None
    \<and> (\<exists>db'. op_write now client (Request_pre_approval amount months) a db = Inr (x\<lparr>pp_status := ''PRE_APPROVAL_PENDING''\<rparr>, db'))"
proof -
  have "find_unique pp_id (pp_id a) (partner_apps (db\<lparr>fl_requested := f\<rparr>)) = Some x" for f using assms(2) by simp
  from finish_found [OF this] show ?thesis
    using assms(1,3)
    by (fastforce simp: requestPreApproval_write_def Let_def assertValidTransition_def PARTNER_TERMINAL_STATES_def split: prod.split)
qed

lemma decide_decisions:
  "decide d st ev db = Inr db' \<Longrightarrow> find_unique pp_id (dn_app d) (partner_apps db) \<noteq> None \<Longrightarrow>
     fl_decisions db' = upsert_decision d (fl_decisions db) \<and> find_unique pp_id (dn_app d) (partner_apps db') \<noteq> None"
  by (auto simp: decide_def partner_finish_Inr find_unique_update_many split: option.splits sum.splits)

lemma upsert_decision_row:
  assumes "x \<in> set (upsert_decision d t)" and "decision_key x = decision_key d"
  shows "x = d \<and> decision_key d \<notin> decision_key ` set t
    \<or> (\<exists>old\<in>set t. decision_key old = decision_key d \<and> x = merge_decision d old)"
  using assms by (auto simp: upsert_decision_def image_iff split: if_splits)

text \<open>An approval after a rejection keeps the reason and the waiting time of the rejection in its row.\<close>

theorem approval_keeps_rejection_reason:
  assumes "find_unique pp_id i (partner_apps db) = Some a"
    and "resolvePreApproval t1 i False ref1 (Some reason) (Some days) None db = Inr db1"
    and "resolvePreApproval t2 i True ref2 None None offer db1 = Inr db2"
    and "d \<in> set (fl_decisions db2)" and "decision_key d = (i, ''PRE_APPROVAL'')"
  shows "dn_outcome d = ''APPROVED'' \<and> dn_reason d = Some reason \<and> dn_coolingOffDays d = Some days"
proof -
  let ?d1 = "\<lparr>dn_app = i, dn_type = ''PRE_APPROVAL'', dn_outcome = ''REJECTED'', dn_reference = ref1, dn_at = t1,
    dn_reason = Some reason, dn_coolingOffDays = Some days,
    dn_nextCheckAt = (if days \<noteq> 0 then Some (t1 + days * 86400 * 1000) else None), dn_offer = None\<rparr>"
  let ?d2 = "\<lparr>dn_app = i, dn_type = ''PRE_APPROVAL'', dn_outcome = ''APPROVED'', dn_reference = ref2, dn_at = t2,
    dn_reason = None, dn_coolingOffDays = None, dn_nextCheckAt = None, dn_offer = offer\<rparr>"
  have k: "decision_key ?d1 = (i, ''PRE_APPROVAL'')" "decision_key ?d2 = (i, ''PRE_APPROVAL'')"
    by (simp_all add: decision_key_def)
  from assms(1,2) decide_decisions [of ?d1]
  have t1: "fl_decisions db1 = upsert_decision ?d1 (fl_decisions db)" "find_unique pp_id i (partner_apps db1) \<noteq> None"
    by (auto simp: resolvePreApproval_def)
  from t1(2) assms(3) decide_decisions [of ?d2]
  have t2: "fl_decisions db2 = upsert_decision ?d2 (fl_decisions db1)" by (auto simp: resolvePreApproval_def)
  have "(i, ''PRE_APPROVAL'') \<in> decision_key ` set (fl_decisions db1)" by (simp add: t1(1) upsert_decision_keys k)
  with upsert_decision_row [of d ?d2 "fl_decisions db1"] assms(4,5) t2 k
  obtain old where old: "old \<in> set (fl_decisions db1)" "decision_key old = (i, ''PRE_APPROVAL'')" "d = merge_decision ?d2 old"
    by auto
  with upsert_decision_row [of old ?d1 "fl_decisions db"] t1(1) k
  have "dn_reason old = Some reason \<and> dn_coolingOffDays old = Some days" by (auto simp: merge_decision_def)
  with old(3) show ?thesis by (simp add: merge_decision_def)
qed

section \<open>Concrete runs\<close>

definition demo_partner_app :: partner_app where
  "demo_partner_app = \<lparr>pp_id = ''p1'', pp_clientId = ''c1'', pp_partnerApplicationId = ''FTPA-1'', pp_number = ''FTPN-1'',
     pp_externalReference = ''x1'', pp_sourceSystem = ''s'', pp_productCode = ''PL'', pp_status = ''CREATED'',
     pp_customerId = 1, pp_plApplicationId = 1\<rparr>"

definition demo_flow_customer :: customer_row where
  "demo_flow_customer = \<lparr>cu_id = 1, cu_code = ''FTCUST-1'', cu_mobile = ''+919000000000'', cu_email = None, cu_firstName = None,
     cu_lastName = None, cu_latestApplicationId = None\<rparr>"

text \<open>One application of one partner, in the given status.\<close>

definition flow_in :: "string \<Rightarrow> flow_db" where
  "flow_in st =
     \<lparr>fl_app = \<lparr>ab_customers = [demo_flow_customer], ab_apps = [new_application 1 1 ''A1'' None None 0], ab_attributions = [],
        ab_appAttributions = [], ab_policyProducts = [], ab_partnerApps = [demo_partner_app\<lparr>pp_status := st\<rparr>], ab_partnerEvents = []\<rparr>,
      fl_consents = [], fl_profiles = [], fl_decisions = [], fl_onboardings = [], fl_mandates = [], fl_disbursements = [],
      fl_details = (\<lambda>_. \<lparr>dt_dateOfBirth = None, dt_gender = None, dt_pan = None, dt_panVerified = False\<rparr>),
      fl_requested = (\<lambda>_. (None, None))\<rparr>"

lemma flow_in_apps [simp]: "partner_apps (flow_in st) = [demo_partner_app\<lparr>pp_status := st\<rparr>]"
  by (simp add: flow_in_def)

lemma demo_partner_app_fields [simp]:
  "pp_id demo_partner_app = ''p1''" "pp_clientId demo_partner_app = ''c1''"
  "pp_partnerApplicationId demo_partner_app = ''FTPA-1''" "pp_plApplicationId demo_partner_app = 1"
  "pp_status demo_partner_app = ''CREATED''"
  by (simp_all add: demo_partner_app_def)

lemma flow_in_resolves [simp]:
  "resolvePartnerApplication ''FTPA-1'' ''c1'' [demo_partner_app\<lparr>pp_status := st\<rparr>] = Inr (demo_partner_app\<lparr>pp_status := st\<rparr>)"
  by (simp add: resolve_Inr)

text \<open>The first step of an application, as a step of the system.\<close>

lemma demo_consents_pass:
  "\<exists>db'. partner_request_run 5 ''c1'' ''FTPA-1'' (Record_consents []) (flow_in ''CREATED'')
     = (Inr (demo_partner_app\<lparr>pp_status := ''CONSENT_RECORDED''\<rparr>), db')"
  by (simp add: partner_request_run_def recordConsents_check_def of_transition_def assertValidTransition_def
      PARTNER_TERMINAL_STATES_def transition_sources recordConsents_write_def partner_finish_def update_one_def)

lemma pre_approval_is_a_dead_end_witness:
  "\<exists>s. flow_step\<^sup>*\<^sup>* \<lparr>fs_db = flow_in ''CREATED'', fs_pending = []\<rparr> s \<and> length (fs_pending s) = 1
     \<and> (\<forall>a\<in>set (partner_apps (fs_db s)). pp_status a \<in> early) \<and> fl_mandates (fs_db s) = fl_mandates (flow_in ''CREATED'')"
proof -
  let ?s0 = "\<lparr>fs_db = flow_in ''CREATED'', fs_pending = []\<rparr>"
  let ?s1 = "\<lparr>fs_db = flow_in ''CREATED'', fs_pending = [(''c1'', Record_consents [], demo_partner_app\<lparr>pp_status := ''CREATED''\<rparr>)]\<rparr>"
  have "op_check (Record_consents []) (flow_in ''CREATED'') (demo_partner_app\<lparr>pp_status := ''CREATED''\<rparr>) = Go"
    by (simp add: recordConsents_check_def of_transition_passes transition_sources)
  with flow_step.check [of "''FTPA-1''" "''c1''" ?s0 "demo_partner_app\<lparr>pp_status := ''CREATED''\<rparr>"]
  have "flow_step ?s0 ?s1" by simp
  then have run: "flow_step\<^sup>*\<^sup>* ?s0 ?s1" by simp
  from pre_approval_is_a_dead_end [OF run] run show ?thesis by (intro exI [of _ ?s1]) (simp add: early_def)
qed

definition demo_approved :: flow_db where
  "demo_approved = (flow_in ''FINAL_APPROVED'')\<lparr>fl_decisions := [\<lparr>dn_app = ''p1'', dn_type = ''FINAL_APPROVAL'',
     dn_outcome = ''APPROVED'', dn_reference = ''r'', dn_at = 1, dn_reason = None, dn_coolingOffDays = None,
     dn_nextCheckAt = None, dn_offer = None\<rparr>]\<rparr>"

definition demo_mandate_dto :: mandate_dto where
  "demo_mandate_dto = \<lparr>md_provider = ''EASEBUZZ'', md_reference = ''m'', md_umrn = ''u'', md_status = ''ACTIVE'', md_authorizedAt = 2\<rparr>"

lemma disbursal_has_evidence_witness:
  "\<exists>s. (sup flow_step decision_step)\<^sup>*\<^sup>* \<lparr>fs_db = demo_approved, fs_pending = []\<rparr> s \<and> length (fs_pending s) = 1
     \<and> (\<forall>a\<in>set (partner_apps (fs_db s)). justified (fs_db s) a)"
proof -
  let ?a = "demo_partner_app\<lparr>pp_status := ''FINAL_APPROVED''\<rparr>"
  let ?s0 = "\<lparr>fs_db = demo_approved, fs_pending = []\<rparr>"
  let ?s1 = "\<lparr>fs_db = demo_approved, fs_pending = [(''c1'', Authorize_mandate demo_mandate_dto, ?a)]\<rparr>"
  have apps: "partner_apps demo_approved = [?a]" by (simp add: demo_approved_def)
  have "op_check (Authorize_mandate demo_mandate_dto) demo_approved ?a = Go"
    by (simp add: authorizeMandate_check_def of_transition_passes transition_sources demo_approved_def flow_in_def)
  with flow_step.check [of "''FTPA-1''" "''c1''" ?s0 ?a] apps have "flow_step ?s0 ?s1" by simp
  then have run: "(sup flow_step decision_step)\<^sup>*\<^sup>* ?s0 ?s1" by (intro r_into_rtranclp) simp
  have "\<forall>a\<in>set (partner_apps demo_approved). justified demo_approved a"
    by (simp add: apps justified_def needs_def) (simp add: demo_approved_def decision_key_def)
  from disbursal_has_evidence [OF run this] run show ?thesis by (intro exI [of _ ?s1]) simp
qed

lemma foreign_application_hidden_witness:
  "partner_request_run 5 ''c2'' ''FTPA-1'' (Record_consents []) (flow_in ''CREATED'') = (Inl partner_not_found, flow_in ''CREATED'')
   \<and> getStatus ''c2'' ''FTPA-1'' (flow_in ''CREATED'') = Inl partner_not_found"
  by (rule foreign_application_hidden [of _ _ "demo_partner_app\<lparr>pp_status := ''CREATED''\<rparr>"]) simp_all

lemma step_follows_table_witness:
  "\<exists>a. resolvePartnerApplication ''FTPA-1'' ''c1'' (partner_apps (flow_in ''CREATED'')) = Inr a \<and> pp_status a = ''CREATED''"
proof -
  from demo_consents_pass obtain db' where
    r: "partner_request_run 5 ''c1'' ''FTPA-1'' (Record_consents []) (flow_in ''CREATED'')
      = (Inr (demo_partner_app\<lparr>pp_status := ''CONSENT_RECORDED''\<rparr>), db')" by blast
  have "unique_keys pp_id (partner_apps (flow_in ''CREATED''))" by simp
  from step_follows_table [OF this r] show ?thesis by auto
qed

definition demo_consent_item :: consent_item where
  "demo_consent_item = \<lparr>cn_template = ''t'', cn_version = ''1'', cn_textHash = ''h'', cn_type = ''BUREAU'', cn_reference = ''cr1'',
     cn_acceptedAt = 4, cn_ip = ''10.0.0.1'', cn_userAgentHash = ''u''\<rparr>"

lemma consents_recorded_witness:
  "\<exists>r db'. partner_request_run 5 ''c1'' ''FTPA-1'' (Record_consents [demo_consent_item, demo_consent_item]) (flow_in ''CREATED'') = (Inr r, db')
     \<and> (\<exists>c\<in>set (fl_consents db'). co_app c = pp_id r \<and> co_type c = ''BUREAU'')"
proof -
  have "\<exists>r db'. partner_request_run 5 ''c1'' ''FTPA-1'' (Record_consents [demo_consent_item, demo_consent_item]) (flow_in ''CREATED'') = (Inr r, db')"
    by (simp add: partner_request_run_def recordConsents_check_def of_transition_def assertValidTransition_def
        PARTNER_TERMINAL_STATES_def transition_sources recordConsents_write_def partner_finish_def update_one_def
        flow_in_def new_consent_def)
  then obtain r db' where
    run: "partner_request_run 5 ''c1'' ''FTPA-1'' (Record_consents [demo_consent_item, demo_consent_item]) (flow_in ''CREATED'') = (Inr r, db')"
    by blast
  have "consents_ok (fl_consents (flow_in ''CREATED''))" by (simp add: consents_ok_def flow_in_def)
  from consents_recorded [OF run this] run show ?thesis by (auto simp: demo_consent_item_def)
qed

lemma empty_consents_pass_witness:
  "\<exists>db'. partner_request_run 5 ''c1'' ''FTPA-1'' (Record_consents []) (flow_in ''CREATED'')
     = (Inr (demo_partner_app\<lparr>pp_status := ''CONSENT_RECORDED''\<rparr>), db') \<and> fl_consents db' = []"
  using empty_consents_pass [of "flow_in ''CREATED''" "''FTPA-1''" "''c1''" "demo_partner_app\<lparr>pp_status := ''CREATED''\<rparr>" 5]
  by (simp add: flow_in_def)

definition demo_onboarding :: onboarding_dto where
  "demo_onboarding = \<lparr>ob_bank = False, ob_esign = False, ob_kfs = False, ob_markComplete = False, ob_json = ''{}''\<rparr>"

lemma onboarding_reopened_witness:
  "\<exists>db'. partner_request_run 5 ''c1'' ''FTPA-1'' (Update_onboarding demo_onboarding) (flow_in ''ONBOARDING_COMPLETE'')
     = (Inr (demo_partner_app\<lparr>pp_status := ''ONBOARDING_IN_PROGRESS''\<rparr>), db')"
  using onboarding_reopened [of "flow_in ''ONBOARDING_COMPLETE''" "''FTPA-1''" "''c1''"
      "demo_partner_app\<lparr>pp_status := ''ONBOARDING_COMPLETE''\<rparr>" demo_onboarding 5]
  by (auto simp: demo_onboarding_def)

lemma decision_overwrites_terminal_witness:
  "\<exists>db'. resolvePreApproval 5 ''p1'' True ''r'' None None None (flow_in ''DISBURSED'') = Inr db'
     \<and> find_unique pp_id ''p1'' (partner_apps db') = Some (demo_partner_app\<lparr>pp_status := ''PRE_APPROVED''\<rparr>)"
  using decision_overwrites_terminal [of "''p1''" "flow_in ''DISBURSED''" "demo_partner_app\<lparr>pp_status := ''DISBURSED''\<rparr>"]
  by (simp add: PARTNER_TERMINAL_STATES_def)

definition demo_mandated :: flow_db where
  "demo_mandated = (flow_in ''MANDATE_AUTHORIZED'')\<lparr>fl_mandates := [\<lparr>ma_app = ''p1'', ma_provider = ''EASEBUZZ'',
     ma_reference = ''m'', ma_umrn = ''u'', ma_status = ''ACTIVE'', ma_authorizedAt = 2\<rparr>]\<rparr>"

lemma demo_mandated_simps [simp]:
  "partner_apps demo_mandated = [demo_partner_app\<lparr>pp_status := ''MANDATE_AUTHORIZED''\<rparr>]"
  "fl_disbursements demo_mandated = []"
  "requestDisbursement_check r (fl_mandates demo_mandated) [] (demo_partner_app\<lparr>pp_status := ''MANDATE_AUTHORIZED''\<rparr>) = Go"
  by (simp_all add: demo_mandated_def requestDisbursement_check_def of_transition_passes transition_sources flow_in_def)

lemma demo_mandated_check:
  "op_check (Request_disbursement r) demo_mandated (demo_partner_app\<lparr>pp_status := ''MANDATE_AUTHORIZED''\<rparr>) = Go"
  by simp

lemma two_disbursals_witness:
  "\<exists>x db1 y db2. op_write 5 ''c1'' (Request_disbursement ''d1'') (demo_partner_app\<lparr>pp_status := ''MANDATE_AUTHORIZED''\<rparr>) demo_mandated = Inr (x, db1)
    \<and> op_write 6 ''c1'' (Request_disbursement ''d2'') (demo_partner_app\<lparr>pp_status := ''MANDATE_AUTHORIZED''\<rparr>) db1 = Inr (y, db2)"
  using two_disbursals [of "demo_partner_app\<lparr>pp_status := ''MANDATE_AUTHORIZED''\<rparr>" demo_mandated "''d1''" "''d2''" 5 "''c1''" 6]
  by auto

lemma disbursal_retry_refused_witness:
  "\<exists>x db'. partner_request_run 5 ''c1'' ''FTPA-1'' (Request_disbursement ''d1'') demo_mandated = (Inr x, db')
     \<and> partner_request_run 6 ''c1'' ''FTPA-1'' (Request_disbursement ''d1'') db'
       = (Inl (PartnerError ''PARTNER_STATE_INVALID_TRANSITION'' 409), db')"
proof -
  let ?a = "demo_partner_app\<lparr>pp_status := ''MANDATE_AUTHORIZED''\<rparr>"
  have "\<exists>x db'. partner_request_run 5 ''c1'' ''FTPA-1'' (Request_disbursement ''d1'') demo_mandated = (Inr x, db')"
    by (simp add: partner_request_run_def requestDisbursement_write_def partner_finish_def update_one_def)
  then obtain x db' where run: "partner_request_run 5 ''c1'' ''FTPA-1'' (Request_disbursement ''d1'') demo_mandated = (Inr x, db')"
    by blast
  have u: "unique_keys pp_id (partner_apps demo_mandated)" "unique_keys pp_partnerApplicationId (partner_apps demo_mandated)"
    and r: "resolvePartnerApplication ''FTPA-1'' ''c1'' (partner_apps demo_mandated) = Inr ?a" by simp_all
  from disbursal_retry_refused [OF u r demo_mandated_check run, of 6] run show ?thesis by blast
qed

definition demo_profile :: profile_dto where
  "demo_profile = \<lparr>pr_firstName = None, pr_lastName = None, pr_dateOfBirth = None, pr_gender = Some ''PREFER_NOT_TO_SAY'',
     pr_addresses = Some [''a''], pr_verification = Some (''PAN'', True), pr_json = ''{}''\<rparr>"

lemma fourth_gender_fails_witness:
  "partner_request_run 5 ''c1'' ''FTPA-1'' (Update_profile demo_profile) (flow_in ''CONSENT_RECORDED'')
   = (Inl (PartnerDb ''PrismaClientValidationError''), flow_in ''CONSENT_RECORDED'')"
proof -
  have "op_check (Update_profile demo_profile) (flow_in ''CONSENT_RECORDED'') (demo_partner_app\<lparr>pp_status := ''CONSENT_RECORDED''\<rparr>) = Go"
    by (simp add: updateProfile_check_def of_transition_passes transition_sources demo_profile_def truthy_str_def)
  with fourth_gender_fails [of "''FTPA-1''" "''c1''" "flow_in ''CONSENT_RECORDED''"] show ?thesis
    by (simp add: demo_profile_def)
qed

lemma stale_request_leaves_rejection_witness:
  "\<exists>db'. op_write 5 ''c1'' (Request_pre_approval None None) (demo_partner_app\<lparr>pp_status := ''PROFILE_COMPLETE''\<rparr>) (flow_in ''REJECTED'')
     = Inr (demo_partner_app\<lparr>pp_status := ''PRE_APPROVAL_PENDING''\<rparr>, db')"
  using stale_request_leaves_rejection [of "demo_partner_app\<lparr>pp_status := ''PROFILE_COMPLETE''\<rparr>" "flow_in ''REJECTED''"
      "demo_partner_app\<lparr>pp_status := ''REJECTED''\<rparr>" 5 "''c1''" None None]
  by (simp add: flow_in_def new_application_def)

lemma approval_keeps_rejection_reason_witness:
  "\<exists>db1 db2 d. resolvePreApproval 5 ''p1'' False ''r1'' (Some ''LOW_SCORE'') (Some 30) None (flow_in ''PRE_APPROVAL_PENDING'') = Inr db1
     \<and> resolvePreApproval 6 ''p1'' True ''r2'' None None None db1 = Inr db2 \<and> d \<in> set (fl_decisions db2)
     \<and> dn_outcome d = ''APPROVED'' \<and> dn_reason d = Some ''LOW_SCORE''"
proof -
  have "\<exists>db1. resolvePreApproval 5 ''p1'' False ''r1'' (Some ''LOW_SCORE'') (Some 30) None (flow_in ''PRE_APPROVAL_PENDING'') = Inr db1"
    by (simp add: resolvePreApproval_def decide_def partner_finish_def update_one_def)
  then obtain db1 where r1: "resolvePreApproval 5 ''p1'' False ''r1'' (Some ''LOW_SCORE'') (Some 30) None (flow_in ''PRE_APPROVAL_PENDING'') = Inr db1"
    by blast
  then have p: "\<exists>a. find_unique pp_id ''p1'' (partner_apps db1) = Some a"
    by (auto simp: resolvePreApproval_def decide_def partner_finish_Inr split: sum.splits)
  then have "\<exists>db2. resolvePreApproval 6 ''p1'' True ''r2'' None None None db1 = Inr db2"
    by (auto simp: resolvePreApproval_def decide_def partner_finish_def update_one_def dest: find_unique_Some_D split: option.split)
  then obtain db2 where r2: "resolvePreApproval 6 ''p1'' True ''r2'' None None None db1 = Inr db2" by blast
  from r2 p decide_decisions have "(''p1'', ''PRE_APPROVAL'') \<in> decision_key ` set (fl_decisions db2)"
    unfolding resolvePreApproval_def by (fastforce simp: upsert_decision_keys decision_key_def [of "\<lparr>dn_app = _, dn_type = _, dn_outcome = _, dn_reference = _, dn_at = _, dn_reason = _, dn_coolingOffDays = _, dn_nextCheckAt = _, dn_offer = _\<rparr>"])
  then obtain d where d: "d \<in> set (fl_decisions db2)" "decision_key d = (''p1'', ''PRE_APPROVAL'')" by auto
  have "find_unique pp_id ''p1'' (partner_apps (flow_in ''PRE_APPROVAL_PENDING'')) = Some (demo_partner_app\<lparr>pp_status := ''PRE_APPROVAL_PENDING''\<rparr>)"
    by simp
  from approval_keeps_rejection_reason [OF this r1 r2 d] d r1 r2 show ?thesis by blast
qed

end
