(* ===== verification/PartnerWebhooks.thy ===== *)
theory PartnerWebhooks
  imports PartnerAccess
begin

text \<open>
  The outbox of events for partners and its worker (partner-webhook.service.ts). A process claims one
  event at a time, posts it to the partner's address, and books the outcome; several processes may
  run. What happens to the post is an argument: it is delivered, it fails with a message, or the
  process is lost before the outcome is booked.
\<close>

section \<open>Data\<close>

datatype hook_status = H_PENDING | H_PROCESSING | H_SUCCESS | H_FAILED | H_DEAD_LETTER

record partner_event =
  pe_id :: ident
  pe_clientId :: ident
  pe_app :: "ident option"
  pe_type :: string
  pe_payload :: string
  pe_status :: hook_status
  pe_attempts :: nat
  pe_nextAttemptAt :: "time option"
  pe_failure :: "string option"
  pe_createdAt :: time

definition PARTNER_WEBHOOK_MAX_ATTEMPTS :: nat where
  "PARTNER_WEBHOOK_MAX_ATTEMPTS = 8"

definition PARTNER_WEBHOOK_RETRY_SCHEDULE_SECONDS :: "int list" where
  "PARTNER_WEBHOOK_RETRY_SCHEDULE_SECONDS = [0, 30, 120, 600, 1800, 3600, 7200, 14400]"

text \<open>An event as the steps of an application queue it: client, application, type.\<close>

definition enqueued :: "ident \<Rightarrow> string \<Rightarrow> time \<Rightarrow> ident \<times> ident \<times> string \<Rightarrow> partner_event" where
  "enqueued newId payload now ev =
     (case ev of (client, app, type) \<Rightarrow>
        \<lparr>pe_id = newId, pe_clientId = client, pe_app = Some app, pe_type = type, pe_payload = payload,
         pe_status = H_PENDING, pe_attempts = 0, pe_nextAttemptAt = Some now, pe_failure = None, pe_createdAt = now\<rparr>)"

section \<open>The worker\<close>

definition claimable :: "time \<Rightarrow> partner_event \<Rightarrow> bool" where
  "claimable now e \<longleftrightarrow>
     pe_status e \<in> {H_PENDING, H_FAILED} \<and> (case pe_nextAttemptAt e of None \<Rightarrow> True | Some t \<Rightarrow> t \<le> now)"

text \<open>\<open>ORDER BY nextAttemptAt ASC, createdAt ASC\<close>; the database puts NULL first.\<close>

definition due_order :: "partner_event list \<Rightarrow> partner_event list" where
  "due_order es =
     sort_key (\<lambda>e. pe_nextAttemptAt e \<noteq> None)
       (sort_key (\<lambda>e. case pe_nextAttemptAt e of None \<Rightarrow> 0 | Some t \<Rightarrow> t) (sort_key pe_createdAt es))"

definition processing :: "partner_event \<Rightarrow> partner_event" where
  "processing e = e\<lparr>pe_status := H_PROCESSING\<rparr>"

definition claimNextEvent :: "time \<Rightarrow> partner_event list \<Rightarrow> partner_event option \<times> partner_event list" where
  "claimNextEvent now es =
     (case due_order (filter (claimable now) es) of
        [] \<Rightarrow> (None, es)
      | e # _ \<Rightarrow>
          (Some (processing e), update_many (\<lambda>x. pe_id x = pe_id e \<and> pe_status x \<in> {H_PENDING, H_FAILED}) processing es))"

definition retry_delay_seconds :: "nat \<Rightarrow> int" where
  "retry_delay_seconds attempts =
     (let i = min attempts (length PARTNER_WEBHOOK_RETRY_SCHEDULE_SECONDS - 1) in
      if i < length PARTNER_WEBHOOK_RETRY_SCHEDULE_SECONDS then PARTNER_WEBHOOK_RETRY_SCHEDULE_SECONDS ! i else 14400)"

text \<open>What is posted, and to whom.\<close>

record webhook_post =
  wp_event :: ident
  wp_url :: string
  wp_body :: string
  wp_timestamp :: string
  wp_signature :: string
  wp_type :: string

definition webhook_target :: "partner_client list \<Rightarrow> partner_event \<Rightarrow> (string \<times> string) option" where
  "webhook_target clients e =
     (case find_unique pc_id (pe_clientId e) clients of
        None \<Rightarrow> None
      | Some c \<Rightarrow>
          (case (truthy_str (pc_webhookUrl c), truthy_str (pc_webhookSecret c)) of
             (Some url, Some secret) \<Rightarrow> Some (url, secret)
           | _ \<Rightarrow> None))"

definition webhook_post_of :: "(string \<Rightarrow> string \<Rightarrow> string) \<Rightarrow> time \<Rightarrow> string \<times> string \<Rightarrow> partner_event \<Rightarrow> webhook_post" where
  "webhook_post_of hmac now target e =
     \<lparr>wp_event = pe_id e, wp_url = fst target, wp_body = pe_payload e, wp_timestamp = show_int now,
      wp_signature = hmac (snd target) (show_int now @ CHR 0x0A # pe_payload e), wp_type = pe_type e\<rparr>"

definition success_data :: "partner_event \<Rightarrow> partner_event" where
  "success_data r = r\<lparr>pe_status := H_SUCCESS\<rparr>"

text \<open>The claimed event \<open>e\<close> gives the number of attempts.\<close>

definition failure_data :: "time \<Rightarrow> string \<Rightarrow> partner_event \<Rightarrow> partner_event \<Rightarrow> partner_event" where
  "failure_data now message e r =
     (let attempts = pe_attempts e + 1; dead = attempts \<ge> PARTNER_WEBHOOK_MAX_ATTEMPTS in
      r\<lparr>pe_status := (if dead then H_DEAD_LETTER else H_FAILED), pe_attempts := attempts,
        pe_failure := Some (take 500 message),
        pe_nextAttemptAt := (if dead then None else Some (now + retry_delay_seconds attempts * 1000))\<rparr>)"

datatype delivery = Delivered | Delivery_failed string

definition booked :: "time \<Rightarrow> partner_client list \<Rightarrow> delivery \<Rightarrow> partner_event \<Rightarrow> partner_event \<Rightarrow> partner_event" where
  "booked now clients outcome e =
     (if webhook_target clients e = None then success_data
      else case outcome of Delivered \<Rightarrow> success_data | Delivery_failed m \<Rightarrow> failure_data now m e)"

definition drain_finish ::
  "time \<Rightarrow> partner_client list \<Rightarrow> delivery \<Rightarrow> partner_event \<Rightarrow> partner_event list \<Rightarrow> partner_event list" where
  "drain_finish now clients outcome e es = update_many (\<lambda>x. pe_id x = pe_id e) (booked now clients outcome e) es"

definition drain_posts ::
  "(string \<Rightarrow> string \<Rightarrow> string) \<Rightarrow> time \<Rightarrow> partner_client list \<Rightarrow> partner_event \<Rightarrow> webhook_post list" where
  "drain_posts hmac now clients e =
     (case webhook_target clients e of None \<Rightarrow> [] | Some t \<Rightarrow> [webhook_post_of hmac now t e])"

text \<open>One turn of a process that is not disturbed.\<close>

definition drainOnce ::
  "(string \<Rightarrow> string \<Rightarrow> string) \<Rightarrow> time \<Rightarrow> partner_client list \<Rightarrow> delivery \<Rightarrow> partner_event list \<Rightarrow>
   bool \<times> webhook_post list \<times> partner_event list" where
  "drainOnce hmac now clients outcome es =
     (case claimNextEvent now es of
        (None, es') \<Rightarrow> (False, [], es')
      | (Some e, es') \<Rightarrow> (True, drain_posts hmac now clients e, drain_finish now clients outcome e es'))"

section \<open>What is claimed\<close>

lemma set_due_order [simp]: "set (due_order es) = set es"
  by (simp add: due_order_def)

lemma claim_Some:
  assumes "claimNextEvent now es = (Some e', es')"
  obtains e where "e \<in> set es" "claimable now e" "e' = processing e" "hd (due_order (filter (claimable now) es)) = e"
    "es' = update_many (\<lambda>x. pe_id x = pe_id e \<and> pe_status x \<in> {H_PENDING, H_FAILED}) processing es"
proof -
  from assms obtain e r where r: "due_order (filter (claimable now) es) = e # r"
    by (auto simp: claimNextEvent_def split: list.splits)
  then have "e \<in> set (filter (claimable now) es)" by (metis list.set_intros(1) set_due_order)
  with assms r that show ?thesis by (auto simp: claimNextEvent_def)
qed

lemma claim_None: "claimNextEvent now es = (None, es') \<longleftrightarrow> es' = es \<and> (\<forall>e\<in>set es. \<not> claimable now e)"
proof -
  have "due_order (filter (claimable now) es) = [] \<longleftrightarrow> (\<forall>e\<in>set es. \<not> claimable now e)"
    unfolding set_empty [symmetric] set_due_order by auto
  then show ?thesis by (auto simp: claimNextEvent_def split: list.split)
qed

lemma retry_delay_values:
  "retry_delay_seconds n = (if n < 8 then PARTNER_WEBHOOK_RETRY_SCHEDULE_SECONDS ! n else 14400)"
  by (auto simp: retry_delay_seconds_def PARTNER_WEBHOOK_RETRY_SCHEDULE_SECONDS_def min_def)

lemma retry_delay_list:
  "map retry_delay_seconds [1..<8] = [30, 120, 600, 1800, 3600, 7200, 14400]"
  by (simp add: retry_delay_values PARTNER_WEBHOOK_RETRY_SCHEDULE_SECONDS_def upt_rec)

lemma hd_sort_key_le:
  assumes "sort_key f xs = e # r" and "x \<in> set xs"
  shows "f e \<le> f x"
proof -
  have "sorted (map f (e # r))" using sorted_sort_key [of f xs] assms(1) by simp
  moreover from assms have "x \<in> set (e # r)" by (metis set_sort)
  ultimately show ?thesis by auto
qed

lemma hd_sort_key_stable:
  assumes "sort_key f xs = e # r" and "x \<in> set xs" and "f x = f e"
    and "xs = sort_key g ys"
  shows "g e \<le> g x"
proof -
  let ?eq = "\<lambda>y. f y = f e"
  have "filter ?eq (e # r) = filter ?eq xs" using sort_key_stable [of f "f e" xs] assms(1) by simp
  then have h: "filter ?eq xs = e # filter ?eq r" by simp
  have "sorted (map g (filter ?eq xs))"
    unfolding assms(4) by (rule sorted_filter) (rule sorted_sort_key)
  moreover have "x \<in> set (filter ?eq xs)" using assms(2,3) by simp
  ultimately show ?thesis unfolding h by auto
qed

text \<open>
  The event a process claims is the one that is due first: an event without a date if there is
  one, else one whose date no other due event precedes.
\<close>

theorem earliest_event_claimed:
  assumes "claimNextEvent now es = (Some e', es')" and "x \<in> set es" and "claimable now x"
  shows "(pe_nextAttemptAt x = None \<longrightarrow> pe_nextAttemptAt e' = None)
    \<and> (\<forall>t t'. pe_nextAttemptAt e' = Some t \<longrightarrow> pe_nextAttemptAt x = Some t' \<longrightarrow> t \<le> t')"
  using assms(1)
proof (rule claim_Some)
  fix e
  let ?xs = "filter (claimable now) es"
  let ?f = "\<lambda>e. pe_nextAttemptAt e \<noteq> None" and ?g = "\<lambda>e. case pe_nextAttemptAt e of None \<Rightarrow> 0 | Some t \<Rightarrow> t"
  let ?ys = "sort_key ?g (sort_key pe_createdAt ?xs)"
  assume e: "e' = processing e" "hd (due_order ?xs) = e" "e \<in> set es" "claimable now e"
  from e(3,4) have "set (due_order ?xs) \<noteq> {}" by auto
  then have "due_order ?xs \<noteq> []" by (metis list.set(1))
  with e(2) obtain r where r: "sort_key ?f ?ys = e # r" by (cases "due_order ?xs") (auto simp: due_order_def)
  have x: "x \<in> set ?ys" using assms(2,3) by simp
  from hd_sort_key_le [OF r x] have "?f e \<le> ?f x" .
  moreover have "?g e \<le> ?g x" if "?f x = ?f e" by (rule hd_sort_key_stable [OF r x that refl])
  moreover have "pe_nextAttemptAt e' = pe_nextAttemptAt e" by (simp add: e(1) processing_def)
  ultimately show ?thesis by (auto simp: le_bool_def)
qed

section \<open>Several processes\<close>

record hook_state =
  hs_events :: "partner_event list"
  hs_busy :: "partner_event list"  \<comment> \<open>claimed, outcome not yet booked\<close>
  hs_posts :: "ident list"  \<comment> \<open>one entry for every post that was made\<close>

definition posted :: "partner_client list \<Rightarrow> partner_event \<Rightarrow> ident list" where
  "posted clients e = (if webhook_target clients e = None then [] else [pe_id e])"

inductive hook_step :: "hook_state \<Rightarrow> hook_state \<Rightarrow> bool" where
  enqueue: "newId \<notin> pe_id ` set (hs_events s) \<Longrightarrow>
     hook_step s (s\<lparr>hs_events := hs_events s @ [enqueued newId payload now ev]\<rparr>)"
| claim: "claimNextEvent now (hs_events s) = (Some e, es) \<Longrightarrow>
     hook_step s (s\<lparr>hs_events := es, hs_busy := e # hs_busy s\<rparr>)"
| book: "e \<in> set (hs_busy s) \<Longrightarrow>
     hook_step s (s\<lparr>hs_events := drain_finish now clients outcome e (hs_events s), hs_busy := remove1 e (hs_busy s),
       hs_posts := posted clients e @ hs_posts s\<rparr>)"
| lost: "e \<in> set (hs_busy s) \<Longrightarrow>
     hook_step s (s\<lparr>hs_busy := remove1 e (hs_busy s), hs_posts := (if after_post then [pe_id e] else []) @ hs_posts s\<rparr>)"

definition posts_of :: "hook_state \<Rightarrow> ident \<Rightarrow> nat" where
  "posts_of s i = count_list (hs_posts s) i"

definition in_hand :: "hook_state \<Rightarrow> ident \<Rightarrow> bool" where
  "in_hand s i \<longleftrightarrow> i \<in> pe_id ` set (hs_busy s)"

text \<open>A row's status, its number of attempts and the posts made for it.\<close>

definition row_ok :: "hook_state \<Rightarrow> partner_event \<Rightarrow> bool" where
  "row_ok s e \<longleftrightarrow>
     (case pe_status e of
        H_PENDING \<Rightarrow> pe_attempts e = 0 \<and> posts_of s (pe_id e) = 0 \<and> pe_nextAttemptAt e \<noteq> None
      | H_FAILED \<Rightarrow> 0 < pe_attempts e \<and> pe_attempts e < 8 \<and> posts_of s (pe_id e) = pe_attempts e \<and> pe_nextAttemptAt e \<noteq> None
      | H_DEAD_LETTER \<Rightarrow> pe_attempts e = 8 \<and> posts_of s (pe_id e) = 8 \<and> pe_nextAttemptAt e = None
      | H_PROCESSING \<Rightarrow> pe_attempts e < 8 \<and> posts_of s (pe_id e) \<le> (if in_hand s (pe_id e) then pe_attempts e else pe_attempts e + 1)
          \<and> (in_hand s (pe_id e) \<longrightarrow> posts_of s (pe_id e) = pe_attempts e)
      | H_SUCCESS \<Rightarrow> pe_attempts e < 8 \<and> posts_of s (pe_id e) \<le> pe_attempts e + 1)"

definition hook_inv :: "hook_state \<Rightarrow> bool" where
  "hook_inv s \<longleftrightarrow>
     unique_keys pe_id (hs_events s) \<and> distinct (map pe_id (hs_busy s))
     \<and> (\<forall>e\<in>set (hs_busy s). e \<in> set (hs_events s) \<and> pe_status e = H_PROCESSING)
     \<and> set (hs_posts s) \<subseteq> pe_id ` set (hs_events s)
     \<and> (\<forall>e\<in>set (hs_events s). row_ok s e)"

lemma hook_invD:
  assumes "hook_inv s"
  shows "unique_keys pe_id (hs_events s)" "distinct (map pe_id (hs_busy s))"
    "\<And>e. e \<in> set (hs_busy s) \<Longrightarrow> e \<in> set (hs_events s) \<and> pe_status e = H_PROCESSING"
    "set (hs_posts s) \<subseteq> pe_id ` set (hs_events s)" "\<And>e. e \<in> set (hs_events s) \<Longrightarrow> row_ok s e"
  using assms by (simp_all add: hook_inv_def)

lemma keep_id [simp]:
  "pe_id (processing e) = pe_id e" "pe_id (success_data e) = pe_id e" "pe_id (failure_data now m c e) = pe_id e"
  "pe_id (booked now clients outcome c e) = pe_id e"
  by (simp_all add: processing_def success_data_def failure_data_def booked_def Let_def split: delivery.split)

text \<open>A row that a step does not touch stays in order.\<close>

lemma row_ok_same:
  "posts_of s' (pe_id e) = posts_of s (pe_id e) \<Longrightarrow> in_hand s' (pe_id e) = in_hand s (pe_id e) \<Longrightarrow> row_ok s e \<Longrightarrow> row_ok s' e"
  by (auto simp: row_ok_def split: hook_status.splits)

lemma in_hand_remove1:
  assumes "distinct (map pe_id b)" and "e \<in> set b"
  shows "i \<in> pe_id ` set (remove1 e b) \<longleftrightarrow> i \<in> pe_id ` set b \<and> i \<noteq> pe_id e"
proof -
  have "distinct b" using assms(1) by (simp add: distinct_map)
  then have "set (remove1 e b) = set b - {e}" by simp
  with assms show ?thesis by (auto simp: distinct_map inj_on_def)
qed

lemma enqueue_inv:
  assumes "hook_inv s" and new: "newId \<notin> pe_id ` set (hs_events s)"
  shows "hook_inv (s\<lparr>hs_events := hs_events s @ [enqueued newId payload now ev]\<rparr>)" (is "hook_inv ?s'")
proof -
  let ?r = "enqueued newId payload now ev"
  note i = hook_invD [OF assms(1)]
  have r: "pe_id ?r = newId" "pe_status ?r = H_PENDING" "pe_attempts ?r = 0" "pe_nextAttemptAt ?r = Some now"
    by (simp_all add: enqueued_def split: prod.split)
  have "row_ok ?s' e" if "e \<in> set (hs_events s)" for e
    by (rule row_ok_same [of _ _ s]) (simp_all add: posts_of_def in_hand_def i(5) that)
  moreover have "newId \<notin> set (hs_posts s)" using i(4) new by auto
  then have "row_ok ?s' ?r" by (simp add: row_ok_def r posts_of_def)
  ultimately show ?thesis using i new r by (auto simp: hook_inv_def)
qed

lemma claim_inv:
  assumes "hook_inv s" and "claimNextEvent now (hs_events s) = (Some e', es)"
  shows "hook_inv (s\<lparr>hs_events := es, hs_busy := e' # hs_busy s\<rparr>)" (is "hook_inv ?s'")
  using assms(2)
proof (rule claim_Some)
  fix e :: partner_event
  let ?P = "\<lambda>x. pe_id x = pe_id e \<and> pe_status x \<in> {H_PENDING, H_FAILED}"
  assume e: "e \<in> set (hs_events s)" "claimable now e" "e' = processing e" "es = update_many ?P processing (hs_events s)"
  note i = hook_invD [OF assms(1)]
  have st: "pe_status e \<in> {H_PENDING, H_FAILED}" using e(2) by (simp add: claimable_def)
  have only: "x = e" if "x \<in> set (hs_events s)" "pe_id x = pe_id e" for x
    using unique_keys_eq [OF i(1) that(1) e(1) that(2)] .
  have free: "pe_id e \<notin> pe_id ` set (hs_busy s)" using i(3) only st by fastforce
  have rows: "x \<in> set es \<longleftrightarrow> x = e' \<or> x \<in> set (hs_events s) \<and> x \<noteq> e" for x
  proof -
    have "?P r \<longleftrightarrow> r = e" if "r \<in> set (hs_events s)" for r using only [OF that] st by blast
    then have "set es = (\<lambda>r. if r = e then e' else r) ` set (hs_events s)"
      unfolding e(4) set_update_many e(3) by (intro image_cong) simp_all
    with e(1) show ?thesis by auto
  qed
  have "row_ok ?s' x" if "x \<in> set es" for x
  proof (cases "x = e'")
    case True
    with i(5) [OF e(1)] st show ?thesis
      by (auto simp: row_ok_def e(3) processing_def posts_of_def in_hand_def split: hook_status.splits)
  next
    case False
    with that rows only have x: "x \<in> set (hs_events s)" "pe_id x \<noteq> pe_id e" by auto
    with row_ok_same [OF _ _ i(5) [OF x(1)], of ?s'] show ?thesis by (auto simp: posts_of_def in_hand_def e(3))
  qed
  moreover have "y \<in> set es \<and> pe_status y = H_PROCESSING" if "y \<in> set (hs_busy ?s')" for y
  proof (cases "y = e'")
    case True
    with rows [of y] show ?thesis by (simp add: e(3) processing_def)
  next
    case False
    with that have "y \<in> set (hs_busy s)" by simp
    with i(3) have y: "y \<in> set (hs_events s)" "pe_status y = H_PROCESSING" by blast+
    then have "y \<noteq> e" using st by auto
    with y rows [of y] show ?thesis by blast
  qed
  moreover have "distinct (map pe_id (hs_busy ?s'))" using i(2) free by (simp add: e(3))
  moreover have "pe_id ` set es = pe_id ` set (hs_events s)" unfolding e(4) by (rule keys_update_many) simp
  moreover have "unique_keys pe_id es" unfolding e(4) by (rule unique_keys_update_many) (simp_all add: i(1))
  ultimately show ?thesis using i(4) by (simp add: hook_inv_def)
qed

lemma book_inv:
  assumes "hook_inv s" and "e \<in> set (hs_busy s)"
  shows "hook_inv (s\<lparr>hs_events := drain_finish now clients outcome e (hs_events s), hs_busy := remove1 e (hs_busy s),
       hs_posts := posted clients e @ hs_posts s\<rparr>)" (is "hook_inv ?s'")
proof -
  note i = hook_invD [OF assms(1)]
  let ?f = "booked now clients outcome e"
  from i(3) [OF assms(2)] have e: "e \<in> set (hs_events s)" "pe_status e = H_PROCESSING" by auto
  have only: "x = e" if "x \<in> set (hs_events s)" "pe_id x = pe_id e" for x
    using unique_keys_eq [OF i(1) that(1) e(1) that(2)] .
  have rows: "x \<in> set (hs_events ?s') \<longleftrightarrow> x = ?f e \<or> x \<in> set (hs_events s) \<and> x \<noteq> e" for x
  proof -
    have "pe_id r = pe_id e \<longleftrightarrow> r = e" if "r \<in> set (hs_events s)" for r using only [OF that] by blast
    then have "set (drain_finish now clients outcome e (hs_events s)) = (\<lambda>r. if r = e then ?f e else r) ` set (hs_events s)"
      unfolding drain_finish_def set_update_many by (intro image_cong) simp_all
    with e(1) show ?thesis by auto
  qed
  have busy: "in_hand ?s' j \<longleftrightarrow> in_hand s j \<and> j \<noteq> pe_id e" for j
    using in_hand_remove1 [OF i(2) assms(2)] by (simp add: in_hand_def)
  have posts: "posts_of ?s' j = posts_of s j" if "j \<noteq> pe_id e" for j
    using that by (simp add: posts_of_def posted_def)
  have ps: "posts_of s (pe_id e) = pe_attempts e" "pe_attempts e < 8"
    using i(5) [OF e(1)] assms(2) by (auto simp: row_ok_def e(2) in_hand_def)
  have "row_ok ?s' x" if "x \<in> set (hs_events ?s')" for x
  proof (cases "x = ?f e")
    case True
    with ps show ?thesis
      by (auto simp: row_ok_def booked_def success_data_def failure_data_def posts_of_def posted_def Let_def
          PARTNER_WEBHOOK_MAX_ATTEMPTS_def split: delivery.split)
  next
    case False
    with that rows only have x: "x \<in> set (hs_events s)" "pe_id x \<noteq> pe_id e" by auto
    from row_ok_same [OF posts [OF x(2)] _ i(5) [OF x(1)]] busy x(2) show ?thesis by simp
  qed
  moreover have "y \<in> set (hs_events ?s') \<and> pe_status y = H_PROCESSING" if "y \<in> set (hs_busy ?s')" for y
  proof -
    from that have y: "y \<in> set (hs_busy s)" by (auto dest: in_set_remove1D)
    from that busy have "pe_id y \<noteq> pe_id e" by (auto simp: in_hand_def)
    with i(3) [OF y] rows show ?thesis by auto
  qed
  moreover have "pe_id ` set (hs_events ?s') = pe_id ` set (hs_events s)" by (simp add: drain_finish_def keys_update_many)
  moreover have "unique_keys pe_id (hs_events ?s')" by (simp add: drain_finish_def unique_keys_update_many i(1))
  moreover have "distinct (map pe_id (hs_busy ?s'))" using i(2) by (simp add: distinct_map_remove1)
  moreover have "set (posted clients e) \<subseteq> pe_id ` set (hs_events s)" using e(1) by (simp add: posted_def)
  ultimately show ?thesis using i(4) by (auto simp: hook_inv_def)
qed

lemma lost_inv:
  assumes "hook_inv s" and "e \<in> set (hs_busy s)"
  shows "hook_inv (s\<lparr>hs_busy := remove1 e (hs_busy s), hs_posts := (if after_post then [pe_id e] else []) @ hs_posts s\<rparr>)"
    (is "hook_inv ?s'")
proof -
  note i = hook_invD [OF assms(1)]
  from i(3) [OF assms(2)] have e: "e \<in> set (hs_events s)" "pe_status e = H_PROCESSING" by auto
  have busy: "in_hand ?s' j \<longleftrightarrow> in_hand s j \<and> j \<noteq> pe_id e" for j
    using in_hand_remove1 [OF i(2) assms(2)] by (simp add: in_hand_def)
  have ps: "posts_of s (pe_id e) = pe_attempts e" "pe_attempts e < 8"
    using i(5) [OF e(1)] assms(2) by (auto simp: row_ok_def e(2) in_hand_def)
  have "row_ok ?s' x" if x: "x \<in> set (hs_events s)" for x
  proof (cases "pe_id x = pe_id e")
    case True
    with unique_keys_eq [OF i(1) x e(1)] have "x = e" by blast
    with ps e(2) busy show ?thesis by (auto simp: row_ok_def posts_of_def)
  next
    case False
    then have "posts_of ?s' (pe_id x) = posts_of s (pe_id x)" by (simp add: posts_of_def)
    from row_ok_same [OF this _ i(5) [OF x]] busy False show ?thesis by simp
  qed
  moreover have "distinct (map pe_id (hs_busy ?s'))" using i(2) by (simp add: distinct_map_remove1)
  ultimately show ?thesis using i e(1) by (auto simp: hook_inv_def dest: in_set_remove1D)
qed

lemma hook_step_inv: "hook_step s s' \<Longrightarrow> hook_inv s \<Longrightarrow> hook_inv s'"
  by (induction rule: hook_step.induct) (rule enqueue_inv claim_inv book_inv lost_inv; assumption)+

lemma hook_steps_inv: "hook_step\<^sup>*\<^sup>* s s' \<Longrightarrow> hook_inv s \<Longrightarrow> hook_inv s'"
  by (induction rule: rtranclp_induct) (auto intro: hook_step_inv)

text \<open>
  C37. However the processes interleave, fail and are lost: no event is in two hands at a time, and
  no event is posted more than eight times. An event that was given up was posted eight times, one
  that failed as often as it says.
\<close>

theorem webhook_posts_bounded:
  assumes "hook_step\<^sup>*\<^sup>* \<lparr>hs_events = [], hs_busy = [], hs_posts = []\<rparr> s"
  shows "distinct (map pe_id (hs_busy s))
    \<and> (\<forall>e\<in>set (hs_events s). posts_of s (pe_id e) \<le> 8 \<and> (pe_status e = H_DEAD_LETTER \<longrightarrow> posts_of s (pe_id e) = 8)
        \<and> (pe_status e = H_FAILED \<longrightarrow> posts_of s (pe_id e) = pe_attempts e \<and> pe_attempts e < 8))"
proof -
  have "hook_inv \<lparr>hs_events = [], hs_busy = [], hs_posts = []\<rparr>" by (simp add: hook_inv_def)
  from hook_invD [OF hook_steps_inv [OF assms this]]
  have "distinct (map pe_id (hs_busy s))" "\<forall>e\<in>set (hs_events s). row_ok s e" by blast+
  moreover have "posts_of s (pe_id e) \<le> 8 \<and> (pe_status e = H_DEAD_LETTER \<longrightarrow> posts_of s (pe_id e) = 8)
      \<and> (pe_status e = H_FAILED \<longrightarrow> posts_of s (pe_id e) = pe_attempts e \<and> pe_attempts e < 8)" if "row_ok s e" for e
    using that by (cases "pe_status e") (auto simp: row_ok_def split: if_splits)
  ultimately show ?thesis by blast
qed

lemma stuck_step:
  assumes "hook_step s s'" and "hook_inv s" and "e \<in> set (hs_events s)" "pe_status e = H_PROCESSING" "\<not> in_hand s (pe_id e)"
  shows "e \<in> set (hs_events s') \<and> \<not> in_hand s' (pe_id e)"
  using assms
proof (induction rule: hook_step.induct)
  case (enqueue newId s payload now ev)
  then show ?case by (simp add: in_hand_def)
next
  case (claim now s e' es)
  from claim.hyps show ?case
  proof (rule claim_Some)
    fix c assume c: "c \<in> set (hs_events s)" "claimable now c" "e' = processing c"
      "es = update_many (\<lambda>x. pe_id x = pe_id c \<and> pe_status x \<in> {H_PENDING, H_FAILED}) processing (hs_events s)"
    have "e \<noteq> c" using claim.prems(3) c(2) by (auto simp: claimable_def)
    then have n: "pe_id e \<noteq> pe_id c" using unique_keys_eq [OF hook_invD(1) [OF claim.prems(1)] claim.prems(2) c(1)] by blast
    then have "e \<in> set es" unfolding c(4) by (intro untouched_row claim.prems(2)) simp
    with n c(3) claim.prems(4) show ?thesis by (simp add: in_hand_def)
  qed
next
  case (book c s clients now outcome)
  then have n: "pe_id e \<noteq> pe_id c" by (auto simp: in_hand_def)
  then have "e \<in> set (drain_finish now clients outcome c (hs_events s))"
    unfolding drain_finish_def by (intro untouched_row book.prems(2)) simp
  with book.prems(4) show ?case by (auto simp: in_hand_def dest: in_set_remove1D)
next
  case (lost c s after_post)
  then show ?case by (auto simp: in_hand_def dest: in_set_remove1D)
qed

text \<open>
  Nothing looks for events whose process was lost: an event that is being processed and in no
  process's hand stays exactly so, whatever happens afterwards.
\<close>

theorem abandoned_event_stuck:
  assumes "hook_step\<^sup>*\<^sup>* s s'" and "hook_inv s" and "e \<in> set (hs_events s)" "pe_status e = H_PROCESSING" "\<not> in_hand s (pe_id e)"
  shows "e \<in> set (hs_events s') \<and> \<not> in_hand s' (pe_id e)"
  using assms(1)
proof (induction rule: rtranclp_induct)
  case base
  from assms show ?case by blast
next
  case (step y z)
  from hook_steps_inv [OF step.hyps(1) assms(2)] stuck_step [OF step.hyps(2)] step.IH assms(4) show ?case by blast
qed

section \<open>One event by itself\<close>

text \<open>The row after a sequence of turns in which the partner has an address and a secret.\<close>

fun tried :: "(time \<times> delivery) list \<Rightarrow> partner_event \<Rightarrow> partner_event" where
  "tried [] e = e"
| "tried ((now, outcome) # os) e =
     (if claimable now e
      then tried os ((case outcome of Delivered \<Rightarrow> success_data
                      | Delivery_failed m \<Rightarrow> failure_data now m (processing e)) (processing e))
      else tried os e)"

lemma target_processing [simp]: "webhook_target clients (processing e) = webhook_target clients e"
  by (simp add: webhook_target_def processing_def)

lemma tried_is_drain:
  assumes "webhook_target clients e \<noteq> None" and "claimable now e"
  shows "snd (snd (drainOnce hmac now clients outcome [e])) = [tried [(now, outcome)] e]"
proof -
  have "claimNextEvent now [e] = (Some (processing e), [processing e])"
    using assms(2) by (auto simp: claimNextEvent_def due_order_def claimable_def)
  then show ?thesis
    using assms by (cases outcome) (auto simp: drainOnce_def drain_finish_def booked_def)
qed

text \<open>Turns that each come when the event is due.\<close>

fun due_turns :: "(time \<times> string) list \<Rightarrow> partner_event \<Rightarrow> bool" where
  "due_turns [] e \<longleftrightarrow> True"
| "due_turns ((now, m) # ts) e \<longleftrightarrow> claimable now e \<and> due_turns ts (failure_data now m (processing e) (processing e))"

lemma tried_failures:
  "due_turns ts e \<Longrightarrow> ts \<noteq> [] \<Longrightarrow> length ts + pe_attempts e \<le> 8 \<Longrightarrow>
     (let r = tried (map (\<lambda>(now, m). (now, Delivery_failed m)) ts) e in
      pe_attempts r = length ts + pe_attempts e \<and> pe_status r = (if length ts + pe_attempts e = 8 then H_DEAD_LETTER else H_FAILED)
      \<and> pe_nextAttemptAt r = (if length ts + pe_attempts e = 8 then None
          else Some (fst (last ts) + retry_delay_seconds (length ts + pe_attempts e) * 1000)))"
proof (induction ts e rule: due_turns.induct)
  case (2 now m ts e)
  let ?r = "failure_data now m (processing e) (processing e)"
  have a: "pe_attempts ?r = Suc (pe_attempts e)"
    by (simp add: failure_data_def processing_def Let_def)
  show ?case
  proof (cases "ts = []")
    case True
    with 2 show ?thesis
      by (auto simp: failure_data_def processing_def Let_def PARTNER_WEBHOOK_MAX_ATTEMPTS_def)
  next
    case False
    with 2 a show ?thesis by (simp add: Let_def)
  qed
qed simp

text \<open>
  An event whose every delivery fails waits 30 seconds, 2, 10 and 30 minutes, 1, 2 and 4 hours,
  and is given up at the eighth failure; nothing claims it from then on.
\<close>

theorem event_given_up:
  assumes "pe_attempts e = 0" and "due_turns ts e" and "ts \<noteq> []" and "length ts \<le> 8"
  defines "r \<equiv> tried (map (\<lambda>(now, m). (now, Delivery_failed m)) ts) e"
  shows "(length ts = 8 \<longrightarrow> pe_status r = H_DEAD_LETTER \<and> (\<forall>now. \<not> claimable now r))
    \<and> (length ts < 8 \<longrightarrow> pe_status r = H_FAILED \<and> pe_nextAttemptAt r
        = Some (fst (last ts) + [30, 120, 600, 1800, 3600, 7200, 14400] ! (length ts - 1) * 1000))"
proof -
  note t = tried_failures [OF assms(2,3), folded r_def, unfolded Let_def assms(1) add_0_right, OF assms(4)]
  have "retry_delay_seconds n = [30, 120, 600, 1800, 3600, 7200, 14400] ! (n - 1)" if "0 < n" "n < 8" for n
  proof -
    from that have "n - 1 < length [1..<8]" and "[1..<8] ! (n - 1) = n" by simp_all
    then show ?thesis by (metis nth_map retry_delay_list)
  qed
  moreover have "0 < length ts" using assms(3) by simp
  ultimately show ?thesis using t by (auto simp: claimable_def)
qed

section \<open>What does not arrive\<close>

text \<open>
  Without a secret nothing is posted, and the event counts as delivered. A partner that was
  registered without an address never gets a secret, so the address an administrator adds later
  receives no event, and none of them shows as failed.
\<close>

theorem added_address_gets_nothing:
  assumes "createPartner fr dto cs = Inr (c, cs1)" and "mp_webhookUrl dto = None" and "partners_ok cs"
    and "updatePartner (pc_id c) changes cs1 = Inr (c', cs2)"
    and "pe_clientId e = pc_id c" and "claimable now e"
  shows "drainOnce hmac now cs2 outcome [e] = (True, [], [success_data (processing e)])"
proof -
  have ok: "partners_ok cs1" by (rule partner_codes_kept [OF assms(3), of "Create_partner fr dto"]) (simp add: assms(1))
  have "find_unique pc_id (pc_id c) cs1 = Some c" "pc_webhookSecret c = None"
    using assms(1,2) by (auto simp: createPartner_Inr new_partner_def find_unique_append find_unique_None_iff [THEN iffD2])
  with secret_kept [OF ok, of "Update_partner (pc_id c) changes" c' cs2 "pc_id c" c] assms(4)
  obtain p where p: "find_unique pc_id (pe_clientId e) cs2 = Some p" "pc_webhookSecret p = None" by (auto simp: assms(5))
  then have "webhook_target cs2 (processing e) = None" by (simp add: webhook_target_def processing_def split: option.split)
  moreover have "claimNextEvent now [e] = (Some (processing e), [processing e])"
    using assms(6) by (auto simp: claimNextEvent_def due_order_def claimable_def)
  ultimately show ?thesis by (simp add: drainOnce_def drain_posts_def drain_finish_def booked_def processing_def)
qed

text \<open>
  Events are not delivered in order: while one waits for its next attempt, a later one of the
  same application is claimed.
\<close>

theorem failed_event_overtaken:
  assumes "claimable t e1" and "claimable now e2" and "pe_id e1 \<noteq> pe_id e2" and "pe_attempts e1 < 7"
    and "now < t + 30000" and "pe_createdAt e1 < pe_createdAt e2"
  shows "fst (claimNextEvent now [failure_data t m (processing e1) (processing e1), e2]) = Some (processing e2)"
proof -
  have "30 \<le> retry_delay_seconds (Suc (pe_attempts e1))"
  proof -
    have "Suc (pe_attempts e1) \<in> set [1..<8]" using assms(4) by auto
    then have "retry_delay_seconds (Suc (pe_attempts e1)) \<in> set (map retry_delay_seconds [1..<8])" unfolding set_map by (rule imageI)
    then show ?thesis unfolding retry_delay_list by auto
  qed
  then have "\<not> claimable now (failure_data t m (processing e1) (processing e1))"
    using assms(4,5) by (simp add: claimable_def failure_data_def processing_def Let_def PARTNER_WEBHOOK_MAX_ATTEMPTS_def)
  with assms(2) show ?thesis by (simp add: claimNextEvent_def due_order_def)
qed

section \<open>Concrete runs\<close>

definition demo_event :: partner_event where
  "demo_event = enqueued ''e1'' ''{}'' 1000 (''c2'', ''p1'', ''APPLICATION_CREATED'')"

definition demo_later :: partner_event where
  "demo_later = enqueued ''e2'' ''{}'' 2000 (''c2'', ''p1'', ''CONSENT_RECORDED'')"

lemma demo_event_claimed: "claimNextEvent 3000 [demo_event, demo_later] = (Some (processing demo_event), [processing demo_event, demo_later])"
  by (simp add: claimNextEvent_def due_order_def claimable_def demo_event_def demo_later_def enqueued_def processing_def)

lemma earliest_event_claimed_witness:
  "pe_nextAttemptAt (processing demo_event) = Some 1000 \<and> pe_nextAttemptAt demo_later = Some 2000
   \<and> (\<forall>t t'. pe_nextAttemptAt (processing demo_event) = Some t \<longrightarrow> pe_nextAttemptAt demo_later = Some t' \<longrightarrow> t \<le> t')"
proof -
  have "claimable 3000 demo_later" by (simp add: claimable_def demo_later_def enqueued_def)
  from earliest_event_claimed [OF demo_event_claimed _ this]
  have "\<forall>t t'. pe_nextAttemptAt (processing demo_event) = Some t \<longrightarrow> pe_nextAttemptAt demo_later = Some t' \<longrightarrow> t \<le> t'" by simp
  then show ?thesis by (simp add: demo_event_def demo_later_def enqueued_def processing_def)
qed

abbreviation no_hooks :: hook_state where
  "no_hooks \<equiv> \<lparr>hs_events = [], hs_busy = [], hs_posts = []\<rparr>"

text \<open>One event is queued and claimed, and the process is lost after the post.\<close>

definition demo_lost :: hook_state where
  "demo_lost = \<lparr>hs_events = [processing demo_event], hs_busy = [], hs_posts = [''e1'']\<rparr>"

lemma demo_lost_reached: "hook_step\<^sup>*\<^sup>* no_hooks demo_lost"
proof -
  let ?s1 = "\<lparr>hs_events = [demo_event], hs_busy = [], hs_posts = []\<rparr>"
  let ?s2 = "\<lparr>hs_events = [processing demo_event], hs_busy = [processing demo_event], hs_posts = []\<rparr>"
  have "hook_step no_hooks ?s1" using hook_step.enqueue [of "''e1''" no_hooks] by (simp add: demo_event_def)
  moreover have "hook_step ?s1 ?s2"
    using hook_step.claim [of 3000 ?s1 "processing demo_event" "[processing demo_event]"]
    by (simp add: claimNextEvent_def due_order_def claimable_def demo_event_def enqueued_def processing_def)
  moreover have "hook_step ?s2 demo_lost"
    using hook_step.lost [of "processing demo_event" ?s2 True] by (simp add: demo_lost_def demo_event_def enqueued_def)
  ultimately show ?thesis by (meson rtranclp.rtrancl_into_rtrancl rtranclp.rtrancl_refl)
qed

lemma webhook_posts_bounded_witness:
  "distinct (map pe_id (hs_busy demo_lost)) \<and> list_all (\<lambda>e. posts_of demo_lost (pe_id e) \<le> 8) (hs_events demo_lost)"
  using webhook_posts_bounded [OF demo_lost_reached] unfolding list_all_iff by blast

lemma abandoned_event_stuck_witness:
  "\<exists>s. hook_step demo_lost s \<and> processing demo_event \<in> set (hs_events s) \<and> length (hs_events s) = 2"
proof -
  let ?s = "demo_lost\<lparr>hs_events := hs_events demo_lost @ [demo_later]\<rparr>"
  have step: "hook_step demo_lost ?s"
    unfolding demo_later_def
    by (rule hook_step.enqueue) (simp add: demo_lost_def demo_event_def enqueued_def)
  then have steps: "hook_step\<^sup>*\<^sup>* demo_lost ?s" by (rule r_into_rtranclp [where r = hook_step])
  have inv: "hook_inv demo_lost" by (rule hook_steps_inv [OF demo_lost_reached]) (simp add: hook_inv_def)
  have "processing demo_event \<in> set (hs_events demo_lost)" "pe_status (processing demo_event) = H_PROCESSING"
    "\<not> in_hand demo_lost (pe_id (processing demo_event))"
    by (simp_all add: demo_lost_def processing_def in_hand_def)
  from abandoned_event_stuck [OF steps inv this] step show ?thesis
    by (intro exI [of _ ?s]) (simp add: demo_lost_def)
qed

lemma event_given_up_witness:
  "pe_status (tried [(1000, Delivery_failed ''m''), (31000, Delivery_failed ''m'')] demo_event) = H_FAILED
   \<and> pe_nextAttemptAt (tried [(1000, Delivery_failed ''m''), (31000, Delivery_failed ''m'')] demo_event) = Some 151000"
proof -
  have "due_turns [(1000, ''m''), (31000, ''m'')] demo_event"
    by (simp add: demo_event_def enqueued_def claimable_def failure_data_def processing_def Let_def
        PARTNER_WEBHOOK_MAX_ATTEMPTS_def retry_delay_values PARTNER_WEBHOOK_RETRY_SCHEDULE_SECONDS_def)
  moreover have "pe_attempts demo_event = 0" by (simp add: demo_event_def enqueued_def)
  ultimately show ?thesis using event_given_up [of demo_event "[(1000, ''m''), (31000, ''m'')]"] by simp
qed

lemma added_address_gets_nothing_witness:
  "drainOnce demo_hmac 3000 [demo_agency, demo_second\<lparr>pc_webhookUrl := Some ''https://p''\<rparr>] outcome [demo_event]
   = (True, [], [success_data (processing demo_event)])"
proof -
  have c: "createPartner demo_client_fresh demo_create [demo_agency] = Inr (demo_second, [demo_agency, demo_second])" by code_simp
  have u: "updatePartner (pc_id demo_second) demo_hook [demo_agency, demo_second]
    = Inr (demo_second\<lparr>pc_webhookUrl := Some ''https://p''\<rparr>, [demo_agency, demo_second\<lparr>pc_webhookUrl := Some ''https://p''\<rparr>])" by code_simp
  have "mp_webhookUrl demo_create = None" "pe_clientId demo_event = pc_id demo_second" "claimable 3000 demo_event"
    by (simp_all add: demo_create_def demo_event_def demo_second_def enqueued_def claimable_def)
  from added_address_gets_nothing [OF c this(1) demo_partners_ok u this(2,3)] show ?thesis .
qed

lemma failed_event_overtaken_witness:
  "fst (claimNextEvent 3000 [failure_data 2500 ''timeout'' (processing demo_event) (processing demo_event), demo_later])
   = Some (processing demo_later)"
  by (rule failed_event_overtaken) (simp_all add: demo_event_def demo_later_def enqueued_def claimable_def)

end
