(* ===== verification/Spec2Isabelle.thy ===== *)
theory Spec2Isabelle
  imports Lenders AuditLogs SmoothWrr ProductCalc Products MlmEngine MlmPolicies
    PolicyEval PlatformPolicies Accounts AuthSessions AuthSteps Doubles Repayments JsText Attribution Applications LenderOutbox OutboxSteps NameMatch UrlSigner LenderConsents LenderDecisions Referrals CustomerSessions CustomerOtp PartnerAccess PartnerFlow PartnerWebhooks
begin

text \<open>
  A model of the lending platform's back end (src/backend/src, a NestJS service over a Prisma
  database), with the theorems that make its core logic correct.

  \<^bold>\<open>The program.\<close> Lenders are registered and approved (modules/lenders). A lender offers
  products, each with versions of its strategy: amounts, multipliers, pricing (modules/products).
  Eligibility policies of the platform hold rules an applicant must meet
  (modules/platform-policies). Allocation policies split the eligible applications between
  products by percentage (modules/mlm), with smooth weighted round robin. Configuration of all
  four kinds goes through maker and checker: a draft is submitted by its maker, approved by
  someone else, and activated, which supersedes what was active. Administrators log in, hold
  roles and permissions (modules/users, modules/roles, common/guards), and every change leaves
  an audit record (modules/audit-logs).

  \<^bold>\<open>How the model reads the code.\<close> A Prisma model is a list of records, in insertion order; the
  queries the services use are the list functions of theory Prelude. A handler takes what the
  request brings, the time and the fresh identifiers as arguments and returns a result of type
  \<open>http_error + 'a\<close> with the new database. Where a handler reads, decides and then writes in
  separate database calls, the model has a read part and a write part, and a step relation in
  which other requests come between them; the handler that runs alone is their composition.
  A database transaction is one atomic step, except where it decides on reads without a lock. Times are milliseconds as integers, decimals
  (Prisma.Decimal) are rationals, JavaScript values of unknown shape are the type \<open>json\<close>.

  \<^bold>\<open>The theories.\<close>
  \<^item> Prelude: errors, tables, and the locales: \<open>row_store\<close> and \<open>versioned_store\<close> (reads and
    guarded writes by key, optimistic concurrency), \<open>review_flow\<close> (maker and checker),
    \<open>exclusive_rows\<close> and \<open>exclusive_activation\<close> (one active row per group). Each is interpreted
    on the model of the services below.
  \<^item> AuditLogs: \<open>sanitizeObject\<close> and the audit record.
  \<^item> Lenders: lenders.service.ts. Optimistic concurrency by version; the invariant that no
    lender is approved by its maker holds for all interleavings.
  \<^item> ProductCalc: the validation and the principal of product-calculation.service.ts.
  \<^item> Products: products.service.ts, with interleaved requests. At most one version is active as long
    as activations of one product do not overlap; two that do leave two.
  \<^item> SmoothWrr: one step of the round robin and its iteration; the deviation from the
    percentages is bounded and a full period hits them exactly.
  \<^item> MlmEngine: mlm-allocation-engine.service.ts, the allocation of an application. Transactions that
    overlap do what some transactions one after another do, as the unique number of an attempt
    refuses a write with a decision that was read too early.
  \<^item> MlmPolicies: mlm.service.ts, the policies the engine runs with.
  \<^item> PolicyEval: policy-evaluation.service.ts.
  \<^item> PlatformPolicies: platform-policies.service.ts and policy-rule-catalog.ts.
  \<^item> Accounts: users.service.ts, roles.service.ts, permissions.guard.ts.
  \<^item> AuthSessions: auth.service.ts, sessions.service.ts and jwt.strategy.ts.
  \<^item> AuthSteps: the interleaving of these handlers, the invariant of the session and token
    tables, the refinement of a ledger of sessions, and the lock-out of accounts.
  \<^item> Doubles: JavaScript numbers as rationals rounded to 53 binary digits.
  \<^item> Repayments: the schedule, repayments, charges and waivers of loan.service.ts. The invariant of
    the books is stated for amounts in whole rupees, where numbers are exact. A repayment's
    transaction takes no locks, so its reads and its writes are separate steps.
  \<^item> JsText: strings as the services trim and compare them.
  \<^item> Attribution: attribution.service.ts, the first and the last touch of a customer.
  \<^item> Applications: application-transition.service.ts and reapply-cooldown.ts, with the other places
    that create an application, and the writes of eligibility and allocation (customer.service.ts).
    One active application per customer, as long as no inactive one is named; the wait after a rejection.
  \<^item> LenderOutbox: the outbox of calls to the lender and its worker (lender-integration.worker.ts,
    lender-integration-outbox.service.ts, lender-integration.errors.ts and \<open>markStageFailure\<close> of
    lender-integration.service.ts). An event's processing returns or throws; what the lender is told
    is not modelled.
  \<^item> OutboxSteps: several processes that claim, finish, die, recover and are interfered with by
    operators, whose replays check and reset in separate steps. A process works on one event of an
    application at a time; what was completed stays so unless a replay had checked it before; what
    a row looks like.
  \<^item> LenderConsents: consent-catalogue.ts and the operations of lender-integration-outbox.service.ts
    that record consents and queue CREATE, UPDATE and DECISION behind them. Evidence is only added.
  \<^item> LenderDecisions: lender-decision-processor.service.ts and credit-review.service.ts. The status
    of an application as a state machine; what is decided stays decided, when requests are served
    one after another, up to the later rejections by the lender's webhook (loan.service.ts) and by a
    bank account in another name (external-api.service.ts). A stale approval overrides a rejection.
  \<^item> NameMatch: name-matcher.helper.ts. The two-row distance is the least number of edits; the score
    is a percentage, and 100 for the same words in any order.
  \<^item> UrlSigner: document-url-signer.helper.ts and the handler of main.ts that uses it.

  \<^item> Referrals: referral.service.ts and the handlers of referral-customer.controller.ts. Codes,
    the benefit a payout earns, the discount on the fee, and what happens when handlers interleave.
  \<^item> CustomerSessions: \<open>refreshCustomerSession\<close> and \<open>revokeCustomerSessionByToken\<close> of otp.service.ts and
    customer-jwt.strategy.ts. One valid refresh token per session, reuse and logout end it for good.
  \<^item> CustomerOtp: the other operations of otp.service.ts. One request after another, whoever signs in
    presented a code that was sent, in time and within the allowed guesses, and the number is shut
    until the next send; guesses and sends that interleave break this in the ways that are shown.
  \<^item> PartnerAccess: partner-auth.guard.ts, idempotency.interceptor.ts and partner-admin.service.ts. No
    nonce is accepted twice, a retry gets the stored answer, codes of partners are unique.
  \<^item> PartnerFlow: partner-application.service.ts, the journey of a partner's application as a state
    machine whose steps check first and write later; what is on record in which status.
  \<^item> PartnerWebhooks: partner-webhook.service.ts with several processes; posts are bounded, an event
    is in one hand at a time.

  \<^bold>\<open>Bounds and fuel.\<close> \<open>execute_loop\<close> (MlmEngine) terminates because the number of attempts grows
  up to the maximum; no other definition needs fuel except \<open>lead_digit\<close> (PolicyEval), where 330
  turns suffice because a double's decimal exponent is below that.

  \<^bold>\<open>Not modelled.\<close> The assembly of external calls (credit bureaus, account aggregator, message
  providers, lender HTTP clients), file storage and PDF generation are input and output.
  The charges, EMI and APR of an offer (product-calculation.service.ts) are left out, as are read-only
  queries for lists and dashboards and the browser client. The hash functions, password hashing
  and decimal parsing of the libraries are parameters. The database's foreign keys and isolation
  below the level of a transaction are not modelled, and of the columns' lengths only those that
  change what a handler answers. The delivery of messages and the cookies of the browser are left out.
\<close>

end
